(* ===== verification/Go_Prelude.thy ===== *)
theory Go_Prelude
  imports
    Main
    "HOL-Library.Word"
    "HOL-Library.Signed_Division"
    "HOL-Library.AList"
    "HOL-Library.Char_ord"
    "HOL-Library.List_Lexorder"
    "HOL-Library.Product_Lexorder"
    "HOL-Library.Multiset"
begin

text \<open>
  Shared vocabulary of the development: what the Go language and its standard library give to
  every component.  Machine integers are \<open>64 word\<close> values (signed readings through \<open>sint\<close>,
  unsigned ones through \<open>uint\<close>/\<open>unat\<close>), Go's \<open>(value, error)\<close> results are sums whose left
  injection carries the sentinel error the returned error wraps, Go maps are association
  lists (the list order stands for the unspecified iteration order), and \<open>time.Time\<close> is an
  instant together with a zone offset.  The theory also holds the one rounding rule of the
  system, round half to even, as a reference function with its characterisation.
\<close>

section \<open>Collections of rewrite rules\<close>

named_theorems i64_simps \<open>signed readings of 64-bit machine arithmetic\<close>
named_theorems result_simps \<open>results that are errors or values\<close>
named_theorems gomap_simps \<open>lookup and update of Go maps\<close>

section \<open>64-bit machine integers\<close>

type_synonym int64 = "64 word"
type_synonym uint64 = "64 word"

definition fits64 :: "int \<Rightarrow> bool" where
  "fits64 n \<longleftrightarrow> - (2 ^ 63) \<le> n \<and> n < 2 ^ 63"

definition i64 :: "int \<Rightarrow> int64" where
  "i64 n = word_of_int n"

definition MinInt64 :: int64 where
  "MinInt64 = i64 (- (2 ^ 63))"

definition MaxInt64 :: int64 where
  "MaxInt64 = i64 (2 ^ 63 - 1)"

text \<open>Go's \<open>/\<close> and \<open>%\<close> on \<open>int64\<close> truncate towards zero; the callers exclude a zero divisor,
  on which Go panics.\<close>

definition go_quo :: "int64 \<Rightarrow> int64 \<Rightarrow> int64" where
  "go_quo a b = i64 (sint a sdiv sint b)"

definition go_rem :: "int64 \<Rightarrow> int64 \<Rightarrow> int64" where
  "go_rem a b = i64 (sint a smod sint b)"

lemma sint_i64 [i64_simps]: "fits64 n \<Longrightarrow> sint (i64 n) = n"
  by (auto simp: fits64_def i64_def sint_sbintrunc' signed_take_bit_int_eq_self)

lemma i64_sint [simp]: "i64 (sint a) = a"
  by (simp add: i64_def)

lemma fits64_sint [simp]: "fits64 (sint (a :: int64))"
  using sint_ge [of a] sint_lt [of a] by (simp add: fits64_def)

lemma sint_inject [simp]: "sint (a :: int64) = sint b \<longleftrightarrow> a = b"
  by (metis i64_sint)

lemma sint_eq_0_iff [simp]: "sint (a :: int64) = 0 \<longleftrightarrow> a = 0"
  by (metis sint_inject sint_0)

lemma i64_eq_iff: "fits64 m \<Longrightarrow> fits64 n \<Longrightarrow> i64 m = i64 n \<longleftrightarrow> m = n"
  by (metis sint_i64)

lemma sint_Min [simp]: "sint MinInt64 = - (2 ^ 63)"
  by (simp add: MinInt64_def sint_i64 fits64_def)

lemma sint_Max [simp]: "sint MaxInt64 = 2 ^ 63 - 1"
  by (simp add: MaxInt64_def sint_i64 fits64_def)

lemma not_Min_sint: "q \<noteq> MinInt64 \<longleftrightarrow> sint q \<noteq> - (2 ^ 63)"
  by (metis sint_Min sint_inject)

lemma sint_bounds: "- (2 ^ 63) \<le> sint (a :: int64)" "sint (a :: int64) < 2 ^ 63"
  using fits64_sint [of a] by (simp_all add: fits64_def)

lemma word_plus_i64: "(a :: int64) + b = i64 (sint a + sint b)"
  by (simp add: i64_def)

lemma word_minus_i64: "(a :: int64) - b = i64 (sint a - sint b)"
  by (simp add: i64_def)

lemma word_times_i64: "(a :: int64) * b = i64 (sint a * sint b)"
  by (simp add: i64_def)

lemma word_uminus_i64: "- (a :: int64) = i64 (- sint a)"
  by (simp add: i64_def)

lemma sint_plus [i64_simps]: "fits64 (sint a + sint b) \<Longrightarrow> sint ((a :: int64) + b) = sint a + sint b"
  by (simp only: word_plus_i64 sint_i64)

lemma sint_minus [i64_simps]: "fits64 (sint a - sint b) \<Longrightarrow> sint ((a :: int64) - b) = sint a - sint b"
  by (simp only: word_minus_i64 sint_i64)

lemma sint_times [i64_simps]: "fits64 (sint a * sint b) \<Longrightarrow> sint ((a :: int64) * b) = sint a * sint b"
  by (simp only: word_times_i64 sint_i64)

lemma sint_uminus [i64_simps]: "fits64 (- sint a) \<Longrightarrow> sint (- (a :: int64)) = - sint a"
  by (simp only: word_uminus_i64 sint_i64)

text \<open>Wrap-around: a signed product that leaves the range differs from the exact one by a
  nonzero multiple of \<open>2 ^ 64\<close>.\<close>

lemma sint_i64_wrap: "\<exists>k. sint (i64 n) = n + k * 2 ^ 64"
proof -
  have "sint (i64 n) = signed_take_bit 63 n"
    by (simp add: i64_def sint_sbintrunc')
  also have "\<dots> = take_bit 64 (n + 2 ^ 63) - 2 ^ 63"
    by (simp add: signed_take_bit_eq_take_bit_shift)
  also have "\<dots> = (n + 2 ^ 63) mod 2 ^ 64 - 2 ^ 63"
    by (simp add: take_bit_eq_mod)
  finally have eq: "sint (i64 n) = (n + 2 ^ 63) mod 2 ^ 64 - 2 ^ 63" .
  have "(n + 2 ^ 63) mod 2 ^ 64 = (n + 2 ^ 63) - 2 ^ 64 * ((n + 2 ^ 63) div 2 ^ 64)"
    by (rule minus_mult_div_eq_mod [symmetric])
  with eq have "sint (i64 n) = n + (- ((n + 2 ^ 63) div 2 ^ 64)) * 2 ^ 64"
    by simp
  then show ?thesis by blast
qed

lemma sdiv_self_bound: "\<bar>(a :: int) sdiv b\<bar> \<le> \<bar>a\<bar>"
  using sdiv_int_range [of a b] by auto

lemma abs_minus_sdiv_mult: "b \<noteq> 0 \<Longrightarrow> \<bar>(a :: int) - a sdiv b * b\<bar> < \<bar>b\<bar>"
  using smod_int_range [of b a] by (simp add: minus_sdiv_mult_eq_smod) arith

lemma sdiv_mag: "0 < (d :: int) \<Longrightarrow> n sdiv d = sgn n * (\<bar>n\<bar> div d)"
  by (simp add: signed_divide_int_def sgn_mult)

lemma smod_mag:
  assumes "0 < (d :: int)" shows "n smod d = sgn n * (\<bar>n\<bar> mod d)"
proof -
  have "n smod d = sgn n * \<bar>n\<bar> - sgn n * (\<bar>n\<bar> div d) * d"
    using assms by (simp add: minus_sdiv_mult_eq_smod [symmetric] sdiv_mag abs_sgn [symmetric] sgn_mult_abs)
  also have "\<dots> = sgn n * (\<bar>n\<bar> - \<bar>n\<bar> div d * d)" by (simp add: algebra_simps)
  finally show ?thesis by (simp add: minus_div_mult_eq_mod)
qed

lemma mult_sdiv_cancel: "b \<noteq> 0 \<Longrightarrow> (a * b) sdiv b = (a :: int)"
  by (cases "0 < b") (auto simp: signed_divide_int_def sgn_mult abs_mult sgn_mult_abs)

lemma sint_quo [i64_simps]:
  assumes "sint b \<noteq> -1"
  shows "sint (go_quo a b) = sint a sdiv sint b"
proof -
  have "fits64 (sint a sdiv sint b)"
  proof (cases "sint a sdiv sint b = 2 ^ 63")
    case True
    then have big: "\<bar>sint a\<bar> \<ge> 2 ^ 63" using sdiv_self_bound [of "sint a" "sint b"] by simp
    then have a: "sint a = - (2 ^ 63)" using sint_bounds [of a] by linarith
    from True a have "(2 ^ 63 :: int) = - (2 ^ 63) sdiv sint b" by simp
    then have "- (2 ^ 63 :: int) sdiv sint b = - (- (2 ^ 63))" by simp
    then have "sint b = -1" by (subst (asm) int_sdiv_negated_is_minus1) simp_all
    with assms show ?thesis by simp
  next
    case False
    have "\<bar>sint a sdiv sint b\<bar> \<le> 2 ^ 63"
      using sdiv_self_bound [of "sint a" "sint b"] sint_bounds [of a] by linarith
    with False show ?thesis by (auto simp: fits64_def abs_le_iff)
  qed
  then show ?thesis by (simp add: go_quo_def sint_i64)
qed

lemma sint_rem [i64_simps]: "sint (go_rem a b) = sint a smod sint b"
proof -
  have "fits64 (sint a smod sint b)"
  proof (cases "sint b = 0")
    case True
    have "fits64 (sint a smod 0)" by (simp only: smod_int_mod_0 fits64_sint)
    with True show ?thesis by simp
  next
    case False
    then have "\<bar>sint a smod sint b\<bar> \<le> 2 ^ 63 - 1"
      using smod_int_range [of "sint b" "sint a"] sint_bounds [of b] by auto
    then show ?thesis by (auto simp: fits64_def abs_le_iff)
  qed
  then show ?thesis by (simp add: go_rem_def sint_i64)
qed

section \<open>Results: a value or a sentinel error\<close>

text \<open>Go errors are compared with \<open>errors.Is\<close> against package-level sentinels; every error the
  modelled code returns wraps one of these (the message text is not modelled).  Errors that
  wrap no sentinel are \<open>ErrPlain\<close> with the text that identifies them.\<close>

datatype go_error =
    ErrOverflow | ErrInvalidNumber | ErrInexact | ErrNotFinite | ErrInvalidArgument
  | ErrTimeReversal | ErrLoopClosed | ErrCanceled | ErrPlain string

type_synonym 'a result = "go_error + 'a"

definition bindR :: "'a result \<Rightarrow> ('a \<Rightarrow> 'b result) \<Rightarrow> 'b result" where
  "bindR m f = (case m of Inl e \<Rightarrow> Inl e | Inr x \<Rightarrow> f x)"

definition isOk :: "'a result \<Rightarrow> bool" where
  "isOk m \<longleftrightarrow> (case m of Inl _ \<Rightarrow> False | Inr _ \<Rightarrow> True)"

text \<open>A \<open>(value, ok)\<close> pair whose \<open>false\<close> case the caller turns into an error.\<close>

definition orErr :: "go_error \<Rightarrow> 'a option \<Rightarrow> 'a result" where
  "orErr e m = (case m of None \<Rightarrow> Inl e | Some x \<Rightarrow> Inr x)"

lemma bindR_Inl [simp, result_simps]: "bindR (Inl e) f = Inl e"
  and bindR_Inr [simp, result_simps]: "bindR (Inr x) f = f x"
  by (simp_all add: bindR_def)

lemma bindR_eq_Inr [result_simps]: "bindR m f = Inr y \<longleftrightarrow> (\<exists>x. m = Inr x \<and> f x = Inr y)"
  by (cases m) auto

lemma bindR_eq_Inl [result_simps]:
  "bindR m f = Inl e \<longleftrightarrow> m = Inl e \<or> (\<exists>x. m = Inr x \<and> f x = Inl e)"
  by (cases m) auto

lemma bindR_cong [fundef_cong]:
  "m = m' \<Longrightarrow> (\<And>x. m' = Inr x \<Longrightarrow> f x = f' x) \<Longrightarrow> bindR m f = bindR m' f'"
  by (cases m') auto

lemma isOk_simps [simp]: "\<not> isOk (Inl e)" "isOk (Inr x)"
  by (simp_all add: isOk_def)

lemma isOk_iff [result_simps]: "isOk m \<longleftrightarrow> (\<exists>x. m = Inr x)"
  by (cases m) auto

lemma orErr_simps [simp, result_simps]: "orErr e None = Inl e" "orErr e (Some x) = Inr x"
  by (simp_all add: orErr_def)

lemma orErr_eq_Inr [result_simps]: "orErr e m = Inr x \<longleftrightarrow> m = Some x"
  by (cases m) auto

lemma orErr_eq_Inl [result_simps]: "orErr e m = Inl e' \<longleftrightarrow> m = None \<and> e' = e"
  by (cases m) auto

section \<open>Go maps\<close>

text \<open>A Go map is an association list with distinct keys.  \<open>range\<close> visits the entries in the
  list's order; every property of such a traversal is proved for all lists, so it holds for
  every iteration order the runtime may choose.\<close>

type_synonym ('k, 'v) gomap = "('k \<times> 'v) list"

definition mapGet :: "('k, 'v) gomap \<Rightarrow> 'k \<Rightarrow> 'v option" where
  "mapGet m k = map_of m k"

definition mapSet :: "'k \<Rightarrow> 'v \<Rightarrow> ('k, 'v) gomap \<Rightarrow> ('k, 'v) gomap" where
  "mapSet k v m = AList.update k v m"

definition mapDelete :: "'k \<Rightarrow> ('k, 'v) gomap \<Rightarrow> ('k, 'v) gomap" where
  "mapDelete k m = AList.delete k m"

definition mapKeys :: "('k, 'v) gomap \<Rightarrow> 'k list" where
  "mapKeys m = map fst m"

definition mapWf :: "('k, 'v) gomap \<Rightarrow> bool" where
  "mapWf m \<longleftrightarrow> distinct (mapKeys m)"

lemma mapGet_empty [simp, gomap_simps]: "mapGet [] k = None"
  by (simp add: mapGet_def)

lemma mapGet_Cons [gomap_simps]: "mapGet ((a, b) # m) k = (if k = a then Some b else mapGet m k)"
  by (simp add: mapGet_def)

lemma mapGet_set [simp, gomap_simps]: "mapGet (mapSet k v m) k' = (if k' = k then Some v else mapGet m k')"
  by (simp add: mapGet_def mapSet_def update_conv')

lemma mapGet_delete [simp, gomap_simps]: "mapGet (mapDelete k m) k' = (if k' = k then None else mapGet m k')"
  by (simp add: mapGet_def mapDelete_def delete_conv' restrict_map_def)

lemma mapWf_empty [simp]: "mapWf []"
  by (simp add: mapWf_def mapKeys_def)

lemma mapWf_set [simp]: "mapWf m \<Longrightarrow> mapWf (mapSet k v m)"
  by (simp add: mapWf_def mapKeys_def mapSet_def distinct_update)

lemma mapWf_delete [simp]: "mapWf m \<Longrightarrow> mapWf (mapDelete k m)"
  by (simp add: mapWf_def mapKeys_def mapDelete_def distinct_delete)

lemma mapKeys_set: "set (mapKeys (mapSet k v m)) = insert k (set (mapKeys m))"
  by (simp add: mapKeys_def mapSet_def dom_update)

lemma mapGet_in_keys: "mapGet m k \<noteq> None \<longleftrightarrow> k \<in> set (mapKeys m)"
  by (simp add: mapGet_def mapKeys_def map_of_eq_None_iff)

lemma mapGet_SomeD: "mapGet m k = Some v \<Longrightarrow> (k, v) \<in> set m"
  by (auto simp: mapGet_def dest: map_of_SomeD)

lemma mapGet_Some_iff: "mapWf m \<Longrightarrow> mapGet m k = Some v \<longleftrightarrow> (k, v) \<in> set m"
  by (simp add: mapGet_def mapWf_def mapKeys_def)

lemma mapSet_fresh: "mapGet m k = None \<Longrightarrow> mapSet k v m = m @ [(k, v)]"
  by (induction m) (auto simp: mapGet_def mapSet_def split: if_splits)

section \<open>Instants\<close>

text \<open>\<open>time.Time\<close>: the instant in nanoseconds since the Unix epoch and the zone offset in seconds.
  The zero \<open>Time\<close> is midnight of 1 January of year 1 in UTC.\<close>

record gotime =
  t_ns :: int
  t_off :: int

definition zeroTime :: gotime where
  "zeroTime = \<lparr>t_ns = - 62135596800 * 10 ^ 9, t_off = 0\<rparr>"

definition IsZero :: "gotime \<Rightarrow> bool" where
  "IsZero t \<longleftrightarrow> t_ns t = t_ns zeroTime"

definition Before :: "gotime \<Rightarrow> gotime \<Rightarrow> bool" where
  "Before a b \<longleftrightarrow> t_ns a < t_ns b"

definition toUTC :: "gotime \<Rightarrow> gotime" where
  "toUTC t = t\<lparr>t_off := 0\<rparr>"

text \<open>\<open>UnixNano\<close> is an \<open>int64\<close>; outside the years 1678 to 2262 it wraps.\<close>

definition UnixNano :: "gotime \<Rightarrow> int64" where
  "UnixNano t = i64 (t_ns t)"

definition inNanoRange :: "gotime \<Rightarrow> bool" where
  "inNanoRange t \<longleftrightarrow> fits64 (t_ns t)"

lemma sint_UnixNano: "inNanoRange t \<Longrightarrow> sint (UnixNano t) = t_ns t"
  by (simp add: UnixNano_def inNanoRange_def sint_i64)

lemma UnixNano_toUTC [simp]: "UnixNano (toUTC t) = UnixNano t"
  by (simp add: UnixNano_def toUTC_def)

section \<open>Decimal digits\<close>

text \<open>ASCII digits and \<open>strconv\<close>'s base-10 rendering of unsigned integers.\<close>

definition isDigit :: "char \<Rightarrow> bool" where
  "isDigit c \<longleftrightarrow> CHR ''0'' \<le> c \<and> c \<le> CHR ''9''"

definition digitVal :: "char \<Rightarrow> nat" where
  "digitVal c = of_char c - 48"

definition digitChar :: "nat \<Rightarrow> char" where
  "digitChar n = char_of (48 + n)"

fun digvalAcc :: "nat \<Rightarrow> string \<Rightarrow> nat" where
  "digvalAcc a [] = a"
| "digvalAcc a (c # cs) = digvalAcc (a * 10 + digitVal c) cs"

definition digval :: "string \<Rightarrow> nat" where
  "digval s = digvalAcc 0 s"

fun fmtUint :: "nat \<Rightarrow> string" where
  "fmtUint n = (if n < 10 then [digitChar n] else fmtUint (n div 10) @ [digitChar (n mod 10)])"

declare fmtUint.simps [simp del]

lemma isDigit_of_char: "isDigit c \<longleftrightarrow> 48 \<le> (of_char c :: nat) \<and> (of_char c :: nat) \<le> 57"
  by (simp add: isDigit_def less_eq_char_def)

lemma digitVal_less: "isDigit c \<Longrightarrow> digitVal c < 10"
  unfolding isDigit_of_char digitVal_def by linarith

lemma of_char_digitChar: "n < 10 \<Longrightarrow> (of_char (digitChar n) :: nat) = 48 + n"
  by (simp add: digitChar_def)

lemma isDigit_digitChar [simp]: "n < 10 \<Longrightarrow> isDigit (digitChar n)"
  by (simp add: isDigit_of_char of_char_digitChar)

lemma digitVal_digitChar [simp]: "n < 10 \<Longrightarrow> digitVal (digitChar n) = n"
  by (simp add: digitVal_def of_char_digitChar)

text \<open>Code equations that keep evaluation away from the bit-level conversions between characters and numbers.\<close>

fun charNat :: "char \<Rightarrow> nat" where
  "charNat (Char b0 b1 b2 b3 b4 b5 b6 b7) =
     (if b0 then 1 else 0) + (if b1 then 2 else 0) + (if b2 then 4 else 0) + (if b3 then 8 else 0) +
     (if b4 then 16 else 0) + (if b5 then 32 else 0) + (if b6 then 64 else 0) + (if b7 then 128 else 0)"

lemma of_char_charNat: "of_char c = charNat c"
  by (cases c) (simp add: of_char_def)

lemma char_order_code [code]: "(c :: char) \<le> d \<longleftrightarrow> charNat c \<le> charNat d" "(c :: char) < d \<longleftrightarrow> charNat c < charNat d"
  by (simp_all add: less_eq_char_def less_char_def of_char_charNat)

lemma digitVal_code [code]: "digitVal c = charNat c - 48"
  by (simp add: digitVal_def of_char_charNat)

lemma digitChar_table: "n < 10 \<Longrightarrow> digitChar n = ''0123456789'' ! n"
proof -
  assume "n < 10"
  then have "n \<in> {0, 1, 2, 3, 4, 5, 6, 7, 8, 9}" by auto
  then have "48 + n = of_char (''0123456789'' ! n)" by (elim insertE) (simp_all add: of_char_charNat)
  then show ?thesis by (simp add: digitChar_def)
qed

lemma fmtUint_code [code]:
  "fmtUint n = (if n < 10 then [''0123456789'' ! n] else fmtUint (n div 10) @ [''0123456789'' ! (n mod 10)])"
  by (subst fmtUint.simps) (simp add: digitChar_table)

lemma digitChar_digitVal: "isDigit c \<Longrightarrow> digitChar (digitVal c) = c"
  by (simp add: digitVal_def digitChar_def isDigit_of_char)

lemma digitChar_numerals [simp]:
  "digitChar 0 = CHR ''0''" "digitChar (Suc 0) = CHR ''1''" "digitChar 1 = CHR ''1''"
  "digitChar 2 = CHR ''2''" "digitChar 3 = CHR ''3''" "digitChar 4 = CHR ''4''"
  "digitChar 5 = CHR ''5''" "digitChar 6 = CHR ''6''" "digitChar 7 = CHR ''7''"
  "digitChar 8 = CHR ''8''" "digitChar 9 = CHR ''9''"
  by (simp_all add: digitChar_table)

lemma digitVal_0_iff: "isDigit c \<Longrightarrow> digitVal c = 0 \<longleftrightarrow> c = CHR ''0''"
proof -
  assume d: "isDigit c"
  show ?thesis using digitChar_digitVal [OF d] by (auto simp: digitVal_def)
qed

lemma isDigit_0 [simp]: "isDigit CHR ''0''"
  by (simp add: isDigit_of_char)

lemma digvalAcc_eq: "digvalAcc a s = a * 10 ^ length s + digval s"
proof (induction s arbitrary: a)
  case Nil
  then show ?case by (simp add: digval_def)
next
  case (Cons c s)
  have "digvalAcc a (c # s) = (a * 10 + digitVal c) * 10 ^ length s + digval s"
    using Cons.IH by simp
  moreover have "digval (c # s) = digitVal c * 10 ^ length s + digval s"
    using Cons.IH [of "digitVal c"] by (simp add: digval_def)
  ultimately show ?case by (simp add: algebra_simps)
qed

lemma digval_Nil [simp]: "digval [] = 0"
  by (simp add: digval_def)

lemma digval_Cons: "digval (c # s) = digitVal c * 10 ^ length s + digval s"
  using digvalAcc_eq [of "digitVal c" s] by (simp add: digval_def)

lemma digvalAcc_append: "digvalAcc a (s @ t) = digvalAcc (digvalAcc a s) t"
  by (induction s arbitrary: a) auto

lemma digval_append: "digval (s @ t) = digval s * 10 ^ length t + digval t"
  unfolding digval_def [of "s @ t"] digvalAcc_append digval_def [symmetric] by (rule digvalAcc_eq)

lemma digval_less: "list_all isDigit s \<Longrightarrow> digval s < 10 ^ length s"
proof (induction s)
  case (Cons c s)
  then have "digval s < 10 ^ length s" "digitVal c + 1 \<le> 10" using digitVal_less [of c] by auto
  then have "(digitVal c + 1) * 10 ^ length s \<le> 10 * 10 ^ length s" by (intro mult_right_mono) auto
  then have "digitVal c * 10 ^ length s + 10 ^ length s \<le> 10 * 10 ^ length s" by simp
  with \<open>digval s < 10 ^ length s\<close> have "digitVal c * 10 ^ length s + digval s < 10 * 10 ^ length s"
    by linarith
  then show ?case by (simp add: digval_Cons)
qed simp

lemma digval_eq_0: "list_all isDigit s \<Longrightarrow> digval s = 0 \<longleftrightarrow> list_all (\<lambda>c. c = CHR ''0'') s"
  by (induction s) (auto simp: digval_Cons digitVal_0_iff)

lemma digval_replicate_0 [simp]: "digval (replicate n CHR ''0'') = 0"
  by (simp add: digval_eq_0 list_all_iff)

lemma digval_dropWhile_0: "digval (dropWhile (\<lambda>c. c = CHR ''0'') s) = digval s"
  by (induction s) (auto simp: digval_Cons digitVal_def)

lemma fmtUint_digits [simp]: "list_all isDigit (fmtUint n)"
  by (induction n rule: fmtUint.induct) (subst fmtUint.simps, auto)

lemma fmtUint_not_Nil [simp]: "fmtUint n \<noteq> []"
  by (subst fmtUint.simps) simp

lemma digval_fmtUint [simp]: "digval (fmtUint n) = n"
proof (induction n rule: fmtUint.induct)
  case (1 n)
  then show ?case by (subst fmtUint.simps) (auto simp: digval_append digval_Cons)
qed

lemma hd_fmtUint_nonzero: "0 < n \<Longrightarrow> hd (fmtUint n) \<noteq> CHR ''0''"
proof (induction n rule: fmtUint.induct)
  case (1 n)
  show ?case
  proof (cases "n < 10")
    case True
    with 1 have "digitVal (digitChar n) \<noteq> 0" by simp
    then have "digitChar n \<noteq> CHR ''0''" by (auto simp: digitVal_def)
    with True show ?thesis by (subst fmtUint.simps) simp
  next
    case False
    then show ?thesis using 1 by (subst fmtUint.simps) (simp add: hd_append)
  qed
qed

lemma fmtUint_length_le: assumes "0 < n" shows "10 ^ (length (fmtUint n) - 1) \<le> n"
proof (cases "fmtUint n")
  case (Cons c s)
  then have c: "isDigit c" using fmtUint_digits [of n] by simp
  have "digitVal c \<noteq> 0" using hd_fmtUint_nonzero [OF assms] digitVal_0_iff [OF c] Cons by simp
  then have "1 * 10 ^ length s \<le> digitVal c * 10 ^ length s" by (intro mult_right_mono) auto
  also have "\<dots> \<le> digval (fmtUint n)" by (simp add: Cons digval_Cons)
  finally have "10 ^ length s \<le> n" by simp
  then show ?thesis by (simp add: Cons)
qed (use fmtUint_not_Nil in auto)

section \<open>Stable sorting by a key\<close>

lemma sort_key_same_order:
  "(\<forall>x \<in> set xs. \<forall>y \<in> set xs. f x \<le> f y \<longleftrightarrow> g x \<le> g y) \<Longrightarrow> sort_key f xs = sort_key g xs"
proof (induction xs)
  case (Cons x xs)
  have "(\<forall>y \<in> set ys. f x \<le> f y \<longleftrightarrow> g x \<le> g y) \<Longrightarrow> insort_key f x ys = insort_key g x ys" for ys by (induction ys) auto
  then show ?case using Cons by simp
qed simp

lemma sort_key_eq: "(\<forall>x \<in> set xs. f x = g x) \<Longrightarrow> sort_key f xs = sort_key g xs"
  by (rule sort_key_same_order) simp

lemma sorted_map_last: "sorted (map f xs) \<Longrightarrow> x \<in> set xs \<Longrightarrow> xs \<noteq> [] \<Longrightarrow> f x \<le> f (last xs)"
  by (induction xs) auto

lemma sort_key_Nil [simp]: "sort_key f xs = [] \<longleftrightarrow> xs = []"
  by (metis length_0_conv length_sort)

lemma sort_key_strict: "distinct (map f xs) \<Longrightarrow> sorted_wrt (<) (map f (sort_key f xs))"
proof -
  assume "distinct (map f xs)"
  moreover have "mset (map f (sort_key f xs)) = mset (map f xs)" by simp
  ultimately have "distinct (map f (sort_key f xs))" using mset_eq_imp_distinct_iff by blast
  then show ?thesis by (simp add: strict_sorted_iff)
qed

end
