(* ===== verification/Half_Even.thy ===== *)
theory Half_Even
  imports Go_Prelude
begin

text \<open>
  Round half to even, the one rounding rule of the system (\<open>ROUND_HALF_EVEN\<close>).  \<open>rhe n d\<close> is the
  integer nearest to \<open>n / d\<close>, a tie going to the even neighbour.  The locale
  \<open>half_even_division\<close> states what a routine must promise to implement the rule; each of the
  rounding routines of the code (\<open>domain.roundHalfEvenDiv\<close>, \<open>accounting.roundHalfEvenDiv\<close>,
  \<open>accounting.mulDivRoundHalfEven\<close>, \<open>riskgate.ratRoundHalfEven\<close>) is an interpretation.
\<close>

section \<open>The reference function\<close>

definition rhe :: "int \<Rightarrow> int \<Rightarrow> int" where
  "rhe n d = (let q = n div d; r = n mod d in if d < 2 * r \<or> (2 * r = d \<and> odd q) then q + 1 else q)"

lemma div_mod_split: "(n :: int) - (n div d) * d = n mod d"
  by (simp add: minus_div_mult_eq_mod)

lemma rhe_nearest: "0 < d \<Longrightarrow> 2 * \<bar>n - rhe n d * d\<bar> \<le> d"
proof -
  assume d: "0 < d"
  have up: "n - (n div d + 1) * d = n mod d - d"
    by (simp add: distrib_right div_mod_split [symmetric])
  show ?thesis
    using d pos_mod_bound [OF d, of n] pos_mod_sign [OF d, of n]
    by (auto simp: rhe_def Let_def up div_mod_split)
qed

lemma rhe_tie_even: "0 < d \<Longrightarrow> 2 * \<bar>n - rhe n d * d\<bar> = d \<Longrightarrow> even (rhe n d)"
proof -
  assume d: "0 < d" and tie: "2 * \<bar>n - rhe n d * d\<bar> = d"
  have up: "n - (n div d + 1) * d = n mod d - d"
    by (simp add: distrib_right div_mod_split [symmetric])
  show ?thesis
    using d tie pos_mod_bound [OF d, of n] pos_mod_sign [OF d, of n]
    by (auto simp: rhe_def Let_def up div_mod_split split: if_splits)
qed

lemma near_diff: "2 * \<bar>x\<bar> \<le> d \<Longrightarrow> 2 * \<bar>y\<bar> \<le> d \<Longrightarrow> \<bar>x - y\<bar> \<le> (d :: int)"
  by arith

lemma near_tie: "2 * \<bar>x\<bar> \<le> d \<Longrightarrow> 2 * \<bar>y\<bar> \<le> d \<Longrightarrow> \<bar>x - y\<bar> = (d :: int) \<Longrightarrow> 2 * \<bar>x\<bar> = d \<and> 2 * \<bar>y\<bar> = d"
  by arith

lemma near_crossing:
  "2 * \<bar>m - a\<bar> \<le> d \<Longrightarrow> 2 * \<bar>n - b\<bar> \<le> d \<Longrightarrow> b + d \<le> a \<Longrightarrow> m \<le> n \<Longrightarrow> m = (n :: int)"
proof -
  have "2 * p \<le> d \<Longrightarrow> 2 * q \<le> d \<Longrightarrow> - (m - a) \<le> p \<Longrightarrow> n - b \<le> q \<Longrightarrow> b + d \<le> a \<Longrightarrow> n \<le> m" for p q by linarith
  from this [OF _ _ abs_ge_minus_self abs_ge_self]
  show "2 * \<bar>m - a\<bar> \<le> d \<Longrightarrow> 2 * \<bar>n - b\<bar> \<le> d \<Longrightarrow> b + d \<le> a \<Longrightarrow> m \<le> n \<Longrightarrow> m = n" by (simp add: antisym)
qed

lemma rhe_unique:
  assumes d: "0 < d"
    and near: "2 * \<bar>n - q * d\<bar> \<le> d"
    and tie: "2 * \<bar>n - q * d\<bar> = d \<Longrightarrow> even q"
  shows "q = rhe n d"
proof -
  let ?r = "rhe n d"
  have sep: "(q - ?r) * d = (n - ?r * d) - (n - q * d)" by (simp add: algebra_simps)
  have "\<bar>(q - ?r) * d\<bar> \<le> d"
    unfolding sep by (rule near_diff [OF rhe_nearest [OF d] near])
  then have "\<bar>q - ?r\<bar> * d \<le> 1 * d" using d by (simp add: abs_mult)
  then have le1: "\<bar>q - ?r\<bar> \<le> 1" using d by (simp only: mult_le_cancel_right_pos)
  show ?thesis
  proof (rule ccontr)
    assume ne: "q \<noteq> ?r"
    with le1 have one: "\<bar>q - ?r\<bar> = 1" by linarith
    then have "\<bar>(q - ?r) * d\<bar> = d" using d by (simp add: abs_mult)
    then have "2 * \<bar>n - ?r * d\<bar> = d \<and> 2 * \<bar>n - q * d\<bar> = d"
      unfolding sep by (rule near_tie [OF rhe_nearest [OF d] near])
    then have "even q" and "even ?r" using tie rhe_tie_even [OF d] by auto
    with one show False by presburger
  qed
qed

lemma rhe_exact: "0 < d \<Longrightarrow> rhe (q * d) d = q"
  by (rule rhe_unique [symmetric]) auto

lemma rhe_dvd: "0 < d \<Longrightarrow> d dvd n \<Longrightarrow> rhe n d * d = n"
  using rhe_exact [of d "n div d"] by simp

lemma rhe_uminus: "0 < d \<Longrightarrow> rhe (- n) d = - rhe n d"
proof -
  assume d: "0 < d"
  have "\<bar>- n - (- rhe n d) * d\<bar> = \<bar>n - rhe n d * d\<bar>" by linarith
  then show ?thesis
    using rhe_nearest [OF d, of n] rhe_tie_even [OF d, of n] d
    by (intro rhe_unique [symmetric]) auto
qed

lemma rhe_mono:
  assumes d: "0 < d" and le: "m \<le> n"
  shows "rhe m d \<le> rhe n d"
proof (rule ccontr)
  assume "\<not> rhe m d \<le> rhe n d"
  then have gt: "rhe n d + 1 \<le> rhe m d" by simp
  then have "(rhe n d + 1) * d \<le> rhe m d * d" using d by (simp add: mult_right_mono)
  then have sep: "rhe n d * d + d \<le> rhe m d * d" by (simp add: distrib_right)
  have eq: "m = n"
    by (rule near_crossing [OF rhe_nearest [OF d] rhe_nearest [OF d] sep le])
  from gt eq show False by simp
qed

lemma rhe_bounds:
  assumes d: "0 < d" and lo: "a * d \<le> n" and hi: "n \<le> b * d"
  shows "a \<le> rhe n d" "rhe n d \<le> b"
  using rhe_mono [OF d lo] rhe_mono [OF d hi] by (simp_all add: rhe_exact d)

lemma rhe_abs_le: "0 < d \<Longrightarrow> \<bar>rhe n d\<bar> \<le> \<bar>n\<bar>"
proof -
  assume d: "0 < d"
  have "\<bar>n\<bar> * 1 \<le> \<bar>n\<bar> * d" using d by (intro mult_left_mono) auto
  then have "- \<bar>n\<bar> * d \<le> n" "n \<le> \<bar>n\<bar> * d" using abs_ge_self [of n] abs_ge_minus_self [of n] by linarith+
  from rhe_bounds [OF d this] show ?thesis by linarith
qed

lemma rhe_nonneg: "0 < d \<Longrightarrow> 0 \<le> n \<Longrightarrow> 0 \<le> rhe n d"
  using rhe_mono [of d 0 n] rhe_exact [of d 0] by simp

text \<open>The form in which the code computes it on magnitudes: quotient, remainder and a comparison
  of the doubled remainder.\<close>

lemma rhe_of_magnitude:
  assumes "0 < d"
  shows "rhe n d = sgn n * (let q = \<bar>n\<bar> div d; r = \<bar>n\<bar> mod d
     in if d < 2 * r then q + 1 else if 2 * r = d then (if odd q then q + 1 else q) else q)"
proof (cases "0 \<le> n")
  case True
  then show ?thesis using assms by (cases "n = 0") (auto simp: rhe_def Let_def)
next
  case False
  then have "rhe n d = - rhe \<bar>n\<bar> d" using rhe_uminus [OF assms, of "\<bar>n\<bar>"] by simp
  then show ?thesis using False by (auto simp: rhe_def Let_def)
qed

section \<open>The contract of a rounding routine\<close>

locale half_even_division =
  fixes quot :: "'a \<Rightarrow> int"
    and num :: "'a \<Rightarrow> int"
    and den :: "'a \<Rightarrow> int"
    and ok :: "'a \<Rightarrow> bool"
  assumes den_pos: "ok x \<Longrightarrow> 0 < den x"
    and nearest: "ok x \<Longrightarrow> 2 * \<bar>num x - quot x * den x\<bar> \<le> den x"
    and ties_even: "ok x \<Longrightarrow> 2 * \<bar>num x - quot x * den x\<bar> = den x \<Longrightarrow> even (quot x)"
begin

lemma quot_eq_rhe: "ok x \<Longrightarrow> quot x = rhe (num x) (den x)"
  by (rule rhe_unique) (auto intro: den_pos nearest ties_even)

lemma quot_mono: "ok x \<Longrightarrow> ok y \<Longrightarrow> den x = den y \<Longrightarrow> num x \<le> num y \<Longrightarrow> quot x \<le> quot y"
  using rhe_mono [of "den y" "num x" "num y"] by (simp add: quot_eq_rhe den_pos)

lemma quot_exact: "ok x \<Longrightarrow> den x dvd num x \<Longrightarrow> quot x * den x = num x"
  using rhe_dvd [of "den x" "num x"] by (simp add: quot_eq_rhe den_pos)

lemma quot_antisymmetric: "ok x \<Longrightarrow> ok y \<Longrightarrow> den x = den y \<Longrightarrow> num x = - num y \<Longrightarrow> quot x = - quot y"
  using rhe_uminus [of "den y" "num y"] by (simp add: quot_eq_rhe den_pos)

lemma quot_abs_le: "ok x \<Longrightarrow> \<bar>quot x\<bar> \<le> \<bar>num x\<bar>"
  using rhe_abs_le [of "den x" "num x"] by (simp add: quot_eq_rhe den_pos)

end

text \<open>The reference function itself satisfies the contract.\<close>

interpretation rhe_ref: half_even_division "\<lambda>(n, d). rhe n d" fst snd "\<lambda>(n, d). 0 < d"
  by unfold_locales (auto intro: rhe_nearest rhe_tie_even)

lemma half_even_divisionI:
  assumes "\<And>x. ok x \<Longrightarrow> 0 < den x" and "\<And>x. ok x \<Longrightarrow> quot x = rhe (num x) (den x)"
  shows "half_even_division quot num den ok"
  using assms by unfold_locales (auto intro: rhe_nearest rhe_tie_even)

end
