(* ===== verification/Domain_Fixed.thy ===== *)
theory Domain_Fixed
  imports Half_Even
begin

text \<open>
  The fixed-point engine of \<open>internal/domain/fixed.go\<close>: overflow-checked \<open>int64\<close> primitives,
  decimal-literal parsing into units of 1e-4, canonical and fixed-width rendering, and
  half-even division.  Prices and amounts of money are \<open>int64\<close> counts of 1e-4 units; the
  magnitude of a literal is accumulated in a \<open>uint64\<close> capped at \<open>2 ^ 63\<close>, so the
  asymmetric \<open>int64\<close> range round-trips.  The conversions from and to \<open>float64\<close> of the same
  file are in \<open>Domain_Float\<close>.
\<close>

section \<open>Overflow-checked primitives\<close>

definition FixedScale :: int where
  "FixedScale = 10000"

definition fixedFracDigits :: nat where
  "fixedFracDigits = 4"

definition pow10tab :: "int64 list" where
  "pow10tab = map (\<lambda>k. i64 (10 ^ k)) [0..<19]"

definition checkedAdd64 :: "int64 \<Rightarrow> int64 \<Rightarrow> int64 option" where
  "checkedAdd64 a b =
     (if (0 < sint b \<and> sint (MaxInt64 - b) < sint a) \<or> (sint b < 0 \<and> sint a < sint (MinInt64 - b))
      then None else Some (a + b))"

definition checkedSub64 :: "int64 \<Rightarrow> int64 \<Rightarrow> int64 option" where
  "checkedSub64 a b =
     (if (sint b < 0 \<and> sint (MaxInt64 + b) < sint a) \<or> (0 < sint b \<and> sint a < sint (MinInt64 + b))
      then None else Some (a - b))"

definition checkedMul64 :: "int64 \<Rightarrow> int64 \<Rightarrow> int64 option" where
  "checkedMul64 a b =
     (if a = 0 \<or> b = 0 then Some 0
      else if (a = -1 \<and> b = MinInt64) \<or> (b = -1 \<and> a = MinInt64) then None
      else let c = a * b in if go_quo c b \<noteq> a then None else Some c)"

definition checkedNeg64 :: "int64 \<Rightarrow> int64 option" where
  "checkedNeg64 a = (if a = MinInt64 then None else Some (- a))"

definition checkedAbs64 :: "int64 \<Rightarrow> int64 option" where
  "checkedAbs64 a = (if a = MinInt64 then None else if sint a < 0 then Some (- a) else Some a)"

text \<open>The reference: the exact integer result when it fits, nothing otherwise.\<close>

definition exact64 :: "int \<Rightarrow> int64 option" where
  "exact64 n = (if fits64 n then Some (i64 n) else None)"

lemma exact64_Some: "exact64 n = Some v \<longleftrightarrow> sint v = n"
  by (auto simp: exact64_def sint_i64)

lemma exact64_None: "exact64 n = None \<longleftrightarrow> \<not> fits64 n"
  by (simp add: exact64_def)

lemma checkedAdd64_exact: "checkedAdd64 a b = exact64 (sint a + sint b)"
proof -
  have hi: "sint (MaxInt64 - b) = 2 ^ 63 - 1 - sint b" if "0 < sint b"
    using that sint_bounds [of b] by (subst sint_minus) (auto simp: fits64_def)
  have lo: "sint (MinInt64 - b) = - (2 ^ 63) - sint b" if "sint b < 0"
    using that sint_bounds [of b] by (subst sint_minus) (auto simp: fits64_def)
  show ?thesis
    using sint_bounds [of a] sint_bounds [of b]
    by (cases "sint b" "0 :: int" rule: linorder_cases)
       (auto simp: checkedAdd64_def exact64_def fits64_def hi lo word_plus_i64)
qed

lemma checkedSub64_exact: "checkedSub64 a b = exact64 (sint a - sint b)"
proof -
  have hi: "sint (MaxInt64 + b) = 2 ^ 63 - 1 + sint b" if "sint b < 0"
    using that sint_bounds [of b] by (subst sint_plus) (auto simp: fits64_def)
  have lo: "sint (MinInt64 + b) = - (2 ^ 63) + sint b" if "0 < sint b"
    using that sint_bounds [of b] by (subst sint_plus) (auto simp: fits64_def)
  show ?thesis
    using sint_bounds [of a] sint_bounds [of b]
    by (cases "sint b" "0 :: int" rule: linorder_cases)
       (auto simp: checkedSub64_def exact64_def fits64_def hi lo word_minus_i64)
qed

lemma checkedNeg64_exact: "checkedNeg64 a = exact64 (- sint a)"
proof -
  have "a = MinInt64 \<longleftrightarrow> sint a = - (2 ^ 63)" by (metis sint_Min sint_inject)
  then show ?thesis using sint_bounds [of a]
    by (auto simp: checkedNeg64_def exact64_def fits64_def word_uminus_i64)
qed

lemma checkedAbs64_exact: "checkedAbs64 a = exact64 \<bar>sint a\<bar>"
proof -
  have "a = MinInt64 \<longleftrightarrow> sint a = - (2 ^ 63)" by (metis sint_Min sint_inject)
  then show ?thesis using sint_bounds [of a]
    by (auto simp: checkedAbs64_def exact64_def fits64_def word_uminus_i64)
qed

text \<open>A wrapped product never divides back to its factor: it is off by a multiple of \<open>2 ^ 64\<close>, while
  a truncated quotient is off by less than the divisor.\<close>

lemma wrapped_product_detected:
  assumes b: "b \<noteq> 0" and nof: "\<not> fits64 (sint a * sint b)" and m1: "sint b \<noteq> -1"
  shows "go_quo (a * b) b \<noteq> (a :: int64)"
proof
  assume "go_quo (a * b) b = a"
  then have q: "sint (a * b) sdiv sint b = sint a" using sint_quo [OF m1, of "a * b"] by simp
  obtain k where k: "sint (a * b) = sint a * sint b + k * 2 ^ 64"
    using sint_i64_wrap [of "sint a * sint b"] by (auto simp: word_times_i64)
  have "k \<noteq> 0"
  proof
    assume "k = 0"
    then have "fits64 (sint a * sint b)" using k fits64_sint [of "a * b"] by simp
    with nof show False by simp
  qed
  then have "2 ^ 64 \<le> \<bar>k * 2 ^ 64\<bar>" by (simp add: abs_mult)
  moreover have "\<bar>k * 2 ^ 64\<bar> < \<bar>sint b\<bar>"
    using abs_minus_sdiv_mult [of "sint b" "sint (a * b)"] b q k by simp
  moreover have "\<bar>sint b\<bar> \<le> 2 ^ 63" using sint_bounds [of b] by linarith
  ultimately show False by simp
qed

lemma checkedMul64_exact: "checkedMul64 a b = exact64 (sint a * sint b)"
proof (cases "a = 0 \<or> b = 0")
  case True
  then show ?thesis by (auto simp: checkedMul64_def exact64_def fits64_def i64_def)
next
  case nz: False
  have m1: "sint x = -1 \<longleftrightarrow> x = -1" for x :: int64 by (metis sint_n1 sint_inject)
  have mn: "sint x = - (2 ^ 63) \<longleftrightarrow> x = MinInt64" for x :: int64 by (metis sint_Min sint_inject)
  show ?thesis
  proof (cases "fits64 (sint a * sint b)")
    case fits: True
    then have prod: "sint (a * b) = sint a * sint b" by (rule sint_times)
    have "go_quo (a * b) b = i64 (sint a)"
      using nz by (simp add: go_quo_def prod mult_sdiv_cancel)
    moreover have "\<not> ((a = -1 \<and> b = MinInt64) \<or> (b = -1 \<and> a = MinInt64))"
      using fits by (auto simp: fits64_def)
    ultimately show ?thesis
      using nz fits by (simp add: checkedMul64_def exact64_def Let_def word_times_i64)
  next
    case nof: False
    show ?thesis
    proof (cases "b = -1")
      case True
      with nof have "sint a = - (2 ^ 63)" using sint_bounds [of a] by (auto simp: fits64_def)
      then have "a = MinInt64" using mn by blast
      with True nz show ?thesis by (simp add: checkedMul64_def exact64_def fits64_def)
    next
      case False
      then show ?thesis
        using nz nof wrapped_product_detected [of b a] m1 [of b]
        by (auto simp: checkedMul64_def exact64_def Let_def)
    qed
  qed
qed

lemmas checked_exact = checkedAdd64_exact checkedSub64_exact checkedMul64_exact
  checkedNeg64_exact checkedAbs64_exact

section \<open>Parsing decimal literals\<close>

datatype roundMode = roundExact | roundHalfEven

definition magLimit :: uint64 where
  "magLimit = 2 ^ 63"

definition anyNonzeroDigit :: "string \<Rightarrow> bool" where
  "anyNonzeroDigit b \<longleftrightarrow> list_ex (\<lambda>c. c \<noteq> CHR ''0'') b"

text \<open>The loop variables of the mantissa scan.\<close>

record mantissa =
  buf :: string
  fracLen :: nat
  seenDigit :: bool
  seenDot :: bool
  seenNonzero :: bool

definition mantissa0 :: mantissa where
  "mantissa0 = \<lparr>buf = [], fracLen = 0, seenDigit = False, seenDot = False, seenNonzero = False\<rparr>"

fun mantissaLoop :: "string \<Rightarrow> mantissa \<Rightarrow> (mantissa \<times> string) result" where
  "mantissaLoop [] st = Inr (st, [])"
| "mantissaLoop (c # cs) st =
     (if isDigit c then
        (let st1 = st\<lparr>seenDigit := True, fracLen := (if seenDot st then fracLen st + 1 else fracLen st)\<rparr>
         in if c = CHR ''0'' \<and> \<not> seenNonzero st then mantissaLoop cs st1
            else mantissaLoop cs (st1\<lparr>seenNonzero := True, buf := buf st @ [c]\<rparr>))
      else if c = CHR ''.'' then
        (if seenDot st then Inl ErrInvalidNumber else mantissaLoop cs (st\<lparr>seenDot := True\<rparr>))
      else Inr (st, c # cs))"

text \<open>The exponent digits; the accumulator stops growing once it passes \<open>10 ^ 9\<close>.\<close>

fun exponentLoop :: "string \<Rightarrow> int \<Rightarrow> int \<times> string" where
  "exponentLoop [] e = (e, [])"
| "exponentLoop (c # cs) e =
     (if isDigit c then exponentLoop cs (if e < 1000000000 then e * 10 + int (digitVal c) else e)
      else (e, c # cs))"

definition scanSign :: "string \<Rightarrow> bool \<times> string" where
  "scanSign s = (case s of [] \<Rightarrow> (False, [])
     | c # cs \<Rightarrow> if c = CHR ''+'' \<or> c = CHR ''-'' then (c = CHR ''-'', cs) else (False, s))"

definition scanExponent :: "string \<Rightarrow> (int \<times> string) result" where
  "scanExponent s = (case s of [] \<Rightarrow> Inr (0, [])
     | c # cs \<Rightarrow> if c = CHR ''e'' \<or> c = CHR ''E'' then
         (let (eneg, ds) = scanSign cs; (e, rest) = exponentLoop ds 0
          in if rest = ds then Inl ErrInvalidNumber else Inr (if eneg then - e else e, rest))
       else Inr (0, s))"

fun parseMagnitudeLoop :: "string \<Rightarrow> uint64 \<Rightarrow> uint64 result" where
  "parseMagnitudeLoop [] mag = Inr mag"
| "parseMagnitudeLoop (c # cs) mag =
     (let d = of_nat (digitVal c) in
      if (- 1 - d) div 10 < mag then Inl ErrOverflow
      else let mag' = mag * 10 + d in
        if magLimit < mag' then Inl ErrOverflow else parseMagnitudeLoop cs mag')"

definition parseMagnitude :: "string \<Rightarrow> uint64 result" where
  "parseMagnitude ds = parseMagnitudeLoop ds 0"

text \<open>The loop that multiplies by ten once per unit of a non-negative shift.\<close>

fun scaleLoop :: "nat \<Rightarrow> uint64 \<Rightarrow> uint64 result" where
  "scaleLoop 0 mag = Inr mag"
| "scaleLoop (Suc k) mag = (if magLimit div 10 < mag then Inl ErrOverflow else scaleLoop k (mag * 10))"

definition splitDigits :: "string \<Rightarrow> int \<Rightarrow> string \<times> char \<times> bool" where
  "splitDigits b keepLen =
     (if 0 < keepLen then
        (take (nat keepLen) b, b ! nat keepLen, anyNonzeroDigit (drop (nat keepLen + 1) b))
      else if keepLen = 0 then ([], b ! 0, anyNonzeroDigit (drop 1 b))
      else ([], CHR ''0'', anyNonzeroDigit b))"

definition quantizeDown :: "string \<Rightarrow> nat \<Rightarrow> roundMode \<Rightarrow> uint64 result" where
  "quantizeDown b k mode =
     (let (kept, first, sticky) = splitDigits b (int (length b) - int k)
      in if mode = roundExact \<and> (first \<noteq> CHR ''0'' \<or> sticky) then Inl ErrInexact
         else bindR (parseMagnitude kept) (\<lambda>mag. Inr
           (if mode = roundHalfEven \<and>
               (CHR ''5'' < first \<or> (first = CHR ''5'' \<and> (sticky \<or> mag mod 2 = 1)))
            then mag + 1 else mag)))"

definition finishFixed4 :: "bool \<Rightarrow> uint64 \<Rightarrow> int64 result" where
  "finishFixed4 neg mag =
     (if magLimit < mag \<or> (\<not> neg \<and> mag = magLimit) then Inl ErrOverflow
      else if neg then (if mag = magLimit then Inr MinInt64 else Inr (- mag))
      else Inr mag)"

definition quantize :: "bool \<Rightarrow> string \<Rightarrow> int \<Rightarrow> roundMode \<Rightarrow> int64 result" where
  "quantize neg b shift mode =
     bindR (if 0 \<le> shift then bindR (parseMagnitude b) (scaleLoop (nat shift))
            else quantizeDown b (nat (- shift)) mode)
       (finishFixed4 neg)"

definition parseFixed4 :: "string \<Rightarrow> roundMode \<Rightarrow> int64 result" where
  "parseFixed4 s mode =
     (if s = [] then Inl ErrInvalidNumber
      else let (neg, s1) = scanSign s in
        bindR (mantissaLoop s1 mantissa0) (\<lambda>(m, s2).
          if \<not> seenDigit m then Inl ErrInvalidNumber
          else bindR (scanExponent s2) (\<lambda>(e, s3).
            if s3 \<noteq> [] then Inl ErrInvalidNumber
            else if buf m = [] then Inr 0
            else quantize neg (buf m) (e - int (fracLen m) + int fixedFracDigits) mode)))"

section \<open>Rendering\<close>

definition magnitude64 :: "int64 \<Rightarrow> uint64" where
  "magnitude64 v = (if sint v < 0 then - (v + 1) + 1 else v)"

text \<open>The four fraction digits, filled from the last to the first.\<close>

fun fracLoop :: "nat \<Rightarrow> uint64 \<Rightarrow> string \<Rightarrow> string" where
  "fracLoop 0 fp acc = acc"
| "fracLoop (Suc k) fp acc = fracLoop k (fp div 10) (digitChar (unat (fp mod 10)) # acc)"

definition trimZeros :: "string \<Rightarrow> string" where
  "trimZeros s = rev (dropWhile (\<lambda>c. c = CHR ''0'') (rev s))"

definition formatFixed4 :: "int64 \<Rightarrow> string" where
  "formatFixed4 v =
     (let u = magnitude64 v; ip = u div 10000; fp = u mod 10000
      in (if sint v < 0 then ''-'' else []) @ fmtUint (unat ip) @
         (if fp \<noteq> 0 then CHR ''.'' # trimZeros (fracLoop fixedFracDigits fp []) else []))"

definition roundHalfEvenDiv :: "int64 \<Rightarrow> int64 \<Rightarrow> int64" where
  "roundHalfEvenDiv v d =
     (let q = go_quo v d; r = go_rem v d in
      if r = 0 then q
      else let ar = (if sint r < 0 then - r else r); half = go_quo d 2 in
        if sint half < sint ar \<or> (ar = half \<and> go_rem q 2 \<noteq> 0)
        then (if sint v < 0 then q - 1 else q + 1) else q)"

definition fixedDigits :: "uint64 \<Rightarrow> nat \<Rightarrow> string" where
  "fixedDigits fp n = map (\<lambda>k. digitChar (unat ((fp div (pow10tab ! k)) mod 10))) (rev [0..<n])"

definition formatFixedExact :: "int64 \<Rightarrow> string" where
  "formatFixedExact v =
     (let u = magnitude64 v; ip = u div 10000; fp = u mod 10000
      in (if sint v < 0 then ''-'' else []) @ fmtUint (unat ip) @ ''.'' @ fixedDigits fp fixedFracDigits)"

definition formatFixedDP :: "int64 \<Rightarrow> int \<Rightarrow> string" where
  "formatFixedDP v dp0 =
     (let dp = nat (if dp0 < 0 then 0 else dp0) in
      if fixedFracDigits \<le> dp then formatFixedExact v @ replicate (dp - fixedFracDigits) CHR ''0''
      else let scaled = roundHalfEvenDiv v (pow10tab ! (fixedFracDigits - dp));
               u = magnitude64 scaled; dv = pow10tab ! dp; ip = u div dv; fp = u mod dv
           in (if sint scaled < 0 then ''-'' else []) @ fmtUint (unat ip) @
              (if 0 < dp then CHR ''.'' # fixedDigits fp dp else []))"

lemma scaleLoop_numeral [simp]:
  "scaleLoop (numeral k) mag =
     (if magLimit div 10 < mag then Inl ErrOverflow else scaleLoop (pred_numeral k) (mag * 10))"
  by (simp add: numeral_eq_Suc)

lemma fracLoop_numeral [simp]:
  "fracLoop (numeral k) fp acc =
     fracLoop (pred_numeral k) (fp div 10) (digitChar (unat (fp mod 10)) # acc)"
  by (simp add: numeral_eq_Suc)

section \<open>What a literal denotes\<close>

text \<open>A decimal literal: sign, integer digits, optional fraction, optional exponent.\<close>

record dlit =
  dl_sign :: string
  dl_int :: string
  dl_dot :: bool
  dl_frac :: string
  dl_exp :: "(char \<times> string \<times> string) option"

definition signOk :: "string \<Rightarrow> bool" where
  "signOk s \<longleftrightarrow> s = [] \<or> s = ''+'' \<or> s = ''-''"

definition dlitWf :: "dlit \<Rightarrow> bool" where
  "dlitWf l \<longleftrightarrow> signOk (dl_sign l) \<and> list_all isDigit (dl_int l) \<and> list_all isDigit (dl_frac l) \<and>
     (\<not> dl_dot l \<longrightarrow> dl_frac l = []) \<and> dl_int l @ dl_frac l \<noteq> [] \<and>
     (case dl_exp l of None \<Rightarrow> True | Some (e, sg, ds) \<Rightarrow>
        (e = CHR ''e'' \<or> e = CHR ''E'') \<and> signOk sg \<and> ds \<noteq> [] \<and> list_all isDigit ds)"

definition dlitExpText :: "dlit \<Rightarrow> string" where
  "dlitExpText l = (case dl_exp l of None \<Rightarrow> [] | Some (e, sg, ds) \<Rightarrow> e # sg @ ds)"

definition dlitText :: "dlit \<Rightarrow> string" where
  "dlitText l = dl_sign l @ dl_int l @ (if dl_dot l then CHR ''.'' # dl_frac l else []) @ dlitExpText l"

definition dlitExponent :: "dlit \<Rightarrow> int" where
  "dlitExponent l = (case dl_exp l of None \<Rightarrow> 0
     | Some (e, sg, ds) \<Rightarrow> (if sg = ''-'' then - int (digval ds) else int (digval ds)))"

text \<open>The digits of the literal as one integer and the power of ten that turns it into units of
  1e-4.\<close>

definition dlitDigits :: "dlit \<Rightarrow> nat" where
  "dlitDigits l = digval (dl_int l @ dl_frac l)"

definition dlitShift :: "dlit \<Rightarrow> int" where
  "dlitShift l = dlitExponent l - int (length (dl_frac l)) + 4"

text \<open>The result a correct parser gives for \<open>D * 10 ^ shift\<close> units.\<close>

definition fixed4Spec :: "bool \<Rightarrow> nat \<Rightarrow> int \<Rightarrow> roundMode \<Rightarrow> int64 result" where
  "fixed4Spec neg D shift mode =
     (let num = int D * 10 ^ nat shift; den = 10 ^ nat (- shift);
          v = (if neg then - rhe num den else rhe num den)
      in if mode = roundExact \<and> \<not> den dvd num then Inl ErrInexact
         else if fits64 v then Inr (i64 v) else Inl ErrOverflow)"

section \<open>Correctness of the parser\<close>

lemma uint_magLimit: "uint magLimit = 2 ^ 63"
  by (simp add: magLimit_def)

lemma magLimit_less_iff: "magLimit < m \<longleftrightarrow> 2 ^ 63 < uint m"
  by (simp add: word_less_def uint_magLimit)

definition magSpec :: "int \<Rightarrow> uint64 result" where
  "magSpec n = (if n \<le> 2 ^ 63 then Inr (word_of_int n) else Inl ErrOverflow)"

lemma magSpec_big: "\<not> n \<le> 2 ^ 63 \<Longrightarrow> magSpec n = Inl ErrOverflow"
  by (simp add: magSpec_def)

lemma magSpec_uint: "uint mag \<le> 2 ^ 63 \<Longrightarrow> magSpec (uint mag) = Inr mag"
  by (simp add: magSpec_def)

lemma scaled_exceeds:
  fixes n t L :: int
  assumes "\<not> n \<le> L" and "0 \<le> n" and "0 \<le> t"
  shows "\<not> n * 10 ^ k + t \<le> L"
proof -
  have "n * 1 \<le> n * 10 ^ k" using assms(2) by (intro mult_left_mono) auto
  with assms show ?thesis by auto
qed

lemma parseMagnitudeLoop_spec:
  "list_all isDigit ds \<Longrightarrow> uint mag \<le> 2 ^ 63 \<Longrightarrow>
   parseMagnitudeLoop ds mag = magSpec (uint mag * 10 ^ length ds + int (digval ds))"
proof (induction ds arbitrary: mag)
  case Nil
  then show ?case by (simp add: magSpec_uint)
next
  case (Cons c ds)
  let ?d = "of_nat (digitVal c) :: uint64"
  let ?n = "uint mag * 10 + int (digitVal c)"
  have c: "digitVal c < 10" using Cons.prems digitVal_less by simp
  have ud: "uint ?d = int (digitVal c)" using c by (simp add: unsigned_of_nat take_bit_nat_eq_self)
  have next_val: "uint mag * 10 ^ length (c # ds) + int (digval (c # ds)) =
      ?n * 10 ^ length ds + int (digval ds)"
    by (simp add: digval_Cons algebra_simps)
  have guard: "(- 1 - ?d) div 10 < mag \<longleftrightarrow> (2 ^ 64 - 1 - int (digitVal c)) div 10 < uint mag"
  proof -
    have "uint (- 1 - ?d) = 2 ^ 64 - 1 - int (digitVal c)"
      using c ud by (simp add: uint_word_ariths)
    then show ?thesis by (simp add: word_less_def uint_div)
  qed
  show ?case
  proof (cases "?n \<le> 2 ^ 63")
    case True
    then have u: "uint (mag * 10 + ?d) = ?n"
      using c ud by (simp add: uint_word_ariths)
    have nog: "\<not> (- 1 - ?d) div 10 < mag" using True c unfolding guard by simp
    have "parseMagnitudeLoop ds (mag * 10 + ?d) = magSpec (?n * 10 ^ length ds + int (digval ds))"
      using Cons.IH [of "mag * 10 + ?d"] Cons.prems True unfolding u by simp
    moreover have "\<not> magLimit < mag * 10 + ?d" using True unfolding magLimit_less_iff u by simp
    ultimately show ?thesis
      unfolding next_val using nog by (simp add: Let_def)
  next
    case False
    then have ov: "magSpec (?n * 10 ^ length ds + int (digval ds)) = Inl ErrOverflow"
      by (intro magSpec_big scaled_exceeds) auto
    show ?thesis
    proof (cases "(- 1 - ?d) div 10 < mag")
      case True
      then show ?thesis unfolding next_val ov by (simp add: Let_def)
    next
      case nog: False
      then have "uint (mag * 10 + ?d) = ?n"
        using c ud unfolding guard by (simp add: uint_word_ariths)
      then have "magLimit < mag * 10 + ?d" using False by (simp add: magLimit_less_iff)
      then show ?thesis unfolding next_val ov using nog by (simp add: Let_def)
    qed
  qed
qed

lemma parseMagnitude_spec:
  "list_all isDigit ds \<Longrightarrow> parseMagnitude ds = magSpec (int (digval ds))"
  using parseMagnitudeLoop_spec [of ds 0] by (simp add: parseMagnitude_def)

lemma scaleLoop_spec: "uint mag \<le> 2 ^ 63 \<Longrightarrow> scaleLoop k mag = magSpec (uint mag * 10 ^ k)"
proof (induction k arbitrary: mag)
  case 0
  then show ?case by (simp add: magSpec_uint)
next
  case (Suc k)
  have lim: "magLimit div 10 < mag \<longleftrightarrow> 922337203685477580 < uint mag"
    by (simp add: word_less_def uint_div uint_magLimit)
  have step: "uint mag * 10 ^ Suc k = uint mag * 10 * 10 ^ k" by simp
  show ?case
  proof (cases "922337203685477580 < uint mag")
    case True
    then have "9223372036854775810 * 1 \<le> uint mag * 10 * 10 ^ k" by (intro mult_mono) auto
    then have "magSpec (uint mag * 10 * 10 ^ k) = Inl ErrOverflow" by (intro magSpec_big) simp
    then show ?thesis unfolding step using True lim by simp
  next
    case False
    then have "uint (mag * 10) = uint mag * 10" by (simp add: uint_word_ariths)
    then show ?thesis unfolding step using False lim Suc.IH [of "mag * 10"] by simp
  qed
qed

lemma uint_word_of_int: "0 \<le> n \<Longrightarrow> n \<le> 2 ^ 63 \<Longrightarrow> uint (word_of_int n :: uint64) = n"
  by (simp add: unsigned_of_int take_bit_int_eq_self)

lemma magSpec_scaled:
  assumes "0 \<le> n"
  shows "bindR (magSpec n) (scaleLoop k) = magSpec (n * 10 ^ k)"
proof (cases "n \<le> 2 ^ 63")
  case True
  then show ?thesis
    using assms scaleLoop_spec [of "word_of_int n" k] uint_word_of_int [of n] by (simp add: magSpec_def)
next
  case False
  then show ?thesis
    using assms magSpec_big [of n] magSpec_big [of "n * 10 ^ k"] scaled_exceeds [of n "2 ^ 63" 0 k] by auto
qed

lemma finish_magSpec:
  assumes "0 \<le> n"
  shows "bindR (magSpec n) (finishFixed4 neg) =
     (let v = (if neg then - n else n) in if fits64 v then Inr (i64 v) else Inl ErrOverflow)"
proof (cases "n \<le> 2 ^ 63")
  case True
  let ?w = "word_of_int n :: uint64"
  have u: "uint ?w = n" using assms True by (rule uint_word_of_int)
  have "?w = magLimit \<longleftrightarrow> n = 2 ^ 63" by (metis u uint_magLimit word_uint_eqI)
  then have "finishFixed4 neg ?w =
      (if \<not> neg \<and> n = 2 ^ 63 then Inl ErrOverflow
       else if neg then (if n = 2 ^ 63 then Inr MinInt64 else Inr (- ?w)) else Inr ?w)"
    using True by (simp only: finishFixed4_def magLimit_less_iff u) auto
  moreover have "magSpec n = Inr ?w" using True by (simp add: magSpec_def)
  ultimately show ?thesis
    using True assms by (auto simp: fits64_def i64_def MinInt64_def Let_def)
next
  case False
  then show ?thesis using assms by (auto simp: magSpec_big fits64_def Let_def)
qed

lemma splitDigits_spec:
  assumes b: "list_all isDigit b" and k: "0 < k"
    and sp: "splitDigits b (int (length b) - int k) = (kept, first, sticky)"
  obtains t where "list_all isDigit kept" "isDigit first" "t < 10 ^ (k - 1)" "sticky \<longleftrightarrow> t \<noteq> 0"
    and "digval b = digval kept * 10 ^ k + digitVal first * 10 ^ (k - 1) + t"
proof (cases "k \<le> length b")
  case True
  define m where "m = length b - k"
  have m: "m < length b" using True k by (simp add: m_def)
  have parts: "b = take m b @ b ! m # drop (Suc m) b" using m by (simp add: id_take_nth_drop)
  have "kept = take m b \<and> first = b ! m \<and> (sticky \<longleftrightarrow> anyNonzeroDigit (drop (Suc m) b))"
    using sp True by (auto simp: splitDigits_def m_def nat_diff_distrib split: if_splits)
  moreover have len: "length (drop (Suc m) b) = k - 1" using True k by (simp add: m_def)
  moreover have d: "list_all isDigit (take m b)" "isDigit (b ! m)" "list_all isDigit (drop (Suc m) b)"
    using b m by (auto simp: list_all_iff dest: in_set_takeD in_set_dropD)
  moreover have "digval b = digval (take m b) * 10 ^ k + digitVal (b ! m) * 10 ^ (k - 1) + digval (drop (Suc m) b)"
    using len k by (subst parts) (simp add: digval_append digval_Cons flip: power_Suc)
  moreover have "anyNonzeroDigit (drop (Suc m) b) \<longleftrightarrow> digval (drop (Suc m) b) \<noteq> 0"
    using digval_eq_0 [OF d(3)] by (auto simp: anyNonzeroDigit_def list_ex_iff list_all_iff)
  ultimately show ?thesis using digval_less [OF d(3)] by (intro that [of "digval (drop (Suc m) b)"]) auto
next
  case False
  then have "kept = [] \<and> first = CHR ''0'' \<and> sticky = anyNonzeroDigit b"
    using sp by (auto simp: splitDigits_def)
  moreover have "(10 :: nat) ^ length b \<le> 10 ^ (k - 1)" using False by (intro power_increasing) auto
  then have "digval b < 10 ^ (k - 1)" using digval_less [OF b] by linarith
  moreover have "anyNonzeroDigit b \<longleftrightarrow> digval b \<noteq> 0"
    using digval_eq_0 [OF b] by (auto simp: anyNonzeroDigit_def list_ex_iff list_all_iff)
  moreover have "digitVal CHR ''0'' = 0" by (simp add: digitVal_0_iff)
  ultimately show ?thesis by (intro that [of "digval b"]) auto
qed

text \<open>Half-even rounding read off the first dropped digit and a sticky flag.\<close>

lemma rhe_first_sticky:
  fixes q d P t :: nat
  assumes P: "t < P" and d: "d < 10"
  shows "rhe (int (q * (10 * P) + d * P + t)) (int (10 * P)) =
     int (if 5 < d \<or> (d = 5 \<and> (t \<noteq> 0 \<or> odd q)) then q + 1 else q)"
proof -
  have "d * P + P \<le> 10 * P" using d mult_right_mono [of "d + 1" 10 P] by simp
  then have r: "d * P + t < 10 * P" using P by linarith
  let ?n = "q * (10 * P) + d * P + t"
  have dm: "?n div (10 * P) = q" "?n mod (10 * P) = d * P + t"
    using r P by (simp_all add: add.assoc div_mult_self3 mod_mult_self3)
  obtain x where x: "x = d * P" by simp
  consider "d \<le> 4" | "d = 5" | "6 \<le> d" using d by linarith
  then have cmp: "(10 * P < 2 * (d * P + t) \<longleftrightarrow> 5 < d \<or> (d = 5 \<and> t \<noteq> 0)) \<and>
    (2 * (d * P + t) = 10 * P \<longleftrightarrow> d = 5 \<and> t = 0)"
  proof cases
    case 1
    then have "x \<le> 4 * P" unfolding x by (rule mult_right_mono) simp
    with P have "2 * (x + t) < 10 * P" by presburger
    with 1 show ?thesis unfolding x by auto
  next
    case 2
    then show ?thesis by auto
  next
    case 3
    then have "6 * P \<le> x" unfolding x by (rule mult_right_mono) simp
    with P have "10 * P < 2 * (x + t)" by presburger
    with 3 show ?thesis unfolding x by auto
  qed
  have "int ?n div int (10 * P) = int q" "int ?n mod int (10 * P) = int (d * P + t)"
    by (metis dm(1) zdiv_int) (metis dm(2) zmod_int)
  then have "rhe (int ?n) (int (10 * P)) =
      (if int (10 * P) < 2 * int (d * P + t) \<or> (2 * int (d * P + t) = int (10 * P) \<and> odd (int q))
       then int q + 1 else int q)"
    by (simp only: rhe_def Let_def)
  also have two: "2 * int (d * P + t) = int (2 * (d * P + t))"
    by (simp only: of_nat_mult of_nat_numeral)
  also have "int (10 * P) < int (2 * (d * P + t)) \<longleftrightarrow> 5 < d \<or> (d = 5 \<and> t \<noteq> 0)"
    unfolding of_nat_less_iff using cmp by blast
  also have "int (2 * (d * P + t)) = int (10 * P) \<longleftrightarrow> d = 5 \<and> t = 0"
    unfolding of_nat_eq_iff using cmp by blast
  finally show ?thesis by auto
qed

lemma quantizeDown_spec:
  assumes b: "list_all isDigit b" and k: "0 < k"
  shows "bindR (quantizeDown b k mode) (finishFixed4 neg) =
    (if mode = roundExact \<and> \<not> 10 ^ k dvd int (digval b) then Inl ErrInexact
     else bindR (magSpec (rhe (int (digval b)) (10 ^ k))) (finishFixed4 neg))"
proof -
  obtain kept first sticky where sp: "splitDigits b (int (length b) - int k) = (kept, first, sticky)"
    by (metis prod_cases3)
  from b k sp obtain t where
    t: "list_all isDigit kept" "isDigit first" "t < 10 ^ (k - 1)" "sticky \<longleftrightarrow> t \<noteq> 0" and
    D: "digval b = digval kept * 10 ^ k + digitVal first * 10 ^ (k - 1) + t" by (rule splitDigits_spec)
  let ?q = "digval kept" let ?d = "digitVal first" let ?P = "10 ^ (k - 1) :: nat"
  have P10: "(10 :: nat) ^ k = 10 * ?P" using k by (simp flip: power_Suc)
  have P10i: "(10 :: int) ^ k = int (10 * ?P)" by (metis P10 of_nat_numeral of_nat_power)
  have d10: "?d < 10" using t(2) by (rule digitVal_less)
  have up_iff: "(CHR ''5'' < first \<or> first = CHR ''5'' \<and> s) \<longleftrightarrow> 5 < ?d \<or> ?d = 5 \<and> s" for s
  proof -
    have "CHR ''5'' < first \<longleftrightarrow> 5 < ?d" "first = CHR ''5'' \<longleftrightarrow> ?d = 5"
      using t(2) digitChar_digitVal [OF t(2)] by (auto simp: less_char_def isDigit_of_char digitVal_def)
    then show ?thesis by auto
  qed
  have rhe: "rhe (int (digval b)) (10 ^ k) = int (if 5 < ?d \<or> (?d = 5 \<and> (t \<noteq> 0 \<or> odd ?q)) then ?q + 1 else ?q)"
    using rhe_first_sticky [OF t(3) d10, of ?q] unfolding D P10i P10 .
  have zero: "first \<noteq> CHR ''0'' \<or> t \<noteq> 0 \<longleftrightarrow> ?d \<noteq> 0 \<or> t \<noteq> 0"
    using digitVal_0_iff [OF t(2)] by simp
  have dvd: "(10 ^ k :: int) dvd int (digval b) \<longleftrightarrow> \<not> (?d \<noteq> 0 \<or> t \<noteq> 0)"
  proof -
    have "?d * ?P + ?P \<le> 10 * ?P" using d10 mult_right_mono [of "?d + 1" 10 ?P] by simp
    then have lt: "?d * ?P + t < 10 ^ k" using t(3) unfolding P10 by linarith
    have "(10 ^ k :: int) dvd int (digval b) \<longleftrightarrow> 10 ^ k dvd digval b"
      by (metis int_dvd_int_iff of_nat_numeral of_nat_power)
    also have "\<dots> \<longleftrightarrow> 10 ^ k dvd ?d * ?P + t" unfolding D by (simp add: add.assoc)
    also have "\<dots> \<longleftrightarrow> ?d * ?P + t = 0" using lt by (auto dest: nat_dvd_not_less)
    finally show ?thesis by auto
  qed
  show ?thesis
  proof (cases "int ?q \<le> 2 ^ 63")
    case True
    let ?w = "word_of_int (int ?q) :: uint64"
    have u: "uint ?w = int ?q" using True by (intro uint_word_of_int) auto
    have odd_iff: "?w mod 2 = 1 \<longleftrightarrow> odd ?q"
    proof -
      have "uint (?w mod 2) = int ?q mod 2" by (simp add: uint_mod u del: of_int_of_nat_eq)
      then show ?thesis by (metis odd_iff_mod_2_eq_one even_of_nat uint_1_eq word_uint_eqI)
    qed
    have inc: "bindR (magSpec (int ?q + 1)) (finishFixed4 neg) = finishFixed4 neg (?w + 1)"
    proof (cases "int ?q + 1 \<le> 2 ^ 63")
      case True
      then show ?thesis by (simp add: magSpec_def)
    next
      case False
      with True have "uint (?w + 1) = 2 ^ 63 + 1" using u by (simp add: uint_word_ariths del: of_int_of_nat_eq)
      then have "magLimit < ?w + 1" by (simp add: magLimit_less_iff del: of_int_of_nat_eq)
      with False show ?thesis by (simp add: magSpec_def finishFixed4_def del: of_int_of_nat_eq)
    qed
    have pm: "parseMagnitude kept = Inr ?w"
      using parseMagnitude_spec [OF t(1)] True by (simp add: magSpec_def)
    let ?up = "5 < ?d \<or> ?d = 5 \<and> (t \<noteq> 0 \<or> odd ?q)"
    have q: "quantizeDown b k mode = (if mode = roundExact \<and> (?d \<noteq> 0 \<or> t \<noteq> 0) then Inl ErrInexact
        else Inr (if mode = roundHalfEven \<and> ?up then ?w + 1 else ?w))"
      unfolding quantizeDown_def sp prod.case Let_def pm bindR_Inr t(4) zero up_iff odd_iff ..
    have base: "bindR (magSpec (int ?q)) (finishFixed4 neg) = finishFixed4 neg ?w"
      using True by (simp add: magSpec_def)
    have ite: "bindR (magSpec (int (if up then ?q + 1 else ?q))) (finishFixed4 neg) =
        finishFixed4 neg (if up then ?w + 1 else ?w)" for up
      using inc base by (cases up) (simp_all add: add.commute)
    have r: "bindR (magSpec (rhe (int (digval b)) (10 ^ k))) (finishFixed4 neg) =
        finishFixed4 neg (if ?up then ?w + 1 else ?w)"
      unfolding rhe by (rule ite)
    show ?thesis unfolding q dvd r by (cases mode) auto
  next
    case False
    then have "parseMagnitude kept = Inl ErrOverflow"
      using parseMagnitude_spec [OF t(1)] by (simp add: magSpec_def)
    moreover have "magSpec (rhe (int (digval b)) (10 ^ k)) = Inl ErrOverflow"
      unfolding rhe using False by (intro magSpec_big) auto
    ultimately show ?thesis unfolding quantizeDown_def sp prod.case Let_def t(4) zero dvd by simp
  qed
qed

lemma quantize_spec:
  assumes b: "list_all isDigit b"
  shows "quantize neg b shift mode = fixed4Spec neg (digval b) shift mode"
proof (cases "0 \<le> shift")
  case True
  then show ?thesis
    using parseMagnitude_spec [OF b] finish_magSpec [of "int (digval b) * 10 ^ nat shift" neg]
      rhe_exact [of 1 "int (digval b) * 10 ^ nat shift"]
    by (simp add: quantize_def fixed4Spec_def magSpec_scaled)
next
  case False
  then show ?thesis
    using quantizeDown_spec [OF b, of "nat (- shift)" mode neg]
      finish_magSpec [of "rhe (int (digval b)) (10 ^ nat (- shift))" neg]
    by (cases neg) (simp_all add: quantize_def fixed4Spec_def rhe_nonneg Let_def)
qed

text \<open>A run of digits, absorbed by the mantissa scan in one step.\<close>

definition absorb :: "mantissa \<Rightarrow> string \<Rightarrow> mantissa" where
  "absorb st ds =
     (let zs = (if seenNonzero st then ds else dropWhile (\<lambda>c. c = CHR ''0'') ds)
      in st\<lparr>buf := buf st @ zs, fracLen := (if seenDot st then fracLen st + length ds else fracLen st),
            seenDigit := seenDigit st \<or> ds \<noteq> [], seenNonzero := seenNonzero st \<or> zs \<noteq> []\<rparr>)"

lemma absorb_Nil [simp]: "absorb st [] = st"
  by (simp add: absorb_def)

lemma mantissaLoop_digits:
  "list_all isDigit ds \<Longrightarrow> mantissaLoop (ds @ rest) st = mantissaLoop rest (absorb st ds)"
  by (induction ds arbitrary: st) (auto simp: absorb_def Let_def intro!: arg_cong2 [of _ _ _ _ mantissaLoop])

lemma dot_not_digit [simp]: "\<not> isDigit CHR ''.''"
  by (simp add: isDigit_of_char)

lemma takeWhile_digits [simp]: "list_all isDigit (takeWhile isDigit s)"
  by (auto simp: list_all_iff dest: set_takeWhileD)

lemma mantissaLoop_split:
  "mantissaLoop s st = mantissaLoop (dropWhile isDigit s) (absorb st (takeWhile isDigit s))"
  using mantissaLoop_digits [OF takeWhile_digits, of s "dropWhile isDigit s" st] by simp

definition notNumeric :: "string \<Rightarrow> bool" where
  "notNumeric s \<longleftrightarrow> (case s of [] \<Rightarrow> True | c # _ \<Rightarrow> \<not> isDigit c \<and> c \<noteq> CHR ''.'')"

lemma mantissaLoop_stop: "notNumeric s \<Longrightarrow> mantissaLoop s st = Inr (st, s)"
  by (cases s) (auto simp: notNumeric_def)

definition scanned :: "string \<Rightarrow> bool \<Rightarrow> string \<Rightarrow> mantissa" where
  "scanned i dot f = absorb ((absorb mantissa0 i)\<lparr>seenDot := dot\<rparr>) f"

lemma scanned_fields:
  assumes "\<not> dot \<longrightarrow> f = []"
  shows "buf (scanned i dot f) = dropWhile (\<lambda>c. c = CHR ''0'') (i @ f)"
    and "fracLen (scanned i dot f) = length f"
    and "seenDigit (scanned i dot f) \<longleftrightarrow> i @ f \<noteq> []"
  using assms by (auto simp: scanned_def absorb_def mantissa0_def Let_def dropWhile_append)

lemma scanned_no_dot: "(absorb mantissa0 i) = scanned i False []"
  by (simp add: scanned_def absorb_def mantissa0_def Let_def)

lemma mantissaLoop_complete:
  assumes "list_all isDigit i" "list_all isDigit f" "\<not> dot \<longrightarrow> f = []" "notNumeric rest"
  shows "mantissaLoop (i @ (if dot then CHR ''.'' # f else []) @ rest) mantissa0 = Inr (scanned i dot f, rest)"
proof -
  have "seenDot (absorb mantissa0 i) = False" by (simp add: absorb_def mantissa0_def Let_def)
  with assms show ?thesis
    by (auto simp: mantissaLoop_digits mantissaLoop_stop scanned_no_dot [symmetric] scanned_def)
qed

lemma mantissaLoop_sound:
  assumes "mantissaLoop s mantissa0 = Inr (m, rest)"
  obtains i dot f where "list_all isDigit i" "list_all isDigit f" "\<not> dot \<longrightarrow> f = []"
    and "s = i @ (if dot then CHR ''.'' # f else []) @ rest" and "m = scanned i dot f"
proof -
  let ?i = "takeWhile isDigit s"
  define r where "r = dropWhile isDigit s"
  have nd: "seenDot (absorb mantissa0 ?i) = False" by (simp add: absorb_def mantissa0_def Let_def)
  have 1: "mantissaLoop r (absorb mantissa0 ?i) = Inr (m, rest)"
    using assms mantissaLoop_split [of s mantissa0] by (simp add: r_def)
  have s: "s = ?i @ r" by (simp add: r_def)
  have hr: "r \<noteq> [] \<Longrightarrow> \<not> isDigit (hd r)" unfolding r_def by (rule hd_dropWhile)
  show ?thesis
  proof (cases "r \<noteq> [] \<and> hd r = CHR ''.''")
    case True
    then obtain t where t: "r = CHR ''.'' # t" by (cases r) auto
    let ?st = "(absorb mantissa0 ?i)\<lparr>seenDot := True\<rparr>"
    have 2: "mantissaLoop t ?st = Inr (m, rest)" using 1 t nd by simp
    let ?f = "takeWhile isDigit t"
    define q where "q = dropWhile isDigit t"
    have 3: "mantissaLoop q (absorb ?st ?f) = Inr (m, rest)"
      using 2 mantissaLoop_split [of t ?st] by (simp add: q_def)
    have sd: "seenDot (absorb ?st ?f)" by (simp add: absorb_def Let_def)
    have hq: "q \<noteq> [] \<Longrightarrow> \<not> isDigit (hd q)" unfolding q_def by (rule hd_dropWhile)
    have "m = absorb ?st ?f \<and> rest = q"
      using 3 sd hq by (cases q) (auto split: if_splits)
    moreover have "s = ?i @ CHR ''.'' # ?f @ q" using s t by (simp add: q_def)
    ultimately show ?thesis using that [of ?i ?f True] by (simp add: scanned_def)
  next
    case False
    with hr have "notNumeric r" by (cases r) (auto simp: notNumeric_def)
    then have "m = absorb mantissa0 ?i \<and> rest = r" using 1 by (simp add: mantissaLoop_stop)
    then show ?thesis using s that [of ?i "[]" False] by (simp add: scanned_no_dot)
  qed
qed

lemma list_all_dropWhile: "list_all P xs \<Longrightarrow> list_all P (dropWhile Q xs)"
  by (induction xs) auto

text \<open>Signs and exponents.\<close>

lemma scanSign_signed:
  assumes "signOk sg" and "s = [] \<or> hd s \<noteq> CHR ''+'' \<and> hd s \<noteq> CHR ''-''"
  shows "scanSign (sg @ s) = (sg = ''-'', s)"
  using assms by (cases s) (auto simp: scanSign_def signOk_def)

lemma scanSign_sound:
  assumes "scanSign s = (neg, t)"
  obtains sg where "signOk sg" "s = sg @ t" "neg \<longleftrightarrow> sg = ''-''"
proof (cases "s \<noteq> [] \<and> (hd s = CHR ''+'' \<or> hd s = CHR ''-'')")
  case True
  then have "signOk [hd s]" "s = [hd s] @ t" "neg \<longleftrightarrow> [hd s] = ''-''"
    using assms by (auto simp: scanSign_def signOk_def split: list.splits)
  then show ?thesis by (rule that)
next
  case False
  then have "signOk []" "s = [] @ t" "neg \<longleftrightarrow> [] = ''-''"
    using assms by (auto simp: scanSign_def signOk_def split: list.splits)
  then show ?thesis by (rule that)
qed

lemma digit_no_sign: "isDigit c \<Longrightarrow> c \<noteq> CHR ''+'' \<and> c \<noteq> CHR ''-'' \<and> c \<noteq> CHR ''e'' \<and> c \<noteq> CHR ''E'' \<and> c \<noteq> CHR ''.''"
  by (auto simp: isDigit_of_char)

lemma exponentLoop_digits:
  "list_all isDigit ds \<Longrightarrow> 0 \<le> e \<Longrightarrow> e * 10 ^ length ds + int (digval ds) < 1000000000 \<Longrightarrow>
   exponentLoop ds e = (e * 10 ^ length ds + int (digval ds), [])"
proof (induction ds arbitrary: e)
  case Nil
  then show ?case by simp
next
  case (Cons c ds)
  let ?e = "e * 10 + int (digitVal c)"
  have v: "e * 10 ^ length (c # ds) + int (digval (c # ds)) = ?e * 10 ^ length ds + int (digval ds)"
    by (simp add: digval_Cons algebra_simps)
  have "\<not> 1000000000 \<le> e"
  proof
    assume "1000000000 \<le> e"
    then have "\<not> e \<le> 999999999" by simp
    from scaled_exceeds [OF this Cons.prems(2), of "int (digval (c # ds))" "length (c # ds)"]
    show False using Cons.prems(3) by simp
  qed
  then show ?case using Cons.IH [of ?e] Cons.prems unfolding v by simp
qed

lemma exponentLoop_sound:
  "exponentLoop ds e = (x, rest) \<Longrightarrow> rest = dropWhile isDigit ds"
  by (induction ds arbitrary: e) (auto split: if_splits)

text \<open>A literal is small enough for the exponent accumulator when its exponent has at most nine
  significant digits.\<close>

definition expSmall :: "dlit \<Rightarrow> bool" where
  "expSmall l \<longleftrightarrow> \<bar>dlitExponent l\<bar> < 1000000000"

lemma scanExponent_dlit:
  assumes "dlitWf l" "expSmall l"
  shows "scanExponent (dlitExpText l) = Inr (dlitExponent l, [])"
proof (cases "dl_exp l")
  case None
  then show ?thesis by (simp add: dlitExpText_def dlitExponent_def scanExponent_def)
next
  case (Some x)
  obtain e sg ds where x: "x = (e, sg, ds)" by (cases x)
  have wf: "e = CHR ''e'' \<or> e = CHR ''E''" "signOk sg" "ds \<noteq> []" "list_all isDigit ds"
    using assms Some x by (auto simp: dlitWf_def)
  have hd: "hd ds \<noteq> CHR ''+'' \<and> hd ds \<noteq> CHR ''-''" using wf digit_no_sign by (cases ds) auto
  have "int (digval ds) < 1000000000"
    using assms(2) Some x by (auto simp: expSmall_def dlitExponent_def split: if_splits)
  then have "exponentLoop ds 0 = (int (digval ds), [])" using exponentLoop_digits [OF wf(4), of 0] by simp
  then show ?thesis
    using wf Some x scanSign_signed [OF wf(2), of ds] hd
    by (auto simp: dlitExpText_def dlitExponent_def scanExponent_def)
qed

lemma parseFixed4_assembled:
  assumes "s \<noteq> []" "scanSign s = (neg, s1)" "mantissaLoop s1 mantissa0 = Inr (m, s2)" "seenDigit m"
    and "scanExponent s2 = Inr (e, [])"
  shows "parseFixed4 s mode = (if buf m = [] then Inr 0
     else quantize neg (buf m) (e - int (fracLen m) + int fixedFracDigits) mode)"
  using assms by (simp add: parseFixed4_def)

text \<open>The parser gives every literal its exact value, or rounds it half to even.\<close>

lemma parseFixed4_exponent:
  assumes wf: "dlitWf l" and ex: "scanExponent (dlitExpText l) = Inr (e, [])"
  shows "parseFixed4 (dlitText l) mode =
    fixed4Spec (dl_sign l = ''-'') (dlitDigits l) (e - int (length (dl_frac l)) + 4) mode"
    (is "_ = fixed4Spec _ _ ?shift _")
proof -
  let ?i = "dl_int l" let ?f = "dl_frac l" let ?body = "?i @ (if dl_dot l then CHR ''.'' # ?f else [])"
  have w: "signOk (dl_sign l)" "list_all isDigit ?i" "list_all isDigit ?f" "\<not> dl_dot l \<longrightarrow> ?f = []"
    "?i @ ?f \<noteq> []" using wf by (auto simp: dlitWf_def)
  have nn: "notNumeric (dlitExpText l)"
    using wf by (auto simp: notNumeric_def dlitExpText_def dlitWf_def isDigit_of_char split: option.splits)
  have body: "?body \<noteq> []" "hd (?body @ x) \<noteq> CHR ''+'' \<and> hd (?body @ x) \<noteq> CHR ''-''" for x
    using w digit_no_sign by (cases ?i; auto)+
  have shape: "dlitText l = dl_sign l @ (?body @ dlitExpText l)" by (simp add: dlitText_def)
  have sign: "scanSign (dlitText l) = (dl_sign l = ''-'', ?body @ dlitExpText l)"
    unfolding shape using body by (intro scanSign_signed w) auto
  have ne: "dlitText l \<noteq> []" unfolding shape using body(1) by blast
  have mant: "mantissaLoop (?body @ dlitExpText l) mantissa0 = Inr (scanned ?i (dl_dot l) ?f, dlitExpText l)"
    using mantissaLoop_complete [OF w(2,3,4) nn] by simp
  let ?b = "buf (scanned ?i (dl_dot l) ?f)"
  have b: "digval ?b = dlitDigits l" "list_all isDigit ?b"
    using w by (simp_all add: scanned_fields dlitDigits_def digval_dropWhile_0 list_all_dropWhile)
  have zero: "?b = [] \<Longrightarrow> fixed4Spec (dl_sign l = ''-'') (dlitDigits l) (?shift) mode = Inr 0"
    using b(1) rhe_exact [of "10 ^ nat (- ?shift)" 0]
    by (simp add: fixed4Spec_def Let_def fits64_def i64_def)
  have "parseFixed4 (dlitText l) mode =
      (if ?b = [] then Inr 0 else quantize (dl_sign l = ''-'') ?b (?shift) mode)"
    using parseFixed4_assembled [OF ne sign mant _ ex, of mode]
    by (simp only: scanned_fields(2,3) [OF w(4)] w(5) fixedFracDigits_def) simp
  then show ?thesis using zero quantize_spec [OF b(2)] b(1) by auto
qed

lemma parseFixed4_literal:
  assumes "dlitWf l" and "expSmall l"
  shows "parseFixed4 (dlitText l) mode = fixed4Spec (dl_sign l = ''-'') (dlitDigits l) (dlitShift l) mode"
  using parseFixed4_exponent [OF assms(1) scanExponent_dlit [OF assms]] by (simp add: dlitShift_def)

lemma mantissaLoop_error: "mantissaLoop s st = Inl e \<Longrightarrow> e = ErrInvalidNumber"
  by (induction s st rule: mantissaLoop.induct) (auto simp: Let_def split: if_splits)

lemma scanExponent_error: "scanExponent s = Inl e \<Longrightarrow> e = ErrInvalidNumber"
  by (auto simp: scanExponent_def Let_def split: list.splits if_splits prod.splits)

lemma fixed4Spec_error: "fixed4Spec neg D shift mode \<noteq> Inl ErrInvalidNumber"
  by (simp add: fixed4Spec_def Let_def)

lemma exponentLoop_rest: "list_all isDigit ds \<Longrightarrow> snd (exponentLoop ds e) = []"
  by (induction ds arbitrary: e) auto

lemma scanExponent_dlit_ok:
  assumes "dlitWf l"
  shows "\<exists>e. scanExponent (dlitExpText l) = Inr (e, [])"
proof (cases "dl_exp l")
  case None
  then show ?thesis by (simp add: dlitExpText_def scanExponent_def)
next
  case (Some x)
  obtain e sg ds where x: "x = (e, sg, ds)" by (cases x)
  have wf: "e = CHR ''e'' \<or> e = CHR ''E''" "signOk sg" "ds \<noteq> []" "list_all isDigit ds"
    using assms Some x by (auto simp: dlitWf_def)
  have hd: "hd ds \<noteq> CHR ''+'' \<and> hd ds \<noteq> CHR ''-''" using wf digit_no_sign by (cases ds) auto
  obtain y where "exponentLoop ds 0 = (y, [])" using exponentLoop_rest [OF wf(4)] by (metis prod.collapse)
  then show ?thesis
    using wf Some x scanSign_signed [OF wf(2), of ds] hd by (auto simp: dlitExpText_def scanExponent_def)
qed

lemma scanExponent_sound:
  assumes "scanExponent s = Inr (e, [])"
  obtains "s = []" | c sg ds where "s = c # sg @ ds" "c = CHR ''e'' \<or> c = CHR ''E''" "signOk sg"
    "ds \<noteq> []" "list_all isDigit ds"
proof (cases s)
  case Nil
  then show ?thesis using that(1) by simp
next
  case (Cons c cs)
  obtain en ds where sg: "scanSign cs = (en, ds)" by (metis prod.collapse)
  obtain x r where ex: "exponentLoop ds 0 = (x, r)" by (metis prod.collapse)
  from assms Cons sg ex have c: "c = CHR ''e'' \<or> c = CHR ''E''" "r = []" "ds \<noteq> []"
    by (auto simp: scanExponent_def split: if_splits)
  from ex have "r = dropWhile isDigit ds" by (rule exponentLoop_sound)
  with c(2) have "list_all isDigit ds" by (simp add: list_all_iff)
  moreover obtain sgn where "signOk sgn" "cs = sgn @ ds" using scanSign_sound [OF sg] by metis
  ultimately show ?thesis using that(2) [of c sgn ds] c Cons by simp
qed

lemma parseFixed4_wf_accepts: "dlitWf l \<Longrightarrow> parseFixed4 (dlitText l) mode \<noteq> Inl ErrInvalidNumber"
  using scanExponent_dlit_ok [of l] parseFixed4_exponent [of l] fixed4Spec_error by metis

lemma parseFixed4_sound:
  assumes "parseFixed4 s mode \<noteq> Inl ErrInvalidNumber"
  obtains l where "dlitWf l" "s = dlitText l"
proof -
  have ne: "s \<noteq> []" using assms by (auto simp: parseFixed4_def)
  obtain neg s1 where sg: "scanSign s = (neg, s1)" by (metis prod.collapse)
  obtain m s2 where mant: "mantissaLoop s1 mantissa0 = Inr (m, s2)"
    using assms ne sg mantissaLoop_error by (cases "mantissaLoop s1 mantissa0") (fastforce simp: parseFixed4_def)+
  obtain e s3 where ex: "scanExponent s2 = Inr (e, s3)"
    using assms ne sg mant scanExponent_error
    by (cases "scanExponent s2") (fastforce simp: parseFixed4_def split: if_splits)+
  have seen: "seenDigit m" and s3: "s3 = []"
    using assms ne sg mant ex by (auto simp: parseFixed4_def split: if_splits)
  obtain sign where sign: "signOk sign" "s = sign @ s1" using scanSign_sound [OF sg] by metis
  obtain i dot f where fr: "list_all isDigit i" "list_all isDigit f" "\<not> dot \<longrightarrow> f = []"
    "s1 = i @ (if dot then CHR ''.'' # f else []) @ s2" "m = scanned i dot f"
    using mantissaLoop_sound [OF mant] by metis
  have nonempty: "i @ f \<noteq> []" using seen fr scanned_fields(3) [OF fr(3), of i] by simp
  from ex s3 have "scanExponent s2 = Inr (e, [])" by simp
  then show ?thesis
  proof (cases rule: scanExponent_sound)
    case 1
    let ?l = "\<lparr>dl_sign = sign, dl_int = i, dl_dot = dot, dl_frac = f, dl_exp = None\<rparr>"
    have "dlitWf ?l" "s = dlitText ?l"
      using sign fr nonempty 1 by (auto simp: dlitWf_def dlitText_def dlitExpText_def)
    then show ?thesis by (rule that)
  next
    case (2 c sg ds)
    let ?l = "\<lparr>dl_sign = sign, dl_int = i, dl_dot = dot, dl_frac = f, dl_exp = Some (c, sg, ds)\<rparr>"
    have "dlitWf ?l" "s = dlitText ?l"
      using sign fr nonempty 2 by (auto simp: dlitWf_def dlitText_def dlitExpText_def)
    then show ?thesis by (rule that)
  qed
qed

text \<open>Rendering.\<close>

lemma uint_magnitude64: "uint (magnitude64 v) = \<bar>sint v\<bar>"
proof (cases "sint v < 0")
  case True
  then have "magnitude64 v = word_of_int (- sint v)" by (simp add: magnitude64_def)
  moreover have "- sint v \<le> 2 ^ 63" using sint_bounds [of v] by linarith
  ultimately show ?thesis using True uint_word_of_int [of "- sint v"] by simp
next
  case False
  then have "magnitude64 v = word_of_int (sint v)" by (simp add: magnitude64_def)
  moreover have "sint v \<le> 2 ^ 63" using sint_bounds [of v] by linarith
  ultimately show ?thesis using False uint_word_of_int [of "sint v"] by simp
qed

lemma fracLoop_digits:
  "\<exists>ds. fracLoop k fp acc = ds @ acc \<and> length ds = k \<and> list_all isDigit ds \<and> digval ds = unat fp mod 10 ^ k"
proof (induction k arbitrary: fp acc)
  case 0
  then show ?case by simp
next
  case (Suc k)
  have d: "unat (fp mod 10) < 10" by (simp add: unat_mod)
  obtain ds where ds: "fracLoop k (fp div 10) (digitChar (unat (fp mod 10)) # acc) =
      ds @ digitChar (unat (fp mod 10)) # acc" "length ds = k" "list_all isDigit ds"
    "digval ds = unat (fp div 10) mod 10 ^ k" using Suc.IH by blast
  have "unat fp mod (10 * 10 ^ k) = 10 * (unat fp div 10 mod 10 ^ k) + unat fp mod 10"
    by (rule mod_mult2_eq)
  then have "digval (ds @ [digitChar (unat (fp mod 10))]) = unat fp mod 10 ^ Suc k"
    using ds(4) d by (simp add: digval_append digval_Cons unat_div unat_mod)
  then show ?case using ds d by (intro exI [of _ "ds @ [digitChar (unat (fp mod 10))]"]) simp
qed

lemma trimZeros_split: "\<exists>n. s = trimZeros s @ replicate n CHR ''0''"
proof -
  have "rev s = takeWhile (\<lambda>c. c = CHR ''0'') (rev s) @ dropWhile (\<lambda>c. c = CHR ''0'') (rev s)" by simp
  then have "s = trimZeros s @ rev (takeWhile (\<lambda>c. c = CHR ''0'') (rev s))"
    unfolding trimZeros_def by (metis rev_append rev_rev_ident)
  moreover have "takeWhile (\<lambda>c. c = CHR ''0'') xs = replicate (length (takeWhile (\<lambda>c. c = CHR ''0'') xs)) CHR ''0''" for xs
    by (induction xs) auto
  ultimately show ?thesis by (metis rev_replicate)
qed

end
