(* ===== verification/Domain_Fixed_Format.thy ===== *)
theory Domain_Fixed_Format
  imports Domain_Fixed
begin

text \<open>
  Rendering fixed-point values, continued from \<open>Domain_Fixed\<close>: the canonical rendering of
  \<open>formatFixed4\<close> parses back to the value it came from, and the fixed-width rendering of
  \<open>formatFixedDP\<close> denotes the value rounded half to even at the requested digit.  The division
  routine behind it meets the contract of \<open>half_even_division\<close>.
\<close>

lemma rhe_one [simp]: "rhe n 1 = n"
  using rhe_exact [of 1 n] by simp

lemma fixed4Spec_plain:
  assumes "int D * 10 ^ 4 = \<bar>n\<bar> * 10 ^ k" and "neg \<longrightarrow> n \<le> 0" "\<not> neg \<longrightarrow> 0 \<le> n"
  shows "fixed4Spec neg D (4 - int k) mode = orErr ErrOverflow (exact64 n)"
proof -
  have exact: "int D * 10 ^ nat (4 - int k) = \<bar>n\<bar> * 10 ^ nat (- (4 - int k))"
  proof (cases "k \<le> 4")
    case True
    then have "(10 :: int) ^ 4 = 10 ^ (4 - k) * 10 ^ k" by (simp flip: power_add)
    with assms(1) have "int D * 10 ^ (4 - k) * 10 ^ k = \<bar>n\<bar> * 10 ^ k" by (simp only: mult.assoc)
    then have "int D * 10 ^ (4 - k) = \<bar>n\<bar>" by simp
    moreover have "nat (4 - int k) = 4 - k" "nat (- (4 - int k)) = 0" using True by auto
    ultimately show ?thesis by simp
  next
    case False
    then have "(10 :: int) ^ k = 10 ^ (k - 4 + 4)" by simp
    then have "(10 :: int) ^ k = 10 ^ (k - 4) * 10 ^ 4" by (simp only: power_add)
    with assms(1) have "int D = \<bar>n\<bar> * 10 ^ (k - 4)" by simp
    moreover have "nat (4 - int k) = 0" "nat (- (4 - int k)) = k - 4" using False by auto
    ultimately show ?thesis by simp
  qed
  have "rhe (\<bar>n\<bar> * 10 ^ nat (- (4 - int k))) (10 ^ nat (- (4 - int k))) = \<bar>n\<bar>"
    using rhe_exact [of "10 ^ nat (- (4 - int k))" "\<bar>n\<bar>"] by (simp add: mult.commute)
  then show ?thesis using assms(2,3) exact by (auto simp: fixed4Spec_def Let_def exact64_def)
qed

lemma parseFixed4_plain:
  assumes "list_all isDigit i" "list_all isDigit f" "i \<noteq> []" "\<not> dot \<longrightarrow> f = []"
    and "int (digval (i @ f)) * 10 ^ 4 = \<bar>n\<bar> * 10 ^ length f"
    and "neg \<longrightarrow> n \<le> 0" "\<not> neg \<longrightarrow> 0 \<le> n"
  shows "parseFixed4 ((if neg then ''-'' else []) @ i @ (if dot then CHR ''.'' # f else [])) mode =
    orErr ErrOverflow (exact64 n)"
proof -
  let ?l = "\<lparr>dl_sign = (if neg then ''-'' else []), dl_int = i, dl_dot = dot, dl_frac = f, dl_exp = None\<rparr>"
  have "dlitWf ?l" "expSmall ?l"
    using assms by (auto simp: dlitWf_def signOk_def expSmall_def dlitExponent_def)
  from parseFixed4_literal [OF this, of mode] show ?thesis
    using fixed4Spec_plain [OF assms(5-7)]
    by (simp add: dlitText_def dlitExpText_def dlitDigits_def dlitShift_def dlitExponent_def split: if_splits)
qed

lemma digval_pad_zeros: "digval (ds @ replicate n CHR ''0'') = digval ds * 10 ^ n"
  by (simp add: digval_append)

lemma magnitude64_parts:
  assumes "0 < d" "d < 2 ^ 63"
  shows "unat (magnitude64 v div word_of_int (int d)) = nat \<bar>sint v\<bar> div d"
    and "unat (magnitude64 v mod word_of_int (int d)) = nat \<bar>sint v\<bar> mod d"
proof -
  have d: "unat (word_of_int (int d) :: uint64) = d"
    using assms uint_word_of_int [of "int d"] by (simp add: unat_eq_nat_uint del: of_int_of_nat_eq)
  have m: "unat (magnitude64 v) = nat \<bar>sint v\<bar>" by (simp add: unat_eq_nat_uint uint_magnitude64)
  show "unat (magnitude64 v div word_of_int (int d)) = nat \<bar>sint v\<bar> div d"
    and "unat (magnitude64 v mod word_of_int (int d)) = nat \<bar>sint v\<bar> mod d"
    by (simp_all only: unat_div unat_mod d m)
qed

lemmas magnitude64_scale = magnitude64_parts [of 10000, simplified]

lemma trimmed_fraction:
  assumes "unat fp < 10 ^ 4"
  obtains t n where "trimZeros (fracLoop fixedFracDigits fp []) = t" "list_all isDigit t" "length t + n = 4"
    and "digval t * 10 ^ n = unat fp"
proof -
  define ds where "ds = fracLoop 4 fp []"
  have ds: "list_all isDigit ds" "length ds = 4" "digval ds = unat fp"
    using fracLoop_digits [of 4 fp "[]"] assms by (auto simp: ds_def simp del: fracLoop_numeral)
  define t where "t = trimZeros ds"
  obtain n where n: "ds = t @ replicate n CHR ''0''" using trimZeros_split unfolding t_def by blast
  have "list_all isDigit t" "length t + n = 4" "digval t * 10 ^ n = unat fp"
    using ds digval_pad_zeros [of t n] unfolding n by simp_all
  then show ?thesis using that t_def unfolding ds_def fixedFracDigits_def by blast
qed

lemma digval_parts:
  assumes "digval i = n div 10000" "digval f * 10 ^ k = n mod 10000" "length f + k = 4"
  shows "digval (i @ f) * 10 ^ 4 = n * 10 ^ length f"
proof -
  have p: "(10 :: nat) ^ length f * 10 ^ k = 10000" using assms(3) by (simp flip: power_add)
  have "digval (i @ f) * 10 ^ k = (n div 10000) * (10 ^ length f * 10 ^ k) + n mod 10000"
    using assms(1,2) by (simp add: digval_append algebra_simps)
  then have "digval (i @ f) * 10 ^ k = n" by (simp add: p)
  then have "digval (i @ f) * (10 ^ length f * 10 ^ k) = n * 10 ^ length f" by (simp add: algebra_simps)
  then show ?thesis by (simp add: p)
qed

lemma parse_formatFixed4: "parseFixed4 (formatFixed4 v) mode = Inr v"
proof -
  define n where "n = nat \<bar>sint v\<bar>"
  define fp where "fp = magnitude64 v mod 10000"
  define i where "i = fmtUint (unat (magnitude64 v div 10000))"
  have i: "list_all isDigit i" "i \<noteq> []" "digval i = n div 10000"
    by (simp_all add: i_def n_def digval_fmtUint magnitude64_scale)
  have fp: "unat fp = n mod 10000" unfolding fp_def n_def by (rule magnitude64_scale)
  then have "unat fp < 10 ^ 4" by simp
  then obtain t k where t: "trimZeros (fracLoop fixedFracDigits fp []) = t" "list_all isDigit t"
    "length t + k = 4" "digval t * 10 ^ k = unat fp" by (rule trimmed_fraction)
  define f where "f = (if fp \<noteq> 0 then t else [])"
  have "digval (i @ f) * 10 ^ 4 = n * 10 ^ length f"
  proof (cases "fp = 0")
    case True
    then show ?thesis using digval_parts [OF i(3), of "[]" 4] fp by (simp add: f_def)
  next
    case False
    then show ?thesis using digval_parts [OF i(3) _ t(3)] t(4) fp by (simp only: f_def if_True not_False_eq_True)
  qed
  then have "int (digval (i @ f) * 10 ^ 4) = int (n * 10 ^ length f)" by (rule arg_cong)
  then have val: "int (digval (i @ f)) * 10 ^ 4 = \<bar>sint v\<bar> * 10 ^ length f"
    by (simp add: n_def)
  have "parseFixed4 ((if sint v < 0 then ''-'' else []) @ i @ (if fp \<noteq> 0 then CHR ''.'' # f else [])) mode =
      orErr ErrOverflow (exact64 (sint v))"
    by (rule parseFixed4_plain [OF i(1) _ i(2) _ val]) (use t in \<open>auto simp: f_def\<close>)
  moreover have "formatFixed4 v = (if sint v < 0 then ''-'' else []) @ i @ (if fp \<noteq> 0 then CHR ''.'' # f else [])"
    unfolding formatFixed4_def Let_def f_def i_def fp_def t(1) [symmetric] by simp
  ultimately show ?thesis by (simp add: exact64_def)
qed

lemma smod_2_eq_0: "(q :: int) smod 2 = 0 \<longleftrightarrow> even q"
proof -
  have "q smod 2 = 0 \<longleftrightarrow> q = 0 \<or> \<bar>q\<bar> mod 2 = 0" by (simp add: smod_mag sgn_0_0)
  then show ?thesis by presburger
qed

text \<open>Half-even rounding on a truncated quotient and remainder, as the code computes it.\<close>

lemma rhe_truncated_any:
  assumes "0 < d" "q = n sdiv d" "r = n smod d"
  shows "rhe n d = (if r = 0 then q
     else if d < 2 * \<bar>r\<bar> \<or> (2 * \<bar>r\<bar> = d \<and> odd q) then (if n < 0 then q - 1 else q + 1) else q)"
proof -
  let ?q = "\<bar>n\<bar> div d" and ?r = "\<bar>n\<bar> mod d"
  have r: "0 \<le> ?r" using assms(1) by simp
  have q: "q = sgn n * ?q" "\<bar>r\<bar> = (if n = 0 then 0 else ?r)" "r = 0 \<longleftrightarrow> n = 0 \<or> ?r = 0"
    using assms r by (auto simp: sdiv_mag smod_mag abs_mult abs_sgn_eq sgn_0_0)
  have "rhe n d = sgn n * (if d < 2 * ?r then ?q + 1 else if 2 * ?r = d then (if odd ?q then ?q + 1 else ?q) else ?q)"
    using rhe_of_magnitude [OF assms(1)] by (simp add: Let_def)
  then show ?thesis using q assms(1) r
    by (cases n "0 :: int" rule: linorder_cases) (auto simp: algebra_simps)
qed

lemma rhe_truncated:
  assumes "0 < d" "d = 2 * h" "q = n sdiv d" "r = n smod d"
  shows "rhe n d = (if r = 0 then q
     else if h < \<bar>r\<bar> \<or> (\<bar>r\<bar> = h \<and> odd q) then (if n < 0 then q - 1 else q + 1) else q)"
  using rhe_truncated_any [OF assms(1,3,4)] assms(2) by simp

lemma roundHalfEvenDiv_rhe:
  assumes d: "0 < sint d" and ev: "even (sint d)"
  shows "sint (roundHalfEvenDiv v d) = rhe (sint v) (sint d)"
proof -
  let ?n = "sint v" and ?d = "sint d"
  obtain h where h: "?d = 2 * h" using ev by blast
  define q where "q = go_quo v d"
  define r where "r = go_rem v d"
  have sq: "sint q = ?n sdiv ?d" and sr: "sint r = ?n smod ?d"
    using d by (simp_all add: q_def r_def sint_quo sint_rem)
  have "2 \<le> ?d" using d h by auto
  then have "2 * (\<bar>?n\<bar> div ?d) \<le> \<bar>?n\<bar> div ?d * ?d"
    using mult_left_mono [of 2 ?d "\<bar>?n\<bar> div ?d"] d by (simp add: mult.commute pos_imp_zdiv_nonneg_iff)
  also have "\<dots> \<le> \<bar>?n\<bar>" using div_mult_mod_eq [of "\<bar>?n\<bar>" ?d] pos_mod_sign [OF d, of "\<bar>?n\<bar>"] by linarith
  also have "\<dots> \<le> 2 ^ 63" using sint_bounds [of v] by linarith
  finally have "\<bar>sint q\<bar> \<le> 2 ^ 62"
    unfolding sq sdiv_mag [OF d] abs_mult using d by (simp add: abs_sgn_eq pos_imp_zdiv_nonneg_iff)
  then have step: "sint (q + 1) = sint q + 1" "sint (q - 1) = sint q - 1"
    by (auto intro!: sint_plus [of q 1, simplified] sint_minus [of q 1, simplified] simp: fits64_def)
  have "?d \<noteq> 0" using d by (rule less_imp_neq [symmetric])
  from abs_minus_sdiv_mult [OF this, of ?n] have "\<bar>sint r\<bar> < \<bar>?d\<bar>"
    by (simp only: sr minus_sdiv_mult_eq_smod)
  then have "\<bar>sint r\<bar> < 2 ^ 63" using sint_bounds [of d] by linarith
  then have ar: "sint (if sint r < 0 then - r else r) = \<bar>sint r\<bar>" by (auto simp: sint_uminus fits64_def)
  have half: "sint (go_quo d 2) = h" using d h by (simp add: sint_quo sdiv_mag)
  have same: "x = y \<longleftrightarrow> sint x = sint y" for x y :: int64 by simp
  have odd: "go_rem q 2 \<noteq> 0 \<longleftrightarrow> odd (sint q)"
    using sint_rem [of q 2] smod_2_eq_0 [of "sint q"] by (simp flip: sint_eq_0_iff)
  show ?thesis
    unfolding roundHalfEvenDiv_def Let_def q_def [symmetric] r_def [symmetric] odd
      rhe_truncated [OF d h sq sr]
    using ar half step by (simp add: same del: sint_inject sint_eq_0_iff)
qed

lemma pow10tab_nth: "k < 19 \<Longrightarrow> pow10tab ! k = word_of_int (10 ^ k)"
  by (simp add: pow10tab_def i64_def)

lemma unat_pow10tab:
  assumes "k < 19" shows "unat (pow10tab ! k) = 10 ^ k"
proof -
  have "(10 :: int) ^ k \<le> 10 ^ 18" using assms by (intro power_increasing) auto
  then have "(10 :: int) ^ k \<le> 2 ^ 63" by simp
  then have "uint (word_of_int (10 ^ k) :: uint64) = 10 ^ k" by (intro uint_word_of_int) simp_all
  then show ?thesis unfolding pow10tab_nth [OF assms] unat_eq_nat_uint by (simp only: nat_power_eq) simp
qed

lemma digits_replicate [simp]: "list_all isDigit (replicate n CHR ''0'')"
  by (induction n) (auto simp: isDigit_of_char)

lemma fixedDigits_spec:
  "n < 19 \<Longrightarrow> list_all isDigit (fixedDigits fp n) \<and> length (fixedDigits fp n) = n \<and>
     digval (fixedDigits fp n) = unat fp mod 10 ^ n"
proof (induction n)
  case 0
  then show ?case by (simp add: fixedDigits_def)
next
  case (Suc n)
  let ?c = "unat ((fp div (pow10tab ! n)) mod 10)"
  have c: "?c = unat fp div 10 ^ n mod 10" using Suc.prems by (simp add: unat_mod unat_div unat_pow10tab)
  have "fixedDigits fp (Suc n) = digitChar ?c # fixedDigits fp n" by (simp add: fixedDigits_def)
  moreover have "unat fp mod 10 ^ Suc n = 10 ^ n * (unat fp div 10 ^ n mod 10) + unat fp mod 10 ^ n"
    using mod_mult2_eq [of "unat fp" "10 ^ n" 10] by (simp add: mult.commute)
  ultimately show ?case using Suc c by (simp add: digval_Cons)
qed

text \<open>A value rendered with a fixed number of digits after the point.\<close>

definition fixedWidth :: "int64 \<Rightarrow> nat \<Rightarrow> nat \<Rightarrow> string" where
  "fixedWidth s dp pad =
     (if sint s < 0 then ''-'' else []) @ fmtUint (unat (magnitude64 s div (pow10tab ! dp))) @
       (if 0 < dp + pad then CHR ''.'' # fixedDigits (magnitude64 s mod (pow10tab ! dp)) dp @ replicate pad CHR ''0'' else [])"

lemma parse_fixedWidth:
  assumes "dp \<le> 4"
  shows "parseFixed4 (fixedWidth s dp pad) mode = orErr ErrOverflow (exact64 (sint s * 10 ^ (4 - dp)))"
proof -
  define n where "n = nat \<bar>sint s\<bar>"
  define i where "i = fmtUint (unat (magnitude64 s div (pow10tab ! dp)))"
  define f where "f = fixedDigits (magnitude64 s mod (pow10tab ! dp)) dp @ replicate pad CHR ''0''"
  have m: "unat (magnitude64 s) = n" by (simp add: unat_eq_nat_uint uint_magnitude64 n_def)
  have p: "unat (pow10tab ! dp) = 10 ^ dp" using assms by (simp add: unat_pow10tab)
  have i: "list_all isDigit i" "i \<noteq> []" "digval i = n div 10 ^ dp"
    by (simp_all add: i_def digval_fmtUint unat_div m p)
  let ?d = "fixedDigits (magnitude64 s mod (pow10tab ! dp)) dp"
  have d: "list_all isDigit ?d" "length ?d = dp" "digval ?d = n mod 10 ^ dp"
    using fixedDigits_spec [of dp] assms by (simp_all add: unat_mod m p)
  have f: "list_all isDigit f" "length f = dp + pad" using d by (simp_all add: f_def)
  have "digval (i @ f) = n * 10 ^ pad"
    using digval_pad_zeros [of "i @ ?d" pad] by (simp add: f_def digval_append [of i ?d] i d div_mult_mod_eq)
  then have "int (digval (i @ f)) = \<bar>sint s\<bar> * 10 ^ pad" by (simp add: n_def)
  moreover have "(10 :: int) ^ 4 = 10 ^ (4 - dp) * 10 ^ dp" using assms by (simp flip: power_add)
  ultimately have "int (digval (i @ f)) * 10 ^ 4 = \<bar>sint s\<bar> * 10 ^ pad * (10 ^ (4 - dp) * 10 ^ dp)"
    by (simp only:)
  then have val: "int (digval (i @ f)) * 10 ^ 4 = \<bar>sint s * 10 ^ (4 - dp)\<bar> * 10 ^ length f"
    by (simp only: f abs_mult power_add power_abs abs_numeral mult.assoc mult.commute mult.left_commute)
  have "parseFixed4 ((if sint s < 0 then ''-'' else []) @ i @ (if 0 < dp + pad then CHR ''.'' # f else [])) mode =
      orErr ErrOverflow (exact64 (sint s * 10 ^ (4 - dp)))"
    by (rule parseFixed4_plain [OF i(1) f(1) i(2) _ val]) (auto simp: f_def fixedDigits_def mult_le_0_iff)
  then show ?thesis unfolding fixedWidth_def i_def f_def .
qed

lemma formatFixedDP_fixedWidth:
  "formatFixedDP v dp = (if 4 \<le> dp then fixedWidth v 4 (nat dp - 4)
     else fixedWidth (roundHalfEvenDiv v (pow10tab ! (4 - nat dp))) (nat dp) 0)"
  by (auto simp: formatFixedDP_def formatFixedExact_def fixedWidth_def fixedFracDigits_def Let_def pow10tab_nth)

lemma parse_formatFixedDP:
  "parseFixed4 (formatFixedDP v dp) mode =
     (if 4 \<le> dp then Inr v
      else orErr ErrOverflow (exact64 (rhe (sint v) (10 ^ (4 - nat dp)) * 10 ^ (4 - nat dp))))"
proof (cases "4 \<le> dp")
  case True
  then show ?thesis using parse_fixedWidth [of 4 v] by (simp add: formatFixedDP_fixedWidth exact64_def)
next
  case False
  let ?k = "4 - nat dp"
  have k: "0 < ?k" "?k \<le> 4" using False by auto
  have "(10 :: int) ^ ?k < 2 ^ 63" using power_increasing [of ?k 4 "10 :: int"] k by simp
  then have "fits64 (10 ^ ?k)" using zero_le_power [of "10 :: int" ?k] unfolding fits64_def by linarith
  moreover have "?k < 19" using k by simp
  ultimately have s: "sint (pow10tab ! ?k) = 10 ^ ?k" by (simp add: pow10tab_def sint_i64)
  have "even ((10 :: int) ^ ?k)" using k by simp
  then have "sint (roundHalfEvenDiv v (pow10tab ! ?k)) = rhe (sint v) (10 ^ ?k)"
    using roundHalfEvenDiv_rhe [of "pow10tab ! ?k" v] unfolding s by simp
  then show ?thesis
    using False parse_fixedWidth [of "nat dp" "roundHalfEvenDiv v (pow10tab ! ?k)" 0 mode] by (simp add: formatFixedDP_fixedWidth)
qed

interpretation fixed_round: half_even_division
  "\<lambda>(v, d). sint (roundHalfEvenDiv v d)" "\<lambda>(v, d). sint v" "\<lambda>(v, d). sint d"
  "\<lambda>(v, d). 0 < sint d \<and> even (sint d)"
  by (rule half_even_divisionI) (auto simp: roundHalfEvenDiv_rhe)

section \<open>Properties\<close>

text \<open>C28. Every well-formed decimal literal parses to the integer number of 1e-4 units it denotes: the
  half-even rounding of its exact value (or, in exact mode, an inexactness error when it has more than
  four significant decimals), with an overflow error exactly when the value leaves the 64-bit range.
  Exponents are bounded because the source gives up above a billion.\<close>

theorem parseFixed4_correct:
  assumes "dlitWf l" and "expSmall l"
  shows "parseFixed4 (dlitText l) mode = fixed4Spec (dl_sign l = ''-'') (dlitDigits l) (dlitShift l) mode"
  by (rule parseFixed4_literal [OF assms])

theorem parseFixed4_correct_witness:
  "parseFixed4 ''-0.125e-2'' roundHalfEven = fixed4Spec True 125 (- 1) roundHalfEven \<and>
   fixed4Spec True 125 (- 1) roundHalfEven = Inr (- 12)"
proof -
  let ?l = "\<lparr>dl_sign = ''-'', dl_int = ''0'', dl_dot = True, dl_frac = ''125'', dl_exp = Some (CHR ''e'', ''-'', ''2'')\<rparr>"
  have "(dlitWf ?l) \<and>
    (expSmall ?l) \<and>
    (dlitText ?l = ''-0.125e-2'') \<and>
    (dlitDigits ?l = 125) \<and>
    (dlitShift ?l = - 1)" by code_simp
  then have "dlitWf ?l" "expSmall ?l" "dlitText ?l = ''-0.125e-2''" "dlitDigits ?l = 125" "dlitShift ?l = - 1" by blast+
  then have "parseFixed4 ''-0.125e-2'' roundHalfEven = fixed4Spec True 125 (- 1) roundHalfEven"
    using parseFixed4_correct [of ?l roundHalfEven] by simp
  moreover have "fixed4Spec True 125 (- 1) roundHalfEven = Inr (- 12)" by code_simp
  ultimately show ?thesis by simp
qed

text \<open>The parser refuses a string as not a number exactly when it is not a decimal literal.\<close>

theorem parseFixed4_accepts:
  "parseFixed4 s mode \<noteq> Inl ErrInvalidNumber \<longleftrightarrow> (\<exists>l. dlitWf l \<and> s = dlitText l)"
  using parseFixed4_wf_accepts parseFixed4_sound by metis

text \<open>C29. Printing loses nothing: every 64-bit value is read back from its canonical text, in either
  rounding mode, and the fixed-width printer with \<open>dp\<close> decimals reads back as the value rounded half to
  even at that many decimals.\<close>

theorem format_parse_roundtrip:
  "parseFixed4 (formatFixed4 v) mode = Inr v \<and>
   parseFixed4 (formatFixedDP v dp) mode =
     (if 4 \<le> dp then Inr v
      else orErr ErrOverflow (exact64 (rhe (sint v) (10 ^ (4 - nat dp)) * 10 ^ (4 - nat dp))))"
  using parse_formatFixed4 [of v mode] parse_formatFixedDP [of v dp mode] by (rule conjI)

text \<open>C30. The checked 64-bit operations return the exact mathematical result when it fits in 64 bits and
  report overflow otherwise; in particular the multiplication's divide-back test misses no wrapped
  product.\<close>

theorem checked_ops_exact:
  "checkedAdd64 a b = (if fits64 (sint a + sint b) then Some (i64 (sint a + sint b)) else None) \<and>
   checkedSub64 a b = (if fits64 (sint a - sint b) then Some (i64 (sint a - sint b)) else None) \<and>
   checkedMul64 a b = (if fits64 (sint a * sint b) then Some (i64 (sint a * sint b)) else None) \<and>
   checkedNeg64 a = (if fits64 (- sint a) then Some (i64 (- sint a)) else None) \<and>
   checkedAbs64 a = (if fits64 \<bar>sint a\<bar> then Some (i64 \<bar>sint a\<bar>) else None)"
  by (simp add: checked_exact exact64_def)

end
