(* ===== verification/Domain_Money.thy ===== *)
theory Domain_Money
  imports Domain_Fixed_Format
begin

text \<open>
  The numeric value types of \<open>internal/domain/money.go\<close>: \<open>Price\<close>, \<open>Money\<close> (\<open>int64\<close> counts of 1e-4
  units) and \<open>Qty\<close> (whole signed shares), with their overflow-checked methods, text and JSON
  forms.  Methods of the source are named \<open>Type_Method\<close>.  A receiver that a method writes through
  (\<open>UnmarshalJSON\<close>) is returned updated.  The locale \<open>checked_number\<close> states the contract the three
  types share; it is interpreted for each of them.  \<open>Float64\<close> conversions are not modelled here.
\<close>

type_synonym Price = int64
type_synonym Money = int64
type_synonym Qty = int64

section \<open>Shared helpers\<close>

definition cmpInt64 :: "int64 \<Rightarrow> int64 \<Rightarrow> int" where
  "cmpInt64 a b = (if sint a < sint b then -1 else if sint b < sint a then 1 else 0)"

text \<open>\<open>bytes.TrimSpace\<close>: the ASCII spaces and the UTF-8 encodings of the other runes that
  \<open>unicode.IsSpace\<close> accepts.\<close>

definition spaceRunes :: "string list" where
  "spaceRunes = [[CHR 0x09], [CHR 0x0A], [CHR 0x0B], [CHR 0x0C], [CHR 0x0D], [CHR 0x20],
     [CHR 0xC2, CHR 0x85], [CHR 0xC2, CHR 0xA0], [CHR 0xE1, CHR 0x9A, CHR 0x80],
     [CHR 0xE2, CHR 0x80, CHR 0x80], [CHR 0xE2, CHR 0x80, CHR 0x81], [CHR 0xE2, CHR 0x80, CHR 0x82],
     [CHR 0xE2, CHR 0x80, CHR 0x83], [CHR 0xE2, CHR 0x80, CHR 0x84], [CHR 0xE2, CHR 0x80, CHR 0x85],
     [CHR 0xE2, CHR 0x80, CHR 0x86], [CHR 0xE2, CHR 0x80, CHR 0x87], [CHR 0xE2, CHR 0x80, CHR 0x88],
     [CHR 0xE2, CHR 0x80, CHR 0x89], [CHR 0xE2, CHR 0x80, CHR 0x8A], [CHR 0xE2, CHR 0x80, CHR 0xA8],
     [CHR 0xE2, CHR 0x80, CHR 0xA9], [CHR 0xE2, CHR 0x80, CHR 0xAF], [CHR 0xE2, CHR 0x81, CHR 0x9F],
     [CHR 0xE3, CHR 0x80, CHR 0x80]]"

fun trimLeft :: "string list \<Rightarrow> nat \<Rightarrow> string \<Rightarrow> string" where
  "trimLeft rs 0 s = s"
| "trimLeft rs (Suc k) s =
     (case List.find (\<lambda>r. take (length r) s = r) rs of
        None \<Rightarrow> s | Some r \<Rightarrow> trimLeft rs k (drop (length r) s))"

definition TrimSpace :: "string \<Rightarrow> string" where
  "TrimSpace s =
     (let l = trimLeft spaceRunes (length s) s
      in rev (trimLeft (map rev spaceRunes) (length l) (rev l)))"

definition isQuoted :: "string \<Rightarrow> bool" where
  "isQuoted tok \<longleftrightarrow> 2 \<le> length tok \<and> hd tok = CHR 0x22 \<and> last tok = CHR 0x22"

definition stripQuotes :: "string \<Rightarrow> string" where
  "stripQuotes tok = butlast (tl tok)"

definition unquoteJSONString :: "string \<Rightarrow> string result" where
  "unquoteJSONString tok =
     (let inner = stripQuotes tok in
      if CHR 0x5C \<in> set inner then Inl ErrInvalidNumber else Inr inner)"

text \<open>\<open>None\<close> is the result \<open>changed = false\<close>, given for a JSON \<open>null\<close>.\<close>

definition unmarshalFixedJSON :: "string \<Rightarrow> int64 option result" where
  "unmarshalFixedJSON b =
     (let tok = TrimSpace b in
      if tok = ''null'' then Inr None
      else if isQuoted tok then
        (case unquoteJSONString tok of
           Inl _ \<Rightarrow> Inl ErrInvalidNumber
         | Inr s \<Rightarrow> bindR (parseFixed4 s roundExact) (\<lambda>n. Inr (Some n)))
      else bindR (parseFixed4 tok roundExact) (\<lambda>n. Inr (Some n)))"

definition marshalFixedJSON :: "int64 \<Rightarrow> string" where
  "marshalFixedJSON v = CHR 0x22 # formatFixed4 v @ [CHR 0x22]"

text \<open>\<open>strconv.ParseInt(s, 10, 64)\<close> and \<open>strconv.FormatInt(n, 10)\<close>.\<close>

definition ParseInt64 :: "string \<Rightarrow> int64 option" where
  "ParseInt64 s =
     (let (neg, ds) = scanSign s in
      if ds = [] \<or> \<not> list_all isDigit ds then None
      else exact64 (if neg then - int (digval ds) else int (digval ds)))"

definition FormatInt64 :: "int64 \<Rightarrow> string" where
  "FormatInt64 n = (if sint n < 0 then ''-'' else []) @ fmtUint (nat \<bar>sint n\<bar>)"

section \<open>Price\<close>

definition ParsePrice :: "string \<Rightarrow> Price result" where
  "ParsePrice s = parseFixed4 s roundExact"

definition PriceFromInt :: "int64 \<Rightarrow> Price result" where
  "PriceFromInt units = orErr ErrOverflow (checkedMul64 units (i64 FixedScale))"

definition Price_String :: "Price \<Rightarrow> string" where
  "Price_String p = formatFixed4 p"

definition Price_StringFixed :: "Price \<Rightarrow> int \<Rightarrow> string" where
  "Price_StringFixed p dp = formatFixedDP p dp"

definition Price_Add :: "Price \<Rightarrow> Price \<Rightarrow> Price result" where
  "Price_Add p q = orErr ErrOverflow (checkedAdd64 p q)"

definition Price_Sub :: "Price \<Rightarrow> Price \<Rightarrow> Price result" where
  "Price_Sub p q = orErr ErrOverflow (checkedSub64 p q)"

definition Price_Neg :: "Price \<Rightarrow> Price result" where
  "Price_Neg p = orErr ErrOverflow (checkedNeg64 p)"

definition Price_Abs :: "Price \<Rightarrow> Price result" where
  "Price_Abs p = orErr ErrOverflow (checkedAbs64 p)"

definition Price_MulQty :: "Price \<Rightarrow> Qty \<Rightarrow> Money result" where
  "Price_MulQty p q = orErr ErrOverflow (checkedMul64 p q)"

definition Price_AsMoney :: "Price \<Rightarrow> Money" where
  "Price_AsMoney p = p"

definition Price_Cmp :: "Price \<Rightarrow> Price \<Rightarrow> int" where
  "Price_Cmp p q = cmpInt64 p q"

definition Price_Sign :: "Price \<Rightarrow> int" where
  "Price_Sign p = cmpInt64 p 0"

definition Price_IsZero :: "Price \<Rightarrow> bool" where
  "Price_IsZero p \<longleftrightarrow> p = 0"

definition Price_IsPositive :: "Price \<Rightarrow> bool" where
  "Price_IsPositive p \<longleftrightarrow> 0 < sint p"

definition Price_IsNegative :: "Price \<Rightarrow> bool" where
  "Price_IsNegative p \<longleftrightarrow> sint p < 0"

definition Price_MarshalText :: "Price \<Rightarrow> string" where
  "Price_MarshalText p = Price_String p"

definition Price_UnmarshalText :: "string \<Rightarrow> Price \<Rightarrow> Price result" where
  "Price_UnmarshalText b p = ParsePrice b"

definition Price_MarshalJSON :: "Price \<Rightarrow> string" where
  "Price_MarshalJSON p = marshalFixedJSON p"

definition Price_UnmarshalJSON :: "string \<Rightarrow> Price \<Rightarrow> Price result" where
  "Price_UnmarshalJSON b p =
     bindR (unmarshalFixedJSON b) (\<lambda>v. Inr (case v of Some n \<Rightarrow> n | None \<Rightarrow> p))"

section \<open>Money\<close>

definition ParseMoney :: "string \<Rightarrow> Money result" where
  "ParseMoney s = parseFixed4 s roundExact"

definition MoneyFromInt :: "int64 \<Rightarrow> Money result" where
  "MoneyFromInt units = orErr ErrOverflow (checkedMul64 units (i64 FixedScale))"

definition Money_String :: "Money \<Rightarrow> string" where
  "Money_String p = formatFixed4 p"

definition Money_StringFixed :: "Money \<Rightarrow> int \<Rightarrow> string" where
  "Money_StringFixed p dp = formatFixedDP p dp"

definition Money_Add :: "Money \<Rightarrow> Money \<Rightarrow> Money result" where
  "Money_Add p q = orErr ErrOverflow (checkedAdd64 p q)"

definition Money_Sub :: "Money \<Rightarrow> Money \<Rightarrow> Money result" where
  "Money_Sub p q = orErr ErrOverflow (checkedSub64 p q)"

definition Money_Neg :: "Money \<Rightarrow> Money result" where
  "Money_Neg p = orErr ErrOverflow (checkedNeg64 p)"

definition Money_Abs :: "Money \<Rightarrow> Money result" where
  "Money_Abs p = orErr ErrOverflow (checkedAbs64 p)"

definition Money_MulInt64 :: "Money \<Rightarrow> int64 \<Rightarrow> Money result" where
  "Money_MulInt64 m n = orErr ErrOverflow (checkedMul64 m n)"

definition Money_Cmp :: "Money \<Rightarrow> Money \<Rightarrow> int" where
  "Money_Cmp p q = cmpInt64 p q"

definition Money_Sign :: "Money \<Rightarrow> int" where
  "Money_Sign p = cmpInt64 p 0"

definition Money_IsZero :: "Money \<Rightarrow> bool" where
  "Money_IsZero p \<longleftrightarrow> p = 0"

definition Money_IsPositive :: "Money \<Rightarrow> bool" where
  "Money_IsPositive p \<longleftrightarrow> 0 < sint p"

definition Money_IsNegative :: "Money \<Rightarrow> bool" where
  "Money_IsNegative p \<longleftrightarrow> sint p < 0"

definition Money_MarshalText :: "Money \<Rightarrow> string" where
  "Money_MarshalText p = Money_String p"

definition Money_UnmarshalText :: "string \<Rightarrow> Money \<Rightarrow> Money result" where
  "Money_UnmarshalText b p = ParseMoney b"

definition Money_MarshalJSON :: "Money \<Rightarrow> string" where
  "Money_MarshalJSON p = marshalFixedJSON p"

definition Money_UnmarshalJSON :: "string \<Rightarrow> Money \<Rightarrow> Money result" where
  "Money_UnmarshalJSON b p =
     bindR (unmarshalFixedJSON b) (\<lambda>v. Inr (case v of Some n \<Rightarrow> n | None \<Rightarrow> p))"

section \<open>Qty\<close>

definition ParseQty :: "string \<Rightarrow> Qty result" where
  "ParseQty s = orErr ErrInvalidNumber (ParseInt64 s)"

definition Qty_String :: "Qty \<Rightarrow> string" where
  "Qty_String q = FormatInt64 q"

definition Qty_Add :: "Qty \<Rightarrow> Qty \<Rightarrow> Qty result" where
  "Qty_Add p q = orErr ErrOverflow (checkedAdd64 p q)"

definition Qty_Sub :: "Qty \<Rightarrow> Qty \<Rightarrow> Qty result" where
  "Qty_Sub p q = orErr ErrOverflow (checkedSub64 p q)"

definition Qty_Neg :: "Qty \<Rightarrow> Qty result" where
  "Qty_Neg p = orErr ErrOverflow (checkedNeg64 p)"

definition Qty_Abs :: "Qty \<Rightarrow> Qty result" where
  "Qty_Abs p = orErr ErrOverflow (checkedAbs64 p)"

definition Qty_Cmp :: "Qty \<Rightarrow> Qty \<Rightarrow> int" where
  "Qty_Cmp p q = cmpInt64 p q"

definition Qty_Sign :: "Qty \<Rightarrow> int" where
  "Qty_Sign p = cmpInt64 p 0"

definition Qty_IsZero :: "Qty \<Rightarrow> bool" where
  "Qty_IsZero p \<longleftrightarrow> p = 0"

definition Qty_MarshalJSON :: "Qty \<Rightarrow> string" where
  "Qty_MarshalJSON q = FormatInt64 q"

definition Qty_UnmarshalJSON :: "string \<Rightarrow> Qty \<Rightarrow> Qty result" where
  "Qty_UnmarshalJSON b q =
     (let tok = TrimSpace b in
      if tok = ''null'' then Inr q
      else ParseQty (if isQuoted tok then stripQuotes tok else tok))"

section \<open>The contract of a checked number type\<close>

text \<open>Operations return the exact mathematical result, or \<open>ErrOverflow\<close> when the type has no such
  value.\<close>

locale checked_number =
  fixes val :: "'a \<Rightarrow> int"
    and zero :: 'a
    and add :: "'a \<Rightarrow> 'a \<Rightarrow> 'a result"
    and sub :: "'a \<Rightarrow> 'a \<Rightarrow> 'a result"
    and neg :: "'a \<Rightarrow> 'a result"
    and absolute :: "'a \<Rightarrow> 'a result"
    and compare :: "'a \<Rightarrow> 'a \<Rightarrow> int"
  assumes val_inject: "val x = val y \<Longrightarrow> x = y"
    and val_zero: "val zero = 0"
    and add_law: "add x y = Inr z \<longleftrightarrow> val z = val x + val y"
    and sub_law: "sub x y = Inr z \<longleftrightarrow> val z = val x - val y"
    and neg_law: "neg x = Inr z \<longleftrightarrow> val z = - val x"
    and abs_law: "absolute x = Inr z \<longleftrightarrow> val z = \<bar>val x\<bar>"
    and add_error: "add x y = Inl e \<Longrightarrow> e = ErrOverflow"
    and compare_law: "compare x y = sgn (val x - val y)"
begin

lemma add_comm: "add x y = add y x"
proof (cases "add x y")
  case (Inr z)
  then show ?thesis using add_law [of x y z] add_law [of y x z] by (simp add: add.commute)
next
  case (Inl e)
  show ?thesis
  proof (cases "add y x")
    case (Inl e')
    then show ?thesis using \<open>add x y = Inl e\<close> add_error by metis
  next
    case (Inr z)
    then show ?thesis using \<open>add x y = Inl e\<close> add_law [of x y z] add_law [of y x z] by (simp add: add.commute)
  qed
qed

lemma sub_undoes_add: "add x y = Inr z \<Longrightarrow> sub z y = Inr x"
  by (simp add: add_law sub_law)

lemma neg_involutive: "neg x = Inr y \<Longrightarrow> neg y = Inr x"
  by (simp add: neg_law)

lemma compare_zero_iff: "compare x y = 0 \<longleftrightarrow> x = y"
  by (auto simp: compare_law sgn_0_0 val_inject)

lemma compare_antisym: "compare x y = - compare y x"
  by (simp add: compare_law flip: sgn_minus)

text \<open>A running total over checked additions is the exact sum, whatever the order in which the
  summands were added.\<close>

fun total :: "'a list \<Rightarrow> 'a \<Rightarrow> 'a result" where
  "total [] acc = Inr acc"
| "total (x # xs) acc = bindR (add acc x) (total xs)"

lemma total_exact: "total xs acc = Inr t \<Longrightarrow> val t = val acc + sum_list (map val xs)"
proof (induction xs arbitrary: acc)
  case Nil
  then show ?case by simp
next
  case (Cons x xs)
  then obtain a where "add acc x = Inr a" "total xs a = Inr t" by (cases "add acc x") (auto simp: bindR_def)
  then show ?case using Cons.IH [of a] by (simp add: add_law)
qed

lemma total_perm:
  assumes "total xs acc = Inr t" "total ys acc = Inr u" "mset xs = mset ys"
  shows "t = u"
proof -
  have "sum_list (map val xs) = sum_list (map val ys)"
    using assms(3) by (metis mset_map sum_mset_sum_list)
  then show ?thesis using assms(1,2) total_exact val_inject by metis
qed

end

text \<open>All three types meet it on the values \<open>int64\<close> represents.\<close>

lemma orErr_exact [result_simps]: "orErr ErrOverflow (exact64 n) = Inr z \<longleftrightarrow> sint z = n"
  by (simp add: orErr_eq_Inr exact64_Some)

lemma cmpInt64_sgn: "cmpInt64 a b = sgn (sint a - sint b)"
  by (auto simp: cmpInt64_def sgn_if)

lemmas money_defs =
  Price_Add_def Price_Sub_def Price_Neg_def Price_Abs_def Price_MulQty_def Price_Cmp_def Price_Sign_def
  Money_Add_def Money_Sub_def Money_Neg_def Money_Abs_def Money_MulInt64_def Money_Cmp_def Money_Sign_def
  Qty_Add_def Qty_Sub_def Qty_Neg_def Qty_Abs_def Qty_Cmp_def Qty_Sign_def
  PriceFromInt_def MoneyFromInt_def

lemmas money_exact = money_defs [unfolded checked_exact]

text \<open>A successful operation returned the exact value.\<close>

lemma money_ok [result_simps]:
  "Price_Add a b = Inr c \<longleftrightarrow> sint c = sint a + sint b"
  "Price_Sub a b = Inr c \<longleftrightarrow> sint c = sint a - sint b"
  "Price_MulQty a b = Inr c \<longleftrightarrow> sint c = sint a * sint b"
  "Money_Add a b = Inr c \<longleftrightarrow> sint c = sint a + sint b"
  "Money_Sub a b = Inr c \<longleftrightarrow> sint c = sint a - sint b"
  "Money_Neg a = Inr c \<longleftrightarrow> sint c = - sint a"
  "Money_Abs a = Inr c \<longleftrightarrow> sint c = \<bar>sint a\<bar>"
  "Money_MulInt64 a b = Inr c \<longleftrightarrow> sint c = sint a * sint b"
  "Qty_Add a b = Inr c \<longleftrightarrow> sint c = sint a + sint b"
  "Qty_Sub a b = Inr c \<longleftrightarrow> sint c = sint a - sint b"
  "Qty_Neg a = Inr c \<longleftrightarrow> sint c = - sint a"
  "Qty_Abs a = Inr c \<longleftrightarrow> sint c = \<bar>sint a\<bar>"
  by (simp_all add: money_exact orErr_exact)

interpretation price: checked_number sint "0 :: Price" Price_Add Price_Sub Price_Neg Price_Abs Price_Cmp
  by unfold_locales (auto simp: money_exact orErr_exact cmpInt64_sgn orErr_eq_Inl)

interpretation money: checked_number sint "0 :: Money" Money_Add Money_Sub Money_Neg Money_Abs Money_Cmp
  by unfold_locales (auto simp: money_exact orErr_exact cmpInt64_sgn orErr_eq_Inl)

interpretation qty: checked_number sint "0 :: Qty" Qty_Add Qty_Sub Qty_Neg Qty_Abs Qty_Cmp
  by unfold_locales (auto simp: money_exact orErr_exact cmpInt64_sgn orErr_eq_Inl)

section \<open>Text and JSON forms\<close>

lemma trimLeft_stop:
  assumes "s \<noteq> []" "list_all (\<lambda>r. r \<noteq> [] \<and> hd r \<noteq> hd s) rs"
  shows "trimLeft rs k s = s"
proof (cases k)
  case (Suc n)
  have "\<not> take (length r) s = r" if "r \<in> set rs" for r
  proof
    assume t: "take (length r) s = r"
    have "r \<noteq> []" "hd r \<noteq> hd s" using that assms(2) by (auto simp: list_all_iff)
    moreover from this t have "hd r = hd s" by (metis hd_take length_greater_0_conv)
    ultimately show False by simp
  qed
  then have "List.find (\<lambda>r. take (length r) s = r) rs = None" by (auto simp: find_None_iff)
  with Suc show ?thesis by simp
qed simp

definition solid :: "char \<Rightarrow> bool" where
  "solid c \<longleftrightarrow> list_all (\<lambda>r. hd r \<noteq> c \<and> last r \<noteq> c) spaceRunes"

lemma spaceRunes_nonempty: "list_all (\<lambda>r. r \<noteq> []) spaceRunes"
  by (simp add: spaceRunes_def)

lemma TrimSpace_solid:
  assumes "s \<noteq> []" "solid (hd s)" "solid (last s)"
  shows "TrimSpace s = s"
proof -
  have "trimLeft spaceRunes (length s) s = s"
    using assms spaceRunes_nonempty by (intro trimLeft_stop) (auto simp: solid_def list_all_iff)
  moreover have "trimLeft (map rev spaceRunes) (length s) (rev s) = rev s"
    using assms spaceRunes_nonempty
    by (intro trimLeft_stop) (auto simp: solid_def list_all_iff hd_rev)
  ultimately show ?thesis by (simp add: TrimSpace_def Let_def)
qed

lemma solid_digit: "isDigit c \<Longrightarrow> solid c"
  by (auto simp: solid_def spaceRunes_def isDigit_of_char)

lemma solid_quote: "solid CHR 0x22" and solid_minus: "solid CHR ''-''"
  by (simp_all add: solid_def spaceRunes_def)

text \<open>The characters a canonical rendering consists of.\<close>

lemma set_trimZeros: "set (trimZeros s) \<subseteq> set s"
  unfolding trimZeros_def by (auto dest: set_dropWhileD)

lemma formatFixed4_chars:
  "c \<in> set (formatFixed4 v) \<Longrightarrow> isDigit c \<or> c = CHR ''.'' \<or> c = CHR ''-''"
proof -
  obtain ds where ds: "fracLoop fixedFracDigits (magnitude64 v mod 10000) [] = ds" "list_all isDigit ds"
    using fracLoop_digits [of fixedFracDigits "magnitude64 v mod 10000" "[]"] by auto
  assume "c \<in> set (formatFixed4 v)"
  then have "c = CHR ''-'' \<or> c \<in> set (fmtUint (unat (magnitude64 v div 10000))) \<or> c = CHR ''.'' \<or> c \<in> set ds"
    using set_trimZeros [of ds] ds(1) by (auto simp: formatFixed4_def Let_def split: if_splits)
  then show ?thesis using ds(2) fmtUint_digits by (auto simp: list_all_iff)
qed

lemma unmarshal_marshal_fixed: "unmarshalFixedJSON (marshalFixedJSON v) = Inr (Some v)"
proof -
  have trim: "TrimSpace (marshalFixedJSON v) = marshalFixedJSON v"
    by (rule TrimSpace_solid) (simp_all add: marshalFixedJSON_def solid_quote)
  have q: "isQuoted (marshalFixedJSON v)" and strip: "stripQuotes (marshalFixedJSON v) = formatFixed4 v"
    by (simp_all add: isQuoted_def stripQuotes_def marshalFixedJSON_def)
  have "CHR 0x5C \<notin> set (formatFixed4 v)" using formatFixed4_chars [of "CHR 0x5C" v] by (auto simp: isDigit_of_char)
  then have "unquoteJSONString (marshalFixedJSON v) = Inr (formatFixed4 v)"
    by (simp add: unquoteJSONString_def strip)
  moreover have "marshalFixedJSON v \<noteq> ''null''" by (simp add: marshalFixedJSON_def)
  ultimately show ?thesis by (simp add: unmarshalFixedJSON_def trim q parse_formatFixed4 Let_def)
qed

lemma ParseInt64_FormatInt64: "ParseInt64 (FormatInt64 q) = Some q"
proof -
  let ?d = "fmtUint (nat \<bar>sint q\<bar>)"
  have "scanSign ((if sint q < 0 then ''-'' else []) @ ?d) = ((if sint q < 0 then ''-'' else []) = ''-'', ?d)"
    using digit_no_sign fmtUint_digits [of "nat \<bar>sint q\<bar>"]
    by (intro scanSign_signed) (auto simp: signOk_def list_all_iff)
  then have "ParseInt64 (FormatInt64 q) = exact64 (if sint q < 0 then - int (digval ?d) else int (digval ?d))"
    by (simp add: ParseInt64_def FormatInt64_def)
  also have "\<dots> = exact64 (sint q)" by (simp add: digval_fmtUint)
  finally show ?thesis by (simp add: exact64_Some)
qed

lemma Qty_json_roundtrip: "Qty_UnmarshalJSON (Qty_MarshalJSON q) p = Inr q"
proof -
  let ?s = "FormatInt64 q"
  have d: "isDigit (hd (fmtUint n))" "isDigit (last (fmtUint n))" for n
    using fmtUint_digits [of n] by (auto simp: list_all_iff)
  have ne: "?s \<noteq> []" by (simp add: FormatInt64_def)
  have hd: "hd ?s = CHR ''-'' \<or> isDigit (hd ?s)" and lt: "isDigit (last ?s)"
    using d by (auto simp: FormatInt64_def hd_append)
  then have trim: "TrimSpace ?s = ?s"
    using ne by (intro TrimSpace_solid) (auto intro: solid_digit simp: solid_minus)
  have "hd ?s \<noteq> CHR 0x22 \<and> ?s \<noteq> ''null''" using hd by (auto simp: isDigit_of_char)
  then show ?thesis
    by (simp add: Qty_UnmarshalJSON_def Qty_MarshalJSON_def trim isQuoted_def ParseQty_def ParseInt64_FormatInt64 Let_def)
qed

section \<open>Properties\<close>

text \<open>Prices, money amounts and quantities survive the JSON wire: what is written is read back,
  whatever the receiver held before.\<close>

theorem money_wire_roundtrip:
  "Price_UnmarshalJSON (Price_MarshalJSON p) p0 = Inr p \<and>
   Money_UnmarshalJSON (Money_MarshalJSON m) m0 = Inr m \<and>
   Qty_UnmarshalJSON (Qty_MarshalJSON q) q0 = Inr q"
  by (simp add: Price_UnmarshalJSON_def Price_MarshalJSON_def Money_UnmarshalJSON_def Money_MarshalJSON_def
      unmarshal_marshal_fixed Qty_json_roundtrip)

end
