(* ===== verification/Domain_Enums.thy ===== *)
theory Domain_Enums
  imports Domain_Money
begin

text \<open>
  The string enumerations of \<open>internal/domain/enums.go\<close> (and \<open>Grade\<close> of \<open>signal.go\<close>,
  \<open>ExecutionPolicy\<close> and \<open>BrokerEnv\<close> of \<open>trading.go\<close>).  As in the source an enumeration is a string
  type whose values are the wire strings, so a variable may hold an unknown string; \<open>IsValid\<close>
  recognises the known ones and \<open>Parse\<close>/\<open>UnmarshalText\<close> reject the others.  The locale
  \<open>wire_enum\<close> is the contract of such a type, interpreted for every enumeration.
\<close>

section \<open>The contract\<close>

locale wire_enum =
  fixes isValid :: "string \<Rightarrow> bool"
    and parse :: "string \<Rightarrow> string result"
    and marshal :: "string \<Rightarrow> string"
    and unmarshal :: "string \<Rightarrow> string \<Rightarrow> string result"
    and known :: "string list"
  assumes valid_known: "isValid s \<longleftrightarrow> s \<in> set known"
    and known_distinct: "distinct known"
    and parse_valid: "isValid s \<Longrightarrow> parse s = Inr s"
    and parse_invalid: "\<not> isValid s \<Longrightarrow> parse s = Inl ErrInvalidArgument"
    and marshal_wire: "marshal s = s"
    and unmarshal_parse: "unmarshal b s = parse b"
begin

lemma parse_iff: "parse s = Inr v \<longleftrightarrow> v = s \<and> s \<in> set known"
  using parse_valid [of s] parse_invalid [of s] valid_known [of s] by (cases "isValid s") auto

lemma unmarshal_marshal: "isValid s \<Longrightarrow> unmarshal (marshal s) t = Inr s"
  by (simp add: unmarshal_parse marshal_wire parse_valid)

lemma unmarshal_valid: "unmarshal b s = Inr v \<Longrightarrow> isValid v"
  by (simp add: unmarshal_parse parse_iff valid_known)

lemma unmarshal_rejects: "b \<notin> set known \<Longrightarrow> unmarshal b s = Inl ErrInvalidArgument"
  by (simp add: unmarshal_parse parse_invalid valid_known)

lemma unmarshal_total: "unmarshal b s = (if b \<in> set known then Inr b else Inl ErrInvalidArgument)"
  using unmarshal_rejects by (simp add: unmarshal_parse parse_iff)

end

section \<open>SignalSide\<close>

type_synonym SignalSide = string

definition SideLong :: SignalSide where
  "SideLong = ''LONG''"

definition SideFlat :: SignalSide where
  "SideFlat = ''FLAT''"

definition SideShort :: SignalSide where
  "SideShort = ''SHORT''"

definition SignalSide_IsValid :: "SignalSide \<Rightarrow> bool" where
  "SignalSide_IsValid s \<longleftrightarrow> s = SideLong \<or> s = SideFlat \<or> s = SideShort"

definition ParseSignalSide :: "string \<Rightarrow> SignalSide result" where
  "ParseSignalSide s = (if \<not> SignalSide_IsValid s then Inl ErrInvalidArgument else Inr s)"

definition SignalSide_MarshalText :: "SignalSide \<Rightarrow> string" where
  "SignalSide_MarshalText s = s"

definition SignalSide_UnmarshalText :: "string \<Rightarrow> SignalSide \<Rightarrow> SignalSide result" where
  "SignalSide_UnmarshalText b s = bindR (ParseSignalSide b) Inr"

section \<open>OrderSide\<close>

type_synonym OrderSide = string

definition OrderSideBuy :: OrderSide where
  "OrderSideBuy = ''BUY''"

definition OrderSideSell :: OrderSide where
  "OrderSideSell = ''SELL''"

definition OrderSide_IsValid :: "OrderSide \<Rightarrow> bool" where
  "OrderSide_IsValid s \<longleftrightarrow> s = OrderSideBuy \<or> s = OrderSideSell"

definition ParseOrderSide :: "string \<Rightarrow> OrderSide result" where
  "ParseOrderSide s = (if \<not> OrderSide_IsValid s then Inl ErrInvalidArgument else Inr s)"

definition OrderSide_MarshalText :: "OrderSide \<Rightarrow> string" where
  "OrderSide_MarshalText s = s"

definition OrderSide_UnmarshalText :: "string \<Rightarrow> OrderSide \<Rightarrow> OrderSide result" where
  "OrderSide_UnmarshalText b s = bindR (ParseOrderSide b) Inr"

section \<open>OrderType\<close>

type_synonym OrderType = string

definition OrderTypeMarket :: OrderType where
  "OrderTypeMarket = ''MARKET''"

definition OrderTypeLimit :: OrderType where
  "OrderTypeLimit = ''LIMIT''"

definition OrderTypeStopMarket :: OrderType where
  "OrderTypeStopMarket = ''STOP_MARKET''"

definition OrderTypeStopLimit :: OrderType where
  "OrderTypeStopLimit = ''STOP_LIMIT''"

definition OrderType_IsValid :: "OrderType \<Rightarrow> bool" where
  "OrderType_IsValid s \<longleftrightarrow> s = OrderTypeMarket \<or> s = OrderTypeLimit \<or> s = OrderTypeStopMarket \<or> s = OrderTypeStopLimit"

definition ParseOrderType :: "string \<Rightarrow> OrderType result" where
  "ParseOrderType s = (if \<not> OrderType_IsValid s then Inl ErrInvalidArgument else Inr s)"

definition OrderType_MarshalText :: "OrderType \<Rightarrow> string" where
  "OrderType_MarshalText s = s"

definition OrderType_UnmarshalText :: "string \<Rightarrow> OrderType \<Rightarrow> OrderType result" where
  "OrderType_UnmarshalText b s = bindR (ParseOrderType b) Inr"

section \<open>TimeInForce\<close>

type_synonym TimeInForce = string

definition TIFGTC :: TimeInForce where
  "TIFGTC = ''GTC''"

definition TIFDay :: TimeInForce where
  "TIFDay = ''DAY''"

definition TIFIOC :: TimeInForce where
  "TIFIOC = ''IOC''"

definition TIFFOK :: TimeInForce where
  "TIFFOK = ''FOK''"

definition TimeInForce_IsValid :: "TimeInForce \<Rightarrow> bool" where
  "TimeInForce_IsValid s \<longleftrightarrow> s = TIFGTC \<or> s = TIFDay \<or> s = TIFIOC \<or> s = TIFFOK"

definition ParseTimeInForce :: "string \<Rightarrow> TimeInForce result" where
  "ParseTimeInForce s = (if \<not> TimeInForce_IsValid s then Inl ErrInvalidArgument else Inr s)"

definition TimeInForce_MarshalText :: "TimeInForce \<Rightarrow> string" where
  "TimeInForce_MarshalText s = s"

definition TimeInForce_UnmarshalText :: "string \<Rightarrow> TimeInForce \<Rightarrow> TimeInForce result" where
  "TimeInForce_UnmarshalText b s = bindR (ParseTimeInForce b) Inr"

section \<open>OrderStatus\<close>

type_synonym OrderStatus = string

definition OrderStatusSubmitted :: OrderStatus where
  "OrderStatusSubmitted = ''SUBMITTED''"

definition OrderStatusAccepted :: OrderStatus where
  "OrderStatusAccepted = ''ACCEPTED''"

definition OrderStatusPartiallyFilled :: OrderStatus where
  "OrderStatusPartiallyFilled = ''PARTIALLY_FILLED''"

definition OrderStatusFilled :: OrderStatus where
  "OrderStatusFilled = ''FILLED''"

definition OrderStatusCanceled :: OrderStatus where
  "OrderStatusCanceled = ''CANCELED''"

definition OrderStatusRejected :: OrderStatus where
  "OrderStatusRejected = ''REJECTED''"

definition OrderStatus_IsValid :: "OrderStatus \<Rightarrow> bool" where
  "OrderStatus_IsValid s \<longleftrightarrow> s = OrderStatusSubmitted \<or> s = OrderStatusAccepted \<or> s = OrderStatusPartiallyFilled \<or> s = OrderStatusFilled \<or> s = OrderStatusCanceled \<or> s = OrderStatusRejected"

definition ParseOrderStatus :: "string \<Rightarrow> OrderStatus result" where
  "ParseOrderStatus s = (if \<not> OrderStatus_IsValid s then Inl ErrInvalidArgument else Inr s)"

definition OrderStatus_MarshalText :: "OrderStatus \<Rightarrow> string" where
  "OrderStatus_MarshalText s = s"

definition OrderStatus_UnmarshalText :: "string \<Rightarrow> OrderStatus \<Rightarrow> OrderStatus result" where
  "OrderStatus_UnmarshalText b s = bindR (ParseOrderStatus b) Inr"

section \<open>SignalState\<close>

type_synonym SignalState = string

definition StateNoSetup :: SignalState where
  "StateNoSetup = ''no_setup''"

definition StateForming :: SignalState where
  "StateForming = ''forming''"

definition StateBuy :: SignalState where
  "StateBuy = ''buy''"

definition StateHold :: SignalState where
  "StateHold = ''hold''"

definition StateExit :: SignalState where
  "StateExit = ''exit''"

definition StateStopHit :: SignalState where
  "StateStopHit = ''stop_hit''"

definition SignalState_IsValid :: "SignalState \<Rightarrow> bool" where
  "SignalState_IsValid s \<longleftrightarrow> s = StateNoSetup \<or> s = StateForming \<or> s = StateBuy \<or> s = StateHold \<or> s = StateExit \<or> s = StateStopHit"

definition ParseSignalState :: "string \<Rightarrow> SignalState result" where
  "ParseSignalState s = (if \<not> SignalState_IsValid s then Inl ErrInvalidArgument else Inr s)"

definition SignalState_MarshalText :: "SignalState \<Rightarrow> string" where
  "SignalState_MarshalText s = s"

definition SignalState_UnmarshalText :: "string \<Rightarrow> SignalState \<Rightarrow> SignalState result" where
  "SignalState_UnmarshalText b s = bindR (ParseSignalState b) Inr"

section \<open>Regime\<close>

type_synonym Regime = string

definition RegimeBull :: Regime where
  "RegimeBull = ''bull''"

definition RegimeBear :: Regime where
  "RegimeBear = ''bear''"

definition RegimeNeutral :: Regime where
  "RegimeNeutral = ''neutral''"

definition RegimeWarning :: Regime where
  "RegimeWarning = ''warning''"

definition Regime_IsValid :: "Regime \<Rightarrow> bool" where
  "Regime_IsValid s \<longleftrightarrow> s = RegimeBull \<or> s = RegimeBear \<or> s = RegimeNeutral \<or> s = RegimeWarning"

definition ParseRegime :: "string \<Rightarrow> Regime result" where
  "ParseRegime s = (if \<not> Regime_IsValid s then Inl ErrInvalidArgument else Inr s)"

definition Regime_MarshalText :: "Regime \<Rightarrow> string" where
  "Regime_MarshalText s = s"

definition Regime_UnmarshalText :: "string \<Rightarrow> Regime \<Rightarrow> Regime result" where
  "Regime_UnmarshalText b s = bindR (ParseRegime b) Inr"

section \<open>MarketSession\<close>

type_synonym MarketSession = string

definition SessionPre :: MarketSession where
  "SessionPre = ''pre''"

definition SessionRegular :: MarketSession where
  "SessionRegular = ''regular''"

definition SessionPost :: MarketSession where
  "SessionPost = ''post''"

definition SessionClosed :: MarketSession where
  "SessionClosed = ''closed''"

definition MarketSession_IsValid :: "MarketSession \<Rightarrow> bool" where
  "MarketSession_IsValid s \<longleftrightarrow> s = SessionPre \<or> s = SessionRegular \<or> s = SessionPost \<or> s = SessionClosed"

definition ParseMarketSession :: "string \<Rightarrow> MarketSession result" where
  "ParseMarketSession s = (if \<not> MarketSession_IsValid s then Inl ErrInvalidArgument else Inr s)"

definition MarketSession_MarshalText :: "MarketSession \<Rightarrow> string" where
  "MarketSession_MarshalText s = s"

definition MarketSession_UnmarshalText :: "string \<Rightarrow> MarketSession \<Rightarrow> MarketSession result" where
  "MarketSession_UnmarshalText b s = bindR (ParseMarketSession b) Inr"

section \<open>LegRole\<close>

type_synonym LegRole = string

definition LegLong :: LegRole where
  "LegLong = ''long''"

definition LegShort :: LegRole where
  "LegShort = ''short''"

definition LegRole_IsValid :: "LegRole \<Rightarrow> bool" where
  "LegRole_IsValid s \<longleftrightarrow> s = LegLong \<or> s = LegShort"

definition ParseLegRole :: "string \<Rightarrow> LegRole result" where
  "ParseLegRole s = (if \<not> LegRole_IsValid s then Inl ErrInvalidArgument else Inr s)"

definition LegRole_MarshalText :: "LegRole \<Rightarrow> string" where
  "LegRole_MarshalText s = s"

definition LegRole_UnmarshalText :: "string \<Rightarrow> LegRole \<Rightarrow> LegRole result" where
  "LegRole_UnmarshalText b s = bindR (ParseLegRole b) Inr"

section \<open>Grade\<close>

type_synonym Grade = string

definition GradeAPlus :: Grade where
  "GradeAPlus = ''A+''"

definition GradeB :: Grade where
  "GradeB = ''B''"

definition GradeSkip :: Grade where
  "GradeSkip = ''skip''"

definition Grade_IsValid :: "Grade \<Rightarrow> bool" where
  "Grade_IsValid s \<longleftrightarrow> s = GradeAPlus \<or> s = GradeB \<or> s = GradeSkip"

definition ParseGrade :: "string \<Rightarrow> Grade result" where
  "ParseGrade s = (if \<not> Grade_IsValid s then Inl ErrInvalidArgument else Inr s)"

definition Grade_MarshalText :: "Grade \<Rightarrow> string" where
  "Grade_MarshalText s = s"

definition Grade_UnmarshalText :: "string \<Rightarrow> Grade \<Rightarrow> Grade result" where
  "Grade_UnmarshalText b s = bindR (ParseGrade b) Inr"

section \<open>Translations between sides\<close>

definition OrderSideFor :: "SignalSide \<Rightarrow> OrderSide result" where
  "OrderSideFor s =
     (if s = SideLong then Inr OrderSideBuy
      else if s = SideShort then Inr OrderSideSell
      else Inl ErrInvalidArgument)"

definition CloseSideFor :: "Qty \<Rightarrow> OrderSide option" where
  "CloseSideFor net =
     (if 0 < sint net then Some OrderSideSell else if sint net < 0 then Some OrderSideBuy else None)"

definition OrderStatus_IsTerminal :: "OrderStatus \<Rightarrow> bool" where
  "OrderStatus_IsTerminal s \<longleftrightarrow> s = OrderStatusFilled \<or> s = OrderStatusCanceled \<or> s = OrderStatusRejected"

section \<open>Execution policy and broker environment\<close>

type_synonym ExecutionPolicy = string

definition ExecSignal :: ExecutionPolicy where
  "ExecSignal = ''signal''"

definition ExecAuto :: ExecutionPolicy where
  "ExecAuto = ''auto''"

definition ExecutionPolicy_IsValid :: "ExecutionPolicy \<Rightarrow> bool" where
  "ExecutionPolicy_IsValid p \<longleftrightarrow> p = ExecSignal \<or> p = ExecAuto"

definition ParseExecutionPolicy :: "string \<Rightarrow> ExecutionPolicy result" where
  "ParseExecutionPolicy s = (if \<not> ExecutionPolicy_IsValid s then Inl ErrInvalidArgument else Inr s)"

type_synonym BrokerEnv = string

definition EnvPaper :: BrokerEnv where
  "EnvPaper = ''paper''"

definition EnvReal :: BrokerEnv where
  "EnvReal = ''real''"

definition BrokerEnv_IsValid :: "BrokerEnv \<Rightarrow> bool" where
  "BrokerEnv_IsValid e \<longleftrightarrow> e = EnvPaper \<or> e = EnvReal"

definition BrokerEnv_IsReal :: "BrokerEnv \<Rightarrow> bool" where
  "BrokerEnv_IsReal e \<longleftrightarrow> e = EnvReal"

definition BrokerEnv_IsBroker :: "BrokerEnv \<Rightarrow> bool" where
  "BrokerEnv_IsBroker e \<longleftrightarrow> e = EnvPaper \<or> e = EnvReal"

definition RunWord :: "ExecutionPolicy \<Rightarrow> BrokerEnv \<Rightarrow> string" where
  "RunWord exec env =
     (if exec \<noteq> ExecAuto then ''signal'' else if env = EnvReal then ''live'' else ''paper'')"

definition AccountKind :: "BrokerEnv \<Rightarrow> string" where
  "AccountKind env = (if env = EnvReal then ''live'' else ''paper'')"

lemmas enum_values =
  SideLong_def SideFlat_def SideShort_def OrderSideBuy_def OrderSideSell_def OrderTypeMarket_def
  OrderTypeLimit_def OrderTypeStopMarket_def OrderTypeStopLimit_def TIFGTC_def TIFDay_def
  TIFIOC_def TIFFOK_def OrderStatusSubmitted_def OrderStatusAccepted_def
  OrderStatusPartiallyFilled_def OrderStatusFilled_def OrderStatusCanceled_def
  OrderStatusRejected_def StateNoSetup_def StateForming_def StateBuy_def StateHold_def
  StateExit_def StateStopHit_def RegimeBull_def RegimeBear_def RegimeNeutral_def
  RegimeWarning_def SessionPre_def SessionRegular_def SessionPost_def SessionClosed_def
  LegLong_def LegShort_def GradeAPlus_def GradeB_def GradeSkip_def ExecSignal_def ExecAuto_def
  EnvPaper_def EnvReal_def

section \<open>Every enumeration meets the contract\<close>

interpretation signalSide: wire_enum SignalSide_IsValid ParseSignalSide SignalSide_MarshalText SignalSide_UnmarshalText
  "[SideLong, SideFlat, SideShort]"
  by unfold_locales
    (auto simp: SignalSide_IsValid_def ParseSignalSide_def SignalSide_MarshalText_def SignalSide_UnmarshalText_def bindR_def
       enum_values split: sum.splits)

interpretation orderSide: wire_enum OrderSide_IsValid ParseOrderSide OrderSide_MarshalText OrderSide_UnmarshalText
  "[OrderSideBuy, OrderSideSell]"
  by unfold_locales
    (auto simp: OrderSide_IsValid_def ParseOrderSide_def OrderSide_MarshalText_def OrderSide_UnmarshalText_def bindR_def
       enum_values split: sum.splits)

interpretation orderType: wire_enum OrderType_IsValid ParseOrderType OrderType_MarshalText OrderType_UnmarshalText
  "[OrderTypeMarket, OrderTypeLimit, OrderTypeStopMarket, OrderTypeStopLimit]"
  by unfold_locales
    (auto simp: OrderType_IsValid_def ParseOrderType_def OrderType_MarshalText_def OrderType_UnmarshalText_def bindR_def
       enum_values split: sum.splits)

interpretation timeInForce: wire_enum TimeInForce_IsValid ParseTimeInForce TimeInForce_MarshalText TimeInForce_UnmarshalText
  "[TIFGTC, TIFDay, TIFIOC, TIFFOK]"
  by unfold_locales
    (auto simp: TimeInForce_IsValid_def ParseTimeInForce_def TimeInForce_MarshalText_def TimeInForce_UnmarshalText_def bindR_def
       enum_values split: sum.splits)

interpretation orderStatus: wire_enum OrderStatus_IsValid ParseOrderStatus OrderStatus_MarshalText OrderStatus_UnmarshalText
  "[OrderStatusSubmitted, OrderStatusAccepted, OrderStatusPartiallyFilled, OrderStatusFilled, OrderStatusCanceled, OrderStatusRejected]"
  by unfold_locales
    (auto simp: OrderStatus_IsValid_def ParseOrderStatus_def OrderStatus_MarshalText_def OrderStatus_UnmarshalText_def bindR_def
       enum_values split: sum.splits)

interpretation signalState: wire_enum SignalState_IsValid ParseSignalState SignalState_MarshalText SignalState_UnmarshalText
  "[StateNoSetup, StateForming, StateBuy, StateHold, StateExit, StateStopHit]"
  by unfold_locales
    (auto simp: SignalState_IsValid_def ParseSignalState_def SignalState_MarshalText_def SignalState_UnmarshalText_def bindR_def
       enum_values split: sum.splits)

interpretation regime: wire_enum Regime_IsValid ParseRegime Regime_MarshalText Regime_UnmarshalText
  "[RegimeBull, RegimeBear, RegimeNeutral, RegimeWarning]"
  by unfold_locales
    (auto simp: Regime_IsValid_def ParseRegime_def Regime_MarshalText_def Regime_UnmarshalText_def bindR_def
       enum_values split: sum.splits)

interpretation marketSession: wire_enum MarketSession_IsValid ParseMarketSession MarketSession_MarshalText MarketSession_UnmarshalText
  "[SessionPre, SessionRegular, SessionPost, SessionClosed]"
  by unfold_locales
    (auto simp: MarketSession_IsValid_def ParseMarketSession_def MarketSession_MarshalText_def MarketSession_UnmarshalText_def bindR_def
       enum_values split: sum.splits)

interpretation legRole: wire_enum LegRole_IsValid ParseLegRole LegRole_MarshalText LegRole_UnmarshalText
  "[LegLong, LegShort]"
  by unfold_locales
    (auto simp: LegRole_IsValid_def ParseLegRole_def LegRole_MarshalText_def LegRole_UnmarshalText_def bindR_def
       enum_values split: sum.splits)

interpretation grade: wire_enum Grade_IsValid ParseGrade Grade_MarshalText Grade_UnmarshalText
  "[GradeAPlus, GradeB, GradeSkip]"
  by unfold_locales
    (auto simp: Grade_IsValid_def ParseGrade_def Grade_MarshalText_def Grade_UnmarshalText_def bindR_def
       enum_values split: sum.splits)

interpretation executionPolicy: wire_enum ExecutionPolicy_IsValid ParseExecutionPolicy "\<lambda>s. s"
  "\<lambda>b _. ParseExecutionPolicy b" "[ExecSignal, ExecAuto]"
  by unfold_locales (auto simp: ExecutionPolicy_IsValid_def ParseExecutionPolicy_def enum_values)

lemma CloseSideFor_flattens:
  "CloseSideFor net = Some side \<longleftrightarrow>
     (side = OrderSideSell \<and> 0 < sint net) \<or> (side = OrderSideBuy \<and> sint net < 0)"
  by (auto simp: CloseSideFor_def)

lemma OrderSide_distinct [simp]: "OrderSideBuy \<noteq> OrderSideSell" "OrderSideSell \<noteq> OrderSideBuy"
  by (simp_all add: enum_values)

lemma SignalSide_distinct [simp]:
  "SideLong \<noteq> SideShort" "SideShort \<noteq> SideLong" "SideLong \<noteq> SideFlat" "SideFlat \<noteq> SideLong"
  "SideShort \<noteq> SideFlat" "SideFlat \<noteq> SideShort"
  by (simp_all add: enum_values)

section \<open>Properties\<close>


end
