(* ===== verification/Domain_Types.thy ===== *)
theory Domain_Types
  imports Domain_Enums
begin

text \<open>
  The value objects of \<open>internal/domain\<close>: \<open>Bar\<close> (\<open>bar.go\<close>), \<open>Order\<close>, \<open>Fill\<close> and \<open>Position\<close>
  (\<open>order.go\<close>), \<open>Account\<close> (\<open>trading.go\<close>), \<open>SetupInputs\<close> (\<open>signal.go\<close>), \<open>Fundamentals\<close>
  (\<open>fundamentals.go\<close>) and the read-only account book \<open>PortfolioSnapshot\<close> (\<open>account.go\<close>), with
  their constructors, validation and aggregate queries.  A validation returns \<open>Inr ()\<close> for the nil
  error.  A nullable price is an \<open>option\<close>.
\<close>

definition check :: "bool \<Rightarrow> unit result" where
  "check bad = (if bad then Inl ErrInvalidArgument else Inr ())"

lemma check_Inr [simp, result_simps]: "check bad = Inr u \<longleftrightarrow> \<not> bad"
  by (simp add: check_def)

fun checkAll :: "bool list \<Rightarrow> unit result" where
  "checkAll [] = Inr ()"
| "checkAll (b # bs) = bindR (check b) (\<lambda>_. checkAll bs)"

lemma checkAll_Inr: "checkAll bs = Inr u \<longleftrightarrow> list_all Not bs"
  by (induction bs) (auto simp: check_def bindR_def)

lemma checkAll_Inl: "checkAll bs = Inl e \<longleftrightarrow> list_ex (\<lambda>b. b) bs \<and> e = ErrInvalidArgument"
  by (induction bs) (auto simp: check_def bindR_def)

declare checkAll.simps [simp del]

section \<open>Bars\<close>

record Bar =
  bar_Symbol :: string
  bar_TS :: gotime
  bar_Open :: Price
  bar_High :: Price
  bar_Low :: Price
  bar_Close :: Price
  bar_Volume :: int64

definition Bar_Validate :: "Bar \<Rightarrow> unit result" where
  "Bar_Validate b = checkAll
     [bar_Symbol b = [],
      IsZero (bar_TS b),
      t_off (bar_TS b) \<noteq> 0,
      sint (bar_High b) < sint (bar_Low b),
      sint (bar_Open b) < sint (bar_Low b) \<or> sint (bar_High b) < sint (bar_Open b),
      sint (bar_Close b) < sint (bar_Low b) \<or> sint (bar_High b) < sint (bar_Close b),
      sint (bar_Volume b) < 0]"

section \<open>Orders, fills, positions\<close>

record Order =
  ord_ClientOrderID :: string
  ord_VenueOrderID :: string
  ord_StrategyID :: string
  ord_Symbol :: string
  ord_Side :: OrderSide
  ord_Type :: OrderType
  ord_TIF :: TimeInForce
  ord_Qty :: Qty
  ord_LimitPrice :: "Price option"
  ord_StopPrice :: "Price option"
  ord_Status :: OrderStatus
  ord_FilledQty :: Qty
  ord_AvgFillPx :: Price
  ord_Reason :: string
  ord_TS :: gotime

definition NewMarketOrder ::
    "string \<Rightarrow> string \<Rightarrow> string \<Rightarrow> OrderSide \<Rightarrow> Qty \<Rightarrow> string \<Rightarrow> gotime \<Rightarrow> Order" where
  "NewMarketOrder clientOrderID strategyID symbol side qty reason ts =
     \<lparr>ord_ClientOrderID = clientOrderID, ord_VenueOrderID = [], ord_StrategyID = strategyID,
      ord_Symbol = symbol, ord_Side = side, ord_Type = OrderTypeMarket, ord_TIF = TIFGTC, ord_Qty = qty,
      ord_LimitPrice = None, ord_StopPrice = None, ord_Status = OrderStatusSubmitted,
      ord_FilledQty = 0, ord_AvgFillPx = 0, ord_Reason = reason, ord_TS = ts\<rparr>"

definition missingPrice :: "Price option \<Rightarrow> bool" where
  "missingPrice p \<longleftrightarrow> (case p of None \<Rightarrow> True | Some x \<Rightarrow> \<not> Price_IsPositive x)"

definition Order_Validate :: "Order \<Rightarrow> unit result" where
  "Order_Validate od = checkAll
     [ord_ClientOrderID od = [],
      ord_StrategyID od = [],
      ord_Symbol od = [],
      \<not> OrderSide_IsValid (ord_Side od),
      \<not> OrderType_IsValid (ord_Type od),
      \<not> TimeInForce_IsValid (ord_TIF od),
      \<not> OrderStatus_IsValid (ord_Status od),
      sint (ord_Qty od) \<le> 0,
      (ord_Type od = OrderTypeLimit \<or> ord_Type od = OrderTypeStopLimit) \<and> missingPrice (ord_LimitPrice od),
      (ord_Type od = OrderTypeStopMarket \<or> ord_Type od = OrderTypeStopLimit) \<and> missingPrice (ord_StopPrice od),
      IsZero (ord_TS od),
      sint (ord_FilledQty od) < 0 \<or> sint (ord_Qty od) < sint (ord_FilledQty od),
      ord_Status od = OrderStatusFilled \<and> ord_FilledQty od \<noteq> ord_Qty od]"

record Fill =
  fill_TradeID :: string
  fill_ClientOrderID :: string
  fill_VenueOrderID :: string
  fill_StrategyID :: string
  fill_Symbol :: string
  fill_Side :: OrderSide
  fill_Qty :: Qty
  fill_Price :: Price
  fill_Commission :: Money
  fill_TS :: gotime

definition Fill_Notional :: "Fill \<Rightarrow> Money result" where
  "Fill_Notional f = Price_MulQty (fill_Price f) (fill_Qty f)"

definition Fill_Validate :: "Fill \<Rightarrow> unit result" where
  "Fill_Validate f = checkAll
     [fill_TradeID f = [],
      fill_ClientOrderID f = [],
      fill_StrategyID f = [],
      fill_Symbol f = [],
      \<not> OrderSide_IsValid (fill_Side f),
      sint (fill_Qty f) \<le> 0,
      \<not> Price_IsPositive (fill_Price f),
      Money_IsNegative (fill_Commission f),
      IsZero (fill_TS f)]"

record PositionSnap =
  pos_StrategyID :: string
  pos_Symbol :: string
  pos_SignedQty :: Qty
  pos_AvgPx :: Price
  pos_RealizedPnL :: Money
  pos_UpdatedAt :: gotime

definition PositionSnap_IsFlat :: "PositionSnap \<Rightarrow> bool" where
  "PositionSnap_IsFlat p \<longleftrightarrow> pos_SignedQty p = 0"

definition PositionSnap_IsLong :: "PositionSnap \<Rightarrow> bool" where
  "PositionSnap_IsLong p \<longleftrightarrow> 0 < sint (pos_SignedQty p)"

definition PositionSnap_IsShort :: "PositionSnap \<Rightarrow> bool" where
  "PositionSnap_IsShort p \<longleftrightarrow> sint (pos_SignedQty p) < 0"

definition PositionSnap_MarketValue :: "PositionSnap \<Rightarrow> Price \<Rightarrow> Money result" where
  "PositionSnap_MarketValue p px = Price_MulQty px (pos_SignedQty p)"

definition PositionSnap_Validate :: "PositionSnap \<Rightarrow> unit result" where
  "PositionSnap_Validate p = checkAll
     [pos_StrategyID p = [], pos_Symbol p = [], Price_IsNegative (pos_AvgPx p)]"

section \<open>Broker accounts\<close>

record BrokerAccount =
  acct_ID :: string
  acct_Venue :: string
  acct_Env :: BrokerEnv
  acct_BrokerAccID :: uint64
  acct_Label :: string
  acct_IsDefault :: bool
  acct_Notes :: string

definition NewBrokerAccount :: "string \<Rightarrow> BrokerEnv \<Rightarrow> uint64 \<Rightarrow> string \<Rightarrow> BrokerAccount" where
  "NewBrokerAccount venue env brokerAccID label =
     \<lparr>acct_ID = venue @ '':'' @ env @ '':'' @ fmtUint (unat brokerAccID), acct_Venue = venue,
      acct_Env = env, acct_BrokerAccID = brokerAccID, acct_Label = label, acct_IsDefault = False,
      acct_Notes = []\<rparr>"

definition BrokerAccount_Validate :: "BrokerAccount \<Rightarrow> unit result" where
  "BrokerAccount_Validate a = checkAll
     [acct_ID a = [],
      \<not> BrokerEnv_IsValid (acct_Env a),
      BrokerEnv_IsBroker (acct_Env a) \<and> acct_BrokerAccID a = 0]"

section \<open>Setup grading and fundamentals\<close>

record SetupInputs =
  si_TrendTemplatePass :: bool
  si_EarningsPass :: bool
  si_Stage :: string
  si_Catalyst :: bool
  si_VCPContractionCount :: int
  si_Regime :: string

definition GradeSetup :: "SetupInputs \<Rightarrow> Grade" where
  "GradeSetup i =
     (if si_Regime i = RegimeBear \<or> si_Stage i \<noteq> ''2'' then GradeSkip
      else if \<not> (si_TrendTemplatePass i \<and> si_EarningsPass i) then GradeSkip
      else if si_VCPContractionCount i < 2 then GradeSkip
      else if si_Catalyst i \<and> 3 \<le> si_VCPContractionCount i \<and> si_Regime i = RegimeBull then GradeAPlus
      else GradeB)"

record Fundamentals =
  fund_Ticker :: string
  fund_MarketCapUSD :: Money
  fund_AsOf :: gotime

definition Fundamentals_Validate :: "Fundamentals \<Rightarrow> unit result" where
  "Fundamentals_Validate f = checkAll
     [fund_Ticker f = [], \<not> Money_IsPositive (fund_MarketCapUSD f), IsZero (fund_AsOf f)]"

section \<open>The portfolio snapshot\<close>

text \<open>The composite key \<open>StrategySymbol\<close> is the pair (strategy id, symbol).\<close>

type_synonym StrategySymbol = "string \<times> string"

record PortfolioSnapshot =
  ps_NAV :: Money
  ps_Cash :: Money
  ps_RealizedPnLToday :: Money
  ps_UnrealizedPnLToday :: Money
  ps_Positions :: "(StrategySymbol, Qty) gomap"
  ps_LastClose :: "(string, Price) gomap"

fun cloneMapLoop :: "('k, 'v) gomap \<Rightarrow> ('k, 'v) gomap \<Rightarrow> ('k, 'v) gomap" where
  "cloneMapLoop [] out = out"
| "cloneMapLoop ((k, v) # m) out = cloneMapLoop m (mapSet k v out)"

definition clonePositions :: "(StrategySymbol, Qty) gomap \<Rightarrow> (StrategySymbol, Qty) gomap" where
  "clonePositions m = cloneMapLoop m []"

definition cloneLastClose :: "(string, Price) gomap \<Rightarrow> (string, Price) gomap" where
  "cloneLastClose m = cloneMapLoop m []"

definition NewPortfolioSnapshot ::
    "Money \<Rightarrow> Money \<Rightarrow> Money \<Rightarrow> Money \<Rightarrow> (StrategySymbol, Qty) gomap \<Rightarrow> (string, Price) gomap \<Rightarrow> PortfolioSnapshot" where
  "NewPortfolioSnapshot nav cash realizedToday unrealizedToday positions lastClose =
     \<lparr>ps_NAV = nav, ps_Cash = cash, ps_RealizedPnLToday = realizedToday,
      ps_UnrealizedPnLToday = unrealizedToday, ps_Positions = clonePositions positions,
      ps_LastClose = cloneLastClose lastClose\<rparr>"

definition PortfolioSnapshot_Clone :: "PortfolioSnapshot \<Rightarrow> PortfolioSnapshot" where
  "PortfolioSnapshot_Clone a =
     \<lparr>ps_NAV = ps_NAV a, ps_Cash = ps_Cash a, ps_RealizedPnLToday = ps_RealizedPnLToday a,
      ps_UnrealizedPnLToday = ps_UnrealizedPnLToday a, ps_Positions = clonePositions (ps_Positions a),
      ps_LastClose = cloneLastClose (ps_LastClose a)\<rparr>"

definition TotalPnLToday :: "PortfolioSnapshot \<Rightarrow> Money result" where
  "TotalPnLToday a = Money_Add (ps_RealizedPnLToday a) (ps_UnrealizedPnLToday a)"

definition StrategyPosition :: "PortfolioSnapshot \<Rightarrow> string \<Rightarrow> string \<Rightarrow> Qty" where
  "StrategyPosition a strategyID symbol =
     (case mapGet (ps_Positions a) (strategyID, symbol) of Some q \<Rightarrow> q | None \<Rightarrow> 0)"

text \<open>The loops range over the map in its iteration order, which is the order of the list.\<close>

fun netLoop :: "string \<Rightarrow> (StrategySymbol, Qty) gomap \<Rightarrow> Qty \<Rightarrow> Qty result" where
  "netLoop symbol [] net = Inr net"
| "netLoop symbol ((key, qty) # m) net =
     (if snd key \<noteq> symbol then netLoop symbol m net
      else bindR (Qty_Add net qty) (netLoop symbol m))"

definition NetPositionAcrossStrategies :: "PortfolioSnapshot \<Rightarrow> string \<Rightarrow> Qty result" where
  "NetPositionAcrossStrategies a symbol = netLoop symbol (ps_Positions a) 0"

fun grossLoop :: "(string, Price) gomap \<Rightarrow> string \<Rightarrow> (StrategySymbol, Qty) gomap \<Rightarrow> Money \<Rightarrow> Money result" where
  "grossLoop closes strategyID [] tot = Inr tot"
| "grossLoop closes strategyID ((key, qty) # m) tot =
     (if fst key \<noteq> strategyID \<or> qty = 0 then grossLoop closes strategyID m tot
      else case mapGet closes (snd key) of
        None \<Rightarrow> grossLoop closes strategyID m tot
      | Some price \<Rightarrow>
          if price = 0 then grossLoop closes strategyID m tot
          else bindR (Qty_Abs qty) (\<lambda>absQty.
            bindR (Price_MulQty price absQty) (\<lambda>value.
              bindR (Money_Add tot value) (grossLoop closes strategyID m))))"

definition GrossExposureForStrategy :: "PortfolioSnapshot \<Rightarrow> string \<Rightarrow> Money result" where
  "GrossExposureForStrategy a strategyID = grossLoop (ps_LastClose a) strategyID (ps_Positions a) 0"

text \<open>The wire form: \<open>encoding/json\<close> turns these records into text.  The comparison of \<open>sort.Slice\<close>
  is the lexicographic order of (strategy id, symbol), strict on the distinct keys of a map.\<close>

record portfolioSnapshotJSON =
  js_NAV :: Money
  js_Cash :: Money
  js_RealizedPnLToday :: Money
  js_UnrealizedPnLToday :: Money
  js_Positions :: "(StrategySymbol \<times> Qty) list"
  js_LastClose :: "(string, Price) gomap"

definition PortfolioSnapshot_MarshalJSON :: "PortfolioSnapshot \<Rightarrow> portfolioSnapshotJSON" where
  "PortfolioSnapshot_MarshalJSON a =
     \<lparr>js_NAV = ps_NAV a, js_Cash = ps_Cash a, js_RealizedPnLToday = ps_RealizedPnLToday a,
      js_UnrealizedPnLToday = ps_UnrealizedPnLToday a, js_Positions = sort_key fst (ps_Positions a),
      js_LastClose = ps_LastClose a\<rparr>"

fun positionEntriesLoop ::
    "(StrategySymbol \<times> Qty) list \<Rightarrow> (StrategySymbol, Qty) gomap \<Rightarrow> (StrategySymbol, Qty) gomap result" where
  "positionEntriesLoop [] positions = Inr positions"
| "positionEntriesLoop ((key, qty) # es) positions =
     (if mapGet positions key \<noteq> None then Inl ErrInvalidArgument
      else positionEntriesLoop es (mapSet key qty positions))"

definition PortfolioSnapshot_UnmarshalJSON :: "portfolioSnapshotJSON \<Rightarrow> PortfolioSnapshot result" where
  "PortfolioSnapshot_UnmarshalJSON raw =
     bindR (positionEntriesLoop (js_Positions raw) []) (\<lambda>positions. Inr
       \<lparr>ps_NAV = js_NAV raw, ps_Cash = js_Cash raw, ps_RealizedPnLToday = js_RealizedPnLToday raw,
        ps_UnrealizedPnLToday = js_UnrealizedPnLToday raw, ps_Positions = positions,
        ps_LastClose = js_LastClose raw\<rparr>)"

section \<open>Validation\<close>

lemma NewMarketOrder_valid:
  assumes "cid \<noteq> []" "sid \<noteq> []" "symbol \<noteq> []" "OrderSide_IsValid side" "0 < sint qty" "\<not> IsZero ts"
  shows "Order_Validate (NewMarketOrder cid sid symbol side qty reason ts) = Inr ()"
  using assms
  by (simp add: Order_Validate_def NewMarketOrder_def checkAll_Inr OrderType_IsValid_def
      TimeInForce_IsValid_def OrderStatus_IsValid_def enum_values)

lemma Order_Validate_filled:
  assumes "Order_Validate od = Inr ()"
  shows "0 < sint (ord_Qty od)" "0 \<le> sint (ord_FilledQty od)" "sint (ord_FilledQty od) \<le> sint (ord_Qty od)"
    "ord_Status od = OrderStatusFilled \<Longrightarrow> ord_FilledQty od = ord_Qty od"
  using assms by (auto simp: Order_Validate_def checkAll_Inr not_le not_less)

lemma Fill_Validate_ok:
  "Fill_Validate f = Inr () \<longleftrightarrow>
     fill_TradeID f \<noteq> [] \<and> fill_ClientOrderID f \<noteq> [] \<and> fill_StrategyID f \<noteq> [] \<and> fill_Symbol f \<noteq> [] \<and>
     OrderSide_IsValid (fill_Side f) \<and> 0 < sint (fill_Qty f) \<and> 0 < sint (fill_Price f) \<and>
     0 \<le> sint (fill_Commission f) \<and> \<not> IsZero (fill_TS f)"
  by (auto simp: Fill_Validate_def checkAll_Inr Price_IsPositive_def Money_IsNegative_def)

lemma Fill_Validate_error: "Fill_Validate f = Inl e \<Longrightarrow> e = ErrInvalidArgument"
  by (simp only: Fill_Validate_def checkAll_Inl)

section \<open>Snapshot queries\<close>

lemma cloneMapLoop_append:
  "distinct (map fst m) \<Longrightarrow> set (map fst m) \<inter> set (mapKeys out) = {} \<Longrightarrow> cloneMapLoop m out = out @ m"
proof (induction m arbitrary: out)
  case (Cons x m)
  obtain k v where x: "x = (k, v)" by (cases x)
  have "mapGet out k = None" using Cons.prems(2) x mapGet_in_keys [of out k] by auto
  then show ?case using Cons x by (auto simp: mapSet_fresh mapKeys_def)
qed simp

lemma clone_id: "mapWf m \<Longrightarrow> cloneMapLoop m [] = m"
  using cloneMapLoop_append [of m "[]"] by (simp add: mapWf_def mapKeys_def)

definition snapWf :: "PortfolioSnapshot \<Rightarrow> bool" where
  "snapWf a \<longleftrightarrow> mapWf (ps_Positions a) \<and> mapWf (ps_LastClose a)"

lemma Clone_eq: "snapWf a \<Longrightarrow> PortfolioSnapshot_Clone a = a"
  by (simp add: PortfolioSnapshot_Clone_def clonePositions_def cloneLastClose_def snapWf_def clone_id)

lemma netLoop_total: "netLoop symbol m net = qty.total (map snd (filter (\<lambda>e. snd (fst e) = symbol) m)) net"
  by (induction symbol m net rule: netLoop.induct) (auto simp: bindR_def split: sum.splits)

definition grossTerm :: "(string, Price) gomap \<Rightarrow> StrategySymbol \<times> Qty \<Rightarrow> int" where
  "grossTerm closes e = \<bar>sint (snd e)\<bar> * (case mapGet closes (snd (fst e)) of None \<Rightarrow> 0 | Some p \<Rightarrow> sint p)"

lemma grossLoop_exact:
  "grossLoop closes sid m tot = Inr t \<Longrightarrow>
   sint t = sint tot + (\<Sum>e\<leftarrow>filter (\<lambda>e. fst (fst e) = sid) m. grossTerm closes e)"
proof (induction closes sid m tot rule: grossLoop.induct)
  case (2 closes sid key qty m tot)
  show ?case
  proof (cases "fst key \<noteq> sid \<or> qty = 0 \<or> mapGet closes (snd key) = None \<or> mapGet closes (snd key) = Some 0")
    case True
    then show ?thesis using 2 by (auto simp: grossTerm_def split: option.splits if_splits)
  next
    case False
    then obtain price where p: "mapGet closes (snd key) = Some price" "price \<noteq> 0" by auto
    from 2(5) False p obtain a v s where
      "Qty_Abs qty = Inr a" "Price_MulQty price a = Inr v" "Money_Add tot v = Inr s"
      "grossLoop closes sid m s = Inr t"
      by (auto simp: bindR_def split: sum.splits)
    moreover from this have "sint a = \<bar>sint qty\<bar>" "sint v = sint price * sint a" "sint s = sint tot + sint v"
      by (simp_all add: money_exact orErr_exact)
    ultimately show ?thesis using 2(4) False p by (auto simp: grossTerm_def)
  qed
qed simp

section \<open>The wire form\<close>

lemma positionEntriesLoop_eq:
  "positionEntriesLoop es m =
     (if distinct (map fst es) \<and> set (map fst es) \<inter> set (mapKeys m) = {} then Inr (m @ es)
      else Inl ErrInvalidArgument)"
proof (induction es arbitrary: m)
  case (Cons x es)
  obtain k v where x: "x = (k, v)" by (cases x)
  show ?case
  proof (cases "mapGet m k")
    case None
    then have "k \<notin> set (mapKeys m)" using mapGet_in_keys [of m k] by blast
    then show ?thesis using Cons.IH [of "m @ [(k, v)]"] None x by (auto simp: mapSet_fresh mapKeys_def)
  next
    case (Some y)
    then show ?thesis using x mapGet_in_keys [of m k] by auto
  qed
qed simp

lemma distinct_sort_key_fst: "distinct (map fst (sort_key fst m)) \<longleftrightarrow> distinct (map fst m)"
  by (rule mset_eq_imp_distinct_iff) (metis mset_map mset_sort)

lemma snapshot_wire_roundtrip:
  assumes "snapWf a"
  obtains b where "PortfolioSnapshot_UnmarshalJSON (PortfolioSnapshot_MarshalJSON a) = Inr b"
    and "mapGet (ps_Positions b) = mapGet (ps_Positions a)"
    and "b\<lparr>ps_Positions := ps_Positions a\<rparr> = a"
proof -
  let ?s = "sort_key fst (ps_Positions a)"
  have d: "distinct (map fst (ps_Positions a))" using assms by (simp add: snapWf_def mapWf_def mapKeys_def)
  have "map_of ?s = map_of (ps_Positions a)"
    using map_of_inject_set [of ?s "ps_Positions a"] d by (simp add: distinct_sort_key_fst)
  then show ?thesis
    using d by (intro that [of "a\<lparr>ps_Positions := ?s\<rparr>"])
      (auto simp: PortfolioSnapshot_UnmarshalJSON_def PortfolioSnapshot_MarshalJSON_def
        positionEntriesLoop_eq distinct_sort_key_fst mapGet_def mapKeys_def fun_eq_iff)
qed

section \<open>Properties\<close>

text \<open>A portfolio snapshot survives the JSON wire: the decoded snapshot holds the same amounts, the
  same last closes and the same position for every (strategy, symbol).\<close>

theorem snapshot_wire:
  assumes "snapWf a"
  shows "\<exists>b. PortfolioSnapshot_UnmarshalJSON (PortfolioSnapshot_MarshalJSON a) = Inr b \<and>
    mapGet (ps_Positions b) = mapGet (ps_Positions a) \<and> b\<lparr>ps_Positions := ps_Positions a\<rparr> = a"
  by (rule snapshot_wire_roundtrip [OF assms]) blast

theorem snapshot_wire_witness:
  "\<exists>b. PortfolioSnapshot_UnmarshalJSON (PortfolioSnapshot_MarshalJSON
      \<lparr>ps_NAV = 1000, ps_Cash = 900, ps_RealizedPnLToday = 1, ps_UnrealizedPnLToday = 2,
       ps_Positions = [((''s'', ''Z''), 3), ((''s'', ''A''), - 4)], ps_LastClose = [(''Z'', 5)]\<rparr>) = Inr b \<and>
    mapGet (ps_Positions b) = mapGet [((''s'', ''Z''), 3), ((''s'', ''A''), - 4)]"
proof -
  have "snapWf \<lparr>ps_NAV = 1000, ps_Cash = 900, ps_RealizedPnLToday = 1, ps_UnrealizedPnLToday = 2,
       ps_Positions = [((''s'', ''Z''), 3), ((''s'', ''A''), - 4)], ps_LastClose = [(''Z'', 5)]\<rparr>" by code_simp
  from snapshot_wire [OF this] show ?thesis by auto
qed

text \<open>The net position of a symbol and the gross exposure of a strategy are the exact sums over the
  snapshot's entries, whatever order the map is walked in, whenever no checked step overflows.\<close>

theorem snapshot_sums_exact:
  "NetPositionAcrossStrategies s sy = Inr n \<Longrightarrow>
     sint n = (\<Sum>e\<leftarrow>filter (\<lambda>e. snd (fst e) = sy) (ps_Positions s). sint (snd e))"
  "GrossExposureForStrategy s sid = Inr g \<Longrightarrow>
     sint g = (\<Sum>e\<leftarrow>filter (\<lambda>e. fst (fst e) = sid) (ps_Positions s). grossTerm (ps_LastClose s) e)"
  using qty.total_exact [of _ 0 n] grossLoop_exact [of "ps_LastClose s" sid "ps_Positions s" 0 g]
  by (auto simp: NetPositionAcrossStrategies_def GrossExposureForStrategy_def netLoop_total comp_def)

theorem snapshot_sums_exact_witness:
  "\<exists>n. NetPositionAcrossStrategies \<lparr>ps_NAV = 0, ps_Cash = 0, ps_RealizedPnLToday = 0, ps_UnrealizedPnLToday = 0,
      ps_Positions = [((''s'', ''A''), 3), ((''t'', ''A''), - 1)], ps_LastClose = []\<rparr> ''A'' = Inr n \<and> sint n = 2"
proof -
  let ?s = "\<lparr>ps_NAV = 0, ps_Cash = 0, ps_RealizedPnLToday = 0, ps_UnrealizedPnLToday = 0,
      ps_Positions = [((''s'', ''A''), 3), ((''t'', ''A''), - 1)], ps_LastClose = []\<rparr>"
  have "NetPositionAcrossStrategies ?s ''A'' = Inr 2" by code_simp
  from snapshot_sums_exact(1) [OF this] this show ?thesis by auto
qed

end
