(* ===== verification/Accounting_Position.thy ===== *)
theory Accounting_Position
  imports Domain_Types
begin

text \<open>
  The netting position of \<open>internal/accounting\<close> (\<open>math.go\<close>, \<open>position.go\<close>).  A method that mutates
  its receiver returns the receiver as it is left behind together with the result, also when the
  result is an error: a fill that fails half way leaves a partly updated position, as in the code.
  The abstract specification \<open>netFill\<close> works on exact integers; \<open>ApplyFill\<close> refines it.
\<close>

section \<open>Integer helpers\<close>

definition sameSign :: "Qty \<Rightarrow> Qty \<Rightarrow> bool" where
  "sameSign a b = (if a = 0 \<or> b = 0 then a = b else (0 < sint a) = (0 < sint b))"

definition absQty :: "Qty \<Rightarrow> int64" where
  "absQty q = (if sint q < 0 then - q else q)"

definition absQtyVal :: "Qty \<Rightarrow> Qty" where
  "absQtyVal q = (if sint q < 0 then - q else q)"

definition acct_roundHalfEvenDiv :: "int64 \<Rightarrow> int64 \<Rightarrow> int64" where
  "acct_roundHalfEvenDiv v0 d =
     (if d = 0 then 0
      else let neg = sint v0 < 0; v = (if neg then - v0 else v0);
               q = go_quo v d; r = go_rem v d; twice = r * 2;
               q1 = (if sint d < sint twice then q + 1
                     else if twice = d then (if go_rem q 2 \<noteq> 0 then q + 1 else q) else q)
           in if neg then - q1 else q1)"

definition roundMoneyToCents :: "Money \<Rightarrow> Money" where
  "roundMoneyToCents m = (let cents = acct_roundHalfEvenDiv m 100 in cents * 100)"

text \<open>The intermediate product is a \<open>big.Int\<close>, an unbounded integer; \<open>Int64\<close> keeps the low 64 bits.\<close>

definition mulDivRoundHalfEven :: "int64 \<Rightarrow> int64 \<Rightarrow> int64 \<Rightarrow> int64" where
  "mulDivRoundHalfEven v num den =
     (if den = 0 \<or> num = 0 then 0
      else let prod0 = sint v * sint num; neg = prod0 < 0; prod = \<bar>prod0\<bar>;
               q = prod sdiv sint den; r = prod smod sint den; twice = 2 * r;
               q1 = (if sint den < twice then q + 1
                     else if twice = sint den then (if odd q then q + 1 else q) else q)
           in i64 (if neg then - q1 else q1))"

section \<open>Positions\<close>

record Position =
  strategyID :: string
  symbol :: string
  signedQty :: Qty
  entryNotional :: Money
  realized :: Money
  updatedAt :: gotime

definition NewPosition :: "string \<Rightarrow> string \<Rightarrow> Position" where
  "NewPosition sid sym' =
     \<lparr>strategyID = sid, symbol = sym', signedQty = 0, entryNotional = 0, realized = 0,
      updatedAt = zeroTime\<rparr>"

definition Position_IsFlat :: "Position \<Rightarrow> bool" where
  "Position_IsFlat p \<longleftrightarrow> signedQty p = 0"

definition AvgEntryPrice :: "Position \<Rightarrow> Price" where
  "AvgEntryPrice p =
     (if signedQty p = 0 then 0 else acct_roundHalfEvenDiv (entryNotional p) (absQty (signedQty p)))"

definition Position_Snapshot :: "Position \<Rightarrow> PositionSnap" where
  "Position_Snapshot p =
     \<lparr>pos_StrategyID = strategyID p, pos_Symbol = symbol p, pos_SignedQty = signedQty p,
      pos_AvgPx = AvgEntryPrice p, pos_RealizedPnL = realized p, pos_UpdatedAt = updatedAt p\<rparr>"

definition UnrealizedPnL :: "Position \<Rightarrow> Price \<Rightarrow> Money result" where
  "UnrealizedPnL p px =
     (if signedQty p = 0 then Inr 0
      else bindR (Price_MulQty px (signedQty p)) (\<lambda>mktValue.
        bindR (if sint (signedQty p) < 0 then Money_Neg (entryNotional p) else Inr (entryNotional p))
          (\<lambda>cost. Money_Sub mktValue cost)))"

record FillOutcome =
  RealizedDelta :: Money
  Opened :: bool
  Closed :: bool
  Changed :: bool
  Flipped :: bool

definition noOutcome :: FillOutcome where
  "noOutcome = \<lparr>RealizedDelta = 0, Opened = False, Closed = False, Changed = False, Flipped = False\<rparr>"

definition openLeg :: "Position \<Rightarrow> Qty \<Rightarrow> Price \<Rightarrow> Position \<times> unit result" where
  "openLeg p qty price =
     (case Price_MulQty price qty of
        Inl e \<Rightarrow> (p, Inl e)
      | Inr add \<Rightarrow>
          (case Money_Add (entryNotional p) add of
             Inl e \<Rightarrow> (p, Inl e)
           | Inr n \<Rightarrow> (p\<lparr>entryNotional := n\<rparr>, Inr ())))"

definition closeLeg :: "Position \<Rightarrow> Qty \<Rightarrow> Price \<Rightarrow> Qty \<Rightarrow> Position \<times> Money result" where
  "closeLeg p closeQty price prevQty =
     (let prevAbs = absQty prevQty; closeAbs = absQty closeQty in
      if closeAbs = 0 then (p, Inr 0)
      else let releasedCost = mulDivRoundHalfEven (entryNotional p) closeAbs prevAbs in
        case Price_MulQty price closeQty of
          Inl e \<Rightarrow> (p, Inl e)
        | Inr proceeds \<Rightarrow>
            (case (if 0 < sint prevQty then Money_Sub proceeds releasedCost
                   else Money_Sub releasedCost proceeds) of
               Inl e \<Rightarrow> (p, Inl e)
             | Inr realizedFull \<Rightarrow>
                 let r = roundMoneyToCents realizedFull in
                 case Money_Sub (entryNotional p) releasedCost of
                   Inl e \<Rightarrow> (p, Inl e)
                 | Inr remaining \<Rightarrow>
                     let p1 = p\<lparr>entryNotional := (if closeAbs = prevAbs then 0 else remaining)\<rparr> in
                     case Money_Add (realized p1) r of
                       Inl e \<Rightarrow> (p1, Inl e)
                     | Inr acc \<Rightarrow> (p1\<lparr>realized := acc\<rparr>, Inr r)))"

definition fillDelta :: "Fill \<Rightarrow> Qty result" where
  "fillDelta f =
     (if fill_Side f = OrderSideBuy then Inr (fill_Qty f)
      else if fill_Side f = OrderSideSell then Qty_Neg (fill_Qty f)
      else Inl ErrInvalidArgument)"

text \<open>The transition taken for a previous and a new quantity: the \<open>switch\<close> of \<open>ApplyFill\<close>.\<close>

datatype transition = OpenFlat | Increase | Reduce | CloseAll | Flip

definition classify :: "Qty \<Rightarrow> Qty \<Rightarrow> transition" where
  "classify prevQty newQty =
     (if prevQty = 0 then OpenFlat
      else if sameSign prevQty newQty \<and> sint (absQty prevQty) < sint (absQty newQty) then Increase
      else if sameSign prevQty newQty \<and> newQty \<noteq> 0 then Reduce
      else if newQty = 0 then CloseAll
      else Flip)"

definition applyTransition :: "Position \<Rightarrow> Fill \<Rightarrow> Qty \<Rightarrow> Position \<times> FillOutcome result" where
  "applyTransition p f newQty =
     (let prevQty = signedQty p in
      case classify prevQty newQty of
        OpenFlat \<Rightarrow>
          (case openLeg p (fill_Qty f) (fill_Price f) of
             (p1, Inl e) \<Rightarrow> (p1, Inl e)
           | (p1, Inr _) \<Rightarrow> (p1, Inr (noOutcome\<lparr>Opened := True\<rparr>)))
      | Increase \<Rightarrow>
          (case openLeg p (fill_Qty f) (fill_Price f) of
             (p1, Inl e) \<Rightarrow> (p1, Inl e)
           | (p1, Inr _) \<Rightarrow> (p1, Inr (noOutcome\<lparr>Changed := True\<rparr>)))
      | Reduce \<Rightarrow>
          (case closeLeg p (fill_Qty f) (fill_Price f) prevQty of
             (p1, Inl e) \<Rightarrow> (p1, Inl e)
           | (p1, Inr r) \<Rightarrow> (p1, Inr (noOutcome\<lparr>RealizedDelta := r, Changed := True\<rparr>)))
      | CloseAll \<Rightarrow>
          (case closeLeg p (absQtyVal prevQty) (fill_Price f) prevQty of
             (p1, Inl e) \<Rightarrow> (p1, Inl e)
           | (p1, Inr r) \<Rightarrow> (p1, Inr (noOutcome\<lparr>RealizedDelta := r, Closed := True\<rparr>)))
      | Flip \<Rightarrow>
          (case closeLeg p (absQtyVal prevQty) (fill_Price f) prevQty of
             (p1, Inl e) \<Rightarrow> (p1, Inl e)
           | (p1, Inr r) \<Rightarrow>
               (case openLeg p1 (absQtyVal newQty) (fill_Price f) of
                  (p2, Inl e) \<Rightarrow> (p2, Inl e)
                | (p2, Inr _) \<Rightarrow>
                    (p2, Inr (noOutcome\<lparr>RealizedDelta := r, Opened := True, Closed := True,
                                        Flipped := True\<rparr>)))))"

definition ApplyFill :: "Position \<Rightarrow> Fill \<Rightarrow> Position \<times> FillOutcome result" where
  "ApplyFill p f =
     (if sint (fill_Qty f) \<le> 0 then (p, Inl ErrInvalidArgument)
      else case fillDelta f of
        Inl e \<Rightarrow> (p, Inl e)
      | Inr delta \<Rightarrow>
          (case Qty_Add (signedQty p) delta of
             Inl e \<Rightarrow> (p, Inl e)
           | Inr newQty \<Rightarrow>
               (case applyTransition p f newQty of
                  (p1, Inl e) \<Rightarrow> (p1, Inl e)
                | (p1, Inr out) \<Rightarrow> (p1\<lparr>signedQty := newQty, updatedAt := fill_TS f\<rparr>, Inr out))))"

section \<open>Rounding\<close>

lemma word_eq_sint: "(x :: int64) = y \<longleftrightarrow> sint x = sint y"
  by simp

lemma go_rem_2: "go_rem q 2 \<noteq> 0 \<longleftrightarrow> odd (sint q)"
  using sint_rem [of q 2] smod_2_eq_0 [of "sint q"] by (simp flip: sint_eq_0_iff)

lemma acct_roundHalfEvenDiv_nonneg:
  assumes v: "0 \<le> sint v" and d: "0 < sint d" "sint d \<le> 2 ^ 62"
  shows "sint (acct_roundHalfEvenDiv v d) = rhe (sint v) (sint d)"
proof -
  define q where "q = go_quo v d"
  define r where "r = go_rem v d"
  have dn: "d \<noteq> 0" using d by auto
  have q: "sint q = sint v div sint d" and r: "sint r = sint v mod sint d"
    using v d by (simp_all add: q_def r_def sint_quo sint_rem sdiv_mag smod_mag sgn_if)
  have rb: "0 \<le> sint r" "sint r < sint d" using d by (simp_all add: r)
  then have tw: "sint (r * 2) = 2 * sint r" using d by (subst sint_times) (auto simp: fits64_def)
  have up: "sint (q + 1) = sint q + 1" if "sint d \<le> 2 * sint r"
  proof -
    have "2 \<le> sint d" using rb that by linarith
    then have "2 * sint q \<le> sint q * sint d"
      using mult_left_mono [of 2 "sint d" "sint q"] v d by (simp add: q mult.commute pos_imp_zdiv_nonneg_iff)
    also have "\<dots> \<le> sint v" using div_mult_mod_eq [of "sint v" "sint d"] rb(1) unfolding q r by linarith
    finally have "fits64 (sint q + 1)"
      using sint_bounds [of v] v d by (auto simp: fits64_def q pos_imp_zdiv_nonneg_iff)
    then show ?thesis using sint_plus [of q 1] by simp
  qed
  have "rhe (sint v) (sint d) = (if sint d < 2 * sint r then sint q + 1
      else if 2 * sint r = sint d then (if odd (sint q) then sint q + 1 else sint q) else sint q)"
    using rhe_of_magnitude [OF d(1), of "sint v"] v d(1) by (auto simp: Let_def q r sgn_if)
  moreover have "r * 2 = d \<longleftrightarrow> 2 * sint r = sint d" by (simp only: word_eq_sint tw)
  ultimately show ?thesis
    using v dn up tw by (simp add: acct_roundHalfEvenDiv_def Let_def go_rem_2 flip: q_def r_def)
qed

lemma acct_roundHalfEvenDiv_rhe:
  assumes v: "v \<noteq> MinInt64" and d: "0 < sint d" "sint d \<le> 2 ^ 62"
  shows "sint (acct_roundHalfEvenDiv v d) = rhe (sint v) (sint d)"
proof (cases "sint v < 0")
  case False
  then show ?thesis using acct_roundHalfEvenDiv_nonneg d by simp
next
  case True
  have "sint v \<noteq> - (2 ^ 63)" using v by (metis sint_Min sint_inject)
  then have nv: "sint (- v) = - sint v" using sint_bounds [of v] by (intro sint_uminus) (auto simp: fits64_def)
  let ?q = "acct_roundHalfEvenDiv (- v) d"
  have q: "sint ?q = - rhe (sint v) (sint d)"
    using acct_roundHalfEvenDiv_nonneg [of "- v" d] True d nv by (simp add: rhe_uminus)
  have "acct_roundHalfEvenDiv v d = - ?q"
    using True nv d by (auto simp: acct_roundHalfEvenDiv_def Let_def)
  moreover have "fits64 (- sint ?q)"
    using rhe_abs_le [OF d(1), of "sint v"] sint_bounds [of v] True \<open>sint v \<noteq> _\<close>
    unfolding q fits64_def by linarith
  ultimately show ?thesis using q by (simp add: sint_uminus)
qed

definition cents :: "int \<Rightarrow> int" where
  "cents n = 100 * rhe n 100"

lemma cents_near: "\<bar>n - cents n\<bar> \<le> 50"
  using rhe_nearest [of 100 n] by (simp add: cents_def algebra_simps)

lemma roundMoneyToCents_cents:
  assumes "m \<noteq> MinInt64" shows "sint (roundMoneyToCents m) = cents (sint m)"
proof -
  let ?c = "acct_roundHalfEvenDiv m 100"
  have c: "sint ?c = rhe (sint m) 100" using acct_roundHalfEvenDiv_rhe [OF assms, of 100] by simp
  have near: "\<bar>sint m - 100 * rhe (sint m) 100\<bar> \<le> 50" using cents_near [of "sint m"] by (simp add: cents_def)
  have b: "- 9223372036854775808 \<le> sint m" "sint m < 9223372036854775808" using sint_bounds [of m] by simp_all
  have "rhe (sint m) 100 \<le> 92233720368547758" using near b by linarith
  moreover have "- 92233720368547758 \<le> rhe (sint m) 100" using near b by linarith
  ultimately have "fits64 (100 * rhe (sint m) 100)" by (simp add: fits64_def)
  then show ?thesis using sint_times [of ?c 100] c by (simp add: roundMoneyToCents_def cents_def Let_def mult.commute)
qed

lemma mulDivRoundHalfEven_rhe:
  assumes den: "0 < sint den" and num: "0 \<le> sint num" "sint num \<le> sint den"
  shows "sint (mulDivRoundHalfEven v num den) = rhe (sint v * sint num) (sint den)"
proof -
  let ?n = "sint v * sint num" and ?d = "sint den"
  have "mulDivRoundHalfEven v num den = i64 (rhe ?n ?d)"
  proof (cases "num = 0")
    case True
    then show ?thesis using rhe_exact [OF den, of 0] by (simp add: mulDivRoundHalfEven_def i64_def)
  next
    case False
    have "den \<noteq> 0" using den by auto
    then show ?thesis
      using False den rhe_of_magnitude [OF den, of ?n]
      by (auto simp: mulDivRoundHalfEven_def Let_def sdiv_mag smod_mag sgn_if)
  qed
  moreover have "fits64 (rhe ?n ?d)"
  proof (cases "0 \<le> sint v")
    case True
    then have "0 * ?d \<le> ?n" "?n \<le> sint v * ?d" using num by (auto intro: mult_left_mono)
    from rhe_bounds [OF den this] show ?thesis using sint_bounds [of v] by (simp add: fits64_def)
  next
    case False
    then have "sint v * ?d \<le> ?n" "?n \<le> 0 * ?d"
      using num by (auto intro: mult_left_mono_neg simp: mult_nonpos_nonneg)
    from rhe_bounds [OF den this] show ?thesis using sint_bounds [of v] by (simp add: fits64_def)
  qed
  ultimately show ?thesis by (simp add: sint_i64)
qed

section \<open>The legs\<close>

lemma sint_absQty: "q \<noteq> MinInt64 \<Longrightarrow> sint (absQty q) = \<bar>sint q\<bar>"
  using sint_bounds [of q] by (auto simp: absQty_def not_Min_sint sint_uminus fits64_def)

lemma absQtyVal_eq: "absQtyVal q = absQty q"
  by (simp add: absQtyVal_def absQty_def)

lemma openLeg_ok:
  "openLeg p qty price = (p', Inr u) \<Longrightarrow>
     \<exists>n. p' = p\<lparr>entryNotional := n\<rparr> \<and> sint n = sint (entryNotional p) + sint price * sint qty"
  by (auto simp: openLeg_def result_simps split: sum.splits)

lemma closeLeg_ok:
  assumes "closeLeg p c price prev = (p', Inr r)"
    and c: "0 < sint c" "sint c \<le> \<bar>sint prev\<bar>" and prev: "prev \<noteq> MinInt64"
    and N: "0 \<le> sint (entryNotional p)" and px: "0 < sint price"
  defines "rel \<equiv> rhe (sint (entryNotional p) * sint c) \<bar>sint prev\<bar>"
  shows "sint r = cents (sgn (sint prev) * (sint price * sint c - rel))"
    and "\<exists>n a. p' = p\<lparr>entryNotional := n, realized := a\<rparr> \<and> sint a = sint (realized p) + sint r \<and>
           sint n = (if sint c = \<bar>sint prev\<bar> then 0 else sint (entryNotional p) - rel)"
    and "0 \<le> rel" "rel \<le> sint (entryNotional p)"
proof -
  let ?N = "sint (entryNotional p)" and ?d = "\<bar>sint prev\<bar>"
  have d: "0 < ?d" using c by linarith
  have ca: "absQty c = c" using c by (simp add: absQty_def)
  have pa: "sint (absQty prev) = ?d" by (rule sint_absQty [OF prev])
  have cn: "c \<noteq> 0" using c by auto
  define rc where "rc = mulDivRoundHalfEven (entryNotional p) c (absQty prev)"
  have rc: "sint rc = rel"
    using mulDivRoundHalfEven_rhe [of "absQty prev" c "entryNotional p"] c d pa by (simp add: rc_def rel_def)
  have "0 * ?d \<le> ?N * sint c" "?N * sint c \<le> ?N * ?d" using N c by (auto intro: mult_left_mono)
  from rhe_bounds [OF d this] show rel: "0 \<le> rel" "rel \<le> ?N" by (simp_all add: rel_def)
  note step = assms(1) [unfolded closeLeg_def Let_def ca rc_def [symmetric]]
  obtain proceeds where 1: "Price_MulQty price c = Inr proceeds"
    using step cn by (cases "Price_MulQty price c") simp_all
  obtain full where 2: "(if 0 < sint prev then Money_Sub proceeds rc else Money_Sub rc proceeds) = Inr full"
    using step cn 1 by (cases "if 0 < sint prev then Money_Sub proceeds rc else Money_Sub rc proceeds") simp_all
  obtain rem where 3: "Money_Sub (entryNotional p) rc = Inr rem"
    using step cn 1 2 by (cases "Money_Sub (entryNotional p) rc") simp_all
  obtain acc where 4: "Money_Add (realized p) (roundMoneyToCents full) = Inr acc"
    using step cn 1 2 3 by (cases "Money_Add (realized p) (roundMoneyToCents full)") simp_all
  have r: "r = roundMoneyToCents full"
    and p': "p' = p\<lparr>entryNotional := (if c = absQty prev then 0 else rem), realized := acc\<rparr>"
    using step cn 1 2 3 4 by simp_all
  have full: "sint full = (if 0 < sint prev then sint proceeds - rel else rel - sint proceeds)"
    and pr: "sint proceeds = sint price * sint c" and rem: "sint rem = ?N - rel"
    and acc: "sint acc = sint (realized p) + sint r"
    using 1 2 3 4 by (auto simp: money_ok rc r split: if_splits)
  have "0 \<le> sint proceeds" using pr c px by simp
  then have "full \<noteq> MinInt64"
    using full rel sint_bounds [of proceeds] sint_bounds [of "entryNotional p"]
    by (auto simp: not_Min_sint split: if_splits)
  moreover have "sint full = sgn (sint prev) * (sint price * sint c - rel)"
    using full pr d by (auto simp: sgn_if)
  ultimately show "sint r = cents (sgn (sint prev) * (sint price * sint c - rel))"
    using r roundMoneyToCents_cents [of full] by simp
  have "c = absQty prev \<longleftrightarrow> sint c = ?d" by (simp only: word_eq_sint pa)
  then show "\<exists>n a. p' = p\<lparr>entryNotional := n, realized := a\<rparr> \<and> sint a = sint (realized p) + sint r \<and>
           sint n = (if sint c = ?d then 0 else ?N - rel)"
    using p' acc rem by auto
qed

section \<open>Exact netting\<close>

text \<open>A position as exact integers: signed quantity, cost basis of the open quantity, realized PnL.\<close>

type_synonym netpos = "int \<times> int \<times> int"

definition absPos :: "Position \<Rightarrow> netpos" where
  "absPos p = (sint (signedQty p), sint (entryNotional p), sint (realized p))"

text \<open>The netting rule: a fill in the direction of the position adds its notional to the cost basis;
  one against it releases the pro-rata cost basis and realizes the difference, to the cent; what
  exceeds the open quantity opens a position on the other side.\<close>

definition netRealized :: "netpos \<Rightarrow> int \<Rightarrow> int \<Rightarrow> int" where
  "netRealized s d px = (case s of (q, N, R) \<Rightarrow>
     if q * d < 0 then (let c = min \<bar>d\<bar> \<bar>q\<bar> in cents (sgn q * (px * c - rhe (N * c) \<bar>q\<bar>))) else 0)"

definition netFill :: "netpos \<Rightarrow> int \<Rightarrow> int \<Rightarrow> netpos" where
  "netFill s d px = (case s of (q, N, R) \<Rightarrow>
     (q + d,
      if 0 \<le> q * d then N + px * \<bar>d\<bar>
      else if \<bar>d\<bar> < \<bar>q\<bar> then N - rhe (N * \<bar>d\<bar>) \<bar>q\<bar>
      else px * (\<bar>d\<bar> - \<bar>q\<bar>),
      R + netRealized s d px))"

definition signedFill :: "Fill \<Rightarrow> int" where
  "signedFill f = (if fill_Side f = OrderSideBuy then sint (fill_Qty f) else - sint (fill_Qty f))"

definition posWf :: "Position \<Rightarrow> bool" where
  "posWf p \<longleftrightarrow> 0 \<le> sint (entryNotional p) \<and> (signedQty p = 0 \<longrightarrow> entryNotional p = 0) \<and>
     signedQty p \<noteq> MinInt64 \<and> 100 dvd sint (realized p)"

lemma classify_spec:
  assumes "prev \<noteq> MinInt64" "new \<noteq> MinInt64" "sint new = sint prev + d" "d \<noteq> 0"
  shows "classify prev new =
    (if sint prev = 0 then OpenFlat else if 0 < sint prev * d then Increase
     else if \<bar>d\<bar> < \<bar>sint prev\<bar> then Reduce else if \<bar>d\<bar> = \<bar>sint prev\<bar> then CloseAll else Flip)"
proof -
  have z: "prev = 0 \<longleftrightarrow> sint prev = 0" "new = 0 \<longleftrightarrow> sint new = 0" by simp_all
  show ?thesis
    unfolding classify_def sameSign_def z sint_absQty [OF assms(1)] sint_absQty [OF assms(2)] assms(3)
    using assms(4) by (cases "sint prev" "0 :: int" rule: linorder_cases; cases d "0 :: int" rule: linorder_cases)
      (auto simp: zero_less_mult_iff)
qed

lemma fillDelta_ok: "fillDelta f = Inr d \<Longrightarrow> sint d = signedFill f"
  by (auto simp: fillDelta_def signedFill_def money_ok split: if_splits)

text \<open>The three closing shapes of the netting rule.\<close>

lemma netFill_grow:
  "0 \<le> q * d \<Longrightarrow> netFill (q, N, R) d px = (q + d, N + px * \<bar>d\<bar>, R) \<and> netRealized (q, N, R) d px = 0"
  by (simp add: netFill_def netRealized_def)

lemma netFill_shrink:
  assumes "q * d < 0" "\<bar>d\<bar> \<le> \<bar>q\<bar>" "rel = rhe (N * \<bar>d\<bar>) \<bar>q\<bar>" "g = cents (sgn q * (px * \<bar>d\<bar> - rel))"
  shows "netFill (q, N, R) d px = (q + d, if \<bar>d\<bar> = \<bar>q\<bar> then 0 else N - rel, R + g) \<and> netRealized (q, N, R) d px = g"
  using assms by (auto simp: netFill_def netRealized_def Let_def min_def)

lemma rhe_whole: "0 < c \<Longrightarrow> rhe (N * c) c = N"
  by (rule rhe_exact)

lemma netFill_turn:
  assumes "q * d < 0" "\<bar>q\<bar> < \<bar>d\<bar>" "g = cents (sgn q * (px * \<bar>q\<bar> - N))"
  shows "netFill (q, N, R) d px = (q + d, px * \<bar>q + d\<bar>, R + g) \<and> netRealized (q, N, R) d px = g"
proof -
  have "rhe (N * \<bar>q\<bar>) \<bar>q\<bar> = N" using assms by (intro rhe_whole) auto
  moreover have "\<bar>q + d\<bar> = \<bar>d\<bar> - \<bar>q\<bar>" using assms by (auto simp: mult_less_0_iff)
  ultimately show ?thesis using assms by (auto simp: netFill_def netRealized_def Let_def min_def)
qed

definition fillStep :: "Position \<Rightarrow> int \<Rightarrow> int \<Rightarrow> int \<Rightarrow> Position \<Rightarrow> FillOutcome \<Rightarrow> bool" where
  "fillStep p d px new p' out \<longleftrightarrow>
     (new, sint (entryNotional p'), sint (realized p')) = netFill (absPos p) d px \<and>
     sint (RealizedDelta out) = netRealized (absPos p) d px \<and>
     0 \<le> sint (entryNotional p') \<and> (new = 0 \<longrightarrow> sint (entryNotional p') = 0)"

lemma fillStep_grow:
  assumes "openLeg p qty price = (p', Inr u)" "RealizedDelta out = 0" "0 \<le> sint (signedQty p) * d"
    and "sint qty = \<bar>d\<bar>" "0 < sint price" "0 \<le> sint (entryNotional p)" "d \<noteq> 0"
  shows "fillStep p d (sint price) (sint (signedQty p) + d) p' out"
proof -
  obtain n where n: "p' = p\<lparr>entryNotional := n\<rparr>" "sint n = sint (entryNotional p) + sint price * \<bar>d\<bar>"
    using openLeg_ok [OF assms(1)] assms(4) by auto
  moreover have "sint (signedQty p) + d \<noteq> 0" using assms(3,7) by (auto simp: zero_le_mult_iff)
  ultimately show ?thesis
    using netFill_grow [OF assms(3)] assms(2,5,6) by (simp add: fillStep_def absPos_def)
qed

lemma fillStep_shrink:
  assumes "closeLeg p c price (signedQty p) = (p', Inr r)" "RealizedDelta out = r"
    and "sint (signedQty p) * d < 0" "\<bar>d\<bar> \<le> \<bar>sint (signedQty p)\<bar>" "sint c = \<bar>d\<bar>"
    and "0 < sint price" "0 \<le> sint (entryNotional p)" "signedQty p \<noteq> MinInt64"
  shows "fillStep p d (sint price) (sint (signedQty p) + d) p' out"
proof -
  let ?q = "sint (signedQty p)"
  define rel where "rel = rhe (sint (entryNotional p) * \<bar>d\<bar>) \<bar>?q\<bar>"
  define g where "g = cents (sgn ?q * (sint price * \<bar>d\<bar> - rel))"
  have c: "0 < sint c" "sint c \<le> \<bar>?q\<bar>" using assms by auto
  note C = closeLeg_ok [OF assms(1) c assms(8,7,6), unfolded assms(5), folded rel_def, folded g_def]
  obtain n a where "p' = p\<lparr>entryNotional := n, realized := a\<rparr>" "sint a = sint (realized p) + g"
    "sint n = (if \<bar>d\<bar> = \<bar>?q\<bar> then 0 else sint (entryNotional p) - rel)" using C by auto
  moreover have "?q + d = 0 \<Longrightarrow> \<bar>d\<bar> = \<bar>?q\<bar>" by arith
  ultimately show ?thesis
    using netFill_shrink [OF assms(3,4) rel_def g_def] C assms(2) by (simp add: fillStep_def absPos_def)
qed

lemma fillStep_turn:
  assumes leg: "closeLeg p (absQty (signedQty p)) price (signedQty p) = (p1, Inr r)" "RealizedDelta out = r"
    and leg2: "openLeg p1 qty price = (p', Inr u)" "sint qty = \<bar>sint (signedQty p) + d\<bar>"
    and "sint (signedQty p) * d < 0" "\<bar>sint (signedQty p)\<bar> < \<bar>d\<bar>"
    and "0 < sint price" "0 \<le> sint (entryNotional p)" "signedQty p \<noteq> MinInt64"
  shows "fillStep p d (sint price) (sint (signedQty p) + d) p' out"
proof -
  let ?q = "sint (signedQty p)"
  define g where "g = cents (sgn ?q * (sint price * \<bar>?q\<bar> - sint (entryNotional p)))"
  have qa: "sint (absQty (signedQty p)) = \<bar>?q\<bar>" by (rule sint_absQty [OF assms(9)])
  have c: "0 < sint (absQty (signedQty p))" "sint (absQty (signedQty p)) \<le> \<bar>?q\<bar>" unfolding qa using assms(5) by auto
  have w: "rhe (sint (entryNotional p) * \<bar>?q\<bar>) \<bar>?q\<bar> = sint (entryNotional p)" using c qa by (intro rhe_whole) simp
  note C = closeLeg_ok [OF leg(1) c assms(9,8,7), unfolded qa w, folded g_def]
  obtain n a where n: "p1 = p\<lparr>entryNotional := n, realized := a\<rparr>" "sint a = sint (realized p) + g" "sint n = 0"
    using C by auto
  obtain m where m: "p' = p1\<lparr>entryNotional := m\<rparr>" "sint m = sint price * \<bar>?q + d\<bar>"
    using openLeg_ok [OF leg2(1)] leg2(2) n by auto
  have "?q + d \<noteq> 0" using assms(6) by arith
  then show ?thesis
    using netFill_turn [OF assms(5,6) g_def] n m C assms(2,7) by (simp add: fillStep_def absPos_def)
qed

lemma applyTransition_refines:
  assumes ap: "applyTransition p f new = (p', Inr out)" and wf: "posWf p" and px: "0 < sint (fill_Price f)"
    and new: "sint new = sint (signedQty p) + d" "new \<noteq> MinInt64" and d: "sint (fill_Qty f) = \<bar>d\<bar>" "d \<noteq> 0"
  shows "fillStep p d (sint (fill_Price f)) (sint new) p' out"
proof -
  let ?q = "sint (signedQty p)"
  have w: "0 \<le> sint (entryNotional p)" "signedQty p \<noteq> MinInt64" using wf by (auto simp: posWf_def)
  have cl: "classify (signedQty p) new = (if ?q = 0 then OpenFlat else if 0 < ?q * d then Increase
     else if \<bar>d\<bar> < \<bar>?q\<bar> then Reduce else if \<bar>d\<bar> = \<bar>?q\<bar> then CloseAll else Flip)"
    by (rule classify_spec [OF w(2) new(2,1) d(2)])
  note step = ap [unfolded applyTransition_def Let_def cl]
  consider (grow) "0 \<le> ?q * d" | (shrink) "?q * d < 0" "\<bar>d\<bar> < \<bar>?q\<bar>" | (shut) "?q * d < 0" "\<bar>d\<bar> = \<bar>?q\<bar>"
    | (turn) "?q * d < 0" "\<bar>?q\<bar> < \<bar>d\<bar>" by linarith
  then show ?thesis unfolding new(1)
  proof cases
    case grow
    then have "?q = 0 \<or> 0 < ?q * d" using d(2) by auto
    then obtain u where "openLeg p (fill_Qty f) (fill_Price f) = (p', Inr u)" "RealizedDelta out = 0"
      using step by (auto simp: noOutcome_def split: prod.splits sum.splits if_splits)
    then show "fillStep p d (sint (fill_Price f)) (?q + d) p' out" using grow d px w by (intro fillStep_grow)
  next
    case shrink
    then obtain r where "closeLeg p (fill_Qty f) (fill_Price f) (signedQty p) = (p', Inr r)" "RealizedDelta out = r"
      using step by (auto simp: noOutcome_def split: prod.splits sum.splits if_splits)
    then show "fillStep p d (sint (fill_Price f)) (?q + d) p' out" using shrink d px w by (intro fillStep_shrink) auto
  next
    case shut
    then obtain r where "closeLeg p (absQty (signedQty p)) (fill_Price f) (signedQty p) = (p', Inr r)" "RealizedDelta out = r"
      using step by (auto simp: noOutcome_def absQtyVal_eq split: prod.splits sum.splits if_splits)
    then show "fillStep p d (sint (fill_Price f)) (?q + d) p' out"
      using shut px w sint_absQty [OF w(2)]
      by (intro fillStep_shrink [where c = "absQty (signedQty p)"]) auto
  next
    case turn
    then obtain p1 r u where "closeLeg p (absQty (signedQty p)) (fill_Price f) (signedQty p) = (p1, Inr r)"
      "openLeg p1 (absQty new) (fill_Price f) = (p', Inr u)" "RealizedDelta out = r"
      using step by (auto simp: noOutcome_def absQtyVal_eq split: prod.splits sum.splits if_splits)
    then show "fillStep p d (sint (fill_Price f)) (?q + d) p' out"
      using turn px w new sint_absQty [OF new(2)] by (intro fillStep_turn) auto
  qed
qed

lemma netFill_cents: "100 dvd R \<Longrightarrow> 100 dvd snd (snd (netFill (q, N, R) d px))"
  by (simp add: netFill_def netRealized_def cents_def Let_def)

lemma ApplyFill_refines:
  assumes ap: "ApplyFill p f = (p', Inr out)" and wf: "posWf p" and px: "0 < sint (fill_Price f)"
    and rng: "signedQty p' \<noteq> MinInt64"
  shows "absPos p' = netFill (absPos p) (signedFill f) (sint (fill_Price f))"
    and "sint (RealizedDelta out) = netRealized (absPos p) (signedFill f) (sint (fill_Price f))"
    and "posWf p'"
proof -
  have q: "0 < sint (fill_Qty f)" using ap by (auto simp: ApplyFill_def split: if_splits)
  obtain delta where 1: "fillDelta f = Inr delta" using ap q by (cases "fillDelta f") (simp_all add: ApplyFill_def)
  obtain new where 2: "Qty_Add (signedQty p) delta = Inr new"
    using ap q 1 by (cases "Qty_Add (signedQty p) delta") (simp_all add: ApplyFill_def)
  obtain p1 where 3: "applyTransition p f new = (p1, Inr out)"
    and p': "p' = p1\<lparr>signedQty := new, updatedAt := fill_TS f\<rparr>"
    using ap q 1 2 by (auto simp: ApplyFill_def split: prod.splits sum.splits)
  have new: "sint new = sint (signedQty p) + signedFill f" using 2 fillDelta_ok [OF 1] by (simp add: money_ok)
  have d: "sint (fill_Qty f) = \<bar>signedFill f\<bar>" "signedFill f \<noteq> 0" using q by (auto simp: signedFill_def)
  have st: "fillStep p (signedFill f) (sint (fill_Price f)) (sint new) p1 out"
    using applyTransition_refines [OF 3 wf px new _ d] rng p' by simp
  then show a: "absPos p' = netFill (absPos p) (signedFill f) (sint (fill_Price f))"
    and "sint (RealizedDelta out) = netRealized (absPos p) (signedFill f) (sint (fill_Price f))"
    using p' by (simp_all add: fillStep_def absPos_def)
  have "100 dvd sint (realized p')"
    using netFill_cents [of "sint (realized p)"] wf a by (metis absPos_def posWf_def snd_conv)
  then show "posWf p'" using st rng p' by (auto simp: posWf_def fillStep_def)
qed

section \<open>Conservation of value\<close>

text \<open>Realized PnL less the signed cost basis of the open quantity: what the position has earned so
  far when its open quantity is valued at zero.\<close>

definition bookValue :: "netpos \<Rightarrow> int" where
  "bookValue s = (case s of (q, N, R) \<Rightarrow> R - sgn q * N)"

lemma bookValue_shrink:
  assumes "q * d < 0" "\<bar>d\<bar> \<le> \<bar>q\<bar>"
  shows "\<exists>x. bookValue (netFill (q, N, R) d px) - (bookValue (q, N, R) - d * px) = cents x - x"
proof -
  define rel where "rel = rhe (N * \<bar>d\<bar>) \<bar>q\<bar>"
  define x where "x = sgn q * (px * \<bar>d\<bar> - rel)"
  have s: "sgn q = - sgn d" "sgn q * \<bar>d\<bar> = - d" using assms(1) by (auto simp: mult_less_0_iff sgn_if)
  have x: "x = - d * px - sgn q * rel" using s(2) by (simp add: x_def algebra_simps)
  have b: "bookValue (netFill (q, N, R) d px) = R + cents x - sgn q * (N - rel)"
  proof (cases "\<bar>d\<bar> = \<bar>q\<bar>")
    case True
    have "q \<noteq> 0" using assms(1) by auto
    then have "rel = N" using True rhe_whole [of "\<bar>q\<bar>" N] by (simp add: rel_def)
    then show ?thesis using netFill_shrink [OF assms rel_def, of "cents x" px R] True x_def
      by (simp add: bookValue_def)
  next
    case False
    then have "sgn (q + d) = sgn q" using assms by (auto simp: mult_less_0_iff sgn_if)
    then show ?thesis using netFill_shrink [OF assms rel_def, of "cents x" px R] False x_def
      by (simp add: bookValue_def)
  qed
  have "bookValue (netFill (q, N, R) d px) - (bookValue (q, N, R) - d * px) = cents x - x"
    unfolding b x by (simp add: bookValue_def algebra_simps)
  then show ?thesis by blast
qed

lemma bookValue_turn:
  assumes "q * d < 0" "\<bar>q\<bar> < \<bar>d\<bar>"
  shows "\<exists>x. bookValue (netFill (q, N, R) d px) - (bookValue (q, N, R) - d * px) = cents x - x"
proof -
  define x where "x = sgn q * (px * \<bar>q\<bar> - N)"
  have s: "sgn (q + d) = sgn d" "sgn q = - sgn d" using assms by (auto simp: mult_less_0_iff sgn_if)
  have b: "bookValue (netFill (q, N, R) d px) = R + cents x - sgn d * (px * \<bar>q + d\<bar>)"
    using netFill_turn [OF assms x_def [THEN arg_cong [of _ _ cents]], of R] s by (simp add: bookValue_def)
  have "sgn d * \<bar>q + d\<bar> = q + d" "sgn q * \<bar>q\<bar> = q" using s(1) sgn_mult_abs [of "q + d"] sgn_mult_abs [of q] by simp_all
  then have "sgn d * (px * \<bar>q + d\<bar>) = px * (q + d)" "x = px * q - sgn q * N"
    by (simp_all add: x_def algebra_simps)
  then have "bookValue (netFill (q, N, R) d px) - (bookValue (q, N, R) - d * px) = cents x - x"
    unfolding b by (simp add: bookValue_def algebra_simps)
  then show ?thesis by blast
qed

lemma netFill_bookValue:
  assumes "q = 0 \<longrightarrow> N = 0" "d \<noteq> 0"
  shows "\<bar>bookValue (netFill (q, N, R) d px) - (bookValue (q, N, R) - d * px)\<bar> \<le> (if q * d < 0 then 50 else 0)"
proof (cases "0 \<le> q * d")
  case True
  have sd: "sgn d * \<bar>d\<bar> = d" by (simp add: sgn_mult_abs)
  have "sgn (q + d) = sgn d" "q \<noteq> 0 \<longrightarrow> sgn q = sgn d" using True assms(2) by (auto simp: zero_le_mult_iff sgn_if)
  then show ?thesis using netFill_grow [OF True, of N R px] assms(1) sd True
    by (cases "q = 0") (auto simp: bookValue_def algebra_simps)
next
  case False
  then have neg: "q * d < 0" by simp
  obtain x where "bookValue (netFill (q, N, R) d px) - (bookValue (q, N, R) - d * px) = cents x - x"
    using bookValue_shrink [OF neg, of N R px] bookValue_turn [OF neg, of N R px] by fastforce
  then show ?thesis using cents_near [of x] neg by (simp add: abs_minus_commute)
qed

text \<open>A run of fills on one position.\<close>

fun applyFills :: "Position \<Rightarrow> Fill list \<Rightarrow> Position result" where
  "applyFills p [] = Inr p"
| "applyFills p (f # fs) = (case ApplyFill p f of (_, Inl e) \<Rightarrow> Inl e | (p1, Inr _) \<Rightarrow> applyFills p1 fs)"

text \<open>A bound on the shares that can be held at any time: the sum of all fill quantities.\<close>

definition turnover :: "Fill list \<Rightarrow> int" where
  "turnover fs = (\<Sum>f\<leftarrow>fs. \<bar>sint (fill_Qty f)\<bar>)"

lemma turnover_nonneg: "0 \<le> turnover fs"
  by (induction fs) (auto simp: turnover_def)

definition cashFlow :: "Fill list \<Rightarrow> int" where
  "cashFlow fs = (\<Sum>f\<leftarrow>fs. - signedFill f * sint (fill_Price f))"

lemma ApplyFill_qty: "ApplyFill p f = (p', Inr out) \<Longrightarrow> sint (signedQty p') = sint (signedQty p) + signedFill f \<and> 0 < sint (fill_Qty f)"
  using fillDelta_ok [of f]
  by (auto simp: ApplyFill_def money_ok split: if_splits sum.splits prod.splits)

lemma applyFills_conserves:
  assumes "applyFills p fs = Inr p'" "posWf p" "list_all (\<lambda>f. 0 < sint (fill_Price f)) fs"
    and "\<bar>sint (signedQty p)\<bar> + turnover fs < 2 ^ 63"
  shows "posWf p' \<and> sint (signedQty p') = sint (signedQty p) + (\<Sum>f\<leftarrow>fs. signedFill f) \<and>
    \<bar>bookValue (absPos p') - (bookValue (absPos p) + cashFlow fs)\<bar> \<le> 50 * int (length fs)"
  using assms
proof (induction fs arbitrary: p)
  case Nil
  then show ?case by (simp add: cashFlow_def)
next
  case (Cons f fs)
  obtain p1 out where ap: "ApplyFill p f = (p1, Inr out)" and rest: "applyFills p1 fs = Inr p'"
    using Cons.prems(1) by (auto split: prod.splits sum.splits)
  note q = ApplyFill_qty [OF ap]
  have sf: "\<bar>signedFill f\<bar> = sint (fill_Qty f)" using q by (auto simp: signedFill_def)
  have px: "0 < sint (fill_Price f)" using Cons.prems(3) by simp
  have t: "turnover (f # fs) = sint (fill_Qty f) + turnover fs" using q by (simp add: turnover_def)
  have bound: "\<bar>sint (signedQty p1)\<bar> + turnover fs < 2 ^ 63" using Cons.prems(4) q sf unfolding t by linarith
  then have rng: "signedQty p1 \<noteq> MinInt64"
    using turnover_nonneg [of fs] sint_bounds [of "signedQty p1"] by (auto simp: not_Min_sint)
  note R = ApplyFill_refines [OF ap Cons.prems(2) px rng]
  have IH: "posWf p' \<and> sint (signedQty p') = sint (signedQty p1) + (\<Sum>f\<leftarrow>fs. signedFill f) \<and>
    \<bar>bookValue (absPos p') - (bookValue (absPos p1) + cashFlow fs)\<bar> \<le> 50 * int (length fs)"
    using Cons.IH [OF rest R(3) _ bound] Cons.prems(3) by simp
  have "sint (signedQty p) = 0 \<longrightarrow> sint (entryNotional p) = 0" "signedFill f \<noteq> 0"
    using Cons.prems(2) q by (auto simp: posWf_def signedFill_def)
  from netFill_bookValue [OF this, of "sint (realized p)" "sint (fill_Price f)"]
  have "\<bar>bookValue (absPos p1) - (bookValue (absPos p) - signedFill f * sint (fill_Price f))\<bar> \<le> 50"
    unfolding R(1) by (auto simp: absPos_def split: if_splits)
  moreover have "cashFlow (f # fs) = - signedFill f * sint (fill_Price f) + cashFlow fs" by (simp add: cashFlow_def)
  ultimately show ?case using IH q by simp linarith
qed

section \<open>Contracts met\<close>

interpretation acct_round: half_even_division
  "\<lambda>(v, d). sint (acct_roundHalfEvenDiv v d)" "\<lambda>(v, d). sint v" "\<lambda>(v, d). sint d"
  "\<lambda>(v, d). v \<noteq> MinInt64 \<and> 0 < sint d \<and> sint d \<le> 2 ^ 62"
  by (rule half_even_divisionI) (auto simp: acct_roundHalfEvenDiv_rhe)

interpretation cost_release: half_even_division
  "\<lambda>(v, n, d). sint (mulDivRoundHalfEven v n d)" "\<lambda>(v, n, d). sint v * sint n" "\<lambda>(v, n, d). sint d"
  "\<lambda>(v, n, d). 0 < sint d \<and> 0 \<le> sint n \<and> sint n \<le> sint d"
  by (rule half_even_divisionI) (auto simp: mulDivRoundHalfEven_rhe)

section \<open>Marking to market\<close>

definition markedPnL :: "Position \<Rightarrow> Price \<Rightarrow> int" where
  "markedPnL p px = sint (signedQty p) * sint px - sgn (sint (signedQty p)) * sint (entryNotional p)"

lemma UnrealizedPnL_exact: "UnrealizedPnL p px = Inr u \<Longrightarrow> sint u = markedPnL p px"
  by (auto simp: UnrealizedPnL_def markedPnL_def bindR_def money_ok mult.commute sgn_if split: if_splits sum.splits)

lemma value_split: "sint (realized p) + markedPnL p px = bookValue (absPos p) + sint (signedQty p) * sint px"
  by (simp add: markedPnL_def bookValue_def absPos_def)

lemma AvgEntryPrice_exact:
  assumes "posWf p" "signedQty p \<noteq> 0" "\<bar>sint (signedQty p)\<bar> \<le> 2 ^ 62"
  shows "sint (AvgEntryPrice p) = rhe (sint (entryNotional p)) \<bar>sint (signedQty p)\<bar>"
proof -
  have "signedQty p \<noteq> MinInt64" "entryNotional p \<noteq> MinInt64" using assms(1) by (auto simp: posWf_def)
  moreover have "0 < \<bar>sint (signedQty p)\<bar>" using assms(2) by simp
  ultimately show ?thesis
    using acct_roundHalfEvenDiv_rhe [of "entryNotional p" "absQty (signedQty p)"] assms(2,3)
    by (simp add: AvgEntryPrice_def sint_absQty)
qed

text \<open>A fill that flips the position closes the old side before it opens the new one; when the
  second step overflows the first is not undone.\<close>

definition flipExample :: Position where
  "flipExample = (NewPosition ''S'' ''X'')\<lparr>signedQty := 1, entryNotional := 10000\<rparr>"

definition flipFill :: Fill where
  "flipFill = \<lparr>fill_TradeID = ''T'', fill_ClientOrderID = ''C'', fill_VenueOrderID = [], fill_StrategyID = ''S'',
     fill_Symbol = ''X'', fill_Side = OrderSideSell, fill_Qty = 1000000000000000, fill_Price = 20000,
     fill_Commission = 0, fill_TS = zeroTime\<lparr>t_ns := 0\<rparr>\<rparr>"

lemma flip_half_done:
  "ApplyFill flipExample flipFill =
     (flipExample\<lparr>entryNotional := 0, realized := 10000\<rparr>, Inl ErrOverflow)"
  by code_simp

section \<open>Properties\<close>

text \<open>C3. Settling a fill on a position is the netting rule over unbounded integers: quantities add,
  opening adds the fill's notional to the entry notional, closing releases the closed share of it
  (rounded half to even), a flip opens the rest at the fill price, and the realized profit moves by the
  cent-rounded difference.  The position invariant is kept.\<close>

theorem ApplyFill_nets:
  assumes "ApplyFill p f = (p', Inr out)" "posWf p" "0 < sint (fill_Price f)" "signedQty p' \<noteq> MinInt64"
  shows "absPos p' = netFill (absPos p) (signedFill f) (sint (fill_Price f)) \<and> posWf p' \<and>
    sint (RealizedDelta out) = netRealized (absPos p) (signedFill f) (sint (fill_Price f))"
  using ApplyFill_refines [OF assms] by blast

definition shortOpen :: Position where
  "shortOpen = (NewPosition ''S'' ''X'')\<lparr>signedQty := - 3, entryNotional := 100\<rparr>"

definition coverFill :: Fill where
  "coverFill = flipFill\<lparr>fill_Side := OrderSideBuy, fill_Qty := 5, fill_Price := 20\<rparr>"

theorem ApplyFill_nets_witness:
  "absPos (fst (ApplyFill shortOpen coverFill)) = netFill (- 3, 100, 0) 5 20 \<and>
   netFill (- 3, 100, 0) 5 20 = (2, 40, 0)"
proof -
  have "isOk (snd (ApplyFill shortOpen coverFill))" by code_simp
  then obtain out where ap: "ApplyFill shortOpen coverFill = (fst (ApplyFill shortOpen coverFill), Inr out)"
    by (cases "ApplyFill shortOpen coverFill"; cases "snd (ApplyFill shortOpen coverFill)") auto
  have "(posWf shortOpen) \<and>
    (0 < sint (fill_Price coverFill)) \<and>
    (signedQty (fst (ApplyFill shortOpen coverFill)) \<noteq> MinInt64) \<and>
    (absPos shortOpen = (- 3, 100, 0)) \<and>
    (signedFill coverFill = 5) \<and>
    (sint (fill_Price coverFill) = 20) \<and>
    (netFill (- 3, 100, 0) 5 20 = (2, 40, 0))" by code_simp
  then have "posWf shortOpen" "0 < sint (fill_Price coverFill)" "signedQty (fst (ApplyFill shortOpen coverFill)) \<noteq> MinInt64"
    "absPos shortOpen = (- 3, 100, 0)" "signedFill coverFill = 5" "sint (fill_Price coverFill) = 20"
    "netFill (- 3, 100, 0) 5 20 = (2, 40, 0)" by blast+
  with ApplyFill_nets [OF ap] show ?thesis by simp
qed

text \<open>Over any sequence of fills a position's quantity is the sum of the signed fills, and its book
  value (realized profit less the signed entry notional) moves by exactly the cash the fills moved, up to
  half a cent per fill.\<close>

theorem position_conserves:
  assumes "applyFills p fs = Inr p'" "posWf p" "list_all (\<lambda>f. 0 < sint (fill_Price f)) fs"
    and "\<bar>sint (signedQty p)\<bar> + turnover fs < 2 ^ 63"
  shows "sint (signedQty p') = sint (signedQty p) + (\<Sum>f\<leftarrow>fs. signedFill f) \<and> posWf p' \<and>
    \<bar>bookValue (absPos p') - (bookValue (absPos p) + cashFlow fs)\<bar> \<le> 50 * int (length fs)"
  using applyFills_conserves [OF assms] by blast

theorem position_conserves_witness:
  "\<exists>p'. applyFills shortOpen [coverFill, coverFill] = Inr p' \<and> sint (signedQty p') = 7 \<and>
    \<bar>bookValue (absPos p') - (100 + cashFlow [coverFill, coverFill])\<bar> \<le> 100"
proof -
  have "isOk (applyFills shortOpen [coverFill, coverFill])" by code_simp
  then obtain p' where ap: "applyFills shortOpen [coverFill, coverFill] = Inr p'"
    by (cases "applyFills shortOpen [coverFill, coverFill]") auto
  have "(posWf shortOpen) \<and>
    (list_all (\<lambda>f. 0 < sint (fill_Price f)) [coverFill, coverFill]) \<and>
    (\<bar>sint (signedQty shortOpen)\<bar> + turnover [coverFill, coverFill] < 2 ^ 63) \<and>
    (sint (signedQty shortOpen) + (\<Sum>f\<leftarrow>[coverFill, coverFill]. signedFill f) = 7) \<and>
    (bookValue (absPos shortOpen) = 100)" by code_simp
  then have "posWf shortOpen" "list_all (\<lambda>f. 0 < sint (fill_Price f)) [coverFill, coverFill]"
    "\<bar>sint (signedQty shortOpen)\<bar> + turnover [coverFill, coverFill] < 2 ^ 63"
    "sint (signedQty shortOpen) + (\<Sum>f\<leftarrow>[coverFill, coverFill]. signedFill f) = 7" "bookValue (absPos shortOpen) = 100" by blast+
  with position_conserves [OF ap] show ?thesis using ap by auto
qed

text \<open>The average entry price is the entry notional over the quantity, rounded half to even, for open
  positions of up to \<open>2 ^ 62\<close> shares.\<close>

theorem AvgEntryPrice_rounds:
  assumes "posWf p" "signedQty p \<noteq> 0" "\<bar>sint (signedQty p)\<bar> \<le> 2 ^ 62"
  shows "sint (AvgEntryPrice p) = rhe (sint (entryNotional p)) \<bar>sint (signedQty p)\<bar>"
  by (rule AvgEntryPrice_exact [OF assms])

theorem AvgEntryPrice_rounds_witness: "sint (AvgEntryPrice shortOpen) = rhe 100 3"
proof -
  have "(posWf shortOpen) \<and>
    (signedQty shortOpen \<noteq> 0) \<and>
    (\<bar>sint (signedQty shortOpen)\<bar> \<le> 2 ^ 62) \<and>
    (sint (entryNotional shortOpen) = 100) \<and>
    (\<bar>sint (signedQty shortOpen)\<bar> = 3)" by code_simp
  then have "posWf shortOpen" "signedQty shortOpen \<noteq> 0" "\<bar>sint (signedQty shortOpen)\<bar> \<le> 2 ^ 62"
    "sint (entryNotional shortOpen) = 100" "\<bar>sint (signedQty shortOpen)\<bar> = 3" by blast+
  with AvgEntryPrice_rounds [of shortOpen] show ?thesis by simp
qed

text \<open>A fill that fails is not rolled back: this flip realizes its closing leg and clears the entry
  notional before the opening leg overflows, so the position is left with the old quantity, no notional
  and the profit booked.\<close>

theorem flip_error_not_atomic:
  "\<exists>p f p' e. posWf p \<and> ApplyFill p f = (p', Inl e) \<and> signedQty p' = signedQty p \<and> realized p' \<noteq> realized p \<and>
     sint (entryNotional p') = 0 \<and> signedQty p' \<noteq> 0"
proof -
  have "(posWf flipExample) \<and>
    (signedQty flipExample = 1) \<and>
    (realized flipExample = 0)" by code_simp
  then show ?thesis
    by (intro exI [of _ flipExample] exI [of _ flipFill] exI [of _ "flipExample\<lparr>entryNotional := 0, realized := 10000\<rparr>"]
        exI [of _ ErrOverflow] conjI) (simp_all add: flip_half_done)
qed

end
