(* ===== verification/Accounting_Account.thy ===== *)
theory Accounting_Account
  imports Accounting_Position
begin

text \<open>
  The margin account and equity sampler of \<open>internal/accounting\<close> (\<open>account.go\<close>, \<open>sampler.go\<close>).
  The account owns the position book; the pointer stored in the map is only ever reached through
  it, so the book holds the positions by value.  The account states handed to the message bus are
  collected in \<open>acc_bus\<close>, which is \<open>None\<close> when the account has no bus.  The scratch buffers that
  only save allocations are not part of the state.
\<close>

section \<open>The account\<close>

record AccountState =
  as_TS :: gotime
  as_Total :: Money
  as_Free :: Money
  as_Locked :: Money
  as_Realized :: Money

record Account =
  startingBalance :: Money
  acc_realized :: Money
  positions :: "(StrategySymbol, Position) gomap"
  lastPrice :: "(string, Price) gomap"
  acc_bus :: "AccountState list option"

definition NewAccount :: "Money \<Rightarrow> bool \<Rightarrow> Account" where
  "NewAccount start hasBus =
     \<lparr>startingBalance = start, acc_realized = 0, positions = [], lastPrice = [],
      acc_bus = (if hasBus then Some [] else None)\<rparr>"

definition Cash :: "Account \<Rightarrow> Money result" where
  "Cash a = Money_Add (startingBalance a) (acc_realized a)"

definition LastPrice :: "Account \<Rightarrow> string \<Rightarrow> Price option" where
  "LastPrice a sy = mapGet (lastPrice a) sy"

definition ObserveBar :: "Account \<Rightarrow> Bar \<Rightarrow> Account" where
  "ObserveBar a bar = a\<lparr>lastPrice := mapSet (bar_Symbol bar) (bar_Close bar) (lastPrice a)\<rparr>"

text \<open>The lookup that creates a flat position on first use.\<close>

definition position :: "Account \<Rightarrow> string \<Rightarrow> string \<Rightarrow> Account \<times> Position" where
  "position a sid sy =
     (case mapGet (positions a) (sid, sy) of
        Some p \<Rightarrow> (a, p)
      | None \<Rightarrow> (let p = NewPosition sid sy in (a\<lparr>positions := mapSet (sid, sy) p (positions a)\<rparr>, p)))"

definition Account_Position :: "Account \<Rightarrow> string \<Rightarrow> string \<Rightarrow> PositionSnap option" where
  "Account_Position a sid sy =
     (case mapGet (positions a) (sid, sy) of None \<Rightarrow> None | Some p \<Rightarrow> Some (Position_Snapshot p))"

definition emitAccountState :: "Account \<Rightarrow> gotime \<Rightarrow> Account \<times> unit result" where
  "emitAccountState a ts =
     (case Cash a of
        Inl e \<Rightarrow> (a, Inl e)
      | Inr cash \<Rightarrow>
          (a\<lparr>acc_bus := map_option (\<lambda>out. out @ [\<lparr>as_TS = ts, as_Total = cash, as_Free = cash, as_Locked = 0,
                as_Realized = acc_realized a\<rparr>]) (acc_bus a)\<rparr>, Inr ()))"

definition EmitInitialState :: "Account \<Rightarrow> gotime \<Rightarrow> Account \<times> unit result" where
  "EmitInitialState a ts = emitAccountState a ts"

definition Account_ApplyFill :: "Account \<Rightarrow> Fill \<Rightarrow> Account \<times> (PositionSnap \<times> FillOutcome) result" where
  "Account_ApplyFill a f =
     (case Fill_Validate f of
        Inl e \<Rightarrow> (a, Inl e)
      | Inr _ \<Rightarrow>
          (let (a1, pos) = position a (fill_StrategyID f) (fill_Symbol f);
               key = (fill_StrategyID f, fill_Symbol f);
               (pos1, res) = ApplyFill pos f;
               a2 = a1\<lparr>positions := mapSet key pos1 (positions a1)\<rparr>
           in case res of
                Inl e \<Rightarrow> (a2, Inl e)
              | Inr out \<Rightarrow>
                  (case (if RealizedDelta out \<noteq> 0 then Money_Add (acc_realized a2) (RealizedDelta out)
                         else Inr (acc_realized a2)) of
                     Inl e \<Rightarrow> (a2, Inl e)
                   | Inr acc \<Rightarrow>
                       (let a3 = a2\<lparr>acc_realized := acc,
                                    lastPrice := mapSet (fill_Symbol f) (fill_Price f) (lastPrice a2)\<rparr>
                        in case emitAccountState a3 (fill_TS f) of
                             (a4, Inl e) \<Rightarrow> (a4, Inl e)
                           | (a4, Inr _) \<Rightarrow> (a4, Inr (Position_Snapshot pos1, out))))))"

text \<open>The comparison of \<open>sortKeys\<close> is the lexicographic order on (strategy id, symbol).\<close>

definition sortKeys :: "(StrategySymbol, 'v) gomap \<Rightarrow> StrategySymbol list" where
  "sortKeys m = sort (mapKeys m)"

fun unrealizedLoop :: "Account \<Rightarrow> StrategySymbol list \<Rightarrow> Money \<Rightarrow> Money result" where
  "unrealizedLoop a [] acc = Inr acc"
| "unrealizedLoop a (key # ks) acc =
     (case mapGet (positions a) key of
        None \<Rightarrow> unrealizedLoop a ks acc
      | Some p \<Rightarrow>
          if Position_IsFlat p then unrealizedLoop a ks acc
          else case mapGet (lastPrice a) (symbol p) of
            None \<Rightarrow> unrealizedLoop a ks acc
          | Some px \<Rightarrow> bindR (UnrealizedPnL p px) (\<lambda>u. bindR (Money_Add acc u) (unrealizedLoop a ks)))"

definition Unrealized :: "Account \<Rightarrow> Money result" where
  "Unrealized a = unrealizedLoop a (sortKeys (positions a)) 0"

definition Equity :: "Account \<Rightarrow> Money result" where
  "Equity a = bindR (Cash a) (\<lambda>cash. bindR (Unrealized a) (\<lambda>un. Money_Add cash un))"

definition lookupAll :: "('k, 'v) gomap \<Rightarrow> 'k list \<Rightarrow> 'v list" where
  "lookupAll m ks = List.map_filter (mapGet m) ks"

definition OpenPositions :: "Account \<Rightarrow> PositionSnap list" where
  "OpenPositions a =
     map Position_Snapshot
       (filter (\<lambda>p. \<not> Position_IsFlat p) (lookupAll (positions a) (sortKeys (positions a))))"

definition AllPositions :: "Account \<Rightarrow> PositionSnap list" where
  "AllPositions a = map Position_Snapshot (lookupAll (positions a) (sortKeys (positions a)))"

fun openQtyLoop :: "(StrategySymbol, Position) gomap \<Rightarrow> (StrategySymbol, Qty) gomap \<Rightarrow> (StrategySymbol, Qty) gomap" where
  "openQtyLoop [] out = out"
| "openQtyLoop ((key, p) # m) out =
     (if Position_IsFlat p then openQtyLoop m out else openQtyLoop m (mapSet key (signedQty p) out))"

definition Account_Snapshot :: "Account \<Rightarrow> PortfolioSnapshot result" where
  "Account_Snapshot a =
     bindR (Cash a) (\<lambda>nav. Inr (NewPortfolioSnapshot nav nav 0 0
        (openQtyLoop (positions a) []) (cloneMapLoop (lastPrice a) [])))"

section \<open>The equity sampler\<close>

type_synonym EquityPoint = "gotime \<times> Money"

record EquitySampler =
  strategyIDs :: "(string, unit) gomap"
  perStrategy :: "(string, EquityPoint list) gomap"
  totalCurve :: "EquityPoint list"

definition NewEquitySampler :: EquitySampler where
  "NewEquitySampler = \<lparr>strategyIDs = [], perStrategy = [], totalCurve = []\<rparr>"

fun discoverLoop :: "StrategySymbol list \<Rightarrow> (string, unit) gomap \<Rightarrow> (string, unit) gomap" where
  "discoverLoop [] ids = ids"
| "discoverLoop (key # ks) ids = discoverLoop ks (mapSet (fst key) () ids)"

definition sortedStrategyIDs :: "EquitySampler \<Rightarrow> string list" where
  "sortedStrategyIDs s = sort (mapKeys (strategyIDs s))"

fun strategyPnlLoop :: "Account \<Rightarrow> string \<Rightarrow> StrategySymbol list \<Rightarrow> Money \<Rightarrow> Money result" where
  "strategyPnlLoop a sid [] pnl = Inr pnl"
| "strategyPnlLoop a sid (key # ks) pnl =
     (if fst key \<noteq> sid then strategyPnlLoop a sid ks pnl
      else case mapGet (positions a) key of
        None \<Rightarrow> strategyPnlLoop a sid ks pnl
      | Some p \<Rightarrow>
          bindR (Money_Add pnl (realized p)) (\<lambda>acc.
            if Position_IsFlat p then strategyPnlLoop a sid ks acc
            else case mapGet (lastPrice a) (symbol p) of
              None \<Rightarrow> strategyPnlLoop a sid ks acc
            | Some px \<Rightarrow> bindR (UnrealizedPnL p px) (\<lambda>u.
                bindR (Money_Add acc u) (strategyPnlLoop a sid ks))))"

fun perStratLoop :: "Account \<Rightarrow> StrategySymbol list \<Rightarrow> string list \<Rightarrow> (string, Money) gomap \<Rightarrow> (string, Money) gomap result" where
  "perStratLoop a ks [] m = Inr m"
| "perStratLoop a ks (sid # ids) m =
     bindR (strategyPnlLoop a sid ks 0) (\<lambda>pnl. perStratLoop a ks ids (mapSet sid pnl m))"

fun recordLoop :: "gotime \<Rightarrow> (string, Money) gomap \<Rightarrow> (string, EquityPoint list) gomap \<Rightarrow> (string, EquityPoint list) gomap" where
  "recordLoop ts [] curves = curves"
| "recordLoop ts ((sid, pnl) # m) curves =
     recordLoop ts m (mapSet sid (case mapGet curves sid of None \<Rightarrow> [(ts, pnl)] | Some c \<Rightarrow> c @ [(ts, pnl)]) curves)"

definition Sample :: "EquitySampler \<Rightarrow> Account \<Rightarrow> gotime \<Rightarrow> EquitySampler \<times> unit result" where
  "Sample s a ts =
     (let s1 = s\<lparr>strategyIDs := discoverLoop (mapKeys (positions a)) (strategyIDs s)\<rparr>
      in case perStratLoop a (sortKeys (positions a)) (sortedStrategyIDs s1) [] of
           Inl e \<Rightarrow> (s1, Inl e)
         | Inr perStrat \<Rightarrow>
             (let s2 = s1\<lparr>perStrategy := recordLoop ts perStrat (perStrategy s1)\<rparr>
              in case Equity a of
                   Inl e \<Rightarrow> (s2, Inl e)
                 | Inr eq \<Rightarrow> (s2\<lparr>totalCurve := totalCurve s2 @ [(ts, eq)]\<rparr>, Inr ())))"

definition StrategyCurve :: "EquitySampler \<Rightarrow> string \<Rightarrow> EquityPoint list" where
  "StrategyCurve s sid = (case mapGet (perStrategy s) sid of None \<Rightarrow> [] | Some c \<Rightarrow> c)"

section \<open>Sums over a map\<close>

definition sumMap :: "('v \<Rightarrow> int) \<Rightarrow> ('k, 'v) gomap \<Rightarrow> int" where
  "sumMap g m = (\<Sum>e\<leftarrow>m. g (snd e))"

lemma sumMap_set:
  "mapWf m \<Longrightarrow> sumMap g (mapSet k v m) = sumMap g m - (case mapGet m k of None \<Rightarrow> 0 | Some w \<Rightarrow> g w) + g v"
proof (induction m)
  case (Cons e m)
  obtain k' w where e: "e = (k', w)" by (cases e)
  show ?case
  proof (cases "k' = k")
    case True
    then show ?thesis by (simp add: e mapSet_def sumMap_def mapGet_def)
  next
    case False
    then show ?thesis using Cons by (simp add: e mapSet_def sumMap_def mapGet_def mapWf_def mapKeys_def)
  qed
qed (simp add: mapSet_def sumMap_def mapGet_def)

lemma sumMap_nonneg: "(\<And>v. 0 \<le> g v) \<Longrightarrow> 0 \<le> sumMap g m"
  by (induction m) (auto simp: sumMap_def)

lemma sumMap_member:
  assumes nn: "\<And>v. 0 \<le> g v" and "mapGet m k = Some w"
  shows "g w \<le> sumMap g m"
proof -
  have "(k, w) \<in> set m \<Longrightarrow> g w \<le> sumMap g m"
  proof (induction m)
    case (Cons e m)
    then show ?case using sumMap_nonneg [where g = g and m = m, OF nn] nn [of "snd e"] by (auto simp: sumMap_def)
  qed simp
  then show ?thesis using mapGet_SomeD [OF assms(2)] by blast
qed

lemma mapSet_self: "mapSet k v (mapSet k w m) = mapSet k v m"
  by (induction m) (auto simp: mapSet_def)

section \<open>The account invariant\<close>

definition entryWf :: "StrategySymbol \<times> Position \<Rightarrow> bool" where
  "entryWf e \<longleftrightarrow> posWf (snd e) \<and> fst e = (strategyID (snd e), symbol (snd e))"

definition accWf :: "Account \<Rightarrow> bool" where
  "accWf a \<longleftrightarrow> mapWf (positions a) \<and> mapWf (lastPrice a) \<and> list_all entryWf (positions a) \<and>
     sint (acc_realized a) = sumMap (\<lambda>p. sint (realized p)) (positions a)"

definition grossQty :: "Account \<Rightarrow> int" where
  "grossQty a = sumMap (\<lambda>p. \<bar>sint (signedQty p)\<bar>) (positions a)"

definition acctBook :: "Account \<Rightarrow> int" where
  "acctBook a = sumMap (\<lambda>p. bookValue (absPos p)) (positions a)"

lemma NewAccount_wf: "accWf (NewAccount start hasBus)" "grossQty (NewAccount start hasBus) = 0"
    "acctBook (NewAccount start hasBus) = 0"
  by (simp_all add: accWf_def grossQty_def acctBook_def NewAccount_def sumMap_def)

lemma ObserveBar_wf: "accWf a \<Longrightarrow> accWf (ObserveBar a bar)"
  by (simp add: accWf_def ObserveBar_def)

lemma list_all_mapSet: "list_all P m \<Longrightarrow> P (k, v) \<Longrightarrow> list_all P (mapSet k v m)"
  by (induction m) (auto simp: mapSet_def)

lemma MinInt64_nonzero [simp]: "MinInt64 \<noteq> 0" "0 \<noteq> MinInt64"
  by (auto simp: not_Min_sint [of 0, simplified])

lemma NewPosition_wf [simp]: "posWf (NewPosition sid sy)" "absPos (NewPosition sid sy) = (0, 0, 0)"
    "signedQty (NewPosition sid sy) = 0" "realized (NewPosition sid sy) = 0"
    "strategyID (NewPosition sid sy) = sid" "symbol (NewPosition sid sy) = sy"
  by (simp_all add: posWf_def NewPosition_def absPos_def)

lemma leg_keys:
  "strategyID (fst (openLeg p q px)) = strategyID p" "symbol (fst (openLeg p q px)) = symbol p"
  "strategyID (fst (closeLeg p q px prev)) = strategyID p" "symbol (fst (closeLeg p q px prev)) = symbol p"
  by (simp_all add: openLeg_def closeLeg_def Let_def split: sum.splits)

lemma applyTransition_keys:
  "strategyID (fst (applyTransition p f new)) = strategyID p \<and> symbol (fst (applyTransition p f new)) = symbol p"
proof -
  have o: "openLeg q x y = (q', r) \<Longrightarrow> strategyID q' = strategyID q \<and> symbol q' = symbol q" for q x y q' r
    using leg_keys(1,2) [of q x y] by simp
  have c: "closeLeg q x y z = (q', r) \<Longrightarrow> strategyID q' = strategyID q \<and> symbol q' = symbol q" for q x y z q' r
    using leg_keys(3,4) [of q x y z] by simp
  show ?thesis
    by (cases "classify (signedQty p) new")
       (auto simp: applyTransition_def Let_def dest!: o c split: prod.splits sum.splits)
qed

lemma ApplyFill_keys: "ApplyFill p f = (p', r) \<Longrightarrow> strategyID p' = strategyID p \<and> symbol p' = symbol p"
proof -
  have t: "applyTransition p f new = (q, s) \<Longrightarrow> strategyID q = strategyID p \<and> symbol q = symbol p" for new q s
    using applyTransition_keys [of p f new] by simp
  assume "ApplyFill p f = (p', r)"
  then show ?thesis by (auto simp: ApplyFill_def dest: t split: if_splits sum.splits prod.splits)
qed

text \<open>The position a fill settles on, flat when there was none.\<close>

definition fillKey :: "Fill \<Rightarrow> StrategySymbol" where
  "fillKey f = (fill_StrategyID f, fill_Symbol f)"

definition posOf :: "Account \<Rightarrow> StrategySymbol \<Rightarrow> Position" where
  "posOf a key = (case mapGet (positions a) key of Some p \<Rightarrow> p | None \<Rightarrow> NewPosition (fst key) (snd key))"

lemma posOf_wf: "accWf a \<Longrightarrow> entryWf (key, posOf a key)"
proof (cases "mapGet (positions a) key")
  case (Some p)
  assume "accWf a"
  then have "list_all entryWf (positions a)" by (simp add: accWf_def)
  then show ?thesis using mapGet_SomeD [OF Some] Some by (auto simp: posOf_def list_all_iff)
qed (simp add: posOf_def entryWf_def)

lemma Account_ApplyFill_ok:
  assumes "Account_ApplyFill a f = (a', Inr (snap, out))"
  obtains p acc cash where
    "Fill_Validate f = Inr ()"
    "ApplyFill (posOf a (fill_StrategyID f, fill_Symbol f)) f = (p, Inr out)"
    "sint acc = sint (acc_realized a) + sint (RealizedDelta out)"
    "sint cash = sint (startingBalance a) + sint acc"
    "snap = Position_Snapshot p"
    "a' = a\<lparr>positions := mapSet (fill_StrategyID f, fill_Symbol f) p (positions a), acc_realized := acc,
            lastPrice := mapSet (fill_Symbol f) (fill_Price f) (lastPrice a),
            acc_bus := map_option (\<lambda>xs. xs @ [\<lparr>as_TS = fill_TS f, as_Total = cash, as_Free = cash,
              as_Locked = 0, as_Realized = acc\<rparr>]) (acc_bus a)\<rparr>"
proof -
  let ?key = "(fill_StrategyID f, fill_Symbol f)"
  obtain a1 where pos: "position a (fill_StrategyID f) (fill_Symbol f) = (a1, posOf a ?key)"
    and a1: "\<And>p. a1\<lparr>positions := mapSet ?key p (positions a1)\<rparr> = a\<lparr>positions := mapSet ?key p (positions a)\<rparr>"
    by (cases "mapGet (positions a) ?key") (auto simp: position_def posOf_def mapSet_self Let_def)
  obtain p res where ap: "ApplyFill (posOf a ?key) f = (p, res)" by (cases "ApplyFill (posOf a ?key) f")
  have val: "Fill_Validate f = Inr ()" using assms by (cases "Fill_Validate f") (auto simp: Account_ApplyFill_def)
  note step = assms [unfolded Account_ApplyFill_def val Let_def pos, simplified, unfolded ap a1, simplified]
  obtain out' where res: "res = Inr out'" using step by (cases res) auto
  have sel: "(if RealizedDelta out' \<noteq> 0 then Money_Add x (RealizedDelta out') else Inr x) =
      Money_Add x (RealizedDelta out')" for x
    using money_ok(4) [of x 0 x] by auto
  obtain acc where acc: "Money_Add (acc_realized a) (RealizedDelta out') = Inr acc"
    using step by (cases "Money_Add (acc_realized a) (RealizedDelta out')") (auto simp: res sel)
  obtain cash where cash: "Money_Add (startingBalance a) acc = Inr cash"
    using step by (cases "Money_Add (startingBalance a) acc") (auto simp: res sel acc emitAccountState_def Cash_def)
  show ?thesis
    using step ap val acc cash that [of p acc cash]
    by (simp add: res sel emitAccountState_def Cash_def) (simp add: money_ok)
qed

section \<open>Settling fills\<close>

lemma posOf_old:
  "(case mapGet (positions a) key of None \<Rightarrow> 0 | Some w \<Rightarrow> g w) = g (posOf a key)"
  if "g (NewPosition (fst key) (snd key)) = (0 :: int)"
  using that by (simp add: posOf_def split: option.splits)

lemma Account_step:
  assumes ap: "Account_ApplyFill a f = (a', Inr (snap, out))" and wf: "accWf a"
    and rng: "grossQty a + sint (fill_Qty f) < 2 ^ 63"
  shows "accWf a'" and "grossQty a' \<le> grossQty a + \<bar>sint (fill_Qty f)\<bar>"
    and "\<bar>acctBook a' - (acctBook a - signedFill f * sint (fill_Price f))\<bar> \<le> 50"
    and "startingBalance a' = startingBalance a"
proof -
  let ?key = "(fill_StrategyID f, fill_Symbol f)"
  let ?old = "posOf a ?key"
  obtain p acc cash where val: "Fill_Validate f = Inr ()" and app: "ApplyFill ?old f = (p, Inr out)"
    and acc: "sint acc = sint (acc_realized a) + sint (RealizedDelta out)"
    and a': "a' = a\<lparr>positions := mapSet ?key p (positions a), acc_realized := acc,
            lastPrice := mapSet (fill_Symbol f) (fill_Price f) (lastPrice a),
            acc_bus := map_option (\<lambda>xs. xs @ [\<lparr>as_TS = fill_TS f, as_Total = cash, as_Free = cash,
              as_Locked = 0, as_Realized = acc\<rparr>]) (acc_bus a)\<rparr>"
    using ap by (rule Account_ApplyFill_ok)
  have mw: "mapWf (positions a)" using wf by (simp add: accWf_def)
  have ow: "posWf ?old" "?key = (strategyID ?old, symbol ?old)" using posOf_wf [OF wf, of ?key] by (simp_all add: entryWf_def)
  have px: "0 < sint (fill_Price f)" and qty: "0 < sint (fill_Qty f)" using val by (simp_all add: Fill_Validate_ok)
  have sf: "\<bar>signedFill f\<bar> = sint (fill_Qty f)" using qty by (auto simp: signedFill_def)
  have q: "sint (signedQty p) = sint (signedQty ?old) + signedFill f" using ApplyFill_qty [OF app] by simp
  have "\<bar>sint (signedQty ?old)\<bar> \<le> grossQty a"
  proof (cases "mapGet (positions a) ?key")
    case None
    then show ?thesis using sumMap_nonneg [of "\<lambda>p. \<bar>sint (signedQty p)\<bar>"] by (simp add: posOf_def grossQty_def)
  next
    case (Some w)
    then show ?thesis using sumMap_member [of "\<lambda>p. \<bar>sint (signedQty p)\<bar>", OF _ Some] by (simp add: posOf_def grossQty_def)
  qed
  then have "\<bar>sint (signedQty p)\<bar> < 2 ^ 63" using q sf rng by linarith
  then have ne: "signedQty p \<noteq> MinInt64" by (auto simp: not_Min_sint)
  note R = ApplyFill_refines [OF app ow(1) px ne]
  have sum: "sumMap g (positions a') = sumMap g (positions a) - g ?old + g p"
    if "g (NewPosition (fill_StrategyID f) (fill_Symbol f)) = 0" for g
    using sumMap_set [OF mw, of g ?key p] posOf_old [of g ?key a] that by (simp add: a')
  have rz: "sint (realized p) = sint (realized ?old) + sint (RealizedDelta out)"
    using R(1,2) by (simp add: absPos_def netFill_def)
  show "accWf a'"
  proof -
    have "entryWf (?key, p)" using R(3) ow(2) ApplyFill_keys [OF app] by (simp add: entryWf_def)
    then show ?thesis
      using wf acc rz sum [of "\<lambda>p. sint (realized p)"] by (simp add: accWf_def a' list_all_mapSet)
  qed
  show "grossQty a' \<le> grossQty a + \<bar>sint (fill_Qty f)\<bar>"
    using sum [of "\<lambda>p. \<bar>sint (signedQty p)\<bar>"] q sf qty by (simp add: grossQty_def)
  have nz: "sint (signedQty ?old) = 0 \<longrightarrow> sint (entryNotional ?old) = 0" "signedFill f \<noteq> 0"
    using ow(1) sf qty by (auto simp: posWf_def)
  have "\<bar>bookValue (absPos p) - (bookValue (absPos ?old) - signedFill f * sint (fill_Price f))\<bar> \<le> 50"
    using netFill_bookValue [OF nz, of "sint (realized ?old)" "sint (fill_Price f)"]
    unfolding R(1) by (auto simp: absPos_def split: if_splits)
  then show "\<bar>acctBook a' - (acctBook a - signedFill f * sint (fill_Price f))\<bar> \<le> 50"
    using sum [of "\<lambda>p. bookValue (absPos p)"] by (simp add: acctBook_def bookValue_def)
  show "startingBalance a' = startingBalance a" by (simp add: a')
qed

fun settleAll :: "Account \<Rightarrow> Fill list \<Rightarrow> Account result" where
  "settleAll a [] = Inr a"
| "settleAll a (f # fs) = (case Account_ApplyFill a f of (_, Inl e) \<Rightarrow> Inl e | (a1, Inr _) \<Rightarrow> settleAll a1 fs)"

lemma settleAll_conserves:
  assumes "settleAll a fs = Inr a'" "accWf a" "grossQty a + turnover fs < 2 ^ 63"
  shows "accWf a' \<and> startingBalance a' = startingBalance a \<and>
    \<bar>acctBook a' - (acctBook a + cashFlow fs)\<bar> \<le> 50 * int (length fs)"
  using assms
proof (induction fs arbitrary: a)
  case Nil
  then show ?case by (simp add: cashFlow_def)
next
  case (Cons f fs)
  obtain a1 snap out where ap: "Account_ApplyFill a f = (a1, Inr (snap, out))" and rest: "settleAll a1 fs = Inr a'"
    using Cons.prems(1) by (auto split: prod.splits sum.splits)
  have t: "turnover (f # fs) = \<bar>sint (fill_Qty f)\<bar> + turnover fs" by (simp add: turnover_def)
  have rng: "grossQty a + sint (fill_Qty f) < 2 ^ 63" using Cons.prems(3) turnover_nonneg [of fs] unfolding t by linarith
  note S = Account_step [OF ap Cons.prems(2) rng]
  have "grossQty a1 + turnover fs < 2 ^ 63" using S(2) Cons.prems(3) unfolding t by linarith
  from Cons.IH [OF rest S(1) this] S(3,4)
  have "\<bar>acctBook a' - (acctBook a1 + cashFlow fs)\<bar> \<le> 50 * int (length fs)"
    "accWf a'" "startingBalance a' = startingBalance a" by auto
  moreover have "cashFlow (f # fs) = - signedFill f * sint (fill_Price f) + cashFlow fs" by (simp add: cashFlow_def)
  ultimately show ?case using S(3) by simp
qed

section \<open>Cash and equity\<close>

lemma Cash_exact: "accWf a \<Longrightarrow> Cash a = Inr c \<Longrightarrow> sint c = sint (startingBalance a) + sumMap (\<lambda>p. sint (realized p)) (positions a)"
  by (simp add: Cash_def money_ok accWf_def)

definition priced :: "Account \<Rightarrow> bool" where
  "priced a \<longleftrightarrow> list_all (\<lambda>(k, p). Position_IsFlat p \<or> mapGet (lastPrice a) (symbol p) \<noteq> None) (positions a)"

definition markOf :: "Account \<Rightarrow> Position \<Rightarrow> int" where
  "markOf a p = (case mapGet (lastPrice a) (symbol p) of None \<Rightarrow> 0 | Some px \<Rightarrow> markedPnL p px)"

lemma markedPnL_flat: "Position_IsFlat p \<Longrightarrow> markedPnL p px = 0"
  by (simp add: Position_IsFlat_def markedPnL_def)

lemma unrealizedLoop_exact:
  "unrealizedLoop a ks acc = Inr u \<Longrightarrow> set ks \<subseteq> set (mapKeys (positions a)) \<Longrightarrow>
   sint u = sint acc + (\<Sum>k\<leftarrow>ks. markOf a (posOf a k))"
proof (induction ks arbitrary: acc)
  case (Cons key ks)
  obtain p where p: "mapGet (positions a) key = Some p"
    using Cons.prems(2) mapGet_in_keys [of "positions a" key] by auto
  have po: "posOf a key = p" by (simp add: posOf_def p)
  show ?case
  proof (cases "Position_IsFlat p \<or> mapGet (lastPrice a) (symbol p) = None")
    case True
    then have "unrealizedLoop a ks acc = Inr u" using Cons.prems(1) p by (auto split: if_splits)
    moreover have "markOf a p = 0" using True by (auto simp: markOf_def markedPnL_flat split: option.splits)
    ultimately show ?thesis using Cons po by simp
  next
    case False
    then obtain px where px: "mapGet (lastPrice a) (symbol p) = Some px" by auto
    obtain x y where "UnrealizedPnL p px = Inr x" "Money_Add acc x = Inr y" "unrealizedLoop a ks y = Inr u"
      using Cons.prems(1) p px False by (auto simp: bindR_def split: sum.splits)
    then show ?thesis
      using Cons.IH [of y] Cons.prems(2) px po UnrealizedPnL_exact [of p px x] by (simp add: markOf_def money_ok)
  qed
qed simp

lemma sum_keys: "mapWf m \<Longrightarrow> (\<Sum>k\<leftarrow>mapKeys m. case mapGet m k of None \<Rightarrow> 0 | Some v \<Rightarrow> g v) = sumMap g m"
proof -
  assume wf: "mapWf m"
  have "map (\<lambda>k. case mapGet m k of None \<Rightarrow> 0 | Some v \<Rightarrow> g v) (mapKeys m) = map (\<lambda>e. g (snd e)) m"
    unfolding mapKeys_def map_map
  proof (rule map_cong [OF refl])
    fix e assume "e \<in> set m"
    then have "mapGet m (fst e) = Some (snd e)" using mapGet_Some_iff [OF wf] by simp
    then show "((\<lambda>k. case mapGet m k of None \<Rightarrow> 0 | Some v \<Rightarrow> g v) \<circ> fst) e = g (snd e)" by simp
  qed
  then show ?thesis by (simp only: sumMap_def)
qed

lemma sum_sort: "(\<Sum>k\<leftarrow>sort xs. h k) = (\<Sum>k\<leftarrow>xs. (h k :: int))"
  by (metis mset_map mset_sort sum_mset_sum_list)

lemma Unrealized_exact:
  assumes "accWf a" "Unrealized a = Inr u"
  shows "sint u = sumMap (markOf a) (positions a)"
proof -
  have mw: "mapWf (positions a)" using assms(1) by (simp add: accWf_def)
  have "sint u = (\<Sum>k\<leftarrow>mapKeys (positions a). markOf a (posOf a k))"
    using unrealizedLoop_exact [of a "sortKeys (positions a)" 0 u] assms(2)
    by (simp add: Unrealized_def sortKeys_def sum_sort)
  also have "\<dots> = (\<Sum>k\<leftarrow>mapKeys (positions a). case mapGet (positions a) k of None \<Rightarrow> 0 | Some p \<Rightarrow> markOf a p)"
    by (intro arg_cong [of _ _ sum_list] map_cong refl)
      (auto simp: posOf_def mapGet_in_keys [symmetric] split: option.splits)
  also have "\<dots> = sumMap (markOf a) (positions a)" by (rule sum_keys [OF mw])
  finally show ?thesis .
qed

definition holdingValue :: "Account \<Rightarrow> Position \<Rightarrow> int" where
  "holdingValue a p = (case mapGet (lastPrice a) (symbol p) of None \<Rightarrow> 0 | Some px \<Rightarrow> sint (signedQty p) * sint px)"

definition holdingsValue :: "Account \<Rightarrow> int" where
  "holdingsValue a = sumMap (holdingValue a) (positions a)"

lemma priced_split:
  assumes "Position_IsFlat p \<or> mapGet (lastPrice a) (symbol p) \<noteq> None"
  shows "sint (realized p) + markOf a p = bookValue (absPos p) + holdingValue a p"
  using assms by (auto simp: markOf_def holdingValue_def bookValue_def absPos_def Position_IsFlat_def
      markedPnL_def split: option.splits)

lemma sumMap_add: "sumMap f m + sumMap g m = sumMap (\<lambda>v. f v + g v) m"
  by (simp add: sumMap_def sum_list_addf)

lemma sumMap_cong: "(\<And>k v. (k, v) \<in> set m \<Longrightarrow> f v = g v) \<Longrightarrow> sumMap f m = sumMap g m"
  unfolding sumMap_def by (intro arg_cong [of _ _ sum_list] map_cong) auto

lemma Equity_exact:
  assumes wf: "accWf a" and pr: "priced a" and eq: "Equity a = Inr e"
  shows "sint e = sint (startingBalance a) + acctBook a + holdingsValue a"
proof -
  obtain c u where c: "Cash a = Inr c" "Unrealized a = Inr u" "sint e = sint c + sint u"
    using eq by (auto simp: Equity_def bindR_def money_ok split: sum.splits)
  have "sumMap (\<lambda>p. sint (realized p)) (positions a) + sumMap (markOf a) (positions a) = acctBook a + holdingsValue a"
    unfolding acctBook_def holdingsValue_def sumMap_add
    using pr by (intro sumMap_cong priced_split) (auto simp: priced_def list_all_iff)
  then show ?thesis using Cash_exact [OF wf c(1)] Unrealized_exact [OF wf c(2)] c(3) by simp
qed

section \<open>The snapshot for the risk pipeline\<close>

lemma openQtyLoop_get:
  "mapWf m \<Longrightarrow> mapGet (openQtyLoop m out) k =
     (case mapGet m k of Some p \<Rightarrow> if Position_IsFlat p then mapGet out k else Some (signedQty p) | None \<Rightarrow> mapGet out k)"
proof (induction m arbitrary: out)
  case (Cons e m)
  obtain k' p where e: "e = (k', p)" by (cases e)
  have wf: "mapWf m" "mapGet m k' = None"
    using Cons.prems e mapGet_in_keys [of m k'] by (auto simp: mapWf_def mapKeys_def)
  show ?case using Cons.IH [OF wf(1)] wf(2) e by (auto simp: mapGet_Cons split: option.splits)
qed simp

lemma mapWf_openQtyLoop: "mapWf out \<Longrightarrow> mapWf (openQtyLoop m out)"
  by (induction m out rule: openQtyLoop.induct) auto

lemma Snapshot_ok:
  assumes wf: "accWf a" and s: "Account_Snapshot a = Inr s"
  shows "sint (ps_NAV s) = sint (startingBalance a) + sumMap (\<lambda>p. sint (realized p)) (positions a)"
    and "ps_Cash s = ps_NAV s"
    and "StrategyPosition s sid sy = signedQty (posOf a (sid, sy))"
    and "ps_LastClose s = lastPrice a" and "snapWf s"
proof -
  obtain nav where nav: "Cash a = Inr nav"
    and s': "s = NewPortfolioSnapshot nav nav 0 0 (openQtyLoop (positions a) []) (cloneMapLoop (lastPrice a) [])"
    using s by (auto simp: Account_Snapshot_def bindR_def split: sum.splits)
  have m: "mapWf (positions a)" "mapWf (lastPrice a)" using wf by (simp_all add: accWf_def)
  show "sint (ps_NAV s) = sint (startingBalance a) + sumMap (\<lambda>p. sint (realized p)) (positions a)"
    using Cash_exact [OF wf nav] by (simp add: s' NewPortfolioSnapshot_def)
  show "ps_Cash s = ps_NAV s" by (simp add: s' NewPortfolioSnapshot_def)
  have q: "ps_Positions s = openQtyLoop (positions a) []"
    using mapWf_openQtyLoop [of "[]"] by (simp add: s' NewPortfolioSnapshot_def clonePositions_def clone_id)
  show "StrategyPosition s sid sy = signedQty (posOf a (sid, sy))"
    using openQtyLoop_get [OF m(1), of "[]" "(sid, sy)"]
    by (auto simp: StrategyPosition_def q posOf_def Position_IsFlat_def split: option.splits)
  show l: "ps_LastClose s = lastPrice a"
    using m(2) by (simp add: s' NewPortfolioSnapshot_def cloneLastClose_def clone_id)
  show "snapWf s" using m(2) mapWf_openQtyLoop [of "[]"] by (simp add: snapWf_def q l)
qed

section \<open>The equity curves\<close>

definition pnlOf :: "Account \<Rightarrow> Position \<Rightarrow> int" where
  "pnlOf a p = sint (realized p) + markOf a p"

lemma strategyPnlLoop_exact:
  "strategyPnlLoop a sid ks pnl = Inr u \<Longrightarrow> set ks \<subseteq> set (mapKeys (positions a)) \<Longrightarrow>
   sint u = sint pnl + (\<Sum>k\<leftarrow>filter (\<lambda>k. fst k = sid) ks. pnlOf a (posOf a k))"
proof (induction ks arbitrary: pnl)
  case (Cons key ks)
  show ?case
  proof (cases "fst key = sid")
    case False
    then show ?thesis using Cons by simp
  next
    case sid: True
    obtain p where p: "mapGet (positions a) key = Some p"
      using Cons.prems(2) mapGet_in_keys [of "positions a" key] by auto
    have po: "posOf a key = p" by (simp add: posOf_def p)
    obtain acc where acc: "Money_Add pnl (realized p) = Inr acc"
      using Cons.prems(1) sid p by (auto simp: bindR_def split: sum.splits)
    show ?thesis
    proof (cases "Position_IsFlat p \<or> mapGet (lastPrice a) (symbol p) = None")
      case True
      then have "strategyPnlLoop a sid ks acc = Inr u" using Cons.prems(1) p sid acc by (auto split: if_splits)
      moreover have "markOf a p = 0" using True by (auto simp: markOf_def markedPnL_flat split: option.splits)
      ultimately show ?thesis using Cons po sid acc by (simp add: pnlOf_def money_ok)
    next
      case False
      then obtain px where px: "mapGet (lastPrice a) (symbol p) = Some px" by auto
      obtain x y where "UnrealizedPnL p px = Inr x" "Money_Add acc x = Inr y" "strategyPnlLoop a sid ks y = Inr u"
        using Cons.prems(1) p px False sid acc by (auto simp: bindR_def split: sum.splits)
      then show ?thesis
        using Cons.IH [of y] Cons.prems(2) px po sid acc UnrealizedPnL_exact [of p px x]
        by (simp add: pnlOf_def markOf_def money_ok)
    qed
  qed
qed simp

lemma perStratLoop_exact:
  assumes "perStratLoop a ks ids m = Inr m'" "distinct ids" "set ids \<inter> set (mapKeys m) = {}"
    and "set ks \<subseteq> set (mapKeys (positions a))"
  shows "\<exists>ps. m' = m @ zip ids ps \<and> length ps = length ids \<and>
    map sint ps = map (\<lambda>sid. \<Sum>k\<leftarrow>filter (\<lambda>k. fst k = sid) ks. pnlOf a (posOf a k)) ids"
  using assms
proof (induction ids arbitrary: m)
  case (Cons sid ids)
  obtain pnl where pnl: "strategyPnlLoop a sid ks 0 = Inr pnl" and rest: "perStratLoop a ks ids (mapSet sid pnl m) = Inr m'"
    using Cons.prems(1) by (auto simp: bindR_def split: sum.splits)
  have "mapGet m sid = None" using Cons.prems(3) mapGet_in_keys [of m sid] by auto
  then have set: "mapSet sid pnl m = m @ [(sid, pnl)]" by (rule mapSet_fresh)
  obtain ps where "m' = (m @ [(sid, pnl)]) @ zip ids ps" "length ps = length ids"
    "map sint ps = map (\<lambda>sid. \<Sum>k\<leftarrow>filter (\<lambda>k. fst k = sid) ks. pnlOf a (posOf a k)) ids"
    using Cons.IH [OF rest] Cons.prems set by (auto simp: mapKeys_def)
  then show ?case using strategyPnlLoop_exact [OF pnl Cons.prems(4)] by (intro exI [of _ "pnl # ps"]) simp
qed simp

lemma sum_by_group:
  assumes "distinct ids" "set (map f ks) \<subseteq> set ids"
  shows "(\<Sum>i\<leftarrow>ids. \<Sum>k\<leftarrow>filter (\<lambda>k. f k = i) ks. h k) = (\<Sum>k\<leftarrow>ks. (h k :: int))"
  using assms(2)
proof (induction ks)
  case (Cons k ks)
  have "(\<Sum>i\<leftarrow>ids. \<Sum>k\<leftarrow>filter (\<lambda>k. f k = i) (k # ks). h k) =
      (\<Sum>i\<leftarrow>ids. (if f k = i then h k else 0) + (\<Sum>k\<leftarrow>filter (\<lambda>k. f k = i) ks. h k))"
    by (intro arg_cong [of _ _ sum_list] map_cong) auto
  also have "\<dots> = (\<Sum>i\<leftarrow>ids. if f k = i then h k else 0) + (\<Sum>k\<leftarrow>ks. h k)"
    using Cons by (simp add: sum_list_addf)
  also have "(\<Sum>i\<leftarrow>ids. if f k = i then h k else 0) = h k"
    using assms(1) Cons.prems by (simp add: sum_list_distinct_conv_sum_set)
  finally show ?case by simp
qed simp

lemma discoverLoop_keys: "set (mapKeys (discoverLoop ks ids)) = set (map fst ks) \<union> set (mapKeys ids)"
  by (induction ks arbitrary: ids) (auto simp: mapKeys_set)

lemma discoverLoop_wf: "mapWf ids \<Longrightarrow> mapWf (discoverLoop ks ids)"
  by (induction ks arbitrary: ids) auto

lemma recordLoop_get:
  "mapWf m \<Longrightarrow> mapGet (recordLoop ts m curves) k =
     (case mapGet m k of None \<Rightarrow> mapGet curves k
      | Some v \<Rightarrow> Some ((case mapGet curves k of None \<Rightarrow> [] | Some c \<Rightarrow> c) @ [(ts, v)]))"
proof (induction m arbitrary: curves)
  case (Cons e m)
  obtain k' v where e: "e = (k', v)" by (cases e)
  have wf: "mapWf m" "mapGet m k' = None"
    using Cons.prems e mapGet_in_keys [of m k'] by (auto simp: mapWf_def mapKeys_def)
  show ?case using Cons.IH [OF wf(1)] wf(2) e by (auto simp: mapGet_Cons split: option.splits)
qed simp

text \<open>One sample: each known strategy gets one point, and the points add up to the equity point less
  the starting balance.\<close>

lemma Sample_ok:
  assumes wf: "accWf a" and sw: "mapWf (strategyIDs s)" and ok: "Sample s a ts = (s', Inr ())"
  obtains e perStrat where "Equity a = Inr e" "totalCurve s' = totalCurve s @ [(ts, e)]"
    and "mapWf perStrat" "mapKeys perStrat = sortedStrategyIDs s'"
    and "\<And>sid. StrategyCurve s' sid = StrategyCurve s sid @ (case mapGet perStrat sid of None \<Rightarrow> [] | Some v \<Rightarrow> [(ts, v)])"
    and "sint e = sint (startingBalance a) + sumMap sint perStrat"
proof -
  let ?ks = "sortKeys (positions a)" and ?s1 = "s\<lparr>strategyIDs := discoverLoop (mapKeys (positions a)) (strategyIDs s)\<rparr>"
  let ?ids = "sortedStrategyIDs ?s1"
  obtain m where m: "perStratLoop a ?ks ?ids [] = Inr m" using ok by (auto simp: Sample_def Let_def split: sum.splits)
  obtain e where e: "Equity a = Inr e" using ok m by (auto simp: Sample_def Let_def split: sum.splits)
  have s': "s' = ?s1\<lparr>perStrategy := recordLoop ts m (perStrategy s), totalCurve := totalCurve s @ [(ts, e)]\<rparr>"
    using ok m e by (auto simp: Sample_def Let_def)
  have d: "distinct ?ids" using discoverLoop_wf [OF sw] by (simp add: sortedStrategyIDs_def mapWf_def)
  obtain ps where ps: "m = zip ?ids ps" "length ps = length ?ids"
    "map sint ps = map (\<lambda>sid. \<Sum>k\<leftarrow>filter (\<lambda>k. fst k = sid) ?ks. pnlOf a (posOf a k)) ?ids"
    using perStratLoop_exact [OF m d] by (auto simp: mapKeys_def sortKeys_def)
  have mw: "mapWf m" and mk: "mapKeys m = ?ids" using d ps(1,2) by (simp_all add: mapWf_def mapKeys_def)
  have "map snd m = ps" using ps(1,2) by simp
  then have "map (\<lambda>x. sint (snd x)) m = map sint ps" by (simp flip: map_map [unfolded comp_def])
  then have "sumMap sint m = (\<Sum>sid\<leftarrow>?ids. \<Sum>k\<leftarrow>filter (\<lambda>k. fst k = sid) ?ks. pnlOf a (posOf a k))"
    unfolding sumMap_def ps(3) by simp
  also have "\<dots> = (\<Sum>k\<leftarrow>?ks. pnlOf a (posOf a k))"
    using d by (intro sum_by_group) (auto simp: sortedStrategyIDs_def sortKeys_def discoverLoop_keys)
  also have "\<dots> = (\<Sum>k\<leftarrow>mapKeys (positions a). case mapGet (positions a) k of None \<Rightarrow> 0 | Some p \<Rightarrow> pnlOf a p)"
    unfolding sortKeys_def sum_sort
    by (intro arg_cong [of _ _ sum_list] map_cong refl)
       (auto simp: posOf_def mapGet_in_keys [symmetric] split: option.splits)
  also have "\<dots> = sumMap (pnlOf a) (positions a)" using wf by (intro sum_keys) (simp add: accWf_def)
  finally have sum: "sumMap sint m = sumMap (pnlOf a) (positions a)" .
  obtain c u where c: "Cash a = Inr c" "Unrealized a = Inr u" "sint e = sint c + sint u"
    using e by (auto simp: Equity_def bindR_def money_ok split: sum.splits)
  have "sint e = sint (startingBalance a) + sumMap sint m"
    unfolding sum using Cash_exact [OF wf c(1)] Unrealized_exact [OF wf c(2)] c(3)
    by (simp add: pnlOf_def [abs_def] flip: sumMap_add)
  moreover have "StrategyCurve s' sid = StrategyCurve s sid @ (case mapGet m sid of None \<Rightarrow> [] | Some v \<Rightarrow> [(ts, v)])" for sid
    unfolding StrategyCurve_def s' by (simp add: recordLoop_get [OF mw] split: option.splits)
  moreover have "totalCurve s' = totalCurve s @ [(ts, e)]" "mapKeys m = sortedStrategyIDs s'"
    using mk by (simp_all add: s' sortedStrategyIDs_def)
  ultimately show ?thesis using that [OF e _ mw] by blast
qed

section \<open>Properties\<close>

definition sampleFill :: "string \<Rightarrow> OrderSide \<Rightarrow> Qty \<Rightarrow> Price \<Rightarrow> Fill" where
  "sampleFill sid side qty px = \<lparr>fill_TradeID = ''T'', fill_ClientOrderID = ''C'', fill_VenueOrderID = [], fill_StrategyID = sid,
     fill_Symbol = ''X'', fill_Side = side, fill_Qty = qty, fill_Price = px, fill_Commission = 7, fill_TS = \<lparr>t_ns = 5, t_off = 0\<rparr>\<rparr>"

definition sampleFills :: "Fill list" where
  "sampleFills = [sampleFill ''s'' OrderSideBuy 3 1001, sampleFill ''t'' OrderSideSell 2 1500, sampleFill ''s'' OrderSideSell 1 1733]"

definition sampleAccount :: Account where
  "sampleAccount = (case settleAll (NewAccount 1000000 True) sampleFills of Inl e \<Rightarrow> NewAccount 0 True | Inr a \<Rightarrow> a)"

lemma sampleAccount_ok: "settleAll (NewAccount 1000000 True) sampleFills = Inr sampleAccount"
proof -
  have "isOk (settleAll (NewAccount 1000000 True) sampleFills)" by code_simp
  then show ?thesis by (cases "settleAll (NewAccount 1000000 True) sampleFills") (auto simp: sampleAccount_def)
qed

lemma sampleAccount_facts:
  "accWf sampleAccount \<and> startingBalance sampleAccount = 1000000 \<and> priced sampleAccount \<and> isOk (Equity sampleAccount) \<and>
   isOk (snd (Sample NewEquitySampler sampleAccount \<lparr>t_ns = 9, t_off = 0\<rparr>)) \<and> isOk (Account_Snapshot sampleAccount) \<and>
   signedQty (posOf sampleAccount (''s'', ''X'')) = 2 \<and> signedQty (posOf sampleAccount (''u'', ''X'')) = 0"
proof -
  have "case Some sampleAccount of None \<Rightarrow> False | Some a \<Rightarrow>
     accWf a \<and> startingBalance a = 1000000 \<and> priced a \<and> isOk (Equity a) \<and>
     isOk (snd (Sample NewEquitySampler a \<lparr>t_ns = 9, t_off = 0\<rparr>)) \<and> isOk (Account_Snapshot a) \<and>
     signedQty (posOf a (''s'', ''X'')) = 2 \<and> signedQty (posOf a (''u'', ''X'')) = 0"
    by code_simp
  then show ?thesis unfolding option.case .
qed

text \<open>C4. An account that settles a list of fills keeps its invariant (one entry per key, realized profit
  the sum over positions, every position well formed), never touches its starting balance, and its book
  value moves by the cash the fills moved, up to half a cent per fill: no fill is lost, charged twice or
  attributed to another position.\<close>

theorem account_conserves:
  assumes "settleAll a fs = Inr a'" "accWf a" "grossQty a + turnover fs < 2 ^ 63"
  shows "accWf a' \<and> startingBalance a' = startingBalance a \<and>
    \<bar>acctBook a' - (acctBook a + cashFlow fs)\<bar> \<le> 50 * int (length fs)"
  by (rule settleAll_conserves [OF assms])

theorem account_conserves_witness:
  "accWf sampleAccount \<and> \<bar>acctBook sampleAccount - cashFlow sampleFills\<bar> \<le> 150 \<and> cashFlow sampleFills = 1730"
proof -
  have "(turnover sampleFills < 2 ^ 63) \<and>
    (cashFlow sampleFills = 1730) \<and>
    (length sampleFills = 3)" by code_simp
  then show ?thesis
    using account_conserves [OF sampleAccount_ok NewAccount_wf(1)] NewAccount_wf(2,3) [of 1000000 True] by simp
qed

text \<open>Equity is the starting balance plus the book value of the fills plus the market value of what is
  held, exactly, for an account whose open positions are all priced.\<close>

theorem equity_identity:
  assumes "accWf a" "priced a" "Equity a = Inr e"
  shows "sint e = sint (startingBalance a) + acctBook a + holdingsValue a"
  by (rule Equity_exact [OF assms])

theorem equity_identity_witness:
  "\<exists>e. Equity sampleAccount = Inr e \<and> sint e = 1000000 + acctBook sampleAccount + holdingsValue sampleAccount"
  using equity_identity [of sampleAccount] sampleAccount_facts by (cases "Equity sampleAccount") auto

text \<open>One sample appends one point to the total curve and at most one point per strategy, at the
  sample's timestamp; the strategy points of the sample add up to the total point less the starting
  balance.\<close>

theorem sample_adds_up:
  assumes "accWf a" "mapWf (strategyIDs s)" "Sample s a ts = (s', Inr ())"
  shows "\<exists>e perStrat. totalCurve s' = totalCurve s @ [(ts, e)] \<and> Equity a = Inr e \<and> mapWf perStrat \<and>
    (\<forall>sid. StrategyCurve s' sid = StrategyCurve s sid @ (case mapGet perStrat sid of None \<Rightarrow> [] | Some v \<Rightarrow> [(ts, v)])) \<and>
    sint e = sint (startingBalance a) + sumMap sint perStrat"
  by (rule Sample_ok [OF assms]) blast

theorem sample_adds_up_witness:
  "\<exists>s' e. Sample NewEquitySampler sampleAccount \<lparr>t_ns = 9, t_off = 0\<rparr> = (s', Inr ()) \<and>
    totalCurve s' = [(\<lparr>t_ns = 9, t_off = 0\<rparr>, e)] \<and> Equity sampleAccount = Inr e"
proof -
  let ?s = "Sample NewEquitySampler sampleAccount \<lparr>t_ns = 9, t_off = 0\<rparr>"
  have s: "?s = (fst ?s, Inr ())" using sampleAccount_facts by (cases ?s; cases "snd ?s") auto
  have "mapWf (strategyIDs NewEquitySampler)" "totalCurve NewEquitySampler = []" by (simp_all add: NewEquitySampler_def)
  then show ?thesis using sample_adds_up [OF _ _ s] s sampleAccount_facts by fastforce
qed

text \<open>The snapshot handed to the risk gate shows the account: net asset value and cash are the
  starting balance plus all realized profit, each (strategy, symbol) shows its signed quantity, and the
  last closes are the account's last prices.\<close>

theorem snapshot_shows_account:
  assumes "accWf a" "Account_Snapshot a = Inr s"
  shows "sint (ps_NAV s) = sint (startingBalance a) + sumMap (\<lambda>p. sint (realized p)) (positions a) \<and>
    ps_Cash s = ps_NAV s \<and> StrategyPosition s sid sy = signedQty (posOf a (sid, sy)) \<and>
    ps_LastClose s = lastPrice a \<and> snapWf s"
  using Snapshot_ok [OF assms] by blast

theorem snapshot_shows_account_witness:
  "\<exists>s. Account_Snapshot sampleAccount = Inr s \<and> StrategyPosition s ''s'' ''X'' = 2 \<and> StrategyPosition s ''u'' ''X'' = 0"
proof -
  obtain s where s: "Account_Snapshot sampleAccount = Inr s" using sampleAccount_facts by (cases "Account_Snapshot sampleAccount") auto
  with snapshot_shows_account [OF _ s, of "''s''" "''X''"] snapshot_shows_account [OF _ s, of "''u''" "''X''"] sampleAccount_facts
  show ?thesis by auto
qed

lemma unchargedFields:
  "fill_Price (f\<lparr>fill_Commission := c\<rparr>) = fill_Price f" "fill_Qty (f\<lparr>fill_Commission := c\<rparr>) = fill_Qty f"
  "fill_Side (f\<lparr>fill_Commission := c\<rparr>) = fill_Side f" "fill_TS (f\<lparr>fill_Commission := c\<rparr>) = fill_TS f"
  "fill_StrategyID (f\<lparr>fill_Commission := c\<rparr>) = fill_StrategyID f" "fill_Symbol (f\<lparr>fill_Commission := c\<rparr>) = fill_Symbol f"
  by simp_all

lemma ApplyFill_commission: "ApplyFill p (f\<lparr>fill_Commission := c\<rparr>) = ApplyFill p f"
  unfolding ApplyFill_def applyTransition_def fillDelta_def unchargedFields ..

text \<open>The commission of a fill is never charged: settling a fill does not depend on it, so cash, realized
  profit and equity are gross of the commission the fill model computed.\<close>

theorem commission_not_charged:
  assumes "Fill_Validate f = Inr ()" "Fill_Validate (f\<lparr>fill_Commission := c\<rparr>) = Inr ()"
  shows "Account_ApplyFill a (f\<lparr>fill_Commission := c\<rparr>) = Account_ApplyFill a f"
  unfolding Account_ApplyFill_def assms ApplyFill_commission unchargedFields ..

theorem commission_not_charged_witness:
  "Account_ApplyFill sampleAccount (sampleFill ''s'' OrderSideBuy 3 1001\<lparr>fill_Commission := 1000000\<rparr>) =
   Account_ApplyFill sampleAccount (sampleFill ''s'' OrderSideBuy 3 1001)"
proof -
  have "(Fill_Validate (sampleFill ''s'' OrderSideBuy 3 1001) = Inr ()) \<and>
    (Fill_Validate (sampleFill ''s'' OrderSideBuy 3 1001\<lparr>fill_Commission := 1000000\<rparr>) = Inr ())" by code_simp
  then show ?thesis by (elim conjE) (rule commission_not_charged)
qed

end
