(* ===== verification/Core_Queue.thy ===== *)
theory Core_Queue
  imports Domain_Types
begin

text \<open>
  Events and the event queue of \<open>internal/core\<close> (\<open>event.go\<close>, \<open>queue.go\<close>): a hand-written binary
  min-heap in a slice, ordered by (timestamp, kind priority, insertion sequence).  The slice is a
  list updated by index; \<open>siftUp\<close> and \<open>siftDown\<close> are the loops of the source.  The contract the
  event loops rely on is the locale \<open>dispatch_queue\<close>: a queue is its list of pending items in
  dispatch order.  The heap implements it.
\<close>

section \<open>Events\<close>

datatype EventKind = KindBar | KindFill | KindSample

fun Priority :: "EventKind \<Rightarrow> 8 word" where
  "Priority KindBar = 0"
| "Priority KindFill = 1"
| "Priority KindSample = 2"

fun EventKind_String :: "EventKind \<Rightarrow> string" where
  "EventKind_String KindBar = ''bar''"
| "EventKind_String KindFill = ''fill''"
| "EventKind_String KindSample = ''sample''"

datatype Event = BarEvent Bar | FillEvent Fill | SampleEvent gotime

fun TsEvent :: "Event \<Rightarrow> gotime" where
  "TsEvent (BarEvent b) = bar_TS b"
| "TsEvent (FillEvent f) = fill_TS f"
| "TsEvent (SampleEvent t) = t"

fun Kind :: "Event \<Rightarrow> EventKind" where
  "Kind (BarEvent b) = KindBar"
| "Kind (FillEvent f) = KindFill"
| "Kind (SampleEvent t) = KindSample"

section \<open>The heap\<close>

record queuedEvent =
  ev :: Event
  tsNs :: int64
  prio :: "8 word"
  seq :: uint64

definition less :: "queuedEvent \<Rightarrow> queuedEvent \<Rightarrow> bool" where
  "less a b =
     (if tsNs a \<noteq> tsNs b then sint (tsNs a) < sint (tsNs b)
      else if prio a \<noteq> prio b then prio a < prio b
      else seq a < seq b)"

record eventQueue =
  heap :: "queuedEvent list"
  nextID :: uint64

definition newEventQueue :: eventQueue where
  "newEventQueue = \<lparr>heap = [], nextID = 0\<rparr>"

definition Len :: "eventQueue \<Rightarrow> nat" where
  "Len q = length (heap q)"

definition nextSeq :: "eventQueue \<Rightarrow> uint64 \<times> eventQueue" where
  "nextSeq q = (nextID q, q\<lparr>nextID := nextID q + 1\<rparr>)"

definition swap :: "'a list \<Rightarrow> nat \<Rightarrow> nat \<Rightarrow> 'a list" where
  "swap xs i j = xs[i := xs ! j, j := xs ! i]"

lemma length_swap [simp]: "length (swap xs i j) = length xs"
  by (simp add: swap_def)

function siftUp :: "queuedEvent list \<Rightarrow> nat \<Rightarrow> queuedEvent list" where
  "siftUp h i =
     (if i = 0 then h
      else let parent = (i - 1) div 2 in
        if \<not> less (h ! i) (h ! parent) then h else siftUp (swap h i parent) parent)"
  by pat_completeness auto
termination
  by (relation "measure snd") auto

function siftDown :: "queuedEvent list \<Rightarrow> nat \<Rightarrow> queuedEvent list" where
  "siftDown h i =
     (let n = length h; left = 2 * i + 1 in
      if n \<le> left then h
      else let right = left + 1;
               smallest = (if right < n \<and> less (h ! right) (h ! left) then right else left)
           in if \<not> less (h ! smallest) (h ! i) then h else siftDown (swap h i smallest) smallest)"
  by pat_completeness auto
termination
  by (relation "measure (\<lambda>(h, i). length h - i)") (auto split: if_splits)

declare siftUp.simps [simp del] siftDown.simps [simp del]

definition push :: "Event \<Rightarrow> eventQueue \<Rightarrow> uint64 \<times> eventQueue" where
  "push e q =
     (let (s, q1) = nextSeq q;
          item = \<lparr>ev = e, tsNs = UnixNano (toUTC (TsEvent e)), prio = Priority (Kind e), seq = s\<rparr>;
          h = heap q1 @ [item]
      in (s, q1\<lparr>heap := siftUp h (length h - 1)\<rparr>))"

definition peekTs :: "eventQueue \<Rightarrow> gotime option" where
  "peekTs q = (if heap q = [] then None else Some (TsEvent (ev (heap q ! 0))))"

definition pop :: "eventQueue \<Rightarrow> (Event \<times> eventQueue) option" where
  "pop q =
     (let n = length (heap q) in
      if n = 0 then None
      else let top = heap q ! 0; lst = heap q ! (n - 1);
               h = take (n - 1) ((heap q)[0 := lst])
           in Some (ev top, q\<lparr>heap := (if h \<noteq> [] then siftDown h 0 else h)\<rparr>))"

section \<open>The order\<close>

type_synonym qkey = "int \<times> int \<times> int"

definition qkey :: "queuedEvent \<Rightarrow> qkey" where
  "qkey a = (sint (tsNs a), uint (prio a), uint (seq a))"

lemma less_qkey: "less a b \<longleftrightarrow> qkey a < qkey b"
proof -
  have t: "tsNs a = tsNs b \<longleftrightarrow> sint (tsNs a) = sint (tsNs b)" by simp
  have p: "prio a = prio b \<longleftrightarrow> uint (prio a) = uint (prio b)" by (auto intro: unsigned_word_eqI)
  have lex: "(x, y, z) < (x', y', z') \<longleftrightarrow> x < x' \<or> x = x' \<and> (y < y' \<or> y = y' \<and> z < z')"
    for x y z x' y' z' :: int by (auto simp: less_prod_def)
  show ?thesis unfolding less_def t p word_less_def qkey_def lex by auto
qed

section \<open>Heap order\<close>

definition par :: "nat \<Rightarrow> nat" where
  "par i = (i - 1) div 2"

lemma par_less [simp]: "0 < i \<Longrightarrow> par i < i"
  by (auto simp: par_def)

lemma par_0 [simp]: "par 0 = 0"
  by (simp add: par_def)

lemma par_children: "0 < j \<Longrightarrow> par j = i \<longleftrightarrow> j = 2 * i + 1 \<or> j = 2 * i + 2"
  by (auto simp: par_def)

lemma siftUp_par:
  "siftUp h i = (if i = 0 \<or> \<not> less (h ! i) (h ! par i) then h else siftUp (swap h i (par i)) (par i))"
  by (subst siftUp.simps) (simp add: par_def Let_def)

definition above :: "queuedEvent list \<Rightarrow> nat \<Rightarrow> bool" where
  "above h j \<longleftrightarrow> qkey (h ! par j) \<le> qkey (h ! j)"

definition heapOk :: "queuedEvent list \<Rightarrow> bool" where
  "heapOk h \<longleftrightarrow> (\<forall>j. 0 < j \<and> j < length h \<longrightarrow> above h j)"

text \<open>All edges are in order but the one from \<open>i\<close> to its parent.\<close>

definition heapUp :: "queuedEvent list \<Rightarrow> nat \<Rightarrow> bool" where
  "heapUp h i \<longleftrightarrow> (\<forall>j. 0 < j \<and> j < length h \<and> j \<noteq> i \<longrightarrow> above h j) \<and>
     (\<forall>j. 0 < j \<and> j < length h \<and> par j = i \<and> 0 < i \<longrightarrow> qkey (h ! par i) \<le> qkey (h ! j))"

text \<open>All edges are in order but those from \<open>i\<close> to its children.\<close>

definition heapDown :: "queuedEvent list \<Rightarrow> nat \<Rightarrow> bool" where
  "heapDown h i \<longleftrightarrow> (\<forall>j. 0 < j \<and> j < length h \<and> par j \<noteq> i \<longrightarrow> above h j) \<and>
     (\<forall>j. 0 < j \<and> j < length h \<and> par j = i \<and> 0 < i \<longrightarrow> qkey (h ! par i) \<le> qkey (h ! j))"

lemma nth_swap:
  "i < length xs \<Longrightarrow> j < length xs \<Longrightarrow>
   swap xs i j ! k = (if k = j then xs ! i else if k = i then xs ! j else xs ! k)"
  by (simp add: swap_def nth_list_update)

lemma mset_swapped: "i < length xs \<Longrightarrow> j < length xs \<Longrightarrow> mset (swap xs i j) = mset xs"
  by (simp add: swap_def mset_swap)

lemma heapUp_step:
  assumes up: "heapUp h i" and i: "0 < i" "i < length h" and lt: "less (h ! i) (h ! par i)"
  shows "heapUp (swap h i (par i)) (par i)"
proof -
  let ?p = "par i" let ?h = "swap h i ?p"
  have p: "?p < i" using i by simp
  then have pl: "?p < length h" using i(2) by (rule less_trans)
  note sw = nth_swap [OF i(2) pl]
  have lt': "qkey (h ! i) < qkey (h ! ?p)" using lt by (simp add: less_qkey)
  have edge: "qkey (h ! par j) \<le> qkey (h ! j)" if "0 < j" "j < length h" "j \<noteq> i" for j
    using up that by (auto simp: heapUp_def above_def)
  have child: "qkey (h ! ?p) \<le> qkey (h ! j)" if "0 < j" "j < length h" "par j = i" for j
    using up that i by (auto simp: heapUp_def)
  have 1: "above ?h j" if j: "0 < j" "j < length h" "j \<noteq> ?p" for j
  proof (cases "j = i")
    case True
    then show ?thesis using lt' p by (simp add: above_def sw less_imp_le)
  next
    case False
    then show ?thesis
      using edge [OF j(1,2) False] child [OF j(1,2)] lt' j p by (auto simp: above_def sw order.strict_implies_order)
  qed
  have 2: "qkey (?h ! par ?p) \<le> qkey (?h ! j)" if j: "0 < j" "j < length h" "par j = ?p" "0 < ?p" for j
  proof -
    have a: "par ?p < ?p" and b: "par j < j" by (rule par_less [OF j(4)], rule par_less [OF j(1)])
    have pp: "par ?p \<noteq> ?p" "par ?p \<noteq> i" "j \<noteq> ?p"
      using less_imp_neq [OF a] less_imp_neq [OF less_trans [OF a p]] less_imp_neq [OF b] j(3) by simp_all
    have up2: "qkey (h ! par ?p) \<le> qkey (h ! ?p)" using edge [of ?p] j p pl by simp
    show ?thesis
    proof (cases "j = i")
      case True
      then show ?thesis using up2 pp by (simp add: sw)
    next
      case False
      then show ?thesis using up2 edge [OF j(1,2) False] j pp by (simp add: sw)
    qed
  qed
  show ?thesis using 1 2 by (auto simp: heapUp_def)
qed

lemma siftUp_heap: "heapUp h i \<Longrightarrow> i < length h \<Longrightarrow> heapOk (siftUp h i) \<and> mset (siftUp h i) = mset h"
proof (induction i arbitrary: h rule: less_induct)
  case (less i)
  show ?case
  proof (cases "i = 0 \<or> \<not> Core_Queue.less (h ! i) (h ! par i)")
    case True
    then have "heapOk h" using less.prems by (auto simp: heapUp_def heapOk_def above_def less_qkey not_less)
    then show ?thesis using True siftUp_par [of h i] by simp
  next
    case False
    then have p: "par i < i" by simp
    then have pl: "par i < length h" using less.prems(2) by (rule less_trans)
    have "heapUp (swap h i (par i)) (par i)" using heapUp_step less.prems False by simp
    from less.IH [OF p this] show ?thesis
      using False pl less.prems siftUp_par [of h i] by (simp add: mset_swapped)
  qed
qed

lemma heapDown_step:
  assumes dn: "heapDown h i" and s: "par s = i" "0 < s" "s < length h"
    and lt: "less (h ! s) (h ! i)"
    and min: "\<And>j. 0 < j \<Longrightarrow> j < length h \<Longrightarrow> par j = i \<Longrightarrow> qkey (h ! s) \<le> qkey (h ! j)"
  shows "heapDown (swap h i s) s"
proof -
  let ?h = "swap h i s"
  have lt2: "i < s" using s par_less by blast
  then have i: "i < length h" using s by simp
  note sw = nth_swap [OF i s(3)]
  have lt': "qkey (h ! s) < qkey (h ! i)" using lt by (simp add: less_qkey)
  have edge: "qkey (h ! par j) \<le> qkey (h ! j)" if "0 < j" "j < length h" "par j \<noteq> i" for j
    using dn that by (auto simp: heapDown_def above_def)
  have up: "qkey (h ! par i) \<le> qkey (h ! j)" if "0 < j" "j < length h" "par j = i" "0 < i" for j
    using dn that by (auto simp: heapDown_def)
  have 1: "above ?h j" if j: "0 < j" "j < length h" "par j \<noteq> s" for j
  proof (cases "par j = i")
    case True
    then show ?thesis using min [OF j(1,2) True] lt' lt2 by (auto simp: above_def sw)
  next
    case False
    have js: "j \<noteq> s" using False s by auto
    have "par j < j" by (rule par_less [OF j(1)])
    show ?thesis
    proof (cases "j = i")
      case True
      then show ?thesis using up [OF s(2,3,1)] j False lt2 \<open>par j < j\<close> by (auto simp: above_def sw)
    next
      case ji: False
      then show ?thesis using edge [OF j(1,2) False] js j False by (simp add: above_def sw)
    qed
  qed
  have 2: "qkey (?h ! par s) \<le> qkey (?h ! j)" if j: "0 < j" "j < length h" "par j = s" for j
  proof -
    have "par j < j" by (rule par_less [OF j(1)])
    then have "j \<noteq> s" "j \<noteq> i" using j lt2 by auto
    moreover have "qkey (h ! s) \<le> qkey (h ! j)" using edge [OF j(1,2)] j lt2 by simp
    ultimately show ?thesis using s lt2 by (simp add: sw)
  qed
  show ?thesis using 1 2 by (auto simp: heapDown_def)
qed

lemma siftDown_heap:
  "heapDown h i \<Longrightarrow> heapOk (siftDown h i) \<and> mset (siftDown h i) = mset h"
proof (induction "length h - i" arbitrary: h i rule: less_induct)
  case less
  define s where "s = (if 2 * i + 2 < length h \<and> Core_Queue.less (h ! (2 * i + 2)) (h ! (2 * i + 1)) then 2 * i + 2 else 2 * i + 1)"
  have eq: "siftDown h i = (if length h \<le> 2 * i + 1 \<or> \<not> Core_Queue.less (h ! s) (h ! i) then h else siftDown (swap h i s) s)"
    by (subst siftDown.simps) (simp add: s_def Let_def)
  show ?case
  proof (cases "length h \<le> 2 * i + 1")
    case True
    then have "heapOk h"
      using less.prems par_children by (auto simp: heapDown_def heapOk_def)
    then show ?thesis using True eq by simp
  next
    case len: False
    have s: "par s = i" "0 < s" "s < length h" using len by (auto simp: s_def par_def)
    have min: "qkey (h ! s) \<le> qkey (h ! j)" if "0 < j" "j < length h" "par j = i" for j
      using that par_children [OF that(1), of i] by (auto simp: s_def less_qkey)
    show ?thesis
    proof (cases "Core_Queue.less (h ! s) (h ! i)")
      case False
      then have "qkey (h ! i) \<le> qkey (h ! j)" if "0 < j" "j < length h" "par j = i" for j
        using min [OF that] by (simp add: less_qkey)
      then have "heapOk h" using less.prems by (auto simp: heapDown_def heapOk_def above_def)
      then show ?thesis using False eq by simp
    next
      case True
      have i: "i < length h" using len by simp
      have "heapDown (swap h i s) s" by (rule heapDown_step [OF less.prems s True min])
      then have "heapOk (siftDown (swap h i s) s) \<and> mset (siftDown (swap h i s) s) = mset (swap h i s)"
        using less.hyps [of "swap h i s" s] s par_less [OF s(2)] by simp
      then show ?thesis using True len eq i s by (simp add: mset_swapped)
    qed
  qed
qed

lemma heap_root:
  assumes "heapOk h" shows "j < length h \<Longrightarrow> qkey (h ! 0) \<le> qkey (h ! j)"
proof (induction j rule: less_induct)
  case (less j)
  show ?case
  proof (cases "j = 0")
    case False
    then have "par j < j" by simp
    moreover have "qkey (h ! par j) \<le> qkey (h ! j)" using assms False less.prems by (auto simp: heapOk_def above_def)
    ultimately show ?thesis using less.IH [of "par j"] less.prems by (meson order_trans less_trans)
  qed simp
qed

lemma heapUp_append: "heapOk h \<Longrightarrow> heapUp (h @ [x]) (length h)"
proof -
  assume ok: "heapOk h"
  have "above (h @ [x]) j" if "0 < j" "j < length h" for j
  proof -
    have "par j < length h" using par_less [OF that(1)] that(2) by (rule less_trans)
    then show ?thesis using ok that by (auto simp: heapOk_def above_def nth_append)
  qed
  moreover have False if "0 < j" "j < Suc (length h)" "par j = length h" for j
    using that par_less [OF that(1)] by simp
  ultimately show ?thesis by (auto simp: heapUp_def)
qed

lemma heapDown_root: "heapOk h \<Longrightarrow> n \<le> length h \<Longrightarrow> heapDown (take n (h[0 := x])) 0"
proof -
  assume ok: "heapOk h" and n: "n \<le> length h"
  have "above (take n (h[0 := x])) j" if "0 < j" "j < n" "par j \<noteq> 0" for j
  proof -
    have "par j < n" using par_less [OF that(1)] that(2) by (rule less_trans)
    then show ?thesis using ok that n by (auto simp: heapOk_def above_def)
  qed
  then show ?thesis by (auto simp: heapDown_def)
qed

section \<open>The contract of a dispatch queue\<close>

text \<open>A queue is the list of its items in dispatch order; \<open>put\<close> inserts by key, \<open>get\<close> takes the first.
  \<open>room\<close> says that the insertion counter has not run out.\<close>

locale dispatch_queue =
  fixes wf :: "'q \<Rightarrow> bool"
    and room :: "'q \<Rightarrow> bool"
    and pending :: "'q \<Rightarrow> 'x list"
    and key :: "'x \<Rightarrow> 'k :: linorder"
    and payload :: "'x \<Rightarrow> 'e"
    and item :: "'q \<Rightarrow> 'e \<Rightarrow> 'x"
    and put :: "'e \<Rightarrow> 'q \<Rightarrow> 'q"
    and get :: "'q \<Rightarrow> ('e \<times> 'q) option"
  assumes sorted_pending: "wf q \<Longrightarrow> sorted (map key (pending q))"
    and distinct_pending: "wf q \<Longrightarrow> distinct (map key (pending q))"
    and payload_item: "payload (item q e) = e"
    and put_wf: "wf q \<Longrightarrow> room q \<Longrightarrow> wf (put e q)"
    and put_pending: "wf q \<Longrightarrow> room q \<Longrightarrow> pending (put e q) = insort_key key (item q e) (pending q)"
    and get_None: "wf q \<Longrightarrow> get q = None \<longleftrightarrow> pending q = []"
    and get_Some: "wf q \<Longrightarrow> get q = Some (e, q') \<Longrightarrow> wf q' \<and> (\<exists>x. payload x = e \<and> pending q = x # pending q')"
begin

lemma get_first:
  assumes "wf q" "get q = Some (e, q')"
  obtains x where "payload x = e" "pending q = x # pending q'" "\<And>y. y \<in> set (pending q') \<Longrightarrow> key x < key y"
proof -
  obtain x where x: "payload x = e" "pending q = x # pending q'" using get_Some [OF assms] by blast
  have "key x < key y" if "y \<in> set (pending q')" for y
    using sorted_pending [OF assms(1)] distinct_pending [OF assms(1)] that x(2) by (auto simp: order.strict_iff_order)
  then show ?thesis using that x by blast
qed

lemma get_length: "wf q \<Longrightarrow> get q = Some (e, q') \<Longrightarrow> length (pending q) = Suc (length (pending q'))"
  using get_Some [of q e q'] by auto

lemma put_length: "wf q \<Longrightarrow> room q \<Longrightarrow> length (pending (put e q)) = Suc (length (pending q))"
  by (simp add: put_pending)

text \<open>Taking everything out gives the items in key order.\<close>

fun drain :: "nat \<Rightarrow> 'q \<Rightarrow> 'e list" where
  "drain 0 q = []"
| "drain (Suc n) q = (case get q of None \<Rightarrow> [] | Some (e, q') \<Rightarrow> e # drain n q')"

lemma drain_all: "wf q \<Longrightarrow> drain (length (pending q)) q = map payload (pending q)"
proof (induction "length (pending q)" arbitrary: q)
  case 0
  then show ?case by simp
next
  case (Suc n)
  then obtain e q' where g: "get q = Some (e, q')" using get_None [of q] by (cases "get q") auto
  from get_Some [OF Suc.prems g] obtain x where x: "wf q'" "payload x = e" "pending q = x # pending q'" by blast
  then show ?case using Suc.hyps(1) [of q'] Suc.hyps(2) g by simp
qed

end

section \<open>The heap implements it\<close>

definition mkItem :: "eventQueue \<Rightarrow> Event \<Rightarrow> queuedEvent" where
  "mkItem q e = \<lparr>ev = e, tsNs = UnixNano (toUTC (TsEvent e)), prio = Priority (Kind e), seq = nextID q\<rparr>"

definition itemOk :: "eventQueue \<Rightarrow> queuedEvent \<Rightarrow> bool" where
  "itemOk q x \<longleftrightarrow> tsNs x = UnixNano (TsEvent (ev x)) \<and> prio x = Priority (Kind (ev x)) \<and> seq x < nextID q"

definition qWf :: "eventQueue \<Rightarrow> bool" where
  "qWf q \<longleftrightarrow> heapOk (heap q) \<and> list_all (itemOk q) (heap q) \<and> distinct (map seq (heap q))"

text \<open>What remains of the invariant when the sequence counter wraps: the order of the heap.\<close>

definition hWf :: "eventQueue \<Rightarrow> bool" where
  "hWf q \<longleftrightarrow> heapOk (heap q) \<and>
     list_all (\<lambda>x. tsNs x = UnixNano (TsEvent (ev x)) \<and> prio x = Priority (Kind (ev x))) (heap q)"

lemma qWf_hWf: "qWf q \<Longrightarrow> hWf q"
  by (auto simp: qWf_def hWf_def itemOk_def list_all_iff)

definition qRoom :: "eventQueue \<Rightarrow> bool" where
  "qRoom q \<longleftrightarrow> nextID q \<noteq> - 1"

definition qPending :: "eventQueue \<Rightarrow> queuedEvent list" where
  "qPending q = sort_key qkey (heap q)"

definition qPut :: "Event \<Rightarrow> eventQueue \<Rightarrow> eventQueue" where
  "qPut e q = snd (push e q)"

lemma qkey_distinct: "distinct (map seq xs) \<Longrightarrow> distinct (map qkey xs)"
  by (induction xs) (auto simp: qkey_def dest: unsigned_word_eqI)

lemma pending_unique:
  assumes "distinct (map seq (heap q))" "sorted (map qkey xs)" "mset xs = mset (heap q)"
  shows "qPending q = xs"
proof -
  have d: "distinct (map qkey xs)"
    using qkey_distinct [OF assms(1)] assms(3) by (metis mset_eq_imp_distinct_iff mset_map)
  have d': "distinct (map qkey (qPending q))"
    using qkey_distinct [OF assms(1)] unfolding qPending_def by (metis mset_eq_imp_distinct_iff mset_map mset_sort)
  have s: "set (qPending q) = set xs" using assms(3) by (metis qPending_def mset_sort set_mset_mset)
  have "inj_on qkey (set (qPending q) \<union> set xs)" using d' s by (simp add: distinct_map)
  then show ?thesis
    using d d' s assms(2) by (intro map_sorted_distinct_set_unique [of qkey]) (simp_all add: qPending_def)
qed

lemma pending_mset: "mset (qPending q) = mset (heap q)"
  by (simp add: qPending_def)

lemma push_heap:
  assumes "hWf q"
  shows "heapOk (heap (qPut e q))" "mset (heap (qPut e q)) = add_mset (mkItem q e) (mset (heap q))"
    "nextID (qPut e q) = nextID q + 1"
proof -
  let ?h = "heap q @ [mkItem q e]"
  have h: "heap (qPut e q) = siftUp ?h (length (heap q))" "nextID (qPut e q) = nextID q + 1"
    by (simp_all add: qPut_def push_def nextSeq_def mkItem_def)
  have "heapUp ?h (length (heap q))" using assms by (intro heapUp_append) (simp add: hWf_def)
  from siftUp_heap [OF this] show "heapOk (heap (qPut e q))" "mset (heap (qPut e q)) = add_mset (mkItem q e) (mset (heap q))"
    by (simp_all add: h)
  show "nextID (qPut e q) = nextID q + 1" by (rule h(2))
qed

lemma uint_inc:
  assumes "x \<noteq> (- 1 :: uint64)" shows "uint (x + 1) = uint x + 1"
proof -
  have "uint x \<noteq> uint (- 1 :: uint64)" using assms unsigned_word_eqI by blast
  then have "uint x + 1 < 2 ^ 64" using uint_lt2p [of x] by (simp add: unsigned_minus_1_eq_mask mask_eq_exp_minus_1)
  then show ?thesis by (simp add: uint_word_ariths)
qed

lemma word_less_inc: "x \<noteq> (- 1 :: uint64) \<Longrightarrow> y < x \<Longrightarrow> y < x + 1" "x \<noteq> (- 1 :: uint64) \<Longrightarrow> x < x + 1"
  by (simp_all add: word_less_def uint_inc)

lemma set_mset_heap: "mset xs = add_mset x (mset ys) \<Longrightarrow> list_all P xs \<longleftrightarrow> P x \<and> list_all P ys"
  using mset_eq_setD [of xs "x # ys"] by (simp add: list_all_iff)

lemma qPut_wf:
  assumes wf: "qWf q" and room: "qRoom q"
  shows "qWf (qPut e q)"
proof -
  let ?q = "qPut e q"
  have nx: "nextID ?q = nextID q + 1" and ne: "nextID q \<noteq> - 1" using push_heap(3) [OF qWf_hWf [OF wf]] room by (simp_all add: qRoom_def)
  have old: "itemOk ?q x" if "itemOk q x" for x
    using that word_less_inc(1) [OF ne] by (auto simp: itemOk_def nx)
  have new: "itemOk ?q (mkItem q e)" using word_less_inc(2) [OF ne] by (simp add: itemOk_def mkItem_def nx)
  have all: "list_all (itemOk ?q) (heap ?q)"
    using set_mset_heap [OF push_heap(2) [OF qWf_hWf [OF wf], of e], of "itemOk ?q"] new old wf by (auto simp: qWf_def list_all_iff)
  have "nextID q \<notin> set (map seq (heap q))" using wf by (auto simp: qWf_def list_all_iff itemOk_def)
  then have "distinct (map seq (mkItem q e # heap q))" using wf by (simp add: qWf_def mkItem_def)
  moreover have "mset (map seq (heap ?q)) = mset (map seq (mkItem q e # heap q))"
    using push_heap(2) [OF qWf_hWf [OF wf], of e] by (metis mset.simps(2) mset_map)
  ultimately have "distinct (map seq (heap ?q))" by (metis mset_eq_imp_distinct_iff)
  then show ?thesis using all push_heap(1) [OF qWf_hWf [OF wf], of e] by (simp add: qWf_def)
qed

lemma qPut_pending:
  assumes wf: "qWf q" and room: "qRoom q"
  shows "qPending (qPut e q) = insort_key qkey (mkItem q e) (qPending q)"
proof (rule pending_unique)
  show "distinct (map seq (heap (qPut e q)))" using qPut_wf [OF assms] by (simp add: qWf_def)
  show "sorted (map qkey (insort_key qkey (mkItem q e) (qPending q)))"
    by (simp add: sorted_insort_key qPending_def)
  show "mset (insort_key qkey (mkItem q e) (qPending q)) = mset (heap (qPut e q))"
    by (simp add: push_heap(2) [OF qWf_hWf [OF wf]] pending_mset)
qed

lemma pop_None: "pop q = None \<longleftrightarrow> qPending q = []"
  by (simp add: pop_def qPending_def Let_def)

lemma pop_heap:
  assumes wf: "hWf q" and p: "pop q = Some (e, q')"
  obtains x where "ev x = e" "mset (heap q) = add_mset x (mset (heap q'))" "heapOk (heap q')"
    and "\<And>y. y \<in> set (heap q) \<Longrightarrow> qkey x \<le> qkey y" "nextID q' = nextID q"
proof -
  let ?h = "heap q" let ?n = "length ?h" let ?t = "take (?n - 1) (?h[0 := ?h ! (?n - 1)])"
  have ne: "?h \<noteq> []" using p by (auto simp: pop_def Let_def)
  have eq: "e = ev (?h ! 0)" "heap q' = (if ?t \<noteq> [] then siftDown ?t 0 else ?t)" "nextID q' = nextID q"
    using p ne by (auto simp: pop_def Let_def split: if_splits)
  have ok: "heapOk ?h" using wf by (simp add: hWf_def)
  have down: "heapDown ?t 0" by (rule heapDown_root [OF ok]) simp
  have sift: "heapOk (heap q')" "mset (heap q') = mset ?t"
    using siftDown_heap [OF down] eq(2) by (auto simp: heapOk_def)
  have "mset ?h = add_mset (?h ! 0) (mset ?t)"
  proof (cases "?n = 1")
    case True
    then show ?thesis using ne by (cases ?h) auto
  next
    case False
    then obtain x xs y where h: "?h = x # xs @ [y]" using ne by (metis append_butlast_last_id length_Cons list.exhaust list.size(3) One_nat_def)
    then show ?thesis by (simp add: nth_append take_Cons')
  qed
  moreover have "qkey (?h ! 0) \<le> qkey y" if "y \<in> set ?h" for y
    using that heap_root [OF ok] by (auto simp: in_set_conv_nth)
  ultimately show ?thesis using that [of "?h ! 0"] eq sift by simp
qed

lemma qPut_hWf:
  assumes "hWf q" shows "hWf (qPut e q)"
  using push_heap(1) [OF assms, of e] set_mset_heap [OF push_heap(2) [OF assms, of e]] assms
  by (simp add: hWf_def mkItem_def)

lemma pop_hWf:
  assumes "hWf q" "pop q = Some (e, q')" shows "hWf q'"
proof -
  obtain x where "mset (heap q) = add_mset x (mset (heap q'))" "heapOk (heap q')" using pop_heap [OF assms] by metis
  then show ?thesis using assms(1) set_mset_heap [of "heap q" x "heap q'"] by (simp add: hWf_def)
qed

lemma pop_Some:
  assumes wf: "qWf q" and p: "pop q = Some (e, q')"
  shows "qWf q' \<and> (\<exists>x. ev x = e \<and> qPending q = x # qPending q')"
proof -
  obtain x where x: "ev x = e" "mset (heap q) = add_mset x (mset (heap q'))" "heapOk (heap q')"
    "\<And>y. y \<in> set (heap q) \<Longrightarrow> qkey x \<le> qkey y" "nextID q' = nextID q" using pop_heap [OF qWf_hWf [OF wf] p] by metis
  have "mset (map seq (heap q)) = mset (map seq (x # heap q'))" using x(2) by (metis mset.simps(2) mset_map)
  then have d: "distinct (map seq (x # heap q'))" using wf by (metis mset_eq_imp_distinct_iff qWf_def)
  have all: "list_all (itemOk q') (heap q')"
    using set_mset_heap [OF x(2), of "itemOk q"] wf x(5) by (auto simp: qWf_def list_all_iff itemOk_def)
  have w': "qWf q'" using all d x(3) by (simp add: qWf_def)
  have "set (heap q') \<subseteq> set (heap q)" using x(2) by (metis mset.simps(2) mset_eq_setD set_subset_Cons)
  then have "sorted (map qkey (x # qPending q'))" using x(4) by (auto simp: qPending_def)
  then have "qPending q = x # qPending q'"
    using wf x(2) by (intro pending_unique) (simp_all add: qWf_def pending_mset)
  then show ?thesis using w' x(1) by blast
qed

interpretation event_heap: dispatch_queue qWf qRoom qPending qkey ev mkItem qPut pop
proof
  fix q e q'
  show "qWf q \<Longrightarrow> sorted (map qkey (qPending q))" by (simp add: qPending_def)
  show "qWf q \<Longrightarrow> distinct (map qkey (qPending q))"
    using qkey_distinct [of "heap q"] unfolding qWf_def qPending_def
    by (metis mset_eq_imp_distinct_iff mset_map mset_sort)
  show "ev (mkItem q e) = e" by (simp add: mkItem_def)
qed (auto simp: qPut_wf qPut_pending pop_None dest: pop_Some)

lemma newEventQueue_wf: "qWf newEventQueue" "qPending newEventQueue = []"
  by (simp_all add: qWf_def newEventQueue_def heapOk_def qPending_def)

lemma peekTs_first: "qWf q \<Longrightarrow> peekTs q = (case qPending q of [] \<Rightarrow> None | x # _ \<Rightarrow> Some (TsEvent (ev x)))"
proof (cases "pop q")
  case None
  then show ?thesis using pop_None [of q] by (auto simp: peekTs_def qPending_def)
next
  case (Some eq)
  assume wf: "qWf q"
  obtain e q' where eq: "eq = (e, q')" by (cases eq)
  obtain x where "ev x = e" "qPending q = x # qPending q'" using pop_Some [OF wf] Some eq by blast
  moreover have "e = ev (heap q ! 0)" "heap q \<noteq> []" using Some eq by (auto simp: pop_def Let_def split: if_splits)
  ultimately show ?thesis by (simp add: peekTs_def)
qed

section \<open>Properties\<close>

text \<open>C31. The binary heap is a priority queue: pushing inserts the event behind every pending event of an
  equal or smaller (timestamp, kind, sequence) key and before the rest, popping returns the first pending
  event and removes exactly that one, an empty result means nothing was pending, and the heap invariant
  is kept.\<close>

theorem queue_refines_sorted_list:
  assumes "qWf q"
  shows "(qRoom q \<longrightarrow> qWf (snd (push e q)) \<and> qPending (snd (push e q)) = insort_key qkey (mkItem q e) (qPending q)) \<and>
    (pop q = None \<longleftrightarrow> qPending q = []) \<and>
    (\<forall>e' q'. pop q = Some (e', q') \<longrightarrow> qWf q' \<and> (\<exists>x. ev x = e' \<and> qPending q = x # qPending q'))"
  using assms qPut_wf [of q e] qPut_pending [of q e] pop_None [of q] pop_Some [of q]
  by (auto simp: qPut_def)

definition twoEvents :: eventQueue where
  "twoEvents = snd (push (SampleEvent \<lparr>t_ns = 7, t_off = 0\<rparr>) (snd (push (SampleEvent \<lparr>t_ns = 9, t_off = 0\<rparr>) newEventQueue)))"

theorem queue_refines_sorted_list_witness:
  "\<exists>e' q' x. pop twoEvents = Some (e', q') \<and> ev x = e' \<and> qPending twoEvents = x # qPending q' \<and> t_ns (TsEvent e') = 7"
proof -
  have q1: "qWf (snd (push (SampleEvent \<lparr>t_ns = 9, t_off = 0\<rparr>) newEventQueue))" (is "qWf ?q1")
    using queue_refines_sorted_list [OF newEventQueue_wf(1)] by (simp add: qRoom_def newEventQueue_def)
  have "qRoom ?q1" by code_simp
  then have wf: "qWf twoEvents" using queue_refines_sorted_list [OF q1] by (simp add: twoEvents_def)
  have "map_option (t_ns \<circ> TsEvent \<circ> fst) (pop twoEvents) = Some 7" by code_simp
  then obtain e' q' where "pop twoEvents = Some (e', q')" "t_ns (TsEvent e') = 7" by auto
  then show ?thesis using queue_refines_sorted_list [OF wf] by blast
qed

end
