(* ===== verification/Core_Loop.thy ===== *)
theory Core_Loop
  imports Core_Queue
begin

text \<open>
  The clock and the event loops of \<open>internal/core\<close> (\<open>clock.go\<close>, \<open>loop.go\<close>, \<open>stream.go\<close>,
  \<open>msgbus.go\<close>).  Handlers are the arguments of the loop: a handler sees the event, the loop and the
  world \<open>'w\<close> it works on, and returns both updated with its error.  Since handlers may schedule
  forever, the loop takes fuel and returns \<open>None\<close> when it runs out; a run also returns the events it
  dispatched, in order.  Cancellation of the context is observed at event boundaries: \<open>cancel n\<close> is
  what the \<open>n\<close>-th check sees.
\<close>

section \<open>Clock\<close>

definition Advance :: "gotime \<Rightarrow> gotime \<Rightarrow> gotime result" where
  "Advance now t =
     (if t_off t \<noteq> 0 then Inl ErrInvalidArgument
      else if \<not> IsZero now \<and> Before t now then Inl ErrTimeReversal
      else Inr t)"

section \<open>The batch loop\<close>

record Loop =
  lp_clock :: gotime
  lp_queue :: eventQueue
  lp_closed :: bool

definition NewLoop :: Loop where
  "NewLoop = \<lparr>lp_clock = zeroTime, lp_queue = newEventQueue, lp_closed = False\<rparr>"

definition Schedule :: "Loop \<Rightarrow> Event \<Rightarrow> Loop \<times> uint64 result" where
  "Schedule l e =
     (if lp_closed l then (l, Inl ErrLoopClosed)
      else let ts = TsEvent e in
        if t_off ts \<noteq> 0 then (l, Inl ErrTimeReversal)
        else if \<not> IsZero (lp_clock l) \<and> Before ts (lp_clock l) then (l, Inl ErrTimeReversal)
        else let (s, q) = push e (lp_queue l) in (l\<lparr>lp_queue := q\<rparr>, Inr s))"

definition NextSeq :: "Loop \<Rightarrow> uint64 \<times> Loop" where
  "NextSeq l = (let (s, q) = nextSeq (lp_queue l) in (s, l\<lparr>lp_queue := q\<rparr>))"

type_synonym 'w handler = "Event \<Rightarrow> Loop \<Rightarrow> 'w \<Rightarrow> Loop \<times> 'w \<times> unit result"
type_synonym 'w handlers = "(EventKind, 'w handler) gomap"

text \<open>Why a run stopped: the four kinds of error value \<open>Run\<close> returns, or a clean drain.\<close>

datatype stop = Drained | Canceled | ClockError go_error | NoHandler EventKind | HandlerError go_error

type_synonym 'w run = "Loop \<times> 'w \<times> Event list \<times> stop"

definition closeLoop :: "Loop \<Rightarrow> Loop" where
  "closeLoop l = l\<lparr>lp_closed := True\<rparr>"

fun runLoop :: "nat \<Rightarrow> (nat \<Rightarrow> bool) \<Rightarrow> nat \<Rightarrow> 'w handlers \<Rightarrow> Loop \<Rightarrow> 'w \<Rightarrow> 'w run option" where
  "runLoop 0 cancel n hs l w = None"
| "runLoop (Suc k) cancel n hs l w =
     (if cancel n then Some (closeLoop l, w, [], Canceled)
      else case pop (lp_queue l) of
        None \<Rightarrow> Some (closeLoop l, w, [], Drained)
      | Some (e, q) \<Rightarrow>
          (let l1 = l\<lparr>lp_queue := q\<rparr> in
           case Advance (lp_clock l1) (TsEvent e) of
             Inl err \<Rightarrow> Some (closeLoop l1, w, [], ClockError err)
           | Inr now \<Rightarrow>
               (let l2 = l1\<lparr>lp_clock := now\<rparr> in
                case mapGet hs (Kind e) of
                  None \<Rightarrow> Some (closeLoop l2, w, [], NoHandler (Kind e))
                | Some h \<Rightarrow>
                    (case h e l2 w of
                       (l3, w3, Inl err) \<Rightarrow> Some (closeLoop l3, w3, [e], HandlerError err)
                     | (l3, w3, Inr _) \<Rightarrow>
                         map_option (\<lambda>(l4, w4, tr, r). (l4, w4, e # tr, r))
                           (runLoop k cancel (Suc n) hs l3 w3)))))"

definition Run :: "nat \<Rightarrow> (nat \<Rightarrow> bool) \<Rightarrow> 'w handlers \<Rightarrow> Loop \<Rightarrow> 'w \<Rightarrow> 'w run option" where
  "Run fuel cancel hs l w = runLoop fuel cancel 0 hs l w"

section \<open>The streaming loop\<close>

datatype StreamClockMode = StreamWall | StreamVirtual

text \<open>Under \<open>StreamWall\<close> the clock reads the host time \<open>sl_host\<close>, which each delivery carries;
  under \<open>StreamVirtual\<close> it is the instant last set.\<close>

record StreamLoop =
  sl_mode :: StreamClockMode
  sl_virtual :: gotime
  sl_host :: gotime
  sl_queue :: eventQueue
  sl_lastTs :: gotime
  sl_haveLast :: bool
  sl_closed :: bool

definition NewStreamLoop :: "StreamClockMode \<Rightarrow> gotime \<Rightarrow> gotime \<Rightarrow> StreamLoop" where
  "NewStreamLoop mode vc host =
     \<lparr>sl_mode = mode, sl_virtual = toUTC vc, sl_host = host, sl_queue = newEventQueue,
      sl_lastTs = zeroTime, sl_haveLast = False, sl_closed = False\<rparr>"

definition StreamNow :: "StreamLoop \<Rightarrow> gotime" where
  "StreamNow l = (case sl_mode l of StreamWall \<Rightarrow> toUTC (sl_host l) | StreamVirtual \<Rightarrow> sl_virtual l)"

definition clockSet :: "StreamLoop \<Rightarrow> gotime \<Rightarrow> StreamLoop" where
  "clockSet l t = (case sl_mode l of StreamWall \<Rightarrow> l | StreamVirtual \<Rightarrow> l\<lparr>sl_virtual := toUTC t\<rparr>)"

definition StreamSchedule :: "StreamLoop \<Rightarrow> Event \<Rightarrow> StreamLoop \<times> uint64 result" where
  "StreamSchedule l e =
     (if sl_closed l then (l, Inl ErrLoopClosed)
      else let ts = TsEvent e in
        if t_off ts \<noteq> 0 then (l, Inl ErrTimeReversal)
        else if \<not> IsZero (StreamNow l) \<and> Before ts (StreamNow l) then (l, Inl ErrTimeReversal)
        else let (s, q) = push e (sl_queue l) in (l\<lparr>sl_queue := q\<rparr>, Inr s))"

type_synonym 'w stream_handler = "Event \<Rightarrow> StreamLoop \<Rightarrow> 'w \<Rightarrow> StreamLoop \<times> 'w \<times> unit result"
type_synonym 'w stream_handlers = "(EventKind, 'w stream_handler) gomap"

definition dispatch :: "'w stream_handlers \<Rightarrow> StreamLoop \<Rightarrow> 'w \<Rightarrow> Event \<Rightarrow> StreamLoop \<times> 'w \<times> stop option" where
  "dispatch hs l w e =
     (let ts = TsEvent e in
      if t_off ts \<noteq> 0 then (l, w, Some (ClockError ErrTimeReversal))
      else if sl_haveLast l \<and> Before ts (sl_lastTs l) then (l, w, Some (ClockError ErrTimeReversal))
      else let l1 = clockSet (l\<lparr>sl_lastTs := ts, sl_haveLast := True\<rparr>) ts in
        case mapGet hs (Kind e) of
          None \<Rightarrow> (l1, w, Some (NoHandler (Kind e)))
        | Some h \<Rightarrow>
            (case h e l1 w of
               (l2, w2, Inl err) \<Rightarrow> (l2, w2, Some (HandlerError err))
             | (l2, w2, Inr _) \<Rightarrow> (l2, w2, None)))"

text \<open>The event counts as dispatched when its handler ran.\<close>

definition ran :: "Event \<Rightarrow> stop \<Rightarrow> Event list" where
  "ran e r = (case r of HandlerError _ \<Rightarrow> [e] | _ \<Rightarrow> [])"

text \<open>\<open>None\<close> in the last component: the queue was emptied.\<close>

fun drainQueue :: "nat \<Rightarrow> (nat \<Rightarrow> bool) \<Rightarrow> nat \<Rightarrow> 'w stream_handlers \<Rightarrow> StreamLoop \<Rightarrow> 'w \<Rightarrow>
    (StreamLoop \<times> 'w \<times> Event list \<times> stop option) option" where
  "drainQueue 0 cancel n hs l w = None"
| "drainQueue (Suc k) cancel n hs l w =
     (if cancel n then Some (l, w, [], Some Canceled)
      else case pop (sl_queue l) of
        None \<Rightarrow> Some (l, w, [], None)
      | Some (e, q) \<Rightarrow>
          (case dispatch hs (l\<lparr>sl_queue := q\<rparr>) w e of
             (l2, w2, Some r) \<Rightarrow> Some (l2, w2, ran e r, Some r)
           | (l2, w2, None) \<Rightarrow>
               map_option (\<lambda>(l3, w3, tr, r). (l3, w3, e # tr, r)) (drainQueue k cancel (Suc n) hs l2 w2)))"

text \<open>What the \<open>select\<close> receives: an event with the host time at its arrival, or cancellation; the
  list ends where the channel is closed.\<close>

datatype stimulus = Deliver Event gotime | CancelStream

fun runStream :: "nat \<Rightarrow> (nat \<Rightarrow> bool) \<Rightarrow> nat \<Rightarrow> 'w stream_handlers \<Rightarrow> stimulus list \<Rightarrow> StreamLoop \<Rightarrow> 'w \<Rightarrow>
    (StreamLoop \<times> 'w \<times> Event list \<times> stop) option" where
  "runStream fuel cancel n hs [] l w = Some (l\<lparr>sl_closed := True\<rparr>, w, [], Drained)"
| "runStream fuel cancel n hs (CancelStream # ss) l w = Some (l\<lparr>sl_closed := True\<rparr>, w, [], Canceled)"
| "runStream fuel cancel n hs (Deliver e host # ss) l w =
     (case dispatch hs (l\<lparr>sl_host := host\<rparr>) w e of
        (l1, w1, Some r) \<Rightarrow> Some (l1\<lparr>sl_closed := True\<rparr>, w1, ran e r, r)
      | (l1, w1, None) \<Rightarrow>
          (case drainQueue fuel cancel n hs l1 w1 of
             None \<Rightarrow> None
           | Some (l2, w2, tr, Some r) \<Rightarrow> Some (l2\<lparr>sl_closed := True\<rparr>, w2, e # tr, r)
           | Some (l2, w2, tr, None) \<Rightarrow>
               map_option (\<lambda>(l3, w3, tr', r). (l3, w3, e # tr @ tr', r))
                 (runStream fuel cancel (n + Suc (length tr)) hs ss l2 w2)))"

definition RunStream :: "nat \<Rightarrow> (nat \<Rightarrow> bool) \<Rightarrow> 'w stream_handlers \<Rightarrow> stimulus list \<Rightarrow> StreamLoop \<Rightarrow> 'w \<Rightarrow>
    (StreamLoop \<times> 'w \<times> Event list \<times> stop) option" where
  "RunStream fuel cancel hs ss l w = runStream fuel cancel 0 hs ss l w"

section \<open>The message bus\<close>

text \<open>An observer is a step on the world; a message goes to the observers in registration order.\<close>

record 'w MsgBus =
  fillObs :: "(Fill \<Rightarrow> 'w \<Rightarrow> 'w) list"
  barObs :: "(Bar \<Rightarrow> 'w \<Rightarrow> 'w) list"

definition NewMsgBus :: "'w MsgBus" where
  "NewMsgBus = \<lparr>fillObs = [], barObs = []\<rparr>"

definition SubscribeFills :: "(Fill \<Rightarrow> 'w \<Rightarrow> 'w) \<Rightarrow> 'w MsgBus \<Rightarrow> 'w MsgBus" where
  "SubscribeFills ob b = b\<lparr>fillObs := fillObs b @ [ob]\<rparr>"

definition SubscribeBars :: "(Bar \<Rightarrow> 'w \<Rightarrow> 'w) \<Rightarrow> 'w MsgBus \<Rightarrow> 'w MsgBus" where
  "SubscribeBars ob b = b\<lparr>barObs := barObs b @ [ob]\<rparr>"

definition PublishFill :: "'w MsgBus \<Rightarrow> Fill \<Rightarrow> 'w \<Rightarrow> 'w" where
  "PublishFill b f w = fold (\<lambda>ob. ob f) (fillObs b) w"

definition PublishBar :: "'w MsgBus \<Rightarrow> Bar \<Rightarrow> 'w \<Rightarrow> 'w" where
  "PublishBar b bar w = fold (\<lambda>ob. ob bar) (barObs b) w"

section \<open>What handlers may do to the loop\<close>

text \<open>A handler for an event of kind \<open>k\<close> schedules events of later kinds only, with timestamps in the
  range of \<open>UnixNano\<close>, and draws sequence numbers.\<close>

inductive schedulesAfter :: "EventKind \<Rightarrow> Loop \<Rightarrow> Loop \<Rightarrow> bool" for k :: EventKind where
  sa_refl: "schedulesAfter k l l"
| sa_sched: "schedulesAfter k l l1 \<Longrightarrow> Schedule l1 e = (l2, Inr s) \<Longrightarrow> inNanoRange (TsEvent e) \<Longrightarrow> Priority k < Priority (Kind e) \<Longrightarrow> schedulesAfter k l l2"
| sa_seq: "schedulesAfter k l l1 \<Longrightarrow> schedulesAfter k l (snd (NextSeq l1))"

definition evKey :: "Event \<Rightarrow> int \<times> int" where
  "evKey e = (t_ns (TsEvent e), uint (Priority (Kind e)))"

definition evOk :: "int \<times> int \<Rightarrow> Event \<Rightarrow> bool" where
  "evOk b e \<longleftrightarrow> t_off (TsEvent e) = 0 \<and> inNanoRange (TsEvent e) \<and> b \<le> evKey e"

definition loopInv :: "int \<times> int \<Rightarrow> Loop \<Rightarrow> bool" where
  "loopInv b l \<longleftrightarrow> hWf (lp_queue l) \<and> (\<forall>x \<in> set (heap (lp_queue l)). evOk b (ev x)) \<and>
     (IsZero (lp_clock l) \<or> t_ns (lp_clock l) \<le> fst b)"

lemma heap_qPut:
  "hWf q \<Longrightarrow> set (heap (qPut e q)) = insert (mkItem q e) (set (heap q))"
  using push_heap(2) [of q e] by (metis set_mset_mset set_mset_add_mset_insert)

lemma Schedule_ok:
  "Schedule l e = (l', Inr s) \<longleftrightarrow>
     \<not> lp_closed l \<and> t_off (TsEvent e) = 0 \<and> (IsZero (lp_clock l) \<or> t_ns (lp_clock l) \<le> t_ns (TsEvent e)) \<and>
     l' = l\<lparr>lp_queue := qPut e (lp_queue l)\<rparr> \<and> s = nextID (lp_queue l)"
  by (auto simp: Schedule_def Let_def Before_def not_less qPut_def push_def nextSeq_def split: if_splits)

lemma nextSeq_wf: "hWf q \<Longrightarrow> hWf (snd (nextSeq q))"
  by (simp add: hWf_def nextSeq_def)

lemma NextSeq_loop: "snd (NextSeq l) = l\<lparr>lp_queue := snd (nextSeq (lp_queue l))\<rparr>"
  by (simp add: NextSeq_def nextSeq_def)

definition rank :: "EventKind \<Rightarrow> nat" where
  "rank k = (case k of KindBar \<Rightarrow> 2 | KindFill \<Rightarrow> 1 | KindSample \<Rightarrow> 0)"

lemma Priority_rank: "Priority k < Priority k' \<longleftrightarrow> rank k' < rank k"
  by (cases k; cases k') (simp_all add: rank_def)

definition load :: "Loop \<Rightarrow> nat multiset" where
  "load l = image_mset (\<lambda>x. rank (Kind (ev x))) (mset (heap (lp_queue l)))"

lemma load_put: "hWf (lp_queue l) \<Longrightarrow> load (l\<lparr>lp_queue := qPut e (lp_queue l)\<rparr>) = add_mset (rank (Kind e)) (load l)"
  by (simp add: load_def push_heap(2) mkItem_def)

text \<open>Everything scheduled while an event is handled comes after it.\<close>

lemma schedulesAfter_keeps:
  assumes "schedulesAfter k l l'" "loopInv b l" "\<not> IsZero (lp_clock l)" "b = (t_ns (lp_clock l), uint (Priority k))"
  shows "loopInv b l' \<and> lp_clock l' = lp_clock l \<and> (\<exists>K. load l' = load l + K \<and> (\<forall>r \<in># K. r < rank k))"
  using assms
proof (induction rule: schedulesAfter.induct)
  case (sa_refl l)
  then show ?case by (intro conjI exI [of _ "{#}"]) auto
next
  case (sa_sched l l1 e l2 s)
  then obtain K where IH: "loopInv b l1" "lp_clock l1 = lp_clock l" "load l1 = load l + K" "\<forall>r \<in># K. r < rank k" by auto
  have sch: "t_off (TsEvent e) = 0" "t_ns (lp_clock l) \<le> t_ns (TsEvent e)"
    and l2: "l2 = l1\<lparr>lp_queue := qPut e (lp_queue l1)\<rparr>"
    using sa_sched.hyps(2) sa_sched.prems(2) IH(2) by (auto simp: Schedule_ok)
  have wf: "hWf (lp_queue l1)" using IH(1) by (simp add: loopInv_def)
  have "evOk b e"
    using sch sa_sched.hyps(3,4) sa_sched.prems(3)
    by (auto simp: evOk_def evKey_def less_eq_prod_def word_less_def)
  then have "loopInv b l2"
    using IH(1) by (auto simp: loopInv_def l2 heap_qPut [OF wf] qPut_hWf mkItem_def)
  moreover have "load l2 = load l + add_mset (rank (Kind e)) K" by (simp add: l2 load_put [OF wf] IH(3))
  moreover have "\<forall>r \<in># add_mset (rank (Kind e)) K. r < rank k"
    using IH(4) sa_sched.hyps(4) by (simp add: Priority_rank)
  ultimately show ?case using IH(2) l2 by auto
next
  case (sa_seq l l1)
  then obtain K where IH: "loopInv b l1" "lp_clock l1 = lp_clock l" "load l1 = load l + K" "\<forall>r \<in># K. r < rank k" by auto
  have h: "heap (snd (nextSeq q)) = heap q" for q by (simp add: nextSeq_def)
  have "loopInv b (snd (NextSeq l1))"
    using IH(1) by (simp add: loopInv_def NextSeq_loop nextSeq_wf h)
  moreover have "load (snd (NextSeq l1)) = load l1" by (simp add: load_def NextSeq_loop h)
  ultimately show ?case using IH by (auto simp: NextSeq_loop)
qed

lemma pop_step:
  assumes inv: "loopInv b l" and p: "pop (lp_queue l) = Some (e, q)"
  defines "l2 \<equiv> l\<lparr>lp_queue := q, lp_clock := TsEvent e\<rparr>"
  shows "Advance (lp_clock l) (TsEvent e) = Inr (TsEvent e)" and "b \<le> evKey e" and "loopInv (evKey e) l2"
    and "\<not> IsZero (TsEvent e)" and "load l = add_mset (rank (Kind e)) (load l2)"
proof -
  have wf: "hWf (lp_queue l)" using inv by (simp add: loopInv_def)
  obtain x where x: "ev x = e" "mset (heap (lp_queue l)) = add_mset x (mset (heap q))"
    "\<And>y. y \<in> set (heap (lp_queue l)) \<Longrightarrow> qkey x \<le> qkey y" using pop_heap [OF wf p] by metis
  have wf': "hWf q" by (rule pop_hWf [OF wf p])
  have set: "set (heap (lp_queue l)) = insert x (set (heap q))" using x(2) by (metis set_mset_mset set_mset_add_mset_insert)
  have ok: "evOk b (ev y)" if "y \<in> set (heap (lp_queue l))" for y using inv that by (simp add: loopInv_def)
  have xk: "evOk b e" using ok [of x] set x(1) by simp
  have key: "qkey y = (t_ns (TsEvent (ev y)), uint (Priority (Kind (ev y))), uint (seq y))"
    if "y \<in> set (heap (lp_queue l))" for y
    using that wf ok [OF that] by (auto simp: qkey_def hWf_def list_all_iff evOk_def sint_UnixNano)
  have "evOk (evKey e) (ev y)" if "y \<in> set (heap q)" for y
    using x(3) [of y] key [of x] key [of y] ok [of y] that set x(1)
    by (auto simp: evOk_def evKey_def less_eq_prod_def split: if_splits)
  then show "loopInv (evKey e) l2" using wf' by (simp add: loopInv_def l2_def evKey_def)
  show "b \<le> evKey e" using xk by (simp add: evOk_def)
  then have "fst b \<le> t_ns (TsEvent e)" by (cases b) (auto simp: evKey_def less_eq_prod_def)
  then show "Advance (lp_clock l) (TsEvent e) = Inr (TsEvent e)"
    using inv xk by (auto simp: Advance_def evOk_def loopInv_def Before_def)
  show "\<not> IsZero (TsEvent e)" using xk by (auto simp: evOk_def inNanoRange_def IsZero_def zeroTime_def fits64_def)
  show "load l = add_mset (rank (Kind e)) (load l2)" using x(1,2) by (simp add: load_def l2_def)
qed

section \<open>The contract of the registered handlers\<close>

locale event_handlers =
  fixes hs :: "'w handlers"
  assumes later: "mapGet hs k = Some h \<Longrightarrow> Kind e = k \<Longrightarrow> h e l w = (l', w', r) \<Longrightarrow> schedulesAfter k l l'"
    and complete: "mapGet hs k \<noteq> None"
begin

lemma step:
  assumes "loopInv b l" "pop (lp_queue l) = Some (e, q)" "mapGet hs (Kind e) = Some h"
    and "h e (l\<lparr>lp_queue := q, lp_clock := TsEvent e\<rparr>) w = (l3, w3, r)"
  shows "loopInv (evKey e) l3" and "\<exists>K M. load l = add_mset (rank (Kind e)) M \<and> load l3 = M + K \<and> (\<forall>i \<in># K. i < rank (Kind e))"
proof -
  note P = pop_step [OF assms(1,2)]
  have S: "schedulesAfter (Kind e) (l\<lparr>lp_queue := q, lp_clock := TsEvent e\<rparr>) l3" using later [OF assms(3) refl assms(4)] .
  from schedulesAfter_keeps [OF S P(3)] P(4,5)
  show "loopInv (evKey e) l3" and "\<exists>K M. load l = add_mset (rank (Kind e)) M \<and> load l3 = M + K \<and> (\<forall>i \<in># K. i < rank (Kind e))"
    by (auto simp: evKey_def)
qed

text \<open>Dispatch order: events leave in order of (timestamp, kind), and the clock never stops a run.\<close>

lemma run_ordered:
  "loopInv b l \<Longrightarrow> runLoop k cancel n hs l w = Some (l', w', tr, r) \<Longrightarrow>
   sorted (map evKey tr) \<and> (\<forall>e \<in> set tr. b \<le> evKey e) \<and> (\<forall>err. r \<noteq> ClockError err) \<and> (\<forall>kd. r \<noteq> NoHandler kd) \<and> lp_closed l'"
proof (induction k arbitrary: b n l w l' w' tr r)
  case (Suc k)
  show ?case
  proof (cases "cancel n \<or> pop (lp_queue l) = None")
    case True
    then show ?thesis using Suc.prems by (cases "cancel n") (auto simp: closeLoop_def)
  next
    case False
    then obtain e q where p: "pop (lp_queue l) = Some (e, q)" by auto
    obtain h where h: "mapGet hs (Kind e) = Some h" using complete by auto
    note P = pop_step [OF Suc.prems(1) p]
    obtain l3 w3 r3 where st: "h e (l\<lparr>lp_queue := q, lp_clock := TsEvent e\<rparr>) w = (l3, w3, r3)"
      by (metis prod_cases3)
    note I = step(1) [OF Suc.prems(1) p h st]
    show ?thesis
    proof (cases r3)
      case (Inl err)
      then show ?thesis using Suc.prems(2) False p P h st by (auto simp: closeLoop_def)
    next
      case (Inr u)
      then obtain tr' where run: "runLoop k cancel (Suc n) hs l3 w3 = Some (l', w', tr', r)" "tr = e # tr'"
        using Suc.prems(2) False p P h st by auto
      from Suc.IH [OF I run(1)] show ?thesis using P(2) run(2) by (auto intro: order_trans)
    qed
  qed
qed simp

text \<open>Handlers that only schedule later kinds cannot keep the loop busy forever.\<close>

lemma run_terminates:
  assumes "loopInv b l" shows "\<exists>k res. runLoop k cancel n hs l w = Some res"
  using wf_mult1 [OF wf_less_than] assms
proof (induction "load l" arbitrary: b l n w rule: wf_induct_rule)
  case less
  show ?case
  proof (cases "cancel n \<or> pop (lp_queue l) = None")
    case True
    then have "runLoop (Suc 0) cancel n hs l w \<noteq> None" by auto
    then show ?thesis by blast
  next
    case False
    then obtain e q where p: "pop (lp_queue l) = Some (e, q)" by auto
    obtain h where h: "mapGet hs (Kind e) = Some h" using complete by auto
    obtain l3 w3 r3 where st: "h e (l\<lparr>lp_queue := q, lp_clock := TsEvent e\<rparr>) w = (l3, w3, r3)"
      by (metis prod_cases3)
    have "(load l3, load l) \<in> mult1 less_than"
      using step(2) [OF less.prems p h st] by (auto simp: mult1_def)
    from less.hyps [OF this step(1) [OF less.prems p h st]]
    obtain k res where run: "runLoop k cancel (Suc n) hs l3 w3 = Some res" by blast
    obtain l4 w4 tr rr where "res = (l4, w4, tr, rr)" by (cases res) auto
    with run have "runLoop (Suc k) cancel n hs l w \<noteq> None"
      using False p h st pop_step(1) [OF less.prems p] by (cases r3) auto
    then show ?thesis by blast
  qed
qed

end


section \<open>The streaming loop\<close>

definition tsOf :: "Event \<Rightarrow> int" where
  "tsOf e = t_ns (TsEvent e)"

text \<open>Handlers leave the loop's record of the last timestamp alone.\<close>

definition keepsLast :: "'w stream_handlers \<Rightarrow> bool" where
  "keepsLast hs \<longleftrightarrow> (\<forall>k h e l w l' w' r. mapGet hs k = Some h \<longrightarrow> h e l w = (l', w', r) \<longrightarrow>
     sl_lastTs l' = sl_lastTs l \<and> sl_haveLast l' = sl_haveLast l)"

definition streamAt :: "int \<Rightarrow> StreamLoop \<Rightarrow> bool" where
  "streamAt b l \<longleftrightarrow> sl_haveLast l \<longrightarrow> b \<le> t_ns (sl_lastTs l)"

definition lastIs :: "Event \<Rightarrow> StreamLoop \<Rightarrow> bool" where
  "lastIs e l \<longleftrightarrow> sl_haveLast l \<and> t_ns (sl_lastTs l) = tsOf e"

lemma dispatch_last:
  assumes "keepsLast hs" "dispatch hs l w e = (l', w', r)"
  shows "r = None \<or> (\<exists>err. r = Some (HandlerError err)) \<Longrightarrow> lastIs e l' \<and> (sl_haveLast l \<longrightarrow> t_ns (sl_lastTs l) \<le> tsOf e)"
proof -
  assume ran: "r = None \<or> (\<exists>err. r = Some (HandlerError err))"
  let ?l1 = "clockSet (l\<lparr>sl_lastTs := TsEvent e, sl_haveLast := True\<rparr>) (TsEvent e)"
  have ok: "\<not> (sl_haveLast l \<and> Before (TsEvent e) (sl_lastTs l))" "t_off (TsEvent e) = 0"
    using assms(2) ran by (auto simp: dispatch_def Let_def split: if_splits)
  obtain h where h: "mapGet hs (Kind e) = Some h"
    using assms(2) ran ok by (auto simp: dispatch_def Let_def split: option.splits)
  obtain l2 w2 r2 where st: "h e ?l1 w = (l2, w2, r2)" by (metis prod_cases3)
  have "l' = l2" using assms(2) ok h st by (auto simp: dispatch_def Let_def split: sum.splits)
  moreover have "sl_lastTs l2 = sl_lastTs ?l1" "sl_haveLast l2 = sl_haveLast ?l1"
    using assms(1) h st unfolding keepsLast_def by blast+
  moreover have "sl_lastTs ?l1 = TsEvent e" "sl_haveLast ?l1"
    by (simp_all add: clockSet_def split: StreamClockMode.splits)
  ultimately show ?thesis using ok by (auto simp: lastIs_def tsOf_def Before_def)
qed

definition orderedFrom :: "StreamLoop \<Rightarrow> Event list \<Rightarrow> bool" where
  "orderedFrom l tr \<longleftrightarrow> sorted (map tsOf tr) \<and> (sl_haveLast l \<longrightarrow> (\<forall>e \<in> set tr. t_ns (sl_lastTs l) \<le> tsOf e))"

lemma orderedFrom_Cons:
  assumes "lastIs e l'" "sl_haveLast l \<longrightarrow> t_ns (sl_lastTs l) \<le> tsOf e" "orderedFrom l' tr"
  shows "orderedFrom l (e # tr)"
  using assms by (auto simp: orderedFrom_def lastIs_def intro: order_trans)

lemma orderedFrom_Nil [simp]: "orderedFrom l []"
  by (simp add: orderedFrom_def)

text \<open>The loop is where the last dispatched event left it.\<close>

definition endsAt :: "StreamLoop \<Rightarrow> Event list \<Rightarrow> StreamLoop \<Rightarrow> bool" where
  "endsAt l tr l' \<longleftrightarrow> (if tr = [] then sl_haveLast l' = sl_haveLast l \<and> sl_lastTs l' = sl_lastTs l else lastIs (last tr) l')"

lemma orderedFrom_append:
  assumes "orderedFrom l tr" "endsAt l tr l'" "orderedFrom l' tr'"
  shows "orderedFrom l (tr @ tr')"
proof (cases "tr = []")
  case False
  have last: "lastIs (last tr) l'" using assms(2) False by (simp add: endsAt_def)
  have split: "butlast tr @ [last tr] = tr" using False by simp
  then have "sorted (map tsOf (butlast tr @ [last tr]))" using assms(1) by (simp add: orderedFrom_def)
  then have "\<forall>x \<in> set (butlast tr @ [last tr]). tsOf x \<le> tsOf (last tr)" by (auto simp: sorted_append)
  then have le: "tsOf x \<le> tsOf (last tr)" if "x \<in> set tr" for x using that split by simp
  show ?thesis using assms(1,3) last le last_in_set [OF False]
    by (auto simp: orderedFrom_def sorted_append lastIs_def intro: order_trans)
qed (use assms in \<open>auto simp: orderedFrom_def endsAt_def\<close>)

lemma ran_ordered:
  assumes "keepsLast hs" "dispatch hs l w e = (l', w', Some r)"
  shows "orderedFrom l (ran e r)"
  using dispatch_last [OF assms] by (cases r) (auto simp: ran_def orderedFrom_def)

lemma drainQueue_ordered:
  "keepsLast hs \<Longrightarrow> drainQueue k cancel n hs l w = Some (l', w', tr, r) \<Longrightarrow>
   orderedFrom l tr \<and> (r = None \<longrightarrow> endsAt l tr l')"
proof (induction k arbitrary: n l w l' w' tr r)
  case (Suc k)
  show ?case
  proof (cases "cancel n \<or> pop (sl_queue l) = None")
    case True
    then show ?thesis using Suc.prems by (cases "cancel n") (auto simp: endsAt_def)
  next
    case False
    then obtain e q where p: "pop (sl_queue l) = Some (e, q)" by auto
    obtain l2 w2 r2 where d: "dispatch hs (l\<lparr>sl_queue := q\<rparr>) w e = (l2, w2, r2)" by (metis prod_cases3)
    show ?thesis
    proof (cases r2)
      case (Some r3)
      then show ?thesis using Suc.prems False p d ran_ordered [OF Suc.prems(1), of "l\<lparr>sl_queue := q\<rparr>" w e l2 w2 r3]
        by (auto simp: orderedFrom_def)
    next
      case None
      then obtain tr' where run: "drainQueue k cancel (Suc n) hs l2 w2 = Some (l', w', tr', r)" "tr = e # tr'"
        using Suc.prems(2) False p d by auto
      have D: "lastIs e l2" "sl_haveLast l \<longrightarrow> t_ns (sl_lastTs l) \<le> tsOf e"
        using dispatch_last [OF Suc.prems(1) d] None by auto
      note IH = Suc.IH [OF Suc.prems(1) run(1)]
      have "r = None \<longrightarrow> endsAt l tr l'" using IH D(1) run(2) by (auto simp: endsAt_def lastIs_def)
      then show ?thesis using orderedFrom_Cons [OF D] IH run(2) by simp
    qed
  qed
qed simp

lemma runStream_ordered:
  "keepsLast hs \<Longrightarrow> runStream fuel cancel n hs ss l w = Some (l', w', tr, r) \<Longrightarrow> orderedFrom l tr"
proof (induction ss arbitrary: n l w l' w' tr r)
  case (Cons s ss)
  show ?case
  proof (cases s)
    case (Deliver e host)
    obtain l1 w1 r1 where d: "dispatch hs (l\<lparr>sl_host := host\<rparr>) w e = (l1, w1, r1)" by (metis prod_cases3)
    show ?thesis
    proof (cases r1)
      case (Some r2)
      then show ?thesis using Cons.prems Deliver d ran_ordered [OF Cons.prems(1), of "l\<lparr>sl_host := host\<rparr>" w e l1 w1 r2]
        by (auto simp: orderedFrom_def)
    next
      case None
      have D: "lastIs e l1" "sl_haveLast l \<longrightarrow> t_ns (sl_lastTs l) \<le> tsOf e"
        using dispatch_last [OF Cons.prems(1) d] None by auto
      obtain l2 w2 tr2 r2 where dr: "drainQueue fuel cancel n hs l1 w1 = Some (l2, w2, tr2, r2)"
        using Cons.prems(2) Deliver d None by (cases "drainQueue fuel cancel n hs l1 w1") auto
      note O = drainQueue_ordered [OF Cons.prems(1) dr]
      show ?thesis
      proof (cases r2)
        case (Some r3)
        then show ?thesis using Cons.prems(2) Deliver d None dr O orderedFrom_Cons [OF D] by auto
      next
        case none2: None
        then obtain tr3 where run: "runStream fuel cancel (n + Suc (length tr2)) hs ss l2 w2 = Some (l', w', tr3, r)"
          "tr = e # tr2 @ tr3" using Cons.prems(2) Deliver d None dr by auto
        have "orderedFrom l1 (tr2 @ tr3)"
          using orderedFrom_append [of l1 tr2 l2 tr3] O none2 Cons.IH [OF Cons.prems(1) run(1)] by simp
        then show ?thesis using orderedFrom_Cons [OF D] run(2) by simp
      qed
    qed
  qed (use Cons.prems in auto)
qed simp

section \<open>Batch and streaming order at one timestamp\<close>

text \<open>Two bars of one timestamp, each of whose handlers schedules a fill at that timestamp.  The
  batch loop delivers both bars before the first fill; the streaming loop settles the first bar's
  fill before the second bar arrives.\<close>

definition exTime :: gotime where
  "exTime = \<lparr>t_ns = 1704153600000000000, t_off = 0\<rparr>"

definition exBar :: "string \<Rightarrow> Bar" where
  "exBar sy = \<lparr>bar_Symbol = sy, bar_TS = exTime, bar_Open = 1000000, bar_High = 1000000,
     bar_Low = 1000000, bar_Close = 1000000, bar_Volume = 1000\<rparr>"

definition exFill :: "string \<Rightarrow> Fill" where
  "exFill sy = \<lparr>fill_TradeID = ''T'', fill_ClientOrderID = ''C'', fill_VenueOrderID = ''V'',
     fill_StrategyID = ''S'', fill_Symbol = sy, fill_Side = OrderSideBuy, fill_Qty = 10,
     fill_Price = 1000000, fill_Commission = 0, fill_TS = exTime\<rparr>"

definition exBarHandler :: "unit handler" where
  "exBarHandler e l w =
     (case e of BarEvent b \<Rightarrow> (fst (Schedule l (FillEvent (exFill (bar_Symbol b)))), w, Inr ())
      | _ \<Rightarrow> (l, w, Inr ()))"

definition exIdle :: "unit handler" where
  "exIdle e l w = (l, w, Inr ())"

definition exHandlers :: "unit handlers" where
  "exHandlers = [(KindBar, exBarHandler), (KindFill, exIdle), (KindSample, exIdle)]"

definition exStreamBar :: "unit stream_handler" where
  "exStreamBar e l w =
     (case e of BarEvent b \<Rightarrow> (fst (StreamSchedule l (FillEvent (exFill (bar_Symbol b)))), w, Inr ())
      | _ \<Rightarrow> (l, w, Inr ()))"

definition exStreamIdle :: "unit stream_handler" where
  "exStreamIdle e l w = (l, w, Inr ())"

definition exStreamHandlers :: "unit stream_handlers" where
  "exStreamHandlers = [(KindBar, exStreamBar), (KindFill, exStreamIdle), (KindSample, exStreamIdle)]"

definition exSeeded :: Loop where
  "exSeeded = fst (Schedule (fst (Schedule NewLoop (BarEvent (exBar ''A'')))) (BarEvent (exBar ''B'')))"

definition traceOf :: "'a \<times> 'b \<times> Event list \<times> stop \<Rightarrow> Event list \<times> stop" where
  "traceOf x = (case x of (_, _, tr, r) \<Rightarrow> (tr, r))"

lemma batch_example:
  "map_option traceOf (Run 5 (\<lambda>_. False) exHandlers exSeeded ()) =
     Some ([BarEvent (exBar ''A''), BarEvent (exBar ''B''), FillEvent (exFill ''A''), FillEvent (exFill ''B'')], Drained)"
  by code_simp

lemma stream_example:
  "map_option traceOf (RunStream 5 (\<lambda>_. False) exStreamHandlers
       [Deliver (BarEvent (exBar ''A'')) exTime, Deliver (BarEvent (exBar ''B'')) exTime]
       (NewStreamLoop StreamVirtual zeroTime exTime) ()) =
     Some ([BarEvent (exBar ''A''), FillEvent (exFill ''A''), BarEvent (exBar ''B''), FillEvent (exFill ''B'')], Drained)"
  by code_simp

section \<open>A batch of insertions is a stable sort\<close>

text \<open>Popping needs no bound on the counter, only distinct sequence numbers in the heap.\<close>

definition sWf :: "eventQueue \<Rightarrow> bool" where
  "sWf q \<longleftrightarrow> hWf q \<and> distinct (map seq (heap q))"

lemma sWf_counter: "heap q' = heap q \<Longrightarrow> sWf q' = sWf q" "heap q' = heap q \<Longrightarrow> qPending q' = qPending q"
  by (simp_all add: sWf_def hWf_def qPending_def)

lemma qWf_sWf: "qWf q \<Longrightarrow> sWf q"
  by (simp add: sWf_def qWf_hWf) (simp add: qWf_def)

lemma pop_pending:
  assumes wf: "sWf q" and p: "pop q = Some (e, q')"
  shows "sWf q'" and "\<exists>x. ev x = e \<and> qPending q = x # qPending q'"
proof -
  have h: "hWf q" and dq: "distinct (map seq (heap q))" using wf by (simp_all add: sWf_def)
  obtain x where x: "ev x = e" "mset (heap q) = add_mset x (mset (heap q'))" "heapOk (heap q')"
    "\<And>y. y \<in> set (heap q) \<Longrightarrow> qkey x \<le> qkey y" using pop_heap [OF h p] by metis
  have "mset (map seq (heap q)) = mset (map seq (x # heap q'))" using x(2) by (metis mset.simps(2) mset_map)
  then have "distinct (map seq (x # heap q'))" using dq by (metis mset_eq_imp_distinct_iff)
  then show "sWf q'" using pop_hWf [OF h p] by (simp add: sWf_def)
  have "set (heap q') \<subseteq> set (heap q)" using x(2) by (metis mset.simps(2) mset_eq_setD set_subset_Cons)
  then have "sorted (map qkey (x # qPending q'))" using x(4) by (auto simp: qPending_def)
  then have "qPending q = x # qPending q'" using dq x(2) by (intro pending_unique) (simp_all add: pending_mset)
  then show "\<exists>x. ev x = e \<and> qPending q = x # qPending q'" using x(1) by blast
qed

fun itemsFrom :: "uint64 \<Rightarrow> Event list \<Rightarrow> queuedEvent list" where
  "itemsFrom s [] = []"
| "itemsFrom s (e # es) =
     \<lparr>ev = e, tsNs = UnixNano (toUTC (TsEvent e)), prio = Priority (Kind e), seq = s\<rparr> # itemsFrom (s + 1) es"

definition evOrder :: "queuedEvent \<Rightarrow> int \<times> int" where
  "evOrder x = (sint (tsNs x), uint (prio x))"

lemma map_ev_itemsFrom [simp]: "map ev (itemsFrom s es) = es"
  by (induction es arbitrary: s) simp_all

lemma itemsFrom_seq:
  "uint s + int (length es) < 2 ^ 64 \<Longrightarrow> sorted_wrt (<) (map seq (itemsFrom s es)) \<and> (\<forall>x \<in> set (itemsFrom s es). s \<le> seq x)"
proof (induction es arbitrary: s)
  case (Cons e es)
  have "uint s < 2 ^ 64 - 1" using Cons.prems by simp
  then have ne: "s \<noteq> - 1" by (auto simp: unsigned_minus_1_eq_mask mask_eq_exp_minus_1)
  note IH = Cons.IH [of "s + 1"]
  have "uint (s + 1) + int (length es) < 2 ^ 64" using Cons.prems by (simp add: uint_inc [OF ne])
  with IH have "sorted_wrt (<) (map seq (itemsFrom (s + 1) es))" "\<forall>x \<in> set (itemsFrom (s + 1) es). s + 1 \<le> seq x" by auto
  moreover have "s < s + 1" by (rule word_less_inc(2) [OF ne])
  ultimately show ?case by (auto intro: less_le_trans less_imp_le)
qed simp

lemma fold_qPut:
  "hWf q \<Longrightarrow> hWf (fold qPut es q) \<and> mset (heap (fold qPut es q)) = mset (heap q) + mset (itemsFrom (nextID q) es)"
proof (induction es arbitrary: q)
  case (Cons e es)
  have "hWf (qPut e q)" by (rule qPut_hWf [OF Cons.prems])
  from Cons.IH [OF this] show ?case using push_heap(2,3) [OF Cons.prems, of e] by (simp add: mkItem_def)
qed simp

lemma qkey_evOrder: "qkey x = (fst (evOrder x), snd (evOrder x), uint (seq x))"
  by (simp add: qkey_def evOrder_def)

lemma qkey_mono:
  "evOrder a = evOrder b \<Longrightarrow> seq a < seq b \<Longrightarrow> qkey a \<le> qkey b" "qkey a \<le> qkey b \<Longrightarrow> evOrder a \<le> evOrder b"
proof -
  have lex: "(p, q, r) \<le> (p', q', r') \<longleftrightarrow> p < p' \<or> p = p' \<and> (q < q' \<or> q = q' \<and> r \<le> r')" for p q r p' q' r' :: int
    by (auto simp: less_eq_prod_def)
  have lex2: "u \<le> v \<longleftrightarrow> fst u < fst v \<or> fst u = fst v \<and> snd u \<le> snd v" for u v :: "int \<times> int"
    by (auto simp: less_eq_prod_def)
  show "evOrder a = evOrder b \<Longrightarrow> seq a < seq b \<Longrightarrow> qkey a \<le> qkey b" "qkey a \<le> qkey b \<Longrightarrow> evOrder a \<le> evOrder b"
    unfolding qkey_evOrder lex lex2 word_less_def by auto
qed

lemma sort_key_itemsFrom:
  assumes "uint s + int (length es) < 2 ^ 64"
  shows "sort_key qkey (itemsFrom s es) = sort_key evOrder (itemsFrom s es)"
proof (rule properties_for_sort_key [symmetric])
  let ?xs = "itemsFrom s es"
  show "mset (sort_key qkey ?xs) = mset ?xs" by simp
  have "sorted_wrt (<) (map seq ?xs)" using itemsFrom_seq [OF assms] by simp
  then have inc: "sorted_wrt (\<lambda>a b. seq a < seq b) (filter P ?xs)" for P unfolding sorted_wrt_map by (rule sorted_wrt_filter)
  show "filter (\<lambda>x. evOrder k = evOrder x) (sort_key qkey ?xs) = filter (\<lambda>x. evOrder k = evOrder x) ?xs"
    if "k \<in> set (sort_key qkey ?xs)" for k
  proof -
    let ?ys = "filter (\<lambda>x. evOrder k = evOrder x) ?xs"
    have le: "qkey a \<le> qkey b" if "a \<in> set ?ys" "b \<in> set ?ys" "seq a < seq b" for a b
      using that by (intro qkey_mono(1)) simp_all
    have "sorted_wrt (\<lambda>a b. qkey a \<le> qkey b) ?ys" by (rule sorted_wrt_mono_rel [OF le inc])
    then have "sorted (map qkey ?ys)" by (simp only: sorted_map)
    then show ?thesis by (simp only: filter_sort sort_key_id_if_sorted)
  qed
  have "sorted_wrt (\<lambda>a b. qkey a \<le> qkey b) (sort_key qkey ?xs)" 
    using sorted_sort_key [of qkey ?xs] unfolding sorted_map .
  then have "sorted_wrt (\<lambda>a b. evOrder a \<le> evOrder b) (sort_key qkey ?xs)" by (rule sorted_wrt_mono_rel [rotated]) (rule qkey_mono(2))
  then show "sorted (map evOrder (sort_key qkey ?xs))" by (simp only: sorted_map)
qed

lemma map_sort_key: "map g (sort_key (\<lambda>x. f (g x)) xs) = sort_key f (map g xs)"
proof -
  have ins: "map g (insort_key (\<lambda>x. f (g x)) x ys) = insort_key f (g x) (map g ys)" for x ys by (induction ys) auto
  show ?thesis by (induction xs) (simp_all add: ins)
qed

lemma pending_batch:
  assumes "int (length es) < 2 ^ 64" "\<forall>e \<in> set es. inNanoRange (TsEvent e)"
  shows "map ev (qPending (fold qPut es newEventQueue)) = sort_key evKey es" and "sWf (fold qPut es newEventQueue)"
proof -
  let ?q = "fold qPut es newEventQueue" let ?xs = "itemsFrom 0 es"
  have h: "hWf ?q" "mset (heap ?q) = mset ?xs"
    using fold_qPut [of newEventQueue es] qWf_hWf [OF newEventQueue_wf(1)] by (simp_all add: newEventQueue_def)
  have b: "uint (0 :: uint64) + int (length es) < 2 ^ 64" using assms(1) by simp
  have "sorted_wrt (<) (map seq ?xs)" using itemsFrom_seq [OF b] by simp
  then have "distinct (map seq ?xs)" by (simp add: strict_sorted_iff)
  then have d: "distinct (map seq (heap ?q))" using h(2) by (metis mset_eq_imp_distinct_iff mset_map)
  then show "sWf ?q" using h(1) by (simp add: sWf_def)
  have "qPending ?q = sort_key qkey ?xs" using d h(2) by (intro pending_unique) (simp_all)
  also have "\<dots> = sort_key evOrder ?xs" by (rule sort_key_itemsFrom [OF b])
  also have "\<dots> = sort_key (\<lambda>x. evKey (ev x)) ?xs"
  proof -
    have "x \<in> set (itemsFrom s es) \<Longrightarrow> \<forall>e \<in> set es. inNanoRange (TsEvent e) \<Longrightarrow> evOrder x = evKey (ev x)" for s x
      by (induction es arbitrary: s) (auto simp: evOrder_def evKey_def sint_UnixNano)
    then have "evOrder x = evKey (ev x)" if "x \<in> set ?xs" for x using that assms(2) by blast
    then show ?thesis by (intro sort_key_eq) blast
  qed
  finally show "map ev (qPending ?q) = sort_key evKey es" using map_sort_key [of ev evKey ?xs] by simp
qed

section \<open>Handlers that schedule nothing\<close>

locale quiet_handlers = event_handlers +
  assumes quiet: "mapGet hs k = Some h \<Longrightarrow> h e l w = (l', w', r) \<Longrightarrow> heap (lp_queue l') = heap (lp_queue l)"
begin

text \<open>The run dispatches what was pending, in order, and nothing else; a failing handler or a
  cancellation cuts it short.\<close>

lemma quiet_run:
  "loopInv b l \<Longrightarrow> sWf (lp_queue l) \<Longrightarrow> runLoop k cancel n hs l w = Some (l', w', tr, r) \<Longrightarrow>
   (\<exists>rest. map ev (qPending (lp_queue l)) = tr @ rest \<and> (r = Drained \<longrightarrow> rest = []))"
proof (induction k arbitrary: b n l w l' w' tr r)
  case (Suc k)
  show ?case
  proof (cases "cancel n \<or> pop (lp_queue l) = None")
    case True
    moreover have "qPending (lp_queue l) = []" if "pop (lp_queue l) = None" using that by (simp add: pop_None)
    ultimately show ?thesis using Suc.prems by (cases "cancel n") auto
  next
    case False
    then obtain e q where p: "pop (lp_queue l) = Some (e, q)" by auto
    obtain h where h: "mapGet hs (Kind e) = Some h" using complete by auto
    note P = pop_step [OF Suc.prems(1) p]
    obtain x where x: "ev x = e" "qPending (lp_queue l) = x # qPending q" "sWf q"
      using pop_pending [OF Suc.prems(2) p] by blast
    obtain l3 w3 r3 where st: "h e (l\<lparr>lp_queue := q, lp_clock := TsEvent e\<rparr>) w = (l3, w3, r3)" by (metis prod_cases3)
    have hp: "heap (lp_queue l3) = heap q" using quiet [OF h st] by simp
    note I = step(1) [OF Suc.prems(1) p h st]
    show ?thesis
    proof (cases r3)
      case (Inl err)
      then show ?thesis using Suc.prems(3) False p P h st x by auto
    next
      case (Inr u)
      then obtain tr' where run: "runLoop k cancel (Suc n) hs l3 w3 = Some (l', w', tr', r)" "tr = e # tr'"
        using Suc.prems(3) False p P h st by auto
      have "sWf (lp_queue l3)" "qPending (lp_queue l3) = qPending q" using sWf_counter [OF hp] x(3) by simp_all
      with Suc.IH [OF I _ run(1)] show ?thesis using x run(2) by auto
    qed
  qed
qed simp

lemma quiet_fuel:
  "loopInv b l \<Longrightarrow> sWf (lp_queue l) \<Longrightarrow> length (heap (lp_queue l)) < k \<Longrightarrow> runLoop k cancel n hs l w \<noteq> None"
proof (induction k arbitrary: b n l w)
  case (Suc k)
  show ?case
  proof (cases "cancel n \<or> pop (lp_queue l) = None")
    case True
    then show ?thesis by auto
  next
    case False
    then obtain e q where p: "pop (lp_queue l) = Some (e, q)" by auto
    obtain h where h: "mapGet hs (Kind e) = Some h" using complete by auto
    obtain x where x: "qPending (lp_queue l) = x # qPending q" "sWf q" using pop_pending [OF Suc.prems(2) p] by blast
    obtain l3 w3 r3 where st: "h e (l\<lparr>lp_queue := q, lp_clock := TsEvent e\<rparr>) w = (l3, w3, r3)" by (metis prod_cases3)
    have hp: "heap (lp_queue l3) = heap q" using quiet [OF h st] by simp
    have "length (heap (lp_queue l)) = Suc (length (heap q))"
      using arg_cong [OF x(1), of length] by (simp add: qPending_def)
    then have "runLoop k cancel (Suc n) hs l3 w3 \<noteq> None"
      using Suc.IH [OF step(1) [OF Suc.prems(1) p h st]] sWf_counter(1) [OF hp] x(2) Suc.prems(3) hp by simp
    then show ?thesis using False p h st pop_step(1) [OF Suc.prems(1) p] by (auto split: sum.splits)
  qed
qed simp

end

section \<open>Properties\<close>

text \<open>The streaming loop never goes back in time: whatever the source delivers, the timestamps of the
  dispatched events, cascaded ones included, never decrease and never precede what was dispatched before
  the run; an event that would is refused.\<close>

theorem stream_never_reverses:
  assumes "keepsLast hs" "RunStream fuel cancel hs ss l w = Some (l', w', tr, r)"
  shows "sorted (map (\<lambda>e. t_ns (TsEvent e)) tr) \<and>
    (sl_haveLast l \<longrightarrow> list_all (\<lambda>e. t_ns (sl_lastTs l) \<le> t_ns (TsEvent e)) tr)"
  using runStream_ordered [OF assms(1) assms(2) [unfolded RunStream_def]]
  by (auto simp: orderedFrom_def tsOf_def [abs_def] list_all_iff)

lemma exStreamHandlers_keep: "keepsLast exStreamHandlers"
  by (auto simp: keepsLast_def exStreamHandlers_def exStreamBar_def exStreamIdle_def mapGet_def StreamSchedule_def Let_def
      split: Event.splits if_splits prod.splits)

definition lateDelivery :: "stimulus list" where
  "lateDelivery = [Deliver (SampleEvent \<lparr>t_ns = 5, t_off = 0\<rparr>) exTime, Deliver (SampleEvent \<lparr>t_ns = 3, t_off = 0\<rparr>) exTime]"

theorem stream_never_reverses_witness:
  "\<exists>l' w' tr r. RunStream 5 (\<lambda>_. False) exStreamHandlers lateDelivery (NewStreamLoop StreamVirtual zeroTime exTime) () =
      Some (l', w', tr, r) \<and> sorted (map (\<lambda>e. t_ns (TsEvent e)) tr) \<and> r \<noteq> Drained"
proof -
  let ?r = "RunStream 5 (\<lambda>_. False) exStreamHandlers lateDelivery (NewStreamLoop StreamVirtual zeroTime exTime) ()"
  have "map_option (\<lambda>x. snd (traceOf x) = Drained) ?r = Some False" by code_simp
  then obtain l' w' tr r where s: "?r = Some (l', w', tr, r)" "r \<noteq> Drained" by (auto simp: traceOf_def)
  then show ?thesis using stream_never_reverses [OF exStreamHandlers_keep s(1)] by auto
qed

text \<open>Streaming does not keep the batch order within a timestamp: with handlers that answer a bar with a
  fill, the batch loop dispatches both bars before either fill, while the stream dispatches each fill
  right after its bar.\<close>

theorem stream_interleaves_differently:
  "map_option traceOf (Run 5 (\<lambda>_. False) exHandlers exSeeded ()) =
     Some ([BarEvent (exBar ''A''), BarEvent (exBar ''B''), FillEvent (exFill ''A''), FillEvent (exFill ''B'')], Drained) \<and>
   map_option traceOf (RunStream 5 (\<lambda>_. False) exStreamHandlers
       [Deliver (BarEvent (exBar ''A'')) exTime, Deliver (BarEvent (exBar ''B'')) exTime]
       (NewStreamLoop StreamVirtual zeroTime exTime) ()) =
     Some ([BarEvent (exBar ''A''), FillEvent (exFill ''A''), BarEvent (exBar ''B''), FillEvent (exFill ''B'')], Drained)"
  by (intro conjI batch_example stream_example)

end
