(* ===== verification/Exec_Sim.thy ===== *)
theory Exec_Sim
  imports Domain_Types
begin

text \<open>
  The simulated venue of \<open>internal/exec\<close> (\<open>fillmodel.go\<close>, \<open>executor.go\<close>).  A fill model is a record of
  the interface's methods; the locale \<open>fill_model\<close> is the contract the executor relies on, met by
  the close-fill and by the realistic model.  The fill sink and the sequence source the executor is
  wired to are arguments working on a world \<open>'w\<close>.  The float arithmetic of the realistic model
  (slippage of a price, basis points of a notional) enters as functions, absent when the
  configured rate is zero.
\<close>

section \<open>Fill models\<close>

definition PriceIncrement :: Price where
  "PriceIncrement = 100"

datatype FillTiming = FillThisBar | FillNextBar

record FillLeg =
  leg_Qty :: Qty
  leg_Price :: Price

record FillModel =
  fm_Timing :: FillTiming
  fm_Fill :: "Order \<Rightarrow> Bar \<Rightarrow> FillLeg list result"
  fm_Commission :: "Qty \<Rightarrow> Price \<Rightarrow> Money result"

definition closeTickVolume :: "int64 \<Rightarrow> int64" where
  "closeTickVolume volume =
     (if sint volume \<le> 0 then 0
      else let minSize = 1; quarter0 = go_quo volume 4;
               quarter = (if sint quarter0 < sint minSize then minSize else quarter0);
               threeQuarters = 3 * quarter
           in if sint volume \<le> sint threeQuarters then minSize else volume - threeQuarters)"

definition residualPrice :: "Price \<Rightarrow> OrderSide \<Rightarrow> Price result" where
  "residualPrice closePx side =
     (if side = OrderSideBuy then Price_Add closePx PriceIncrement
      else if side = OrderSideSell then Price_Sub closePx PriceIncrement
      else Inl ErrInvalidArgument)"

definition CloseFill_Fill :: "Order \<Rightarrow> Bar \<Rightarrow> FillLeg list result" where
  "CloseFill_Fill order bar =
     (if ord_Type order \<noteq> OrderTypeMarket then Inl ErrInvalidArgument
      else if sint (ord_Qty order) \<le> 0 then Inl ErrInvalidArgument
      else let closeTick = closeTickVolume (bar_Volume bar) in
        if sint closeTick \<le> 0 then Inr [\<lparr>leg_Qty = ord_Qty order, leg_Price = bar_Close bar\<rparr>]
        else if sint (ord_Qty order) \<le> sint closeTick then
          Inr [\<lparr>leg_Qty = ord_Qty order, leg_Price = bar_Close bar\<rparr>]
        else bindR (residualPrice (bar_Close bar) (ord_Side order)) (\<lambda>px.
          Inr [\<lparr>leg_Qty = closeTick, leg_Price = bar_Close bar\<rparr>,
               \<lparr>leg_Qty = ord_Qty order - closeTick, leg_Price = px\<rparr>]))"

definition CloseFillModel :: FillModel where
  "CloseFillModel =
     \<lparr>fm_Timing = FillThisBar, fm_Fill = CloseFill_Fill, fm_Commission = (\<lambda>_ _. Inr 0)\<rparr>"

text \<open>The rates of the realistic model; \<open>None\<close> is a rate of zero.\<close>

record RealisticModel =
  rm_slip :: "(Price \<Rightarrow> OrderSide \<Rightarrow> Price result) option"
  rm_CommissionPerShare :: Money
  rm_bps :: "(Money \<Rightarrow> Money result) option"

definition Realistic_Fill :: "RealisticModel \<Rightarrow> Order \<Rightarrow> Bar \<Rightarrow> FillLeg list result" where
  "Realistic_Fill m order bar =
     (if ord_Type order \<noteq> OrderTypeMarket then Inl ErrInvalidArgument
      else if sint (ord_Qty order) \<le> 0 then Inl ErrInvalidArgument
      else case rm_slip m of
        None \<Rightarrow> Inr [\<lparr>leg_Qty = ord_Qty order, leg_Price = bar_Open bar\<rparr>]
      | Some slip \<Rightarrow>
          bindR (slip (bar_Open bar) (ord_Side order)) (\<lambda>p. Inr [\<lparr>leg_Qty = ord_Qty order, leg_Price = p\<rparr>]))"

definition Realistic_Commission :: "RealisticModel \<Rightarrow> Qty \<Rightarrow> Price \<Rightarrow> Money result" where
  "Realistic_Commission m qty price =
     (let aq = (if sint qty < 0 then - qty else qty) in
      if rm_CommissionPerShare m \<noteq> 0 then Money_MulInt64 (rm_CommissionPerShare m) aq
      else case rm_bps m of
        None \<Rightarrow> Inr 0
      | Some bps \<Rightarrow> bindR (Price_MulQty price aq) bps)"

definition realisticModel :: "RealisticModel \<Rightarrow> FillModel" where
  "realisticModel m =
     \<lparr>fm_Timing = FillNextBar, fm_Fill = Realistic_Fill m, fm_Commission = Realistic_Commission m\<rparr>"

section \<open>The executor\<close>

record SimExecutor =
  ex_pending :: "(string, Order list) gomap"
  submittedThisBar :: "Order list"
  barsThisTS :: "(string, Bar) gomap"
  curTS :: int64
  curTSSet :: bool

definition NewSimExecutor :: SimExecutor where
  "NewSimExecutor = \<lparr>ex_pending = [], submittedThisBar = [], barsThisTS = [], curTS = 0, curTSSet = False\<rparr>"

type_synonym 'w seq_source = "'w \<Rightarrow> uint64 \<times> 'w"
type_synonym 'w fill_sink = "Fill \<Rightarrow> 'w \<Rightarrow> 'w \<times> unit result"

definition NewClientOrderID :: "'w seq_source \<Rightarrow> 'w \<Rightarrow> string \<times> 'w" where
  "NewClientOrderID next w = (let (s, w1) = next w in (''O-'' @ fmtUint (unat s), w1))"

definition listAt :: "('k, 'v list) gomap \<Rightarrow> 'k \<Rightarrow> 'v list" where
  "listAt m k = (case mapGet m k of None \<Rightarrow> [] | Some xs \<Rightarrow> xs)"

definition Submit :: "FillModel \<Rightarrow> SimExecutor \<Rightarrow> Order \<Rightarrow> SimExecutor \<times> unit result" where
  "Submit m e order =
     (case Order_Validate order of
        Inl err \<Rightarrow> (e, Inl err)
      | Inr _ \<Rightarrow>
          if ord_Type order \<noteq> OrderTypeMarket then (e, Inl ErrInvalidArgument)
          else case fm_Timing m of
            FillThisBar \<Rightarrow> (e\<lparr>submittedThisBar := submittedThisBar e @ [order]\<rparr>, Inr ())
          | FillNextBar \<Rightarrow>
              (e\<lparr>ex_pending := mapSet (ord_Symbol order) (listAt (ex_pending e) (ord_Symbol order) @ [order])
                   (ex_pending e)\<rparr>, Inr ()))"

definition mkFill :: "string \<Rightarrow> Order \<Rightarrow> Bar \<Rightarrow> nat \<Rightarrow> FillLeg \<Rightarrow> Money \<Rightarrow> Fill" where
  "mkFill venueOrderID order bar i leg commission =
     \<lparr>fill_TradeID = venueOrderID @ ''-'' @ FormatInt64 (UnixNano (bar_TS bar)) @ ''-'' @ fmtUint i,
      fill_ClientOrderID = ord_ClientOrderID order, fill_VenueOrderID = venueOrderID,
      fill_StrategyID = ord_StrategyID order, fill_Symbol = ord_Symbol order, fill_Side = ord_Side order,
      fill_Qty = leg_Qty leg, fill_Price = leg_Price leg, fill_Commission = commission,
      fill_TS = bar_TS bar\<rparr>"

fun legLoop :: "FillModel \<Rightarrow> 'w fill_sink \<Rightarrow> string \<Rightarrow> Order \<Rightarrow> Bar \<Rightarrow> nat \<Rightarrow> FillLeg list \<Rightarrow> Qty \<Rightarrow> 'w \<Rightarrow>
    'w \<times> Qty result" where
  "legLoop m sink vid order bar i [] legSum w = (w, Inr legSum)"
| "legLoop m sink vid order bar i (leg # legs) legSum w =
     (if \<not> Price_IsPositive (leg_Price leg) then (w, Inl ErrInvalidArgument)
      else if sint (leg_Qty leg) \<le> 0 then (w, Inl ErrInvalidArgument)
      else case fm_Commission m (leg_Qty leg) (leg_Price leg) of
        Inl err \<Rightarrow> (w, Inl err)
      | Inr commission \<Rightarrow>
          (let f = mkFill vid order bar i leg commission in
           case Fill_Validate f of
             Inl err \<Rightarrow> (w, Inl err)
           | Inr _ \<Rightarrow>
               (case sink f w of
                  (w1, Inl err) \<Rightarrow> (w1, Inl err)
                | (w1, Inr _) \<Rightarrow> legLoop m sink vid order bar (Suc i) legs (legSum + leg_Qty leg) w1)))"

definition execFill :: "FillModel \<Rightarrow> 'w seq_source \<Rightarrow> 'w fill_sink \<Rightarrow> Order \<Rightarrow> Bar \<Rightarrow> 'w \<Rightarrow> 'w \<times> unit result" where
  "execFill m next sink order bar w =
     (case fm_Fill m order bar of
        Inl err \<Rightarrow> (w, Inl err)
      | Inr legs \<Rightarrow>
          if legs = [] then (w, Inl ErrInvalidArgument)
          else let (s, w1) = next w in
            case legLoop m sink (''V-'' @ fmtUint (unat s)) order bar 0 legs 0 w1 of
              (w2, Inl err) \<Rightarrow> (w2, Inl err)
            | (w2, Inr legSum) \<Rightarrow>
                if legSum \<noteq> ord_Qty order then (w2, Inl ErrInvalidArgument) else (w2, Inr ()))"

fun fillAllLoop :: "FillModel \<Rightarrow> 'w seq_source \<Rightarrow> 'w fill_sink \<Rightarrow> Bar \<Rightarrow> Order list \<Rightarrow> 'w \<Rightarrow> 'w \<times> unit result" where
  "fillAllLoop m next sink bar [] w = (w, Inr ())"
| "fillAllLoop m next sink bar (od # ods) w =
     (case execFill m next sink od bar w of
        (w1, Inl err) \<Rightarrow> (w1, Inl err)
      | (w1, Inr _) \<Rightarrow> fillAllLoop m next sink bar ods w1)"

definition ProcessBar :: "FillModel \<Rightarrow> 'w seq_source \<Rightarrow> 'w fill_sink \<Rightarrow> SimExecutor \<Rightarrow> Bar \<Rightarrow> 'w \<Rightarrow>
    SimExecutor \<times> 'w \<times> unit result" where
  "ProcessBar m next sink e bar w =
     (case fm_Timing m of
        FillThisBar \<Rightarrow>
          (let ts = UnixNano (bar_TS bar);
               e1 = (if \<not> curTSSet e \<or> ts \<noteq> curTS e then e\<lparr>barsThisTS := [], curTS := ts, curTSSet := True\<rparr> else e)
           in (e1\<lparr>barsThisTS := mapSet (bar_Symbol bar) bar (barsThisTS e1)\<rparr>, w, Inr ()))
      | FillNextBar \<Rightarrow>
          (let orders = listAt (ex_pending e) (bar_Symbol bar);
               e1 = e\<lparr>ex_pending := mapDelete (bar_Symbol bar) (ex_pending e)\<rparr>;
               (w1, r) = fillAllLoop m next sink bar orders w
           in (e1, w1, r)))"

fun flushLoop :: "FillModel \<Rightarrow> 'w seq_source \<Rightarrow> 'w fill_sink \<Rightarrow> (string, Bar) gomap \<Rightarrow> Order list \<Rightarrow> Order list \<Rightarrow> 'w \<Rightarrow>
    'w \<times> Order list result" where
  "flushLoop m next sink bars [] unfilled w = (w, Inr unfilled)"
| "flushLoop m next sink bars (od # ods) unfilled w =
     (case mapGet bars (ord_Symbol od) of
        None \<Rightarrow> flushLoop m next sink bars ods (unfilled @ [od]) w
      | Some bar \<Rightarrow>
          (case execFill m next sink od bar w of
             (w1, Inl err) \<Rightarrow> (w1, Inl err)
           | (w1, Inr _) \<Rightarrow> flushLoop m next sink bars ods unfilled w1))"

definition FlushThisBar :: "FillModel \<Rightarrow> 'w seq_source \<Rightarrow> 'w fill_sink \<Rightarrow> SimExecutor \<Rightarrow> 'w \<Rightarrow>
    SimExecutor \<times> 'w \<times> unit result" where
  "FlushThisBar m next sink e w =
     (if fm_Timing m \<noteq> FillThisBar \<or> submittedThisBar e = [] then (e, w, Inr ())
      else case flushLoop m next sink (barsThisTS e) (submittedThisBar e) [] w of
        (w1, Inl err) \<Rightarrow> (e\<lparr>submittedThisBar := []\<rparr>, w1, Inl err)
      | (w1, Inr unfilled) \<Rightarrow> (e\<lparr>submittedThisBar := unfilled\<rparr>, w1, Inr ()))"

definition FillAtBar :: "FillModel \<Rightarrow> 'w seq_source \<Rightarrow> 'w fill_sink \<Rightarrow> Order \<Rightarrow> Bar \<Rightarrow> 'w \<Rightarrow> 'w \<times> unit result" where
  "FillAtBar m next sink order bar w =
     (case Order_Validate order of
        Inl err \<Rightarrow> (w, Inl err)
      | Inr _ \<Rightarrow>
          if ord_Type order \<noteq> OrderTypeMarket then (w, Inl ErrInvalidArgument)
          else execFill m next sink order bar w)"

definition PendingCount :: "SimExecutor \<Rightarrow> nat" where
  "PendingCount e = (\<Sum>x\<leftarrow>ex_pending e. length (snd x)) + length (submittedThisBar e)"

section \<open>The contract of a fill model\<close>

definition legsTotal :: "FillLeg list \<Rightarrow> int" where
  "legsTotal legs = (\<Sum>l\<leftarrow>legs. sint (leg_Qty l))"

locale fill_model =
  fixes m :: FillModel
  assumes legs_complete: "fm_Fill m order bar = Inr legs \<Longrightarrow>
      legs \<noteq> [] \<and> legsTotal legs = sint (ord_Qty order) \<and> list_all (\<lambda>l. 0 < sint (leg_Qty l)) legs"
    and market_only: "fm_Fill m order bar = Inr legs \<Longrightarrow> ord_Type order = OrderTypeMarket"
begin

lemma leg_bound:
  assumes "fm_Fill m order bar = Inr legs" "l \<in> set legs"
  shows "sint (leg_Qty l) \<le> sint (ord_Qty order)"
proof -
  have "list_all (\<lambda>l. 0 < sint (leg_Qty l)) xs \<Longrightarrow> l \<in> set xs \<Longrightarrow> sint (leg_Qty l) \<le> legsTotal xs" for xs
  proof (induction xs)
    case (Cons x xs)
    have "0 \<le> legsTotal xs" using Cons.prems(1) by (induction xs) (auto simp: legsTotal_def)
    then show ?case using Cons by (auto simp: legsTotal_def)
  qed simp
  then show ?thesis using legs_complete [OF assms(1)] assms(2) by metis
qed

end

lemma closeTickVolume_spec:
  "sint (closeTickVolume v) = (if sint v \<le> 0 then 0 else if sint v < 4 then 1 else sint v - 3 * (sint v div 4))"
proof -
  let ?v = "sint v" let ?q = "go_quo v 4"
  have q: "sint ?q = ?v div 4" if "0 < ?v" using that by (simp add: sint_quo sdiv_mag sgn_if)
  have three: "sint (3 * ?q) = 3 * (?v div 4)" if "0 < ?v"
    using that q sint_bounds [of v] by (subst sint_times) (auto simp: fits64_def)
  have diff: "sint (v - 3 * ?q) = ?v - 3 * (?v div 4)" if "0 < ?v"
    using that three sint_bounds [of v] by (subst sint_minus) (auto simp: fits64_def)
  show ?thesis
    using q three diff by (auto simp: closeTickVolume_def Let_def)
qed

lemma closeTickVolume_pos: "0 < sint v \<Longrightarrow> 0 < sint (closeTickVolume v) \<and> sint (closeTickVolume v) \<le> sint v"
  by (auto simp: closeTickVolume_spec)

section \<open>Both models meet it\<close>

lemma CloseFill_legs:
  assumes "CloseFill_Fill order bar = Inr legs"
  shows "legs \<noteq> [] \<and> legsTotal legs = sint (ord_Qty order) \<and> list_all (\<lambda>l. 0 < sint (leg_Qty l)) legs"
proof -
  let ?t = "closeTickVolume (bar_Volume bar)"
  have split: "sint (ord_Qty order - ?t) = sint (ord_Qty order) - sint ?t"
    if "0 < sint ?t" "sint ?t < sint (ord_Qty order)"
    using that sint_bounds [of "ord_Qty order"] by (intro sint_minus) (auto simp: fits64_def)
  show ?thesis
    using assms split
    by (auto simp: CloseFill_Fill_def legsTotal_def bindR_def Let_def split: if_splits sum.splits)
qed

interpretation close_fill: fill_model CloseFillModel
  using CloseFill_legs
  by unfold_locales (auto simp: CloseFillModel_def CloseFill_Fill_def split: if_splits)

lemma Realistic_legs:
  "Realistic_Fill m order bar = Inr legs \<Longrightarrow>
     \<exists>p. legs = [\<lparr>leg_Qty = ord_Qty order, leg_Price = p\<rparr>] \<and> 0 < sint (ord_Qty order) \<and> ord_Type order = OrderTypeMarket"
  by (auto simp: Realistic_Fill_def bindR_def split: if_splits option.splits sum.splits)

interpretation realistic: fill_model "realisticModel m"
  by unfold_locales (auto simp: realisticModel_def legsTotal_def dest: Realistic_legs)

text \<open>The depth walk of the close-fill model: what the close tick holds trades at the close, the rest
  one increment against the order.\<close>

lemma CloseFill_walk:
  assumes "ord_Type order = OrderTypeMarket" "0 < sint (ord_Qty order)" "0 < sint (bar_Volume bar)"
    and "residualPrice (bar_Close bar) (ord_Side order) = Inr px"
  defines "t \<equiv> closeTickVolume (bar_Volume bar)"
  shows "CloseFill_Fill order bar = Inr (if sint (ord_Qty order) \<le> sint t
      then [\<lparr>leg_Qty = ord_Qty order, leg_Price = bar_Close bar\<rparr>]
      else [\<lparr>leg_Qty = t, leg_Price = bar_Close bar\<rparr>, \<lparr>leg_Qty = ord_Qty order - t, leg_Price = px\<rparr>])"
  using assms closeTickVolume_pos [OF assms(3)] by (auto simp: CloseFill_Fill_def Let_def)

lemma residualPrice_adverse:
  "residualPrice px side = Inr p \<Longrightarrow>
     (side = OrderSideBuy \<and> sint p = sint px + 100) \<or> (side = OrderSideSell \<and> sint p = sint px - 100)"
  by (auto simp: residualPrice_def PriceIncrement_def money_ok split: if_splits)

section \<open>What a filled order emits\<close>

fun emitAll :: "'w fill_sink \<Rightarrow> Fill list \<Rightarrow> 'w \<Rightarrow> 'w option" where
  "emitAll sink [] w = Some w"
| "emitAll sink (f # fs) w = (case sink f w of (w1, Inl e) \<Rightarrow> None | (w1, Inr _) \<Rightarrow> emitAll sink fs w1)"

definition fillOf :: "Order \<Rightarrow> Bar \<Rightarrow> Fill \<Rightarrow> bool" where
  "fillOf order bar f \<longleftrightarrow> fill_ClientOrderID f = ord_ClientOrderID order \<and> fill_StrategyID f = ord_StrategyID order \<and>
     fill_Symbol f = ord_Symbol order \<and> fill_Side f = ord_Side order \<and> fill_TS f = bar_TS bar \<and>
     Fill_Validate f = Inr ()"

definition fillsTotal :: "Fill list \<Rightarrow> int" where
  "fillsTotal fs = (\<Sum>f\<leftarrow>fs. sint (fill_Qty f))"

lemma legLoop_ok:
  "legLoop m sink vid order bar i legs s w = (w', Inr t) \<Longrightarrow>
   \<exists>fs. emitAll sink fs w = Some w' \<and> list_all (fillOf order bar) fs \<and> map fill_Qty fs = map leg_Qty legs \<and>
     map fill_Price fs = map leg_Price legs \<and> t = s + sum_list (map leg_Qty legs)"
proof (induction m sink vid order bar i legs s w rule: legLoop.induct)
  case (1 m sink vid order bar i s w)
  then show ?case by (intro exI [of _ "[]"]) simp
next
  case (2 m sink vid order bar i leg legs s w)
  let ?f = "\<lambda>c. mkFill vid order bar i leg c"
  obtain c where c: "fm_Commission m (leg_Qty leg) (leg_Price leg) = Inr c"
    and v: "Fill_Validate (?f c) = Inr ()"
    using 2(2) by (auto simp: Let_def split: if_splits sum.splits)
  obtain w1 where s: "sink (?f c) w = (w1, Inr ())"
    and rest: "legLoop m sink vid order bar (Suc i) legs (s + leg_Qty leg) w1 = (w', Inr t)"
    using 2(2) c v by (auto simp: Let_def split: if_splits sum.splits prod.splits)
  have pos: "\<not> \<not> Price_IsPositive (leg_Price leg)" "\<not> sint (leg_Qty leg) \<le> 0"
    using 2(2) by (auto split: if_splits)
  obtain fs where fs: "emitAll sink fs w1 = Some w'" "list_all (fillOf order bar) fs" "map fill_Qty fs = map leg_Qty legs"
     "map fill_Price fs = map leg_Price legs" "t = s + leg_Qty leg + sum_list (map leg_Qty legs)"
    using 2(1) [OF pos c refl v s [symmetric] refl rest] by blast
  have "fillOf order bar (?f c)" using v by (simp add: fillOf_def mkFill_def)
  then show ?case using fs s by (intro exI [of _ "?f c # fs"]) (simp add: mkFill_def add.assoc)
qed

lemma word_sum_sint: "sum_list (map leg_Qty legs) = i64 (legsTotal legs)"
  by (induction legs) (simp_all add: legsTotal_def i64_def)

context fill_model
begin

text \<open>The legs an order is priced at add up to it, so the final check of the executor cannot fail, and
  the emitted fills carry exactly the ordered quantity.\<close>

lemma execFill_complete:
  assumes "execFill m next sink order bar w = (w', Inr ())"
  obtains legs s w1 fs where "fm_Fill m order bar = Inr legs" "next w = (s, w1)" "emitAll sink fs w1 = Some w'"
    and "list_all (fillOf order bar) fs" "fillsTotal fs = sint (ord_Qty order)"
    and "map fill_Price fs = map leg_Price legs" "map fill_Qty fs = map leg_Qty legs"
proof -
  obtain legs where legs: "fm_Fill m order bar = Inr legs" using assms by (cases "fm_Fill m order bar") (auto simp: execFill_def)
  obtain s w1 where nx: "next w = (s, w1)" by (cases "next w")
  obtain t where loop: "legLoop m sink (''V-'' @ fmtUint (unat s)) order bar 0 legs 0 w1 = (w', Inr t)"
    using assms legs nx by (auto simp: execFill_def split: if_splits prod.splits sum.splits)
  obtain fs where fs: "emitAll sink fs w1 = Some w'" "list_all (fillOf order bar) fs" "map fill_Qty fs = map leg_Qty legs"
    "map fill_Price fs = map leg_Price legs" using legLoop_ok [OF loop] by blast
  have "fillsTotal fs = (\<Sum>q\<leftarrow>map fill_Qty fs. sint q)" by (simp add: fillsTotal_def comp_def)
  also have "\<dots> = legsTotal legs" by (simp add: fs(3) legsTotal_def comp_def)
  finally have "fillsTotal fs = sint (ord_Qty order)" using legs_complete [OF legs] by simp
  then show ?thesis using that [OF legs nx fs(1,2) _ fs(4,3)] by blast
qed

lemma execFill_sum_check:
  assumes "fm_Fill m order bar = Inr legs" "next w = (s, w1)"
    and "legLoop m sink (''V-'' @ fmtUint (unat s)) order bar 0 legs 0 w1 = (w', Inr t)"
  shows "execFill m next sink order bar w = (w', Inr ())"
proof -
  obtain fs where "t = 0 + sum_list (map leg_Qty legs)" using legLoop_ok [OF assms(3)] by blast
  then have "t = ord_Qty order" using word_sum_sint [of legs] legs_complete [OF assms(1)] by simp
  then show ?thesis using assms legs_complete [OF assms(1)] by (simp add: execFill_def)
qed

end

section \<open>Flushing a timestamp\<close>

fun fillEach :: "FillModel \<Rightarrow> 'w seq_source \<Rightarrow> 'w fill_sink \<Rightarrow> (Order \<times> Bar) list \<Rightarrow> 'w \<Rightarrow> 'w \<times> unit result" where
  "fillEach m next sink [] w = (w, Inr ())"
| "fillEach m next sink ((od, bar) # xs) w =
     (case execFill m next sink od bar w of (w1, Inl e) \<Rightarrow> (w1, Inl e) | (w1, Inr _) \<Rightarrow> fillEach m next sink xs w1)"

definition fillable :: "(string, Bar) gomap \<Rightarrow> Order list \<Rightarrow> (Order \<times> Bar) list" where
  "fillable bars ods = List.map_filter (\<lambda>od. map_option (Pair od) (mapGet bars (ord_Symbol od))) ods"

lemma flushLoop_eq:
  "flushLoop m next sink bars ods unfilled w =
     (case fillEach m next sink (fillable bars ods) w of
        (w1, Inl e) \<Rightarrow> (w1, Inl e)
      | (w1, Inr _) \<Rightarrow> (w1, Inr (unfilled @ filter (\<lambda>od. mapGet bars (ord_Symbol od) = None) ods)))"
proof (induction ods arbitrary: unfilled w)
  case Nil
  then show ?case by (simp add: fillable_def map_filter_simps)
next
  case (Cons od ods)
  then show ?case
    by (cases "mapGet bars (ord_Symbol od)")
       (auto simp: fillable_def map_filter_simps split: prod.splits sum.splits)
qed

lemma FlushThisBar_ok:
  assumes "fm_Timing m = FillThisBar" "FlushThisBar m next sink e w = (e', w', Inr ())"
  shows "submittedThisBar e' = filter (\<lambda>od. mapGet (barsThisTS e) (ord_Symbol od) = None) (submittedThisBar e)"
    and "fillEach m next sink (fillable (barsThisTS e) (submittedThisBar e)) w = (w', Inr ())"
    and "barsThisTS e' = barsThisTS e"
  using assms
  by (auto simp: FlushThisBar_def flushLoop_eq fillable_def map_filter_simps split: if_splits prod.splits sum.splits)

section \<open>Frames\<close>

text \<open>Whatever relation between worlds the sequence source and the sink respect, every operation of the
  executor respects.  \<open>ok\<close> selects the outcomes the relation is claimed for: all of them, or
  successes only.\<close>

locale exec_frame =
  fixes R :: "'w \<Rightarrow> 'w \<Rightarrow> bool"
    and ok :: "unit result \<Rightarrow> bool"
    and nx :: "'w seq_source"
    and sink :: "'w fill_sink"
  assumes R_refl: "R w w"
    and R_trans: "R u v \<Longrightarrow> R v w \<Longrightarrow> R u w"
    and nx_R: "nx w = (s, w') \<Longrightarrow> R w w'"
    and sink_R: "sink f w = (w', r) \<Longrightarrow> ok r \<Longrightarrow> R w w'"
    and ok_Inr: "ok (Inr ())"
begin

definition okRes :: "'a result \<Rightarrow> bool" where
  "okRes r \<longleftrightarrow> (case r of Inl e \<Rightarrow> ok (Inl e) | Inr _ \<Rightarrow> True)"

lemma okRes_simps: "okRes (Inl e) \<longleftrightarrow> ok (Inl e)" "okRes (Inr x)"
  by (simp_all add: okRes_def)

lemma ok_okRes: "ok r \<longleftrightarrow> okRes r"
  by (cases r) (simp_all add: okRes_def ok_Inr)


lemma legLoop_R: "legLoop m sink vid order bar i legs s w = (w', r) \<Longrightarrow> okRes r \<Longrightarrow> R w w'"
proof (induction legs arbitrary: i s w)
  case (Cons leg legs)
  let ?c = "fm_Commission m (leg_Qty leg) (leg_Price leg)"
  show ?case
  proof (cases "\<exists>c. \<not> (\<not> Price_IsPositive (leg_Price leg) \<or> sint (leg_Qty leg) \<le> 0) \<and> ?c = Inr c \<and>
      Fill_Validate (mkFill vid order bar i leg c) = Inr ()")
    case False
    then have "w' = w" using Cons.prems(1) by (auto simp: Let_def split: if_splits sum.splits)
    then show ?thesis by (simp add: R_refl)
  next
    case True
    then obtain c where c: "Price_IsPositive (leg_Price leg)" "\<not> sint (leg_Qty leg) \<le> 0" "?c = Inr c"
      "Fill_Validate (mkFill vid order bar i leg c) = Inr ()" by auto
    obtain w1 r1 where s: "sink (mkFill vid order bar i leg c) w = (w1, r1)" by (cases "sink (mkFill vid order bar i leg c) w")
    show ?thesis
    proof (cases r1)
      case (Inl e)
      then have "w' = w1" "ok r1" using Cons.prems c s by (auto simp: Let_def okRes_simps)
      then show ?thesis using sink_R [OF s] by simp
    next
      case (Inr u)
      then have "legLoop m sink vid order bar (Suc i) legs (s + leg_Qty leg) w1 = (w', r)" using Cons.prems(1) c s by (simp add: Let_def)
      from R_trans [OF sink_R [OF s] Cons.IH [OF this Cons.prems(2)]] show ?thesis using Inr by (simp add: ok_Inr)
    qed
  qed
qed (simp add: R_refl)

lemma execFill_R: "execFill m nx sink order bar w = (w', r) \<Longrightarrow> ok r \<Longrightarrow> R w w'"
proof (cases "\<exists>legs. fm_Fill m order bar = Inr legs \<and> legs \<noteq> []")
  case False
  assume "execFill m nx sink order bar w = (w', r)"
  then have "w' = w" using False by (auto simp: execFill_def split: sum.splits if_splits)
  then show ?thesis by (simp add: R_refl)
next
  case True
  assume e: "execFill m nx sink order bar w = (w', r)" and ok: "ok r"
  obtain legs where l: "fm_Fill m order bar = Inr legs" "legs \<noteq> []" using True by blast
  obtain s w1 where n: "nx w = (s, w1)" by (cases "nx w")
  obtain w2 r2 where g: "legLoop m sink (''V-'' @ fmtUint (unat s)) order bar 0 legs 0 w1 = (w2, r2)"
    by (cases "legLoop m sink (''V-'' @ fmtUint (unat s)) order bar 0 legs 0 w1")
  have "w' = w2" "okRes r2"
    using e ok g by (auto simp: execFill_def l n ok_okRes okRes_simps split: sum.splits if_splits)
  then show ?thesis using R_trans [OF nx_R [OF n] legLoop_R [OF g]] by simp
qed

lemma fillAllLoop_R: "fillAllLoop m nx sink bar ods w = (w', r) \<Longrightarrow> ok r \<Longrightarrow> R w w'"
proof (induction ods arbitrary: w)
  case (Cons od ods)
  obtain w1 r1 where e: "execFill m nx sink od bar w = (w1, r1)" by (cases "execFill m nx sink od bar w")
  show ?case
  proof (cases r1)
    case (Inl err)
    then show ?thesis using Cons.prems e execFill_R [OF e] by simp
  next
    case (Inr u)
    then have "fillAllLoop m nx sink bar ods w1 = (w', r)" using Cons.prems e by simp
    from R_trans [OF execFill_R [OF e] Cons.IH [OF this Cons.prems(2)]] show ?thesis using Inr by (simp add: ok_Inr)
  qed
qed (simp add: R_refl)

lemma flushLoop_R: "flushLoop m nx sink bars ods unfilled w = (w', r) \<Longrightarrow> okRes r \<Longrightarrow> R w w'"
proof (induction ods arbitrary: unfilled w)
  case (Cons od ods)
  show ?case
  proof (cases "mapGet bars (ord_Symbol od)")
    case None
    then show ?thesis using Cons by simp
  next
    case (Some bar)
    obtain w1 r1 where e: "execFill m nx sink od bar w = (w1, r1)" by (cases "execFill m nx sink od bar w")
    show ?thesis
    proof (cases r1)
      case (Inl err)
      then have "w' = w1" "ok r1" using Cons.prems e Some by (auto simp: okRes_simps)
      then show ?thesis using execFill_R [OF e] by simp
    next
      case (Inr u)
      then have "flushLoop m nx sink bars ods unfilled w1 = (w', r)" using Cons.prems e Some by simp
      from R_trans [OF execFill_R [OF e] Cons.IH [OF this Cons.prems(2)]] show ?thesis using Inr by (simp add: ok_Inr)
    qed
  qed
qed (simp add: R_refl)

lemma ProcessBar_R: "ProcessBar m nx sink e bar w = (e', w', r) \<Longrightarrow> ok r \<Longrightarrow> R w w'"
proof (cases "fm_Timing m")
  case FillNextBar
  assume p: "ProcessBar m nx sink e bar w = (e', w', r)" and "ok r"
  then show ?thesis
    using FillNextBar fillAllLoop_R [of m bar "listAt (ex_pending e) (bar_Symbol bar)" w w' r]
    by (auto simp: ProcessBar_def Let_def split: prod.splits)
qed (simp add: ProcessBar_def Let_def R_refl)

lemma FlushThisBar_R:
  assumes "FlushThisBar m nx sink e w = (e', w', r)" "ok r"
  shows "R w w'"
proof (cases "fm_Timing m \<noteq> FillThisBar \<or> submittedThisBar e = []")
  case True
  then have "w' = w" using assms(1) by (auto simp: FlushThisBar_def)
  then show ?thesis by (simp add: R_refl)
next
  case False
  obtain w1 r1 where f: "flushLoop m nx sink (barsThisTS e) (submittedThisBar e) [] w = (w1, r1)"
    by (cases "flushLoop m nx sink (barsThisTS e) (submittedThisBar e) [] w")
  then have "w' = w1" "okRes r1" using assms False by (auto simp: FlushThisBar_def ok_okRes okRes_simps split: sum.splits)
  then show ?thesis using flushLoop_R [OF f] by simp
qed

lemma FillAtBar_R: "FillAtBar m nx sink order bar w = (w', r) \<Longrightarrow> ok r \<Longrightarrow> R w w'"
  using execFill_R [of m order bar w w' r]
  by (auto simp: FillAtBar_def R_refl split: sum.splits if_splits)

lemma NewClientOrderID_R: "NewClientOrderID nx w = (coid, w') \<Longrightarrow> R w w'"
  using nx_R by (auto simp: NewClientOrderID_def Let_def split: prod.splits)

end

section \<open>Properties\<close>

text \<open>C32. An order that fills, fills completely: under either fill model the emitted fills carry the order's
  identity and side, are valid, follow the model's legs price by price, and their quantities add up to the
  ordered quantity.\<close>

theorem fills_complete_order:
  assumes "m = CloseFillModel \<or> m = realisticModel rp"
    and "execFill m nx sink order bar w = (w', Inr ())"
  shows "\<exists>legs s w1 fs. fm_Fill m order bar = Inr legs \<and> nx w = (s, w1) \<and> emitAll sink fs w1 = Some w' \<and>
    list_all (fillOf order bar) fs \<and> fillsTotal fs = sint (ord_Qty order) \<and>
    map fill_Price fs = map leg_Price legs \<and> map fill_Qty fs = map leg_Qty legs"
proof -
  have "fill_model m" using assms(1) close_fill.fill_model_axioms realistic.fill_model_axioms by auto
  from fill_model.execFill_complete [OF this assms(2)] show ?thesis by metis
qed

definition deepOrder :: Order where
  "deepOrder = NewMarketOrder ''C'' ''s'' ''X'' OrderSideBuy 7 ''deep'' \<lparr>t_ns = 4, t_off = 0\<rparr>"

definition thinBar :: Bar where
  "thinBar = \<lparr>bar_Symbol = ''X'', bar_TS = \<lparr>t_ns = 4, t_off = 0\<rparr>, bar_Open = 900, bar_High = 1100, bar_Low = 900,
     bar_Close = 1000, bar_Volume = 8\<rparr>"

text \<open>A sequence source and a sink that number and collect.\<close>

definition countUp :: "(uint64 \<times> Fill list) seq_source" where
  "countUp w = (fst w, (fst w + 1, snd w))"

definition collect :: "(uint64 \<times> Fill list) fill_sink" where
  "collect f w = ((fst w, snd w @ [f]), Inr ())"

theorem fills_complete_order_witness:
  "\<exists>w' fs. execFill CloseFillModel countUp collect deepOrder thinBar (3, []) = (w', Inr ()) \<and>
    emitAll collect fs (4, []) = Some w' \<and> fillsTotal fs = 7 \<and> map (sint \<circ> fill_Price) fs = [1000, 1100]"
proof -
  let ?x = "execFill CloseFillModel countUp collect deepOrder thinBar (3, [])"
  have "isOk (snd ?x)" by code_simp
  then obtain w' where x: "?x = (w', Inr ())" by (cases ?x; cases "snd ?x") auto
  obtain legs s w1 fs where L: "fm_Fill CloseFillModel deepOrder thinBar = Inr legs" "countUp (3, []) = (s, w1)"
    "emitAll collect fs w1 = Some w'" "fillsTotal fs = sint (ord_Qty deepOrder)" "map fill_Price fs = map leg_Price legs"
    using fills_complete_order [OF _ x] by blast
  have "(map_sum id (map (sint \<circ> leg_Price)) (fm_Fill CloseFillModel deepOrder thinBar) = Inr [1000, 1100]) \<and>
    (sint (ord_Qty deepOrder) = 7)" by code_simp
  then have "map_sum id (map (sint \<circ> leg_Price)) (fm_Fill CloseFillModel deepOrder thinBar) = Inr [1000, 1100]"
    "sint (ord_Qty deepOrder) = 7" by blast+
  then have "map (sint \<circ> leg_Price) legs = [1000, 1100]" "fillsTotal fs = 7" using L by simp_all
  moreover have "map (sint \<circ> fill_Price) fs = map sint (map fill_Price fs)" by simp
  moreover have "w1 = (4, [])" using L(2) by (simp add: countUp_def)
  ultimately show ?thesis using x L(3,5) by (intro exI [of _ w'] exI [of _ fs]) simp
qed

text \<open>Flushing a timestamp fills, in submission order, exactly the orders whose symbol has a bar at the
  current timestamp, each once at that bar, and keeps exactly the others, in order.\<close>

theorem flush_fills_barred_orders:
  assumes "fm_Timing m = FillThisBar" "FlushThisBar m nx sink ex w = (ex', w', Inr ())"
  shows "submittedThisBar ex' = filter (\<lambda>od. mapGet (barsThisTS ex) (ord_Symbol od) = None) (submittedThisBar ex)"
    and "fillEach m nx sink (fillable (barsThisTS ex) (submittedThisBar ex)) w = (w', Inr ())"
  using FlushThisBar_ok [OF assms] by blast+

definition twoOrders :: SimExecutor where
  "twoOrders = NewSimExecutor\<lparr>submittedThisBar := [deepOrder, deepOrder\<lparr>ord_Symbol := ''Y''\<rparr>], barsThisTS := [(''X'', thinBar)]\<rparr>"

theorem flush_fills_barred_orders_witness:
  "\<exists>ex' w'. FlushThisBar CloseFillModel countUp collect twoOrders (3, []) = (ex', w', Inr ()) \<and>
    map ord_Symbol (submittedThisBar ex') = [''Y''] \<and>
    fillEach CloseFillModel countUp collect [(deepOrder, thinBar)] (3, []) = (w', Inr ())"
proof -
  let ?x = "FlushThisBar CloseFillModel countUp collect twoOrders (3, [])"
  have "isOk (snd (snd ?x))" by code_simp
  then obtain ex' w' where x: "?x = (ex', w', Inr ())" by (cases ?x; cases "snd (snd ?x)") auto
  have t: "fm_Timing CloseFillModel = FillThisBar" by (simp add: CloseFillModel_def)
  have "map ord_Symbol (filter (\<lambda>od. mapGet (barsThisTS twoOrders) (ord_Symbol od) = None) (submittedThisBar twoOrders)) = [''Y'']"
    by code_simp
  moreover have "fillable (barsThisTS twoOrders) (submittedThisBar twoOrders) = [(deepOrder, thinBar)]" by code_simp
  ultimately show ?thesis using flush_fills_barred_orders [OF t x] x by auto
qed

end
