(* ===== verification/Risk_Gate.thy ===== *)
theory Risk_Gate
  imports Complex_Main Domain_Types
begin

text \<open>
  The pre-trade gate of \<open>internal/riskgate\<close> (\<open>decimal.go\<close>, \<open>types.go\<close>, \<open>allocator.go\<close>,
  \<open>risk_constraints.go\<close>, \<open>portfolio.go\<close>, \<open>bridge.go\<close>, \<open>gate_signal.go\<close>).  The exact decimals of the
  package (\<open>big.Rat\<close>) are rationals; a configured percentage is the rational \<open>decFromPctFloat\<close> makes
  of the shortest decimal form of the float.  Share counts stay \<open>int64\<close> and wrap as in the code.  A
  decision keeps the rule name; the text of the reason is not modelled.  The locale \<open>risk_stage\<close> is
  the contract of a stage of the pipeline, met by the allocator, the risk constraints and their
  composition.
\<close>

section \<open>Exact decimals\<close>

definition DecFromMoney :: "Money \<Rightarrow> rat" where
  "DecFromMoney m = of_int (sint m) / of_int FixedScale"

definition DecFromPrice :: "Price \<Rightarrow> rat" where
  "DecFromPrice p = of_int (sint p) / of_int FixedScale"

definition decFromInt :: "int64 \<Rightarrow> rat" where
  "decFromInt v = of_int (sint v)"

definition decPrec :: int where
  "decPrec = 28"

definition ratRoundHalfEven :: "rat \<Rightarrow> nat \<Rightarrow> rat" where
  "ratRoundHalfEven r places =
     (let scale = (10 :: int) ^ places; (num, den) = quotient_of (r * of_int scale);
          q = num sdiv den; rem = num smod den;
          q1 = (if rem = 0 then q
                else let twice = 2 * \<bar>rem\<bar>; roundUp = (den < twice \<or> (twice = den \<and> odd q))
                     in if roundUp then (if num < 0 then q - 1 else q + 1) else q)
      in of_int q1 / of_int scale)"

text \<open>The position of the first nonzero fraction digit of a value in (0, 1).\<close>

function msdLoop :: "rat \<Rightarrow> int \<Rightarrow> int" where
  "msdLoop scaled msd = (if scaled \<le> 0 \<or> 1 \<le> scaled then msd else msdLoop (scaled * 10) (msd - 1))"
  by pat_completeness auto
termination
proof (relation "measure (\<lambda>(s, m). nat \<lfloor>1 / s\<rfloor>)", goal_cases)
  case (2 s m)
  then have s: "0 < s" "s < 1" by auto
  then have "1 \<le> 1 / s" by simp
  then have one: "1 \<le> \<lfloor>1 / s\<rfloor>" by linarith
  then have one': "(1 :: rat) \<le> of_int \<lfloor>1 / s\<rfloor>" by linarith
  have "1 / (s * 10) < of_int \<lfloor>1 / s\<rfloor>"
  proof -
    have "1 / s < of_int \<lfloor>1 / s\<rfloor> + 1" by linarith
    also have "\<dots> \<le> 10 * of_int \<lfloor>1 / s\<rfloor>" using one' by linarith
    finally show ?thesis using s by (simp add: field_simps)
  qed
  then have "\<lfloor>1 / (s * 10)\<rfloor> < \<lfloor>1 / s\<rfloor>" by linarith
  then show ?case using one by (simp add: nat_less_iff) 
qed auto

declare msdLoop.simps [simp del]

definition decQuo :: "rat \<Rightarrow> rat \<Rightarrow> rat" where
  "decQuo d e =
     (let q = d / e in
      if q = 0 \<or> snd (quotient_of q) = 1 then q
      else let ab = \<bar>q\<bar>; intPart = \<lfloor>ab\<rfloor>;
               msd = (if 0 < intPart then int (length (fmtUint (nat intPart))) - 1 else msdLoop ab 0);
               places = decPrec - 1 - msd
           in ratRoundHalfEven q (nat places))"

section \<open>Orders, decisions, snapshots\<close>

record ProposedOrder =
  po_StrategyID :: string
  po_Symbol :: string
  po_Side :: SignalSide
  po_Qty :: int64
  po_Price :: rat
  po_TS :: gotime

record RiskDecision =
  Approved :: bool
  RuleName :: string

definition Approve :: RiskDecision where
  "Approve = \<lparr>Approved = True, RuleName = []\<rparr>"

definition Reject :: "string \<Rightarrow> RiskDecision" where
  "Reject rule = \<lparr>Approved = False, RuleName = rule\<rparr>"

record RiskSnapshot =
  rs_NAV :: rat
  rs_Cash :: rat
  rs_RealizedPnLToday :: rat
  rs_UnrealizedPnLToday :: rat
  rs_Positions :: "(StrategySymbol, int64) gomap"
  rs_LastClose :: "(string, rat) gomap"

definition rs_TotalPnLToday :: "RiskSnapshot \<Rightarrow> rat" where
  "rs_TotalPnLToday a = rs_RealizedPnLToday a + rs_UnrealizedPnLToday a"

definition rs_StrategyPosition :: "RiskSnapshot \<Rightarrow> string \<Rightarrow> string \<Rightarrow> int64" where
  "rs_StrategyPosition a sid sy = (case mapGet (rs_Positions a) (sid, sy) of None \<Rightarrow> 0 | Some q \<Rightarrow> q)"

fun rs_netLoop :: "string \<Rightarrow> (StrategySymbol, int64) gomap \<Rightarrow> int64 \<Rightarrow> int64" where
  "rs_netLoop sy [] net = net"
| "rs_netLoop sy ((k, qty) # m) net = rs_netLoop sy m (if snd k = sy then net + qty else net)"

definition rs_NetPositionAcrossStrategies :: "RiskSnapshot \<Rightarrow> string \<Rightarrow> int64" where
  "rs_NetPositionAcrossStrategies a sy = rs_netLoop sy (rs_Positions a) 0"

definition absInt64 :: "int64 \<Rightarrow> int64" where
  "absInt64 v = (if sint v < 0 then - v else v)"

definition priceOr :: "(string, rat) gomap \<Rightarrow> string \<Rightarrow> rat \<Rightarrow> rat" where
  "priceOr m sy d = (case mapGet m sy of None \<Rightarrow> d | Some p \<Rightarrow> p)"

fun rs_grossLoop :: "(string, rat) gomap \<Rightarrow> string \<Rightarrow> (StrategySymbol, int64) gomap \<Rightarrow> rat \<Rightarrow> rat" where
  "rs_grossLoop closes sid [] tot = tot"
| "rs_grossLoop closes sid ((k, qty) # m) tot =
     (if fst k \<noteq> sid \<or> qty = 0 then rs_grossLoop closes sid m tot
      else rs_grossLoop closes sid m (tot + decFromInt (absInt64 qty) * priceOr closes (snd k) 0))"

definition rs_GrossExposureForStrategy :: "RiskSnapshot \<Rightarrow> string \<Rightarrow> rat" where
  "rs_GrossExposureForStrategy a sid = rs_grossLoop (rs_LastClose a) sid (rs_Positions a) 0"

section \<open>The allocator\<close>

type_synonym StrategyAllocation = "string \<times> rat"
type_synonym Allocator = "(string, rat) gomap"

text \<open>\<open>sumExceeds\<close> stands for the float comparison of the running total with \<open>1.0 + 1e-9\<close>.\<close>

fun allocLoop :: "StrategyAllocation list \<Rightarrow> Allocator \<Rightarrow> Allocator result" where
  "allocLoop [] tbl = Inr tbl"
| "allocLoop ((sid, pct) # as) tbl =
     (if mapGet tbl sid \<noteq> None then Inl (ErrPlain ''duplicate strategy_id'')
      else if \<not> (0 < pct \<and> pct \<le> 1) then Inl (ErrPlain ''capital_pct must be in (0, 1]'')
      else allocLoop as (mapSet sid pct tbl))"

definition NewAllocator :: "(rat list \<Rightarrow> bool) \<Rightarrow> StrategyAllocation list \<Rightarrow> Allocator result" where
  "NewAllocator sumExceeds allocations =
     (if allocations = [] then Inl (ErrPlain ''Allocator requires at least one StrategyAllocation'')
      else bindR (allocLoop allocations []) (\<lambda>tbl.
        if sumExceeds (map snd allocations) then Inl (ErrPlain ''allocations sum to more than 1.0'')
        else Inr tbl))"

definition BudgetPct :: "Allocator \<Rightarrow> string \<Rightarrow> rat" where
  "BudgetPct a sid = (case mapGet a sid of None \<Rightarrow> 0 | Some p \<Rightarrow> p)"

definition budgetDollars :: "Allocator \<Rightarrow> string \<Rightarrow> RiskSnapshot \<Rightarrow> rat" where
  "budgetDollars a sid account = rs_NAV account * BudgetPct a sid"

definition CheckOrderWithinBudget :: "Allocator \<Rightarrow> ProposedOrder \<Rightarrow> RiskSnapshot \<Rightarrow> RiskDecision" where
  "CheckOrderWithinBudget a order account =
     (if po_Side order = SideFlat \<or> sint (po_Qty order) \<le> 0 then Approve
      else let budget = budgetDollars a (po_StrategyID order) account in
        if budget \<le> 0 then Reject ''allocator.unregistered_strategy''
        else let currentGross = rs_GrossExposureForStrategy account (po_StrategyID order);
                 orderValue = decFromInt (po_Qty order) * po_Price order;
                 newGross = currentGross + orderValue
             in if budget < newGross then Reject ''allocator.budget_exceeded'' else Approve)"

section \<open>Risk constraints\<close>

record RiskConstraintsConfig =
  MaxSingleNamePct :: rat
  ConcentrationPct :: rat
  DailyLossHaltPct :: rat

definition DefaultRiskConstraintsConfig :: RiskConstraintsConfig where
  "DefaultRiskConstraintsConfig = \<lparr>MaxSingleNamePct = 1 / 5, ConcentrationPct = 3 / 10, DailyLossHaltPct = 1 / 20\<rparr>"

definition RiskConstraintsConfig_Validate :: "RiskConstraintsConfig \<Rightarrow> unit result" where
  "RiskConstraintsConfig_Validate c =
     (if list_all (\<lambda>v. 0 < v \<and> v \<le> 1) [MaxSingleNamePct c, ConcentrationPct c, DailyLossHaltPct c]
      then Inr () else Inl (ErrPlain ''pct must be in (0, 1]''))"

definition NewRiskConstraints :: "RiskConstraintsConfig \<Rightarrow> RiskConstraintsConfig result" where
  "NewRiskConstraints cfg = bindR (RiskConstraintsConfig_Validate cfg) (\<lambda>_. Inr cfg)"

definition checkDailyLossHalt :: "RiskConstraintsConfig \<Rightarrow> RiskSnapshot \<Rightarrow> RiskDecision" where
  "checkDailyLossHalt c account =
     (let threshold = - (rs_NAV account * DailyLossHaltPct c); pnl = rs_TotalPnLToday account
      in if pnl < threshold then Reject ''risk.daily_loss_halt'' else Approve)"

definition checkMaxSingleName :: "RiskConstraintsConfig \<Rightarrow> ProposedOrder \<Rightarrow> RiskSnapshot \<Rightarrow> RiskDecision" where
  "checkMaxSingleName c order account =
     (let heldQty = absInt64 (rs_StrategyPosition account (po_StrategyID order) (po_Symbol order));
          lastClose = priceOr (rs_LastClose account) (po_Symbol order) (po_Price order);
          heldValue = decFromInt heldQty * lastClose;
          newValue = heldValue + decFromInt (po_Qty order) * po_Price order;
          cap = rs_NAV account * MaxSingleNamePct c
      in if cap < newValue then Reject ''risk.max_single_name'' else Approve)"

definition checkConcentration :: "RiskConstraintsConfig \<Rightarrow> ProposedOrder \<Rightarrow> RiskSnapshot \<Rightarrow> RiskDecision" where
  "checkConcentration c order account =
     (let currentNet = rs_NetPositionAcrossStrategies account (po_Symbol order);
          signedQty = (if po_Side order \<noteq> SideLong then - po_Qty order else po_Qty order);
          newNet = currentNet + signedQty;
          newNetValue = decFromInt (absInt64 newNet) * po_Price order;
          cap = rs_NAV account * ConcentrationPct c
      in if cap < newNetValue then Reject ''risk.concentration'' else Approve)"

definition RiskConstraints_Check :: "RiskConstraintsConfig \<Rightarrow> ProposedOrder \<Rightarrow> RiskSnapshot \<Rightarrow> RiskDecision" where
  "RiskConstraints_Check c order account =
     (if po_Side order = SideFlat \<or> sint (po_Qty order) \<le> 0 then Approve
      else if \<not> Approved (checkDailyLossHalt c account) then checkDailyLossHalt c account
      else if \<not> Approved (checkMaxSingleName c order account) then checkMaxSingleName c order account
      else if \<not> Approved (checkConcentration c order account) then checkConcentration c order account
      else Approve)"

section \<open>The gate\<close>

record Gate =
  g_allocator :: Allocator
  g_constraints :: RiskConstraintsConfig

definition NewGate :: "Allocator \<Rightarrow> RiskConstraintsConfig \<Rightarrow> Gate" where
  "NewGate allocator riskConstraints = \<lparr>g_allocator = allocator, g_constraints = riskConstraints\<rparr>"

definition Gate_Check :: "Gate \<Rightarrow> ProposedOrder \<Rightarrow> RiskSnapshot \<Rightarrow> RiskDecision" where
  "Gate_Check p order account =
     (if \<not> Approved (CheckOrderWithinBudget (g_allocator p) order account)
      then CheckOrderWithinBudget (g_allocator p) order account
      else if \<not> Approved (RiskConstraints_Check (g_constraints p) order account)
      then RiskConstraints_Check (g_constraints p) order account
      else Approve)"

record PortfolioHealthSnapshot =
  DayPnL :: rat
  DayPnLPct :: rat
  DailyLossHalt :: bool
  HaltHeadroomPct :: rat
  hs_ConcentrationPct :: rat

fun concentrationLoop :: "RiskSnapshot \<Rightarrow> StrategySymbol list \<Rightarrow> string list \<Rightarrow> rat \<Rightarrow> rat" where
  "concentrationLoop account [] seen conc = conc"
| "concentrationLoop account (k # ks) seen conc =
     (if snd k \<in> set seen then concentrationLoop account ks seen conc
      else let seen1 = snd k # seen; net = rs_NetPositionAcrossStrategies account (snd k) in
        if net = 0 then concentrationLoop account ks seen1 conc
        else let px = priceOr (rs_LastClose account) (snd k) 0;
                 pct = decQuo (decFromInt (absInt64 net) * px) (rs_NAV account)
             in concentrationLoop account ks seen1 (if conc < pct then pct else conc))"

definition HealthSnapshot :: "Gate \<Rightarrow> RiskSnapshot \<Rightarrow> PortfolioHealthSnapshot" where
  "HealthSnapshot p account =
     (let nav = rs_NAV account; dayPnL = rs_TotalPnLToday account;
          threshold = - (nav * DailyLossHaltPct (g_constraints p)); halted = dayPnL < threshold
      in \<lparr>DayPnL = dayPnL, DayPnLPct = (if 0 < nav then decQuo dayPnL nav else 0), DailyLossHalt = halted,
          HaltHeadroomPct = (if \<not> halted \<and> 0 < nav then decQuo (dayPnL - threshold) nav else 0),
          hs_ConcentrationPct = (if 0 < nav then concentrationLoop account (mapKeys (rs_Positions account)) [] 0 else 0)\<rparr>)"

section \<open>The bridge from the engine\<close>

definition NewProposedOrder :: "string \<Rightarrow> string \<Rightarrow> SignalSide \<Rightarrow> Qty \<Rightarrow> Price \<Rightarrow> gotime \<Rightarrow> ProposedOrder" where
  "NewProposedOrder sid sy side qty price ts =
     \<lparr>po_StrategyID = sid, po_Symbol = sy, po_Side = side, po_Qty = qty, po_Price = DecFromPrice price, po_TS = ts\<rparr>"

definition SnapshotFromDomain :: "PortfolioSnapshot \<Rightarrow> RiskSnapshot" where
  "SnapshotFromDomain s =
     \<lparr>rs_NAV = DecFromMoney (ps_NAV s), rs_Cash = DecFromMoney (ps_Cash s),
      rs_RealizedPnLToday = DecFromMoney (ps_RealizedPnLToday s),
      rs_UnrealizedPnLToday = DecFromMoney (ps_UnrealizedPnLToday s),
      rs_Positions = cloneMapLoop (ps_Positions s) [],
      rs_LastClose = cloneMapLoop (map (\<lambda>(sy, px). (sy, DecFromPrice px)) (ps_LastClose s)) []\<rparr>"

record Rejection =
  rj_StrategyID :: string
  rj_Symbol :: string
  rj_Side :: SignalSide
  rj_Qty :: Qty
  rj_Price :: Price
  rj_RuleName :: string
  rj_TS :: gotime

text \<open>The recorder is a step on the caller's world; \<open>None\<close> is a nil recorder, a nil gate approves.\<close>

definition GateSignal :: "Gate option \<Rightarrow> ProposedOrder \<Rightarrow> RiskSnapshot \<Rightarrow> Price \<Rightarrow> (Rejection \<Rightarrow> 'w \<Rightarrow> 'w) option \<Rightarrow> 'w \<Rightarrow>
    'w \<times> RiskDecision" where
  "GateSignal gate proposed account price recorder w =
     (case gate of
        None \<Rightarrow> (w, Approve)
      | Some g \<Rightarrow>
          (let decision = Gate_Check g proposed account in
           case recorder of
             Some rc \<Rightarrow>
               if \<not> Approved decision then
                 (rc \<lparr>rj_StrategyID = po_StrategyID proposed, rj_Symbol = po_Symbol proposed, rj_Side = po_Side proposed,
                      rj_Qty = po_Qty proposed, rj_Price = price, rj_RuleName = RuleName decision,
                      rj_TS = po_TS proposed\<rparr> w, decision)
               else (w, decision)
           | None \<Rightarrow> (w, decision)))"

section \<open>Division rounds half to even at 28 significant digits\<close>

lemma ratRoundHalfEven_rhe:
  "ratRoundHalfEven r n = of_int (case quotient_of (r * 10 ^ n) of (a, b) \<Rightarrow> rhe a b) / 10 ^ n"
proof (cases "quotient_of (r * 10 ^ n)")
  case (Pair a b)
  then have "0 < b" by (rule quotient_of_denom_pos)
  note rhe_truncated_any [OF this refl refl, of a]
  then show ?thesis by (simp add: ratRoundHalfEven_def Let_def Pair)
qed

lemma ratRoundHalfEven_error: "\<bar>ratRoundHalfEven r n - r\<bar> \<le> 1 / (2 * 10 ^ n)"
proof (cases "quotient_of (r * 10 ^ n)")
  case (Pair a b)
  have b: "0 < b" by (rule quotient_of_denom_pos [OF Pair])
  have ab: "r * 10 ^ n = of_int a / of_int b" using quotient_of_div [OF Pair] by simp
  let ?x = "of_int (rhe a b) :: rat"
  have "of_int (2 * \<bar>a - rhe a b * b\<bar>) \<le> (of_int b :: rat)" using rhe_nearest [OF b, of a] by (simp only: of_int_le_iff)
  then have "2 * \<bar>of_int a - ?x * of_int b\<bar> \<le> of_int b" by simp
  moreover have "of_int a - ?x * of_int b = (r * 10 ^ n - ?x) * of_int b" using b by (simp add: ab algebra_simps)
  ultimately have "2 * \<bar>r * 10 ^ n - ?x\<bar> * of_int b \<le> 1 * of_int b" using b by (simp add: abs_mult)
  then have near: "2 * \<bar>r * 10 ^ n - ?x\<bar> \<le> 1" using b by (simp only: mult_le_cancel_right_pos of_int_0_less_iff)
  have "\<bar>?x / 10 ^ n - r\<bar> = \<bar>r * 10 ^ n - ?x\<bar> / 10 ^ n"
    by (simp add: field_simps abs_div_pos [symmetric] abs_minus_commute)
  then show ?thesis using near by (simp add: ratRoundHalfEven_rhe Pair field_simps)
qed

lemma msdLoop_le: "0 < s \<Longrightarrow> s < 10 \<Longrightarrow> \<exists>k. msdLoop s m = m - int k \<and> 1 \<le> s * 10 ^ k \<and> s * 10 ^ k < 10"
proof (induction s m rule: msdLoop.induct)
  case (1 s m)
  show ?case
  proof (cases "1 \<le> s")
    case True
    then show ?thesis using 1(3) by (intro exI [of _ 0]) (simp add: msdLoop.simps [of s m])
  next
    case False
    then obtain k where k: "msdLoop (s * 10) (m - 1) = m - 1 - int k" "1 \<le> s * 10 * 10 ^ k" "s * 10 * 10 ^ k < 10"
      using 1 by auto
    then show ?thesis using False 1(2) by (intro exI [of _ "Suc k"]) (simp add: msdLoop.simps [of s m])
  qed
qed


lemma decQuo_scale:
  assumes "0 < q" and "msd = (if 0 < \<lfloor>q\<rfloor> then int (length (fmtUint (nat \<lfloor>q\<rfloor>))) - 1 else msdLoop q 0)"
  shows "10 ^ 27 \<le> q * 10 ^ nat (decPrec - 1 - msd)"
proof (cases "0 < \<lfloor>q\<rfloor>")
  case True
  obtain L where len: "length (fmtUint (nat \<lfloor>q\<rfloor>)) = Suc L" by (metis fmtUint_not_Nil length_Cons list.exhaust)
  then have msd: "nat (decPrec - 1 - msd) = 27 - L" using True assms(2) by (simp add: decPrec_def)
  have "10 ^ L \<le> nat \<lfloor>q\<rfloor>" using fmtUint_length_le [of "nat \<lfloor>q\<rfloor>"] True by (simp add: len)
  then have "(10 :: int) ^ L \<le> \<lfloor>q\<rfloor>" using True by (simp add: nat_le_iff flip: of_nat_le_iff) 
  then have L: "10 ^ L \<le> q" by (simp add: le_floor_iff)
  have "(10 :: rat) ^ 27 \<le> 10 ^ (L + (27 - L))" by (rule power_increasing) auto
  also have "\<dots> \<le> q * 10 ^ (27 - L)" using L by (simp add: power_add)
  finally show ?thesis by (simp only: msd)
next
  case False
  then have "q < 1" by linarith
  then obtain k where k: "msdLoop q 0 = - int k" "1 \<le> q * 10 ^ k" using msdLoop_le [of q 0] assms(1) by auto
  then have "nat (decPrec - 1 - msd) = k + 27" using False assms(2) by (simp add: decPrec_def)
  moreover have "1 * 10 ^ 27 \<le> (q * 10 ^ k) * 10 ^ 27" using k(2) by (intro mult_right_mono) auto
  ultimately show ?thesis by (simp add: power_add mult.assoc)
qed

lemma decQuo_error:
  assumes "e \<noteq> 0"
  shows "\<bar>decQuo d e - d / e\<bar> \<le> \<bar>d / e\<bar> / (2 * 10 ^ 27)"
proof (cases "d / e = 0 \<or> snd (quotient_of (d / e)) = 1")
  case True
  then show ?thesis by (simp add: decQuo_def Let_def)
next
  case False
  let ?q = "d / e"
  define msd where "msd = (if 0 < \<lfloor>\<bar>?q\<bar>\<rfloor> then int (length (fmtUint (nat \<lfloor>\<bar>?q\<bar>\<rfloor>))) - 1 else msdLoop \<bar>?q\<bar> 0)"
  define n where "n = nat (decPrec - 1 - msd)"
  have "0 < \<bar>?q\<bar>" using False by simp
  from decQuo_scale [OF this msd_def] have s: "10 ^ 27 \<le> \<bar>?q\<bar> * 10 ^ n" by (simp only: n_def)
  have "decQuo d e = ratRoundHalfEven ?q n" using False by (simp add: decQuo_def Let_def n_def msd_def)
  then have "\<bar>decQuo d e - ?q\<bar> \<le> 1 / (2 * 10 ^ n)" using ratRoundHalfEven_error by simp
  also have "\<dots> \<le> \<bar>?q\<bar> / (2 * 10 ^ 27)" using s by (simp add: field_simps)
  finally show ?thesis .
qed

section \<open>Aggregates over the positions\<close>

definition sumEntries :: "('k \<times> 'v \<Rightarrow> 'a :: comm_monoid_add) \<Rightarrow> ('k, 'v) gomap \<Rightarrow> 'a" where
  "sumEntries g m = (\<Sum>e\<leftarrow>m. g e)"

lemma sumEntries_mset: "mset m = mset m' \<Longrightarrow> sumEntries g m = sumEntries g m'"
  unfolding sumEntries_def by (metis mset_map sum_mset_sum_list)

lemma sumEntries_set:
  fixes g :: "'k \<times> 'v \<Rightarrow> 'a :: ab_group_add"
  shows "mapWf m \<Longrightarrow>
    sumEntries g (mapSet k v m) = sumEntries g m - (case mapGet m k of None \<Rightarrow> 0 | Some w \<Rightarrow> g (k, w)) + g (k, v)"
proof (induction m)
  case (Cons e m)
  obtain k' w where e: "e = (k', w)" by (cases e)
  show ?case
  proof (cases "k' = k")
    case True
    then show ?thesis by (simp add: e mapSet_def sumEntries_def mapGet_def)
  next
    case False
    then show ?thesis using Cons by (simp add: e mapSet_def sumEntries_def mapGet_def mapWf_def mapKeys_def)
  qed
qed (simp add: mapSet_def sumEntries_def mapGet_def)

lemma absInt64_exact: "v \<noteq> MinInt64 \<Longrightarrow> sint (absInt64 v) = \<bar>sint v\<bar>"
  using sint_bounds [of v] by (auto simp: absInt64_def not_Min_sint sint_uminus fits64_def)

definition grossEntry :: "(string, rat) gomap \<Rightarrow> string \<Rightarrow> StrategySymbol \<times> int64 \<Rightarrow> rat" where
  "grossEntry closes sid e =
     (if fst (fst e) = sid then decFromInt (absInt64 (snd e)) * priceOr closes (snd (fst e)) 0 else 0)"

definition netEntry :: "string \<Rightarrow> StrategySymbol \<times> int64 \<Rightarrow> int64" where
  "netEntry sy e = (if snd (fst e) = sy then snd e else 0)"

definition netShares :: "string \<Rightarrow> (StrategySymbol, int64) gomap \<Rightarrow> int" where
  "netShares sy m = sumEntries (\<lambda>e. if snd (fst e) = sy then sint (snd e) else 0) m"

lemma rs_grossLoop_sum: "rs_grossLoop closes sid m tot = tot + sumEntries (grossEntry closes sid) m"
  by (induction closes sid m tot rule: rs_grossLoop.induct)
    (auto simp: sumEntries_def grossEntry_def decFromInt_def absInt64_def)

lemma rs_netLoop_sum: "rs_netLoop sy m net = net + sumEntries (netEntry sy) m"
  by (induction sy m net rule: rs_netLoop.induct) (auto simp: sumEntries_def netEntry_def)

lemma gross_sum: "rs_GrossExposureForStrategy a sid = sumEntries (grossEntry (rs_LastClose a) sid) (rs_Positions a)"
  by (simp add: rs_GrossExposureForStrategy_def rs_grossLoop_sum)

lemma net_sum: "rs_NetPositionAcrossStrategies a sy = sumEntries (netEntry sy) (rs_Positions a)"
  by (simp add: rs_NetPositionAcrossStrategies_def rs_netLoop_sum)

text \<open>Wrapping addition is a ring homomorphism: a net that fits is exact whatever the partial sums do.\<close>

lemma netEntries_i64: "sumEntries (netEntry sy) m = i64 (netShares sy m)"
  by (induction m) (auto simp: sumEntries_def netEntry_def netShares_def i64_def)

lemma net_exact: "fits64 (netShares sy (rs_Positions a)) \<Longrightarrow>
    sint (rs_NetPositionAcrossStrategies a sy) = netShares sy (rs_Positions a)"
  by (simp add: net_sum netEntries_i64 sint_i64)

text \<open>Two snapshots a Go reader cannot tell apart: the same entries in some iteration order.\<close>

definition sameView :: "RiskSnapshot \<Rightarrow> RiskSnapshot \<Rightarrow> bool" where
  "sameView a b \<longleftrightarrow> rs_NAV a = rs_NAV b \<and> rs_RealizedPnLToday a = rs_RealizedPnLToday b \<and>
     rs_UnrealizedPnLToday a = rs_UnrealizedPnLToday b \<and> mset (rs_Positions a) = mset (rs_Positions b) \<and>
     mapGet (rs_Positions a) = mapGet (rs_Positions b) \<and> mapGet (rs_LastClose a) = mapGet (rs_LastClose b)"

lemma sameView_reads:
  assumes "sameView a b"
  shows "rs_NAV b = rs_NAV a" "rs_TotalPnLToday b = rs_TotalPnLToday a"
    and "rs_StrategyPosition b = rs_StrategyPosition a"
    and "priceOr (rs_LastClose b) = priceOr (rs_LastClose a)"
    and "rs_NetPositionAcrossStrategies b = rs_NetPositionAcrossStrategies a"
    and "rs_GrossExposureForStrategy b = rs_GrossExposureForStrategy a"
proof -
  have px: "priceOr (rs_LastClose b) = priceOr (rs_LastClose a)" using assms by (simp add: fun_eq_iff priceOr_def sameView_def)
  then have g: "grossEntry (rs_LastClose b) sid = grossEntry (rs_LastClose a) sid" for sid by (simp add: fun_eq_iff grossEntry_def)
  have m: "mset (rs_Positions b) = mset (rs_Positions a)" using assms by (simp add: sameView_def)
  show "rs_NetPositionAcrossStrategies b = rs_NetPositionAcrossStrategies a"
    by (simp add: fun_eq_iff net_sum sumEntries_mset [OF m])
  show "rs_GrossExposureForStrategy b = rs_GrossExposureForStrategy a"
    by (simp add: fun_eq_iff gross_sum g sumEntries_mset [OF m])
qed (use assms in \<open>simp_all add: fun_eq_iff sameView_def priceOr_def rs_StrategyPosition_def rs_TotalPnLToday_def\<close>)

section \<open>The contract of a stage\<close>

definition sized :: "ProposedOrder \<Rightarrow> bool" where
  "sized order \<longleftrightarrow> po_Side order \<noteq> SideFlat \<and> 0 < sint (po_Qty order)"

text \<open>A stage never blocks an exit, answers with the bare approval or a named rejection, and reads the
  snapshot's maps without depending on their iteration order.\<close>

locale risk_stage =
  fixes stage :: "ProposedOrder \<Rightarrow> RiskSnapshot \<Rightarrow> RiskDecision"
  assumes exits_pass: "\<not> sized order \<Longrightarrow> stage order a = Approve"
    and answers: "stage order a = Approve \<or> (\<exists>rule. rule \<noteq> [] \<and> stage order a = Reject rule)"
    and view_only: "sameView a b \<Longrightarrow> stage order b = stage order a"
begin

lemma approved_iff: "Approved (stage order a) \<longleftrightarrow> stage order a = Approve"
  using answers [of order a] by (auto simp: Approve_def Reject_def)

lemma rejected_sized: "\<not> Approved (stage order a) \<Longrightarrow> sized order \<and> RuleName (stage order a) \<noteq> []"
  using answers [of order a] exits_pass [of order a] by (cases "sized order") (auto simp: Approve_def Reject_def)

end

definition inSequence :: "(ProposedOrder \<Rightarrow> RiskSnapshot \<Rightarrow> RiskDecision) \<Rightarrow>
    (ProposedOrder \<Rightarrow> RiskSnapshot \<Rightarrow> RiskDecision) \<Rightarrow> ProposedOrder \<Rightarrow> RiskSnapshot \<Rightarrow> RiskDecision" where
  "inSequence s t order a = (if \<not> Approved (s order a) then s order a else t order a)"

locale risk_pipeline = fst: risk_stage s + snd: risk_stage t
  for s t :: "ProposedOrder \<Rightarrow> RiskSnapshot \<Rightarrow> RiskDecision"
begin

lemma sequence_approved: "Approved (inSequence s t order a) \<longleftrightarrow> Approved (s order a) \<and> Approved (t order a)"
  by (simp add: inSequence_def)

lemma sequence_first_wins: "\<not> Approved (s order a) \<Longrightarrow> inSequence s t order a = s order a"
  by (simp add: inSequence_def)

end

sublocale risk_pipeline \<subseteq> both: risk_stage "inSequence s t"
proof
  fix order a b
  show "\<not> sized order \<Longrightarrow> inSequence s t order a = Approve"
    by (simp add: inSequence_def fst.exits_pass snd.exits_pass)
  show "inSequence s t order a = Approve \<or> (\<exists>rule. rule \<noteq> [] \<and> inSequence s t order a = Reject rule)"
    using fst.answers [of order a] snd.answers [of order a] by (auto simp: inSequence_def)
  show "sameView a b \<Longrightarrow> inSequence s t order b = inSequence s t order a"
    using fst.view_only [of a b order] snd.view_only [of a b order] by (simp add: inSequence_def)
qed

lemmas stage_defs = CheckOrderWithinBudget_def RiskConstraints_Check_def checkDailyLossHalt_def
  checkMaxSingleName_def checkConcentration_def budgetDollars_def

interpretation budget_stage: risk_stage "CheckOrderWithinBudget al" for al
proof
  fix order a b
  show "\<not> sized order \<Longrightarrow> CheckOrderWithinBudget al order a = Approve"
    by (auto simp: sized_def CheckOrderWithinBudget_def)
  show "CheckOrderWithinBudget al order a = Approve \<or> (\<exists>rule. rule \<noteq> [] \<and> CheckOrderWithinBudget al order a = Reject rule)"
    by (auto simp: CheckOrderWithinBudget_def Let_def)
  show "sameView a b \<Longrightarrow> CheckOrderWithinBudget al order b = CheckOrderWithinBudget al order a"
    by (simp add: stage_defs Let_def sameView_reads)
qed

interpretation constraint_stage: risk_stage "RiskConstraints_Check c" for c
proof
  fix order a b
  show "\<not> sized order \<Longrightarrow> RiskConstraints_Check c order a = Approve"
    by (auto simp: sized_def RiskConstraints_Check_def)
  show "RiskConstraints_Check c order a = Approve \<or> (\<exists>rule. rule \<noteq> [] \<and> RiskConstraints_Check c order a = Reject rule)"
    by (auto simp: stage_defs Let_def)
  show "sameView a b \<Longrightarrow> RiskConstraints_Check c order b = RiskConstraints_Check c order a"
    by (simp add: stage_defs Let_def sameView_reads)
qed

interpretation gate_stages: risk_pipeline "CheckOrderWithinBudget al" "RiskConstraints_Check c" for al c
  by unfold_locales

lemma Gate_Check_sequence:
  "Gate_Check p order a = inSequence (CheckOrderWithinBudget (g_allocator p)) (RiskConstraints_Check (g_constraints p)) order a"
  using constraint_stage.approved_iff [of "g_constraints p" order a] by (simp add: Gate_Check_def inSequence_def)

section \<open>What an approval means\<close>

definition signedShares :: "ProposedOrder \<Rightarrow> int64" where
  "signedShares order = (if po_Side order \<noteq> SideLong then - po_Qty order else po_Qty order)"

definition orderValue :: "ProposedOrder \<Rightarrow> rat" where
  "orderValue order = of_int (sint (po_Qty order)) * po_Price order"

definition budgetOf :: "Gate \<Rightarrow> ProposedOrder \<Rightarrow> RiskSnapshot \<Rightarrow> rat" where
  "budgetOf p order a = rs_NAV a * BudgetPct (g_allocator p) (po_StrategyID order)"

definition heldBy :: "ProposedOrder \<Rightarrow> RiskSnapshot \<Rightarrow> int64" where
  "heldBy order a = rs_StrategyPosition a (po_StrategyID order) (po_Symbol order)"

lemma Approve_ne_Reject [simp]: "Approved Approve" "\<not> Approved (Reject r)" "Approve \<noteq> Reject r" "Reject r \<noteq> Approve"
  "RuleName Approve = []" "RuleName (Reject r) = r" "Reject r = Reject r' \<longleftrightarrow> r = r'"
  by (simp_all add: Approve_def Reject_def)

lemma budget_approved:
  "Approved (CheckOrderWithinBudget (g_allocator p) order a) \<longleftrightarrow> po_Side order = SideFlat \<or> sint (po_Qty order) \<le> 0 \<or>
    0 < budgetOf p order a \<and> rs_GrossExposureForStrategy a (po_StrategyID order) + orderValue order \<le> budgetOf p order a"
  by (simp add: CheckOrderWithinBudget_def Let_def budgetOf_def budgetDollars_def orderValue_def decFromInt_def not_le not_less)

lemma check_approved:
  "Approved (checkDailyLossHalt c a) \<longleftrightarrow> - (rs_NAV a * DailyLossHaltPct c) \<le> rs_TotalPnLToday a"
  "Approved (checkMaxSingleName c order a) \<longleftrightarrow>
    of_int (sint (absInt64 (heldBy order a))) * priceOr (rs_LastClose a) (po_Symbol order) (po_Price order) + orderValue order
      \<le> rs_NAV a * MaxSingleNamePct c"
  "Approved (checkConcentration c order a) \<longleftrightarrow>
    of_int (sint (absInt64 (rs_NetPositionAcrossStrategies a (po_Symbol order) + signedShares order))) * po_Price order
      \<le> rs_NAV a * ConcentrationPct c"
  unfolding checkDailyLossHalt_def checkMaxSingleName_def checkConcentration_def Let_def
    heldBy_def orderValue_def signedShares_def decFromInt_def
  by (simp_all only: if_distrib [of Approved] Approve_ne_Reject if_bool_eq_conj not_less simp_thms)

lemma constraints_approved:
  "Approved (RiskConstraints_Check c order a) \<longleftrightarrow> po_Side order = SideFlat \<or> sint (po_Qty order) \<le> 0 \<or>
    Approved (checkDailyLossHalt c a) \<and> Approved (checkMaxSingleName c order a) \<and> Approved (checkConcentration c order a)"
  by (simp add: RiskConstraints_Check_def)

lemma Gate_Check_approved_iff:
  assumes "sized order"
  shows "Approved (Gate_Check p order a) \<longleftrightarrow>
    0 < budgetOf p order a \<and>
    rs_GrossExposureForStrategy a (po_StrategyID order) + orderValue order \<le> budgetOf p order a \<and>
    - (rs_NAV a * DailyLossHaltPct (g_constraints p)) \<le> rs_TotalPnLToday a \<and>
    of_int (sint (absInt64 (heldBy order a))) * priceOr (rs_LastClose a) (po_Symbol order) (po_Price order) + orderValue order
      \<le> rs_NAV a * MaxSingleNamePct (g_constraints p) \<and>
    of_int (sint (absInt64 (rs_NetPositionAcrossStrategies a (po_Symbol order) + signedShares order))) * po_Price order
      \<le> rs_NAV a * ConcentrationPct (g_constraints p)"
  using assms
  by (simp add: Gate_Check_sequence gate_stages.sequence_approved budget_approved constraints_approved check_approved sized_def)

text \<open>The account after the order is filled in full at the price it was sized with.\<close>

definition executed :: "ProposedOrder \<Rightarrow> RiskSnapshot \<Rightarrow> RiskSnapshot" where
  "executed order a = a\<lparr>rs_Positions :=
     mapSet (po_StrategyID order, po_Symbol order) (heldBy order a + signedShares order) (rs_Positions a)\<rparr>"

definition noWrap :: "ProposedOrder \<Rightarrow> RiskSnapshot \<Rightarrow> bool" where
  "noWrap order a \<longleftrightarrow>
     (let held = sint (heldBy order a); net = netShares (po_Symbol order) (rs_Positions a); q = sint (po_Qty order)
      in \<bar>held\<bar> + q < 2 ^ 63 \<and> \<bar>net\<bar> + q < 2 ^ 63)"

lemma sint_signedShares: "sized order \<Longrightarrow> \<bar>sint (signedShares order)\<bar> = sint (po_Qty order)"
  using sint_bounds [of "po_Qty order"] by (auto simp: signedShares_def sized_def sint_uminus fits64_def)

lemma absInt64_plus:
  assumes "\<bar>sint x\<bar> + \<bar>sint y\<bar> < 2 ^ 63"
  shows "sint (absInt64 (x + y)) = \<bar>sint x + sint y\<bar>" "sint (absInt64 x) = \<bar>sint x\<bar>"
proof -
  have f: "fits64 (sint x + sint y)" using assms by (auto simp: fits64_def)
  then have "x + y \<noteq> MinInt64" "x \<noteq> MinInt64" using assms by (auto simp: not_Min_sint sint_plus)
  then show "sint (absInt64 (x + y)) = \<bar>sint x + sint y\<bar>" "sint (absInt64 x) = \<bar>sint x\<bar>"
    by (simp_all add: absInt64_exact sint_plus f)
qed

lemma executed_reads:
  "rs_NAV (executed order a) = rs_NAV a" "rs_LastClose (executed order a) = rs_LastClose a"
  "heldBy order (executed order a) = heldBy order a + signedShares order"
  by (simp_all add: executed_def heldBy_def rs_StrategyPosition_def)

lemma executed_gross:
  assumes "mapWf (rs_Positions a)"
  shows "rs_GrossExposureForStrategy (executed order a) (po_StrategyID order) =
    rs_GrossExposureForStrategy a (po_StrategyID order) +
    (of_int (sint (absInt64 (heldBy order a + signedShares order))) - of_int (sint (absInt64 (heldBy order a)))) *
      priceOr (rs_LastClose a) (po_Symbol order) 0"
  unfolding gross_sum executed_reads(2)
  using sumEntries_set [OF assms, of "grossEntry (rs_LastClose a) (po_StrategyID order)"
      "(po_StrategyID order, po_Symbol order)" "heldBy order a + signedShares order"]
  by (auto simp: executed_def grossEntry_def heldBy_def rs_StrategyPosition_def decFromInt_def absInt64_def left_diff_distrib
      split: option.splits)

lemma executed_net:
  assumes "mapWf (rs_Positions a)"
  shows "rs_NetPositionAcrossStrategies (executed order a) (po_Symbol order) =
    rs_NetPositionAcrossStrategies a (po_Symbol order) + signedShares order"
  unfolding net_sum
  using sumEntries_set [OF assms, of "netEntry (po_Symbol order)"]
  by (auto simp: executed_def netEntry_def heldBy_def rs_StrategyPosition_def split: option.splits)

lemma approved_within_limits:
  assumes ok: "Approved (Gate_Check p order a)" and sz: "sized order" and wf: "mapWf (rs_Positions a)" and nw: "noWrap order a"
    and px: "mapGet (rs_LastClose a) (po_Symbol order) = Some (po_Price order)" "0 \<le> po_Price order"
  shows "rs_GrossExposureForStrategy (executed order a) (po_StrategyID order) \<le> budgetOf p order a"
    and "of_int \<bar>sint (heldBy order (executed order a))\<bar> * po_Price order \<le> rs_NAV a * MaxSingleNamePct (g_constraints p)"
    and "of_int \<bar>sint (rs_NetPositionAcrossStrategies (executed order a) (po_Symbol order))\<bar> * po_Price order
      \<le> rs_NAV a * ConcentrationPct (g_constraints p)"
proof -
  let ?h = "sint (heldBy order a)" and ?s = "sint (signedShares order)" and ?q = "sint (po_Qty order)"
  note q = sint_signedShares [OF sz]
  have b: "\<bar>?h\<bar> + \<bar>?s\<bar> < 2 ^ 63" using nw by (simp add: noWrap_def Let_def q)
  note A = ok [unfolded Gate_Check_approved_iff [OF sz]]
  have pr: "priceOr (rs_LastClose a) (po_Symbol order) d = po_Price order" for d using px by (simp add: priceOr_def)
  have "\<bar>?h + ?s\<bar> \<le> \<bar>?h\<bar> + ?q" using q by linarith
  then have "(of_int \<bar>?h + ?s\<bar> :: rat) \<le> of_int (\<bar>?h\<bar> + ?q)" by (simp only: of_int_le_iff)
  then have grow: "of_int \<bar>?h + ?s\<bar> * po_Price order \<le> of_int (\<bar>?h\<bar> + ?q) * po_Price order"
    using px(2) by (rule mult_right_mono)
  show "rs_GrossExposureForStrategy (executed order a) (po_StrategyID order) \<le> budgetOf p order a"
    using A grow unfolding executed_gross [OF wf] absInt64_plus [OF b] pr orderValue_def by (simp add: algebra_simps)
  have hs: "sint (heldBy order a + signedShares order) = ?h + ?s" using b by (intro sint_plus) (auto simp: fits64_def)
  show "of_int \<bar>sint (heldBy order (executed order a))\<bar> * po_Price order \<le> rs_NAV a * MaxSingleNamePct (g_constraints p)"
    using A grow unfolding executed_reads hs absInt64_plus [OF b] pr orderValue_def by (simp add: distrib_right)
  have "fits64 (netShares (po_Symbol order) (rs_Positions a))" using nw sz by (auto simp: noWrap_def Let_def fits64_def sized_def)
  note n = net_exact [OF this]
  have nb: "\<bar>sint (rs_NetPositionAcrossStrategies a (po_Symbol order))\<bar> + \<bar>?s\<bar> < 2 ^ 63"
    using nw by (simp add: noWrap_def Let_def q n)
  have ns: "sint (rs_NetPositionAcrossStrategies a (po_Symbol order) + signedShares order)
      = sint (rs_NetPositionAcrossStrategies a (po_Symbol order)) + ?s"
    using nb by (intro sint_plus) (auto simp: fits64_def)
  show "of_int \<bar>sint (rs_NetPositionAcrossStrategies (executed order a) (po_Symbol order))\<bar> * po_Price order
      \<le> rs_NAV a * ConcentrationPct (g_constraints p)"
    using A by (simp add: executed_net [OF wf] ns absInt64_plus [OF nb])
qed

section \<open>The health view agrees with the gate\<close>

lemma DailyLossHalt_eq:
  "DailyLossHalt (HealthSnapshot p a) \<longleftrightarrow> rs_TotalPnLToday a < - (rs_NAV a * DailyLossHaltPct (g_constraints p))"
  unfolding HealthSnapshot_def Let_def PortfolioHealthSnapshot.select_convs by (rule refl)

lemma halted_iff: "DailyLossHalt (HealthSnapshot p a) \<longleftrightarrow> \<not> Approved (checkDailyLossHalt (g_constraints p) a)"
  by (simp only: DailyLossHalt_eq check_approved not_le)

lemma halted_blocks_entries:
  assumes "sized order" and "DailyLossHalt (HealthSnapshot p a)"
  shows "\<not> Approved (Gate_Check p order a)"
  using assms(2) unfolding Gate_Check_approved_iff [OF assms(1)] DailyLossHalt_eq by linarith

lemma if_in_pair: "(if b then x else y) \<in> {y, x}"
  by simp

lemma halt_rule_iff:
  assumes "Approved (CheckOrderWithinBudget (g_allocator p) order a)" and "sized order"
  shows "RuleName (Gate_Check p order a) = ''risk.daily_loss_halt'' \<longleftrightarrow> DailyLossHalt (HealthSnapshot p a)"
proof -
  let ?c = "g_constraints p" and ?halt = "''risk.daily_loss_halt''"
  have g: "Gate_Check p order a = RiskConstraints_Check ?c order a"
    using assms(1) by (simp add: Gate_Check_sequence inSequence_def)
  have sz: "\<not> (po_Side order = SideFlat \<or> sint (po_Qty order) \<le> 0)" using assms(2) by (simp add: sized_def)
  have rules: "RuleName (checkMaxSingleName ?c order a) \<in> {[], ''risk.max_single_name''}"
      "RuleName (checkConcentration ?c order a) \<in> {[], ''risk.concentration''}"
    unfolding checkMaxSingleName_def checkConcentration_def Let_def if_distrib [of RuleName] Approve_ne_Reject
    by (rule if_in_pair)+
  show ?thesis
  proof (cases "Approved (checkDailyLossHalt ?c a)")
    case True
    then have "Gate_Check p order a \<in> {checkMaxSingleName ?c order a, checkConcentration ?c order a, Approve}"
      using sz by (simp add: g RiskConstraints_Check_def)
    then have "RuleName (Gate_Check p order a) \<in> {[], ''risk.max_single_name'', ''risk.concentration''}" using rules by auto
    then have "RuleName (Gate_Check p order a) \<noteq> ?halt" by auto
    then show ?thesis using True by (simp add: halted_iff)
  next
    case False
    moreover from this have "checkDailyLossHalt ?c a = Reject ?halt" by (simp add: checkDailyLossHalt_def Let_def split: if_splits)
    ultimately show ?thesis using sz by (simp add: g RiskConstraints_Check_def halted_iff)
  qed
qed

text \<open>The concentration field is the largest ratio over the symbols held, in whatever order they come.\<close>

definition concRatio :: "RiskSnapshot \<Rightarrow> string \<Rightarrow> rat" where
  "concRatio a sy = (if rs_NetPositionAcrossStrategies a sy = 0 then 0
     else decQuo (decFromInt (absInt64 (rs_NetPositionAcrossStrategies a sy)) * priceOr (rs_LastClose a) sy 0) (rs_NAV a))"

lemma Max_insert_max: "finite S \<Longrightarrow> Max (insert (max c r) S) = Max (insert c (insert (r :: rat) S))"
  by (cases "S = {}") (simp_all add: max.assoc)

lemma concentrationLoop_step:
  assumes "snd k \<notin> set seen" "0 \<le> conc"
  shows "concentrationLoop a (k # ks) seen conc = concentrationLoop a ks (snd k # seen) (max conc (concRatio a (snd k)))"
proof -
  have "max c r = (if c < r then r else c)" for c r :: rat by (auto simp: max_def)
  then show ?thesis using assms unfolding concentrationLoop.simps concRatio_def Let_def by simp
qed

lemma concentrationLoop_max:
  "0 \<le> conc \<Longrightarrow> concentrationLoop a ks seen conc = Max (insert conc (concRatio a ` (snd ` set ks - set seen)))"
proof (induction ks arbitrary: seen conc)
  case (Cons k ks)
  show ?case
  proof (cases "snd k \<in> set seen")
    case True
    then show ?thesis using Cons by (simp add: insert_Diff_if)
  next
    case False
    let ?r = "concRatio a (snd k)" and ?S = "concRatio a ` (snd ` set ks - insert (snd k) (set seen))"
    have S: "concRatio a ` (snd ` set (k # ks) - set seen) = insert ?r ?S" using False by auto
    have "concentrationLoop a (k # ks) seen conc = Max (insert (max conc ?r) ?S)"
      using Cons.IH [of "max conc ?r" "snd k # seen"] Cons.prems by (simp add: concentrationLoop_step [OF False] max.coboundedI1 del: concentrationLoop.simps)
    also have "\<dots> = Max (insert conc (insert ?r ?S))" by (rule Max_insert_max) simp
    finally show ?thesis by (simp only: S)
  qed
qed simp

lemma Health_view_only:
  assumes "sameView a b" shows "HealthSnapshot p b = HealthSnapshot p a"
proof -
  have "mset (mapKeys (rs_Positions b)) = mset (mapKeys (rs_Positions a))"
    using assms by (simp add: sameView_def mapKeys_def)
  then have keys: "set (mapKeys (rs_Positions b)) = set (mapKeys (rs_Positions a))" by (rule mset_eq_setD)
  have "concRatio b = concRatio a" unfolding fun_eq_iff concRatio_def sameView_reads [OF assms] by (rule allI refl)+
  then have conc: "concentrationLoop b (mapKeys (rs_Positions b)) [] 0 = concentrationLoop a (mapKeys (rs_Positions a)) [] 0"
    by (simp only: concentrationLoop_max [OF order_refl] keys)
  show ?thesis unfolding HealthSnapshot_def Let_def sameView_reads [OF assms] conc by (rule refl)
qed

section \<open>The bridge loses nothing\<close>

lemma SnapshotFromDomain_maps:
  assumes "snapWf s"
  shows "rs_Positions (SnapshotFromDomain s) = ps_Positions s"
    and "mapGet (rs_LastClose (SnapshotFromDomain s)) sy = map_option DecFromPrice (mapGet (ps_LastClose s) sy)"
proof -
  have "mapWf (map (\<lambda>(sy, px). (sy, DecFromPrice px)) (ps_LastClose s))"
    using assms by (simp add: snapWf_def mapWf_def mapKeys_def o_def split_def)
  then show "mapGet (rs_LastClose (SnapshotFromDomain s)) sy = map_option DecFromPrice (mapGet (ps_LastClose s) sy)"
    by (simp add: SnapshotFromDomain_def clone_id mapGet_def map_of_map)
qed (use assms in \<open>simp add: SnapshotFromDomain_def clone_id snapWf_def\<close>)


lemma gross_bridge:
  assumes wf: "snapWf s" and g: "GrossExposureForStrategy s sid = Inr m"
    and pos: "list_all (\<lambda>e. snd e \<noteq> MinInt64) (ps_Positions s)"
  shows "rs_GrossExposureForStrategy (SnapshotFromDomain s) sid = DecFromMoney m"
proof -
  let ?c = "rs_LastClose (SnapshotFromDomain s)"
  have px: "priceOr ?c sy 0 = of_int (case mapGet (ps_LastClose s) sy of None \<Rightarrow> 0 | Some p \<Rightarrow> sint p) / of_int FixedScale" for sy
    by (simp add: priceOr_def SnapshotFromDomain_maps(2) [OF wf] DecFromPrice_def split: option.split)
  have "sumEntries (grossEntry ?c sid) ps =
      of_int (\<Sum>e\<leftarrow>filter (\<lambda>e. fst (fst e) = sid) ps. grossTerm (ps_LastClose s) e) / of_int FixedScale"
    if "list_all (\<lambda>e. snd e \<noteq> MinInt64) ps" for ps
    using that
  proof (induction ps)
    case (Cons e ps)
    have "sumEntries (grossEntry ?c sid) (e # ps) = grossEntry ?c sid e + sumEntries (grossEntry ?c sid) ps"
      by (simp add: sumEntries_def)
    moreover have "grossEntry ?c sid e = (if fst (fst e) = sid then of_int (grossTerm (ps_LastClose s) e) / of_int FixedScale else 0)"
      using Cons.prems by (simp add: grossEntry_def grossTerm_def px decFromInt_def absInt64_exact)
    ultimately show ?case using Cons by (simp add: add_divide_distrib)
  qed (simp add: sumEntries_def)
  from this [OF pos] show ?thesis
    using grossLoop_exact [OF g [unfolded GrossExposureForStrategy_def]]
    by (simp add: gross_sum SnapshotFromDomain_maps(1) [OF wf] DecFromMoney_def)
qed

section \<open>Properties\<close>

definition demoGate :: Gate where
  "demoGate = NewGate [(''s'', 1 / 2), (''t'', 1 / 4)] DefaultRiskConstraintsConfig"

definition demoBook :: RiskSnapshot where
  "demoBook = \<lparr>rs_NAV = 100000, rs_Cash = 50000, rs_RealizedPnLToday = - 1000, rs_UnrealizedPnLToday = 0,
     rs_Positions = [((''s'', ''X''), 100), ((''t'', ''X''), - 30)], rs_LastClose = [(''X'', 100)]\<rparr>"

definition demoOrder :: ProposedOrder where
  "demoOrder = \<lparr>po_StrategyID = ''s'', po_Symbol = ''X'', po_Side = SideLong, po_Qty = 50, po_Price = 100, po_TS = zeroTime\<rparr>"



text \<open>C6. What the gate approves keeps the limits once filled: after a full fill at the last close the
  strategy's gross exposure is within its budget, its holding of the name under the single-name cap and the
  symbol's net over all strategies under the concentration cap, as long as no share count leaves 64 bits.\<close>

theorem approved_keeps_limits:
  assumes "Approved (Gate_Check p order a)" "sized order" "mapWf (rs_Positions a)" "noWrap order a"
    and "mapGet (rs_LastClose a) (po_Symbol order) = Some (po_Price order)" "0 \<le> po_Price order"
  shows "rs_GrossExposureForStrategy (executed order a) (po_StrategyID order) \<le> budgetOf p order a \<and>
    of_int \<bar>sint (heldBy order (executed order a))\<bar> * po_Price order \<le> rs_NAV a * MaxSingleNamePct (g_constraints p) \<and>
    of_int \<bar>sint (rs_NetPositionAcrossStrategies (executed order a) (po_Symbol order))\<bar> * po_Price order
      \<le> rs_NAV a * ConcentrationPct (g_constraints p)"
  by (intro conjI approved_within_limits [OF assms])

theorem approved_keeps_limits_witness:
  "Approved (Gate_Check demoGate demoOrder demoBook) \<and>
   rs_GrossExposureForStrategy (executed demoOrder demoBook) ''s'' \<le> budgetOf demoGate demoOrder demoBook"
proof -
  have "(Approved (Gate_Check demoGate demoOrder demoBook)) \<and>
    (sized demoOrder) \<and>
    (mapWf (rs_Positions demoBook)) \<and>
    (noWrap demoOrder demoBook) \<and>
    (mapGet (rs_LastClose demoBook) (po_Symbol demoOrder) = Some (po_Price demoOrder)) \<and>
    (0 \<le> po_Price demoOrder) \<and>
    (po_StrategyID demoOrder = ''s'')" by code_simp
  then show ?thesis using approved_keeps_limits [of demoGate demoOrder demoBook] by simp
qed

text \<open>The health report and the gate agree on the daily-loss halt: while the report says halted no entry
  is approved, and an entry within budget is refused with the halt rule exactly when the report says so.\<close>

theorem halt_agrees:
  assumes "sized order"
  shows "(DailyLossHalt (HealthSnapshot p a) \<longrightarrow> \<not> Approved (Gate_Check p order a)) \<and>
    (Approved (CheckOrderWithinBudget (g_allocator p) order a) \<longrightarrow>
      (RuleName (Gate_Check p order a) = ''risk.daily_loss_halt'' \<longleftrightarrow> DailyLossHalt (HealthSnapshot p a)))"
  using halted_blocks_entries [OF assms] halt_rule_iff [OF _ assms] by blast

theorem halt_agrees_witness:
  "RuleName (Gate_Check demoGate demoOrder (demoBook\<lparr>rs_RealizedPnLToday := - 5001\<rparr>)) = ''risk.daily_loss_halt''"
proof -
  have "(sized demoOrder) \<and>
    (Approved (CheckOrderWithinBudget (g_allocator demoGate) demoOrder (demoBook\<lparr>rs_RealizedPnLToday := - 5001\<rparr>))) \<and>
    (DailyLossHalt (HealthSnapshot demoGate (demoBook\<lparr>rs_RealizedPnLToday := - 5001\<rparr>)))" by code_simp
  then show ?thesis using halt_agrees [of demoOrder demoGate] by blast
qed

text \<open>The health report depends on the account only through its amounts and the value each map holds for
  each key, not on the order in which the maps are walked.\<close>

theorem health_order_free:
  assumes "sameView a b" shows "HealthSnapshot p b = HealthSnapshot p a"
  by (rule Health_view_only [OF assms])

theorem health_order_free_witness:
  "HealthSnapshot demoGate (demoBook\<lparr>rs_Positions := rev (rs_Positions demoBook)\<rparr>) = HealthSnapshot demoGate demoBook"
proof -
  have "sameView demoBook (demoBook\<lparr>rs_Positions := rev (rs_Positions demoBook)\<rparr>)"
    by (auto simp: sameView_def demoBook_def mapWf_def mapKeys_def mapGet_def)
  then show ?thesis by (rule health_order_free)
qed

text \<open>Division in the health report is correct to 28 significant digits: the relative error of the
  rounded quotient is at most half a unit in the twenty-eighth digit.\<close>

theorem division_precision:
  assumes "e \<noteq> 0"
  shows "\<bar>decQuo d e - d / e\<bar> \<le> \<bar>d / e\<bar> / (2 * 10 ^ 27)"
  by (rule decQuo_error [OF assms])

theorem division_precision_witness: "\<bar>decQuo 2 3 - 2 / 3\<bar> \<le> (2 / 3) / (2 * 10 ^ 27)"
  using division_precision [of 3 2] by simp

text \<open>The rational snapshot the gate reads agrees with the domain snapshot it is built from: the gross
  exposure of a strategy computed by the gate is the domain's checked sum, in dollars.\<close>

theorem bridge_keeps_exposure:
  assumes "snapWf s" "GrossExposureForStrategy s sid = Inr m" "list_all (\<lambda>e. snd e \<noteq> MinInt64) (ps_Positions s)"
  shows "rs_GrossExposureForStrategy (SnapshotFromDomain s) sid = DecFromMoney m"
  by (rule gross_bridge [OF assms])

definition demoSnap :: PortfolioSnapshot where
  "demoSnap = \<lparr>ps_NAV = 1000000, ps_Cash = 1000000, ps_RealizedPnLToday = 0, ps_UnrealizedPnLToday = 0,
     ps_Positions = [((''s'', ''X''), 3), ((''s'', ''Y''), - 2)], ps_LastClose = [(''X'', 10000), (''Y'', 25000)]\<rparr>"

theorem bridge_keeps_exposure_witness:
  "\<exists>m. GrossExposureForStrategy demoSnap ''s'' = Inr m \<and> rs_GrossExposureForStrategy (SnapshotFromDomain demoSnap) ''s'' = DecFromMoney m"
proof -
  have "(isOk (GrossExposureForStrategy demoSnap ''s'')) \<and>
    (snapWf demoSnap) \<and>
    (list_all (\<lambda>e. snd e \<noteq> MinInt64) (ps_Positions demoSnap))" by code_simp
  then show ?thesis
    using bridge_keeps_exposure [of demoSnap "''s''"] by (cases "GrossExposureForStrategy demoSnap ''s''") auto
qed

end
