(* ===== verification/Risk_Context.thy ===== *)
theory Risk_Context
  imports Risk_Gate
begin

text \<open>
  The per-bar context of \<open>internal/riskgate\<close> (\<open>context_types.go\<close>, \<open>context_state.go\<close>,
  \<open>context_refresher.go\<close>, \<open>context_provider.go\<close>): market regime, market caps and earnings blackouts
  computed from history as of a date.  The float operations of the moving average are the arguments
  of \<open>FloatOps\<close>; a market cap is the rational of the float's shortest decimal form.  The mutex of the
  shared state guards single reads and writes, which are the steps of the model.  The lemmas show
  that what is computed as of a date ignores later rows, and what the provider leaves in the state.
\<close>

section \<open>Calendar days\<close>

definition dayNs :: int where
  "dayNs = 86400000000000"

definition dateOnly :: "gotime \<Rightarrow> gotime" where
  "dateOnly ts = \<lparr>t_ns = t_ns ts - t_ns ts mod dayNs, t_off = 0\<rparr>"

definition After :: "gotime \<Rightarrow> gotime \<Rightarrow> bool" where
  "After a b \<longleftrightarrow> t_ns b < t_ns a"

definition AddDays :: "gotime \<Rightarrow> int \<Rightarrow> gotime" where
  "AddDays t n = t\<lparr>t_ns := t_ns t + n * dayNs\<rparr>"

section \<open>Rows and labels\<close>

definition RegimeBull :: string where "RegimeBull = ''bull''"
definition RegimeBear :: string where "RegimeBear = ''bear''"
definition RegimeNeutral :: string where "RegimeNeutral = ''neutral''"
definition RegimeWarning :: string where "RegimeWarning = ''warning''"

definition regimeMinBars :: nat where "regimeMinBars = 200"
definition regimeSlopeWindow :: nat where "regimeSlopeWindow = 30"
definition earningsBlackoutDays :: int where "earningsBlackoutDays = 5"
definition sf1DimensionDefault :: string where "sf1DimensionDefault = ''MRT''"

record 'f SPYBar =
  spy_Date :: gotime
  spy_Close :: 'f

record SF1Row =
  sf1_Ticker :: string
  sf1_DateKey :: gotime
  sf1_MarketCap :: rat
  sf1_HasMarketCap :: bool
  sf1_Dimension :: string
  sf1_HasDimension :: bool

record EarningsRow =
  er_Ticker :: string
  er_ReportDate :: gotime

section \<open>The regime\<close>

record 'f FloatOps =
  f_add :: "'f \<Rightarrow> 'f \<Rightarrow> 'f"
  f_sub :: "'f \<Rightarrow> 'f \<Rightarrow> 'f"
  f_div :: "'f \<Rightarrow> 'f \<Rightarrow> 'f"
  f_less :: "'f \<Rightarrow> 'f \<Rightarrow> bool"
  f_eq :: "'f \<Rightarrow> 'f \<Rightarrow> bool"
  f_isNaN :: "'f \<Rightarrow> bool"
  f_NaN :: 'f
  f_of_nat :: "nat \<Rightarrow> 'f"

definition rollingMean :: "'f FloatOps \<Rightarrow> 'f list \<Rightarrow> nat \<Rightarrow> 'f list" where
  "rollingMean fo xs window =
     map (\<lambda>i. if i + 1 < window then f_NaN fo
              else f_div fo (fold (\<lambda>x s. f_add fo s x) (take window (drop (i + 1 - window) xs)) (f_of_nat fo 0))
                     (f_of_nat fo window))
       [0..<length xs]"

definition ComputeRegime :: "'f FloatOps \<Rightarrow> 'f SPYBar list \<Rightarrow> gotime \<Rightarrow> string" where
  "ComputeRegime fo history asOf =
     (let bars = (if \<not> IsZero asOf then filter (\<lambda>b. \<not> After (dateOnly (spy_Date b)) (dateOnly asOf)) history
                  else history)
      in if length bars < regimeMinBars then RegimeNeutral
         else let closes = map spy_Close bars; ma200 = rollingMean fo closes regimeMinBars;
                  lastClose = closes ! (length closes - 1); lastMA = ma200 ! (length ma200 - 1)
              in if f_isNaN fo lastMA then RegimeNeutral
                 else if f_less fo lastClose lastMA then RegimeBear
                 else if length ma200 < regimeSlopeWindow + 1 then RegimeWarning
                 else let maThen = ma200 ! (length ma200 - 1 - regimeSlopeWindow)
                      in if f_isNaN fo maThen \<or> f_eq fo maThen (f_of_nat fo 0) then RegimeWarning
                         else if f_less fo (f_of_nat fo 0) (f_div fo (f_sub fo lastMA maThen) maThen) then RegimeBull
                         else RegimeWarning)"

section \<open>Market caps and earnings\<close>

fun lastPerTicker :: "SF1Row list \<Rightarrow> (string, rat) gomap \<Rightarrow> (string, rat) gomap" where
  "lastPerTicker [] out = out"
| "lastPerTicker (r # rs) out = lastPerTicker rs (mapSet (sf1_Ticker r) (sf1_MarketCap r) out)"

definition sf1Keep :: "bool \<Rightarrow> string \<Rightarrow> gotime \<Rightarrow> SF1Row \<Rightarrow> bool" where
  "sf1Keep hasDimCol dimension cutoff r \<longleftrightarrow>
     \<not> (hasDimCol \<and> sf1_Dimension r \<noteq> dimension) \<and> \<not> After (dateOnly (sf1_DateKey r)) cutoff \<and>
     sf1_HasMarketCap r \<and> \<not> sf1_MarketCap r \<le> 0"

definition LoadSF1MarketCaps :: "SF1Row list \<Rightarrow> gotime \<Rightarrow> string \<Rightarrow> (string, rat) gomap" where
  "LoadSF1MarketCaps rows asOf dimension =
     (if rows = [] then []
      else let dim = (if dimension = [] then sf1DimensionDefault else dimension);
               hasDimCol = list_ex sf1_HasDimension rows;
               ks = filter (sf1Keep hasDimCol dim (dateOnly asOf)) rows
           in if ks = [] then []
              else lastPerTicker (sort_key (\<lambda>r. t_ns (dateOnly (sf1_DateKey r))) ks) [])"

fun blackoutLoop :: "gotime \<Rightarrow> gotime \<Rightarrow> EarningsRow list \<Rightarrow> (string, bool) gomap \<Rightarrow> (string, bool) gomap" where
  "blackoutLoop lo hi [] out = out"
| "blackoutLoop lo hi (r # rs) out =
     (let d = dateOnly (er_ReportDate r) in
      blackoutLoop lo hi rs (if \<not> Before d lo \<and> \<not> After d hi then mapSet (er_Ticker r) True out else out))"

definition LoadEarningsCalendar :: "EarningsRow list \<Rightarrow> gotime \<Rightarrow> int \<Rightarrow> (string, bool) gomap" where
  "LoadEarningsCalendar rows asOf blackoutDays =
     (if rows = [] then []
      else let cutoff = dateOnly asOf
           in blackoutLoop (AddDays cutoff (- blackoutDays)) (AddDays cutoff blackoutDays) rows [])"

section \<open>The shared state\<close>

record SharedContextState =
  cs_regime :: string
  cs_marketCap :: "(string, rat) gomap"
  cs_earningsBlackout :: "(string, bool) gomap"

definition NewSharedContextState :: SharedContextState where
  "NewSharedContextState = \<lparr>cs_regime = RegimeNeutral, cs_marketCap = [], cs_earningsBlackout = []\<rparr>"

definition SetRegime :: "string \<Rightarrow> SharedContextState \<Rightarrow> SharedContextState" where
  "SetRegime r s = s\<lparr>cs_regime := r\<rparr>"

definition MarketCap :: "SharedContextState \<Rightarrow> string \<Rightarrow> rat option" where
  "MarketCap s ticker = mapGet (cs_marketCap s) ticker"

definition SetMarketCap :: "string \<Rightarrow> rat \<Rightarrow> SharedContextState \<Rightarrow> SharedContextState" where
  "SetMarketCap ticker v s = s\<lparr>cs_marketCap := mapSet ticker v (cs_marketCap s)\<rparr>"

definition ReplaceMarketCap :: "(string, rat) gomap \<Rightarrow> SharedContextState \<Rightarrow> SharedContextState" where
  "ReplaceMarketCap m s = s\<lparr>cs_marketCap := cloneMapLoop m []\<rparr>"

definition EarningsBlackouts :: "SharedContextState \<Rightarrow> (string, bool) gomap" where
  "EarningsBlackouts s = cloneMapLoop (cs_earningsBlackout s) []"

definition EarningsBlackout :: "SharedContextState \<Rightarrow> string \<Rightarrow> bool" where
  "EarningsBlackout s ticker = (mapGet (cs_earningsBlackout s) ticker = Some True)"

definition SetEarningsBlackout :: "string \<Rightarrow> bool \<Rightarrow> SharedContextState \<Rightarrow> SharedContextState" where
  "SetEarningsBlackout ticker v s = s\<lparr>cs_earningsBlackout := mapSet ticker v (cs_earningsBlackout s)\<rparr>"

definition ReplaceEarningsBlackout :: "(string, bool) gomap \<Rightarrow> SharedContextState \<Rightarrow> SharedContextState" where
  "ReplaceEarningsBlackout m s = s\<lparr>cs_earningsBlackout := cloneMapLoop m []\<rparr>"

section \<open>The provider\<close>

record 'f ContextProvider =
  cp_spyHistory :: "'f SPYBar list"
  cp_sf1Rows :: "SF1Row list"
  cp_earnings :: "EarningsRow list"
  cp_tickers :: "string list"
  cp_dimension :: string
  cp_blackout :: int
  cp_lastRegime :: "string option"
  cp_lastMarketCap :: "(string, rat) gomap"
  cp_lastBlackoutSeen :: "(string, bool) gomap"
  cp_lastBlackout :: "(string, bool) gomap"

definition NewContextProvider :: "'f SPYBar list \<Rightarrow> SF1Row list \<Rightarrow> EarningsRow list \<Rightarrow> string list \<Rightarrow> string \<Rightarrow> int \<Rightarrow>
    'f ContextProvider" where
  "NewContextProvider spyHistory sf1Rows earnings tickers dimension blackoutDays =
     \<lparr>cp_spyHistory = sort_key (\<lambda>b. t_ns (spy_Date b)) spyHistory, cp_sf1Rows = sf1Rows, cp_earnings = earnings,
      cp_tickers = tickers, cp_dimension = (if dimension = [] then sf1DimensionDefault else dimension),
      cp_blackout = (if blackoutDays = 0 then earningsBlackoutDays else blackoutDays),
      cp_lastRegime = None, cp_lastMarketCap = [], cp_lastBlackoutSeen = [], cp_lastBlackout = []\<rparr>"

definition RegimeAt :: "'f FloatOps \<Rightarrow> 'f ContextProvider \<Rightarrow> gotime \<Rightarrow> string" where
  "RegimeAt fo p date = ComputeRegime fo (cp_spyHistory p) date"

definition MarketCapAt :: "'f ContextProvider \<Rightarrow> string \<Rightarrow> gotime \<Rightarrow> rat option" where
  "MarketCapAt p ticker date = mapGet (LoadSF1MarketCaps (cp_sf1Rows p) date (cp_dimension p)) ticker"

definition EarningsBlackoutAt :: "'f ContextProvider \<Rightarrow> string \<Rightarrow> gotime \<Rightarrow> bool" where
  "EarningsBlackoutAt p ticker date =
     (mapGet (LoadEarningsCalendar (cp_earnings p) date (cp_blackout p)) ticker = Some True)"

record ContextUpdates =
  cu_Regime :: "(string \<times> gotime) option"
  cu_MarketCap :: "(string \<times> rat \<times> gotime) list"
  cu_Earnings :: "(string \<times> bool \<times> gotime) list"

fun capLoop :: "(string, rat) gomap \<Rightarrow> gotime \<Rightarrow> string list \<Rightarrow> 'f ContextProvider \<Rightarrow> SharedContextState \<Rightarrow> ContextUpdates \<Rightarrow>
    'f ContextProvider \<times> SharedContextState \<times> ContextUpdates" where
  "capLoop caps ts [] p st upd = (p, st, upd)"
| "capLoop caps ts (ticker # tks) p st upd =
     (case mapGet caps ticker of
        None \<Rightarrow> capLoop caps ts tks p st upd
      | Some v \<Rightarrow>
          if mapGet (cp_lastMarketCap p) ticker = Some v then capLoop caps ts tks p st upd
          else capLoop caps ts tks (p\<lparr>cp_lastMarketCap := mapSet ticker v (cp_lastMarketCap p)\<rparr>) (SetMarketCap ticker v st)
                 (upd\<lparr>cu_MarketCap := cu_MarketCap upd @ [(ticker, v, ts)]\<rparr>))"

fun earnLoop :: "(string, bool) gomap \<Rightarrow> gotime \<Rightarrow> string list \<Rightarrow> 'f ContextProvider \<Rightarrow> SharedContextState \<Rightarrow> ContextUpdates \<Rightarrow>
    'f ContextProvider \<times> SharedContextState \<times> ContextUpdates" where
  "earnLoop cal ts [] p st upd = (p, st, upd)"
| "earnLoop cal ts (ticker # tks) p st upd =
     (let v = (mapGet cal ticker = Some True); st1 = SetEarningsBlackout ticker v st in
      if mapGet (cp_lastBlackoutSeen p) ticker \<noteq> Some True \<or> (mapGet (cp_lastBlackout p) ticker = Some True) \<noteq> v
      then earnLoop cal ts tks
             (p\<lparr>cp_lastBlackout := mapSet ticker v (cp_lastBlackout p),
               cp_lastBlackoutSeen := mapSet ticker True (cp_lastBlackoutSeen p)\<rparr>) st1
             (upd\<lparr>cu_Earnings := cu_Earnings upd @ [(ticker, v, ts)]\<rparr>)
      else earnLoop cal ts tks p st1 upd)"

definition ContextProvider_OnBar :: "'f FloatOps \<Rightarrow> 'f ContextProvider \<Rightarrow> SharedContextState \<Rightarrow> gotime \<Rightarrow>
    'f ContextProvider \<times> SharedContextState \<times> ContextUpdates" where
  "ContextProvider_OnBar fo p state ts =
     (let date = dateOnly ts;
          upd = \<lparr>cu_Regime = None, cu_MarketCap = [], cu_Earnings = []\<rparr>;
          available = length (filter (\<lambda>b. \<not> After (dateOnly (spy_Date b)) date) (cp_spyHistory p));
          (p1, st1, upd1) =
            (if regimeMinBars \<le> available then
               (let regime = ComputeRegime fo (cp_spyHistory p) date; st = SetRegime regime state in
                if cp_lastRegime p \<noteq> Some regime
                then (p\<lparr>cp_lastRegime := Some regime\<rparr>, st, upd\<lparr>cu_Regime := Some (regime, ts)\<rparr>)
                else (p, st, upd))
             else (p, state, upd));
          caps = LoadSF1MarketCaps (cp_sf1Rows p1) date (cp_dimension p1);
          (p2, st2, upd2) = (if caps \<noteq> [] then capLoop caps ts (cp_tickers p1) p1 st1 upd1 else (p1, st1, upd1))
      in if cp_tickers p2 \<noteq> []
         then earnLoop (LoadEarningsCalendar (cp_earnings p2) date (cp_blackout p2)) ts (cp_tickers p2) p2 st2 upd2
         else (p2, st2, upd2))"

section \<open>Market caps are the latest eligible filing\<close>

definition dayOf :: "gotime \<Rightarrow> int" where
  "dayOf t = t_ns t div dayNs"

lemma dateOnly_ns: "t_ns (dateOnly t) = dayOf t * dayNs"
  by (simp add: dateOnly_def dayOf_def minus_mod_eq_div_mult)

lemma dayNs_pos [simp]: "0 < dayNs"
  by (simp add: dayNs_def)

lemma After_dateOnly: "After (dateOnly s) (dateOnly t) \<longleftrightarrow> dayOf t < dayOf s"
  by (simp add: After_def dateOnly_ns)

lemma lastPerTicker_get:
  "mapGet (lastPerTicker rs out) t =
     (case filter (\<lambda>r. sf1_Ticker r = t) rs of [] \<Rightarrow> mapGet out t | rs' \<Rightarrow> Some (sf1_MarketCap (last rs')))"
  by (induction rs out rule: lastPerTicker.induct) (auto split: list.splits)

definition eligible :: "SF1Row list \<Rightarrow> gotime \<Rightarrow> string \<Rightarrow> SF1Row list" where
  "eligible rows asOf dimension = filter (sf1Keep (list_ex sf1_HasDimension rows)
     (if dimension = [] then sf1DimensionDefault else dimension) (dateOnly asOf)) rows"

lemma LoadSF1_eligible:
  "LoadSF1MarketCaps rows asOf dm =
     lastPerTicker (sort_key (\<lambda>r. t_ns (dateOnly (sf1_DateKey r))) (eligible rows asOf dm)) []"
  by (auto simp: LoadSF1MarketCaps_def eligible_def Let_def)


lemma caps_get:
  "mapGet (LoadSF1MarketCaps rows asOf dimension) t =
     (case sort_key (dayOf \<circ> sf1_DateKey) (filter (\<lambda>r. sf1_Ticker r = t) (eligible rows asOf dimension)) of
        [] \<Rightarrow> None | rs \<Rightarrow> Some (sf1_MarketCap (last rs)))"
proof -
  let ?ks = "eligible rows asOf dimension"
  have key: "sort_key (\<lambda>r. t_ns (dateOnly (sf1_DateKey r))) ?ks = sort_key (dayOf \<circ> sf1_DateKey) ?ks"
    by (rule sort_key_same_order) (simp add: dateOnly_ns)
  have "filter (\<lambda>r. sf1_Ticker r = t) (sort_key (dayOf \<circ> sf1_DateKey) ?ks) =
      sort_key (dayOf \<circ> sf1_DateKey) (filter (\<lambda>r. sf1_Ticker r = t) ?ks)"
    by (simp add: filter_sort)
  then show ?thesis by (simp only: LoadSF1_eligible key lastPerTicker_get mapGet_empty)
qed

lemma caps_latest:
  assumes "mapGet (LoadSF1MarketCaps rows asOf dimension) t = Some v"
  shows "\<exists>r \<in> set (eligible rows asOf dimension). sf1_Ticker r = t \<and> sf1_MarketCap r = v \<and>
    (\<forall>r' \<in> set (eligible rows asOf dimension). sf1_Ticker r' = t \<longrightarrow> dayOf (sf1_DateKey r') \<le> dayOf (sf1_DateKey r))"
proof -
  let ?f = "filter (\<lambda>r. sf1_Ticker r = t) (eligible rows asOf dimension)"
  let ?rs = "sort_key (dayOf \<circ> sf1_DateKey) ?f"
  have ne: "?rs \<noteq> []" and v: "v = sf1_MarketCap (last ?rs)"
    using assms by (auto simp: caps_get split: list.splits)
  have "sorted (map (dayOf \<circ> sf1_DateKey) ?rs)" by simp
  then have "(dayOf \<circ> sf1_DateKey) r' \<le> (dayOf \<circ> sf1_DateKey) (last ?rs)" if "r' \<in> set ?rs" for r'
    using that ne by (rule sorted_map_last)
  moreover have "last ?rs \<in> set ?f" using last_in_set [OF ne] by simp
  ultimately show ?thesis using v by (intro bexI [of _ "last ?rs"]) auto
qed

lemma caps_none: "mapGet (LoadSF1MarketCaps rows asOf dimension) t = None \<longleftrightarrow> t \<notin> sf1_Ticker ` set (eligible rows asOf dimension)"
proof -
  have "sort_key (dayOf \<circ> sf1_DateKey) (filter (\<lambda>r. sf1_Ticker r = t) (eligible rows asOf dimension)) = [] \<longleftrightarrow>
      t \<notin> sf1_Ticker ` set (eligible rows asOf dimension)"
    by (simp only: sort_key_Nil filter_empty_conv image_iff) auto
  then show ?thesis by (auto simp: caps_get split: list.splits)
qed

section \<open>Blackouts are reports within the window\<close>

lemma blackoutLoop_get:
  "(mapGet (blackoutLoop lo hi rs out) t = Some True) \<longleftrightarrow> mapGet out t = Some True \<or>
     (\<exists>r \<in> set rs. er_Ticker r = t \<and> t_ns lo \<le> t_ns (dateOnly (er_ReportDate r)) \<and> t_ns (dateOnly (er_ReportDate r)) \<le> t_ns hi)"
  by (induction lo hi rs out rule: blackoutLoop.induct) (auto simp: Let_def Before_def After_def)

lemma blackout_iff:
  "mapGet (LoadEarningsCalendar rows asOf n) t = Some True \<longleftrightarrow>
     (\<exists>r \<in> set rows. er_Ticker r = t \<and> \<bar>dayOf (er_ReportDate r) - dayOf asOf\<bar> \<le> n)"
proof -
  have lo: "t_ns (AddDays (dateOnly asOf) (- n)) \<le> dayOf s * dayNs \<longleftrightarrow> dayOf asOf - n \<le> dayOf s" for s
  proof -
    have "t_ns (AddDays (dateOnly asOf) (- n)) = (dayOf asOf - n) * dayNs" by (simp add: AddDays_def dateOnly_ns algebra_simps)
    then show ?thesis by simp
  qed
  have hi: "dayOf s * dayNs \<le> t_ns (AddDays (dateOnly asOf) n) \<longleftrightarrow> dayOf s \<le> dayOf asOf + n" for s
  proof -
    have "t_ns (AddDays (dateOnly asOf) n) = (dayOf asOf + n) * dayNs" by (simp add: AddDays_def dateOnly_ns algebra_simps)
    then show ?thesis by simp
  qed
  have w: "dayOf asOf - n \<le> d \<and> d \<le> dayOf asOf + n \<longleftrightarrow> \<bar>d - dayOf asOf\<bar> \<le> n" for d by linarith
  show ?thesis by (auto simp: LoadEarningsCalendar_def Let_def blackoutLoop_get dateOnly_ns lo hi simp flip: w)
qed

section \<open>No look-ahead\<close>

definition seenBy :: "gotime \<Rightarrow> 'f ContextProvider \<Rightarrow> 'f ContextProvider" where
  "seenBy ts p = p\<lparr>cp_spyHistory := filter (\<lambda>b. dayOf (spy_Date b) \<le> dayOf ts) (cp_spyHistory p),
     cp_sf1Rows := filter (\<lambda>r. dayOf (sf1_DateKey r) \<le> dayOf ts) (cp_sf1Rows p)\<rparr>"

lemma dayOf_dateOnly [simp]: "dayOf (dateOnly t) = dayOf t" "dateOnly (dateOnly t) = dateOnly t"
  by (simp_all add: dayOf_def dateOnly_def minus_mod_eq_div_mult dayNs_def)

lemma past_iff: "\<not> After (dateOnly s) (dateOnly t) \<longleftrightarrow> dayOf s \<le> dayOf t"
  by (simp add: After_dateOnly not_less)

lemma ComputeRegime_past:
  "\<not> IsZero asOf \<Longrightarrow> ComputeRegime fo (filter (\<lambda>b. dayOf (spy_Date b) \<le> dayOf asOf) h) asOf = ComputeRegime fo h asOf"
  by (simp add: ComputeRegime_def past_iff)

lemma eligible_past:
  assumes "list_ex sf1_HasDimension (filter (\<lambda>r. dayOf (sf1_DateKey r) \<le> dayOf asOf) rows) = list_ex sf1_HasDimension rows"
  shows "eligible (filter (\<lambda>r. dayOf (sf1_DateKey r) \<le> dayOf asOf) rows) asOf dm = eligible rows asOf dm"
proof -
  have "(\<lambda>r. dayOf (sf1_DateKey r) \<le> dayOf asOf \<and> sf1Keep b d (dateOnly asOf) r) = sf1Keep b d (dateOnly asOf)" for b d
    by (auto simp: fun_eq_iff sf1Keep_def past_iff)
  then show ?thesis using assms by (simp add: eligible_def)
qed

lemma LoadSF1_past:
  "list_ex sf1_HasDimension (filter (\<lambda>r. dayOf (sf1_DateKey r) \<le> dayOf asOf) rows) = list_ex sf1_HasDimension rows \<Longrightarrow>
   LoadSF1MarketCaps (filter (\<lambda>r. dayOf (sf1_DateKey r) \<le> dayOf asOf) rows) asOf dm = LoadSF1MarketCaps rows asOf dm"
  by (simp add: LoadSF1_eligible eligible_past)

text \<open>The loops over the tickers read the provider's memory of what it emitted, not its history.\<close>

definition sameMemory :: "'f ContextProvider \<Rightarrow> 'f ContextProvider \<Rightarrow> bool" where
  "sameMemory p q \<longleftrightarrow> cp_lastMarketCap p = cp_lastMarketCap q \<and> cp_lastBlackoutSeen p = cp_lastBlackoutSeen q \<and>
     cp_lastBlackout p = cp_lastBlackout q \<and> cp_tickers p = cp_tickers q \<and> cp_earnings p = cp_earnings q \<and>
     cp_blackout p = cp_blackout q \<and> cp_dimension p = cp_dimension q"

lemma capLoop_same:
  "sameMemory p q \<Longrightarrow> snd (capLoop caps ts tks p st upd) = snd (capLoop caps ts tks q st upd) \<and>
     sameMemory (fst (capLoop caps ts tks p st upd)) (fst (capLoop caps ts tks q st upd))"
proof (induction tks arbitrary: p q st upd)
  case (Cons ticker tks)
  show ?case
  proof (cases "mapGet caps ticker")
    case (Some v)
    have "cp_lastMarketCap p = cp_lastMarketCap q" using Cons.prems by (simp add: sameMemory_def)
    moreover have "sameMemory (p\<lparr>cp_lastMarketCap := m\<rparr>) (q\<lparr>cp_lastMarketCap := m\<rparr>)" for m
      using Cons.prems by (simp add: sameMemory_def)
    ultimately show ?thesis using Cons Some by simp
  qed (use Cons in simp)
qed simp

lemma earnLoop_same:
  "sameMemory p q \<Longrightarrow> snd (earnLoop cal ts tks p st upd) = snd (earnLoop cal ts tks q st upd)"
proof (induction tks arbitrary: p q st upd)
  case (Cons ticker tks)
  have "cp_lastBlackoutSeen p = cp_lastBlackoutSeen q" "cp_lastBlackout p = cp_lastBlackout q"
    using Cons.prems by (simp_all add: sameMemory_def)
  moreover have "sameMemory (p\<lparr>cp_lastBlackout := m, cp_lastBlackoutSeen := n\<rparr>) (q\<lparr>cp_lastBlackout := m, cp_lastBlackoutSeen := n\<rparr>)" for m n
    using Cons.prems by (simp add: sameMemory_def)
  ultimately show ?case using Cons by (simp add: Let_def)
qed simp

text \<open>\<open>OnBar\<close> in three stages.\<close>

definition regimeStage :: "'f FloatOps \<Rightarrow> 'f ContextProvider \<Rightarrow> SharedContextState \<Rightarrow> gotime \<Rightarrow>
    'f ContextProvider \<times> SharedContextState \<times> ContextUpdates" where
  "regimeStage fo p state ts =
     (let date = dateOnly ts; upd = \<lparr>cu_Regime = None, cu_MarketCap = [], cu_Earnings = []\<rparr>;
          available = length (filter (\<lambda>b. \<not> After (dateOnly (spy_Date b)) date) (cp_spyHistory p))
      in if regimeMinBars \<le> available then
           (let regime = ComputeRegime fo (cp_spyHistory p) date; st = SetRegime regime state in
            if cp_lastRegime p \<noteq> Some regime
            then (p\<lparr>cp_lastRegime := Some regime\<rparr>, st, upd\<lparr>cu_Regime := Some (regime, ts)\<rparr>)
            else (p, st, upd))
         else (p, state, upd))"

definition capStage :: "gotime \<Rightarrow> 'f ContextProvider \<times> SharedContextState \<times> ContextUpdates \<Rightarrow>
    'f ContextProvider \<times> SharedContextState \<times> ContextUpdates" where
  "capStage ts x = (case x of (p, st, upd) \<Rightarrow>
     (let caps = LoadSF1MarketCaps (cp_sf1Rows p) (dateOnly ts) (cp_dimension p)
      in if caps \<noteq> [] then capLoop caps ts (cp_tickers p) p st upd else (p, st, upd)))"

definition earnStage :: "gotime \<Rightarrow> 'f ContextProvider \<times> SharedContextState \<times> ContextUpdates \<Rightarrow>
    'f ContextProvider \<times> SharedContextState \<times> ContextUpdates" where
  "earnStage ts x = (case x of (p, st, upd) \<Rightarrow>
     (if cp_tickers p \<noteq> []
      then earnLoop (LoadEarningsCalendar (cp_earnings p) (dateOnly ts) (cp_blackout p)) ts (cp_tickers p) p st upd
      else (p, st, upd)))"

lemma OnBar_stages: "ContextProvider_OnBar fo p state ts = earnStage ts (capStage ts (regimeStage fo p state ts))"
  by (simp add: ContextProvider_OnBar_def regimeStage_def capStage_def earnStage_def Let_def split: prod.splits)


lemma regimeStage_past:
  assumes "\<not> IsZero (dateOnly ts)"
  shows "snd (regimeStage fo (seenBy ts p) st ts) = snd (regimeStage fo p st ts)"
    and "sameMemory (fst (regimeStage fo (seenBy ts p) st ts)) (fst (regimeStage fo p st ts))"
    and "cp_sf1Rows (fst (regimeStage fo q st ts)) = cp_sf1Rows q"
proof -
  have h: "cp_spyHistory (seenBy ts p) = filter (\<lambda>b. dayOf (spy_Date b) \<le> dayOf ts) (cp_spyHistory p)"
    "cp_lastRegime (seenBy ts p) = cp_lastRegime p"
    by (simp_all add: seenBy_def)
  have f: "filter (\<lambda>b. \<not> After (dateOnly (spy_Date b)) (dateOnly ts)) (cp_spyHistory (seenBy ts p)) =
      filter (\<lambda>b. \<not> After (dateOnly (spy_Date b)) (dateOnly ts)) (cp_spyHistory p)"
    by (simp add: h past_iff)
  have c: "ComputeRegime fo (cp_spyHistory (seenBy ts p)) (dateOnly ts) = ComputeRegime fo (cp_spyHistory p) (dateOnly ts)"
    using ComputeRegime_past [OF assms, of fo "cp_spyHistory p"] by (simp add: h)
  show "snd (regimeStage fo (seenBy ts p) st ts) = snd (regimeStage fo p st ts)"
    unfolding regimeStage_def Let_def f c h(2) by simp
  show "sameMemory (fst (regimeStage fo (seenBy ts p) st ts)) (fst (regimeStage fo p st ts))"
    unfolding regimeStage_def Let_def f c h(2) by (simp add: sameMemory_def seenBy_def)
  show "cp_sf1Rows (fst (regimeStage fo q st ts)) = cp_sf1Rows q" by (simp add: regimeStage_def Let_def)
qed

lemma capStage_same:
  assumes "sameMemory (fst x) (fst y)" "snd x = snd y"
    and "LoadSF1MarketCaps (cp_sf1Rows (fst x)) (dateOnly ts) (cp_dimension (fst x)) =
      LoadSF1MarketCaps (cp_sf1Rows (fst y)) (dateOnly ts) (cp_dimension (fst y))"
  shows "snd (capStage ts x) = snd (capStage ts y)" "sameMemory (fst (capStage ts x)) (fst (capStage ts y))"
proof -
  have "cp_tickers (fst x) = cp_tickers (fst y)" using assms(1) by (simp add: sameMemory_def)
  then show "snd (capStage ts x) = snd (capStage ts y)" "sameMemory (fst (capStage ts x)) (fst (capStage ts y))"
    using assms capLoop_same [OF assms(1)] by (simp_all add: capStage_def Let_def case_prod_beta prod_eq_iff)
qed

lemma earnStage_same:
  assumes "sameMemory (fst x) (fst y)" "snd x = snd y"
  shows "snd (earnStage ts x) = snd (earnStage ts y)"
proof -
  have "cp_tickers (fst x) = cp_tickers (fst y)" "cp_earnings (fst x) = cp_earnings (fst y)" "cp_blackout (fst x) = cp_blackout (fst y)"
    using assms(1) by (simp_all add: sameMemory_def)
  then show ?thesis using assms earnLoop_same [OF assms(1)] by (simp add: earnStage_def case_prod_beta)
qed

text \<open>What the strategies are told on a bar does not depend on prices or filings dated later, as long
  as the later filings do not change whether the table has a dimension column.  Earnings dates are
  announced ahead and are read ahead.\<close>

lemma OnBar_past:
  assumes z: "\<not> IsZero (dateOnly ts)"
    and "list_ex sf1_HasDimension (filter (\<lambda>r. dayOf (sf1_DateKey r) \<le> dayOf ts) (cp_sf1Rows p)) = list_ex sf1_HasDimension (cp_sf1Rows p)"
  shows "snd (ContextProvider_OnBar fo (seenBy ts p) st ts) = snd (ContextProvider_OnBar fo p st ts)"
proof -
  let ?x = "regimeStage fo (seenBy ts p) st ts" and ?y = "regimeStage fo p st ts"
  note R = regimeStage_past [OF z]
  have "cp_dimension (fst ?x) = cp_dimension (fst ?y)" using R(2) [of fo p st] by (simp add: sameMemory_def)
  moreover have "cp_sf1Rows (fst ?x) = filter (\<lambda>r. dayOf (sf1_DateKey r) \<le> dayOf ts) (cp_sf1Rows p)"
    unfolding R(3) by (simp add: seenBy_def)
  ultimately have caps: "LoadSF1MarketCaps (cp_sf1Rows (fst ?x)) (dateOnly ts) (cp_dimension (fst ?x)) =
      LoadSF1MarketCaps (cp_sf1Rows (fst ?y)) (dateOnly ts) (cp_dimension (fst ?y))"
    using LoadSF1_past [of "dateOnly ts" "cp_sf1Rows p"] assms(2) by (simp add: R(3))
  show ?thesis unfolding OnBar_stages
    by (rule earnStage_same; rule capStage_same [OF R(2) R(1) caps])
qed

section \<open>The state after a bar\<close>

text \<open>The provider remembers only caps it has written.\<close>

definition remembers :: "'f ContextProvider \<Rightarrow> SharedContextState \<Rightarrow> bool" where
  "remembers p st \<longleftrightarrow> (\<forall>t v. mapGet (cp_lastMarketCap p) t = Some v \<longrightarrow> MarketCap st t = Some v)"

lemma capLoop_state:
  "remembers p st \<Longrightarrow> capLoop caps ts tks p st upd = (p1, st1, upd1) \<Longrightarrow>
   remembers p1 st1 \<and> cs_regime st1 = cs_regime st \<and>
   (\<forall>t. MarketCap st1 t = (if t \<in> set tks \<and> mapGet caps t \<noteq> None then mapGet caps t else MarketCap st t)) \<and>
   cp_tickers p1 = cp_tickers p \<and> cp_earnings p1 = cp_earnings p \<and> cp_blackout p1 = cp_blackout p"
proof (induction tks arbitrary: p st upd)
  case (Cons ticker tks)
  show ?case
  proof (cases "\<exists>v. mapGet caps ticker = Some v \<and> mapGet (cp_lastMarketCap p) ticker \<noteq> Some v")
    case True
    then obtain v where v: "mapGet caps ticker = Some v" "mapGet (cp_lastMarketCap p) ticker \<noteq> Some v" by blast
    have "remembers (p\<lparr>cp_lastMarketCap := mapSet ticker v (cp_lastMarketCap p)\<rparr>) (SetMarketCap ticker v st)"
      using Cons.prems(1) by (auto simp: remembers_def SetMarketCap_def MarketCap_def)
    from Cons.IH [OF this] Cons.prems(2) v show ?thesis
      by (auto simp: SetMarketCap_def MarketCap_def)
  next
    case False
    then have "capLoop caps ts tks p st upd = (p1, st1, upd1)" using Cons.prems(2) by (auto split: option.splits)
    note I = Cons.IH [OF Cons.prems(1) this]
    have "mapGet caps ticker = Some v \<Longrightarrow> MarketCap st ticker = Some v" for v
      using False Cons.prems(1) by (auto simp: remembers_def)
    then have "MarketCap st1 t = (if t \<in> set (ticker # tks) \<and> mapGet caps t \<noteq> None then mapGet caps t else MarketCap st t)" for t
      using I by auto
    then show ?thesis using I by blast
  qed
qed simp

lemma earnLoop_state:
  "earnLoop cal ts tks p st upd = (p1, st1, upd1) \<Longrightarrow>
   cs_regime st1 = cs_regime st \<and> cs_marketCap st1 = cs_marketCap st \<and> cp_lastMarketCap p1 = cp_lastMarketCap p \<and>
   (\<forall>t. EarningsBlackout st1 t = (if t \<in> set tks then mapGet cal t = Some True else EarningsBlackout st t))"
proof (induction tks arbitrary: p st upd)
  case (Cons ticker tks)
  obtain p' upd' where "earnLoop cal ts tks p' (SetEarningsBlackout ticker (mapGet cal ticker = Some True) st) upd' = (p1, st1, upd1)"
    and "cp_lastMarketCap p' = cp_lastMarketCap p"
    using Cons.prems by (auto simp: Let_def split: if_splits)
  with Cons.IH [of p'] show ?case by (auto simp: SetEarningsBlackout_def EarningsBlackout_def)
qed simp

lemma OnBar_state:
  assumes "remembers p st" "ContextProvider_OnBar fo p st ts = (p', st', upd)"
  shows "remembers p' st'"
    and "cs_regime st' = (if regimeMinBars \<le> length (filter (\<lambda>b. dayOf (spy_Date b) \<le> dayOf ts) (cp_spyHistory p))
           then RegimeAt fo p (dateOnly ts) else cs_regime st)"
    and "t \<in> set (cp_tickers p) \<Longrightarrow> MarketCapAt p t (dateOnly ts) = Some v \<Longrightarrow> MarketCap st' t = Some v"
    and "t \<in> set (cp_tickers p) \<Longrightarrow> EarningsBlackout st' t = EarningsBlackoutAt p t (dateOnly ts)"
proof -
  obtain p1 st1 u1 where a: "regimeStage fo p st ts = (p1, st1, u1)" by (metis prod_cases3)
  obtain p2 st2 u2 where b: "capStage ts (p1, st1, u1) = (p2, st2, u2)" by (metis prod_cases3)
  have c: "earnStage ts (p2, st2, u2) = (p', st', upd)" using assms(2) by (simp add: OnBar_stages a b)
  have A: "cs_regime st1 = (if regimeMinBars \<le> length (filter (\<lambda>b. dayOf (spy_Date b) \<le> dayOf ts) (cp_spyHistory p))
           then RegimeAt fo p (dateOnly ts) else cs_regime st)" "remembers p1 st1"
    "cp_tickers p1 = cp_tickers p" "cp_earnings p1 = cp_earnings p" "cp_blackout p1 = cp_blackout p"
    "cp_sf1Rows p1 = cp_sf1Rows p" "cp_dimension p1 = cp_dimension p"
    using a assms(1) by (auto simp: regimeStage_def Let_def RegimeAt_def SetRegime_def past_iff remembers_def MarketCap_def split: if_splits)
  have B: "remembers p2 st2" "cs_regime st2 = cs_regime st1"
    "t \<in> set (cp_tickers p) \<Longrightarrow> MarketCapAt p t (dateOnly ts) = Some v \<Longrightarrow> MarketCap st2 t = Some v"
    "cp_tickers p2 = cp_tickers p" "cp_earnings p2 = cp_earnings p" "cp_blackout p2 = cp_blackout p"
    using b A capLoop_state [OF A(2), of _ ts "cp_tickers p" u1 p2 st2 u2]
    by (auto simp: capStage_def Let_def MarketCapAt_def split: if_splits)
  have C: "cs_regime st' = cs_regime st2" "cs_marketCap st' = cs_marketCap st2" "cp_lastMarketCap p' = cp_lastMarketCap p2"
    "t \<in> set (cp_tickers p) \<Longrightarrow> EarningsBlackout st' t = EarningsBlackoutAt p t (dateOnly ts)"
    using c B(4-6) earnLoop_state [of _ ts "cp_tickers p2" p2 st2 u2 p' st' upd]
    by (auto simp: earnStage_def EarningsBlackoutAt_def split: if_splits)
  show "remembers p' st'" using B(1) C by (simp add: remembers_def MarketCap_def)
  show "cs_regime st' = (if regimeMinBars \<le> length (filter (\<lambda>b. dayOf (spy_Date b) \<le> dayOf ts) (cp_spyHistory p))
           then RegimeAt fo p (dateOnly ts) else cs_regime st)" using A(1) B(2) C(1) by simp
  show "t \<in> set (cp_tickers p) \<Longrightarrow> MarketCapAt p t (dateOnly ts) = Some v \<Longrightarrow> MarketCap st' t = Some v"
    using B(3) C(2) by (simp add: MarketCap_def)
  show "t \<in> set (cp_tickers p) \<Longrightarrow> EarningsBlackout st' t = EarningsBlackoutAt p t (dateOnly ts)" by (rule C(4))
qed

section \<open>Properties\<close>

definition intOps :: "int FloatOps" where
  "intOps = \<lparr>f_add = (+), f_sub = (-), f_div = (div), f_less = (<), f_eq = (=), f_isNaN = (\<lambda>_. False), f_NaN = 0, f_of_nat = int\<rparr>"

definition filing :: "int \<Rightarrow> rat \<Rightarrow> SF1Row" where
  "filing day cap = \<lparr>sf1_Ticker = ''X'', sf1_DateKey = \<lparr>t_ns = day * dayNs, t_off = 0\<rparr>, sf1_MarketCap = cap, sf1_HasMarketCap = True,
     sf1_Dimension = ''MRT'', sf1_HasDimension = True\<rparr>"

definition demoProvider :: "int ContextProvider" where
  "demoProvider = NewContextProvider [\<lparr>spy_Date = \<lparr>t_ns = 9 * dayNs, t_off = 0\<rparr>, spy_Close = 100\<rparr>] [filing 3 10, filing 5 20, filing 8 30]
     [\<lparr>er_Ticker = ''X'', er_ReportDate = \<lparr>t_ns = 9 * dayNs, t_off = 0\<rparr>\<rparr>] [''X''] [] 5"

definition dayFive :: gotime where
  "dayFive = \<lparr>t_ns = 5 * dayNs + 7, t_off = 0\<rparr>"



text \<open>The market cap of a ticker as of a date is that of its latest eligible filing on or before that
  date, and there is none exactly when no filing is eligible.\<close>

theorem market_cap_is_latest_filing:
  "(MarketCapAt p t date = Some v \<longrightarrow>
     (\<exists>r \<in> set (eligible (cp_sf1Rows p) date (cp_dimension p)). sf1_Ticker r = t \<and> sf1_MarketCap r = v \<and>
       (\<forall>r' \<in> set (eligible (cp_sf1Rows p) date (cp_dimension p)). sf1_Ticker r' = t \<longrightarrow> dayOf (sf1_DateKey r') \<le> dayOf (sf1_DateKey r)))) \<and>
   (MarketCapAt p t date = None \<longleftrightarrow> t \<notin> sf1_Ticker ` set (eligible (cp_sf1Rows p) date (cp_dimension p)))"
  using caps_latest [of "cp_sf1Rows p" date "cp_dimension p" t v] caps_none [of "cp_sf1Rows p" date "cp_dimension p" t]
  by (simp add: MarketCapAt_def)

theorem market_cap_is_latest_filing_witness:
  "\<exists>r \<in> set (eligible (cp_sf1Rows demoProvider) dayFive (cp_dimension demoProvider)). sf1_Ticker r = ''X'' \<and> sf1_MarketCap r = 20"
proof -
  have "MarketCapAt demoProvider ''X'' dayFive = Some 20" by code_simp
  then show ?thesis using market_cap_is_latest_filing [of demoProvider "''X''" dayFive 20] by blast
qed

text \<open>A ticker is in its earnings blackout exactly when some report of it is dated within the window of
  days around the date, on either side.\<close>

theorem blackout_is_window:
  "EarningsBlackoutAt p t date \<longleftrightarrow>
     (\<exists>r \<in> set (cp_earnings p). er_Ticker r = t \<and> \<bar>dayOf (er_ReportDate r) - dayOf date\<bar> \<le> cp_blackout p)"
  by (simp add: EarningsBlackoutAt_def blackout_iff)

text \<open>After a bar the shared state shows the bar's day: the regime once two hundred closes are available,
  for every followed ticker the cap of its latest filing if it has one, and its blackout; and the provider
  remembers only caps it has written, which is what lets it skip unchanged ones.\<close>

theorem state_after_bar:
  assumes "remembers p st" "ContextProvider_OnBar fo p st ts = (p', st', upd)"
  shows "remembers p' st' \<and>
    cs_regime st' = (if regimeMinBars \<le> length (filter (\<lambda>b. dayOf (spy_Date b) \<le> dayOf ts) (cp_spyHistory p))
      then RegimeAt fo p (dateOnly ts) else cs_regime st) \<and>
    (t \<in> set (cp_tickers p) \<longrightarrow> MarketCapAt p t (dateOnly ts) = Some v \<longrightarrow> MarketCap st' t = Some v) \<and>
    (t \<in> set (cp_tickers p) \<longrightarrow> EarningsBlackout st' t = EarningsBlackoutAt p t (dateOnly ts))"
  by (intro conjI impI OnBar_state [OF assms])

theorem state_after_bar_witness:
  "MarketCap (fst (snd (ContextProvider_OnBar intOps demoProvider NewSharedContextState dayFive))) ''X'' = Some 20"
proof -
  obtain p' st' upd where o: "ContextProvider_OnBar intOps demoProvider NewSharedContextState dayFive = (p', st', upd)"
    by (metis prod_cases3)
  have "remembers demoProvider NewSharedContextState" by (simp add: remembers_def demoProvider_def NewContextProvider_def)
  moreover have "(''X'' \<in> set (cp_tickers demoProvider)) \<and>
    (MarketCapAt demoProvider ''X'' (dateOnly dayFive) = Some 20)" by code_simp
  ultimately show ?thesis using state_after_bar [OF _ o] o by simp
qed

end
