(* ===== verification/Data_Calendar.thy ===== *)
theory Data_Calendar
  imports Go_Prelude
begin

text \<open>
  The trading calendar of \<open>internal/data/calendar\<close> (\<open>date.go\<close>, \<open>nyse.go\<close>, \<open>calendar.go\<close>).  What the
  package uses of Go's \<open>time\<close> is the proleptic Gregorian calendar: a date and its day number
  (days since 1 January 1970) determine each other, which is the first group of lemmas.  The exchange
  time zone is an argument: the instant of a wall-clock minute of a date, and the date of an instant.
  The lemmas show that the sessions of a built calendar are ascending and distinct, and that the
  queries by binary search return what a linear search would.
\<close>

section \<open>Civil dates\<close>

record Date =
  Year :: int
  Month :: int
  Day :: int

definition mkDate :: "int \<Rightarrow> int \<Rightarrow> int \<Rightarrow> Date" where
  "mkDate y m d = \<lparr>Year = y, Month = m, Day = d\<rparr>"

text \<open>Days of the months from March on, before month \<open>mp\<close> (0 is March).\<close>

definition monthStart :: "int \<Rightarrow> int" where
  "monthStart mp = (153 * mp + 2) div 5"

text \<open>Days from 1 March of year 0 to 1 March of year \<open>y\<close>.\<close>

definition marchDays :: "int \<Rightarrow> int" where
  "marchDays y = 365 * y + y div 4 - y div 100 + y div 400"

text \<open>\<open>time.Date\<close> normalises the month into the year and the day into the months; the day number is
  that of 1970-01-01 plus this.\<close>

definition dayNumber :: "int \<Rightarrow> int \<Rightarrow> int \<Rightarrow> int" where
  "dayNumber y m d =
     (let y1 = y + (m - 1) div 12; m1 = (m - 1) mod 12 + 1;
          y2 = (if m1 \<le> 2 then y1 - 1 else y1); mp = (m1 + 9) mod 12
      in marchDays y2 + monthStart mp + d - 1 - 719468)"

text \<open>The date of a day number, as \<open>time\<close> computes it: 400-year cycles, centuries, 4-year cycles,
  years, with the last day of a cycle in its last part.\<close>

definition dateOfDays :: "int \<Rightarrow> Date" where
  "dateOfDays n =
     (let z = n + 719468; era = z div 146097; doe = z mod 146097;
          c = min 3 (doe div 36524); r1 = doe - 36524 * c;
          q = r1 div 1461; r2 = r1 mod 1461;
          a = min 3 (r2 div 365); doy = r2 - 365 * a;
          y = 400 * era + 100 * c + 4 * q + a;
          mp = (5 * doy + 2) div 153;
          m = (if mp < 10 then mp + 3 else mp - 9)
      in mkDate (if m \<le> 2 then y + 1 else y) m (doy - monthStart mp + 1))"

definition leapYear :: "int \<Rightarrow> bool" where
  "leapYear y \<longleftrightarrow> y mod 4 = 0 \<and> (y mod 100 \<noteq> 0 \<or> y mod 400 = 0)"

definition monthLength :: "int \<Rightarrow> int \<Rightarrow> int" where
  "monthLength y m = (if m = 2 then (if leapYear y then 29 else 28) else if m \<in> {4, 6, 9, 11} then 30 else 31)"

definition validDate :: "Date \<Rightarrow> bool" where
  "validDate d \<longleftrightarrow> 1 \<le> Month d \<and> Month d \<le> 12 \<and> 1 \<le> Day d \<and> Day d \<le> monthLength (Year d) (Month d)"

definition daysOf :: "Date \<Rightarrow> int" where
  "daysOf d = dayNumber (Year d) (Month d) (Day d)"

lemma marchDays_split:
  "marchDays (400 * e + r) = 146097 * e + marchDays r"
proof -
  have "(400 * e + r) div 4 = 100 * e + r div 4" "(400 * e + r) div 100 = 4 * e + r div 100"
    "(400 * e + r) div 400 = e + r div 400" by linarith+
  then show ?thesis by (simp add: marchDays_def algebra_simps)
qed

text \<open>A year of the 400-year cycle by its century, 4-year cycle and rest.\<close>

lemma marchDays_parts:
  assumes "0 \<le> c" "c \<le> 3" "0 \<le> q" "q \<le> 24" "0 \<le> a" "a \<le> (3 :: int)"
  shows "marchDays (100 * c + 4 * q + a) = 36524 * c + 1461 * q + 365 * a"
proof -
  have "(100 * c + 4 * q + a) div 4 = 25 * c + q" "(100 * c + 4 * q + a) div 100 = c" "(100 * c + 4 * q + a) div 400 = 0"
    using assms by linarith+
  then show ?thesis by (simp add: marchDays_def)
qed

lemma month_cases:
  assumes "0 \<le> mp" "mp \<le> (11 :: int)"
  obtains "mp = 0" | "mp = 1" | "mp = 2" | "mp = 3" | "mp = 4" | "mp = 5" | "mp = 6" | "mp = 7" | "mp = 8" | "mp = 9"
    | "mp = 10" | "mp = 11"
proof -
  have "mp = 0 \<or> mp = 1 \<or> mp = 2 \<or> mp = 3 \<or> mp = 4 \<or> mp = 5 \<or> mp = 6 \<or> mp = 7 \<or> mp = 8 \<or> mp = 9 \<or> mp = 10 \<or> mp = 11"
    using assms by presburger
  then show ?thesis using that by blast
qed

lemma div_bounds: "0 < b \<Longrightarrow> b * (a div b) \<le> (a :: int) \<and> a < b * (a div b) + b"
  using pos_mod_bound [of b a] pos_mod_sign [of b a] mult_div_mod_eq [of b a] by linarith

definition marchMonth :: "int \<Rightarrow> int" where
  "marchMonth mp = (if mp < 10 then mp + 3 else mp - 9)"

text \<open>The month and day of a day of the year that starts in March.\<close>

lemma day_of_year:
  assumes "0 \<le> doy" "doy \<le> 365" "mp = (5 * doy + 2) div 153"
  shows "0 \<le> mp \<and> mp \<le> 11 \<and> monthStart mp \<le> doy \<and> (marchMonth mp + 9) mod 12 = mp \<and>
    (if mp = 11 then doy \<le> 365 else doy - monthStart mp + 1 \<le> monthLength y (marchMonth mp))"
proof -
  have b: "0 \<le> mp" "mp \<le> 11" "153 * mp \<le> 5 * doy + 2" "5 * doy + 2 < 153 * (mp + 1)"
    using div_bounds [of 153 "5 * doy + 2", folded assms(3)] assms(1,2) by simp_all
  from b(1,2) show ?thesis
    by (cases rule: month_cases) (use b assms(2) in \<open>auto simp: monthStart_def marchMonth_def monthLength_def\<close>)
qed

lemma day_of_year_inverse:
  assumes "0 \<le> mp" "mp \<le> 11" "0 \<le> t" "t < (if mp = 11 then 29 else monthLength y (marchMonth mp))"
  shows "(5 * (monthStart mp + t) + 2) div 153 = mp" "monthStart mp + t \<le> (if mp = 11 then 337 + t else 336)" "monthStart 11 = 337"
proof -
  from assms(1,2) show "(5 * (monthStart mp + t) + 2) div 153 = mp"
    by (cases rule: month_cases) (use assms(3,4) in \<open>auto simp: monthStart_def marchMonth_def monthLength_def\<close>)
  from assms(1,2) show "monthStart mp + t \<le> (if mp = 11 then 337 + t else 336)"
    by (cases rule: month_cases) (use assms(3,4) in \<open>auto simp: monthStart_def marchMonth_def monthLength_def\<close>)
qed (simp add: monthStart_def)

text \<open>The year and the day of the year of a day number.\<close>

definition yearParts :: "int \<Rightarrow> int \<times> int" where
  "yearParts z =
     (let era = z div 146097; doe = z mod 146097; c = min 3 (doe div 36524); r1 = doe - 36524 * c;
          q = r1 div 1461; r2 = r1 mod 1461; a = min 3 (r2 div 365)
      in (400 * era + 100 * c + 4 * q + a, r2 - 365 * a))"

lemma dateOfDays_parts:
  "dateOfDays n = (case yearParts (n + 719468) of (y, doy) \<Rightarrow>
     let mp = (5 * doy + 2) div 153; m = marchMonth mp
     in mkDate (if m \<le> 2 then y + 1 else y) m (doy - monthStart mp + 1))"
  by (simp only: dateOfDays_def yearParts_def marchMonth_def Let_def prod.case add.assoc)

lemma yearParts_ok:
  assumes "yearParts z = (y, doy)"
  shows "z = marchDays y + doy" "0 \<le> doy" "doy \<le> 365" "doy = 365 \<Longrightarrow> leapYear (y + 1)"
proof -
  define era doe where "era = z div 146097" and "doe = z mod 146097"
  define c where "c = min 3 (doe div 36524)"
  define r1 where "r1 = doe - 36524 * c"
  define q r2 where "q = r1 div 1461" and "r2 = r1 mod 1461"
  define a where "a = min 3 (r2 div 365)"
  have yd: "y = 400 * era + (100 * c + 4 * q + a)" "doy = r2 - 365 * a"
    using assms unfolding yearParts_def Let_def era_def doe_def c_def r1_def q_def r2_def a_def
    by (simp_all only: prod.inject add.assoc)
  have z: "z = 146097 * era + doe" "0 \<le> doe" "doe < 146097" by (simp_all add: era_def doe_def)
  have c: "0 \<le> c" "c \<le> 3" "0 \<le> r1" "r1 \<le> 36524" "c < 3 \<longrightarrow> r1 < 36524" using z div_bounds [of 36524 doe] unfolding c_def r1_def min_def by (simp_all split: if_split)
  have q: "r1 = 1461 * q + r2" "0 \<le> r2" "r2 < 1461" "0 \<le> q" "q \<le> 24" using c div_bounds [of 1461 r1] by (simp_all add: q_def r2_def)
  have a: "0 \<le> a" "a \<le> 3" "0 \<le> doy" "doy \<le> 365" "a < 3 \<longrightarrow> doy < 365" using q div_bounds [of 365 r2] unfolding a_def yd(2) min_def by (simp_all split: if_split)
  show "z = marchDays y + doy"
    unfolding yd(1) marchDays_split marchDays_parts [OF c(1,2) q(4,5) a(1,2)] using z(1) q(1) yd(2) by (simp add: r1_def)
  show "0 \<le> doy" "doy \<le> 365" by (rule a(3), rule a(4))
  show "leapYear (y + 1)" if "doy = 365"
  proof -
    have a3: "a = 3" "r2 = 1460" using a that yd(2) by linarith+
    then have y: "y + 1 = 400 * era + 100 * c + 4 * (q + 1)" by (simp add: yd)
    have "(y + 1) mod 4 = 0" using y by (intro int_mod_pos_eq [of _ _ "100 * era + 25 * c + q + 1"]) auto
    moreover have "(y + 1) mod 100 \<noteq> 0 \<or> (y + 1) mod 400 = 0"
    proof (cases "q = 24")
      case True
      then have "c = 3" using c q(1) a3(2) by linarith
      then show ?thesis using True y by simp
    next
      case False
      have "(y + 1) mod 100 = 4 * (q + 1)" using y q(4,5) False by (intro int_mod_pos_eq [of _ _ "4 * era + c"]) auto
      then show ?thesis using q(4) by simp
    qed
    ultimately show ?thesis by (simp add: leapYear_def)
  qed
qed

lemma yearParts_unique:
  assumes "0 \<le> doy" "doy \<le> 365" "doy = 365 \<Longrightarrow> leapYear (y + 1)"
  shows "yearParts (marchDays y + doy) = (y, doy)"
proof -
  define era u where "era = y div 400" and "u = y mod 400"
  define c v where "c = u div 100" and "v = u mod 100"
  define q a where "q = v div 4" and "a = v mod 4"
  have "y = 400 * era + u" "u = 100 * c + v" "v = 4 * q + a"
    by (simp_all add: era_def u_def c_def v_def q_def a_def)
  then have y: "y = 400 * era + (100 * c + 4 * q + a)" by simp
  have u: "0 \<le> u" "u < 400" by (simp_all add: u_def)
  then have c: "0 \<le> c" "c \<le> 3" "0 \<le> v" "v < 100" using div_bounds [of 100 u] by (simp_all add: c_def v_def)
  then have q: "0 \<le> q" "q \<le> 24" "0 \<le> a" "a \<le> 3"
    using div_bounds [of 4 v] pos_mod_bound [of 4 v] by (simp_all add: q_def a_def)
  note b = c(1,2) q
  define r1 where "r1 = 1461 * q + 365 * a + doy"
  have a3: "doy = 365 \<Longrightarrow> a = 3"
  proof -
    assume "doy = 365"
    then have "(4 * (100 * era + 25 * c + q) + (a + 1)) mod 4 = 0" using assms(3) y by (simp add: leapYear_def algebra_simps)
    then have "(a + 1) mod 4 = 0" by (simp only: mod_mult_self4)
    then show "a = 3" using b(5,6) by presburger
  qed
  have c3: "r1 = 36524 \<Longrightarrow> c = 3"
  proof -
    assume "r1 = 36524"
    then have full: "q = 24" "a = 3" "doy = 365" 
      using b assms(2) a3 unfolding r1_def by linarith+
    then have y1: "y + 1 = 400 * era + 100 * (c + 1)" using y by simp
    then have "(y + 1) mod 100 = 0" by (intro int_mod_pos_eq [of _ _ "4 * era + c + 1"]) auto
    then have "(y + 1) mod 400 = 0" using assms(3) full by (auto simp: leapYear_def)
    moreover have "(y + 1) mod 400 = 100 * (c + 1)" if "c \<noteq> 3" using y1 b that by (intro int_mod_pos_eq [of _ _ era]) auto
    ultimately show "c = 3" using b(1) by (cases "c = 3") simp_all
  qed
  have r1: "0 \<le> r1" "r1 \<le> 36524" using b assms a3 unfolding r1_def by (simp, cases "doy = 365", simp, simp)
  have z: "marchDays y + doy = 146097 * era + (36524 * c + r1)"
    unfolding y marchDays_split marchDays_parts [OF b] by (simp add: r1_def)
  have 1: "(146097 * era + (36524 * c + r1)) div 146097 = era" "(146097 * era + (36524 * c + r1)) mod 146097 = 36524 * c + r1"
    using b r1 by (auto intro!: int_div_pos_eq int_mod_pos_eq)
  have 2: "min 3 ((36524 * c + r1) div 36524) = c"
  proof (cases "r1 = 36524")
    case True
    then show ?thesis using c3 by simp
  next
    case False
    then have "(36524 * c + r1) div 36524 = c" using r1 by (intro int_div_pos_eq) auto
    then show ?thesis using b by simp
  qed
  have 3: "r1 div 1461 = q" "r1 mod 1461 = 365 * a + doy" 
  proof -
    have "365 * a + doy < 1461" using b assms a3 by (cases "doy = 365") simp_all
    then have r2: "r1 = 1461 * q + (365 * a + doy)" "0 \<le> 365 * a + doy" "365 * a + doy < 1461"
      using b assms by (simp_all add: r1_def)
    show "r1 div 1461 = q" "r1 mod 1461 = 365 * a + doy"
      by (rule int_div_pos_eq [OF r2], rule int_mod_pos_eq [OF r2])
  qed
  have 4: "min 3 ((365 * a + doy) div 365) = a" 
  proof (cases "doy = 365")
    case True
    then show ?thesis using a3 by simp
  next
    case False
    then have "(365 * a + doy) div 365 = a" using assms by (intro int_div_pos_eq) auto
    then show ?thesis using b by simp
  qed
  have 5: "36524 * c + r1 - 36524 * c = r1" "365 * a + doy - 365 * a = doy" by simp_all
  show ?thesis unfolding z yearParts_def Let_def 1 2 5 3 4 by (simp add: y)
qed

lemma daysOf_march:
  assumes "1 \<le> m" "m \<le> 12" "mp = (m + 9) mod 12"
  shows "dayNumber y m d = marchDays (if m \<le> 2 then y - 1 else y) + (monthStart mp + d - 1) - 719468"
proof -
  have "(m - 1) div 12 = 0" "(m - 1) mod 12 = m - 1" using assms by simp_all
  then show ?thesis using assms(3) unfolding dayNumber_def Let_def by simp
qed

theorem daysOf_dateOfDays: "daysOf (dateOfDays n) = n" "validDate (dateOfDays n)"
proof -
  obtain y doy where yp: "yearParts (n + 719468) = (y, doy)" by (cases "yearParts (n + 719468)")
  note Y = yearParts_ok [OF yp]
  define mp where "mp = (5 * doy + 2) div 153"
  let ?m = "marchMonth mp"
  have D: "dateOfDays n = mkDate (if ?m \<le> 2 then y + 1 else y) ?m (doy - monthStart mp + 1)"
    unfolding dateOfDays_parts yp Let_def mp_def by simp
  have M: "0 \<le> mp" "mp \<le> 11" "monthStart mp \<le> doy" "(?m + 9) mod 12 = mp"
    "if mp = 11 then doy \<le> 365 else doy - monthStart mp + 1 \<le> monthLength (if ?m \<le> 2 then y + 1 else y) ?m"
    using day_of_year [OF Y(2,3) mp_def] by blast+
  have m: "1 \<le> ?m" "?m \<le> 12" using M(1,2) by (simp_all add: marchMonth_def)
  show "daysOf (dateOfDays n) = n"
    unfolding daysOf_def D mkDate_def Date.select_convs daysOf_march [OF m M(4) [symmetric]] using Y(1) by simp
  have "doy - 336 \<le> monthLength (y + 1) 2" if "mp = 11" using Y(3,4) by (cases "doy = 365") (simp_all add: monthLength_def)
  moreover have "marchMonth 11 = 2" "monthStart 11 = 337" by (simp_all add: marchMonth_def monthStart_def)
  ultimately have "doy - monthStart mp + 1 \<le> monthLength (if ?m \<le> 2 then y + 1 else y) ?m"
    using M(5) by (cases "mp = 11") simp_all
  then show "validDate (dateOfDays n)" using m M(3) unfolding D validDate_def mkDate_def by simp
qed

theorem dateOfDays_daysOf:
  assumes "validDate d" shows "dateOfDays (daysOf d) = d"
proof -
  have m: "1 \<le> Month d" "Month d \<le> 12" and dd: "1 \<le> Day d" "Day d \<le> monthLength (Year d) (Month d)"
    using assms by (simp_all add: validDate_def)
  define mp where "mp = (Month d + 9) mod 12"
  define y where "y = (if Month d \<le> 2 then Year d - 1 else Year d)"
  define doy where "doy = monthStart mp + (Day d - 1)"
  have mm: "marchMonth mp = Month d" "0 \<le> mp" "mp \<le> 11" "mp = 11 \<longleftrightarrow> Month d = 2"
    using m unfolding mp_def marchMonth_def by presburger+
  have t: "0 \<le> Day d - 1" "Day d - 1 < (if mp = 11 then 29 else monthLength (Year d) (marchMonth mp))"
    using dd mm by (auto simp: monthLength_def split: if_splits)
  note I = day_of_year_inverse [OF mm(2,3) t, folded doy_def]
  have ds: "0 \<le> monthStart mp" using mm(2) by (simp add: monthStart_def)
  have doy: "0 \<le> doy" "doy \<le> 365" using I(2,3) t ds by (auto simp: doy_def split: if_splits)
  have leap: "leapYear (y + 1)" if "doy = 365"
  proof -
    have "mp = 11" using that I(2) by (simp split: if_splits)
    then have "Month d = 2" "Day d = 29" using mm(4) that I(3) by (simp_all add: doy_def)
    then show ?thesis using dd by (simp add: monthLength_def y_def split: if_splits)
  qed
  have "daysOf d + 719468 = marchDays y + doy"
    unfolding daysOf_def daysOf_march [OF m mp_def] by (simp add: y_def doy_def)
  then have "yearParts (daysOf d + 719468) = (y, doy)" using yearParts_unique [OF doy leap] by simp
  then show ?thesis
    unfolding dateOfDays_parts using I(1) mm(1) by (simp add: Let_def mkDate_def y_def doy_def)
qed

section \<open>Operations on dates\<close>

definition NewDate :: "int \<Rightarrow> int \<Rightarrow> int \<Rightarrow> Date" where
  "NewDate year month day = dateOfDays (dayNumber year month day)"

text \<open>Zero padding of \<open>fmt\<close>: a sign counts towards the width.\<close>

definition padInt :: "nat \<Rightarrow> int \<Rightarrow> string" where
  "padInt w n =
     (let ds = fmtUint (nat \<bar>n\<bar>); sg = (if n < 0 then ''-'' else [])
      in sg @ replicate (w - length sg - length ds) CHR ''0'' @ ds)"

definition Date_String :: "Date \<Rightarrow> string" where
  "Date_String d = padInt 4 (Year d) @ ''-'' @ padInt 2 (Month d) @ ''-'' @ padInt 2 (Day d)"

definition ErrParseDate :: go_error where
  "ErrParseDate = ErrPlain ''calendar: parse date''"

text \<open>\<open>time.Parse\<close> with the layout \<open>2006-01-02\<close>: fixed positions, digits only, ranges checked.\<close>

definition ParseDate :: "string \<Rightarrow> Date result" where
  "ParseDate s =
     (if length s = 10 \<and> s ! 4 = CHR ''-'' \<and> s ! 7 = CHR ''-'' \<and>
         list_all isDigit (take 4 s) \<and> list_all isDigit (take 2 (drop 5 s)) \<and> list_all isDigit (drop 8 s)
      then let d = mkDate (int (digval (take 4 s))) (int (digval (take 2 (drop 5 s)))) (int (digval (drop 8 s)))
           in if validDate d then Inr d else Inl ErrParseDate
      else Inl ErrParseDate)"

definition Date_IsZero :: "Date \<Rightarrow> bool" where
  "Date_IsZero d \<longleftrightarrow> d = mkDate 0 0 0"

definition midnightUTC :: "Date \<Rightarrow> gotime" where
  "midnightUTC d = \<lparr>t_ns = daysOf d * 86400000000000, t_off = 0\<rparr>"

text \<open>Weekdays count from Sunday; 1 January 1970 was a Thursday.\<close>

definition Weekday :: "Date \<Rightarrow> int" where
  "Weekday d = (daysOf d + 4) mod 7"

definition Date_AddDays :: "Date \<Rightarrow> int \<Rightarrow> Date" where
  "Date_AddDays d n = dateOfDays (daysOf d + n)"

definition cmpInt :: "int \<Rightarrow> int \<Rightarrow> int" where
  "cmpInt a b = (if a < b then - 1 else if b < a then 1 else 0)"

definition Date_Compare :: "Date \<Rightarrow> Date \<Rightarrow> int" where
  "Date_Compare d other =
     (if Year d \<noteq> Year other then cmpInt (Year d) (Year other)
      else if Month d \<noteq> Month other then cmpInt (Month d) (Month other)
      else cmpInt (Day d) (Day other))"

definition Date_Before :: "Date \<Rightarrow> Date \<Rightarrow> bool" where
  "Date_Before d other \<longleftrightarrow> Date_Compare d other < 0"

definition Date_After :: "Date \<Rightarrow> Date \<Rightarrow> bool" where
  "Date_After d other \<longleftrightarrow> 0 < Date_Compare d other"

section \<open>The rules of the exchange\<close>

definition specialClosures :: "(Date, string) gomap" where
  "specialClosures =
     [(NewDate 2001 9 11, ''September 11 attacks''), (NewDate 2001 9 12, ''September 11 attacks''),
      (NewDate 2001 9 13, ''September 11 attacks''), (NewDate 2001 9 14, ''September 11 attacks''),
      (NewDate 2004 6 11, ''Day of mourning for President Ronald Reagan''),
      (NewDate 2007 1 2, ''Day of mourning for President Gerald Ford''),
      (NewDate 2012 10 29, ''Hurricane Sandy''), (NewDate 2012 10 30, ''Hurricane Sandy''),
      (NewDate 2018 12 5, ''Day of mourning for President George H.W. Bush''),
      (NewDate 2025 1 9, ''Day of mourning for President Jimmy Carter'')]"

definition adHocEarlyCloses :: "(Date, string) gomap" where
  "adHocEarlyCloses = [(NewDate 2003 12 26, ''Day after Christmas 2003'')]"

definition easterSunday :: "int \<Rightarrow> Date" where
  "easterSunday year =
     (let a = year smod 19; b = year sdiv 100; c = year smod 100; d = b sdiv 4; e = b smod 4;
          f = (b + 8) sdiv 25; g = (b - f + 1) sdiv 3; h = (19 * a + b - d - g + 15) smod 30;
          i = c sdiv 4; k = c smod 4; l = (32 + 2 * e + 2 * i - h - k) smod 7;
          m = (a + 11 * h + 22 * l) sdiv 451;
          month = (h + l - 7 * m + 114) sdiv 31; day = (h + l - 7 * m + 114) smod 31 + 1
      in NewDate year month day)"

definition nthWeekday :: "int \<Rightarrow> int \<Rightarrow> int \<Rightarrow> int \<Rightarrow> Date" where
  "nthWeekday year month wd n =
     (let first = NewDate year month 1; offset = (wd - Weekday first + 7) smod 7
      in Date_AddDays first (offset + (n - 1) * 7))"

definition lastWeekday :: "int \<Rightarrow> int \<Rightarrow> int \<Rightarrow> Date" where
  "lastWeekday year month wd =
     (let lst = Date_AddDays (NewDate year (month + 1) 1) (- 1); offset = (Weekday lst - wd + 7) smod 7
      in Date_AddDays lst (- offset))"

definition observedSatFriSunMon :: "Date \<Rightarrow> Date" where
  "observedSatFriSunMon d =
     (if Weekday d = 6 then Date_AddDays d (- 1) else if Weekday d = 0 then Date_AddDays d 1 else d)"

definition nyseHolidaysForYear :: "int \<Rightarrow> (Date, string) gomap" where
  "nyseHolidaysForYear year =
     (let newYear = NewDate year 1 1;
          h0 = (if Weekday newYear = 0 then mapSet (Date_AddDays newYear 1) ''New Year's Day (observed)'' []
                else if Weekday newYear = 6 then []
                else mapSet newYear ''New Year's Day'' []);
          h1 = (if 1998 \<le> year then mapSet (nthWeekday year 1 1 3) ''Martin Luther King Jr. Day'' h0 else h0);
          h2 = mapSet (nthWeekday year 2 1 3) ''Washington's Birthday'' h1;
          h3 = mapSet (Date_AddDays (easterSunday year) (- 2)) ''Good Friday'' h2;
          h4 = mapSet (lastWeekday year 5 1) ''Memorial Day'' h3;
          h5 = (if 2022 \<le> year
                then mapSet (observedSatFriSunMon (NewDate year 6 19)) ''Juneteenth National Independence Day'' h4 else h4);
          h6 = mapSet (observedSatFriSunMon (NewDate year 7 4)) ''Independence Day'' h5;
          h7 = mapSet (nthWeekday year 9 1 1) ''Labor Day'' h6;
          h8 = mapSet (nthWeekday year 11 4 4) ''Thanksgiving Day'' h7
      in mapSet (observedSatFriSunMon (NewDate year 12 25)) ''Christmas Day'' h8)"

definition nyseEarlyClose :: "Date \<Rightarrow> string option" where
  "nyseEarlyClose d =
     (case mapGet adHocEarlyCloses d of
        Some reason \<Rightarrow> Some reason
      | None \<Rightarrow>
          if (Month d = 11 \<or> Month d = 12) \<and> d = Date_AddDays (nthWeekday (Year d) 11 4 4) 1 then Some ''Day after Thanksgiving''
          else if Month d = 12 \<and> Day d = 24 \<and> Weekday d \<in> {1, 2, 3, 4} then Some ''Christmas Eve''
          else if Month d = 7 \<and> Day d = 3 \<and> (Weekday d \<in> {1, 2, 4} \<or> (Weekday d = 3 \<and> 2013 \<le> Year d))
          then Some ''Day before Independence Day''
          else if Month d = 7 \<and> Day d = 5 \<and> Weekday d = 5 \<and> 1996 \<le> Year d \<and> Year d \<le> 2012
          then Some ''Day after Independence Day''
          else None)"

section \<open>The calendar\<close>

definition MinYear :: int where "MinYear = 2000"
definition MaxYear :: int where "MaxYear = 2030"

definition ErrOutOfRange :: go_error where "ErrOutOfRange = ErrPlain ''calendar: date outside supported range''"
definition ErrNotTradingDay :: go_error where "ErrNotTradingDay = ErrPlain ''calendar: not a trading day''"
definition ErrNoSession :: go_error where "ErrNoSession = ErrPlain ''calendar: no session in supported range''"

record Location =
  loc_Date :: "Date \<Rightarrow> int \<Rightarrow> int \<Rightarrow> gotime"
  loc_dateOf :: "gotime \<Rightarrow> Date"

record Session =
  s_Date :: Date
  s_Open :: gotime
  s_Close :: gotime
  s_EarlyClose :: bool

record Calendar =
  cal_loc :: Location
  cal_minDate :: Date
  cal_maxDate :: Date
  cal_sessions :: "Session list"
  cal_byDate :: "(Date, nat) gomap"
  cal_closures :: "(Date, string) gomap"

definition openSession :: "Location \<Rightarrow> Date \<Rightarrow> Session" where
  "openSession loc d =
     (let early = (nyseEarlyClose d \<noteq> None); (ch, cm) = (if early then (13, 0) else (16, 0))
      in \<lparr>s_Date = d, s_Open = toUTC (loc_Date loc d 9 30), s_Close = toUTC (loc_Date loc d ch cm), s_EarlyClose = early\<rparr>)"

definition visitDay :: "(Date, string) gomap \<Rightarrow> Date \<Rightarrow> Calendar \<Rightarrow> Calendar" where
  "visitDay holidays d c =
     (if Weekday d = 6 \<or> Weekday d = 0 then c
      else case mapGet holidays d of
        Some name \<Rightarrow> c\<lparr>cal_closures := mapSet d name (cal_closures c)\<rparr>
      | None \<Rightarrow>
          (case mapGet specialClosures d of
             Some name \<Rightarrow> c\<lparr>cal_closures := mapSet d name (cal_closures c)\<rparr>
           | None \<Rightarrow>
               c\<lparr>cal_byDate := mapSet d (length (cal_sessions c)) (cal_byDate c),
                 cal_sessions := cal_sessions c @ [openSession (cal_loc c) d]\<rparr>))"

text \<open>The walk over the days of a year; \<open>None\<close> when the fuel is used up before the last day.\<close>

fun yearLoop :: "nat \<Rightarrow> (Date, string) gomap \<Rightarrow> Date \<Rightarrow> Date \<Rightarrow> Calendar \<Rightarrow> Calendar option" where
  "yearLoop 0 holidays d lst c = None"
| "yearLoop (Suc k) holidays d lst c =
     (if Date_After d lst then Some c
      else yearLoop k holidays (Date_AddDays d 1) lst (visitDay holidays d c))"

fun yearsLoop :: "int list \<Rightarrow> Calendar \<Rightarrow> Calendar option" where
  "yearsLoop [] c = Some c"
| "yearsLoop (y # ys) c =
     (case yearLoop 367 (nyseHolidaysForYear y) (NewDate y 1 1) (NewDate y 12 31) c of
        None \<Rightarrow> None
      | Some c1 \<Rightarrow> yearsLoop ys c1)"

definition NewNYSE :: "Location \<Rightarrow> Calendar option" where
  "NewNYSE loc =
     yearsLoop [MinYear..MaxYear]
       \<lparr>cal_loc = loc, cal_minDate = NewDate MinYear 1 1, cal_maxDate = NewDate MaxYear 12 31,
        cal_sessions = [], cal_byDate = [], cal_closures = []\<rparr>"

definition checkRange :: "Calendar \<Rightarrow> Date \<Rightarrow> unit result" where
  "checkRange c d = (if Date_Before d (cal_minDate c) \<or> Date_After d (cal_maxDate c) then Inl ErrOutOfRange else Inr ())"

definition IsTradingDay :: "Calendar \<Rightarrow> Date \<Rightarrow> bool result" where
  "IsTradingDay c d = bindR (checkRange c d) (\<lambda>_. Inr (mapGet (cal_byDate c) d \<noteq> None))"

definition IsEarlyClose :: "Calendar \<Rightarrow> Date \<Rightarrow> bool result" where
  "IsEarlyClose c d = bindR (checkRange c d) (\<lambda>_.
     case mapGet (cal_byDate c) d of None \<Rightarrow> Inr False | Some i \<Rightarrow> Inr (s_EarlyClose (cal_sessions c ! i)))"

definition HolidayName :: "Calendar \<Rightarrow> Date \<Rightarrow> string option" where
  "HolidayName c d = mapGet (cal_closures c) d"

definition SessionOn :: "Calendar \<Rightarrow> Date \<Rightarrow> Session result" where
  "SessionOn c d = bindR (checkRange c d) (\<lambda>_.
     case mapGet (cal_byDate c) d of None \<Rightarrow> Inl ErrNotTradingDay | Some i \<Rightarrow> Inr (cal_sessions c ! i))"

text \<open>The first index in [lo, hi) whose session is not before \<open>d\<close>.\<close>

function searchLoop :: "Session list \<Rightarrow> Date \<Rightarrow> nat \<Rightarrow> nat \<Rightarrow> nat" where
  "searchLoop ss d lo hi =
     (if lo < hi then
        (let mid = (lo + hi) div 2 in
         if Date_Before (s_Date (ss ! mid)) d then searchLoop ss d (mid + 1) hi else searchLoop ss d lo mid)
      else lo)"
  by pat_completeness auto
termination
  by (relation "measure (\<lambda>(ss, d, lo, hi). hi - lo)") auto

declare searchLoop.simps [simp del]

definition searchFrom :: "Calendar \<Rightarrow> Date \<Rightarrow> nat" where
  "searchFrom c d = searchLoop (cal_sessions c) d 0 (length (cal_sessions c))"

definition NextSession :: "Calendar \<Rightarrow> Date \<Rightarrow> Session result" where
  "NextSession c d = bindR (checkRange c d) (\<lambda>_.
     let i = searchFrom c (Date_AddDays d 1) in
     if i < length (cal_sessions c) then Inr (cal_sessions c ! i) else Inl ErrNoSession)"

definition PrevSession :: "Calendar \<Rightarrow> Date \<Rightarrow> Session result" where
  "PrevSession c d = bindR (checkRange c d) (\<lambda>_.
     let i = searchFrom c d in if 0 < i then Inr (cal_sessions c ! (i - 1)) else Inl ErrNoSession)"

definition SessionsInRange :: "Calendar \<Rightarrow> Date \<Rightarrow> Date \<Rightarrow> Session list result" where
  "SessionsInRange c start stop = bindR (checkRange c start) (\<lambda>_. bindR (checkRange c stop) (\<lambda>_.
     if Date_After start stop then Inr []
     else let lo = searchFrom c start; hi = searchFrom c (Date_AddDays stop 1)
          in Inr (take (hi - lo) (drop lo (cal_sessions c)))))"

definition SessionAt :: "Calendar \<Rightarrow> gotime \<Rightarrow> Session option result" where
  "SessionAt c t = (let d = loc_dateOf (cal_loc c) t in
     bindR (checkRange c d) (\<lambda>_.
       case mapGet (cal_byDate c) d of None \<Rightarrow> Inr None | Some i \<Rightarrow> Inr (Some (cal_sessions c ! i))))"

section \<open>Dates are ordered like their day numbers\<close>

lemma div_inc:
  fixes y b :: int assumes "1 < b"
  shows "(y + 1) div b = y div b + (if (y + 1) mod b = 0 then 1 else 0)"
proof -
  have y: "y = b * (y div b) + y mod b" "0 \<le> y mod b" "y mod b < b" using assms by simp_all
  show ?thesis
  proof (cases "y mod b = b - 1")
    case True
    then have e: "y + 1 = b * (y div b + 1) + 0" using y(1) by (simp add: distrib_left)
    have "(y + 1) div b = y div b + 1" "(y + 1) mod b = 0"
      by (rule int_div_pos_eq [OF e], use assms in simp_all) (rule int_mod_pos_eq [OF e], use assms in simp_all)
    then show ?thesis by simp
  next
    case False
    then have e: "y + 1 = b * (y div b) + (y mod b + 1)" "0 \<le> y mod b + 1" "y mod b + 1 < b" using y by simp_all
    have "(y + 1) div b = y div b" "(y + 1) mod b = y mod b + 1"
      by (rule int_div_pos_eq [OF e]) (rule int_mod_pos_eq [OF e])
    then show ?thesis using y(2) by simp
  qed
qed

lemma marchDays_Suc: "marchDays (y + 1) = marchDays y + 365 + (if leapYear (y + 1) then 1 else 0)"
proof -
  define z where "z = y + 1"
  have d: "z mod 400 = 0 \<Longrightarrow> z mod 100 = 0" "z mod 100 = 0 \<Longrightarrow> z mod 4 = 0"
    unfolding mod_eq_0_iff_dvd by (erule dvd_trans [rotated], simp)+
  have i: "z div 4 = y div 4 + (if z mod 4 = 0 then 1 else 0)" "z div 100 = y div 100 + (if z mod 100 = 0 then 1 else 0)"
    "z div 400 = y div 400 + (if z mod 400 = 0 then 1 else 0)" unfolding z_def by (rule div_inc, simp)+
  have "marchDays z = 365 * y + 365 + z div 4 - z div 100 + z div 400" by (simp add: marchDays_def z_def)
  also have "\<dots> = marchDays y + 365 + (if leapYear z then 1 else 0)"
    unfolding i marchDays_def leapYear_def using d by (cases "z mod 4 = 0"; cases "z mod 100 = 0"; cases "z mod 400 = 0") auto
  finally show ?thesis by (simp only: z_def)
qed

text \<open>The months of all years in one line, counted from January of year 0.\<close>

definition monthIndex :: "Date \<Rightarrow> int" where
  "monthIndex d = 12 * Year d + Month d"

definition monthBase :: "int \<Rightarrow> int" where
  "monthBase i = marchDays ((i - 3) div 12) + monthStart ((i - 3) mod 12) - 1 - 719468"

lemma month_split:
  fixes y m :: int
  assumes "1 \<le> m" "m \<le> 12"
  shows "(12 * y + m - 3) div 12 = (if m \<le> 2 then y - 1 else y)" "(12 * y + m - 3) mod 12 = (m + 9) mod 12"
proof -
  have e: "12 * y + m - 3 = 12 * (if m \<le> 2 then y - 1 else y) + (if m \<le> 2 then m + 9 else m - 3)" by simp
  have r: "0 \<le> (if m \<le> 2 then m + 9 else m - 3)" "(if m \<le> 2 then m + 9 else m - 3) < 12" using assms by simp_all
  show "(12 * y + m - 3) div 12 = (if m \<le> 2 then y - 1 else y)" by (rule int_div_pos_eq [OF e r])
  have "(m + 9) mod 12 = (if m \<le> 2 then m + 9 else m - 3)"
    using assms by (intro int_mod_pos_eq [of _ _ "if m \<le> 2 then 0 else 1"]) simp_all
  then show "(12 * y + m - 3) mod 12 = (m + 9) mod 12" using int_mod_pos_eq [OF e r] by simp
qed

lemma daysOf_month: "1 \<le> Month d \<Longrightarrow> Month d \<le> 12 \<Longrightarrow> daysOf d = monthBase (monthIndex d) + Day d"
  by (simp add: daysOf_def daysOf_march monthBase_def monthIndex_def month_split)

lemma monthBase_step:
  assumes "1 \<le> m" "m \<le> 12"
  shows "monthBase (12 * y + m + 1) = monthBase (12 * y + m) + monthLength y m"
proof (cases "m = 2")
  case True
  have "(12 * y + 3 - 3) div 12 = y" "(12 * y + 3 - 3) mod 12 = 0" "(12 * y + 2 - 3) div 12 = y - 1" "(12 * y + 2 - 3) mod 12 = 11"
    using month_split [of 2 y] by simp_all
  then show ?thesis using marchDays_Suc [of "y - 1"] True by (simp add: monthBase_def monthLength_def monthStart_def)
next
  case False
  define mp where "mp = (m + 9) mod 12"
  have mp: "0 \<le> mp" "mp < 11" "marchMonth mp = m" using assms False unfolding mp_def marchMonth_def by presburger+
  define yy where "yy = (if m \<le> 2 then y - 1 else y)"
  have a: "12 * y + m - 3 = 12 * yy + mp"
    using month_split [OF assms, of y] mult_div_mod_eq [of 12 "12 * y + m - 3"] by (simp add: mp_def yy_def)
  then have b: "12 * y + m + 1 - 3 = 12 * yy + (mp + 1)" by simp
  have A: "(12 * y + m - 3) div 12 = yy" "(12 * y + m - 3) mod 12 = mp"
    using int_div_pos_eq [OF a] int_mod_pos_eq [OF a] mp(1,2) by linarith+
  have B: "(12 * y + m + 1 - 3) div 12 = yy" "(12 * y + m + 1 - 3) mod 12 = mp + 1"
    using int_div_pos_eq [OF b] int_mod_pos_eq [OF b] mp(1,2) by linarith+
  have "monthStart (mp + 1) = monthStart mp + monthLength y (marchMonth mp)"
    using mp(1) less_imp_le [OF mp(2)] by (cases rule: month_cases) (use mp(2) in \<open>simp_all add: monthStart_def monthLength_def marchMonth_def\<close>)
  then show ?thesis unfolding monthBase_def A B using mp(3) by simp
qed

lemma monthBase_Suc: "monthBase i < monthBase (i + 1)"
proof -
  define y m where "y = (i - 1) div 12" and "m = (i - 1) mod 12 + 1"
  have i: "i = 12 * y + m" by (simp add: y_def m_def)
  have m: "1 \<le> m" "m \<le> 12" by (simp_all add: m_def)
  have "0 < monthLength y m" by (simp add: monthLength_def)
  then show ?thesis using monthBase_step [OF m, of y] by (simp add: i)
qed

lemma monthBase_mono: "i \<le> j \<Longrightarrow> monthBase i \<le> monthBase j"
proof (induction j rule: int_ge_induct)
  case (step j)
  then show ?case using monthBase_Suc [of j] by simp
qed simp

lemma Date_Before_index:
  assumes "validDate a" "validDate b"
  shows "Date_Before a b \<longleftrightarrow> monthIndex a < monthIndex b \<or> monthIndex a = monthIndex b \<and> Day a < Day b"
  using assms unfolding Date_Before_def Date_Compare_def cmpInt_def monthIndex_def validDate_def by auto

lemma earlier_month:
  assumes "validDate a" "validDate b" "monthIndex a < monthIndex b"
  shows "daysOf a < daysOf b"
proof -
  have a: "1 \<le> Month a" "Month a \<le> 12" "Day a \<le> monthLength (Year a) (Month a)"
    and b: "1 \<le> Month b" "Month b \<le> 12" "1 \<le> Day b" using assms by (simp_all add: validDate_def)
  have "monthBase (monthIndex a) + monthLength (Year a) (Month a) = monthBase (monthIndex a + 1)"
    using monthBase_step [OF a(1,2), of "Year a"] by (simp add: monthIndex_def)
  also have "\<dots> \<le> monthBase (monthIndex b)" using assms(3) by (intro monthBase_mono) simp
  finally show ?thesis using a b by (simp add: daysOf_month)
qed

lemma Date_Before_days:
  assumes "validDate a" "validDate b"
  shows "Date_Before a b \<longleftrightarrow> daysOf a < daysOf b"
proof (cases "monthIndex a = monthIndex b")
  case True
  then show ?thesis using assms by (simp add: Date_Before_index daysOf_month validDate_def)
next
  case False
  then show ?thesis
    using earlier_month [OF assms] earlier_month [OF assms(2,1)] Date_Before_index [OF assms] by linarith
qed

lemma Date_After_before: "Date_After a b \<longleftrightarrow> Date_Before b a"
  unfolding Date_Before_def Date_After_def Date_Compare_def cmpInt_def by auto

lemma NewDate_valid [simp]: "validDate (NewDate y m d)" "daysOf (NewDate y m d) = dayNumber y m d"
  by (simp_all add: NewDate_def daysOf_dateOfDays)

lemma AddDays_valid [simp]: "validDate (Date_AddDays d n)" "daysOf (Date_AddDays d n) = daysOf d + n"
  by (simp_all add: Date_AddDays_def daysOf_dateOfDays)

lemma daysOf_inject: "validDate a \<Longrightarrow> validDate b \<Longrightarrow> daysOf a = daysOf b \<longleftrightarrow> a = b"
  using dateOfDays_daysOf by metis

lemma AddDays_add: "Date_AddDays (Date_AddDays d m) n = Date_AddDays d (m + n)"
  unfolding Date_AddDays_def daysOf_dateOfDays by (simp add: add.assoc)

section \<open>What the calendar holds\<close>

definition tradingDay :: "Date \<Rightarrow> bool" where
  "tradingDay d \<longleftrightarrow> Weekday d \<noteq> 6 \<and> Weekday d \<noteq> 0 \<and> mapGet (nyseHolidaysForYear (Year d)) d = None \<and>
     mapGet specialClosures d = None"

definition daysFrom :: "int \<Rightarrow> int \<Rightarrow> Date list" where
  "daysFrom i j = map dateOfDays [i..j]"

lemma daysFrom_Cons: "i \<le> j \<Longrightarrow> daysFrom i j = dateOfDays i # daysFrom (i + 1) j"
  by (simp add: daysFrom_def upto_rec1)

lemma daysFrom_append: "i \<le> j + 1 \<Longrightarrow> j \<le> k \<Longrightarrow> daysFrom i j @ daysFrom (j + 1) k = daysFrom i k"
proof -
  assume "i \<le> j + 1" "j \<le> k"
  then have "[i..k] = [i..j] @ [j + 1..k]"
    using upto_split1 [of i "j + 1" k] by (cases "j = k") auto
  then show ?thesis by (simp add: daysFrom_def)
qed

lemma yearLoop_fold:
  "validDate d \<Longrightarrow> validDate lst \<Longrightarrow> daysOf lst + 1 - daysOf d < int k \<Longrightarrow> 0 < k \<Longrightarrow>
   yearLoop k h d lst c = Some (fold (visitDay h) (daysFrom (daysOf d) (daysOf lst)) c)"
proof (induction k arbitrary: d c)
  case (Suc k)
  have ord: "Date_After d lst \<longleftrightarrow> daysOf lst < daysOf d" using Suc.prems(1,2) by (simp add: Date_After_before Date_Before_days)
  show ?case
  proof (cases "daysOf lst < daysOf d")
    case True
    then show ?thesis by (simp add: ord daysFrom_def)
  next
    case False
    then have "yearLoop k h (Date_AddDays d 1) lst (visitDay h d c) =
        Some (fold (visitDay h) (daysFrom (daysOf d + 1) (daysOf lst)) (visitDay h d c))"
      using Suc.IH [of "Date_AddDays d 1" "visitDay h d c"] Suc.prems by simp
    then show ?thesis using False Suc.prems(1) by (simp add: ord daysFrom_Cons dateOfDays_daysOf)
  qed
qed simp

lemma year_length: "dayNumber y 12 31 + 1 = dayNumber (y + 1) 1 1" "dayNumber y 1 1 \<le> dayNumber y 12 31"
    "dayNumber y 12 31 - dayNumber y 1 1 \<le> 365"
proof -
  have a: "dayNumber y 12 31 = marchDays y + 306 - 1 - 719468" "dayNumber z 1 1 = marchDays (z - 1) + 306 - 719468" for z
    by (simp_all add: daysOf_march monthStart_def)
  then show "dayNumber y 12 31 + 1 = dayNumber (y + 1) 1 1" by simp
  show "dayNumber y 1 1 \<le> dayNumber y 12 31" "dayNumber y 12 31 - dayNumber y 1 1 \<le> 365"
    using marchDays_Suc [of "y - 1"] by (simp_all add: a)
qed

lemma Year_between:
  assumes "validDate d" "dayNumber y 1 1 \<le> daysOf d" "daysOf d \<le> dayNumber y 12 31"
  shows "Year d = y"
proof -
  have lo: "\<not> Date_Before d (mkDate y 1 1)" and hi: "\<not> Date_Before (mkDate y 12 31) d"
    using assms by (simp_all add: Date_Before_days validDate_def mkDate_def monthLength_def daysOf_def)
  then show ?thesis
    unfolding Date_Before_def Date_Compare_def cmpInt_def mkDate_def by (auto split: if_splits)
qed

lemma fold_visitDay:
  assumes "\<forall>d \<in> set ds. Year d = y"
  shows "cal_sessions (fold (visitDay (nyseHolidaysForYear y)) ds c) =
           cal_sessions c @ map (openSession (cal_loc c)) (filter tradingDay ds)"
    and "cal_loc (fold (visitDay (nyseHolidaysForYear y)) ds c) = cal_loc c"
    and "cal_minDate (fold (visitDay (nyseHolidaysForYear y)) ds c) = cal_minDate c"
    and "cal_maxDate (fold (visitDay (nyseHolidaysForYear y)) ds c) = cal_maxDate c"
  using assms by (induction ds arbitrary: c) (auto simp: visitDay_def tradingDay_def split: option.splits)

text \<open>The index and the session list agree.\<close>

definition indexOk :: "Calendar \<Rightarrow> bool" where
  "indexOk c \<longleftrightarrow> (\<forall>d i. mapGet (cal_byDate c) d = Some i \<longleftrightarrow> i < length (cal_sessions c) \<and> s_Date (cal_sessions c ! i) = d)"

lemma openSession_date [simp]: "s_Date (openSession loc d) = d"
  by (simp add: openSession_def Let_def)

lemma visitDay_index:
  assumes "indexOk c" "\<forall>s \<in> set (cal_sessions c). s_Date s \<noteq> d"
  shows "indexOk (visitDay h d c)"
  using assms unfolding indexOk_def visitDay_def
  by (auto simp: nth_append less_Suc_eq split: option.splits if_splits)

lemma fold_index:
  assumes "indexOk c" "distinct ds" "\<forall>s \<in> set (cal_sessions c). s_Date s \<notin> set ds"
  shows "indexOk (fold (visitDay h) ds c)"
  using assms
proof (induction ds arbitrary: c)
  case (Cons d ds)
  have "\<forall>s \<in> set (cal_sessions (visitDay h d c)). s_Date s \<notin> set ds"
    using Cons.prems by (auto simp: visitDay_def split: option.splits)
  then show ?case using Cons visitDay_index [of c d h] by simp
qed simp

lemma dateOfDays_inj: "dateOfDays i = dateOfDays j \<longleftrightarrow> i = j"
  by (metis daysOf_dateOfDays(1))

lemma distinct_daysFrom: "distinct (daysFrom i j)"
  by (simp add: daysFrom_def distinct_map inj_on_def dateOfDays_inj)

lemma set_daysFrom: "d \<in> set (daysFrom i j) \<Longrightarrow> validDate d \<and> i \<le> daysOf d \<and> daysOf d \<le> j"
  by (auto simp: daysFrom_def daysOf_dateOfDays)

lemma yearsLoop_sessions:
  assumes "lo \<le> hi + 1" "indexOk c" "\<forall>s \<in> set (cal_sessions c). daysOf (s_Date s) < dayNumber lo 1 1"
  shows "\<exists>c'. yearsLoop [lo..hi] c = Some c' \<and> indexOk c' \<and> cal_loc c' = cal_loc c \<and>
    cal_minDate c' = cal_minDate c \<and> cal_maxDate c' = cal_maxDate c \<and>
    cal_sessions c' = cal_sessions c @ map (openSession (cal_loc c)) (filter tradingDay (daysFrom (dayNumber lo 1 1) (dayNumber hi 12 31)))"
  using assms
proof (induction "nat (hi + 1 - lo)" arbitrary: lo c)
  case 0
  then have "lo = hi + 1" by simp
  then show ?case using 0 year_length(1) [of hi] by (simp add: daysFrom_def)
next
  case (Suc n)
  let ?ds = "daysFrom (dayNumber lo 1 1) (dayNumber lo 12 31)"
  let ?c = "fold (visitDay (nyseHolidaysForYear lo)) ?ds c"
  have le: "lo \<le> hi" "[lo..hi] = lo # [lo + 1..hi]" using Suc.hyps(2) by (simp_all add: upto_rec1)
  have yr: "\<forall>d \<in> set ?ds. Year d = lo" using set_daysFrom Year_between by blast
  have run: "yearLoop 367 (nyseHolidaysForYear lo) (NewDate lo 1 1) (NewDate lo 12 31) c = Some ?c"
    using yearLoop_fold [of "NewDate lo 1 1" "NewDate lo 12 31" 367] year_length(3) [of lo] by simp
  note F = fold_visitDay [OF yr, of c]
  have idx: "indexOk ?c"
    by (rule fold_index [OF Suc.prems(2) distinct_daysFrom]) (use Suc.prems(3) set_daysFrom in fastforce)
  have early: "\<forall>s \<in> set (cal_sessions ?c). daysOf (s_Date s) < dayNumber (lo + 1) 1 1"
    using Suc.prems(3) year_length(1,2) [of lo] set_daysFrom by (fastforce simp: F(1))
  have mono: "dayNumber lo 12 31 \<le> dayNumber hi 12 31" if "lo \<le> hi" for lo hi
    using that
  proof (induction hi rule: int_ge_induct)
    case (step i)
    then show ?case using year_length(1,2) [of "i"] year_length(2) [of "i + 1"] by simp
  qed simp
  have "?ds @ daysFrom (dayNumber (lo + 1) 1 1) (dayNumber hi 12 31) = daysFrom (dayNumber lo 1 1) (dayNumber hi 12 31)"
    using daysFrom_append [of "dayNumber lo 1 1" "dayNumber lo 12 31" "dayNumber hi 12 31"] year_length(1,2) [of lo] mono [OF le(1)]
    by simp
  then show ?case
    using Suc.hyps(1) [of "lo + 1" ?c] Suc.hyps(2) le idx early by (auto simp: run F simp flip: filter_append map_append)
qed

lemma NewNYSE_sessions:
  obtains c where "NewNYSE loc = Some c" "indexOk c" "cal_loc c = loc"
    "cal_minDate c = NewDate 2000 1 1" "cal_maxDate c = NewDate 2030 12 31"
    "cal_sessions c = map (openSession loc) (filter tradingDay (daysFrom (dayNumber 2000 1 1) (dayNumber 2030 12 31)))"
proof -
  let ?c = "\<lparr>cal_loc = loc, cal_minDate = NewDate MinYear 1 1, cal_maxDate = NewDate MaxYear 12 31,
        cal_sessions = [], cal_byDate = [], cal_closures = []\<rparr>"
  have "indexOk ?c" by (simp add: indexOk_def)
  then show ?thesis
    using that yearsLoop_sessions [of MinYear MaxYear ?c] unfolding NewNYSE_def
    by (auto simp: MinYear_def MaxYear_def)
qed

section \<open>Queries\<close>

definition ascending :: "Session list \<Rightarrow> bool" where
  "ascending ss \<longleftrightarrow> sorted_wrt (\<lambda>s t. daysOf (s_Date s) < daysOf (s_Date t)) ss \<and> (\<forall>s \<in> set ss. validDate (s_Date s))"

lemma daysFrom_ascending: "ascending (map (openSession loc) (filter tradingDay (daysFrom i j)))"
proof -
  have "sorted_wrt (\<lambda>x y. daysOf x < daysOf y) (daysFrom i j)"
    by (simp add: daysFrom_def sorted_wrt_map daysOf_dateOfDays(1))
  then show ?thesis
    using set_daysFrom by (fastforce simp: ascending_def sorted_wrt_map intro: sorted_wrt_filter)
qed


text \<open>The binary search stops between the sessions before \<open>d\<close> and the others.\<close>

definition early :: "Date \<Rightarrow> Session \<Rightarrow> bool" where
  "early d s \<longleftrightarrow> Date_Before (s_Date s) d"

definition splitsAt :: "Session list \<Rightarrow> Date \<Rightarrow> nat \<Rightarrow> bool" where
  "splitsAt ss d r \<longleftrightarrow> r \<le> length ss \<and> (\<forall>i < r. early d (ss ! i)) \<and> (\<forall>i. r \<le> i \<and> i < length ss \<longrightarrow> \<not> early d (ss ! i))"

lemma searchLoop_split:
  assumes mono: "\<And>i j. i \<le> j \<Longrightarrow> j < length ss \<Longrightarrow> early d (ss ! j) \<Longrightarrow> early d (ss ! i)"
  shows "lo \<le> hi \<Longrightarrow> hi \<le> length ss \<Longrightarrow> (\<forall>i < lo. early d (ss ! i)) \<Longrightarrow>
    (\<forall>i. hi \<le> i \<and> i < length ss \<longrightarrow> \<not> early d (ss ! i)) \<Longrightarrow> splitsAt ss d (searchLoop ss d lo hi)"
proof (induction "hi - lo" arbitrary: lo hi rule: less_induct)
  case less
  show ?case
  proof (cases "lo < hi")
    case False
    then have "searchLoop ss d lo hi = lo" by (simp add: searchLoop.simps [of ss d lo hi])
    then show ?thesis using False less.prems by (simp add: splitsAt_def)
  next
    case True
    define mid where "mid = (lo + hi) div 2"
    have mid: "lo \<le> mid" "mid < hi" using True by (auto simp: mid_def)
    show ?thesis
    proof (cases "early d (ss ! mid)")
      case e: True
      have "\<forall>i < mid + 1. early d (ss ! i)" using mono [of _ mid] e mid less.prems(2) by auto
      then have "splitsAt ss d (searchLoop ss d (mid + 1) hi)" using less.hyps [of hi "mid + 1"] less.prems mid by simp
      then show ?thesis using True e by (simp add: searchLoop.simps [of ss d lo hi] early_def mid_def Let_def)
    next
      case n: False
      have "\<forall>i. mid \<le> i \<and> i < length ss \<longrightarrow> \<not> early d (ss ! i)" using mono [of mid] n by blast
      then have "splitsAt ss d (searchLoop ss d lo mid)" using less.hyps [of mid lo] less.prems mid by simp
      then show ?thesis using True n by (simp add: searchLoop.simps [of ss d lo hi] early_def mid_def Let_def)
    qed
  qed
qed

lemma early_days: "validDate d \<Longrightarrow> validDate (s_Date s) \<Longrightarrow> early d s \<longleftrightarrow> daysOf (s_Date s) < daysOf d"
  by (simp add: early_def Date_Before_days)

lemma searchFrom_takeWhile:
  assumes asc: "ascending (cal_sessions c)" and d: "validDate d"
  shows "searchFrom c d = length (takeWhile (\<lambda>s. daysOf (s_Date s) < daysOf d) (cal_sessions c))"
proof -
  let ?ss = "cal_sessions c"
  have val: "validDate (s_Date (?ss ! i))" if "i < length ?ss" for i using asc that by (simp add: ascending_def)
  have lt: "daysOf (s_Date (?ss ! i)) < daysOf (s_Date (?ss ! j))" if "i < j" "j < length ?ss" for i j
    using asc that by (auto simp: ascending_def sorted_wrt_iff_nth_less)
  have mono: "early d (?ss ! i)" if "i \<le> j" "j < length ?ss" "early d (?ss ! j)" for i j
    using that lt [of i j] val by (cases "i = j") (auto simp: early_days [OF d])
  have s: "splitsAt ?ss d (searchFrom c d)" unfolding searchFrom_def by (rule searchLoop_split [OF mono]) auto
  define r where "r = searchFrom c d"
  have r: "r \<le> length ?ss" using s by (simp add: splitsAt_def r_def)
  have "takeWhile (\<lambda>s. daysOf (s_Date s) < daysOf d) ?ss = take r ?ss"
  proof (rule takeWhile_eq_take_P_nth)
    show "daysOf (s_Date (?ss ! i)) < daysOf d" if "i < r" "i < length ?ss" for i
    proof -
      have "early d (?ss ! i)" using s that by (simp add: splitsAt_def r_def)
      then show ?thesis by (simp add: early_days [OF d val [OF that(2)]])
    qed
    show "\<not> daysOf (s_Date (?ss ! r)) < daysOf d" if "r < length ?ss"
    proof -
      have "\<not> early d (?ss ! r)" using s that by (simp add: splitsAt_def r_def)
      then show ?thesis by (simp add: early_days [OF d val [OF that]])
    qed
  qed
  then show ?thesis using r by (simp add: r_def)
qed

lemma filter_ascending:
  assumes "ascending ss"
  shows "filter (\<lambda>s. n \<le> daysOf (s_Date s)) ss = dropWhile (\<lambda>s. daysOf (s_Date s) < n) ss"
    and "filter (\<lambda>s. daysOf (s_Date s) < n) ss = takeWhile (\<lambda>s. daysOf (s_Date s) < n) ss"
proof -
  let ?P = "\<lambda>s. daysOf (s_Date s) < n"
  have "filter (\<lambda>s. \<not> ?P s) ss = dropWhile ?P ss \<and> filter ?P ss = takeWhile ?P ss"
    using assms
  proof (induction ss)
    case (Cons s ss)
    have "ascending ss" using Cons.prems by (simp add: ascending_def)
    show ?case
    proof (cases "?P s")
      case True
      then show ?thesis using Cons.IH \<open>ascending ss\<close> by simp
    next
      case False
      then have "\<forall>t \<in> set ss. \<not> ?P t" using Cons.prems by (auto simp: ascending_def)
      then show ?thesis using False by simp
    qed
  qed simp
  then show "filter (\<lambda>s. n \<le> daysOf (s_Date s)) ss = dropWhile ?P ss" "filter ?P ss = takeWhile ?P ss"
    by (simp_all add: not_less)
qed

text \<open>Each query answers what a scan of the sessions would.\<close>

lemma NextSession_scan:
  assumes "ascending (cal_sessions c)" "checkRange c d = Inr ()"
  shows "NextSession c d = (case filter (\<lambda>s. daysOf d < daysOf (s_Date s)) (cal_sessions c) of
      [] \<Rightarrow> Inl ErrNoSession | s # _ \<Rightarrow> Inr s)"
proof -
  let ?ss = "cal_sessions c" and ?P = "\<lambda>s. daysOf (s_Date s) < daysOf d + 1"
  have f: "filter (\<lambda>s. daysOf d < daysOf (s_Date s)) ?ss = dropWhile ?P ?ss"
    using filter_ascending(1) [OF assms(1), of "daysOf d + 1"] by (simp add: add1_zle_eq)
  have i: "searchFrom c (Date_AddDays d 1) = length (takeWhile ?P ?ss)" by (simp add: searchFrom_takeWhile [OF assms(1)])
  have dw: "dropWhile ?P ?ss = drop (length (takeWhile ?P ?ss)) ?ss" by (rule dropWhile_eq_drop)
  show ?thesis
    unfolding f NextSession_def assms(2) bindR_Inr Let_def i dw
    by (cases "length (takeWhile ?P ?ss) < length ?ss") (simp_all add: Cons_nth_drop_Suc [symmetric])
qed

lemma PrevSession_scan:
  assumes "ascending (cal_sessions c)" "checkRange c d = Inr ()" "validDate d"
  shows "PrevSession c d = (let xs = filter (\<lambda>s. daysOf (s_Date s) < daysOf d) (cal_sessions c) in
      if xs = [] then Inl ErrNoSession else Inr (last xs))"
proof -
  let ?ss = "cal_sessions c" and ?P = "\<lambda>s. daysOf (s_Date s) < daysOf d"
  have i: "searchFrom c d = length (takeWhile ?P ?ss)" by (rule searchFrom_takeWhile [OF assms(1,3)])
  have l: "?ss ! (length (takeWhile ?P ?ss) - 1) = last (takeWhile ?P ?ss)" if "takeWhile ?P ?ss \<noteq> []"
    using that by (simp add: last_conv_nth takeWhile_nth)
  show ?thesis
    unfolding PrevSession_def assms(2) bindR_Inr Let_def i filter_ascending(2) [OF assms(1)] using l by auto
qed

lemma SessionsInRange_scan:
  assumes "ascending (cal_sessions c)" "checkRange c start = Inr ()" "checkRange c stop = Inr ()" "validDate start" "validDate stop"
  shows "SessionsInRange c start stop =
    Inr (filter (\<lambda>s. daysOf start \<le> daysOf (s_Date s) \<and> daysOf (s_Date s) \<le> daysOf stop) (cal_sessions c))"
proof -
  let ?ss = "cal_sessions c"
  let ?A = "\<lambda>s. daysOf (s_Date s) < daysOf start" and ?B = "\<lambda>s. daysOf (s_Date s) < daysOf stop + 1"
  have after: "Date_After start stop \<longleftrightarrow> daysOf stop < daysOf start" using assms by (simp add: Date_After_before Date_Before_days)
  have "filter (\<lambda>s. daysOf start \<le> daysOf (s_Date s) \<and> daysOf (s_Date s) \<le> daysOf stop) ?ss =
      filter (\<lambda>s. daysOf start \<le> daysOf (s_Date s)) (filter ?B ?ss)"
    unfolding filter_filter by (rule filter_cong) auto
  also have "\<dots> = filter (\<lambda>s. daysOf start \<le> daysOf (s_Date s)) (takeWhile ?B ?ss)"
    by (simp only: filter_ascending(2) [OF assms(1)])
  also have "\<dots> = dropWhile ?A (takeWhile ?B ?ss)"
    using assms(1) by (intro filter_ascending(1))
      (auto simp: ascending_def sorted_wrt_append dest: set_takeWhileD intro: sorted_wrt_takeWhile)
  finally have f: "filter (\<lambda>s. daysOf start \<le> daysOf (s_Date s) \<and> daysOf (s_Date s) \<le> daysOf stop) ?ss = \<dots>" .
  have lo: "searchFrom c start = length (takeWhile ?A ?ss)" by (rule searchFrom_takeWhile [OF assms(1,4)])
  have hi: "searchFrom c (Date_AddDays stop 1) = length (takeWhile ?B ?ss)" by (simp add: searchFrom_takeWhile [OF assms(1)])
  show ?thesis
  proof (cases "daysOf stop < daysOf start")
    case True
    then show ?thesis by (simp add: SessionsInRange_def assms(2,3) after)
  next
    case False
    have tt: "takeWhile ?A (takeWhile ?B xs) = takeWhile ?A xs" for xs using False by (induction xs) auto
    have B: "take (length (takeWhile ?B ?ss)) ?ss = takeWhile ?B ?ss" by (rule takeWhile_eq_take [symmetric])
    have "dropWhile ?A (takeWhile ?B ?ss) = drop (length (takeWhile ?A ?ss)) (takeWhile ?B ?ss)"
      unfolding dropWhile_eq_drop tt by (rule refl)
    also have "\<dots> = take (length (takeWhile ?B ?ss) - length (takeWhile ?A ?ss)) (drop (length (takeWhile ?A ?ss)) ?ss)"
      by (subst B [symmetric]) (rule drop_take)
    finally show ?thesis using False unfolding SessionsInRange_def assms(2,3) bindR_Inr after lo hi f Let_def by simp
  qed
qed

section \<open>The text form\<close>

lemma padInt_digits:
  assumes "0 \<le> n" "n < 10 ^ w" "0 < w"
  shows "length (padInt w n) = w" "list_all isDigit (padInt w n)" "digval (padInt w n) = nat n"
proof -
  have "length (fmtUint (nat n)) \<le> w"
  proof (cases "n = 0")
    case True
    then show ?thesis using assms(3) by (simp add: fmtUint.simps)
  next
    case False
    then have "10 ^ (length (fmtUint (nat n)) - 1) \<le> nat n" using assms(1) by (intro fmtUint_length_le) simp
    also have "\<dots> < nat (10 ^ w)" using assms(1,2) by (simp only: nat_mono_iff)
    also have "nat (10 ^ w) = 10 ^ w" by (simp add: nat_power_eq)
    finally have "(10 :: nat) ^ (length (fmtUint (nat n)) - 1) < 10 ^ w" .
    then have "length (fmtUint (nat n)) - 1 < w" by simp
    then show ?thesis by simp
  qed
  then show "length (padInt w n) = w" using assms(1) by (simp add: padInt_def Let_def)
  show "list_all isDigit (padInt w n)" using assms(1) using fmtUint_digits [of "nat n"] by (auto simp: padInt_def Let_def list_all_iff)
  show "digval (padInt w n) = nat n" using assms(1) by (simp add: padInt_def Let_def digval_append)
qed

lemma ParseDate_String:
  assumes "validDate d" "0 \<le> Year d" "Year d \<le> 9999"
  shows "ParseDate (Date_String d) = Inr d"
proof -
  have dd: "1 \<le> Month d" "Month d \<le> 12" "1 \<le> Day d" "Day d \<le> 31"
    using assms(1) by (auto simp: validDate_def monthLength_def split: if_splits)
  let ?y = "padInt 4 (Year d)" and ?m = "padInt 2 (Month d)" and ?d = "padInt 2 (Day d)"
  have y: "length ?y = 4" "list_all isDigit ?y" "digval ?y = nat (Year d)" using padInt_digits [of "Year d" 4] assms(2,3) by simp_all
  have m: "length ?m = 2" "list_all isDigit ?m" "digval ?m = nat (Month d)" using padInt_digits [of "Month d" 2] dd by simp_all
  have t: "length ?d = 2" "list_all isDigit ?d" "digval ?d = nat (Day d)" using padInt_digits [of "Day d" 2] dd by simp_all
  have "mkDate (Year d) (Month d) (Day d) = d" by (simp add: mkDate_def)
  then show ?thesis
    using y m t assms dd by (simp add: ParseDate_def Date_String_def nth_append Let_def)
qed

lemma ParseDate_valid: "ParseDate s = Inr d \<Longrightarrow> validDate d \<and> 0 \<le> Year d \<and> length s = 10"
  by (auto simp: ParseDate_def Let_def mkDate_def split: if_splits)

text \<open>The rules keep their weekday.\<close>

lemma Weekday_AddDays: "Weekday (Date_AddDays d n) = (Weekday d + n) mod 7"
  by (simp add: Weekday_def mod_simps algebra_simps)

lemma nthWeekday_weekday:
  assumes "0 \<le> wd" "wd < 7"
  shows "Weekday (nthWeekday y m wd n) = wd"
proof -
  let ?w = "Weekday (NewDate y m 1)"
  have w: "0 \<le> ?w" "?w < 7" by (simp_all add: Weekday_def)
  have s: "(wd - ?w + 7) smod 7 = (wd - ?w + 7) mod 7" using assms w by (simp add: smod_mag sgn_if)
  have "(w + ((wd - w + 7) mod 7 + (n - 1) * 7)) mod 7 = wd" for w
  proof -
    have "(w + ((wd - w + 7) mod 7 + (n - 1) * 7)) mod 7 = (w + (wd - w + 7) mod 7 + 7 * (n - 1)) mod 7" by (simp add: algebra_simps)
    also have "\<dots> = (w + (wd - w + 7)) mod 7" by (simp only: mod_mult_self2 mod_add_right_eq)
    also have "\<dots> = wd" using assms by simp
    finally show ?thesis .
  qed
  then show ?thesis unfolding nthWeekday_def Let_def Weekday_AddDays s .
qed

section \<open>Properties\<close>

definition dayAfter :: "Date \<Rightarrow> Date" where
  "dayAfter d =
     (if Day d < monthLength (Year d) (Month d) then mkDate (Year d) (Month d) (Day d + 1)
      else if Month d < 12 then mkDate (Year d) (Month d + 1) 1
      else mkDate (Year d + 1) 1 1)"

lemma monthLength_pos: "1 \<le> monthLength y m"
  by (simp add: monthLength_def)

lemma dayAfter_valid:
  assumes "validDate d"
  shows "validDate (dayAfter d)" "daysOf (dayAfter d) = daysOf d + 1"
proof -
  show v: "validDate (dayAfter d)"
    using assms monthLength_pos by (auto simp: dayAfter_def validDate_def mkDate_def)
  have s: "monthBase (12 * Year d + Month d + 1) = monthBase (12 * Year d + Month d) + monthLength (Year d) (Month d)"
    using monthBase_step [of "Month d" "Year d"] assms by (simp add: validDate_def)
  have m: "Month d = 12 \<longrightarrow> 12 * (Year d + 1) + 1 = 12 * Year d + Month d + 1" by simp
  show "daysOf (dayAfter d) = daysOf d + 1"
    using assms v s m unfolding validDate_def
    by (auto simp: daysOf_month dayAfter_def mkDate_def monthIndex_def add.assoc)
qed

lemma AddDays_1: "validDate d \<Longrightarrow> Date_AddDays d 1 = dayAfter d"
  using daysOf_inject [OF AddDays_valid(1) dayAfter_valid(1), of d d 1] by (simp add: dayAfter_valid(2))

text \<open>Date arithmetic is the civil calendar's: the components of a valid date build that date, a day more
  is the next day of the month, the first of the next month or the first of the year, days added one after
  another add up and can be taken back, and a date comes before what is reached by adding days to it.\<close>

theorem date_arithmetic:
  assumes "validDate d"
  shows "NewDate (Year d) (Month d) (Day d) = d \<and> Date_AddDays d 1 = dayAfter d \<and>
    Date_AddDays (Date_AddDays d m) n = Date_AddDays d (m + n) \<and> Date_AddDays (Date_AddDays d n) (- n) = d \<and>
    (Date_Before d (Date_AddDays d n) \<longleftrightarrow> 0 < n)"
proof -
  have "Date_AddDays d 0 = d" using assms by (simp add: Date_AddDays_def dateOfDays_daysOf)
  then show ?thesis
    using assms dateOfDays_daysOf [OF assms] AddDays_1 [OF assms]
    by (simp add: NewDate_def daysOf_def [symmetric] AddDays_add Date_Before_days)
qed

theorem date_arithmetic_witness:
  "Date_AddDays (mkDate 2024 2 29) 1 = mkDate 2024 3 1 \<and> Date_AddDays (Date_AddDays (mkDate 2024 2 29) 366) (- 366) = mkDate 2024 2 29"
proof -
  have "(validDate (mkDate 2024 2 29)) \<and>
    (dayAfter (mkDate 2024 2 29) = mkDate 2024 3 1)" by code_simp
  then show ?thesis using date_arithmetic [of "mkDate 2024 2 29" _ 366] by metis
qed

text \<open>A valid date is read back from its text form, and only valid dates are ever read.\<close>

theorem date_text_roundtrip:
  "validDate d \<and> 0 \<le> Year d \<and> Year d \<le> 9999 \<longrightarrow> ParseDate (Date_String d) = Inr d"
  "ParseDate s = Inr d \<longrightarrow> validDate d \<and> length s = 10"
  using ParseDate_String [of d] ParseDate_valid [of s d] by blast+

theorem date_text_roundtrip_witness: "ParseDate (Date_String \<lparr>Year = 2024, Month = 2, Day = 29\<rparr>) = Inr \<lparr>Year = 2024, Month = 2, Day = 29\<rparr>"
proof -
  have "validDate \<lparr>Year = 2024, Month = 2, Day = 29\<rparr>" by code_simp
  then show ?thesis using date_text_roundtrip(1) [of "\<lparr>Year = 2024, Month = 2, Day = 29\<rparr>"] by simp
qed

lemma daysFrom_range:
  assumes "i \<le> a" "b \<le> j"
  shows "filter (\<lambda>d. a \<le> daysOf d \<and> daysOf d \<le> b) (daysFrom i j) = daysFrom a b"
proof -
  have "filter (\<lambda>n. a \<le> n \<and> n \<le> b) [i..j] = [a..b]"
  proof (rule sorted_distinct_set_unique)
    show "sorted (filter (\<lambda>n. a \<le> n \<and> n \<le> b) [i..j])" by (intro sorted_filter [of id, simplified]) simp
    show "set (filter (\<lambda>n. a \<le> n \<and> n \<le> b) [i..j]) = set [a..b]" using assms by auto
  qed simp_all
  then show ?thesis by (simp add: daysFrom_def filter_map comp_def daysOf_dateOfDays)
qed

lemma checkRange_ok:
  assumes "NewNYSE loc = Some c" "validDate d"
  shows "checkRange c d = Inr () \<longleftrightarrow> dayNumber 2000 1 1 \<le> daysOf d \<and> daysOf d \<le> dayNumber 2030 12 31"
proof -
  have "cal_minDate c = NewDate 2000 1 1" "cal_maxDate c = NewDate 2030 12 31"
    using NewNYSE_sessions [of loc] assms(1) by (metis option.inject)+
  then show ?thesis using assms(2) by (auto simp: checkRange_def Date_After_before Date_Before_days)
qed

lemma nyse_sessions:
  assumes "NewNYSE loc = Some c"
  shows "cal_sessions c = map (openSession loc) (filter tradingDay (daysFrom (dayNumber 2000 1 1) (dayNumber 2030 12 31)))"
    and "ascending (cal_sessions c)" "indexOk c"
proof -
  show s: "cal_sessions c = map (openSession loc) (filter tradingDay (daysFrom (dayNumber 2000 1 1) (dayNumber 2030 12 31)))"
    using NewNYSE_sessions [of loc] assms by (metis option.inject)
  show "ascending (cal_sessions c)" unfolding s by (rule daysFrom_ascending)
  show "indexOk c" using NewNYSE_sessions [of loc] assms by (metis option.inject)
qed

text \<open>C34. The built exchange calendar answers a range query with exactly the trading days of the range, in
  order: the weekdays that are neither a holiday of their year nor a special closure, for any two dates of
  2000 to 2030.\<close>

theorem sessions_in_range_are_trading_days:
  assumes "NewNYSE loc = Some c" "checkRange c a = Inr ()" "checkRange c b = Inr ()" "validDate a" "validDate b"
  shows "SessionsInRange c a b = Inr (map (openSession loc) (filter tradingDay (daysFrom (daysOf a) (daysOf b))))"
proof -
  have r: "dayNumber 2000 1 1 \<le> daysOf a" "daysOf b \<le> dayNumber 2030 12 31"
    using checkRange_ok [OF assms(1)] assms by auto
  let ?P = "\<lambda>d. daysOf a \<le> daysOf d \<and> daysOf d \<le> daysOf b"
  have "filter ?P (filter tradingDay (daysFrom (dayNumber 2000 1 1) (dayNumber 2030 12 31))) =
      filter tradingDay (filter ?P (daysFrom (dayNumber 2000 1 1) (dayNumber 2030 12 31)))"
    by (simp only: filter_filter) (rule filter_cong, auto)
  also have "\<dots> = filter tradingDay (daysFrom (daysOf a) (daysOf b))" by (simp only: daysFrom_range [OF r])
  finally show ?thesis
    unfolding SessionsInRange_scan [OF nyse_sessions(2) [OF assms(1)] assms(2-)] nyse_sessions(1) [OF assms(1)]
    by (simp add: filter_map comp_def)
qed

definition utcLocation :: Location where
  "utcLocation = \<lparr>loc_Date = (\<lambda>d h m. \<lparr>t_ns = (daysOf d * 1440 + h * 60 + m) * 60000000000, t_off = 0\<rparr>),
     loc_dateOf = (\<lambda>t. dateOfDays (t_ns t div 86400000000000))\<rparr>"

theorem sessions_in_range_are_trading_days_witness:
  "\<exists>c. NewNYSE utcLocation = Some c \<and>
    SessionsInRange c \<lparr>Year = 2024, Month = 6, Day = 17\<rparr> \<lparr>Year = 2024, Month = 6, Day = 23\<rparr> =
    Inr (map (openSession utcLocation) (map (mkDate 2024 6) [17, 18, 20, 21]))"
proof -
  let ?a = "\<lparr>Year = 2024, Month = 6, Day = 17\<rparr>" and ?b = "\<lparr>Year = 2024, Month = 6, Day = 23\<rparr>"
  obtain c where c: "NewNYSE utcLocation = Some c" by (rule NewNYSE_sessions)
  have "(validDate ?a) \<and>
    (validDate ?b) \<and>
    (dayNumber 2000 1 1 \<le> daysOf ?a) \<and>
    (daysOf ?a \<le> dayNumber 2030 12 31) \<and>
    (dayNumber 2000 1 1 \<le> daysOf ?b) \<and>
    (daysOf ?b \<le> dayNumber 2030 12 31)" by code_simp
  then have v: "validDate ?a" "validDate ?b" "dayNumber 2000 1 1 \<le> daysOf ?a" "daysOf ?a \<le> dayNumber 2030 12 31"
    "dayNumber 2000 1 1 \<le> daysOf ?b" "daysOf ?b \<le> dayNumber 2030 12 31" by blast+
  have "filter tradingDay (daysFrom (daysOf ?a) (daysOf ?b)) = map (mkDate 2024 6) [17, 18, 20, 21]" by code_simp
  then show ?thesis
    using c sessions_in_range_are_trading_days [OF c, of ?a ?b] checkRange_ok [OF c, of ?a] checkRange_ok [OF c, of ?b] v by simp
qed

text \<open>The binary search behind the next- and previous-session queries finds what a scan of the sessions
  would: the first session after the date, the last one before it, or no session.\<close>

theorem next_prev_session_scan:
  assumes "NewNYSE loc = Some c" "checkRange c d = Inr ()" "validDate d"
  shows "NextSession c d = (case filter (\<lambda>s. daysOf d < daysOf (s_Date s)) (cal_sessions c) of
      [] \<Rightarrow> Inl ErrNoSession | s # _ \<Rightarrow> Inr s) \<and>
    PrevSession c d = (let xs = filter (\<lambda>s. daysOf (s_Date s) < daysOf d) (cal_sessions c) in
      if xs = [] then Inl ErrNoSession else Inr (last xs))"
  using NextSession_scan [OF nyse_sessions(2) [OF assms(1)] assms(2)]
    PrevSession_scan [OF nyse_sessions(2) [OF assms(1)] assms(2,3)] by blast

theorem next_prev_session_scan_witness:
  "\<exists>c. NewNYSE utcLocation = Some c \<and>
    PrevSession c (mkDate 2000 1 1) = Inl ErrNoSession"
proof -
  let ?d = "mkDate 2000 1 1"
  obtain c where c: "NewNYSE utcLocation = Some c" by (rule NewNYSE_sessions)
  have "(validDate ?d) \<and>
    (daysOf ?d = dayNumber 2000 1 1) \<and>
    (dayNumber 2000 1 1 \<le> dayNumber 2030 12 31)" by code_simp
  then have v: "validDate ?d" "daysOf ?d = dayNumber 2000 1 1" "dayNumber 2000 1 1 \<le> dayNumber 2030 12 31" by blast+
  have "filter (\<lambda>s. daysOf (s_Date s) < daysOf ?d) (cal_sessions c) = []"
    unfolding nyse_sessions(1) [OF c] v(2) by (auto simp: filter_empty_conv dest: set_daysFrom)
  then show ?thesis using c next_prev_session_scan [OF c _ v(1)] checkRange_ok [OF c v(1)] v by simp
qed

end
