(* ===== verification/Engine_Run.thy ===== *)
theory Engine_Run
  imports Accounting_Account Core_Loop Exec_Sim Risk_Context Data_Calendar
begin

text \<open>
  The batch engine of \<open>internal/engine\<close> (\<open>engine.go\<close>, \<open>dispatch.go\<close>, \<open>strategy.go\<close>, \<open>recorder.go\<close>,
  \<open>feed.go\<close>, \<open>result.go\<close>): it owns the event loop, the account, the sampler, the executor, the
  recorder and the strategies, and registers the three event handlers.  A strategy is a value of the
  interface \<open>Strategy\<close>; what it does on a bar is an interaction tree \<open>act\<close> whose nodes are the calls of
  the \<open>OrderSubmitter\<close> it is handed, so any strategy of the program is such a value.  The scripted
  strategy of the package is one of them.  The capabilities a strategy may have (scoped symbols,
  context, warmup) are optional methods.  The progress callback, which must not touch the engine, is
  left out.
\<close>

section \<open>Strategies\<close>

record StrategyContext =
  sc_Regime :: string
  sc_AsOf :: gotime
  sc_MarketCapUSD :: "(string, rat) gomap"
  sc_EarningsBlackout :: "(string, bool) gomap"

datatype 's act =
    Finish 's "unit result"
  | CallMarket string string OrderSide Qty string gotime "string result \<Rightarrow> 's act"
  | CallSignal string string SignalSide OrderSide Qty string gotime "(string \<times> bool) result \<Rightarrow> 's act"
  | CallNet string string "Qty \<Rightarrow> 's act"

record 's Strategy =
  st_ID :: string
  st_state :: 's
  st_OnBar :: "Bar \<Rightarrow> 's \<Rightarrow> 's act"
  st_SymbolsScoped :: "string list option"
  st_InjectContext :: "(StrategyContext \<Rightarrow> 's \<Rightarrow> 's) option"
  st_WarmupBars :: "(string \<Rightarrow> Bar list \<Rightarrow> 's \<Rightarrow> 's) option"
  st_WarmupBatch :: "(Bar list \<Rightarrow> 's \<Rightarrow> 's) option"

definition onState :: "('s \<Rightarrow> 's) \<Rightarrow> 's Strategy \<Rightarrow> 's Strategy" where
  "onState f st = st\<lparr>st_state := f (st_state st)\<rparr>"

section \<open>The engine's state\<close>

record InstrumentBars =
  ib_Symbol :: string
  ib_Bars :: "Bar list"

record RejectedOrder =
  ro_StrategyID :: string
  ro_Symbol :: string
  ro_SignalSide :: SignalSide
  ro_Qty :: Qty
  ro_RuleName :: string
  ro_TS :: gotime

record ('s, 'f) Engine =
  en_acct :: Account
  en_smplr :: EquitySampler
  en_exec :: SimExecutor
  en_orders :: "Order list"
  en_fills :: "Fill list"
  en_strategies :: "'s Strategy list"
  en_registration :: "string list"
  en_dispatch :: "(string, nat list) gomap"
  en_broadcast :: "nat list"
  en_ctxProv :: "'f ContextProvider option"
  en_ctxStat :: "SharedContextState option"
  en_rejected :: "RejectedOrder list"
  en_lastBar :: "(string, Bar) gomap"
  en_barsProcessed :: nat
  en_totalBars :: nat
  en_sampledDays :: nat
  en_firstTS :: gotime
  en_lastTS :: gotime

text \<open>What a run does not change: the fill model, the gate, the heartbeat symbol, the float
  operations of the regime.\<close>

record 'f Wiring =
  wi_model :: FillModel
  wi_gate :: "Gate option"
  wi_spySym :: string
  wi_float :: "'f FloatOps"

type_synonym ('s, 'f) world = "Loop \<times> ('s, 'f) Engine"

definition engineSeq :: "('s, 'f) world seq_source" where
  "engineSeq w = (case w of (l, en) \<Rightarrow> (let (s, l1) = NextSeq l in (s, (l1, en))))"

definition EmitFill :: "('s, 'f) world fill_sink" where
  "EmitFill f w =
     (case w of (l, en) \<Rightarrow>
        (case Account_ApplyFill (en_acct en) f of
           (a, Inl err) \<Rightarrow> ((l, en\<lparr>en_acct := a\<rparr>), Inl err)
         | (a, Inr _) \<Rightarrow> ((l, en\<lparr>en_acct := a, en_fills := en_fills en @ [f]\<rparr>), Inr ())))"

section \<open>The order submitter\<close>

definition SubmitMarket :: "'f Wiring \<Rightarrow> string \<Rightarrow> string \<Rightarrow> OrderSide \<Rightarrow> Qty \<Rightarrow> string \<Rightarrow> gotime \<Rightarrow> ('s, 'f) world \<Rightarrow>
    ('s, 'f) world \<times> string result" where
  "SubmitMarket c sid sy side qty reason ts w =
     (let (coid, (l, en)) = NewClientOrderID engineSeq w;
          order = NewMarketOrder coid sid sy side qty reason ts;
          (ex, r) = Submit (wi_model c) (en_exec en) order
      in case r of
           Inl err \<Rightarrow> ((l, en\<lparr>en_exec := ex\<rparr>), Inl err)
         | Inr _ \<Rightarrow> ((l, en\<lparr>en_exec := ex, en_orders := en_orders en @ [order]\<rparr>), Inr coid))"

definition NetPosition :: "string \<Rightarrow> string \<Rightarrow> ('s, 'f) world \<Rightarrow> Qty" where
  "NetPosition sid sy w =
     (case Account_Snapshot (en_acct (snd w)) of
        Inl _ \<Rightarrow> 0
      | Inr snap \<Rightarrow> (case NetPositionAcrossStrategies snap sy of Inl _ \<Rightarrow> 0 | Inr net \<Rightarrow> net))"

definition RecordRejection :: "Rejection \<Rightarrow> ('s, 'f) world \<Rightarrow> ('s, 'f) world" where
  "RecordRejection r w = (case w of (l, en) \<Rightarrow> (l, en\<lparr>en_rejected := en_rejected en @
     [\<lparr>ro_StrategyID = rj_StrategyID r, ro_Symbol = rj_Symbol r, ro_SignalSide = rj_Side r, ro_Qty = rj_Qty r,
       ro_RuleName = rj_RuleName r, ro_TS = rj_TS r\<rparr>]\<rparr>))"

definition SubmitMarketSignal :: "'f Wiring \<Rightarrow> string \<Rightarrow> string \<Rightarrow> SignalSide \<Rightarrow> OrderSide \<Rightarrow> Qty \<Rightarrow> string \<Rightarrow> gotime \<Rightarrow>
    ('s, 'f) world \<Rightarrow> ('s, 'f) world \<times> (string \<times> bool) result" where
  "SubmitMarketSignal c sid sy signalSide orderSide qty reason ts w =
     (let submit = (\<lambda>w. case SubmitMarket c sid sy orderSide qty reason ts w of
             (w1, Inl err) \<Rightarrow> (w1, Inl err)
           | (w1, Inr coid) \<Rightarrow> (w1, Inr (coid, True)))
      in if wi_gate c \<noteq> None \<and> signalSide \<noteq> SideFlat \<and> 0 < sint qty then
           (let price = (case LastPrice (en_acct (snd w)) sy of None \<Rightarrow> 0 | Some p \<Rightarrow> p) in
            case Account_Snapshot (en_acct (snd w)) of
              Inl err \<Rightarrow> (w, Inl err)
            | Inr snap \<Rightarrow>
                (case GateSignal (wi_gate c) (NewProposedOrder sid sy signalSide qty price ts) (SnapshotFromDomain snap)
                        price (Some RecordRejection) w of
                   (w1, decision) \<Rightarrow> if \<not> Approved decision then (w1, Inr ([], False)) else submit w1))
         else submit w)"

text \<open>Running a strategy's interaction with the submitter.\<close>

primrec runAct :: "'f Wiring \<Rightarrow> 's act \<Rightarrow> ('s, 'f) world \<Rightarrow> ('s, 'f) world \<times> 's \<times> unit result" where
  "runAct c (Finish s r) = (\<lambda>w. (w, s, r))"
| "runAct c (CallMarket sid sy side qty reason ts k) =
     (\<lambda>w. case SubmitMarket c sid sy side qty reason ts w of (w1, r) \<Rightarrow> runAct c (k r) w1)"
| "runAct c (CallSignal sid sy sg side qty reason ts k) =
     (\<lambda>w. case SubmitMarketSignal c sid sy sg side qty reason ts w of (w1, r) \<Rightarrow> runAct c (k r) w1)"
| "runAct c (CallNet sid sy k) = (\<lambda>w. runAct c (k (NetPosition sid sy w)) w)"

section \<open>The scripted strategy\<close>

record Intent =
  in_Date :: gotime
  in_Ticker :: string
  in_Side :: SignalSide
  in_Qty :: Qty

text \<open>The key of a trading day is the UTC calendar date: the day number determines year, month and day.\<close>

type_synonym dayKey = "int \<times> string"

definition keyOf :: "gotime \<Rightarrow> string \<Rightarrow> dayKey" where
  "keyOf ts ticker = (t_ns ts div dayNs, ticker)"

fun scriptLoop :: "Intent list \<Rightarrow> (dayKey, Intent list) gomap \<Rightarrow> (dayKey, Intent list) gomap result" where
  "scriptLoop [] byDay = Inr byDay"
| "scriptLoop (i # is) byDay =
     (if in_Ticker i = [] then Inl ErrInvalidArgument
      else if \<not> SignalSide_IsValid (in_Side i) then Inl ErrInvalidArgument
      else if in_Side i \<noteq> SideFlat \<and> sint (in_Qty i) \<le> 0 then Inl ErrInvalidArgument
      else if IsZero (in_Date i) then Inl ErrInvalidArgument
      else let k = keyOf (in_Date i) (in_Ticker i) in scriptLoop is (mapSet k (listAt byDay k @ [i]) byDay))"

fun intentActs :: "string \<Rightarrow> Bar \<Rightarrow> 's \<Rightarrow> Intent list \<Rightarrow> 's act" where
  "intentActs sid bar s [] = Finish s (Inr ())"
| "intentActs sid bar s (i # is) =
     (if in_Side i = SideLong \<or> in_Side i = SideShort then
        (case OrderSideFor (in_Side i) of
           Inl err \<Rightarrow> Finish s (Inl err)
         | Inr side \<Rightarrow>
             CallMarket sid (in_Ticker i) side (in_Qty i)
               (''scripted '' @ in_Side i @ '' '' @ FormatInt64 (in_Qty i) @ '' '' @ in_Ticker i) (bar_TS bar)
               (\<lambda>r. case r of Inl err \<Rightarrow> Finish s (Inl err) | Inr _ \<Rightarrow> intentActs sid bar s is))
      else if in_Side i = SideFlat then
        CallNet sid (in_Ticker i) (\<lambda>net.
          case CloseSideFor net of
            None \<Rightarrow> intentActs sid bar s is
          | Some side \<Rightarrow>
              CallMarket sid (in_Ticker i) side (if sint net < 0 then - net else net)
                (''scripted FLAT (close '' @ FormatInt64 net @ '') '' @ in_Ticker i) (bar_TS bar)
                (\<lambda>r. case r of Inl err \<Rightarrow> Finish s (Inl err) | Inr _ \<Rightarrow> intentActs sid bar s is))
      else intentActs sid bar s is)"

definition NewScriptedStrategy :: "string \<Rightarrow> Intent list \<Rightarrow> 's \<Rightarrow> 's Strategy result" where
  "NewScriptedStrategy sid intents s =
     (if sid = [] then Inl ErrInvalidArgument
      else bindR (scriptLoop intents []) (\<lambda>byDay. Inr
        \<lparr>st_ID = sid, st_state = s,
         st_OnBar = (\<lambda>bar s. intentActs sid bar s (listAt byDay (keyOf (bar_TS bar) (bar_Symbol bar)))),
         st_SymbolsScoped = None, st_InjectContext = None, st_WarmupBars = None, st_WarmupBatch = None\<rparr>))"

section \<open>Symbol-indexed dispatch\<close>

fun scopeLoop :: "nat \<Rightarrow> string list \<Rightarrow> (string, unit) gomap \<Rightarrow> (string, nat list) gomap \<Rightarrow> (string, nat list) gomap" where
  "scopeLoop i [] seen scoped = scoped"
| "scopeLoop i (sy # sys) seen scoped =
     (if mapGet seen sy \<noteq> None then scopeLoop i sys seen scoped
      else scopeLoop i sys (mapSet sy () seen) (mapSet sy (listAt scoped sy @ [i]) scoped))"

fun indexLoop :: "nat \<Rightarrow> 's Strategy list \<Rightarrow> nat list \<Rightarrow> (string, nat list) gomap \<Rightarrow> nat list \<times> (string, nat list) gomap" where
  "indexLoop i [] broadcast scoped = (broadcast, scoped)"
| "indexLoop i (st # sts) broadcast scoped =
     (case st_SymbolsScoped st of
        None \<Rightarrow> indexLoop (Suc i) sts (broadcast @ [i]) scoped
      | Some sys \<Rightarrow> indexLoop (Suc i) sts broadcast (scopeLoop i sys [] scoped))"

fun mergeLoop :: "nat list \<Rightarrow> nat list \<Rightarrow> nat list \<Rightarrow> nat list" where
  "mergeLoop [] b out = out @ b"
| "mergeLoop (x # a) [] out = out @ x # a"
| "mergeLoop (x # a) (y # b) out =
     (if x < y then mergeLoop a (y # b) (out @ [x]) else mergeLoop (x # a) b (out @ [y]))"

definition mergeRegistrationOrder :: "nat list \<Rightarrow> nat list \<Rightarrow> nat list" where
  "mergeRegistrationOrder a b = (if b = [] then a else mergeLoop a b [])"

fun dispatchLoop :: "nat list \<Rightarrow> (string, nat list) gomap \<Rightarrow> string list \<Rightarrow> (string, nat list) gomap \<Rightarrow> (string, nat list) gomap" where
  "dispatchLoop broadcast scoped [] out = out"
| "dispatchLoop broadcast scoped (sy # sys) out =
     (if mapGet out sy \<noteq> None then dispatchLoop broadcast scoped sys out
      else dispatchLoop broadcast scoped sys (mapSet sy (mergeRegistrationOrder broadcast (listAt scoped sy)) out))"

definition buildDispatch :: "('s, 'f) Engine \<Rightarrow> ('s, 'f) Engine" where
  "buildDispatch en =
     (let (broadcast, scoped) = indexLoop 0 (en_strategies en) [] []
      in en\<lparr>en_dispatch := dispatchLoop broadcast scoped (en_registration en) [], en_broadcast := broadcast\<rparr>)"

definition strategiesFor :: "('s, 'f) Engine \<Rightarrow> string \<Rightarrow> nat list" where
  "strategiesFor en sy = (case mapGet (en_dispatch en) sy of Some ix \<Rightarrow> ix | None \<Rightarrow> en_broadcast en)"

section \<open>Context and warmup\<close>

definition StrategyContextFrom :: "gotime \<Rightarrow> SharedContextState \<Rightarrow> StrategyContext" where
  "StrategyContextFrom asOf st =
     \<lparr>sc_Regime = cs_regime st, sc_AsOf = asOf, sc_MarketCapUSD = cloneMapLoop (cs_marketCap st) [],
      sc_EarningsBlackout = EarningsBlackouts st\<rparr>"

definition InjectContextInto :: "gotime \<Rightarrow> SharedContextState option \<Rightarrow> 's Strategy list \<Rightarrow> 's Strategy list" where
  "InjectContextInto asOf st sts =
     (case st of
        None \<Rightarrow> sts
      | Some state \<Rightarrow>
          map (\<lambda>s. case st_InjectContext s of None \<Rightarrow> s | Some f \<Rightarrow> onState (f (StrategyContextFrom asOf state)) s) sts)"

fun warmLoop :: "(string \<Rightarrow> Bar list \<Rightarrow> 's \<Rightarrow> 's) \<Rightarrow> (string \<Rightarrow> Bar list result) \<Rightarrow> string list \<Rightarrow> 's Strategy \<Rightarrow>
    's Strategy \<times> unit result" where
  "warmLoop f barsFor [] st = (st, Inr ())"
| "warmLoop f barsFor (sy # sys) st =
     (case barsFor sy of
        Inl err \<Rightarrow> (st, Inl err)
      | Inr hist \<Rightarrow> warmLoop f barsFor sys (if hist \<noteq> [] then onState (f sy hist) st else st))"

fun warmAllLoop :: "string list \<Rightarrow> (string \<Rightarrow> bool) \<Rightarrow> (string \<Rightarrow> Bar list result) \<Rightarrow> 's Strategy list \<Rightarrow>
    's Strategy list \<times> unit result" where
  "warmAllLoop syms skip barsFor [] = ([], Inr ())"
| "warmAllLoop syms skip barsFor (st # sts) =
     (if skip (st_ID st) then (case warmAllLoop syms skip barsFor sts of (sts1, r) \<Rightarrow> (st # sts1, r))
      else case st_WarmupBars st of
        None \<Rightarrow> (case warmAllLoop syms skip barsFor sts of (sts1, r) \<Rightarrow> (st # sts1, r))
      | Some f \<Rightarrow>
          (case warmLoop f barsFor syms st of
             (st1, Inl err) \<Rightarrow> (st1 # sts, Inl err)
           | (st1, Inr _) \<Rightarrow> (case warmAllLoop syms skip barsFor sts of (sts1, r) \<Rightarrow> (st1 # sts1, r))))"

definition PrimeWarmupExcept :: "'s Strategy list \<Rightarrow> string list \<Rightarrow> (string \<Rightarrow> bool) \<Rightarrow> (string \<Rightarrow> Bar list result) \<Rightarrow>
    's Strategy list \<times> unit result" where
  "PrimeWarmupExcept sts symbols skip barsFor =
     (if symbols = [] then (sts, Inr ()) else warmAllLoop (sort symbols) skip barsFor sts)"

definition PrimeWarmup :: "'s Strategy list \<Rightarrow> string list \<Rightarrow> (string \<Rightarrow> Bar list result) \<Rightarrow> 's Strategy list \<times> unit result" where
  "PrimeWarmup sts symbols barsFor = PrimeWarmupExcept sts symbols (\<lambda>_. False) barsFor"

definition PrimeWarmupBatchExcept :: "'s Strategy list \<Rightarrow> Bar list \<Rightarrow> (string \<Rightarrow> bool) \<Rightarrow> 's Strategy list" where
  "PrimeWarmupBatchExcept sts bars skip =
     (if bars = [] then sts
      else map (\<lambda>st. if skip (st_ID st) then st
                     else case st_WarmupBatch st of None \<Rightarrow> st | Some f \<Rightarrow> onState (f bars) st) sts)"

definition PrimeWarmupBatch :: "'s Strategy list \<Rightarrow> Bar list \<Rightarrow> 's Strategy list" where
  "PrimeWarmupBatch sts bars = PrimeWarmupBatchExcept sts bars (\<lambda>_. False)"

definition primeWarmup :: "(string, Bar list) gomap option \<Rightarrow> 's Strategy list \<Rightarrow> 's Strategy list" where
  "primeWarmup warmup sts =
     (case warmup of
        None \<Rightarrow> sts
      | Some bars \<Rightarrow> if bars = [] then sts else fst (PrimeWarmup sts (mapKeys bars) (\<lambda>sy. Inr (listAt bars sy))))"

section \<open>The event handlers\<close>

fun strategyLoop :: "'f Wiring \<Rightarrow> Bar \<Rightarrow> nat list \<Rightarrow> ('s, 'f) world \<Rightarrow> ('s, 'f) world \<times> unit result" where
  "strategyLoop c bar [] w = (w, Inr ())"
| "strategyLoop c bar (i # is) w =
     (case w of (l, en) \<Rightarrow>
        if length (en_strategies en) \<le> i then (w, Inl (ErrPlain ''index out of range''))
        else let st = en_strategies en ! i in
          case runAct c (st_OnBar st bar (st_state st)) w of
            ((l1, en1), s, r) \<Rightarrow>
              (let w1 = (l1, en1\<lparr>en_strategies := (en_strategies en1)[i := st\<lparr>st_state := s\<rparr>]\<rparr>) in
               case r of Inl err \<Rightarrow> (w1, Inl err) | Inr _ \<Rightarrow> strategyLoop c bar is w1))"

definition execBar :: "'f Wiring \<Rightarrow> Bar \<Rightarrow> ('s, 'f) world \<Rightarrow> ('s, 'f) world \<times> unit result" where
  "execBar c bar w =
     (case ProcessBar (wi_model c) engineSeq EmitFill (en_exec (snd w)) bar w of
        (ex, (l, en), r) \<Rightarrow> ((l, en\<lparr>en_exec := ex\<rparr>), r))"

definition observe :: "'f Wiring \<Rightarrow> Bar \<Rightarrow> ('s, 'f) Engine \<Rightarrow> ('s, 'f) Engine" where
  "observe c bar en =
     (let en1 = en\<lparr>en_acct := ObserveBar (en_acct en) bar, en_lastBar := mapSet (bar_Symbol bar) bar (en_lastBar en)\<rparr> in
      case (en_ctxProv en1, en_ctxStat en1) of
        (Some prov, Some stat) \<Rightarrow>
          if bar_Symbol bar = wi_spySym c then
            (case ContextProvider_OnBar (wi_float c) prov stat (bar_TS bar) of
               (prov1, stat1, _) \<Rightarrow>
                 en1\<lparr>en_ctxProv := Some prov1, en_ctxStat := Some stat1,
                     en_strategies := InjectContextInto (bar_TS bar) (Some stat1) (en_strategies en1)\<rparr>)
          else en1
      | _ \<Rightarrow> en1)"

definition onBarEvent :: "'f Wiring \<Rightarrow> Bar \<Rightarrow> ('s, 'f) world \<Rightarrow> ('s, 'f) world \<times> unit result" where
  "onBarEvent c bar w =
     (let nextBar = (fm_Timing (wi_model c) = FillNextBar);
          w0 = (fst w, (snd w)\<lparr>en_barsProcessed := en_barsProcessed (snd w) + 1\<rparr>)
      in case (if nextBar then execBar c bar w0 else (w0, Inr ())) of
           (w1, Inl err) \<Rightarrow> (w1, Inl err)
         | (w1, Inr _) \<Rightarrow>
             (let w2 = (fst w1, observe c bar (snd w1)) in
              case strategyLoop c bar (strategiesFor (snd w2) (bar_Symbol bar)) w2 of
                (w3, Inl err) \<Rightarrow> (w3, Inl err)
              | (w3, Inr _) \<Rightarrow> if \<not> nextBar then execBar c bar w3 else (w3, Inr ())))"

definition wrongEvent :: go_error where
  "wrongEvent = ErrPlain ''handler got another event''"

definition handleBar :: "'f Wiring \<Rightarrow> ('s, 'f) Engine handler" where
  "handleBar c evt l en =
     (case evt of
        BarEvent bar \<Rightarrow> (case onBarEvent c bar (l, en) of ((l1, en1), r) \<Rightarrow> (l1, en1, r))
      | _ \<Rightarrow> (l, en, Inl wrongEvent))"

definition handleFill :: "('s, 'f) Engine handler" where
  "handleFill evt l en =
     (case evt of
        FillEvent f \<Rightarrow>
          (case Account_ApplyFill (en_acct en) f of
             (a, Inl err) \<Rightarrow> (l, en\<lparr>en_acct := a\<rparr>, Inl err)
           | (a, Inr _) \<Rightarrow> (l, en\<lparr>en_acct := a, en_fills := en_fills en @ [f]\<rparr>, Inr ()))
      | _ \<Rightarrow> (l, en, Inl wrongEvent))"

definition flushBars :: "'f Wiring \<Rightarrow> ('s, 'f) world \<Rightarrow> ('s, 'f) world \<times> unit result" where
  "flushBars c w =
     (case FlushThisBar (wi_model c) engineSeq EmitFill (en_exec (snd w)) w of
        (ex, (l, en), r) \<Rightarrow> ((l, en\<lparr>en_exec := ex\<rparr>), r))"

definition handleSample :: "'f Wiring \<Rightarrow> ('s, 'f) Engine handler" where
  "handleSample c evt l en =
     (case evt of
        SampleEvent ts \<Rightarrow>
          (case flushBars c (l, en) of
             ((l1, en1), Inl err) \<Rightarrow> (l1, en1, Inl err)
           | ((l1, en1), Inr _) \<Rightarrow>
               (case Sample (en_smplr en1) (en_acct en1) ts of
                  (sm, Inl err) \<Rightarrow> (l1, en1\<lparr>en_smplr := sm\<rparr>, Inl err)
                | (sm, Inr _) \<Rightarrow> (l1, en1\<lparr>en_smplr := sm, en_sampledDays := en_sampledDays en1 + 1\<rparr>, Inr ())))
      | _ \<Rightarrow> (l, en, Inl wrongEvent))"

definition engineHandlers :: "'f Wiring \<Rightarrow> ('s, 'f) Engine handlers" where
  "engineHandlers c = [(KindBar, handleBar c), (KindFill, handleFill), (KindSample, handleSample c)]"

section \<open>Configuration\<close>

type_synonym FillProfile = string

definition ProfileCloseFill :: FillProfile where "ProfileCloseFill = ''close-fill''"
definition ProfileRealistic :: FillProfile where "ProfileRealistic = ''realistic''"

definition FillProfile_IsValid :: "FillProfile \<Rightarrow> bool" where
  "FillProfile_IsValid p \<longleftrightarrow> p = ProfileCloseFill \<or> p = ProfileRealistic"

record StrategySpec =
  sp_ID :: string
  sp_Intents :: "Intent list"

text \<open>A prebuilt strategy may be a nil interface value.\<close>

record ('s, 'f) Config =
  cf_Tickers :: "string list"
  cf_Start :: Date
  cf_End :: Date
  cf_StartingBalance :: Money
  cf_Profile :: FillProfile
  cf_Realistic :: RealisticModel
  cf_Strategies :: "StrategySpec list"
  cf_PrebuiltStrategies :: "'s Strategy option list"
  cf_Gate :: "Gate option"
  cf_Context :: "'f ContextProvider option"
  cf_SPYSymbol :: string
  cf_Warmup :: "(string, Bar list) gomap option"

fun tickersLoop :: "string list \<Rightarrow> (string, unit) gomap \<Rightarrow> unit result" where
  "tickersLoop [] seen = Inr ()"
| "tickersLoop (t # ts) seen =
     (if t = [] then Inl ErrInvalidArgument
      else if mapGet seen t \<noteq> None then Inl ErrInvalidArgument
      else tickersLoop ts (mapSet t () seen))"

fun specsLoop :: "StrategySpec list \<Rightarrow> (string, unit) gomap \<Rightarrow> unit result" where
  "specsLoop [] ids = Inr ()"
| "specsLoop (s # ss) ids =
     (if sp_ID s = [] then Inl ErrInvalidArgument
      else if mapGet ids (sp_ID s) \<noteq> None then Inl ErrInvalidArgument
      else specsLoop ss (mapSet (sp_ID s) () ids))"

fun prebuiltLoop :: "'s Strategy option list \<Rightarrow> unit result" where
  "prebuiltLoop [] = Inr ()"
| "prebuiltLoop (None # ss) = Inl ErrInvalidArgument"
| "prebuiltLoop (Some s # ss) = (if st_ID s = [] then Inl ErrInvalidArgument else prebuiltLoop ss)"

definition validateConfig :: "('s, 'f) Config \<Rightarrow> unit result" where
  "validateConfig cfg =
     (if cf_Tickers cfg = [] then Inl ErrInvalidArgument
      else bindR (tickersLoop (cf_Tickers cfg) []) (\<lambda>_.
        if Date_IsZero (cf_Start cfg) \<or> Date_IsZero (cf_End cfg) then Inl ErrInvalidArgument
        else if Date_Before (cf_End cfg) (cf_Start cfg) then Inl ErrInvalidArgument
        else if sint (cf_StartingBalance cfg) \<le> 0 then Inl ErrInvalidArgument
        else if cf_Profile cfg \<noteq> [] \<and> \<not> FillProfile_IsValid (cf_Profile cfg) then Inl ErrInvalidArgument
        else if cf_Strategies cfg = [] \<and> cf_PrebuiltStrategies cfg = [] then Inl ErrInvalidArgument
        else if cf_Strategies cfg \<noteq> [] \<and> cf_PrebuiltStrategies cfg \<noteq> [] then Inl ErrInvalidArgument
        else bindR (specsLoop (cf_Strategies cfg) []) (\<lambda>_. prebuiltLoop (cf_PrebuiltStrategies cfg))))"

definition profileOf :: "('s, 'f) Config \<Rightarrow> FillProfile" where
  "profileOf cfg = (if cf_Profile cfg = [] then ProfileRealistic else cf_Profile cfg)"

definition buildModel :: "FillProfile \<Rightarrow> RealisticModel \<Rightarrow> FillModel result" where
  "buildModel profile rp =
     (if profile = ProfileCloseFill then Inr CloseFillModel
      else if profile = ProfileRealistic then Inr (realisticModel rp)
      else Inl ErrInvalidArgument)"

section \<open>Feeding bars\<close>

fun lastInstrument :: "InstrumentBars list \<Rightarrow> (string, InstrumentBars) gomap \<Rightarrow> (string, InstrumentBars) gomap" where
  "lastInstrument [] m = m"
| "lastInstrument (ib # ibs) m = lastInstrument ibs (mapSet (ib_Symbol ib) ib m)"

definition SliceFeed_Load :: "InstrumentBars list \<Rightarrow> string list \<Rightarrow> InstrumentBars list" where
  "SliceFeed_Load instruments tickers =
     map (\<lambda>t. case mapGet (lastInstrument instruments []) t of
            Some ib \<Rightarrow> ib | None \<Rightarrow> \<lparr>ib_Symbol = t, ib_Bars = []\<rparr>) tickers"

fun seedBars :: "Bar list \<Rightarrow> (int64, gotime) gomap \<Rightarrow> Loop \<Rightarrow> nat \<Rightarrow> Loop \<times> (int64, gotime) gomap \<times> nat \<times> unit result" where
  "seedBars [] tsSet l n = (l, tsSet, n, Inr ())"
| "seedBars (bar # bars) tsSet l n =
     (case Schedule l (BarEvent bar) of
        (l1, Inl err) \<Rightarrow> (l1, tsSet, n, Inl err)
      | (l1, Inr _) \<Rightarrow> seedBars bars (mapSet (UnixNano (bar_TS bar)) (bar_TS bar) tsSet) l1 (n + 1))"

fun seedSamples :: "gotime list \<Rightarrow> Loop \<Rightarrow> Loop \<times> unit result" where
  "seedSamples [] l = (l, Inr ())"
| "seedSamples (t # ts) l =
     (case Schedule l (SampleEvent t) of
        (l1, Inl err) \<Rightarrow> (l1, Inl err)
      | (l1, Inr _) \<Rightarrow> seedSamples ts l1)"

text \<open>The nested loop over instruments and their bars visits the concatenation of the bar lists.\<close>

definition seed :: "InstrumentBars list \<Rightarrow> ('s, 'f) world \<Rightarrow> ('s, 'f) world \<times> unit result" where
  "seed instruments w =
     (case w of (l, en) \<Rightarrow>
        (case seedBars (concat (map ib_Bars instruments)) [] l (en_totalBars en) of
           (l1, tsSet, n, Inl err) \<Rightarrow> ((l1, en\<lparr>en_totalBars := n\<rparr>), Inl err)
         | (l1, tsSet, n, Inr _) \<Rightarrow>
             (let times = sort_key t_ns (map snd tsSet); en1 = en\<lparr>en_totalBars := n\<rparr> in
              case seedSamples times l1 of
                (l2, Inl err) \<Rightarrow> ((l2, en1), Inl err)
              | (l2, Inr _) \<Rightarrow>
                  (if times \<noteq> [] then ((l2, en1\<lparr>en_firstTS := hd times, en_lastTS := last times\<rparr>), Inr ())
                   else ((l2, en1), Inr ())))))"

section \<open>Building and running\<close>

fun buildScripted :: "'s \<Rightarrow> StrategySpec list \<Rightarrow> 's Strategy list result" where
  "buildScripted s [] = Inr []"
| "buildScripted s (sp # sps) =
     bindR (NewScriptedStrategy (sp_ID sp) (sp_Intents sp) s) (\<lambda>st. bindR (buildScripted s sps) (\<lambda>sts. Inr (st # sts)))"

text \<open>The engine \<open>New\<close> starts from, before the bars are seeded.\<close>

definition engine0 :: "('s, 'f) Config \<Rightarrow> 's Strategy list \<Rightarrow> InstrumentBars list \<Rightarrow> ('s, 'f) Engine" where
  "engine0 cfg sts instruments =
     \<lparr>en_acct = NewAccount (cf_StartingBalance cfg) True, en_smplr = NewEquitySampler,
      en_exec = NewSimExecutor, en_orders = [], en_fills = [],
      en_strategies = primeWarmup (cf_Warmup cfg) sts,
      en_registration = map ib_Symbol instruments, en_dispatch = [], en_broadcast = [],
      en_ctxProv = cf_Context cfg,
      en_ctxStat = (if cf_Context cfg = None then None else Some NewSharedContextState),
      en_rejected = [], en_lastBar = [], en_barsProcessed = 0, en_totalBars = 0, en_sampledDays = 0,
      en_firstTS = zeroTime, en_lastTS = zeroTime\<rparr>"

text \<open>\<open>New\<close>: \<open>feed\<close> loads the bars, \<open>s0\<close> the state of a scripted strategy (it keeps none).\<close>

definition NewEngine :: "'f FloatOps \<Rightarrow> (string list \<Rightarrow> InstrumentBars list result) \<Rightarrow> 's \<Rightarrow> ('s, 'f) Config \<Rightarrow>
    ('f Wiring \<times> ('s, 'f) world) result" where
  "NewEngine fo feed s0 cfg =
     bindR (validateConfig cfg) (\<lambda>_.
     bindR (buildModel (profileOf cfg) (cf_Realistic cfg)) (\<lambda>model.
     bindR (if cf_PrebuiltStrategies cfg \<noteq> [] then Inr (List.map_filter id (cf_PrebuiltStrategies cfg))
            else buildScripted s0 (cf_Strategies cfg)) (\<lambda>sts.
     bindR (feed (cf_Tickers cfg)) (\<lambda>instruments.
       let c = \<lparr>wi_model = model, wi_gate = cf_Gate cfg,
                wi_spySym = (if cf_SPYSymbol cfg = [] then ''SPY'' else cf_SPYSymbol cfg), wi_float = fo\<rparr>
       in case seed instruments (NewLoop, buildDispatch (engine0 cfg sts instruments)) of
            (w, Inl err) \<Rightarrow> Inl err
          | (w, Inr _) \<Rightarrow> Inr (c, w)))))"

fun liquidateLoop :: "'f Wiring \<Rightarrow> PositionSnap list \<Rightarrow> ('s, 'f) world \<Rightarrow> ('s, 'f) world \<times> unit result" where
  "liquidateLoop c [] w = (w, Inr ())"
| "liquidateLoop c (pos # ps) w =
     (case CloseSideFor (pos_SignedQty pos) of
        None \<Rightarrow> liquidateLoop c ps w
      | Some side \<Rightarrow>
          (case Qty_Abs (pos_SignedQty pos) of
             Inl err \<Rightarrow> (w, Inl err)
           | Inr qty \<Rightarrow>
               (case mapGet (en_lastBar (snd w)) (pos_Symbol pos) of
                  None \<Rightarrow> liquidateLoop c ps w
                | Some bar \<Rightarrow>
                    (let (coid, (l, en)) = NewClientOrderID engineSeq w;
                         order = NewMarketOrder coid (pos_StrategyID pos) (pos_Symbol pos) side qty
                           ''end-of-run liquidation'' (bar_TS bar);
                         w1 = (l, en\<lparr>en_orders := en_orders en @ [order]\<rparr>)
                     in case FillAtBar (wi_model c) engineSeq EmitFill order bar w1 of
                          (w2, Inl err) \<Rightarrow> (w2, Inl err)
                        | (w2, Inr _) \<Rightarrow> liquidateLoop c ps w2))))"

definition liquidateOpenPositions :: "'f Wiring \<Rightarrow> ('s, 'f) world \<Rightarrow> ('s, 'f) world \<times> unit result" where
  "liquidateOpenPositions c w = liquidateLoop c (OpenPositions (en_acct (snd w))) w"

record Result =
  re_StartingBalance :: Money
  re_FinalBalance :: Money
  re_TotalPnL :: Money
  re_Profile :: FillProfile
  re_Strategies :: "string list"
  re_Orders :: "Order list"
  re_Fills :: "Fill list"
  re_RejectedOrders :: "RejectedOrder list"
  re_Positions :: "PositionSnap list"
  re_AccountStates :: "(gotime \<times> Money) list"
  re_TotalEquityCurve :: "EquityPoint list"
  re_StrategyEquity :: "(string, EquityPoint list) gomap"
  re_BarsProcessed :: nat
  re_SampledDays :: nat
  re_FirstTS :: gotime
  re_LastTS :: gotime

definition buildResult :: "('s, 'f) Config \<Rightarrow> ('s, 'f) Engine \<Rightarrow> Result result" where
  "buildResult cfg en =
     bindR (Cash (en_acct en)) (\<lambda>final.
     bindR (Money_Sub final (cf_StartingBalance cfg)) (\<lambda>pnl. Inr
       \<lparr>re_StartingBalance = cf_StartingBalance cfg, re_FinalBalance = final, re_TotalPnL = pnl,
        re_Profile = profileOf cfg,
        re_Strategies = sort (mapKeys (fold (\<lambda>st m. if mapGet m (st_ID st) \<noteq> None then m else mapSet (st_ID st) () m)
                          (en_strategies en) [])),
        re_Orders = en_orders en, re_Fills = en_fills en, re_RejectedOrders = en_rejected en,
        re_Positions = AllPositions (en_acct en),
        re_AccountStates = (case acc_bus (en_acct en) of None \<Rightarrow> [] | Some xs \<Rightarrow> map (\<lambda>s. (as_TS s, as_Total s)) xs),
        re_TotalEquityCurve = totalCurve (en_smplr en),
        re_StrategyEquity = map (\<lambda>sid. (sid, StrategyCurve (en_smplr en) sid)) (sortedStrategyIDs (en_smplr en)),
        re_BarsProcessed = en_barsProcessed en, re_SampledDays = en_sampledDays en,
        re_FirstTS = en_firstTS en, re_LastTS = en_lastTS en\<rparr>))"

definition stopError :: "stop \<Rightarrow> go_error option" where
  "stopError r =
     (case r of Drained \<Rightarrow> None | Canceled \<Rightarrow> Some (ErrPlain ''context canceled'') | ClockError e \<Rightarrow> Some e
      | NoHandler k \<Rightarrow> Some (ErrPlain ''no handler'') | HandlerError e \<Rightarrow> Some e)"

text \<open>\<open>None\<close> when the fuel of the loop is used up.\<close>

definition Engine_Run :: "nat \<Rightarrow> (nat \<Rightarrow> bool) \<Rightarrow> ('s, 'f) Config \<Rightarrow> 'f Wiring \<Rightarrow> ('s, 'f) world \<Rightarrow>
    (('s, 'f) world \<times> Result result) option" where
  "Engine_Run fuel cancel cfg c w =
     (let (l, en) = w; initTS = (if IsZero (en_firstTS en) then midnightUTC (cf_Start cfg) else en_firstTS en) in
      case EmitInitialState (en_acct en) initTS of
        (a, Inl err) \<Rightarrow> Some ((l, en\<lparr>en_acct := a\<rparr>), Inl err)
      | (a, Inr _) \<Rightarrow>
          (case Run fuel cancel (engineHandlers c) l (en\<lparr>en_acct := a\<rparr>) of
             None \<Rightarrow> None
           | Some (l1, en1, tr, r) \<Rightarrow> Some
               (case stopError r of
                  Some err \<Rightarrow> ((l1, en1), Inl err)
                | None \<Rightarrow>
                    (case flushBars c (l1, en1) of
                       (w2, Inl err) \<Rightarrow> (w2, Inl err)
                     | (w2, Inr _) \<Rightarrow>
                         (case liquidateOpenPositions c w2 of
                            (w3, Inl err) \<Rightarrow> (w3, Inl err)
                          | (w3, Inr _) \<Rightarrow> (w3, buildResult cfg (snd w3)))))))"

end
