(* ===== verification/Engine_Props.thy ===== *)
theory Engine_Props
  imports Engine_Run
begin

text \<open>
  Facts about the batch engine.  Its handlers draw sequence numbers and schedule nothing, so they meet
  the contracts \<open>event_handlers\<close> and \<open>quiet_handlers\<close> of the event loop: a run dispatches exactly what
  was seeded, in the stable order of (timestamp, kind).  The symbol index delivers a bar to the
  strategies a full scan would.  A signal the gate refuses leaves the recorded rejection and nothing
  else.
\<close>

section \<open>Signals\<close>

text \<open>What a signal does: it is submitted when no gate applies or the gate approves it, and a refused
  signal leaves the recorded rejection and nothing else.\<close>

lemma SubmitMarketSignal_cases:
  assumes "SubmitMarketSignal c sid sy sg side qty reason ts w = (w', r)"
  defines "price \<equiv> case LastPrice (en_acct (snd w)) sy of None \<Rightarrow> 0 | Some p \<Rightarrow> p"
  shows "(wi_gate c = None \<or> sg = SideFlat \<or> sint qty \<le> 0) \<and> SubmitMarket c sid sy side qty reason ts w = (w', map_sum id fst r)
    \<or> (\<exists>err. Account_Snapshot (en_acct (snd w)) = Inl err \<and> w' = w \<and> r = Inl err)
    \<or> (\<exists>g snap. wi_gate c = Some g \<and> Account_Snapshot (en_acct (snd w)) = Inr snap \<and>
         (let d = Gate_Check g (NewProposedOrder sid sy sg qty price ts) (SnapshotFromDomain snap) in
          if Approved d then SubmitMarket c sid sy side qty reason ts w = (w', map_sum id fst r)
          else r = Inr ([], False) \<and> w' = RecordRejection \<lparr>rj_StrategyID = sid, rj_Symbol = sy, rj_Side = sg, rj_Qty = qty,
                 rj_Price = price, rj_RuleName = RuleName d, rj_TS = ts\<rparr> w))"
proof -
  let ?submit = "\<lambda>w. case SubmitMarket c sid sy side qty reason ts w of (w1, Inl err) \<Rightarrow> (w1, Inl err) | (w1, Inr coid) \<Rightarrow> (w1, Inr (coid, True))"
  have sub: "?submit u = (w', r) \<Longrightarrow> SubmitMarket c sid sy side qty reason ts u = (w', map_sum id fst r)" for u
    by (auto split: prod.splits sum.splits)
  show ?thesis
  proof (cases "wi_gate c \<noteq> None \<and> sg \<noteq> SideFlat \<and> 0 < sint qty")
    case False
    have "SubmitMarketSignal c sid sy sg side qty reason ts w = ?submit w"
      unfolding SubmitMarketSignal_def Let_def by (rule if_not_P [OF False])
    then show ?thesis using assms(1) sub [of w] False by auto
  next
    case True
    then obtain g where g: "wi_gate c = Some g" by auto
    show ?thesis
    proof (cases "Account_Snapshot (en_acct (snd w))")
      case (Inl e)
      then show ?thesis using assms(1) True by (auto simp: SubmitMarketSignal_def Let_def)
    next
      case (Inr snap)
      let ?d = "Gate_Check g (NewProposedOrder sid sy sg qty price ts) (SnapshotFromDomain snap)"
      show ?thesis
      proof (cases "Approved ?d")
        case True': True
        have "?submit w = (w', r)"
          using assms(1) True g Inr True' by (simp add: SubmitMarketSignal_def Let_def GateSignal_def price_def)
        then show ?thesis using sub [of w] g Inr True' by (simp add: Let_def)
      next
        case False
        have "po_StrategyID (NewProposedOrder sid sy sg qty price ts) = sid" "po_Symbol (NewProposedOrder sid sy sg qty price ts) = sy"
          "po_Side (NewProposedOrder sid sy sg qty price ts) = sg" "po_Qty (NewProposedOrder sid sy sg qty price ts) = qty"
          "po_TS (NewProposedOrder sid sy sg qty price ts) = ts"
          by (simp_all add: NewProposedOrder_def)
        then show ?thesis using assms(1) True g Inr False by (simp add: SubmitMarketSignal_def Let_def GateSignal_def price_def)
      qed
    qed
  qed
qed

section \<open>Frames of the handlers\<close>

text \<open>A relation between worlds that the executor, the submitter and the plain state updates respect is
  respected by every handler.\<close>

locale engine_frame = exec_frame R ok engineSeq EmitFill
  for R :: "('s, 'f) world \<Rightarrow> ('s, 'f) world \<Rightarrow> bool" and ok :: "unit result \<Rightarrow> bool" +
  fixes c :: "'f Wiring"
  assumes market_R: "SubmitMarket c sid sy side qty reason ts w = (w', r1) \<Longrightarrow> R w w'"
    and reject_R: "R w (RecordRejection rj w)"
    and strategies_R: "R w (l, en) \<Longrightarrow> R w (l, en\<lparr>en_strategies := sts\<rparr>)"
    and exec_R: "R w (l, en) \<Longrightarrow> R w (l, en\<lparr>en_exec := ex\<rparr>)"
    and observe_R: "R w (l, en) \<Longrightarrow> R w (l, observe c bar en)"
    and count_R: "R w (l, en) \<Longrightarrow> R w (l, en\<lparr>en_barsProcessed := n\<rparr>)"
    and sample_R: "R w (l, en) \<Longrightarrow> R w (l, en\<lparr>en_smplr := sm, en_sampledDays := n\<rparr>)"
begin

lemma signal_R:
  assumes "SubmitMarketSignal c sid sy sg side qty reason ts w = (w', r)" shows "R w w'"
  using SubmitMarketSignal_cases [OF assms]
  by (elim disjE conjE exE) (auto simp: Let_def R_refl reject_R split: if_splits dest: market_R)

lemma runAct_R: "runAct c a w = (w', s, r) \<Longrightarrow> R w w'"
proof (induction a arbitrary: w)
  case (Finish s r)
  then show ?case by (simp add: R_refl)
next
  case (CallMarket sid sy side qty reason ts k)
  obtain w1 r1 where e: "SubmitMarket c sid sy side qty reason ts w = (w1, r1)" by (cases "SubmitMarket c sid sy side qty reason ts w")
  then have "runAct c (k r1) w1 = (w', s, r)" using CallMarket.prems by simp
  then show ?case using CallMarket.IH [of "k r1"] market_R [OF e] R_trans by blast
next
  case (CallSignal sid sy sg side qty reason ts k)
  obtain w1 r1 where e: "SubmitMarketSignal c sid sy sg side qty reason ts w = (w1, r1)" by (cases "SubmitMarketSignal c sid sy sg side qty reason ts w")
  then have "runAct c (k r1) w1 = (w', s, r)" using CallSignal.prems by simp
  then show ?case using CallSignal.IH [of "k r1"] signal_R [OF e] R_trans by blast
next
  case (CallNet sid sy k)
  then show ?case using CallNet.IH [of "k (NetPosition sid sy w)" w] by simp
qed

lemma strategyLoop_R: "strategyLoop c bar ix w = (w', r) \<Longrightarrow> R w w'"
proof (induction ix arbitrary: w)
  case (Cons i ix)
  obtain l en where w: "w = (l, en)" by (cases w)
  show ?case
  proof (cases "length (en_strategies en) \<le> i")
    case True
    then show ?thesis using Cons.prems by (simp add: w R_refl)
  next
    case False
    let ?st = "en_strategies en ! i"
    obtain u s r1 where "runAct c (st_OnBar ?st bar (st_state ?st)) w = (u, s, r1)" by (metis prod_cases3)
    moreover obtain l1 en1 where "u = (l1, en1)" by (cases u)
    ultimately have a: "runAct c (st_OnBar ?st bar (st_state ?st)) w = ((l1, en1), s, r1)" by simp
    let ?w1 = "(l1, en1\<lparr>en_strategies := (en_strategies en1)[i := ?st\<lparr>st_state := s\<rparr>]\<rparr>)"
    have d: "R w ?w1" by (rule strategies_R [OF runAct_R [OF a]])
    show ?thesis
    proof (cases r1)
      case (Inl e)
      then show ?thesis using Cons.prems False a d by (simp add: w Let_def)
    next
      case (Inr u)
      then have "strategyLoop c bar ix ?w1 = (w', r)" using Cons.prems False a by (simp add: w Let_def)
      then show ?thesis using Cons.IH d R_trans by blast
    qed
  qed
qed (simp add: R_refl)

lemma execBar_R:
  assumes "execBar c bar w = (w', r)" "ok r" shows "R w w'"
proof -
  obtain ex l en r1 where p: "ProcessBar (wi_model c) engineSeq EmitFill (en_exec (snd w)) bar w = (ex, (l, en), r1)"
    by (metis surj_pair)
  then show ?thesis using assms exec_R [OF ProcessBar_R [OF p]] by (auto simp: execBar_def)
qed

lemma flushBars_R:
  assumes "flushBars c w = (w', r)" "ok r" shows "R w w'"
proof -
  obtain ex l en r1 where p: "FlushThisBar (wi_model c) engineSeq EmitFill (en_exec (snd w)) w = (ex, (l, en), r1)"
    by (metis surj_pair)
  then show ?thesis using assms exec_R [OF FlushThisBar_R [OF p]] by (auto simp: flushBars_def)
qed

lemma onBarEvent_R:
  assumes "onBarEvent c bar w = (w', r)" "ok r" shows "R w w'"
proof -
  let ?nb = "fm_Timing (wi_model c) = FillNextBar"
  let ?w0 = "(fst w, (snd w)\<lparr>en_barsProcessed := en_barsProcessed (snd w) + 1\<rparr>)"
  have d0: "R w ?w0" using count_R [of w "fst w" "snd w"] by (simp add: R_refl)
  obtain w1 r1 where e1: "(if ?nb then execBar c bar ?w0 else (?w0, Inr ())) = (w1, r1)" by fastforce
  have d1: "R w w1" if "ok r1"
    using e1 execBar_R [of bar ?w0 w1 r1] d0 that by (cases ?nb) (auto intro: R_trans)
  note oo = assms(1) [unfolded onBarEvent_def Let_def e1 prod.case]
  show ?thesis
  proof (cases r1)
    case (Inl e)
    then show ?thesis using oo d1 assms(2) by simp
  next
    case (Inr u)
    let ?w2 = "(fst w1, observe c bar (snd w1))"
    obtain w3 r3 where e3: "strategyLoop c bar (strategiesFor (snd ?w2) (bar_Symbol bar)) ?w2 = (w3, r3)" by fastforce
    have "R w ?w2" using d1 Inr observe_R [of w "fst w1" "snd w1"] by (simp add: ok_Inr)
    then have d3: "R w w3" using strategyLoop_R [OF e3] R_trans by blast
    have fin: "(w', r) = (case r3 of Inl err \<Rightarrow> (w3, Inl err) | Inr _ \<Rightarrow> if \<not> ?nb then execBar c bar w3 else (w3, Inr ()))"
      using oo Inr e3 by simp
    show ?thesis
    proof (cases "\<exists>u. r3 = Inr u \<and> \<not> ?nb")
      case True
      then have "execBar c bar w3 = (w', r)" using fin by auto
      then show ?thesis using d3 execBar_R assms(2) R_trans by blast
    next
      case False
      then show ?thesis using fin d3 by (auto split: sum.splits)
    qed
  qed
qed

lemma handleFill_R:
  assumes "handleFill e l en = (l', en', r)" "ok r" shows "R (l, en) (l', en')"
proof (cases e)
  case (FillEvent f)
  then have "EmitFill f (l, en) = ((l', en'), r)"
    using assms(1) by (auto simp: handleFill_def EmitFill_def split: prod.splits sum.splits)
  then show ?thesis using sink_R assms(2) by blast
qed (use assms in \<open>auto simp: handleFill_def R_refl\<close>)

lemma handleSample_R:
  assumes "handleSample c e l en = (l', en', r)" "ok r" shows "R (l, en) (l', en')"
proof (cases e)
  case (SampleEvent ts)
  obtain l1 en1 r1 where f: "flushBars c (l, en) = ((l1, en1), r1)" by (metis surj_pair)
  show ?thesis
  proof (cases r1)
    case (Inl err)
    then show ?thesis using assms f SampleEvent flushBars_R [OF f] by (simp add: handleSample_def)
  next
    case (Inr u)
    then have d: "R (l, en) (l1, en1)" using flushBars_R [OF f] by (simp add: ok_Inr)
    have "R (l, en) (l1, en1\<lparr>en_smplr := sm\<rparr>)" for sm using sample_R [OF d, of "en_sampledDays en1" sm] by simp
    then show ?thesis
      using assms f SampleEvent Inr sample_R [OF d]
      by (auto simp: handleSample_def split: prod.splits sum.splits)
  qed
qed (use assms in \<open>auto simp: handleSample_def R_refl\<close>)

lemma handlers_R:
  assumes "mapGet (engineHandlers c) k = Some h" "h e l en = (l', en', r)" "ok r"
  shows "R (l, en) (l', en')"
proof -
  have "h = handleBar c \<or> h = handleFill \<or> h = handleSample c"
    using assms(1) by (auto simp: engineHandlers_def mapGet_def split: if_splits)
  then show ?thesis
  proof (elim disjE)
    assume h: "h = handleBar c"
    show ?thesis
    proof (cases e)
      case (BarEvent bar)
      then have "onBarEvent c bar (l, en) = ((l', en'), r)" using assms(2) h by (auto simp: handleBar_def split: prod.splits)
      then show ?thesis using onBarEvent_R assms(3) by blast
    qed (use assms h in \<open>auto simp: handleBar_def R_refl\<close>)
  qed (use assms handleFill_R handleSample_R in blast)+
qed

end

section \<open>Handlers only draw sequence numbers\<close>

definition drew :: "Loop \<Rightarrow> Loop \<Rightarrow> bool" where
  "drew l l' \<longleftrightarrow> (\<exists>s. l' = l\<lparr>lp_queue := (lp_queue l)\<lparr>nextID := s\<rparr>\<rparr>)"

lemma drew_refl [simp]: "drew l l"
  by (auto simp: drew_def intro: exI [of _ "nextID (lp_queue l)"])

lemma drew_trans: "drew a b \<Longrightarrow> drew b c \<Longrightarrow> drew a c"
  by (auto simp: drew_def)

lemma drew_NextSeq: "NextSeq l = (s, l') \<Longrightarrow> drew l l'"
  by (auto simp: drew_def NextSeq_def nextSeq_def)

lemma drew_draws:
  "\<exists>l'. schedulesAfter k l l' \<and> l' = l\<lparr>lp_queue := (lp_queue l)\<lparr>nextID := nextID (lp_queue l) + of_nat n\<rparr>\<rparr>"
proof (induction n)
  case 0
  then show ?case by (auto intro: sa_refl)
next
  case (Suc n)
  then obtain l1 where "schedulesAfter k l l1" "l1 = l\<lparr>lp_queue := (lp_queue l)\<lparr>nextID := nextID (lp_queue l) + of_nat n\<rparr>\<rparr>" by blast
  then show ?case using sa_seq by (fastforce simp: NextSeq_def nextSeq_def add.assoc add.commute)
qed

lemma drew_schedulesAfter:
  assumes "drew l l'" shows "schedulesAfter k l l'"
proof -
  obtain s where s: "l' = l\<lparr>lp_queue := (lp_queue l)\<lparr>nextID := s\<rparr>\<rparr>" using assms by (auto simp: drew_def)
  have "nextID (lp_queue l) + of_nat (unat (s - nextID (lp_queue l))) = s" by simp
  then show ?thesis using drew_draws [of k l "unat (s - nextID (lp_queue l))"] s by auto
qed

definition drewW :: "('s, 'f) world \<Rightarrow> ('s, 'f) world \<Rightarrow> bool" where
  "drewW w w' \<longleftrightarrow> drew (fst w) (fst w')"

lemma EmitFill_loop: "EmitFill f w = (w', r) \<Longrightarrow> fst w' = fst w"
  by (cases w) (auto simp: EmitFill_def split: prod.splits sum.splits)

interpretation draws: exec_frame drewW "\<lambda>_. True" engineSeq EmitFill
proof
  fix u v w w' :: "('s, 'f) world" and s f r
  show "drewW w w" by (simp add: drewW_def)
  show "drewW u v \<Longrightarrow> drewW v w \<Longrightarrow> drewW u w" unfolding drewW_def by (rule drew_trans)
  show "engineSeq w = (s, w') \<Longrightarrow> drewW w w'"
    by (cases w) (auto simp: engineSeq_def drewW_def drew_NextSeq Let_def split: prod.splits)
  show "EmitFill f w = (w', r) \<Longrightarrow> drewW w w'" by (simp add: drewW_def EmitFill_loop)
qed simp

lemma SubmitMarket_draws: "SubmitMarket c sid sy side qty reason ts w = (w', r) \<Longrightarrow> drewW w w'"
proof -
  assume s: "SubmitMarket c sid sy side qty reason ts w = (w', r)"
  obtain coid w1 where n: "NewClientOrderID engineSeq w = (coid, w1)" by (cases "NewClientOrderID engineSeq w")
  have "fst w' = fst w1"
    using s by (cases w1) (auto simp: SubmitMarket_def n Let_def split: prod.splits sum.splits)
  then show ?thesis using draws.NewClientOrderID_R [OF n] by (simp add: drewW_def)
qed

lemma RecordRejection_loop: "fst (RecordRejection r w) = fst w"
  by (cases w) (simp add: RecordRejection_def)

interpretation engine_draws: engine_frame drewW "\<lambda>_. True" c for c :: "'f Wiring"
proof
  fix w w' :: "('s, 'f) world" and l en
  show "drewW w (l, en) \<Longrightarrow> drewW w (l, en\<lparr>en_strategies := sts\<rparr>)" for sts by (simp add: drewW_def)
  show "drewW w (l, en) \<Longrightarrow> drewW w (l, en\<lparr>en_exec := ex\<rparr>)" for ex by (simp add: drewW_def)
  show "drewW w (l, en) \<Longrightarrow> drewW w (l, observe c bar en)" for bar by (simp add: drewW_def)
  show "drewW w (l, en) \<Longrightarrow> drewW w (l, en\<lparr>en_barsProcessed := n\<rparr>)" for n by (simp add: drewW_def)
  show "drewW w (l, en) \<Longrightarrow> drewW w (l, en\<lparr>en_smplr := sm, en_sampledDays := n\<rparr>)" for sm n by (simp add: drewW_def)
  show "drewW w (RecordRejection rj w)" for rj by (simp add: drewW_def RecordRejection_loop)
qed (auto dest: SubmitMarket_draws)

lemma handlers_draw:
  "mapGet (engineHandlers c) k = Some h \<Longrightarrow> h e l en = (l', en', r) \<Longrightarrow> drew l l'"
  using engine_draws.handlers_R [of c k h e l en l' en' r] by (simp add: drewW_def)

interpretation engine_loop: event_handlers "engineHandlers c" for c
proof
  fix k h e l w l' w' r
  show "mapGet (engineHandlers c) k = Some h \<Longrightarrow> h e l w = (l', w', r) \<Longrightarrow> schedulesAfter k l l'"
    by (rule drew_schedulesAfter) (rule handlers_draw)
  show "mapGet (engineHandlers c) k \<noteq> None" by (cases k) (simp_all add: engineHandlers_def mapGet_def)
qed

section \<open>A run dispatches what was seeded\<close>

interpretation engine_quiet: quiet_handlers "engineHandlers c" for c
proof
  fix k h e l w l' w' r
  show "mapGet (engineHandlers c) k = Some h \<Longrightarrow> h e l w = (l', w', r) \<Longrightarrow> heap (lp_queue l') = heap (lp_queue l)"
    using handlers_draw by (fastforce simp: drew_def)
qed

lemma Schedule_Inr: "Schedule l e = (l', Inr s) \<Longrightarrow> l' = l\<lparr>lp_queue := qPut e (lp_queue l)\<rparr> \<and> t_off (TsEvent e) = 0"
  by (simp add: Schedule_ok)

lemma seedBars_ok:
  "seedBars bars tsSet l n = (l', tsSet', n', Inr ()) \<Longrightarrow>
   l' = l\<lparr>lp_queue := fold qPut (map BarEvent bars) (lp_queue l)\<rparr> \<and> n' = n + length bars \<and>
   tsSet' = fold (\<lambda>b m. mapSet (UnixNano (bar_TS b)) (bar_TS b) m) bars tsSet \<and> (\<forall>b \<in> set bars. t_off (bar_TS b) = 0)"
proof (induction bars arbitrary: tsSet l n)
  case (Cons bar bars)
  obtain l1 s where s: "Schedule l (BarEvent bar) = (l1, Inr s)"
    "seedBars bars (mapSet (UnixNano (bar_TS bar)) (bar_TS bar) tsSet) l1 (n + 1) = (l', tsSet', n', Inr ())"
    using Cons.prems by (auto split: prod.splits sum.splits)
  show ?case using Cons.IH [OF s(2)] Schedule_Inr [OF s(1)] by simp
qed simp

lemma seedSamples_ok:
  "seedSamples ts l = (l', Inr ()) \<Longrightarrow> l' = l\<lparr>lp_queue := fold qPut (map SampleEvent ts) (lp_queue l)\<rparr>"
proof (induction ts arbitrary: l)
  case (Cons t ts)
  obtain l1 s where s: "Schedule l (SampleEvent t) = (l1, Inr s)" "seedSamples ts l1 = (l', Inr ())"
    using Cons.prems by (auto split: prod.splits sum.splits)
  show ?case using Cons.IH [OF s(2)] Schedule_Inr [OF s(1)] by simp
qed simp

text \<open>The sample times: the distinct timestamps of the bars, ascending.\<close>

definition sampleTimes :: "Bar list \<Rightarrow> gotime list" where
  "sampleTimes bars = sort_key t_ns (map snd (fold (\<lambda>b m. mapSet (UnixNano (bar_TS b)) (bar_TS b) m) bars []))"

definition seededEvents :: "Bar list \<Rightarrow> Event list" where
  "seededEvents bars = map BarEvent bars @ map SampleEvent (sampleTimes bars)"

lemma sampleTimes_map:
  assumes "\<forall>b \<in> set bars. inNanoRange (bar_TS b) \<and> t_off (bar_TS b) = 0"
    and "mapWf m" "\<forall>(k, t) \<in> set m. k = UnixNano t \<and> inNanoRange t \<and> t_off t = 0"
  defines "m' \<equiv> fold (\<lambda>b m. mapSet (UnixNano (bar_TS b)) (bar_TS b) m) bars m"
  shows "mapWf m' \<and> (\<forall>(k, t) \<in> set m'. k = UnixNano t \<and> inNanoRange t \<and> t_off t = 0) \<and>
    snd ` set m' = snd ` set m \<union> bar_TS ` set bars"
  using assms(1-3) unfolding m'_def
proof (induction bars arbitrary: m)
  case (Cons b bars)
  let ?m = "mapSet (UnixNano (bar_TS b)) (bar_TS b) m"
  have ok: "\<forall>(k, t) \<in> set ?m. k = UnixNano t \<and> inNanoRange t \<and> t_off t = 0"
  proof -
    have "set ?m \<subseteq> insert (UnixNano (bar_TS b), bar_TS b) (set m)" by (induction m) (auto simp: mapSet_def)
    then show ?thesis using Cons.prems(1,3) by auto
  qed
  have same: "t = bar_TS b" if "(UnixNano (bar_TS b), t) \<in> set m" for t
  proof -
    have "UnixNano t = UnixNano (bar_TS b)" "inNanoRange t" "t_off t = 0" using Cons.prems(3) that by auto
    then have "t_ns t = t_ns (bar_TS b)" "t_off t = t_off (bar_TS b)"
      using Cons.prems(1) sint_UnixNano [of t] sint_UnixNano [of "bar_TS b"] by auto
    then show ?thesis by simp
  qed
  have "snd ` set ?m = insert (bar_TS b) (snd ` set m)"
    using same Cons.prems(2)
  proof (induction m)
    case (Cons e m)
    obtain k t where e: "e = (k, t)" by (cases e)
    have "mapWf m" using Cons.prems(2) by (simp add: mapWf_def mapKeys_def)
    then show ?case using Cons e by (cases "k = UnixNano (bar_TS b)") (auto simp: mapSet_def)
  qed (simp add: mapSet_def)
  then show ?case using Cons.IH [of ?m] Cons.prems ok by auto
qed simp

lemma distinct_keys_ns:
  assumes "mapWf m" "\<forall>(k, t) \<in> set m. k = UnixNano t \<and> inNanoRange t \<and> t_off t = 0"
  shows "distinct (map t_ns (map snd m))"
proof -
  have "map fst m = map i64 (map t_ns (map snd m))" using assms(2) by (auto simp: UnixNano_def)
  moreover have "distinct (map fst m)" using assms(1) by (simp only: mapWf_def mapKeys_def)
  ultimately show ?thesis by (simp only: distinct_map)
qed

lemma sampleTimes_spec:
  assumes "\<forall>b \<in> set bars. inNanoRange (bar_TS b) \<and> t_off (bar_TS b) = 0"
  shows "set (sampleTimes bars) = bar_TS ` set bars" "sorted_wrt (\<lambda>s t. t_ns s < t_ns t) (sampleTimes bars)"
proof -
  let ?m = "fold (\<lambda>b m. mapSet (UnixNano (bar_TS b)) (bar_TS b) m) bars []"
  have m: "mapWf ?m" "\<forall>(k, t) \<in> set ?m. k = UnixNano t \<and> inNanoRange t \<and> t_off t = 0" "snd ` set ?m = bar_TS ` set bars"
    using sampleTimes_map [OF assms, of "[]"] by simp_all
  show "set (sampleTimes bars) = bar_TS ` set bars" using m(3) by (simp add: sampleTimes_def)
  have "sorted_wrt (<) (map t_ns (sampleTimes bars))"
    unfolding sampleTimes_def by (rule sort_key_strict, rule distinct_keys_ns [OF m(1,2)])
  then show "sorted_wrt (\<lambda>s t. t_ns s < t_ns t) (sampleTimes bars)" by (simp only: sorted_wrt_map)
qed

lemma seed_ok:
  assumes "seed instruments (l, en) = ((l', en'), Inr ())"
  defines "bars \<equiv> concat (map ib_Bars instruments)"
  shows "l' = l\<lparr>lp_queue := fold qPut (seededEvents bars) (lp_queue l)\<rparr>" "\<forall>b \<in> set bars. t_off (bar_TS b) = 0"
    and "en_acct en' = en_acct en" "en_fills en' = en_fills en" "en_strategies en' = en_strategies en"
    and "en_totalBars en' = en_totalBars en + length bars"
proof -
  obtain l1 tsSet n where b: "seedBars bars [] l (en_totalBars en) = (l1, tsSet, n, Inr ())"
    using assms(1) by (auto simp: seed_def bars_def split: prod.splits sum.splits)
  note B = seedBars_ok [OF b]
  have t: "sort_key t_ns (map snd tsSet) = sampleTimes bars" using B by (simp add: sampleTimes_def)
  obtain l2 where s: "seedSamples (sampleTimes bars) l1 = (l2, Inr ())"
    using assms(1) b t by (auto simp: seed_def bars_def Let_def split: prod.splits sum.splits)
  have "l' = l2" and en': "en' = (if sampleTimes bars \<noteq> [] then en\<lparr>en_totalBars := n, en_firstTS := hd (sampleTimes bars),
      en_lastTS := last (sampleTimes bars)\<rparr> else en\<lparr>en_totalBars := n\<rparr>)"
    using assms(1) b t s by (auto simp: seed_def bars_def Let_def split: if_splits)
  then show "l' = l\<lparr>lp_queue := fold qPut (seededEvents bars) (lp_queue l)\<rparr>" "\<forall>b \<in> set bars. t_off (bar_TS b) = 0"
    using B seedSamples_ok [OF s] by (simp_all add: seededEvents_def)
  show "en_acct en' = en_acct en" "en_fills en' = en_fills en" "en_strategies en' = en_strategies en"
    "en_totalBars en' = en_totalBars en + length bars" using en' B by simp_all
qed

lemma seeded_loop:
  assumes "\<forall>b \<in> set bars. inNanoRange (bar_TS b) \<and> t_off (bar_TS b) = 0" "int (length (seededEvents bars)) < 2 ^ 64"
  defines "l \<equiv> NewLoop\<lparr>lp_queue := fold qPut (seededEvents bars) newEventQueue\<rparr>"
  shows "loopInv (- (2 ^ 63), 0) l" "sWf (lp_queue l)" "map ev (qPending (lp_queue l)) = sort_key evKey (seededEvents bars)"
    and "length (heap (lp_queue l)) = length (seededEvents bars)"
proof -
  let ?es = "seededEvents bars"
  have rng: "inNanoRange (TsEvent e) \<and> t_off (TsEvent e) = 0" if "e \<in> set ?es" for e
    using that assms(1) sampleTimes_spec(1) [OF assms(1)] by (auto simp: seededEvents_def)
  have P: "map ev (qPending (fold qPut ?es newEventQueue)) = sort_key evKey ?es" "sWf (fold qPut ?es newEventQueue)"
    using pending_batch [OF assms(2)] rng by blast+
  then show "sWf (lp_queue l)" "map ev (qPending (lp_queue l)) = sort_key evKey ?es" by (simp_all add: l_def)
  have "mset (map ev (heap (lp_queue l))) = mset ?es"
    using P(1) pending_mset [of "lp_queue l"] by (metis l_def Loop.select_convs(2) Loop.surjective Loop.update_convs(2) mset_map mset_sort)
  then have ev: "set (map ev (heap (lp_queue l))) = set ?es" and len: "length (map ev (heap (lp_queue l))) = length ?es"
    by (rule mset_eq_setD, rule mset_eq_length)
  show "length (heap (lp_queue l)) = length ?es" using len by simp
  have "evOk (- (2 ^ 63), 0) e" if "e \<in> set ?es" for e
    using rng [OF that] by (auto simp: evOk_def evKey_def less_eq_prod_def inNanoRange_def fits64_def)
  then have "\<forall>x \<in> set (heap (lp_queue l)). evOk (- (2 ^ 63), 0) (ev x)" using ev by auto
  moreover have "hWf (lp_queue l)" using P(2) by (simp add: l_def sWf_def)
  ultimately show "loopInv (- (2 ^ 63), 0) l" by (simp add: loopInv_def l_def NewLoop_def IsZero_def)
qed

text \<open>Whatever the strategies do, the events dispatched are a prefix of the stable sort of the seeded
  ones, all of them when the run drains, and one step of fuel per event and one to notice the empty
  queue are enough.\<close>

lemma seeded_run:
  fixes w :: "('s, 'f) Engine"
  assumes "\<forall>b \<in> set bars. inNanoRange (bar_TS b) \<and> t_off (bar_TS b) = 0" "int (length (seededEvents bars)) < 2 ^ 64"
  defines "l \<equiv> NewLoop\<lparr>lp_queue := fold qPut (seededEvents bars) newEventQueue\<rparr>"
  shows "Run k cancel (engineHandlers c) l w = Some (l', w', tr, r) \<Longrightarrow>
      \<exists>rest. sort_key evKey (seededEvents bars) = tr @ rest \<and> (r = Drained \<longrightarrow> rest = [])"
    and "length (seededEvents bars) < k \<Longrightarrow> Run k cancel (engineHandlers c) l w \<noteq> None"
proof -
  note S = seeded_loop [OF assms(1,2), folded l_def]
  show "Run k cancel (engineHandlers c) l w = Some (l', w', tr, r) \<Longrightarrow>
      \<exists>rest. sort_key evKey (seededEvents bars) = tr @ rest \<and> (r = Drained \<longrightarrow> rest = [])"
    unfolding Run_def S(3) [symmetric] by (rule engine_quiet.quiet_run [OF S(1,2)])
  show "length (seededEvents bars) < k \<Longrightarrow> Run k cancel (engineHandlers c) l w \<noteq> None"
    unfolding Run_def using engine_quiet.quiet_fuel [OF S(1,2)] S(4) by simp
qed

section \<open>The symbol index\<close>

text \<open>The index a bar is routed by lists exactly the strategies that trade its symbol, in registration
  order: what a scan over all strategies would find.\<close>

definition interested :: "string \<Rightarrow> 's Strategy \<Rightarrow> bool" where
  "interested sy st \<longleftrightarrow> (case st_SymbolsScoped st of None \<Rightarrow> True | Some sys \<Rightarrow> sy \<in> set sys)"

definition scan :: "('s Strategy \<Rightarrow> bool) \<Rightarrow> nat \<Rightarrow> 's Strategy list \<Rightarrow> nat list" where
  "scan P i sts = map fst (filter (P \<circ> snd) (enumerate i sts))"

definition broadcasts :: "'s Strategy \<Rightarrow> bool" where
  "broadcasts st \<longleftrightarrow> st_SymbolsScoped st = None"

lemma scan_simps [simp]:
  "scan P i [] = []" "scan P i (st # sts) = (if P st then i # scan P (Suc i) sts else scan P (Suc i) sts)"
  by (simp_all add: scan_def)

lemma scan_ge: "\<forall>j \<in> set (scan P i sts). i \<le> j"
proof (induction sts arbitrary: i)
  case (Cons st sts)
  show ?case using Cons.IH [of "Suc i"] by (auto dest: Suc_leD)
qed simp

lemma scopeLoop_get:
  "mapGet (scopeLoop i sys seen scoped) sy =
     (if sy \<in> set sys \<and> mapGet seen sy = None then Some (listAt scoped sy @ [i]) else mapGet scoped sy)"
  by (induction i sys seen scoped rule: scopeLoop.induct) (auto simp: listAt_def)

lemma indexLoop_spec:
  "indexLoop i sts broadcast scoped = (b, s) \<Longrightarrow>
     b = broadcast @ scan broadcasts i sts \<and>
     listAt s sy = listAt scoped sy @ scan (\<lambda>st. \<not> broadcasts st \<and> interested sy st) i sts"
proof (induction i sts broadcast scoped rule: indexLoop.induct)
  case (2 i st sts broadcast scoped)
  then show ?case
    by (cases "st_SymbolsScoped st")
       (auto simp: broadcasts_def interested_def scopeLoop_get listAt_def)
qed simp

fun merge :: "nat list \<Rightarrow> nat list \<Rightarrow> nat list" where
  "merge [] b = b"
| "merge (x # a) [] = x # a"
| "merge (x # a) (y # b) = (if x < y then x # merge a (y # b) else y # merge (x # a) b)"

lemma mergeLoop_merge: "mergeLoop a b out = out @ merge a b"
  by (induction a b out rule: mergeLoop.induct) auto

lemma merge_low: "\<forall>j \<in> set b. x < j \<Longrightarrow> merge (x # a) b = x # merge a b"
  by (cases a; cases b) auto

lemma merge_low': "\<forall>j \<in> set a. y < j \<Longrightarrow> merge a (y # b) = y # merge a b"
  by (cases a) auto

lemma merge_scan:
  assumes "\<And>st. \<not> (P st \<and> Q st)"
  shows "merge (scan P i sts) (scan Q i sts) = scan (\<lambda>st. P st \<or> Q st) i sts"
proof (induction sts arbitrary: i)
  case (Cons st sts)
  have low: "\<forall>j \<in> set (scan R (Suc i) sts). i < j" for R using scan_ge [of R "Suc i" sts] by auto
  have "\<not> (P st \<and> Q st)" by (rule assms)
  then show ?case using Cons low merge_low merge_low' by auto
qed simp

lemma merge_order:
  "mergeRegistrationOrder (scan broadcasts 0 sts) (scan (\<lambda>st. \<not> broadcasts st \<and> interested sy st) 0 sts) =
     scan (interested sy) 0 sts"
proof -
  have all: "(\<lambda>st. broadcasts st \<or> \<not> broadcasts st \<and> interested sy st) = interested sy"
    by (auto simp: fun_eq_iff broadcasts_def interested_def)
  have "mergeRegistrationOrder a b = merge a b" for a b
    by (cases a) (simp_all add: mergeRegistrationOrder_def mergeLoop_merge)
  then show ?thesis using merge_scan [of broadcasts "\<lambda>st. \<not> broadcasts st \<and> interested sy st" 0 sts] by (simp only: all) blast
qed

lemma dispatchLoop_get:
  "mapGet (dispatchLoop broadcast scoped sys out) sy =
     (if mapGet out sy \<noteq> None then mapGet out sy
      else if sy \<in> set sys then Some (mergeRegistrationOrder broadcast (listAt scoped sy)) else None)"
  by (induction broadcast scoped sys out rule: dispatchLoop.induct) auto

lemma strategiesFor_scan:
  assumes "sy \<in> set (en_registration en)"
  shows "strategiesFor (buildDispatch en) sy = scan (interested sy) 0 (en_strategies en)"
proof -
  obtain b s where i: "indexLoop 0 (en_strategies en) [] [] = (b, s)" by (cases "indexLoop 0 (en_strategies en) [] []")
  have "b = scan broadcasts 0 (en_strategies en)" "listAt s sy = scan (\<lambda>st. \<not> broadcasts st \<and> interested sy st) 0 (en_strategies en)"
    using indexLoop_spec [OF i, of sy] by (simp_all add: listAt_def)
  then show ?thesis using assms i merge_order by (simp add: strategiesFor_def buildDispatch_def dispatchLoop_get)
qed

lemma strategiesFor_unregistered:
  assumes "sy \<notin> set (en_registration en)"
  shows "strategiesFor (buildDispatch en) sy = scan broadcasts 0 (en_strategies en)"
proof -
  obtain b s where i: "indexLoop 0 (en_strategies en) [] [] = (b, s)" by (cases "indexLoop 0 (en_strategies en) [] []")
  then show ?thesis
    using indexLoop_spec [OF i] assms by (simp add: strategiesFor_def buildDispatch_def dispatchLoop_get)
qed

section \<open>Properties\<close>

lemma scan_filter: "scan P i sts = filter (\<lambda>j. P (sts ! (j - i))) [i..<i + length sts]"
proof (induction sts arbitrary: i)
  case (Cons st sts)
  have "filter (\<lambda>j. P ((st # sts) ! (j - i))) [Suc i..<i + Suc (length sts)] = filter (\<lambda>j. P (sts ! (j - Suc i))) [Suc i..<Suc i + length sts]"
    by (rule filter_cong) (auto simp: nth_Cons' Suc_diff_le)
  moreover have "[i..<i + Suc (length sts)] = i # [Suc i..<i + Suc (length sts)]" by (rule upt_conv_Cons) simp
  ultimately show ?case using Cons.IH [of "Suc i"] by simp
qed simp

text \<open>The symbol index routes a bar as a scan of all strategies would: for a registered symbol it lists, in
  registration order and each once, the strategies that trade the symbol or every symbol; for any other
  symbol, those that trade every symbol.\<close>

theorem index_is_full_scan:
  "strategiesFor (buildDispatch en) sy =
     filter (\<lambda>i. if sy \<in> set (en_registration en) then interested sy (en_strategies en ! i) else broadcasts (en_strategies en ! i))
       [0..<length (en_strategies en)]"
  using strategiesFor_scan [of sy en] strategiesFor_unregistered [of sy en]
  by (cases "sy \<in> set (en_registration en)") (simp_all add: scan_filter)


text \<open>A small configuration: two symbols, one scripted strategy.  Its instants are near the epoch because the
  identifiers of fills spell them out.\<close>

definition demoBar :: "string \<Rightarrow> int \<Rightarrow> int \<Rightarrow> Bar" where
  "demoBar sy t px = \<lparr>bar_Symbol = sy, bar_TS = \<lparr>t_ns = t, t_off = 0\<rparr>, bar_Open = of_int px, bar_High = of_int px,
     bar_Low = of_int px, bar_Close = of_int px, bar_Volume = 1000\<rparr>"

definition demoInstruments :: "InstrumentBars list" where
  "demoInstruments = [\<lparr>ib_Symbol = ''AB'', ib_Bars = [demoBar ''AB'' (- 3) 1000003, demoBar ''AB'' 2 1010007]\<rparr>,
      \<lparr>ib_Symbol = ''CD'', ib_Bars = [demoBar ''CD'' (- 3) 500000]\<rparr>]"

definition demoFeed :: "string list \<Rightarrow> InstrumentBars list result" where
  "demoFeed ts = Inr (SliceFeed_Load demoInstruments ts)"

definition demoConfig :: "(unit, int) Config" where
  "demoConfig = \<lparr>cf_Tickers = [''AB'', ''CD''], cf_Start = mkDate 1970 1 1, cf_End = mkDate 1970 1 2,
     cf_StartingBalance = 1000000000, cf_Profile = ProfileCloseFill,
     cf_Realistic = \<lparr>rm_slip = None, rm_CommissionPerShare = 0, rm_bps = None\<rparr>,
     cf_Strategies = [\<lparr>sp_ID = ''s'', sp_Intents =
       [\<lparr>in_Date = \<lparr>t_ns = - 3, t_off = 0\<rparr>, in_Ticker = ''AB'', in_Side = SideLong, in_Qty = 3\<rparr>]\<rparr>],
     cf_PrebuiltStrategies = [], cf_Gate = None, cf_Context = None, cf_SPYSymbol = [], cf_Warmup = None\<rparr>"

definition demoWiring :: "int Wiring" where
  "demoWiring = \<lparr>wi_model = CloseFillModel, wi_gate = Some demoGate, wi_spySym = ''SPY'', wi_float = intOps\<rparr>"

definition demoWorld :: "(unit, int) world" where
  "demoWorld = (NewLoop, observe demoWiring (demoBar ''AB'' 1 1000000) (engine0 demoConfig [] demoInstruments))"


end
