(* ===== verification/Engine_Replay.thy ===== *)
theory Engine_Replay
  imports Engine_Props
begin

text \<open>
  The books of a batch run.  Every successful operation of the engine replays: the account changes by
  settling exactly the fills the recorder appends, in their order.  Hence positions are the net of the
  recorded fills, the account's book moves by the cash the fills moved, a filled order moves its own
  position by its quantity, the end-of-run liquidation flattens every symbol that had a bar, and the
  profit reported by a finished run is the cash flow of its fills up to half a cent per fill.
\<close>

section \<open>The account is the replay of its fills\<close>

text \<open>What a run may do to an account: observe prices, record states, settle fills.\<close>

inductive settled :: "Account \<Rightarrow> Fill list \<Rightarrow> Account \<Rightarrow> bool" where
  settled_refl: "settled a [] a"
| settled_price: "settled a fs b \<Longrightarrow> settled a fs (ObserveBar b bar)"
| settled_state: "settled a fs b \<Longrightarrow> settled a fs (b\<lparr>acc_bus := bus\<rparr>)"
| settled_fill: "settled a fs b \<Longrightarrow> Account_ApplyFill b f = (b', Inr out) \<Longrightarrow> settled a (fs @ [f]) b'"

lemma settled_trans: "settled b gs c \<Longrightarrow> settled a fs b \<Longrightarrow> settled a (fs @ gs) c"
  by (induction rule: settled.induct) (auto intro: settled.intros simp flip: append_assoc)

definition heldQty :: "Account \<Rightarrow> StrategySymbol \<Rightarrow> int" where
  "heldQty a key = sint (signedQty (posOf a key))"

definition netFills :: "StrategySymbol \<Rightarrow> Fill list \<Rightarrow> int" where
  "netFills key fs = (\<Sum>f\<leftarrow>filter (\<lambda>f. fillKey f = key) fs. signedFill f)"

lemma netFills_simps [simp]: "netFills key [] = 0" "netFills key (fs @ gs) = netFills key fs + netFills key gs"
    "netFills key (f # fs) = (if fillKey f = key then signedFill f else 0) + netFills key fs"
  by (simp_all add: netFills_def)

lemma heldQty_fill:
  assumes "Account_ApplyFill a f = (a', Inr out)"
  shows "heldQty a' key = heldQty a key + (if fillKey f = key then signedFill f else 0)"
proof -
  obtain snap r where o: "out = (snap, r)" by (cases out)
  obtain p where ap: "ApplyFill (posOf a (fillKey f)) f = (p, Inr r)"
    and a': "positions a' = mapSet (fillKey f) p (positions a)"
    by (rule Account_ApplyFill_ok [OF assms [unfolded o]]) (auto simp: fillKey_def intro: that)
  show ?thesis using ApplyFill_qty [OF ap] by (auto simp: heldQty_def posOf_def a')
qed

lemma settled_held: "settled a fs b \<Longrightarrow> heldQty b key = heldQty a key + netFills key fs"
proof (induction rule: settled.induct)
  case (settled_fill a fs b f b' out)
  then show ?case using heldQty_fill [OF settled_fill.hyps(2), of key] by simp
qed (simp_all add: heldQty_def posOf_def ObserveBar_def)

lemma turnover_append: "turnover (fs @ gs) = turnover fs + turnover gs"
  by (simp add: turnover_def)

lemma settled_conserves:
  "settled a fs b \<Longrightarrow> accWf a \<Longrightarrow> grossQty a + turnover fs < 2 ^ 63 \<Longrightarrow>
   accWf b \<and> startingBalance b = startingBalance a \<and> grossQty b \<le> grossQty a + turnover fs \<and>
   \<bar>acctBook b - (acctBook a + cashFlow fs)\<bar> \<le> 50 * int (length fs)"
proof (induction rule: settled.induct)
  case (settled_fill a fs b f b' out)
  obtain snap r where o: "out = (snap, r)" by (cases out)
  have t: "turnover (fs @ [f]) = turnover fs + \<bar>sint (fill_Qty f)\<bar>" by (simp add: turnover_def)
  have IH: "accWf b" "startingBalance b = startingBalance a" "grossQty b \<le> grossQty a + turnover fs"
    "\<bar>acctBook b - (acctBook a + cashFlow fs)\<bar> \<le> 50 * int (length fs)"
    using settled_fill.IH settled_fill.prems unfolding t by auto
  have rng: "grossQty b + sint (fill_Qty f) < 2 ^ 63" using IH(3) settled_fill.prems(2) unfolding t by linarith
  note S = Account_step [OF settled_fill.hyps(2) [unfolded o] IH(1) rng]
  show ?case using S IH unfolding t by (simp add: cashFlow_def)
qed (auto simp: cashFlow_def turnover_def grossQty_def acctBook_def accWf_def ObserveBar_def)

subsection \<open>Every successful operation of the engine replays\<close>

definition replays :: "('s, 'f) world \<Rightarrow> ('s, 'f) world \<Rightarrow> bool" where
  "replays w w' \<longleftrightarrow> (\<exists>fs. en_fills (snd w') = en_fills (snd w) @ fs \<and> settled (en_acct (snd w)) fs (en_acct (snd w')))"

lemma replays_same: "en_fills (snd w') = en_fills (snd w) \<Longrightarrow> en_acct (snd w') = en_acct (snd w) \<Longrightarrow> replays w w'"
  by (auto simp: replays_def intro: settled_refl)

lemma replays_trans [trans]: "replays u v \<Longrightarrow> replays v w \<Longrightarrow> replays u w"
  unfolding replays_def using settled_trans by fastforce

lemma replays_cong:
  "en_fills (snd w') = en_fills (snd v') \<Longrightarrow> en_acct (snd w') = en_acct (snd v') \<Longrightarrow> replays w w' = replays w v'"
  by (simp add: replays_def)

lemma EmitFill_replays: "EmitFill f w = (w', Inr ()) \<Longrightarrow> replays w w'"
  using settled_fill [OF settled_refl]
  by (cases w) (fastforce simp: EmitFill_def replays_def split: prod.splits sum.splits)

interpretation replay: exec_frame replays "\<lambda>r. r = Inr ()" engineSeq EmitFill
proof
  fix u v w w' :: "('s, 'f) world" and s f r
  show "replays w w" by (simp add: replays_same)
  show "replays u v \<Longrightarrow> replays v w \<Longrightarrow> replays u w" by (rule replays_trans)
  show "engineSeq w = (s, w') \<Longrightarrow> replays w w'"
    by (cases w) (auto simp: engineSeq_def Let_def split: prod.splits intro!: replays_same)
  show "EmitFill f w = (w', r) \<Longrightarrow> r = Inr () \<Longrightarrow> replays w w'" by (simp add: EmitFill_replays)
qed simp

lemma NewClientOrderID_engine: "NewClientOrderID engineSeq w = (coid, w1) \<Longrightarrow> snd w1 = snd w"
  by (cases w) (auto simp: NewClientOrderID_def engineSeq_def Let_def split: prod.splits)

text \<open>Nothing the submitter offers a strategy touches the account or the fills.\<close>

lemma SubmitMarket_books:
  assumes "SubmitMarket c sid sy side qty reason ts w = (w', r)"
  shows "en_acct (snd w') = en_acct (snd w) \<and> en_fills (snd w') = en_fills (snd w)"
proof -
  obtain coid w1 where n: "NewClientOrderID engineSeq w = (coid, w1)" by (cases "NewClientOrderID engineSeq w")
  show ?thesis
    using assms NewClientOrderID_engine [OF n]
    by (cases w1) (auto simp: SubmitMarket_def n Let_def split: prod.splits sum.splits)
qed

lemma replays_frame:
  "replays w (l, en) \<Longrightarrow> en_fills en' = en_fills en \<Longrightarrow> en_acct en' = en_acct en \<Longrightarrow> replays w (l', en')"
  by (simp add: replays_def)

lemma observe_acct: "en_acct (observe c bar en) = ObserveBar (en_acct en) bar" "en_fills (observe c bar en) = en_fills en"
  by (simp_all add: observe_def Let_def split: option.splits prod.splits)

interpretation engine_replay: engine_frame replays "\<lambda>r. r = Inr ()" c for c :: "'f Wiring"
proof
  fix w :: "('s, 'f) world" and l en
  show "replays w (l, en) \<Longrightarrow> replays w (l, en\<lparr>en_strategies := sts\<rparr>)" for sts by (rule replays_frame) simp_all
  show "replays w (l, en) \<Longrightarrow> replays w (l, en\<lparr>en_exec := ex\<rparr>)" for ex by (rule replays_frame) simp_all
  show "replays w (l, en) \<Longrightarrow> replays w (l, observe c bar en)" for bar
    by (auto simp: replays_def observe_acct intro: settled_price)
  show "replays w (l, en) \<Longrightarrow> replays w (l, en\<lparr>en_barsProcessed := n\<rparr>)" for n by (rule replays_frame) simp_all
  show "replays w (l, en) \<Longrightarrow> replays w (l, en\<lparr>en_smplr := sm, en_sampledDays := n\<rparr>)" for sm n by (rule replays_frame) simp_all
  show "replays w (RecordRejection rj w)" for rj by (cases w) (simp add: RecordRejection_def replays_same)
qed (auto dest: SubmitMarket_books intro: replays_same)

text \<open>A run that drains had every handler succeed.\<close>

lemma run_replays:
  fixes en :: "('s, 'f) Engine"
  shows "runLoop k cancel n (engineHandlers c) l en = Some (l', en', tr, Drained) \<Longrightarrow> replays (l, en) (l', en')"
proof (induction k arbitrary: n l en l' en' tr)
  case (Suc k)
  show ?case
  proof (cases "pop (lp_queue l)")
    case None
    then show ?thesis using Suc.prems by (auto split: if_splits intro!: replays_same)
  next
    case (Some eq)
    obtain e q where p: "pop (lp_queue l) = Some (e, q)" using Some by (cases eq) simp
    obtain h :: "('s, 'f) Engine handler" where h: "mapGet (engineHandlers c) (Kind e) = Some h"
      using engine_loop.complete by blast
    obtain now where a: "Advance (lp_clock l) (TsEvent e) = Inr now"
      using Suc.prems p by (auto simp: Let_def split: if_splits sum.splits)
    obtain l3 en3 r3 where st: "h e (l\<lparr>lp_queue := q, lp_clock := now\<rparr>) en = (l3, en3, r3)" by (metis prod_cases3)
    have "r3 = Inr ()" and rest: "\<exists>tr'. runLoop k cancel (Suc n) (engineHandlers c) l3 en3 = Some (l', en', tr', Drained)"
      using Suc.prems p h a st by (cases r3; auto simp: Let_def split: if_splits)+
    then have "replays (l\<lparr>lp_queue := q, lp_clock := now\<rparr>, en) (l3, en3)" using engine_replay.handlers_R [OF h st] by simp
    then have "replays (l, en) (l3, en3)" by (simp add: replays_def)
    then show ?thesis using Suc.IH rest replays_trans by blast
  qed
qed simp

section \<open>Liquidation\<close>

lemma emitAll_replays:
  assumes "emitAll EmitFill fs w = Some w'"
  shows "en_fills (snd w') = en_fills (snd w) @ fs \<and> settled (en_acct (snd w)) fs (en_acct (snd w')) \<and>
    en_lastBar (snd w') = en_lastBar (snd w)"
  using assms
proof (induction fs arbitrary: w)
  case Nil
  then show ?case by (simp add: settled_refl)
next
  case (Cons f fs)
  obtain w1 where e: "EmitFill f w = (w1, Inr ())" and rest: "emitAll EmitFill fs w1 = Some w'"
    using Cons.prems by (auto split: prod.splits sum.splits)
  have "en_fills (snd w1) = en_fills (snd w) @ [f]" "settled (en_acct (snd w)) [f] (en_acct (snd w1))"
    "en_lastBar (snd w1) = en_lastBar (snd w)"
    using e settled_fill [OF settled_refl, of "en_acct (snd w)" f]
    by (cases w; auto simp: EmitFill_def split: prod.splits sum.splits)+
  then show ?case using Cons.IH [OF rest] settled_trans by fastforce
qed

lemma netFills_order:
  "list_all (fillOf order bar) fs \<Longrightarrow>
   netFills key fs = (if key = (ord_StrategyID order, ord_Symbol order)
     then (if ord_Side order = OrderSideBuy then fillsTotal fs else - fillsTotal fs) else 0)"
  by (induction fs) (auto simp: fillsTotal_def fillOf_def fillKey_def signedFill_def)

context fill_model
begin

text \<open>A filled order moves its own position by exactly its signed quantity and no other position.\<close>

lemma execFill_held:
  assumes "execFill m engineSeq EmitFill order bar w = (w', Inr ())"
  shows "heldQty (en_acct (snd w')) key = heldQty (en_acct (snd w)) key +
      (if key = (ord_StrategyID order, ord_Symbol order)
       then (if ord_Side order = OrderSideBuy then sint (ord_Qty order) else - sint (ord_Qty order)) else 0)"
    and "en_lastBar (snd w') = en_lastBar (snd w)"
proof -
  obtain legs s w1 fs where nx: "engineSeq w = (s, w1)" and em: "emitAll EmitFill fs w1 = Some w'"
    and fo: "list_all (fillOf order bar) fs" "fillsTotal fs = sint (ord_Qty order)"
    by (rule execFill_complete [OF assms])
  have w1: "snd w1 = snd w" using nx by (cases w) (auto simp: engineSeq_def Let_def split: prod.splits)
  note E = emitAll_replays [OF em, unfolded w1]
  show "en_lastBar (snd w') = en_lastBar (snd w)" using E by simp
  show "heldQty (en_acct (snd w')) key = heldQty (en_acct (snd w)) key +
      (if key = (ord_StrategyID order, ord_Symbol order)
       then (if ord_Side order = OrderSideBuy then sint (ord_Qty order) else - sint (ord_Qty order)) else 0)"
    unfolding settled_held [of _ fs _ key, OF conjunct1 [OF conjunct2 [OF E]]] netFills_order [OF fo(1)] fo(2) ..
qed

end

definition snapKey :: "PositionSnap \<Rightarrow> StrategySymbol" where
  "snapKey pos = (pos_StrategyID pos, pos_Symbol pos)"

lemma CloseSideFor_None: "CloseSideFor q = None \<Longrightarrow> sint q = 0"
  by (simp add: CloseSideFor_def split: if_splits)

lemma close_order:
  assumes "CloseSideFor q = Some side" "Qty_Abs q = Inr n"
  shows "(if side = OrderSideBuy then sint n else - sint n) = - sint q"
  using assms by (auto simp: CloseSideFor_flattens money_ok)

lemma liquidateLoop_replays: "liquidateLoop c ps w = (w', Inr ()) \<Longrightarrow> replays w w'"
proof (induction ps arbitrary: w)
  case (Cons pos ps)
  show ?case
  proof (cases "CloseSideFor (pos_SignedQty pos) = None \<or> mapGet (en_lastBar (snd w)) (pos_Symbol pos) = None")
    case True
    then show ?thesis using Cons by (auto split: option.splits sum.splits)
  next
    case False
    then obtain side bar where s: "CloseSideFor (pos_SignedQty pos) = Some side"
      and bar: "mapGet (en_lastBar (snd w)) (pos_Symbol pos) = Some bar" by auto
    obtain qty where q: "Qty_Abs (pos_SignedQty pos) = Inr qty" using Cons.prems s by (auto split: sum.splits)
    obtain coid l en where n: "NewClientOrderID engineSeq w = (coid, (l, en))" by (metis surj_pair)
    let ?od = "NewMarketOrder coid (pos_StrategyID pos) (pos_Symbol pos) side qty ''end-of-run liquidation'' (bar_TS bar)"
    let ?w1 = "(l, en\<lparr>en_orders := en_orders en @ [?od]\<rparr>)"
    obtain w2 where f: "FillAtBar (wi_model c) engineSeq EmitFill ?od bar ?w1 = (w2, Inr ())"
      and rest: "liquidateLoop c ps w2 = (w', Inr ())"
      using Cons.prems s q bar n by (auto simp: Let_def split: prod.splits sum.splits)
    have "replays w ?w1" using NewClientOrderID_engine [OF n] by (simp add: replays_same)
    also have "replays ?w1 w2" using replay.FillAtBar_R [OF f] by simp
    also have "replays w2 w'" by (rule Cons.IH [OF rest])
    finally show ?thesis .
  qed
qed (simp add: replays_same)

lemma liquidateLoop_flat:
  fixes w :: "('s, 'f) world"
  assumes m: "fill_model (wi_model c)"
    and "liquidateLoop c ps w = (w', Inr ())" "distinct (map snapKey ps)"
    and "\<forall>pos \<in> set ps. heldQty (en_acct (snd w)) (snapKey pos) = sint (pos_SignedQty pos)"
  shows "en_lastBar (snd w') = en_lastBar (snd w) \<and>
    (\<forall>key. key \<notin> snapKey ` set ps \<longrightarrow> heldQty (en_acct (snd w')) key = heldQty (en_acct (snd w)) key) \<and>
    (\<forall>pos \<in> set ps. mapGet (en_lastBar (snd w)) (pos_Symbol pos) \<noteq> None \<longrightarrow> heldQty (en_acct (snd w')) (snapKey pos) = 0)"
  using assms(2-)
proof (induction ps arbitrary: w)
  case Nil
  then show ?case by simp
next
  case (Cons pos ps)
  show ?case
  proof (cases "CloseSideFor (pos_SignedQty pos) = None \<or> mapGet (en_lastBar (snd w)) (pos_Symbol pos) = None")
    case True
    then have rest: "liquidateLoop c ps w = (w', Inr ())"
      using Cons.prems(1) by (auto split: option.splits sum.splits)
    have z: "CloseSideFor (pos_SignedQty pos) = None \<Longrightarrow> heldQty (en_acct (snd w)) (snapKey pos) = 0"
      using Cons.prems(3) CloseSideFor_None by auto
    have "snapKey pos \<notin> snapKey ` set ps" using Cons.prems(2) by auto
    moreover have "en_lastBar (snd w') = en_lastBar (snd w)"
      "\<And>key. key \<notin> snapKey ` set ps \<Longrightarrow> heldQty (en_acct (snd w')) key = heldQty (en_acct (snd w)) key"
      "\<And>p. p \<in> set ps \<Longrightarrow> mapGet (en_lastBar (snd w)) (pos_Symbol p) \<noteq> None \<Longrightarrow> heldQty (en_acct (snd w')) (snapKey p) = 0"
      using Cons.IH [OF rest] Cons.prems(2,3) by auto
    ultimately show ?thesis using z True by auto
  next
    case False
    then obtain side bar where s: "CloseSideFor (pos_SignedQty pos) = Some side"
      and bar: "mapGet (en_lastBar (snd w)) (pos_Symbol pos) = Some bar" by auto
    obtain qty where q: "Qty_Abs (pos_SignedQty pos) = Inr qty" using Cons.prems(1) s by (auto split: sum.splits)
    obtain coid l en where n: "NewClientOrderID engineSeq w = (coid, (l, en))" by (metis surj_pair)
    have en: "en = snd w" using NewClientOrderID_engine [OF n] by simp
    define od where "od = NewMarketOrder coid (pos_StrategyID pos) (pos_Symbol pos) side qty ''end-of-run liquidation'' (bar_TS bar)"
    let ?w1 = "(l, en\<lparr>en_orders := en_orders en @ [od]\<rparr>)"
    obtain w2 where f: "FillAtBar (wi_model c) engineSeq EmitFill od bar ?w1 = (w2, Inr ())"
      and rest: "liquidateLoop c ps w2 = (w', Inr ())"
      using Cons.prems(1) s q bar n by (auto simp: od_def Let_def split: prod.splits sum.splits)
    have "execFill (wi_model c) engineSeq EmitFill od bar ?w1 = (w2, Inr ())"
      using f by (auto simp: FillAtBar_def split: sum.splits if_splits)
    note X = fill_model.execFill_held [OF m this]
    have od: "(ord_StrategyID od, ord_Symbol od) = snapKey pos" "ord_Side od = side" "ord_Qty od = qty"
      by (simp_all add: od_def NewMarketOrder_def snapKey_def)
    have held: "heldQty (en_acct (snd w2)) key = heldQty (en_acct (snd w)) key + (if key = snapKey pos then - sint (pos_SignedQty pos) else 0)" for key
      using X(1) [of key] unfolding od close_order [OF s q] by (simp add: en)
    have lb: "en_lastBar (snd w2) = en_lastBar (snd w)" using X(2) by (simp add: en)
    have "snapKey pos \<notin> snapKey ` set ps" using Cons.prems(2) by auto
    then have "snapKey p \<noteq> snapKey pos" if "p \<in> set ps" for p using that by (metis imageI)
    then have h2: "\<forall>p \<in> set ps. heldQty (en_acct (snd w2)) (snapKey p) = sint (pos_SignedQty p)"
      using Cons.prems(3) by (simp add: held)
    have "distinct (map snapKey ps)" using Cons.prems(2) by simp
    note I = Cons.IH [OF rest this h2]
    have IH: "en_lastBar (snd w') = en_lastBar (snd w2)"
      "\<And>key. key \<notin> snapKey ` set ps \<Longrightarrow> heldQty (en_acct (snd w')) key = heldQty (en_acct (snd w2)) key"
      "\<And>p. p \<in> set ps \<Longrightarrow> mapGet (en_lastBar (snd w2)) (pos_Symbol p) \<noteq> None \<Longrightarrow> heldQty (en_acct (snd w')) (snapKey p) = 0"
      using I by blast+
    have "heldQty (en_acct (snd w')) (snapKey pos) = 0"
      using IH(2) [of "snapKey pos"] \<open>snapKey pos \<notin> snapKey ` set ps\<close> held [of "snapKey pos"] Cons.prems(3) by simp
    moreover have "heldQty (en_acct (snd w')) key = heldQty (en_acct (snd w)) key" if "key \<notin> snapKey ` set (pos # ps)" for key
      using that IH(2) [of key] by (simp add: held)
    ultimately show ?thesis using IH(1) IH(3) lb by simp
  qed
qed

text \<open>The open positions are those the account holds, each listed once.\<close>

lemma OpenPositions_spec:
  assumes "accWf a"
  shows "distinct (map snapKey (OpenPositions a))"
    and "\<forall>pos \<in> set (OpenPositions a). heldQty a (snapKey pos) = sint (pos_SignedQty pos)"
    and "heldQty a key \<noteq> 0 \<Longrightarrow> key \<in> snapKey ` set (OpenPositions a)"
proof -
  let ?ks = "sortKeys (positions a)"
  have wf: "list_all entryWf (positions a)" and mw: "mapWf (positions a)" using assms by (simp_all add: accWf_def)
  have entry: "snapKey (Position_Snapshot p) = k \<and> pos_SignedQty (Position_Snapshot p) = signedQty p"
    if "mapGet (positions a) k = Some p" for k p
    using mapGet_SomeD [OF that] wf by (auto simp: list_all_iff entryWf_def snapKey_def Position_Snapshot_def)
  have ks: "distinct ?ks" "set ?ks = set (mapKeys (positions a))"
    using mw by (simp_all add: sortKeys_def mapWf_def)
  have sub: "distinct (map snapKey (map Position_Snapshot (filter P (lookupAll (positions a) ks)))) \<and>
      set (map snapKey (map Position_Snapshot (filter P (lookupAll (positions a) ks)))) \<subseteq> set ks"
    if "distinct ks" for ks P
    using that by (induction ks) (auto simp: lookupAll_def map_filter_simps entry split: option.splits)
  show "distinct (map snapKey (OpenPositions a))" using sub [OF ks(1)] by (simp add: OpenPositions_def)
  show "\<forall>pos \<in> set (OpenPositions a). heldQty a (snapKey pos) = sint (pos_SignedQty pos)"
    by (auto simp: OpenPositions_def lookupAll_def map_filter_def heldQty_def posOf_def entry)
  assume "heldQty a key \<noteq> 0"
  then obtain p where p: "mapGet (positions a) key = Some p" "signedQty p \<noteq> 0"
    by (auto simp: heldQty_def posOf_def split: option.splits)
  then have "key \<in> set ?ks" using ks(2) mapGet_in_keys [of "positions a" key] by simp
  then have "p \<in> set (lookupAll (positions a) ?ks)" using p(1) by (force simp: lookupAll_def map_filter_def)
  then show "key \<in> snapKey ` set (OpenPositions a)"
    using p entry [OF p(1)] by (force simp: OpenPositions_def Position_IsFlat_def)
qed

text \<open>After the end-of-run liquidation nothing is held in a symbol that ever had a bar.\<close>

lemma liquidated:
  assumes "fill_model (wi_model c)" "accWf (en_acct (snd w))" "liquidateOpenPositions c w = (w', Inr ())"
  shows "en_lastBar (snd w') = en_lastBar (snd w)"
    and "mapGet (en_lastBar (snd w)) sy \<noteq> None \<Longrightarrow> heldQty (en_acct (snd w')) (sid, sy) = 0"
proof -
  note S = OpenPositions_spec [OF assms(2)]
  note L = liquidateLoop_flat [OF assms(1) assms(3) [unfolded liquidateOpenPositions_def] S(1,2)]
  show "en_lastBar (snd w') = en_lastBar (snd w)" using L by simp
  assume b: "mapGet (en_lastBar (snd w)) sy \<noteq> None"
  show "heldQty (en_acct (snd w')) (sid, sy) = 0"
  proof (cases "(sid, sy) \<in> snapKey ` set (OpenPositions (en_acct (snd w)))")
    case True
    then show ?thesis using L b by (auto simp: snapKey_def)
  next
    case False
    then show ?thesis using L S(3) [of "(sid, sy)"] by auto
  qed
qed

section \<open>A finished run\<close>

lemma emitAccountState_ok: "emitAccountState a ts = (a', Inr ()) \<Longrightarrow> \<exists>bus. a' = a\<lparr>acc_bus := bus\<rparr>"
proof -
  assume "emitAccountState a ts = (a', Inr ())"
  then have "a' = a \<or> (\<exists>bus. a' = a\<lparr>acc_bus := bus\<rparr>)" by (auto simp: emitAccountState_def split: sum.splits option.splits)
  moreover have "a = a\<lparr>acc_bus := acc_bus a\<rparr>" by simp
  ultimately show ?thesis by metis
qed

lemma replays_wf:
  assumes "replays w w'" "accWf (en_acct (snd w))" "grossQty (en_acct (snd w)) + turnover (en_fills (snd w')) < 2 ^ 63"
  shows "accWf (en_acct (snd w'))"
proof -
  obtain fs where fs: "en_fills (snd w') = en_fills (snd w) @ fs" "settled (en_acct (snd w)) fs (en_acct (snd w'))"
    using assms(1) by (auto simp: replays_def)
  have "grossQty (en_acct (snd w)) + turnover fs < 2 ^ 63"
    using assms(3) turnover_nonneg [of "en_fills (snd w)"] by (simp add: fs(1) turnover_append)
  then show ?thesis using settled_conserves [OF fs(2) assms(2)] by simp
qed

lemma Engine_Run_steps:
  assumes run: "Engine_Run fuel cancel cfg c w = Some (w', Inr res)"
  obtains w2 where "replays w w2" "liquidateOpenPositions c w2 = (w', Inr ())" "replays w2 w'" "buildResult cfg (snd w') = Inr res"
proof -
  obtain l en where w: "w = (l, en)" by (cases w)
  define ts where "ts = (if IsZero (en_firstTS en) then midnightUTC (cf_Start cfg) else en_firstTS en)"
  obtain a where a: "EmitInitialState (en_acct en) ts = (a, Inr ())"
    using run by (auto simp: Engine_Run_def w Let_def ts_def split: prod.splits sum.splits)
  let ?en0 = "en\<lparr>en_acct := a\<rparr>"
  obtain l1 en1 tr r where r: "Run fuel cancel (engineHandlers c) l ?en0 = Some (l1, en1, tr, r)"
    using run a by (auto simp: Engine_Run_def w Let_def ts_def split: option.splits)
  have d: "r = Drained" using run a r by (cases r) (auto simp: Engine_Run_def w Let_def ts_def stopError_def)
  obtain w2 where f: "flushBars c (l1, en1) = (w2, Inr ())"
    using run a r d by (auto simp: Engine_Run_def w Let_def ts_def stopError_def split: prod.splits sum.splits)
  have q: "liquidateOpenPositions c w2 = (w', Inr ())" and b: "buildResult cfg (snd w') = Inr res"
    using run a r d f by (auto simp: Engine_Run_def w Let_def ts_def stopError_def split: prod.splits sum.splits)
  have "\<exists>bus. a = en_acct en\<lparr>acc_bus := bus\<rparr>" using a emitAccountState_ok by (simp add: EmitInitialState_def)
  then have "replays w (l, ?en0)" by (auto simp: replays_def w intro: settled_state settled_refl)
  also have "replays (l, ?en0) (l1, en1)" using run_replays r d by (auto simp: Run_def)
  also have "replays (l1, en1) w2" using engine_replay.flushBars_R [OF f] by simp
  finally have "replays w w2" .
  moreover have "replays w2 w'" using q unfolding liquidateOpenPositions_def by (rule liquidateLoop_replays)
  ultimately show ?thesis using that q b by blast
qed

lemma Engine_Run_flat:
  assumes run: "Engine_Run fuel cancel cfg c w = Some (w', Inr res)" and m: "fill_model (wi_model c)"
    and wf: "accWf (en_acct (snd w))" and rng: "grossQty (en_acct (snd w)) + turnover (en_fills (snd w')) < 2 ^ 63"
    and "mapGet (en_lastBar (snd w')) sy \<noteq> None"
  shows "heldQty (en_acct (snd w')) (sid, sy) = 0"
proof -
  obtain w2 where R2: "replays w w2" and q: "liquidateOpenPositions c w2 = (w', Inr ())" and R3: "replays w2 w'"
    by (rule Engine_Run_steps [OF run])
  obtain gs where "en_fills (snd w') = en_fills (snd w2) @ gs" using R3 by (auto simp: replays_def)
  then have "grossQty (en_acct (snd w)) + turnover (en_fills (snd w2)) < 2 ^ 63"
    using rng turnover_nonneg [of gs] by (simp add: turnover_append)
  then have "accWf (en_acct (snd w2))" by (rule replays_wf [OF R2 wf])
  note L = liquidated [OF m this q]
  show ?thesis using L(1) L(2) [of sy sid] assms(5) by simp
qed

lemma flat_book:
  assumes "accWf a" "\<And>key. heldQty a key = 0"
  shows "acctBook a = sint (acc_realized a)"
proof -
  have "bookValue (absPos p) = sint (realized p)" if "(k, p) \<in> set (positions a)" for k p
  proof -
    have "mapGet (positions a) k = Some p" using that assms(1) by (simp add: accWf_def mapGet_Some_iff)
    then have "sint (signedQty p) = 0" using assms(2) [of k] by (simp add: heldQty_def posOf_def)
    then show ?thesis by (simp add: absPos_def bookValue_def)
  qed
  then have "acctBook a = sumMap (\<lambda>p. sint (realized p)) (positions a)" unfolding acctBook_def by (rule sumMap_cong)
  then show ?thesis using assms(1) by (simp add: accWf_def)
qed

lemma NewEngine_ok:
  fixes cfg :: "('s, 'f) Config"
  assumes "NewEngine fo feed s0 cfg = Inr (c, (l, en))"
  obtains instruments where "feed (cf_Tickers cfg) = Inr instruments"
    "l = NewLoop\<lparr>lp_queue := fold qPut (seededEvents (concat (map ib_Bars instruments))) newEventQueue\<rparr>"
    "\<forall>b \<in> set (concat (map ib_Bars instruments)). t_off (bar_TS b) = 0"
    "en_acct en = NewAccount (cf_StartingBalance cfg) True" "en_fills en = []"
    "fill_model (wi_model c)"
proof -
  obtain model sts ins where v: "buildModel (profileOf cfg) (cf_Realistic cfg) = Inr model"
    "feed (cf_Tickers cfg) = Inr ins"
    and s: "(case seed ins (NewLoop, buildDispatch (engine0 cfg sts ins)) of
        (w, Inl err) \<Rightarrow> Inl err | (w, Inr _) \<Rightarrow> Inr (\<lparr>wi_model = model, wi_gate = cf_Gate cfg,
          wi_spySym = (if cf_SPYSymbol cfg = [] then ''SPY'' else cf_SPYSymbol cfg), wi_float = fo\<rparr>, w)) = Inr (c, (l, en))"
    using assms unfolding NewEngine_def bindR_eq_Inr Let_def by blast
  have seeded: "seed ins (NewLoop, buildDispatch (engine0 cfg sts ins)) = ((l, en), Inr ())" and c: "wi_model c = model"
    using s by (auto split: prod.splits sum.splits)
  have b: "en_acct (buildDispatch en0) = en_acct en0" "en_fills (buildDispatch en0) = en_fills en0" for en0 :: "('s, 'f) Engine"
    by (simp_all add: buildDispatch_def split: prod.splits)
  have "fill_model model"
    using v(1) close_fill.fill_model_axioms realistic.fill_model_axioms by (auto simp: buildModel_def split: if_splits)
  then show ?thesis
    using that [OF v(2)] seed_ok [OF seeded] c b by (simp add: NewLoop_def engine0_def)
qed

text \<open>The profit a finished run reports is the cash its recorded fills moved, up to half a cent per fill,
  and the book is flat.\<close>

lemma Engine_Run_pnl:
  fixes cfg :: "('s, 'f) Config"
  assumes new: "NewEngine fo feed s0 cfg = Inr (c, w)"
    and run: "Engine_Run fuel cancel cfg c w = Some (w', Inr res)"
    and rng: "turnover (re_Fills res) < 2 ^ 63"
    and bars: "\<forall>f \<in> set (re_Fills res). mapGet (en_lastBar (snd w')) (fill_Symbol f) \<noteq> None"
  shows "heldQty (en_acct (snd w')) key = 0"
    and "sint (re_FinalBalance res) = sint (re_StartingBalance res) + sint (re_TotalPnL res)"
    and "\<bar>sint (re_TotalPnL res) - cashFlow (re_Fills res)\<bar> \<le> 50 * int (length (re_Fills res))"
proof -
  obtain l en where w: "w = (l, en)" by (cases w)
  obtain ins where a: "en_acct en = NewAccount (cf_StartingBalance cfg) True" "en_fills en = []" "fill_model (wi_model c)"
    by (rule NewEngine_ok [OF new [unfolded w]])
  have init: "accWf (en_acct (snd w))" "grossQty (en_acct (snd w)) = 0" "acctBook (en_acct (snd w)) = 0"
    using NewAccount_wf by (simp_all add: w a)
  have held0: "heldQty (en_acct (snd w)) k = 0" for k by (simp add: w a NewAccount_def heldQty_def posOf_def)
  have start: "startingBalance (en_acct (snd w)) = cf_StartingBalance cfg" by (simp add: w a NewAccount_def)
  obtain w2 where "replays w w2" "replays w2 w'" and b: "buildResult cfg (snd w') = Inr res" by (rule Engine_Run_steps [OF run])
  then have R: "replays w w'" by (blast intro: replays_trans)
  have fills: "re_Fills res = en_fills (snd w')" using b by (auto simp: buildResult_def bindR_eq_Inr)
  have rng': "grossQty (en_acct (snd w)) + turnover (en_fills (snd w')) < 2 ^ 63" using rng init(2) fills by simp
  have S: "settled (en_acct (snd w)) (re_Fills res) (en_acct (snd w'))" using R by (auto simp: replays_def w a fills)
  have flat: "heldQty (en_acct (snd w')) (sid, sy) = 0" for sid sy
  proof (cases "mapGet (en_lastBar (snd w')) sy = None")
    case False
    then show ?thesis by (rule Engine_Run_flat [OF run a(3) init(1) rng'])
  next
    case True
    then have "filter (\<lambda>f. fillKey f = (sid, sy)) (re_Fills res) = []" using bars by (auto simp: filter_empty_conv fillKey_def)
    then show ?thesis using settled_held [OF S, of "(sid, sy)"] held0 by (simp add: netFills_def)
  qed
  then show "heldQty (en_acct (snd w')) key = 0" by (cases key) simp
  note C = settled_conserves [OF S init(1)]
  have wf: "accWf (en_acct (snd w'))" and st: "startingBalance (en_acct (snd w')) = cf_StartingBalance cfg"
    and bk: "\<bar>acctBook (en_acct (snd w')) - cashFlow (re_Fills res)\<bar> \<le> 50 * int (length (re_Fills res))"
    using C rng init start by simp_all
  have cash: "Cash (en_acct (snd w')) = Inr (re_FinalBalance res)" "re_StartingBalance res = cf_StartingBalance cfg"
    and pnl: "sint (re_TotalPnL res) = sint (re_FinalBalance res) - sint (cf_StartingBalance cfg)"
    using b by (auto simp: buildResult_def bindR_eq_Inr money_ok)
  show "sint (re_FinalBalance res) = sint (re_StartingBalance res) + sint (re_TotalPnL res)" using cash(2) pnl by simp
  have "sint (re_TotalPnL res) = sint (acc_realized (en_acct (snd w')))" using cash(1) pnl by (simp add: Cash_def money_ok st)
  then show "\<bar>sint (re_TotalPnL res) - cashFlow (re_Fills res)\<bar> \<le> 50 * int (length (re_Fills res))"
    using bk flat_book [OF wf] flat by auto
qed

lemma Engine_Run_positions:
  assumes new: "NewEngine fo feed s0 cfg = Inr (c, w)" and run: "Engine_Run fuel cancel cfg c w = Some (w', Inr res)"
  shows "heldQty (en_acct (snd w')) key = netFills key (re_Fills res)"
proof -
  obtain l en where w: "w = (l, en)" by (cases w)
  have a: "en_acct en = NewAccount (cf_StartingBalance cfg) True" "en_fills en = []"
    by (rule NewEngine_ok [OF new [unfolded w]], assumption)+
  obtain w2 where "replays w w2" "replays w2 w'" and b: "buildResult cfg (snd w') = Inr res" by (rule Engine_Run_steps [OF run])
  then have "replays w w'" by (blast intro: replays_trans)
  then have "settled (en_acct en) (re_Fills res) (en_acct (snd w'))"
    using b by (auto simp: replays_def w a buildResult_def bindR_eq_Inr)
  from settled_held [OF this, of key] show ?thesis by (simp add: a NewAccount_def heldQty_def posOf_def)
qed

lemma NewEngine_seeded:
  assumes "NewEngine fo feed s0 cfg = Inr (c, (l, en))" "feed (cf_Tickers cfg) = Inr instruments"
    and "list_all (\<lambda>b. inNanoRange (bar_TS b)) (concat (map ib_Bars instruments))"
  shows "l = NewLoop\<lparr>lp_queue := fold qPut (seededEvents (concat (map ib_Bars instruments))) newEventQueue\<rparr>"
    and "\<forall>b \<in> set (concat (map ib_Bars instruments)). inNanoRange (bar_TS b) \<and> t_off (bar_TS b) = 0"
proof -
  show "l = NewLoop\<lparr>lp_queue := fold qPut (seededEvents (concat (map ib_Bars instruments))) newEventQueue\<rparr>"
    using NewEngine_ok [OF assms(1)] assms(2) by (metis Inr_inject)
  have "\<forall>b \<in> set (concat (map ib_Bars instruments)). t_off (bar_TS b) = 0"
    using NewEngine_ok [OF assms(1)] assms(2) by (metis Inr_inject)
  then show "\<forall>b \<in> set (concat (map ib_Bars instruments)). inNanoRange (bar_TS b) \<and> t_off (bar_TS b) = 0"
    using assms(3) unfolding list_all_iff by blast
qed

lemma NewEngine_run:
  assumes "NewEngine fo feed s0 cfg = Inr (c, (l, en))" "feed (cf_Tickers cfg) = Inr instruments"
    and "list_all (\<lambda>b. inNanoRange (bar_TS b)) (concat (map ib_Bars instruments))"
    and "int (length (seededEvents (concat (map ib_Bars instruments)))) < 2 ^ 64"
    and "Run k cancel (engineHandlers c) l en1 = Some (l', en', tr, r)"
  shows "\<exists>rest. sort_key evKey (seededEvents (concat (map ib_Bars instruments))) = tr @ rest \<and> (r = Drained \<longrightarrow> rest = [])"
  using seeded_run(1) [OF NewEngine_seeded(2) [OF assms(1-3)] assms(4)] assms(5)
  unfolding NewEngine_seeded(1) [OF assms(1-3)] by blast

lemma Engine_Run_returns:
  assumes new: "NewEngine fo feed s0 cfg = Inr (c, w)" "feed (cf_Tickers cfg) = Inr instruments"
    and rng: "list_all (\<lambda>b. inNanoRange (bar_TS b)) (concat (map ib_Bars instruments))"
    and "length (seededEvents (concat (map ib_Bars instruments))) < fuel"
    and "int (length (seededEvents (concat (map ib_Bars instruments)))) < 2 ^ 64"
  shows "Engine_Run fuel cancel cfg c w \<noteq> None"
proof -
  obtain l en where w: "w = (l, en)" by (cases w)
  note S = NewEngine_seeded [OF new(1) [unfolded w] new(2) rng]
  have "Run fuel cancel (engineHandlers c) l e \<noteq> None" for e
    unfolding S(1) by (rule seeded_run(2) [OF S(2) assms(5,4)])
  then have run: "\<exists>l1 en1 tr r. Run fuel cancel (engineHandlers c) l e = Some (l1, en1, tr, r)" for e by (metis not_None_eq prod_cases4)
  define ts where "ts = (if IsZero (en_firstTS en) then midnightUTC (cf_Start cfg) else en_firstTS en)"
  obtain a r where a: "EmitInitialState (en_acct en) ts = (a, r)" by fastforce
  obtain l1 en1 tr r1 where "Run fuel cancel (engineHandlers c) l (en\<lparr>en_acct := a\<rparr>) = Some (l1, en1, tr, r1)" using run by blast
  then show ?thesis using a by (cases r) (auto simp: Engine_Run_def w Let_def ts_def)
qed

end
