(* ===== verification/Broker_Orders.thy ===== *)
theory Broker_Orders
  imports Domain_Types
begin

text \<open>
  The lifecycle of an order at the broker: the wire statuses and their classes (\<open>broker/moomoo/trade.go\<close>,
  \<open>broker/moomoo/trd_convert.go\<close>) and the pure state machine that turns cumulative order pushes into
  per-execution fills and status changes (\<open>exec/moomoo/statemachine.go\<close>).  Shown: whatever is pushed, the
  fills add up to the cumulative quantity the order has absorbed and to its notional up to the truncation
  of the per-fill price, a push repeated is ignored, and the status only moves forward.
\<close>

section \<open>Environments and wire statuses\<close>

type_synonym int32 = "32 word"
type_synonym TrdEnv = int32

definition TrdEnvSimulate :: TrdEnv where "TrdEnvSimulate = 0"
definition TrdEnvReal :: TrdEnv where "TrdEnvReal = 1"

definition TrdEnv_IsValid :: "TrdEnv \<Rightarrow> bool" where
  "TrdEnv_IsValid e \<longleftrightarrow> e = TrdEnvSimulate \<or> e = TrdEnvReal"

definition TrdEnv_IsReal :: "TrdEnv \<Rightarrow> bool" where
  "TrdEnv_IsReal e \<longleftrightarrow> e = TrdEnvReal"

definition Trd_Unsubmitted :: int32 where "Trd_Unsubmitted = 0"
definition Trd_WaitingSubmit :: int32 where "Trd_WaitingSubmit = 1"
definition Trd_Submitting :: int32 where "Trd_Submitting = 2"
definition Trd_SubmitFailed :: int32 where "Trd_SubmitFailed = 3"
definition Trd_TimeOut :: int32 where "Trd_TimeOut = 4"
definition Trd_Submitted :: int32 where "Trd_Submitted = 5"
definition Trd_Filled_Part :: int32 where "Trd_Filled_Part = 10"
definition Trd_Filled_All :: int32 where "Trd_Filled_All = 11"
definition Trd_Cancelling_Part :: int32 where "Trd_Cancelling_Part = 12"
definition Trd_Cancelling_All :: int32 where "Trd_Cancelling_All = 13"
definition Trd_Cancelled_Part :: int32 where "Trd_Cancelled_Part = 14"
definition Trd_Cancelled_All :: int32 where "Trd_Cancelled_All = 15"
definition Trd_Failed :: int32 where "Trd_Failed = 21"
definition Trd_Disabled :: int32 where "Trd_Disabled = 22"
definition Trd_Deleted :: int32 where "Trd_Deleted = 23"
definition Trd_FillCancelled :: int32 where "Trd_FillCancelled = 24"

lemmas trd_values = TrdEnvSimulate_def TrdEnvReal_def Trd_Unsubmitted_def Trd_WaitingSubmit_def Trd_Submitting_def
  Trd_SubmitFailed_def Trd_TimeOut_def Trd_Submitted_def Trd_Filled_Part_def Trd_Filled_All_def
  Trd_Cancelling_Part_def Trd_Cancelling_All_def Trd_Cancelled_Part_def Trd_Cancelled_All_def Trd_Failed_def
  Trd_Disabled_def Trd_Deleted_def Trd_FillCancelled_def

datatype OrderStatusClass =
  StatusClassTransient | StatusClassAccepted | StatusClassFilled | StatusClassCanceled | StatusClassRejected
| StatusClassUnknown

definition OrderStatusClass_IsTerminal :: "OrderStatusClass \<Rightarrow> bool" where
  "OrderStatusClass_IsTerminal c \<longleftrightarrow> c = StatusClassCanceled \<or> c = StatusClassRejected"

definition classifyTrdStatus :: "int32 \<Rightarrow> OrderStatusClass" where
  "classifyTrdStatus raw =
     (if raw = Trd_Submitted then StatusClassAccepted
      else if raw \<in> {Trd_Filled_Part, Trd_Filled_All} then StatusClassFilled
      else if raw \<in> {Trd_Cancelled_Part, Trd_Cancelled_All, Trd_Deleted, Trd_FillCancelled} then StatusClassCanceled
      else if raw \<in> {Trd_Failed, Trd_Disabled, Trd_SubmitFailed, Trd_TimeOut} then StatusClassRejected
      else if raw \<in> {Trd_Submitting, Trd_WaitingSubmit, Trd_Cancelling_Part, Trd_Cancelling_All} then StatusClassTransient
      else StatusClassUnknown)"

definition DomainOrderStatus :: "int32 \<Rightarrow> OrderStatus option" where
  "DomainOrderStatus raw =
     (case classifyTrdStatus raw of
        StatusClassAccepted \<Rightarrow> Some OrderStatusAccepted
      | StatusClassFilled \<Rightarrow> Some (if raw = Trd_Filled_All then OrderStatusFilled else OrderStatusPartiallyFilled)
      | StatusClassCanceled \<Rightarrow> Some OrderStatusCanceled
      | StatusClassRejected \<Rightarrow> Some OrderStatusRejected
      | _ \<Rightarrow> None)"

definition trdSideForDomain :: "OrderSide \<Rightarrow> int32 result" where
  "trdSideForDomain side =
     (if side = OrderSideBuy then Inr 1 else if side = OrderSideSell then Inr 2 else Inl ErrInvalidArgument)"

definition sideFromTrd :: "int32 \<Rightarrow> OrderSide result" where
  "sideFromTrd trdSide =
     (if trdSide = 1 \<or> trdSide = 4 then Inr OrderSideBuy
      else if trdSide = 2 \<or> trdSide = 3 then Inr OrderSideSell
      else Inl ErrInvalidArgument)"

section \<open>Requests and pushes\<close>

record PlaceOrderRequest =
  rq_AccID :: uint64
  rq_TrdEnv :: TrdEnv
  rq_ClientOrderID :: string
  rq_Symbol :: string
  rq_Side :: OrderSide
  rq_Type :: OrderType
  rq_TIF :: TimeInForce
  rq_Qty :: Qty
  rq_Price :: Price

definition PlaceOrderRequest_Validate :: "PlaceOrderRequest \<Rightarrow> unit result" where
  "PlaceOrderRequest_Validate r = checkAll
     [rq_ClientOrderID r = [],
      rq_AccID r = 0,
      \<not> TrdEnv_IsValid (rq_TrdEnv r),
      rq_Symbol r = [],
      rq_Side r \<noteq> OrderSideBuy \<and> rq_Side r \<noteq> OrderSideSell,
      sint (rq_Qty r) \<le> 0]"

record OrderUpdate =
  ou_ClientOrderID :: string
  ou_VenueOrderID :: string
  ou_Symbol :: string
  ou_Side :: OrderSide
  ou_RawStatus :: int32
  ou_OrderQty :: Qty
  ou_DealtQty :: Qty
  ou_DealtAvgPrice :: Price
  ou_LastErrMsg :: string
  ou_UpdateTimeNs :: int64

definition OrderUpdate_Class :: "OrderUpdate \<Rightarrow> OrderStatusClass" where
  "OrderUpdate_Class u = classifyTrdStatus (ou_RawStatus u)"

definition IsFullFill :: "OrderUpdate \<Rightarrow> bool" where
  "IsFullFill u \<longleftrightarrow> ou_RawStatus u = Trd_Filled_All"

definition IsFillCancelled :: "OrderUpdate \<Rightarrow> bool" where
  "IsFillCancelled u \<longleftrightarrow> ou_RawStatus u = Trd_FillCancelled"

record FillUpdate =
  fu_FillID :: string
  fu_ClientOrderID :: string
  fu_VenueOrderID :: string
  fu_Symbol :: string
  fu_Side :: OrderSide
  fu_Qty :: Qty
  fu_Price :: Price
  fu_UpdateTimeNs :: int64

record Funds =
  fd_TotalAssets :: Money
  fd_Cash :: Money
  fd_AvailableFunds :: Money
  fd_MarketValue :: Money

record TradeAccount =
  ta_AccID :: uint64
  ta_TrdEnv :: TrdEnv
  ta_SecurityFirm :: int32

record BrokerPosition =
  bp_Symbol :: string
  bp_Qty :: Qty
  bp_AvgPrice :: Price
  bp_CostPrice :: Price
  bp_Price :: Price
  bp_PLVal :: Money

section \<open>The order state machine\<close>

record OrderState =
  os_ClientOrderID :: string
  os_VenueOrderID :: string
  os_StrategyID :: string
  os_Symbol :: string
  os_Side :: OrderSide
  os_OrderQty :: Qty
  os_Status :: OrderStatus
  os_CumQty :: Qty
  os_CumNotional :: int64
  os_fillSeq :: nat

definition OrderState_IsTerminal :: "OrderState \<Rightarrow> bool" where
  "OrderState_IsTerminal s \<longleftrightarrow> OrderStatus_IsTerminal (os_Status s)"

text \<open>A side effect; a drift effect carries only the wire status name of a log line.\<close>

datatype Effect =
  EffectAccepted OrderStatus
| EffectFill Fill
| EffectStatus OrderStatus bool
| EffectDrift

definition fillTime :: "gotime \<Rightarrow> int64 \<Rightarrow> gotime" where
  "fillTime wallTS venueNs = (if 0 < sint venueNs then \<lparr>t_ns = sint venueNs, t_off = 0\<rparr> else toUTC wallTS)"

definition buildFill :: "(OrderState \<Rightarrow> nat \<Rightarrow> string) \<Rightarrow> gotime \<Rightarrow> OrderState \<Rightarrow> OrderUpdate \<Rightarrow> Qty \<Rightarrow> Price \<Rightarrow> Fill" where
  "buildFill tradeID wallTS st upd deltaQty lastPx =
     \<lparr>fill_TradeID = tradeID st (os_fillSeq st), fill_ClientOrderID = os_ClientOrderID st,
      fill_VenueOrderID = os_VenueOrderID st, fill_StrategyID = os_StrategyID st, fill_Symbol = os_Symbol st,
      fill_Side = os_Side st, fill_Qty = deltaQty, fill_Price = lastPx, fill_Commission = 0,
      fill_TS = fillTime wallTS (ou_UpdateTimeNs upd)\<rparr>"

definition fillDeltaStep :: "(OrderState \<Rightarrow> nat \<Rightarrow> string) \<Rightarrow> gotime \<Rightarrow> OrderState \<Rightarrow> OrderUpdate \<Rightarrow>
    (OrderState \<times> Effect list) result" where
  "fillDeltaStep tradeID wallTS st upd =
     (if 0 < sint (ou_DealtQty upd) then
        bindR (Price_MulQty (ou_DealtAvgPrice upd) (ou_DealtQty upd)) (\<lambda>cumNotional.
          let deltaQty = ou_DealtQty upd - os_CumQty st;
              deltaNotional = cumNotional - os_CumNotional st
          in if 0 < sint deltaQty \<and> 0 < sint deltaNotional then
               (let lastPx = go_quo deltaNotional deltaQty in
                if \<not> Price_IsPositive lastPx then Inl (ErrPlain ''non-positive per-fill price'')
                else let f = buildFill tradeID wallTS st upd deltaQty lastPx in
                  bindR (Fill_Validate f) (\<lambda>_. Inr
                    (st\<lparr>os_CumQty := ou_DealtQty upd, os_CumNotional := cumNotional, os_fillSeq := os_fillSeq st + 1\<rparr>,
                     [EffectFill f])))
             else Inr (st, []))
      else Inr (st, []))"

definition statusStep :: "OrderState \<Rightarrow> OrderUpdate \<Rightarrow> OrderState \<times> Effect list" where
  "statusStep st upd =
     (let newStatus = (if IsFullFill upd then OrderStatusFilled else OrderStatusPartiallyFilled) in
      if os_Status st \<noteq> newStatus then (st\<lparr>os_Status := newStatus\<rparr>, [EffectStatus newStatus False]) else (st, []))"

definition sm_applyFill :: "(OrderState \<Rightarrow> nat \<Rightarrow> string) \<Rightarrow> gotime \<Rightarrow> OrderState \<Rightarrow> OrderUpdate \<Rightarrow> OrderState \<times> Effect list result" where
  "sm_applyFill tradeID wallTS st upd =
     (case fillDeltaStep tradeID wallTS st upd of
        Inl e \<Rightarrow> (st, Inl e)
      | Inr (st1, effs) \<Rightarrow> (case statusStep st1 upd of (st2, effs2) \<Rightarrow> (st2, Inr (effs @ effs2))))"

definition Apply :: "(OrderState \<Rightarrow> nat \<Rightarrow> string) \<Rightarrow> gotime \<Rightarrow> OrderState \<Rightarrow> OrderUpdate \<Rightarrow> OrderState \<times> Effect list result" where
  "Apply tradeID wallTS st upd =
     (if OrderState_IsTerminal st then (st, Inr [])
      else case OrderUpdate_Class upd of
        StatusClassTransient \<Rightarrow> (st, Inr [])
      | StatusClassAccepted \<Rightarrow>
          (if os_Status st = OrderStatusAccepted \<or> os_Status st = OrderStatusPartiallyFilled then (st, Inr [])
           else (st\<lparr>os_Status := OrderStatusAccepted\<rparr>, Inr [EffectAccepted OrderStatusAccepted]))
      | StatusClassFilled \<Rightarrow> sm_applyFill tradeID wallTS st upd
      | StatusClassCanceled \<Rightarrow>
          (st\<lparr>os_Status := OrderStatusCanceled\<rparr>, Inr [EffectStatus OrderStatusCanceled (IsFillCancelled upd)])
      | StatusClassRejected \<Rightarrow> (st\<lparr>os_Status := OrderStatusRejected\<rparr>, Inr [EffectStatus OrderStatusRejected False])
      | StatusClassUnknown \<Rightarrow> (st, Inr [EffectDrift]))"

text \<open>The executor's trade ids: the venue's order id, or the client's before it is known, and the fill index.\<close>

definition tradeID :: "OrderState \<Rightarrow> nat \<Rightarrow> string" where
  "tradeID st fillIndex =
     (let base = (if os_VenueOrderID st = [] then os_ClientOrderID st else os_VenueOrderID st)
      in base @ ''-'' @ fmtUint fillIndex)"

section \<open>Sequences of pushes\<close>

text \<open>What the executor's push handler does to one order: a push that fails is logged and dropped.\<close>

fun pushAll :: "OrderState \<Rightarrow> (gotime \<times> OrderUpdate) list \<Rightarrow> OrderState \<times> Effect list" where
  "pushAll st [] = (st, [])"
| "pushAll st ((now, u) # us) =
     (case Apply tradeID now st u of
        (st1, Inl e) \<Rightarrow> pushAll st1 us
      | (st1, Inr effs) \<Rightarrow> (case pushAll st1 us of (st2, rest) \<Rightarrow> (st2, effs @ rest)))"

definition fillsOf :: "Effect list \<Rightarrow> Fill list" where
  "fillsOf effs = List.map_filter (\<lambda>e. case e of EffectFill f \<Rightarrow> Some f | _ \<Rightarrow> None) effs"

lemma fillsOf_simps [simp]:
  "fillsOf [] = []" "fillsOf (EffectFill f # es) = f # fillsOf es" "fillsOf (EffectAccepted s # es) = fillsOf es"
  "fillsOf (EffectStatus s b # es) = fillsOf es" "fillsOf (EffectDrift # es) = fillsOf es"
  "fillsOf (es @ es') = fillsOf es @ fillsOf es'"
  by (simp_all add: fillsOf_def map_filter_def)

definition osWf :: "OrderState \<Rightarrow> bool" where
  "osWf st \<longleftrightarrow> 0 \<le> sint (os_CumQty st) \<and> 0 \<le> sint (os_CumNotional st)"

definition sharesOf :: "Fill list \<Rightarrow> int" where
  "sharesOf fs = (\<Sum>f\<leftarrow>fs. sint (fill_Qty f))"

definition valueOf :: "Fill list \<Rightarrow> int" where
  "valueOf fs = (\<Sum>f\<leftarrow>fs. sint (fill_Qty f) * sint (fill_Price f))"

lemma ledger_simps [simp]:
  "sharesOf [] = 0" "sharesOf (f # fs) = sint (fill_Qty f) + sharesOf fs" "sharesOf (fs @ gs) = sharesOf fs + sharesOf gs"
  "valueOf [] = 0" "valueOf (f # fs) = sint (fill_Qty f) * sint (fill_Price f) + valueOf fs" "valueOf (fs @ gs) = valueOf fs + valueOf gs"
  by (simp_all add: sharesOf_def valueOf_def)

text \<open>A fill of an order: its identity, valid.\<close>

definition ofOrder :: "OrderState \<Rightarrow> Fill \<Rightarrow> bool" where
  "ofOrder st f \<longleftrightarrow> fill_ClientOrderID f = os_ClientOrderID st \<and> fill_StrategyID f = os_StrategyID st \<and>
     fill_Symbol f = os_Symbol st \<and> fill_Side f = os_Side st \<and> Fill_Validate f = Inr ()"

text \<open>What never changes in a tracked order.\<close>

definition sameOrder :: "OrderState \<Rightarrow> OrderState \<Rightarrow> bool" where
  "sameOrder st st' \<longleftrightarrow> os_ClientOrderID st' = os_ClientOrderID st \<and> os_VenueOrderID st' = os_VenueOrderID st \<and>
     os_StrategyID st' = os_StrategyID st \<and> os_Symbol st' = os_Symbol st \<and> os_Side st' = os_Side st \<and>
     os_OrderQty st' = os_OrderQty st"

lemma sameOrder_refl [simp]: "sameOrder st st"
  by (simp add: sameOrder_def)

lemma sameOrder_trans: "sameOrder a b \<Longrightarrow> sameOrder b c \<Longrightarrow> sameOrder a c"
  by (simp add: sameOrder_def)

lemma sameOrder_tradeID: "sameOrder st st' \<Longrightarrow> tradeID st' = tradeID st"
  by (simp add: sameOrder_def tradeID_def fun_eq_iff)

lemma sameOrder_ofOrder: "sameOrder st st' \<Longrightarrow> ofOrder st' = ofOrder st"
  by (simp add: sameOrder_def ofOrder_def fun_eq_iff)

text \<open>The books of one order: what a step adds to the cumulative snapshot is what its fills carry, up to
  less than a price unit per share, and fill indices are used once.\<close>

definition settles :: "OrderState \<Rightarrow> OrderState \<Rightarrow> Fill list \<Rightarrow> bool" where
  "settles st st' fs \<longleftrightarrow> sameOrder st st' \<and> list_all (ofOrder st) fs \<and>
     sharesOf fs = sint (os_CumQty st') - sint (os_CumQty st) \<and>
     valueOf fs \<le> sint (os_CumNotional st') - sint (os_CumNotional st) \<and>
     sint (os_CumNotional st') - sint (os_CumNotional st) - valueOf fs \<le> sharesOf fs \<and>
     map fill_TradeID fs = map (tradeID st) [os_fillSeq st..<os_fillSeq st'] \<and> os_fillSeq st \<le> os_fillSeq st'"

lemma settles_refl [simp]: "settles st st []"
  by (simp add: settles_def)

lemma settles_trans: "settles a b fs \<Longrightarrow> settles b c gs \<Longrightarrow> settles a c (fs @ gs)"
  unfolding settles_def using sameOrder_trans [of a b c] sameOrder_tradeID [of a b] sameOrder_ofOrder [of a b]
    upt_add_eq_append [of "os_fillSeq a" "os_fillSeq b" "os_fillSeq c - os_fillSeq b"]
  by auto

lemma settles_status [simp]: "settles a (b\<lparr>os_Status := s\<rparr>) fs = settles a b fs"
  by (simp add: settles_def sameOrder_def)

lemma fillDeltaStep_cases:
  assumes "fillDeltaStep tid now st u = Inr (st1, effs)"
  obtains (idle) "st1 = st" "effs = []"
  | (fill) f n where "effs = [EffectFill f]" "Fill_Validate f = Inr ()" "sint n = sint (ou_DealtAvgPrice u) * sint (ou_DealtQty u)"
      "0 < sint (ou_DealtQty u)" "0 < sint (ou_DealtQty u - os_CumQty st)" "0 < sint (n - os_CumNotional st)"
      "f = buildFill tid now st u (ou_DealtQty u - os_CumQty st) (go_quo (n - os_CumNotional st) (ou_DealtQty u - os_CumQty st))"
      "st1 = st\<lparr>os_CumQty := ou_DealtQty u, os_CumNotional := n, os_fillSeq := os_fillSeq st + 1\<rparr>"
  using assms that unfolding fillDeltaStep_def
  by (auto simp: bindR_eq_Inr money_ok Let_def split: if_splits)

lemma fillDeltaStep_settles:
  assumes "fillDeltaStep tradeID now st u = Inr (st1, effs)" "osWf st" "0 \<le> sint (ou_DealtAvgPrice u)"
  shows "settles st st1 (fillsOf effs) \<and> osWf st1"
  using assms(1)
proof (cases rule: fillDeltaStep_cases)
  case idle
  then show ?thesis using assms(2) by simp
next
  case (fill f n)
  let ?dq = "ou_DealtQty u - os_CumQty st" and ?dn = "n - os_CumNotional st"
  have n: "0 \<le> sint n" using fill(3,4) assms(3) by simp
  have q: "sint ?dq = sint (ou_DealtQty u) - sint (os_CumQty st)"
    using assms(2) fill(4) sint_bounds [of "ou_DealtQty u"] sint_bounds [of "os_CumQty st"]
    by (intro sint_minus) (simp add: fits64_def osWf_def)
  have d: "sint ?dn = sint n - sint (os_CumNotional st)"
    using assms(2) n sint_bounds [of n] sint_bounds [of "os_CumNotional st"]
    by (intro sint_minus) (simp add: fits64_def osWf_def)
  have px: "sint (go_quo ?dn ?dq) = sint ?dn div sint ?dq"
    using fill(5,6) by (simp add: sint_quo signed_divide_int_def)
  have "sint ?dq * (sint ?dn div sint ?dq) \<le> sint ?dn" "sint ?dn - sint ?dq * (sint ?dn div sint ?dq) \<le> sint ?dq"
    using fill(5) minus_mult_div_eq_mod [of "sint ?dn" "sint ?dq"] pos_mod_bound [of "sint ?dq" "sint ?dn"]
      pos_mod_sign [of "sint ?dq" "sint ?dn"] by linarith+
  then show ?thesis
    using fill n q d px assms(2) by (simp add: settles_def sameOrder_def ofOrder_def buildFill_def osWf_def)
qed

lemma statusStep_settles: "settles a (fst (statusStep b u)) fs = settles a b fs" "fillsOf (snd (statusStep b u)) = []"
  "osWf (fst (statusStep b u)) = osWf b"
  by (simp_all add: statusStep_def Let_def osWf_def)

lemma Apply_settles:
  assumes "Apply tradeID now st u = (st', Inr effs)" "osWf st" "0 \<le> sint (ou_DealtAvgPrice u)"
  shows "settles st st' (fillsOf effs) \<and> osWf st'"
proof (cases "\<not> OrderState_IsTerminal st \<and> OrderUpdate_Class u = StatusClassFilled")
  case True
  then have "sm_applyFill tradeID now st u = (st', Inr effs)" using assms(1) by (simp add: Apply_def)
  then obtain st1 es where s: "fillDeltaStep tradeID now st u = Inr (st1, es)" "st' = fst (statusStep st1 u)"
    "effs = es @ snd (statusStep st1 u)"
    by (auto simp: sm_applyFill_def split: sum.splits prod.splits)
  show ?thesis using fillDeltaStep_settles [OF s(1) assms(2,3)] by (simp add: s statusStep_settles)
next
  case False
  then show ?thesis using assms(1,2)
    by (auto simp: Apply_def osWf_def split: if_splits OrderStatusClass.splits)
qed

lemma Apply_error: "Apply tid now st u = (st', Inl e) \<Longrightarrow> st' = st"
  by (auto simp: Apply_def sm_applyFill_def split: if_splits OrderStatusClass.splits sum.splits prod.splits)

lemma pushAll_settles:
  assumes "pushAll st us = (st', effs)" "osWf st" "list_all (\<lambda>x. 0 \<le> sint (ou_DealtAvgPrice (snd x))) us"
  shows "settles st st' (fillsOf effs) \<and> osWf st'"
  using assms
proof (induction st us arbitrary: st' effs rule: pushAll.induct)
  case (2 st now u us)
  obtain st1 r where a: "Apply tradeID now st u = (st1, r)" by fastforce
  show ?case
  proof (cases r)
    case (Inl e)
    then show ?thesis using 2 a Apply_error [of tradeID now st u st1 e] by auto
  next
    case (Inr es)
    obtain st2 rest where p: "pushAll st1 us = (st2, rest)" by fastforce
    have s: "settles st st1 (fillsOf es)" "osWf st1" using Apply_settles [of now st u st1 es] 2 a Inr by auto
    then have "settles st1 st2 (fillsOf rest) \<and> osWf st2" using 2(2) [OF a [symmetric] Inr p] 2(4,5) s p by auto
    then show ?thesis using 2(3) a Inr p settles_trans [OF s(1)] by auto
  qed
qed simp

section \<open>The status only moves forward\<close>

definition statusRank :: "OrderStatus \<Rightarrow> nat" where
  "statusRank s = (if OrderStatus_IsTerminal s then 3 else if s = OrderStatusPartiallyFilled then 2
     else if s = OrderStatusAccepted then 1 else 0)"

lemma OrderStatus_ranks [simp]:
  "statusRank OrderStatusFilled = 3" "statusRank OrderStatusCanceled = 3" "statusRank OrderStatusRejected = 3"
  "statusRank OrderStatusPartiallyFilled = 2" "statusRank OrderStatusAccepted = 1" "statusRank OrderStatusSubmitted = 0"
  by (simp_all add: statusRank_def OrderStatus_IsTerminal_def OrderStatusFilled_def OrderStatusCanceled_def
      OrderStatusRejected_def OrderStatusPartiallyFilled_def OrderStatusAccepted_def OrderStatusSubmitted_def)

lemma rank_terminal: "statusRank s = 3 \<longleftrightarrow> OrderStatus_IsTerminal s" "statusRank s \<le> 3"
  by (auto simp: statusRank_def)

lemma fillDeltaStep_status: "fillDeltaStep tid now st u = Inr (st1, es) \<Longrightarrow> os_Status st1 = os_Status st"
  by (erule fillDeltaStep_cases) simp_all

lemma Apply_forward:
  assumes "Apply tid now st u = (st', r)"
  shows "statusRank (os_Status st) \<le> statusRank (os_Status st')" and "OrderState_IsTerminal st \<Longrightarrow> st' = st \<and> r = Inr []"
proof -
  show "OrderState_IsTerminal st \<Longrightarrow> st' = st \<and> r = Inr []" using assms by (simp add: Apply_def)
  show "statusRank (os_Status st) \<le> statusRank (os_Status st')"
  proof (cases "OrderState_IsTerminal st")
    case False
    then have "statusRank (os_Status st) \<le> 2"
      using rank_terminal [of "os_Status st"] by (simp add: OrderState_IsTerminal_def)
    moreover have "os_Status st \<noteq> OrderStatusPartiallyFilled \<Longrightarrow> statusRank (os_Status st) \<le> 1"
      using False by (simp add: statusRank_def OrderState_IsTerminal_def)
    ultimately show ?thesis using assms False fillDeltaStep_status [of tid now st u]
      by (auto simp: Apply_def sm_applyFill_def statusStep_def Let_def split: if_splits OrderStatusClass.splits sum.splits prod.splits)
  qed (use assms in \<open>simp add: Apply_def\<close>)
qed

section \<open>A push delivered twice\<close>

lemma fillDeltaStep_again:
  assumes "fillDeltaStep tid now st u = Inr (st1, es)"
  shows "fillDeltaStep tid now' (st1\<lparr>os_Status := s\<rparr>) u = Inr (st1\<lparr>os_Status := s\<rparr>, [])"
  using assms
proof (cases rule: fillDeltaStep_cases)
  case idle
  then show ?thesis using assms unfolding fillDeltaStep_def
    by (auto simp: bindR_eq_Inr bindR_eq_Inl Let_def split: if_splits)
next
  case (fill f n)
  then have "Price_MulQty (ou_DealtAvgPrice u) (ou_DealtQty u) = Inr n" by (simp add: money_ok(3))
  then show ?thesis using fill by (simp add: fillDeltaStep_def Let_def)
qed

lemma statusStep_set:
  "\<exists>s. fst (statusStep st u) = st\<lparr>os_Status := s\<rparr>" "statusStep (fst (statusStep st u)) u = (fst (statusStep st u), [])"
proof -
  show "\<exists>s. fst (statusStep st u) = st\<lparr>os_Status := s\<rparr>"
    by (auto simp: statusStep_def Let_def intro: exI [of _ "os_Status st"])
  show "statusStep (fst (statusStep st u)) u = (fst (statusStep st u), [])"
    by (simp add: statusStep_def Let_def)
qed

lemma sm_applyFill_again:
  assumes "sm_applyFill tid now st u = (st', Inr effs)"
  shows "sm_applyFill tid now' st' u = (st', Inr [])"
proof -
  obtain st1 es where s: "fillDeltaStep tid now st u = Inr (st1, es)" "st' = fst (statusStep st1 u)"
    using assms by (auto simp: sm_applyFill_def split: sum.splits prod.splits)
  then have "fillDeltaStep tid now' st' u = Inr (st', [])"
    using statusStep_set(1) [of st1 u] fillDeltaStep_again by metis
  then show ?thesis using statusStep_set(2) [of st1 u] s(2) by (simp add: sm_applyFill_def)
qed

lemma Apply_again:
  assumes "Apply tid now st u = (st', Inr effs)"
  shows "\<exists>effs'. Apply tid now' st' u = (st', Inr effs') \<and> set effs' \<subseteq> {EffectDrift}"
proof (cases "OrderState_IsTerminal st'")
  case False
  then have "\<not> OrderState_IsTerminal st" using Apply_forward(2) [OF assms] by auto
  then show ?thesis using assms False sm_applyFill_again [of tid now st u st' effs now']
    by (auto simp: Apply_def OrderState_IsTerminal_def OrderStatus_IsTerminal_def split: if_splits OrderStatusClass.splits)
qed (simp add: Apply_def)

lemma fmtUint_inject: "fmtUint m = fmtUint n \<longleftrightarrow> m = n"
  using digval_fmtUint by metis

lemma inj_tradeID: "inj (tradeID st)"
  by (auto simp: inj_def tradeID_def Let_def fmtUint_inject)

section \<open>Properties\<close>

text \<open>C11. Broker pushes are counted once: whatever sequence of order pushes arrives, repeated, stale, partial or
  failing, the fills it produces carry the order's identity and distinct trade ids, their quantities add up to
  the growth of the cumulative quantity, and their value to the growth of the cumulative notional, short of it
  by at most one price unit per share.\<close>

theorem order_fills_match_pushes:
  assumes "pushAll st us = (st', effs)" "osWf st" "list_all (\<lambda>x. 0 \<le> sint (ou_DealtAvgPrice (snd x))) us"
  shows "sharesOf (fillsOf effs) = sint (os_CumQty st') - sint (os_CumQty st) \<and>
    valueOf (fillsOf effs) \<le> sint (os_CumNotional st') - sint (os_CumNotional st) \<and>
    sint (os_CumNotional st') - sint (os_CumNotional st) - valueOf (fillsOf effs) \<le> sharesOf (fillsOf effs) \<and>
    list_all (ofOrder st) (fillsOf effs) \<and> distinct (map fill_TradeID (fillsOf effs)) \<and> osWf st'"
  using pushAll_settles [OF assms] inj_tradeID [of st] by (auto simp: settles_def distinct_map intro: inj_on_subset)

definition sampleOrder :: OrderState where
  "sampleOrder = \<lparr>os_ClientOrderID = ''PAPER-O-0'', os_VenueOrderID = ''V1'', os_StrategyID = ''s'', os_Symbol = ''AB'',
     os_Side = OrderSideBuy, os_OrderQty = 10, os_Status = OrderStatusSubmitted, os_CumQty = 0, os_CumNotional = 0,
     os_fillSeq = 0\<rparr>"

definition samplePush :: "int32 \<Rightarrow> Qty \<Rightarrow> Price \<Rightarrow> gotime \<times> OrderUpdate" where
  "samplePush status dealt avg =
     (\<lparr>t_ns = 5, t_off = 0\<rparr>,
      \<lparr>ou_ClientOrderID = ''PAPER-O-0'', ou_VenueOrderID = ''V1'', ou_Symbol = ''AB'', ou_Side = OrderSideBuy,
       ou_RawStatus = status, ou_OrderQty = 10, ou_DealtQty = dealt, ou_DealtAvgPrice = avg, ou_LastErrMsg = [],
       ou_UpdateTimeNs = 0\<rparr>)"

definition samplePushes :: "(gotime \<times> OrderUpdate) list" where
  "samplePushes = [samplePush Trd_Submitted 0 0, samplePush Trd_Filled_Part 3 1000000, samplePush Trd_Filled_Part 3 1000000,
     samplePush Trd_Filled_All 10 1000007, samplePush Trd_Filled_All 10 1000007]"

theorem order_fills_match_pushes_witness:
  "sharesOf (fillsOf (snd (pushAll sampleOrder samplePushes))) = 10 \<and>
   length (fillsOf (snd (pushAll sampleOrder samplePushes))) = 2 \<and>
   distinct (map fill_TradeID (fillsOf (snd (pushAll sampleOrder samplePushes))))"
proof -
  obtain st' effs where p: "pushAll sampleOrder samplePushes = (st', effs)" by fastforce
  have "(osWf sampleOrder) \<and>
    (list_all (\<lambda>x. 0 \<le> sint (ou_DealtAvgPrice (snd x))) samplePushes)" by code_simp
  then have "osWf sampleOrder" "list_all (\<lambda>x. 0 \<le> sint (ou_DealtAvgPrice (snd x))) samplePushes" by blast+
  note * = order_fills_match_pushes [OF p this]
  have "(sint (os_CumQty (fst (pushAll sampleOrder samplePushes))) = 10) \<and>
    (sint (os_CumQty sampleOrder) = 0) \<and>
    (length (fillsOf (snd (pushAll sampleOrder samplePushes))) = 2)" by code_simp
  then show ?thesis using * p by simp
qed

text \<open>A push delivered twice has no effect the second time: no fill, no status change, no change of the
  tracked order; an unknown status is reported as drift again.\<close>

theorem repeated_push_ignored:
  assumes "Apply tid now st u = (st', Inr effs)"
  shows "\<exists>effs'. Apply tid now' st' u = (st', Inr effs') \<and> set effs' \<subseteq> {EffectDrift}"
  by (rule Apply_again [OF assms])

theorem repeated_push_ignored_witness:
  "\<exists>st' effs effs'. Apply tradeID \<lparr>t_ns = 5, t_off = 0\<rparr> sampleOrder (snd (samplePush Trd_Filled_All 10 1000007)) = (st', Inr effs) \<and>
    length (fillsOf effs) = 1 \<and>
    Apply tradeID \<lparr>t_ns = 5, t_off = 0\<rparr> st' (snd (samplePush Trd_Filled_All 10 1000007)) = (st', Inr effs') \<and> set effs' \<subseteq> {EffectDrift}"
proof -
  let ?u = "snd (samplePush Trd_Filled_All 10 1000007)"
  obtain st' r where a: "Apply tradeID \<lparr>t_ns = 5, t_off = 0\<rparr> sampleOrder ?u = (st', r)" by fastforce
  have "case snd (Apply tradeID \<lparr>t_ns = 5, t_off = 0\<rparr> sampleOrder ?u) of Inr effs \<Rightarrow> length (fillsOf effs) = 1 | Inl e \<Rightarrow> False" by code_simp
  then obtain effs where r: "r = Inr effs" "length (fillsOf effs) = 1" using a by (cases r) auto
  then show ?thesis using a repeated_push_ignored [of tradeID "\<lparr>t_ns = 5, t_off = 0\<rparr>" sampleOrder ?u st' effs "\<lparr>t_ns = 5, t_off = 0\<rparr>"] by blast
qed

text \<open>The lifecycle of an order only moves forward, from submitted to accepted to partially filled to a
  terminal status, whatever is pushed; a terminal order never changes again and produces nothing.\<close>

theorem order_status_forward:
  assumes "pushAll st us = (st', effs)"
  shows "statusRank (os_Status st) \<le> statusRank (os_Status st') \<and> (OrderState_IsTerminal st \<longrightarrow> st' = st \<and> effs = [])"
  using assms
proof (induction st us arbitrary: st' effs rule: pushAll.induct)
  case (2 st now u us)
  obtain st1 r where a: "Apply tradeID now st u = (st1, r)" by fastforce
  show ?case using 2 a Apply_forward [OF a] by (cases r) (fastforce split: prod.splits)+
qed simp

theorem order_status_forward_witness:
  "OrderState_IsTerminal (fst (pushAll sampleOrder samplePushes)) \<and>
   pushAll (fst (pushAll sampleOrder samplePushes)) [samplePush Trd_Submitted 0 0] = (fst (pushAll sampleOrder samplePushes), [])"
proof -
  let ?st = "fst (pushAll sampleOrder samplePushes)"
  obtain st' effs where p: "pushAll ?st [samplePush Trd_Submitted 0 0] = (st', effs)" by fastforce
  have "OrderState_IsTerminal ?st" by code_simp
  then show ?thesis using order_status_forward [OF p] p by simp
qed

end
