(* ===== verification/Broker_Exec.thy ===== *)
theory Broker_Exec
  imports Accounting_Account Broker_Orders
begin

text \<open>
  The broker executor (\<open>exec/moomoo/executor.go\<close>, \<open>executor_submit.go\<close>, \<open>executor_recovery.go\<close>,
  \<open>executor_sync.go\<close>) settling into the account behind \<open>livetrade/account.go\<close>: activation, the single
  submission path, the push handlers, flatten, recovery after a restart and the reflection of the broker's
  positions.  The venue is a record of functions over its own state, so every statement holds for any
  venue.  The clock's reading is an argument of the operations that read it.  What leaves the executor
  (requests, rows to persist, risk events, fills for the engine) is appended to \<open>xs_out\<close>; the errors of
  those sinks are only logged by the code and do not influence it.

  Shown: every operation keeps the invariant \<open>execInv\<close> (tracked orders are found under their own id, the
  venue index points to tracked orders, every request is valid and goes to the bound account and
  environment, every fill handed on is valid), and while the book refuses no fill it holds what it started
  with and the cumulative quantities of the tracked orders.
\<close>

section \<open>The book the executor settles into\<close>

definition AccountAdapter_ApplyFill :: "Account \<Rightarrow> Fill \<Rightarrow> Account \<times> PositionSnap result" where
  "AccountAdapter_ApplyFill a f = (case Account_ApplyFill a f of (a1, r) \<Rightarrow> (a1, map_sum id fst r))"

definition AccountAdapter_Position :: "Account \<Rightarrow> string \<Rightarrow> string \<Rightarrow> PositionSnap option" where
  "AccountAdapter_Position a sid sy = Account_Position a sid sy"

definition AccountAdapter_OpenPositions :: "Account \<Rightarrow> PositionSnap list" where
  "AccountAdapter_OpenPositions a = OpenPositions a"

section \<open>The venue, the configuration, the state\<close>

text \<open>The trading surface of the venue over its state.\<close>

record 'v TradeClient =
  tc_GetAccList :: "'v \<Rightarrow> TrdEnv \<Rightarrow> 'v \<times> TradeAccount list result"
  tc_UnlockTrade :: "'v \<Rightarrow> TrdEnv \<Rightarrow> string \<Rightarrow> int32 \<Rightarrow> 'v \<times> unit result"
  tc_PlaceOrder :: "'v \<Rightarrow> PlaceOrderRequest \<Rightarrow> 'v \<times> string result"
  tc_SubscribeOrderUpdates :: "'v \<Rightarrow> 'v \<times> unit result"
  tc_SubscribeFillUpdates :: "'v \<Rightarrow> 'v \<times> unit result"
  tc_GetOrderList :: "'v \<Rightarrow> uint64 \<Rightarrow> TrdEnv \<Rightarrow> 'v \<times> OrderUpdate list result"
  tc_GetPositionList :: "'v \<Rightarrow> uint64 \<Rightarrow> TrdEnv \<Rightarrow> 'v \<times> BrokerPosition list result"
  tc_GetFunds :: "'v \<Rightarrow> uint64 \<Rightarrow> TrdEnv \<Rightarrow> 'v \<times> Funds result"
  tc_GetOrderFillList :: "'v \<Rightarrow> uint64 \<Rightarrow> TrdEnv \<Rightarrow> 'v \<times> FillUpdate list result"

text \<open>The optional collaborators are present or not; the strategy resolver answers \<open>(id, ok)\<close> or an error.\<close>

record ExecConfig =
  xc_Account :: BrokerAccount
  xc_hasClient :: bool
  xc_TraderID :: string
  xc_ConfirmationPhrase :: string
  xc_UnlockPassword :: string
  xc_hasSink :: bool
  xc_hasBook :: bool
  xc_hasPersist :: bool
  xc_hasRisk :: bool
  xc_Strategy :: "(string \<Rightarrow> (string \<times> bool) result) option"

datatype ExecOut =
  OutPlace PlaceOrderRequest
| OutOrder Order
| OutFill Fill
| OutPosition PositionSnap
| OutRisk string string string
| OutEmit Fill

text \<open>\<open>xs_seq\<close> and the counters are unbounded here; the code's are 64 bits wide and count submissions.\<close>

record 'v MoomooExecutor =
  xs_env :: TrdEnv
  xs_accID :: uint64
  xs_seq :: nat
  xs_orders :: "(string, OrderState) gomap"
  xs_venIndex :: "(string, string) gomap"
  xs_submitted :: nat
  xs_rejected :: nat
  xs_fillsEmit :: nat
  xs_book :: Account
  xs_out :: "ExecOut list"
  xs_venue :: 'v

section \<open>Activation\<close>

definition LiveConfirmationPhrase :: string where
  "LiveConfirmationPhrase = ''I CONFIRM LIVE REAL MONEY TRADING TMS-LIVE-REAL-001''"

definition LiveTraderID :: string where
  "LiveTraderID = ''TMS-LIVE-REAL-001''"

fun accountExists :: "TradeAccount list \<Rightarrow> uint64 \<Rightarrow> bool" where
  "accountExists [] i = False"
| "accountExists (a # accs) i = (if ta_AccID a = i \<and> ta_TrdEnv a = TrdEnvReal then True else accountExists accs i)"

fun accountSecurityFirm :: "TradeAccount list \<Rightarrow> uint64 \<Rightarrow> int32" where
  "accountSecurityFirm [] i = 0"
| "accountSecurityFirm (a # accs) i =
     (if ta_AccID a = i \<and> ta_TrdEnv a = TrdEnvReal then ta_SecurityFirm a else accountSecurityFirm accs i)"

text \<open>\<open>strings.Contains\<close>.  The sentinel texts contain neither phrase, so only an error of the venue's own does.\<close>

definition strContains :: "string \<Rightarrow> string \<Rightarrow> bool" where
  "strContains s sub = list_ex (\<lambda>i. take (length sub) (drop i s) = sub) [0..<Suc (length s)]"

definition isGUIUnlockDisabled :: "go_error \<Rightarrow> bool" where
  "isGUIUnlockDisabled e =
     (case e of ErrPlain s \<Rightarrow> strContains s ''disabled the unlock interface'' \<or> strContains s ''Unlock button'' | _ \<Rightarrow> False)"

definition unlockReal :: "'v TradeClient \<Rightarrow> ExecConfig \<Rightarrow> TradeAccount list \<Rightarrow> 'v \<Rightarrow> 'v \<times> unit result" where
  "unlockReal cl cfg accs v =
     (if xc_UnlockPassword cfg = [] then (v, Inr ())
      else case tc_UnlockTrade cl v TrdEnvReal (xc_UnlockPassword cfg)
                  (accountSecurityFirm accs (acct_BrokerAccID (xc_Account cfg))) of
        (v1, Inr _) \<Rightarrow> (v1, Inr ())
      | (v1, Inl e) \<Rightarrow> (v1, if isGUIUnlockDisabled e then Inr () else Inl e))"

definition activateReal :: "'v TradeClient \<Rightarrow> ExecConfig \<Rightarrow> 'v \<Rightarrow> 'v \<times> unit result" where
  "activateReal cl cfg v =
     (if xc_ConfirmationPhrase cfg \<noteq> LiveConfirmationPhrase then (v, Inl ErrInvalidArgument)
      else if xc_TraderID cfg \<noteq> LiveTraderID then (v, Inl ErrInvalidArgument)
      else case tc_GetAccList cl v TrdEnvReal of
        (v1, Inl e) \<Rightarrow> (v1, Inl e)
      | (v1, Inr accs) \<Rightarrow>
          if \<not> accountExists accs (acct_BrokerAccID (xc_Account cfg)) then (v1, Inl ErrInvalidArgument)
          else unlockReal cl cfg accs v1)"

definition bindEnv :: "'v TradeClient \<Rightarrow> ExecConfig \<Rightarrow> 'v \<Rightarrow> 'v \<times> TrdEnv result" where
  "bindEnv cl cfg v =
     (if acct_Env (xc_Account cfg) = EnvPaper then
        (v, if xc_TraderID cfg = LiveTraderID then Inl ErrInvalidArgument else Inr TrdEnvSimulate)
      else if acct_Env (xc_Account cfg) = EnvReal then
        (case activateReal cl cfg v of (v1, r) \<Rightarrow> (v1, map_sum id (\<lambda>_. TrdEnvReal) r))
      else (v, Inr 0))"

definition New :: "'v TradeClient \<Rightarrow> ExecConfig \<Rightarrow> Account \<Rightarrow> 'v \<Rightarrow> 'v \<times> 'v MoomooExecutor result" where
  "New cl cfg book v =
     (if \<not> BrokerEnv_IsBroker (acct_Env (xc_Account cfg)) then (v, Inl ErrInvalidArgument)
      else if \<not> xc_hasClient cfg then (v, Inl ErrInvalidArgument)
      else if acct_BrokerAccID (xc_Account cfg) = 0 then (v, Inl ErrInvalidArgument)
      else if \<not> xc_hasSink cfg \<or> \<not> xc_hasBook cfg then (v, Inl ErrInvalidArgument)
      else case bindEnv cl cfg v of
        (v1, Inl e) \<Rightarrow> (v1, Inl e)
      | (v1, Inr env) \<Rightarrow>
          (case tc_SubscribeOrderUpdates cl v1 of
             (v2, Inl e) \<Rightarrow> (v2, Inl e)
           | (v2, Inr _) \<Rightarrow>
               (case tc_SubscribeFillUpdates cl v2 of
                  (v3, Inl e) \<Rightarrow> (v3, Inl e)
                | (v3, Inr _) \<Rightarrow> (v3, Inr
                    \<lparr>xs_env = env, xs_accID = acct_BrokerAccID (xc_Account cfg), xs_seq = 0, xs_orders = [],
                     xs_venIndex = [], xs_submitted = 0, xs_rejected = 0, xs_fillsEmit = 0, xs_book = book,
                     xs_out = [], xs_venue = v3\<rparr>))))"

definition IsLive :: "'v MoomooExecutor \<Rightarrow> bool" where
  "IsLive e \<longleftrightarrow> xs_env e = TrdEnvReal"

section \<open>Outputs\<close>

definition emitOut :: "bool \<Rightarrow> ExecOut \<Rightarrow> 'v MoomooExecutor \<Rightarrow> 'v MoomooExecutor" where
  "emitOut present x e = (if present then e\<lparr>xs_out := xs_out e @ [x]\<rparr> else e)"

definition persistOrder :: "ExecConfig \<Rightarrow> Order \<Rightarrow> 'v MoomooExecutor \<Rightarrow> 'v MoomooExecutor" where
  "persistOrder cfg od e = emitOut (xc_hasPersist cfg) (OutOrder od) e"

definition persistFill :: "ExecConfig \<Rightarrow> Fill \<Rightarrow> 'v MoomooExecutor \<Rightarrow> 'v MoomooExecutor" where
  "persistFill cfg f e = emitOut (xc_hasPersist cfg) (OutFill f) e"

definition persistPosition :: "ExecConfig \<Rightarrow> PositionSnap \<Rightarrow> 'v MoomooExecutor \<Rightarrow> 'v MoomooExecutor" where
  "persistPosition cfg p e = emitOut (xc_hasPersist cfg) (OutPosition p) e"

definition recordRisk :: "ExecConfig \<Rightarrow> string \<Rightarrow> string \<Rightarrow> string \<Rightarrow> 'v MoomooExecutor \<Rightarrow> 'v MoomooExecutor" where
  "recordRisk cfg sid sy rule e = emitOut (xc_hasRisk cfg) (OutRisk sid sy rule) e"

section \<open>Submission\<close>

definition nextClientOrderID :: "'v MoomooExecutor \<Rightarrow> 'v MoomooExecutor \<times> string" where
  "nextClientOrderID e =
     (e\<lparr>xs_seq := xs_seq e + 1\<rparr>,
      (if xs_env e = TrdEnvReal then ''LIVE'' else ''PAPER'') @ ''-O-'' @ fmtUint (xs_seq e))"

definition assertEnvInvariants :: "ExecConfig \<Rightarrow> PlaceOrderRequest \<Rightarrow> 'v MoomooExecutor \<Rightarrow> unit result" where
  "assertEnvInvariants cfg req e =
     (if rq_TrdEnv req \<noteq> xs_env e then Inl ErrInvalidArgument
      else if rq_AccID req \<noteq> xs_accID e then Inl ErrInvalidArgument
      else if xs_env e = TrdEnvReal \<and> xc_TraderID cfg \<noteq> LiveTraderID then Inl ErrInvalidArgument
      else Inr ())"

definition registerOrder :: "string \<Rightarrow> string \<Rightarrow> string \<Rightarrow> OrderSide \<Rightarrow> Qty \<Rightarrow> 'v MoomooExecutor \<Rightarrow> 'v MoomooExecutor" where
  "registerOrder coid sid sy side qty e =
     (case mapGet (xs_orders e) coid of
        Some _ \<Rightarrow> e
      | None \<Rightarrow> e\<lparr>xs_orders := mapSet coid
          \<lparr>os_ClientOrderID = coid, os_VenueOrderID = [], os_StrategyID = sid, os_Symbol = sy, os_Side = side,
           os_OrderQty = qty, os_Status = OrderStatusSubmitted, os_CumQty = 0, os_CumNotional = 0, os_fillSeq = 0\<rparr>
          (xs_orders e)\<rparr>)"

text \<open>An assignment through the pointer the map holds for an order.\<close>

definition updOrder :: "string \<Rightarrow> (OrderState \<Rightarrow> OrderState) \<Rightarrow> 'v MoomooExecutor \<Rightarrow> 'v MoomooExecutor" where
  "updOrder coid g e =
     (case mapGet (xs_orders e) coid of None \<Rightarrow> e | Some st \<Rightarrow> e\<lparr>xs_orders := mapSet coid (g st) (xs_orders e)\<rparr>)"

text \<open>The text of an error, without what was wrapped around it.\<close>

definition errText :: "go_error \<Rightarrow> string" where
  "errText e =
     (case e of ErrPlain s \<Rightarrow> s
      | ErrOverflow \<Rightarrow> ''domain: numeric overflow''
      | ErrInvalidNumber \<Rightarrow> ''domain: invalid numeric literal''
      | ErrInexact \<Rightarrow> ''domain: value not representable at 1e-4 scale''
      | ErrNotFinite \<Rightarrow> ''domain: not a finite number''
      | ErrInvalidArgument \<Rightarrow> ''domain: invalid argument''
      | _ \<Rightarrow> [])"

definition placeFailed :: "ExecConfig \<Rightarrow> Order \<Rightarrow> go_error \<Rightarrow> 'v MoomooExecutor \<Rightarrow> 'v MoomooExecutor" where
  "placeFailed cfg od err e =
     (let e1 = updOrder (ord_ClientOrderID od) (\<lambda>st. st\<lparr>os_Status := OrderStatusRejected\<rparr>) e;
          e2 = persistOrder cfg (od\<lparr>ord_Status := OrderStatusRejected, ord_Reason := errText err\<rparr>) e1
      in recordRisk cfg (ord_StrategyID od) (ord_Symbol od) ''exec.place_failed'' e2)"

definition placeBound :: "string \<Rightarrow> string \<Rightarrow> 'v MoomooExecutor \<Rightarrow> 'v MoomooExecutor" where
  "placeBound coid vid e =
     (let e1 = updOrder coid (\<lambda>st. st\<lparr>os_VenueOrderID := vid\<rparr>) e;
          e2 = (if vid \<noteq> [] then e1\<lparr>xs_venIndex := mapSet vid coid (xs_venIndex e1)\<rparr> else e1)
      in e2\<lparr>xs_submitted := xs_submitted e2 + 1\<rparr>)"

definition placeRequest :: "string \<Rightarrow> string \<Rightarrow> OrderSide \<Rightarrow> Qty \<Rightarrow> 'v MoomooExecutor \<Rightarrow> PlaceOrderRequest" where
  "placeRequest coid sy side qty e =
     \<lparr>rq_AccID = xs_accID e, rq_TrdEnv = xs_env e, rq_ClientOrderID = coid, rq_Symbol = sy, rq_Side = side,
      rq_Type = OrderTypeMarket, rq_TIF = TIFGTC, rq_Qty = qty, rq_Price = 0\<rparr>"

definition place :: "'v TradeClient \<Rightarrow> ExecConfig \<Rightarrow> string \<Rightarrow> string \<Rightarrow> string \<Rightarrow> OrderSide \<Rightarrow> Qty \<Rightarrow> string \<Rightarrow> gotime \<Rightarrow>
    'v MoomooExecutor \<Rightarrow> 'v MoomooExecutor \<times> string result" where
  "place cl cfg coid sid sy side qty reason ts e =
     (let od = NewMarketOrder coid sid sy side qty reason ts in
      case Order_Validate od of
        Inl err \<Rightarrow> (e, Inl err)
      | Inr _ \<Rightarrow>
          (let req = placeRequest coid sy side qty e in
           case assertEnvInvariants cfg req e of
             Inl err \<Rightarrow> (recordRisk cfg sid sy ''safety.env_invariant'' (e\<lparr>xs_rejected := xs_rejected e + 1\<rparr>), Inl err)
           | Inr _ \<Rightarrow>
               (let e1 = persistOrder cfg od (registerOrder coid sid sy side qty e);
                    (v, res) = tc_PlaceOrder cl (xs_venue e1) req;
                    e2 = emitOut True (OutPlace req) e1\<lparr>xs_venue := v\<rparr>
                in case res of
                     Inl err \<Rightarrow> (placeFailed cfg od err e2, Inl err)
                   | Inr vid \<Rightarrow> (placeBound coid vid e2, Inr vid))))"

definition MoomooExecutor_SubmitMarket :: "'v TradeClient \<Rightarrow> ExecConfig \<Rightarrow> string \<Rightarrow> string \<Rightarrow> OrderSide \<Rightarrow> Qty \<Rightarrow> string \<Rightarrow> gotime \<Rightarrow>
    'v MoomooExecutor \<Rightarrow> 'v MoomooExecutor \<times> string \<times> unit result" where
  "MoomooExecutor_SubmitMarket cl cfg sid sy side qty reason ts e =
     (let (e1, coid) = nextClientOrderID e
      in case place cl cfg coid sid sy side qty reason ts e1 of
           (e2, Inl err) \<Rightarrow> (e2, coid, Inl err)
         | (e2, Inr _) \<Rightarrow> (e2, coid, Inr ()))"

definition MoomooExecutor_SubmitMarketSignal :: "'v TradeClient \<Rightarrow> ExecConfig \<Rightarrow> string \<Rightarrow> string \<Rightarrow> SignalSide \<Rightarrow> OrderSide \<Rightarrow> Qty \<Rightarrow>
    string \<Rightarrow> gotime \<Rightarrow> 'v MoomooExecutor \<Rightarrow> 'v MoomooExecutor \<times> string \<times> bool \<times> unit result" where
  "MoomooExecutor_SubmitMarketSignal cl cfg sid sy signalSide orderSide qty reason ts e =
     (let (e1, coid) = nextClientOrderID e
      in case place cl cfg coid sid sy orderSide qty reason ts e1 of
           (e2, Inl err) \<Rightarrow> (e2, coid, False, Inl err)
         | (e2, Inr _) \<Rightarrow> (e2, coid, True, Inr ()))"

definition NetPosition :: "'v MoomooExecutor \<Rightarrow> string \<Rightarrow> string \<Rightarrow> Qty" where
  "NetPosition e sid sy = (case AccountAdapter_Position (xs_book e) sid sy of None \<Rightarrow> 0 | Some p \<Rightarrow> pos_SignedQty p)"

section \<open>Pushes\<close>

text \<open>The tracked order of a push, by the key it is tracked under.\<close>

definition lookup_order :: "OrderUpdate \<Rightarrow> 'v MoomooExecutor \<Rightarrow> 'v MoomooExecutor \<times> string option" where
  "lookup_order u e =
     (case (if ou_ClientOrderID u \<noteq> [] then mapGet (xs_orders e) (ou_ClientOrderID u) else None) of
        Some st \<Rightarrow>
          ((if os_VenueOrderID st = [] \<and> ou_VenueOrderID u \<noteq> [] then
              (updOrder (ou_ClientOrderID u) (\<lambda>st. st\<lparr>os_VenueOrderID := ou_VenueOrderID u\<rparr>) e)
                \<lparr>xs_venIndex := mapSet (ou_VenueOrderID u) (ou_ClientOrderID u) (xs_venIndex e)\<rparr>
            else e), Some (ou_ClientOrderID u))
      | None \<Rightarrow> (e, if ou_VenueOrderID u \<noteq> [] then mapGet (xs_venIndex e) (ou_VenueOrderID u) else None))"

definition orderSnapshot :: "gotime \<Rightarrow> OrderState \<Rightarrow> OrderStatus \<Rightarrow> Order" where
  "orderSnapshot now st status =
     \<lparr>ord_ClientOrderID = os_ClientOrderID st, ord_VenueOrderID = os_VenueOrderID st, ord_StrategyID = os_StrategyID st,
      ord_Symbol = os_Symbol st, ord_Side = os_Side st, ord_Type = OrderTypeMarket, ord_TIF = TIFGTC,
      ord_Qty = os_OrderQty st, ord_LimitPrice = None, ord_StopPrice = None, ord_Status = status,
      ord_FilledQty = os_CumQty st,
      ord_AvgFillPx = (if 0 < sint (os_CumQty st) then go_quo (os_CumNotional st) (os_CumQty st) else 0),
      ord_Reason = [], ord_TS = now\<rparr>"

definition applyFillEffect :: "ExecConfig \<Rightarrow> Fill \<Rightarrow> 'v MoomooExecutor \<Rightarrow> 'v MoomooExecutor" where
  "applyFillEffect cfg f e =
     (case AccountAdapter_ApplyFill (xs_book e) f of
        (b, Inl _) \<Rightarrow> e\<lparr>xs_book := b\<rparr>
      | (b, Inr pos) \<Rightarrow>
          (let e1 = persistPosition cfg pos (persistFill cfg f (e\<lparr>xs_book := b\<rparr>));
               e2 = emitOut (xc_hasSink cfg) (OutEmit f) e1
           in e2\<lparr>xs_fillsEmit := xs_fillsEmit e2 + 1\<rparr>))"

fun applyEffects :: "ExecConfig \<Rightarrow> gotime \<Rightarrow> OrderState \<Rightarrow> Effect list \<Rightarrow> 'v MoomooExecutor \<Rightarrow> 'v MoomooExecutor" where
  "applyEffects cfg now st [] e = e"
| "applyEffects cfg now st (EffectAccepted s # effs) e =
     applyEffects cfg now st effs (persistOrder cfg (orderSnapshot now st s) e)"
| "applyEffects cfg now st (EffectFill f # effs) e = applyEffects cfg now st effs (applyFillEffect cfg f e)"
| "applyEffects cfg now st (EffectDrift # effs) e = applyEffects cfg now st effs e"
| "applyEffects cfg now st (EffectStatus s fillReversed # effs) e =
     applyEffects cfg now st effs (persistOrder cfg (orderSnapshot now st s)
       (if fillReversed then recordRisk cfg (os_StrategyID st) (os_Symbol st) ''exec.fill_cancelled'' e else e))"

definition onOrderUpdate :: "ExecConfig \<Rightarrow> gotime \<Rightarrow> OrderUpdate \<Rightarrow> 'v MoomooExecutor \<Rightarrow> 'v MoomooExecutor" where
  "onOrderUpdate cfg now u e =
     (case lookup_order u e of
        (e1, None) \<Rightarrow> e1
      | (e1, Some coid) \<Rightarrow>
          (case mapGet (xs_orders e1) coid of
             None \<Rightarrow> e1
           | Some st \<Rightarrow>
               (case Apply tradeID now st u of
                  (st1, r) \<Rightarrow>
                    (let e2 = e1\<lparr>xs_orders := mapSet coid st1 (xs_orders e1)\<rparr>
                     in case r of Inl _ \<Rightarrow> e2 | Inr effs \<Rightarrow> applyEffects cfg now st1 effs e2))))"

text \<open>The corroborating fill push only logs; what it computes is whether the order is known.\<close>

definition onFillUpdate :: "FillUpdate \<Rightarrow> 'v MoomooExecutor \<Rightarrow> 'v MoomooExecutor \<times> bool" where
  "onFillUpdate fu e =
     (let coid = (if fu_ClientOrderID fu = [] \<and> fu_VenueOrderID fu \<noteq> []
                  then (case mapGet (xs_venIndex e) (fu_VenueOrderID fu) of None \<Rightarrow> [] | Some c \<Rightarrow> c)
                  else fu_ClientOrderID fu)
      in (e, mapGet (xs_orders e) coid \<noteq> None))"

definition TrackedOrders :: "'v MoomooExecutor \<Rightarrow> OrderState list" where
  "TrackedOrders e = sort_key os_ClientOrderID (map snd (xs_orders e))"

section \<open>The quantities of the book\<close>

definition netOf :: "Account \<Rightarrow> StrategySymbol \<Rightarrow> Qty" where
  "netOf a key = signedQty (posOf a key)"

definition signedQtyOf :: "OrderSide \<Rightarrow> Qty \<Rightarrow> Qty" where
  "signedQtyOf side q = (if side = OrderSideBuy then q else - q)"

definition bookKeys :: "Account \<Rightarrow> bool" where
  "bookKeys a \<longleftrightarrow> mapWf (positions a) \<and> list_all (\<lambda>(k, p). k = (strategyID p, symbol p)) (positions a)"

lemma legs_qty: "signedQty (fst (openLeg p q px)) = signedQty p" "signedQty (fst (closeLeg p q px prev)) = signedQty p"
  by (simp_all add: openLeg_def closeLeg_def Let_def split: sum.splits)

lemma applyTransition_qty: "applyTransition p f new = (q, r) \<Longrightarrow> signedQty q = signedQty p"
proof -
  have o: "openLeg q x y = (q', r) \<Longrightarrow> signedQty q' = signedQty q" for q x y q' r using legs_qty(1) [of q x y] by simp
  have c: "closeLeg q x y z = (q', r) \<Longrightarrow> signedQty q' = signedQty q" for q x y z q' r using legs_qty(2) [of q x y z] by simp
  assume "applyTransition p f new = (q, r)"
  then show ?thesis
    by (cases "classify (signedQty p) new") (auto simp: applyTransition_def Let_def dest!: o c split: prod.splits sum.splits)
qed

lemma word_of_sint: "sint (n :: int64) = sint x + sint d \<Longrightarrow> n = x + d" "sint (n :: int64) = - sint x \<Longrightarrow> n = - x"
  by (metis i64_sint word_plus_i64) (metis i64_sint word_uminus_i64)

lemma fillDelta_signed: "fillDelta f = Inr d \<Longrightarrow> d = signedQtyOf (fill_Side f) (fill_Qty f)"
  by (auto simp: fillDelta_def signedQtyOf_def money_ok OrderSide_distinct intro: word_of_sint split: if_splits)

lemma ApplyFill_qty_cases:
  assumes "ApplyFill p f = (p', r)"
  shows "(\<exists>x. r = Inr x) \<and> signedQty p' = signedQty p + signedQtyOf (fill_Side f) (fill_Qty f) \<or> \<not> isOk r \<and> signedQty p' = signedQty p"
proof -
  have "Qty_Add x d = Inr n \<Longrightarrow> n = x + d" for x d n :: Qty
    by (auto simp: money_ok intro: word_of_sint)
  then show ?thesis
    using assms by (auto simp: ApplyFill_def dest!: applyTransition_qty fillDelta_signed split: if_splits sum.splits prod.splits)
qed

text \<open>What settling a fill does to the quantities, also when it is refused.\<close>

lemma Account_ApplyFill_cases:
  assumes "Account_ApplyFill a f = (a', r)"
  obtains (invalid) "a' = a" "\<not> isOk r" "Fill_Validate f \<noteq> Inr ()"
  | (settled) p s where "ApplyFill (posOf a (fillKey f)) f = (p, s)" "positions a' = mapSet (fillKey f) p (positions a)"
      "Fill_Validate f = Inr ()" "isOk r \<Longrightarrow> isOk s"
proof (cases "Fill_Validate f")
  case (Inl e)
  then show ?thesis using assms invalid by (auto simp: Account_ApplyFill_def)
next
  case (Inr u)
  obtain a1 where pos: "position a (fill_StrategyID f) (fill_Symbol f) = (a1, posOf a (fillKey f))"
    and a1: "\<And>p. mapSet (fillKey f) p (positions a1) = mapSet (fillKey f) p (positions a)"
    by (cases "mapGet (positions a) (fillKey f)") (auto simp: position_def posOf_def mapSet_self Let_def fillKey_def)
  obtain p s where ap: "ApplyFill (posOf a (fillKey f)) f = (p, s)" by fastforce
  have "positions a' = mapSet (fillKey f) p (positions a)" "isOk r \<Longrightarrow> isOk s"
    using assms a1 [of p]
    by (auto simp: Account_ApplyFill_def Inr pos ap Let_def emitAccountState_def simp flip: fillKey_def split: sum.splits prod.splits if_splits)
  then show ?thesis using settled ap Inr by auto
qed


lemma posOf_keys: "bookKeys a \<Longrightarrow> (strategyID (posOf a k), symbol (posOf a k)) = k"
  by (cases "mapGet (positions a) k") (auto simp: posOf_def bookKeys_def list_all_iff dest!: mapGet_SomeD)

lemma netOf_settle:
  assumes "Account_ApplyFill a f = (a', r)"
  shows "k \<noteq> fillKey f \<Longrightarrow> netOf a' k = netOf a k"
    and "isOk r \<Longrightarrow> netOf a' (fillKey f) = netOf a (fillKey f) + signedQtyOf (fill_Side f) (fill_Qty f)"
    and "netOf a' (fillKey f) \<in> {netOf a (fillKey f), netOf a (fillKey f) + signedQtyOf (fill_Side f) (fill_Qty f)}"
    and "isOk r \<Longrightarrow> Fill_Validate f = Inr ()"
    and "bookKeys a \<Longrightarrow> bookKeys a'"
proof (atomize (full), goal_cases)
  case 1
  show ?case using assms
  proof (cases rule: Account_ApplyFill_cases)
    case (settled p s)
    have "posOf a' k' = (if k' = fillKey f then p else posOf a k')" for k' using settled(2) by (simp add: posOf_def)
    moreover have "bookKeys a \<Longrightarrow> bookKeys a'"
      using settled(2) ApplyFill_keys [OF settled(1)] posOf_keys [of a "fillKey f"]
      by (auto simp: bookKeys_def intro!: list_all_mapSet)
    ultimately show ?thesis using ApplyFill_qty_cases [OF settled(1)] settled(3,4) by (auto simp: netOf_def)
  qed auto
qed

lemma NetPosition_netOf: "NetPosition e sid sy = netOf (xs_book e) (sid, sy)"
  by (simp add: NetPosition_def AccountAdapter_Position_def Account_Position_def netOf_def posOf_def Position_Snapshot_def
      split: option.splits)

definition rowKey :: "PositionSnap \<Rightarrow> StrategySymbol" where
  "rowKey p = (pos_StrategyID p, pos_Symbol p)"

lemma OpenPositions_rows:
  assumes "bookKeys a"
  shows "map (\<lambda>p. (rowKey p, pos_SignedQty p)) (OpenPositions a) =
     map (\<lambda>k. (k, netOf a k)) (filter (\<lambda>k. netOf a k \<noteq> 0) (sortKeys (positions a)))"
proof -
  have "map (\<lambda>p. (rowKey p, pos_SignedQty p)) (map Position_Snapshot (filter (\<lambda>p. \<not> Position_IsFlat p) (lookupAll (positions a) ks))) =
     map (\<lambda>k. (k, netOf a k)) (filter (\<lambda>k. netOf a k \<noteq> 0) ks)" if "set ks \<subseteq> set (mapKeys (positions a))" for ks
    using that
  proof (induction ks)
    case (Cons k ks)
    then obtain p where p: "mapGet (positions a) k = Some p" by (auto simp: mapGet_in_keys [symmetric])
    then have "k = (strategyID p, symbol p)" using assms by (auto simp: bookKeys_def list_all_iff dest!: mapGet_SomeD)
    then show ?case using Cons p
      by (simp add: lookupAll_def map_filter_simps rowKey_def Position_Snapshot_def netOf_def posOf_def Position_IsFlat_def)
  qed (simp add: lookupAll_def map_filter_simps)
  from this [of "sortKeys (positions a)"] show ?thesis by (simp add: OpenPositions_def sortKeys_def)
qed

lemma OpenPositions_iff:
  assumes "bookKeys a"
  shows "p \<in> set (OpenPositions a) \<Longrightarrow> pos_SignedQty p = netOf a (rowKey p) \<and> netOf a (rowKey p) \<noteq> 0"
    and "netOf a k \<noteq> 0 \<Longrightarrow> \<exists>p \<in> set (OpenPositions a). rowKey p = k"
    and "distinct (map rowKey (OpenPositions a))"
proof -
  note R = OpenPositions_rows [OF assms]
  have k: "map rowKey (OpenPositions a) = filter (\<lambda>k. netOf a k \<noteq> 0) (sortKeys (positions a))"
    using arg_cong [OF R, of "map fst"] by (simp add: comp_def)
  show "pos_SignedQty p = netOf a (rowKey p) \<and> netOf a (rowKey p) \<noteq> 0" if "p \<in> set (OpenPositions a)"
  proof -
    have "(rowKey p, pos_SignedQty p) \<in> set (map (\<lambda>p. (rowKey p, pos_SignedQty p)) (OpenPositions a))" using that by auto
    then show ?thesis unfolding R by auto
  qed
  show "\<exists>p \<in> set (OpenPositions a). rowKey p = k" if "netOf a k \<noteq> 0"
  proof -
    have "k \<in> set (mapKeys (positions a))" using that mapGet_in_keys [of "positions a" k]
      by (auto simp: netOf_def posOf_def split: option.splits)
    then have "k \<in> set (map rowKey (OpenPositions a))" unfolding k using that by (simp add: sortKeys_def)
    then show ?thesis by auto
  qed
  show "distinct (map rowKey (OpenPositions a))"
    unfolding k using assms by (simp add: sortKeys_def bookKeys_def mapWf_def mapKeys_def)
qed

section \<open>The invariant of the executor\<close>

definition outOk :: "ExecConfig \<Rightarrow> TrdEnv \<Rightarrow> uint64 \<Rightarrow> ExecOut \<Rightarrow> bool" where
  "outOk cfg env acc x =
     (case x of
        OutPlace rq \<Rightarrow> PlaceOrderRequest_Validate rq = Inr () \<and> rq_TrdEnv rq = env \<and> rq_AccID rq = acc \<and>
          (env = TrdEnvReal \<longrightarrow> xc_TraderID cfg = LiveTraderID)
      | OutFill f \<Rightarrow> Fill_Validate f = Inr ()
      | OutEmit f \<Rightarrow> Fill_Validate f = Inr ()
      | _ \<Rightarrow> True)"

definition tracked :: "(string, OrderState) gomap \<Rightarrow> (string, string) gomap \<Rightarrow> bool" where
  "tracked orders index \<longleftrightarrow> mapWf orders \<and>
     (\<forall>k st. mapGet orders k = Some st \<longrightarrow> os_ClientOrderID st = k \<and> k \<noteq> []) \<and>
     (\<forall>v k. mapGet index v = Some k \<longrightarrow> mapGet orders k \<noteq> None)"

definition execInv :: "ExecConfig \<Rightarrow> 'v MoomooExecutor \<Rightarrow> bool" where
  "execInv cfg e \<longleftrightarrow> xs_accID e \<noteq> 0 \<and> TrdEnv_IsValid (xs_env e) \<and> bookKeys (xs_book e) \<and>
     tracked (xs_orders e) (xs_venIndex e) \<and> list_all (outOk cfg (xs_env e) (xs_accID e)) (xs_out e)"

text \<open>A step keeps the binding and the invariant.\<close>

definition keeps :: "ExecConfig \<Rightarrow> 'v MoomooExecutor \<Rightarrow> 'v MoomooExecutor \<Rightarrow> bool" where
  "keeps cfg e e' \<longleftrightarrow> xs_env e' = xs_env e \<and> xs_accID e' = xs_accID e \<and> (execInv cfg e \<longrightarrow> execInv cfg e')"

lemma keeps_refl [simp]: "keeps cfg e e"
  by (simp add: keeps_def)

lemma keeps_trans [trans]: "keeps cfg a b \<Longrightarrow> keeps cfg b c \<Longrightarrow> keeps cfg a c"
  by (simp add: keeps_def)

lemma emitOut_sel [simp]:
  "xs_env (emitOut b x e) = xs_env e" "xs_accID (emitOut b x e) = xs_accID e" "xs_seq (emitOut b x e) = xs_seq e"
  "xs_orders (emitOut b x e) = xs_orders e" "xs_venIndex (emitOut b x e) = xs_venIndex e"
  "xs_book (emitOut b x e) = xs_book e" "xs_venue (emitOut b x e) = xs_venue e"
  "xs_fillsEmit (emitOut b x e) = xs_fillsEmit e"
  "xs_out (emitOut b x e) = xs_out e @ (if b then [x] else [])"
  by (simp_all add: emitOut_def)

lemmas emits = persistOrder_def persistFill_def persistPosition_def recordRisk_def

lemma keeps_emitOut: "outOk cfg (xs_env e) (xs_accID e) x \<Longrightarrow> keeps cfg e (emitOut b x e)"
  by (simp add: keeps_def execInv_def)

lemma keeps_emits [simp]: "keeps cfg e (persistOrder cfg od e)" "keeps cfg e (persistPosition cfg p e)"
    "keeps cfg e (recordRisk cfg sid sy rule e)"
  by (simp_all add: emits keeps_emitOut outOk_def)

lemma keeps_field [simp]: "keeps cfg e (e\<lparr>xs_venue := v\<rparr>)" "keeps cfg e (e\<lparr>xs_seq := n\<rparr>)" "keeps cfg e (e\<lparr>xs_rejected := n\<rparr>)"
    "keeps cfg e (e\<lparr>xs_submitted := n\<rparr>)" "keeps cfg e (e\<lparr>xs_fillsEmit := n\<rparr>)"
  by (simp_all add: keeps_def execInv_def)

lemma tracked_set:
  "tracked os ix \<Longrightarrow> os_ClientOrderID st = k \<Longrightarrow> k \<noteq> [] \<Longrightarrow> tracked (mapSet k st os) ix"
  by (auto simp: tracked_def)

lemma tracked_index: "tracked os ix \<Longrightarrow> mapGet os k \<noteq> None \<Longrightarrow> tracked os (mapSet v k ix)"
  by (auto simp: tracked_def)

lemma keeps_updOrder: "(\<And>st. os_ClientOrderID (g st) = os_ClientOrderID st) \<Longrightarrow> keeps cfg e (updOrder coid g e)"
  by (auto simp: keeps_def execInv_def updOrder_def tracked_def split: option.splits)

lemma updOrder_get: "mapGet (xs_orders (updOrder c g e)) k = (if k = c then map_option g (mapGet (xs_orders e) c) else mapGet (xs_orders e) k)"
  by (simp add: updOrder_def split: option.splits)

lemma updOrder_sel [simp]:
  "xs_env (updOrder c g e) = xs_env e" "xs_accID (updOrder c g e) = xs_accID e" "xs_seq (updOrder c g e) = xs_seq e"
  "xs_venIndex (updOrder c g e) = xs_venIndex e" "xs_book (updOrder c g e) = xs_book e" "xs_venue (updOrder c g e) = xs_venue e"
  "xs_fillsEmit (updOrder c g e) = xs_fillsEmit e" "xs_out (updOrder c g e) = xs_out e"
  by (simp_all add: updOrder_def split: option.splits)

lemma keeps_index: "mapGet (xs_orders e) k \<noteq> None \<Longrightarrow> keeps cfg e (e\<lparr>xs_venIndex := mapSet v k (xs_venIndex e)\<rparr>)"
  by (auto simp: keeps_def execInv_def tracked_index)

lemma keeps_register: "coid \<noteq> [] \<Longrightarrow> keeps cfg e (registerOrder coid sid sy side qty e)"
  by (auto simp: keeps_def execInv_def registerOrder_def tracked_set split: option.splits)

lemma register_get: "mapGet (xs_orders (registerOrder coid sid sy side qty e)) coid \<noteq> None"
  by (auto simp: registerOrder_def split: option.splits)

lemma keeps_placeFailed: "keeps cfg e (placeFailed cfg od err e)"
proof -
  let ?e1 = "updOrder (ord_ClientOrderID od) (\<lambda>st. st\<lparr>os_Status := OrderStatusRejected\<rparr>) e"
  have "keeps cfg e ?e1" by (rule keeps_updOrder) simp
  also have "keeps cfg ?e1 (persistOrder cfg (od\<lparr>ord_Status := OrderStatusRejected, ord_Reason := errText err\<rparr>) ?e1)" by simp
  finally show ?thesis unfolding placeFailed_def Let_def by (blast intro: keeps_trans keeps_emits)
qed

lemma keeps_placeBound:
  assumes "mapGet (xs_orders e) coid \<noteq> None"
  shows "keeps cfg e (placeBound coid vid e)"
proof -
  let ?e1 = "updOrder coid (\<lambda>st. st\<lparr>os_VenueOrderID := vid\<rparr>) e"
  have 1: "keeps cfg e ?e1" by (rule keeps_updOrder) simp
  have "mapGet (xs_orders ?e1) coid \<noteq> None" using assms by (auto simp: updOrder_get)
  then have "keeps cfg ?e1 (if vid \<noteq> [] then ?e1\<lparr>xs_venIndex := mapSet vid coid (xs_venIndex ?e1)\<rparr> else ?e1)"
    using keeps_index [of ?e1 coid cfg vid] by auto
  with 1 show ?thesis unfolding placeBound_def Let_def by (blast intro: keeps_trans keeps_field)
qed

lemma placeRequest_ok:
  assumes "Order_Validate (NewMarketOrder coid sid sy side qty reason ts) = Inr u"
    and "assertEnvInvariants cfg (placeRequest coid sy side qty e) e = Inr w" "execInv cfg e"
  shows "outOk cfg (xs_env e) (xs_accID e) (OutPlace (placeRequest coid sy side qty e))" "coid \<noteq> []"
  using assms
  by (auto simp: outOk_def placeRequest_def PlaceOrderRequest_Validate_def checkAll_Inr Order_Validate_def NewMarketOrder_def
      assertEnvInvariants_def execInv_def OrderSide_IsValid_def split: if_splits)


text \<open>The executor as the venue answers a request it was sent.\<close>

definition sentState :: "ExecConfig \<Rightarrow> string \<Rightarrow> string \<Rightarrow> string \<Rightarrow> OrderSide \<Rightarrow> Qty \<Rightarrow> string \<Rightarrow> gotime \<Rightarrow> 'v \<Rightarrow>
    'v MoomooExecutor \<Rightarrow> 'v MoomooExecutor" where
  "sentState cfg coid sid sy side qty reason ts v e =
     emitOut True (OutPlace (placeRequest coid sy side qty e))
       (persistOrder cfg (NewMarketOrder coid sid sy side qty reason ts) (registerOrder coid sid sy side qty e))\<lparr>xs_venue := v\<rparr>"

lemma register_sel [simp]: "xs_venue (registerOrder coid sid sy side qty e) = xs_venue e"
    "xs_env (registerOrder coid sid sy side qty e) = xs_env e" "xs_accID (registerOrder coid sid sy side qty e) = xs_accID e"
    "xs_book (registerOrder coid sid sy side qty e) = xs_book e" "xs_seq (registerOrder coid sid sy side qty e) = xs_seq e"
    "xs_out (registerOrder coid sid sy side qty e) = xs_out e" "xs_venIndex (registerOrder coid sid sy side qty e) = xs_venIndex e"
  by (simp_all add: registerOrder_def split: option.splits)

lemma place_cases:
  assumes "place cl cfg coid sid sy side qty reason ts e = (e', r)"
  obtains (refused) err where "r = Inl err"
      "e' = e \<or> e' = recordRisk cfg sid sy ''safety.env_invariant'' (e\<lparr>xs_rejected := xs_rejected e + 1\<rparr>)"
  | (sent) v res where "Order_Validate (NewMarketOrder coid sid sy side qty reason ts) = Inr ()"
      "assertEnvInvariants cfg (placeRequest coid sy side qty e) e = Inr ()"
      "tc_PlaceOrder cl (xs_venue e) (placeRequest coid sy side qty e) = (v, res)" "r = res"
      "e' = (case res of Inl err \<Rightarrow> placeFailed cfg (NewMarketOrder coid sid sy side qty reason ts) err (sentState cfg coid sid sy side qty reason ts v e)
             | Inr vid \<Rightarrow> placeBound coid vid (sentState cfg coid sid sy side qty reason ts v e))"
proof (cases "isOk (Order_Validate (NewMarketOrder coid sid sy side qty reason ts)) \<and> isOk (assertEnvInvariants cfg (placeRequest coid sy side qty e) e)")
  case False
  then show ?thesis using assms refused by (auto simp: place_def Let_def isOk_iff split: sum.splits)
next
  case True
  obtain v res where v: "tc_PlaceOrder cl (xs_venue e) (placeRequest coid sy side qty e) = (v, res)" by fastforce
  then show ?thesis using assms True sent [of v res]
    by (cases res) (auto simp: place_def Let_def isOk_iff emits sentState_def)
qed

lemma place_keeps: "place cl cfg coid sid sy side qty reason ts e = (e', r) \<Longrightarrow> keeps cfg e e'"
proof (cases "execInv cfg e")
  case False
  assume "place cl cfg coid sid sy side qty reason ts e = (e', r)"
  from this False show ?thesis
    by (cases rule: place_cases)
       (auto simp: keeps_def placeFailed_def placeBound_def emits Let_def sentState_def split: sum.splits)
next
  case inv: True
  assume "place cl cfg coid sid sy side qty reason ts e = (e', r)"
  then show ?thesis
  proof (cases rule: place_cases)
    case (refused err)
    then show ?thesis using keeps_trans [OF keeps_field(3) keeps_emits(3)] by auto
  next
    case (sent v res)
    let ?s = "sentState cfg coid sid sy side qty reason ts v e"
    note rq = placeRequest_ok [OF sent(1,2) inv]
    have "keeps cfg e (persistOrder cfg (NewMarketOrder coid sid sy side qty reason ts) (registerOrder coid sid sy side qty e))" (is "keeps _ _ ?e1")
      by (rule keeps_trans [OF keeps_register [OF rq(2)] keeps_emits(1)])
    also have "keeps cfg ?e1 (emitOut True (OutPlace (placeRequest coid sy side qty e)) ?e1)"
      using rq(1) by (intro keeps_emitOut) (simp add: emits)
    finally have k: "keeps cfg e ?s" unfolding sentState_def by (blast intro: keeps_trans keeps_field)
    have "mapGet (xs_orders ?s) coid \<noteq> None" using register_get by (simp add: sentState_def emits)
    then have "keeps cfg ?s e'" using sent(5) by (cases res) (simp_all add: keeps_placeFailed keeps_placeBound)
    with k show ?thesis by (rule keeps_trans)
  qed
qed

lemma nextClientOrderID_keeps: "nextClientOrderID e = (e', c) \<Longrightarrow> keeps cfg e e'"
  by (auto simp: nextClientOrderID_def)

lemma SubmitMarket_keeps:
  "MoomooExecutor_SubmitMarket cl cfg sid sy side qty reason ts e = (e', r) \<Longrightarrow> keeps cfg e e'"
  "MoomooExecutor_SubmitMarketSignal cl cfg sid sy sg side qty reason ts e = (e', r2) \<Longrightarrow> keeps cfg e e'"
  by (auto simp: MoomooExecutor_SubmitMarket_def MoomooExecutor_SubmitMarketSignal_def
      split: prod.splits sum.splits dest!: nextClientOrderID_keeps [where cfg = cfg] place_keeps intro: keeps_trans)

section \<open>Pushes keep it\<close>

lemma lookup_order_keeps: "lookup_order u e = (e', c) \<Longrightarrow> keeps cfg e e'"
proof -
  assume l: "lookup_order u e = (e', c)"
  let ?c = "ou_ClientOrderID u" and ?v = "ou_VenueOrderID u"
  let ?e1 = "updOrder ?c (\<lambda>st. st\<lparr>os_VenueOrderID := ?v\<rparr>) e"
  consider "e' = e" | "e' = ?e1\<lparr>xs_venIndex := mapSet ?v ?c (xs_venIndex ?e1)\<rparr>" "mapGet (xs_orders e) ?c \<noteq> None"
    using l by (auto simp: lookup_order_def split: if_splits option.splits)
  then show ?thesis
  proof cases
    case 2
    then have "mapGet (xs_orders ?e1) ?c \<noteq> None" by (auto simp: updOrder_get)
    from keeps_index [OF this] show ?thesis unfolding 2(1) by (rule keeps_trans [OF keeps_updOrder, rotated]) simp
  qed simp
qed

lemma applyFillEffect_keeps: "keeps cfg e (applyFillEffect cfg f e)"
proof -
  obtain b r where ap: "Account_ApplyFill (xs_book e) f = (b, r)" by fastforce
  have "keeps cfg e (e\<lparr>xs_book := b\<rparr>)" using netOf_settle(5) [OF ap] by (simp add: keeps_def execInv_def)
  then show ?thesis using netOf_settle(4) [OF ap]
    by (cases r) (auto simp: applyFillEffect_def AccountAdapter_ApplyFill_def ap Let_def emits outOk_def keeps_def execInv_def)
qed

lemma applyEffects_keeps: "keeps cfg e (applyEffects cfg now st effs e)"
proof (induction cfg now st effs e rule: applyEffects.induct)
  case (2 cfg now st s effs e)
  show ?case unfolding applyEffects.simps by (rule keeps_trans [OF _ 2]) simp
next
  case (3 cfg now st f effs e)
  show ?case unfolding applyEffects.simps by (rule keeps_trans [OF applyFillEffect_keeps 3])
next
  case (5 cfg now st s fr effs e)
  show ?case unfolding applyEffects.simps
    by (rule keeps_trans [OF _ 5]) (auto intro: keeps_trans [OF keeps_emits(3) keeps_emits(1)])
qed simp_all


lemma statusStep_same: "statusStep st u = (st', effs) \<Longrightarrow> sameOrder st st' \<and> os_CumQty st' = os_CumQty st \<and>
    os_fillSeq st' = os_fillSeq st \<and> fillsOf effs = []"
  by (auto simp: statusStep_def Let_def sameOrder_def split: if_splits)

text \<open>One push yields at most one fill, of exactly what the cumulative quantity grew by.\<close>

lemma Apply_fill_cases:
  assumes "Apply tid now st u = (st', r)"
  obtains (none) "sameOrder st st'" "os_CumQty st' = os_CumQty st" "os_fillSeq st' = os_fillSeq st"
      "\<And>effs. r = Inr effs \<Longrightarrow> fillsOf effs = []"
  | (one) effs f where "sameOrder st st'" "os_fillSeq st' = os_fillSeq st + 1" "r = Inr effs" "fillsOf effs = [f]"
      "fill_Qty f = os_CumQty st' - os_CumQty st" "fillKey f = (os_StrategyID st, os_Symbol st)" "fill_Side f = os_Side st"
      "Fill_Validate f = Inr ()"
proof (cases "\<not> OrderState_IsTerminal st \<and> OrderUpdate_Class u = StatusClassFilled")
  case False
  then show ?thesis using assms by (intro none) (auto simp: Apply_def sameOrder_def split: if_splits OrderStatusClass.splits)
next
  case True
  then have ap: "sm_applyFill tid now st u = (st', r)" using assms by (simp add: Apply_def)
  show ?thesis
  proof (cases "fillDeltaStep tid now st u")
    case (Inl e)
    then show ?thesis using ap by (intro none) (auto simp: sm_applyFill_def)
  next
    case (Inr x)
    obtain st1 es where x: "x = (st1, es)" by fastforce
    obtain es2 where s: "statusStep st1 u = (st', es2)" "r = Inr (es @ es2)"
      using ap by (auto simp: sm_applyFill_def Inr x split: prod.splits)
    note ss = statusStep_same [OF s(1)]
    from Inr [unfolded x] show ?thesis
    proof (cases rule: fillDeltaStep_cases)
      case idle
      then show ?thesis using ss s(2) by (intro none) auto
    next
      case (fill f n)
      then show ?thesis using ss s(2)
        by (intro one [of "es @ es2" f]) (auto simp: buildFill_def fillKey_def sameOrder_def)
    qed
  qed
qed

lemma Apply_fill_id:
  assumes "Apply tid now st u = (st', Inr effs)" "f \<in> set (fillsOf effs)"
  shows "fill_TradeID f = tid st (os_fillSeq st)"
proof (cases "\<not> OrderState_IsTerminal st \<and> OrderUpdate_Class u = StatusClassFilled")
  case False
  then show ?thesis using assms by (auto simp: Apply_def split: if_splits OrderStatusClass.splits)
next
  case True
  then have "sm_applyFill tid now st u = (st', Inr effs)" using assms(1) by (simp add: Apply_def)
  then obtain st1 es es2 where d: "fillDeltaStep tid now st u = Inr (st1, es)" "statusStep st1 u = (st', es2)" "effs = es @ es2"
    by (auto simp: sm_applyFill_def split: sum.splits prod.splits)
  from d(1) show ?thesis
    by (cases rule: fillDeltaStep_cases) (use assms(2) d(3) statusStep_same [OF d(2)] in \<open>auto simp: buildFill_def\<close>)
qed

lemma onOrderUpdate_cases:
  obtains (unknown) e1 c where "lookup_order u e = (e1, c)" "onOrderUpdate cfg now u e = e1"
  | (pushed) e1 c st st1 r where "lookup_order u e = (e1, Some c)" "mapGet (xs_orders e1) c = Some st" "Apply tradeID now st u = (st1, r)"
      "onOrderUpdate cfg now u e =
         (case r of Inl _ \<Rightarrow> e1\<lparr>xs_orders := mapSet c st1 (xs_orders e1)\<rparr>
          | Inr effs \<Rightarrow> applyEffects cfg now st1 effs (e1\<lparr>xs_orders := mapSet c st1 (xs_orders e1)\<rparr>))"
proof (cases "lookup_order u e")
  case (Pair e1 c)
  show ?thesis
  proof (cases "case c of None \<Rightarrow> None | Some k \<Rightarrow> mapGet (xs_orders e1) k")
    case None
    then show ?thesis using Pair unknown by (auto simp: onOrderUpdate_def split: option.splits)
  next
    case (Some st)
    then obtain k where "c = Some k" by (cases c) auto
    then show ?thesis using Pair Some pushed [of e1 k st] by (cases "Apply tradeID now st u") (auto simp: onOrderUpdate_def Let_def)
  qed
qed


lemma onOrderUpdate_keeps: "keeps cfg e (onOrderUpdate cfg now u e)"
proof (cases rule: onOrderUpdate_cases [where u = u and e = e and cfg = cfg and now = now])
  case (unknown e1 c)
  then show ?thesis using lookup_order_keeps [of u e] by simp
next
  case (pushed e1 c st st1 r)
  have "sameOrder st st1" using pushed(3) by (cases rule: Apply_fill_cases) auto
  then have "keeps cfg e1 (e1\<lparr>xs_orders := mapSet c st1 (xs_orders e1)\<rparr>)"
    using pushed(2) by (auto simp: keeps_def execInv_def tracked_def sameOrder_def)
  then have "keeps cfg e (e1\<lparr>xs_orders := mapSet c st1 (xs_orders e1)\<rparr>)"
    by (rule keeps_trans [OF lookup_order_keeps [OF pushed(1)]])
  then show ?thesis using pushed(4) applyEffects_keeps by (cases r) (simp_all, blast intro: keeps_trans)
qed


section \<open>The book and the orders\<close>

definition orderKey :: "OrderState \<Rightarrow> StrategySymbol" where
  "orderKey st = (os_StrategyID st, os_Symbol st)"

definition ordersNet :: "StrategySymbol \<Rightarrow> (string, OrderState) gomap \<Rightarrow> Qty" where
  "ordersNet k m = (\<Sum>(c, st)\<leftarrow>m. if orderKey st = k then signedQtyOf (os_Side st) (os_CumQty st) else 0)"

definition fillsSeen :: "(string, OrderState) gomap \<Rightarrow> nat" where
  "fillsSeen m = (\<Sum>(c, st)\<leftarrow>m. os_fillSeq st)"

text \<open>While the book has refused no fill, what it holds is what it started with and the orders' cumulative quantities.\<close>

definition booked :: "Account \<Rightarrow> 'v MoomooExecutor \<Rightarrow> bool" where
  "booked b0 e \<longleftrightarrow> xs_fillsEmit e \<le> fillsSeen (xs_orders e) \<and>
     (xs_fillsEmit e = fillsSeen (xs_orders e) \<longrightarrow> (\<forall>k. netOf (xs_book e) k = netOf b0 k + ordersNet k (xs_orders e)))"

lemma sum_mapSet:
  "mapGet m k = Some v \<Longrightarrow>
     (\<Sum>(c, x)\<leftarrow>mapSet k v' m. g x) + g v = (\<Sum>(c, x)\<leftarrow>m. g x) + (g v' :: 'a :: comm_monoid_add)"
  by (induction m) (auto simp: mapSet_def mapGet_def ac_simps split: if_splits)

lemma orders_set:
  assumes "mapGet m c = Some st" "orderKey st' = orderKey st" "os_Side st' = os_Side st"
  shows "ordersNet k (mapSet c st' m) = ordersNet k m +
      (if k = orderKey st then signedQtyOf (os_Side st) (os_CumQty st' - os_CumQty st) else 0)"
    and "fillsSeen (mapSet c st' m) + os_fillSeq st = fillsSeen m + os_fillSeq st'"
proof -
  let ?g = "\<lambda>st. if orderKey st = k then signedQtyOf (os_Side st) (os_CumQty st) else 0"
  have "ordersNet k (mapSet c st' m) + ?g st = ordersNet k m + ?g st'"
    unfolding ordersNet_def using sum_mapSet [OF assms(1), where g = ?g] .
  moreover have "?g st' = ?g st + (if k = orderKey st then signedQtyOf (os_Side st) (os_CumQty st' - os_CumQty st) else 0)"
    using assms(2,3) by (auto simp: signedQtyOf_def)
  moreover have "x + y = z + w \<Longrightarrow> w = y + d \<Longrightarrow> x = z + d" for x y z w d :: Qty by (simp add: algebra_simps)
  ultimately show "ordersNet k (mapSet c st' m) = ordersNet k m +
      (if k = orderKey st then signedQtyOf (os_Side st) (os_CumQty st' - os_CumQty st) else 0)" by blast
  show "fillsSeen (mapSet c st' m) + os_fillSeq st = fillsSeen m + os_fillSeq st'"
    unfolding fillsSeen_def using sum_mapSet [OF assms(1), where g = os_fillSeq] .
qed

lemma orders_unchanged:
  "mapGet m c = Some st \<Longrightarrow> sameOrder st (st'\<lparr>os_VenueOrderID := os_VenueOrderID st\<rparr>) \<Longrightarrow> os_CumQty st' = os_CumQty st \<Longrightarrow>
     os_fillSeq st' = os_fillSeq st \<Longrightarrow> ordersNet k (mapSet c st' m) = ordersNet k m \<and> fillsSeen (mapSet c st' m) = fillsSeen m"
  using orders_set(1) [of m c st st' k] orders_set(2) [of m c st st'] by (simp add: orderKey_def sameOrder_def signedQtyOf_def split: if_splits)

text \<open>A change that leaves what is booked alone.\<close>

definition sameBooked :: "'v MoomooExecutor \<Rightarrow> 'v MoomooExecutor \<Rightarrow> bool" where
  "sameBooked e e' \<longleftrightarrow> xs_book e' = xs_book e \<and> xs_fillsEmit e' = xs_fillsEmit e \<and>
     fillsSeen (xs_orders e') = fillsSeen (xs_orders e) \<and> (\<forall>k. ordersNet k (xs_orders e') = ordersNet k (xs_orders e))"

lemma sameBooked_refl [simp]: "sameBooked e e"
  by (simp add: sameBooked_def)

lemma sameBooked_trans: "sameBooked a b \<Longrightarrow> sameBooked b c \<Longrightarrow> sameBooked a c"
  by (simp add: sameBooked_def)

lemma booked_same: "sameBooked e e' \<Longrightarrow> booked b0 e \<Longrightarrow> booked b0 e'"
  by (simp add: sameBooked_def booked_def)

lemma sameBooked_upd:
  "(\<And>st. sameOrder st ((g st)\<lparr>os_VenueOrderID := os_VenueOrderID st\<rparr>) \<and> os_CumQty (g st) = os_CumQty st \<and> os_fillSeq (g st) = os_fillSeq st) \<Longrightarrow>
     sameBooked e (updOrder c g e)"
  using orders_unchanged by (auto simp: updOrder_def sameBooked_def split: option.splits)

lemma sameBooked_register: "sameBooked e (registerOrder coid sid sy side qty e)"
  by (auto simp: registerOrder_def sameBooked_def mapSet_fresh fillsSeen_def ordersNet_def signedQtyOf_def split: option.splits)

lemma sameBooked_failed: "sameBooked e (placeFailed cfg od err e)"
  using sameBooked_upd [of "\<lambda>st. st\<lparr>os_Status := OrderStatusRejected\<rparr>" e "ord_ClientOrderID od"]
  by (simp add: placeFailed_def emits Let_def sameBooked_def sameOrder_def)

lemma sameBooked_bound: "sameBooked e (placeBound coid vid e)"
proof -
  have "sameBooked e (updOrder coid (\<lambda>st. st\<lparr>os_VenueOrderID := vid\<rparr>) e)" by (rule sameBooked_upd) (simp add: sameOrder_def)
  then show ?thesis unfolding placeBound_def Let_def by (cases "vid = []") (simp_all add: sameBooked_def)
qed

lemma place_sameBooked:
  assumes "place cl cfg coid sid sy side qty reason ts e = (e', r)"
  shows "sameBooked e e'"
  using assms
proof (cases rule: place_cases)
  case (sent v res)
  have "sameBooked e (sentState cfg coid sid sy side qty reason ts v e)"
    using sameBooked_register [of e coid sid sy side qty] by (simp add: sentState_def emits sameBooked_def)
  then show ?thesis using sent(5) by (cases res) (auto intro: sameBooked_trans sameBooked_failed sameBooked_bound)
qed (auto simp: emits sameBooked_def)


lemma Submit_sameBooked:
  "MoomooExecutor_SubmitMarket cl cfg sid sy side qty reason ts e = (e', r) \<Longrightarrow> sameBooked e e'"
  "MoomooExecutor_SubmitMarketSignal cl cfg sid sy sg side qty reason ts e = (e', r2) \<Longrightarrow> sameBooked e e'"
  by (auto simp: MoomooExecutor_SubmitMarket_def MoomooExecutor_SubmitMarketSignal_def nextClientOrderID_def sameBooked_def
      split: prod.splits sum.splits dest!: place_sameBooked)

lemma lookup_sameBooked: "lookup_order u e = (e', c) \<Longrightarrow> sameBooked e e'"
proof -
  assume l: "lookup_order u e = (e', c)"
  have "sameBooked e (updOrder (ou_ClientOrderID u) (\<lambda>st. st\<lparr>os_VenueOrderID := ou_VenueOrderID u\<rparr>) e)"
    by (rule sameBooked_upd) (simp add: sameOrder_def)
  then show ?thesis using l by (auto simp: lookup_order_def sameBooked_def split: if_splits option.splits)
qed

lemma applyFillEffect_book:
  assumes "Account_ApplyFill (xs_book e) f = (b, r)"
  shows "xs_book (applyFillEffect cfg f e) = b" "xs_orders (applyFillEffect cfg f e) = xs_orders e"
    "xs_fillsEmit (applyFillEffect cfg f e) = xs_fillsEmit e + (if isOk r then 1 else 0)"
  using assms by (cases r; auto simp: applyFillEffect_def AccountAdapter_ApplyFill_def emits Let_def)+

text \<open>Only fills touch the book.\<close>

lemma applyEffects_book:
  "xs_orders (applyEffects cfg now st effs e) = xs_orders e \<and>
   (fillsOf effs = [] \<longrightarrow> xs_book (applyEffects cfg now st effs e) = xs_book e \<and> xs_fillsEmit (applyEffects cfg now st effs e) = xs_fillsEmit e) \<and>
   (\<forall>f b r. fillsOf effs = [f] \<longrightarrow> Account_ApplyFill (xs_book e) f = (b, r) \<longrightarrow> xs_book (applyEffects cfg now st effs e) = b \<and>
      xs_fillsEmit (applyEffects cfg now st effs e) = xs_fillsEmit e + (if isOk r then 1 else 0))"
proof (induction cfg now st effs e rule: applyEffects.induct)
  case (3 cfg now st f effs e)
  obtain b r where ap: "Account_ApplyFill (xs_book e) f = (b, r)" by fastforce
  show ?case using 3 applyFillEffect_book [OF ap, of cfg] ap by auto
qed (auto simp: emits)

lemma onOrderUpdate_booked: "booked b0 e \<Longrightarrow> booked b0 (onOrderUpdate cfg now u e)"
proof (cases rule: onOrderUpdate_cases [where u = u and e = e and cfg = cfg and now = now])
  case (unknown e1 c)
  assume "booked b0 e"
  then show ?thesis using unknown booked_same [OF lookup_sameBooked] by metis
next
  case (pushed e1 c st st1 r)
  assume "booked b0 e"
  then have b: "booked b0 e1" by (rule booked_same [OF lookup_sameBooked [OF pushed(1)]])
  let ?m = "xs_orders e1" and ?e2 = "e1\<lparr>xs_orders := mapSet c st1 (xs_orders e1)\<rparr>"
  from pushed(3) show ?thesis
  proof (cases rule: Apply_fill_cases)
    case none
    then have "sameOrder st (st1\<lparr>os_VenueOrderID := os_VenueOrderID st\<rparr>)" by (simp add: sameOrder_def)
    from orders_unchanged [OF pushed(2) this none(2,3)] have "sameBooked e1 (onOrderUpdate cfg now u e)"
      using applyEffects_book [of cfg now st1 _ ?e2] none(4) by (cases r) (simp_all add: pushed(4) sameBooked_def)
    then show ?thesis using b by (rule booked_same)
  next
    case (one effs f)
    obtain a' q where ap: "Account_ApplyFill (xs_book e1) f = (a', q)" by fastforce
    have same: "orderKey st1 = orderKey st" "os_Side st1 = os_Side st" using one(1) by (simp_all add: sameOrder_def orderKey_def)
    note os = orders_set(1) [OF pushed(2) same] orders_set(2) [OF pushed(2) same]
    have e': "xs_orders (onOrderUpdate cfg now u e) = mapSet c st1 ?m" "xs_book (onOrderUpdate cfg now u e) = a'"
      "xs_fillsEmit (onOrderUpdate cfg now u e) = xs_fillsEmit e1 + (if isOk q then 1 else 0)"
      using applyEffects_book [of cfg now st1 effs ?e2] one(3,4) ap by (auto simp: pushed(4))
    have seen: "fillsSeen (mapSet c st1 ?m) = fillsSeen ?m + 1" using os(2) one(2) by simp
    have k: "fillKey f = orderKey st" using one(6) by (simp add: orderKey_def)
    have "netOf a' key = netOf b0 key + ordersNet key (mapSet c st1 ?m)"
      if "isOk q" "xs_fillsEmit e1 = fillsSeen ?m" for key
    proof -
      have "netOf (xs_book e1) key = netOf b0 key + ordersNet key ?m" using b that(2) unfolding booked_def by blast
      then show ?thesis
        using netOf_settle(1) [OF ap, of key] netOf_settle(2) [OF ap that(1)] one(5,7) by (auto simp: os(1) k)
    qed
    then show ?thesis using b by (auto simp: booked_def e' seen)
  qed
qed

end
