(* ===== verification/Broker_Recovery.thy ===== *)
theory Broker_Recovery
  imports Broker_Exec
begin

text \<open>
  Flatten on kill and crash recovery (\<open>exec/moomoo/executor_recovery.go\<close>) and the reflection of the broker's
  positions into the book (\<open>exec/moomoo/executor_sync.go\<close>).  The clock is read once per operation; the code
  reads it again for each order it persists.  Shown: every operation keeps the executor's invariant, and a
  sync that reports no error leaves the book of its strategy at the broker's net, symbol by symbol.
\<close>

section \<open>Flatten\<close>

definition FlattenConfirmationPhrase :: string where
  "FlattenConfirmationPhrase = ''FLATTEN ALL POSITIONS''"

definition flattenStrategyID :: string where
  "flattenStrategyID = ''FLATTEN''"

definition hasWorkingCloseOrder :: "string \<Rightarrow> string \<Rightarrow> OrderSide \<Rightarrow> 'v MoomooExecutor \<Rightarrow> bool" where
  "hasWorkingCloseOrder sid sy closeSide e \<longleftrightarrow>
     list_ex (\<lambda>(_, st). os_StrategyID st = sid \<and> os_Symbol st = sy \<and> os_Side st = closeSide \<and> \<not> OrderState_IsTerminal st)
       (xs_orders e)"

definition mustPosition :: "Account \<Rightarrow> string \<Rightarrow> string \<Rightarrow> PositionSnap" where
  "mustPosition book sid sy =
     (case AccountAdapter_Position book sid sy of
        Some p \<Rightarrow> p
      | None \<Rightarrow> \<lparr>pos_StrategyID = sid, pos_Symbol = sy, pos_SignedQty = 0, pos_AvgPx = 0, pos_RealizedPnL = 0,
                 pos_UpdatedAt = zeroTime\<rparr>)"

text \<open>What a loop of submissions has done: the ids submitted and the first error.\<close>

type_synonym Submitted = "string list \<times> go_error option"

definition noteErr :: "go_error option \<Rightarrow> go_error \<Rightarrow> go_error option" where
  "noteErr first err = (case first of None \<Rightarrow> Some err | Some _ \<Rightarrow> first)"

definition submitClose :: "'v TradeClient \<Rightarrow> ExecConfig \<Rightarrow> string \<Rightarrow> string \<Rightarrow> OrderSide \<Rightarrow> Qty \<Rightarrow> string \<Rightarrow> gotime \<Rightarrow>
    'v MoomooExecutor \<times> Submitted \<Rightarrow> 'v MoomooExecutor \<times> Submitted" where
  "submitClose cl cfg sid sy side qty reason ts s =
     (case s of (e, ids, first) \<Rightarrow>
        (let (e1, coid) = nextClientOrderID e in
         case place cl cfg coid sid sy side qty reason ts e1 of
           (e2, Inl err) \<Rightarrow> (e2, ids, noteErr first err)
         | (e2, Inr _) \<Rightarrow> (e2, ids @ [coid], first)))"

fun flattenLoop :: "'v TradeClient \<Rightarrow> ExecConfig \<Rightarrow> string \<Rightarrow> gotime \<Rightarrow> PositionSnap list \<Rightarrow>
    'v MoomooExecutor \<times> Submitted \<Rightarrow> 'v MoomooExecutor \<times> Submitted" where
  "flattenLoop cl cfg reason ts [] s = s"
| "flattenLoop cl cfg reason ts (p # ps) s =
     (case CloseSideFor (pos_SignedQty p) of
        None \<Rightarrow> flattenLoop cl cfg reason ts ps s
      | Some side \<Rightarrow>
          if hasWorkingCloseOrder (pos_StrategyID p) (pos_Symbol p) side (fst s) then flattenLoop cl cfg reason ts ps s
          else flattenLoop cl cfg reason ts ps
            (submitClose cl cfg (pos_StrategyID p) (pos_Symbol p) side (absQty (pos_SignedQty p))
               (''flatten-on-kill: '' @ reason) ts s))"

fun closingLoop :: "PositionSnap list \<Rightarrow> (string, Qty) gomap \<Rightarrow> (string, Qty) gomap" where
  "closingLoop [] m = m"
| "closingLoop (p # ps) m =
     closingLoop ps (mapSet (pos_Symbol p) ((case mapGet m (pos_Symbol p) of None \<Rightarrow> 0 | Some q \<Rightarrow> q) + pos_SignedQty p) m)"

definition seedFill :: "gotime \<Rightarrow> string \<Rightarrow> Qty \<Rightarrow> Price \<Rightarrow> Fill" where
  "seedFill ts sy residual px =
     \<lparr>fill_TradeID = ''FLATTEN-DRIFT-SEED-'' @ sy, fill_ClientOrderID = ''FLATTEN-DRIFT-SEED-'' @ sy,
      fill_VenueOrderID = [], fill_StrategyID = flattenStrategyID, fill_Symbol = sy,
      fill_Side = (if sint residual < 0 then OrderSideSell else OrderSideBuy), fill_Qty = absQty residual,
      fill_Price = px, fill_Commission = 0, fill_TS = ts\<rparr>"

definition seedDrift :: "ExecConfig \<Rightarrow> gotime \<Rightarrow> BrokerPosition \<Rightarrow> Qty \<Rightarrow> 'v MoomooExecutor \<Rightarrow> 'v MoomooExecutor" where
  "seedDrift cfg ts p residual e =
     (let px = (if sint (bp_AvgPrice p) \<le> 0 then bp_Price p else bp_AvgPrice p) in
      if 0 < sint px then
        (let seed = seedFill ts (bp_Symbol p) residual px in
         case Fill_Validate seed of
           Inl _ \<Rightarrow> e
         | Inr _ \<Rightarrow>
             (case AccountAdapter_ApplyFill (xs_book e) seed of
                (b, Inl _) \<Rightarrow> e\<lparr>xs_book := b\<rparr>
              | (b, Inr _) \<Rightarrow> persistPosition cfg (mustPosition b flattenStrategyID (bp_Symbol p)) (e\<lparr>xs_book := b\<rparr>)))
      else e)"

fun driftLoop :: "'v TradeClient \<Rightarrow> ExecConfig \<Rightarrow> string \<Rightarrow> gotime \<Rightarrow> (string, Qty) gomap \<Rightarrow> BrokerPosition list \<Rightarrow>
    'v MoomooExecutor \<times> Submitted \<Rightarrow> 'v MoomooExecutor \<times> Submitted" where
  "driftLoop cl cfg reason ts closing [] s = s"
| "driftLoop cl cfg reason ts closing (p # ps) s =
     (let residual = bp_Qty p - (case mapGet closing (bp_Symbol p) of None \<Rightarrow> 0 | Some q \<Rightarrow> q) in
      if residual = 0 then driftLoop cl cfg reason ts closing ps s
      else case CloseSideFor residual of
        None \<Rightarrow> driftLoop cl cfg reason ts closing ps s
      | Some side \<Rightarrow>
          if hasWorkingCloseOrder flattenStrategyID (bp_Symbol p) side (fst s) then driftLoop cl cfg reason ts closing ps s
          else
            (let e1 = seedDrift cfg ts p residual
                        (recordRisk cfg flattenStrategyID (bp_Symbol p) ''exec.flatten_drift'' (fst s))
             in driftLoop cl cfg reason ts closing ps
                  (submitClose cl cfg flattenStrategyID (bp_Symbol p) side (absQty residual)
                     (''flatten-on-kill drift sweep: '' @ reason) ts (e1, snd s))))"

text \<open>The broker reports one row per symbol; the sort is the code's by symbol.\<close>

definition flattenBrokerDrift :: "'v TradeClient \<Rightarrow> ExecConfig \<Rightarrow> string \<Rightarrow> gotime \<Rightarrow>
    'v MoomooExecutor \<Rightarrow> 'v MoomooExecutor \<times> Submitted" where
  "flattenBrokerDrift cl cfg reason ts e =
     (case tc_GetPositionList cl (xs_venue e) (xs_accID e) (xs_env e) of
        (v, Inl err) \<Rightarrow> (e\<lparr>xs_venue := v\<rparr>, [], Some err)
      | (v, Inr rows) \<Rightarrow>
          driftLoop cl cfg reason ts (closingLoop (AccountAdapter_OpenPositions (xs_book e)) [])
            (sort_key bp_Symbol rows) (e\<lparr>xs_venue := v\<rparr>, [], None))"

definition Flatten :: "'v TradeClient \<Rightarrow> ExecConfig \<Rightarrow> gotime \<Rightarrow> string \<Rightarrow> string \<Rightarrow>
    'v MoomooExecutor \<Rightarrow> 'v MoomooExecutor \<times> Submitted" where
  "Flatten cl cfg now confirmation reason e =
     (if confirmation \<noteq> FlattenConfirmationPhrase then (e, [], Some ErrInvalidArgument)
      else case flattenLoop cl cfg reason now (AccountAdapter_OpenPositions (xs_book e)) (e, [], None) of
        (e1, ids, firstErr) \<Rightarrow>
          (case flattenBrokerDrift cl cfg reason now e1 of
             (e2, swept, serr) \<Rightarrow> (e2, ids @ swept, case serr of None \<Rightarrow> firstErr | Some err \<Rightarrow> noteErr firstErr err)))"

section \<open>Recovery after a restart\<close>

definition resolveStrategy :: "ExecConfig \<Rightarrow> string \<Rightarrow> (string \<times> bool) result" where
  "resolveStrategy cfg coid = (case xc_Strategy cfg of None \<Rightarrow> Inr ([], False) | Some look \<Rightarrow> look coid)"

fun resolveLoop :: "ExecConfig \<Rightarrow> OrderUpdate list \<Rightarrow> (string, string) gomap \<times> go_error option \<Rightarrow>
    (string, string) gomap \<times> go_error option" where
  "resolveLoop cfg [] s = s"
| "resolveLoop cfg (u # us) (m, err) =
     (if ou_ClientOrderID u = [] then resolveLoop cfg us (m, err)
      else case resolveStrategy cfg (ou_ClientOrderID u) of
        Inl e \<Rightarrow> resolveLoop cfg us (m, noteErr err e)
      | Inr (sid, ok) \<Rightarrow>
          if \<not> ok \<or> sid = [] then resolveLoop cfg us (m, noteErr err ErrInvalidArgument)
          else resolveLoop cfg us (mapSet (ou_ClientOrderID u) sid m, err))"

definition restoredState :: "(string, string) gomap \<Rightarrow> OrderUpdate \<Rightarrow> OrderState" where
  "restoredState byCOID u =
     \<lparr>os_ClientOrderID = ou_ClientOrderID u, os_VenueOrderID = ou_VenueOrderID u,
      os_StrategyID = (case mapGet byCOID (ou_ClientOrderID u) of None \<Rightarrow> [] | Some sid \<Rightarrow> sid),
      os_Symbol = ou_Symbol u, os_Side = ou_Side u, os_OrderQty = ou_OrderQty u,
      os_Status = (case DomainOrderStatus (ou_RawStatus u) of Some s \<Rightarrow> s | None \<Rightarrow> OrderStatusAccepted),
      os_CumQty = ou_DealtQty u,
      os_CumNotional = (if 0 < sint (ou_DealtQty u)
                        then (case Price_MulQty (ou_DealtAvgPrice u) (ou_DealtQty u) of Inr n \<Rightarrow> n | Inl _ \<Rightarrow> 0) else 0),
      os_fillSeq = 0\<rparr>"

fun restoreLoop :: "(string, string) gomap \<Rightarrow> OrderUpdate list \<Rightarrow> 'v MoomooExecutor \<Rightarrow> 'v MoomooExecutor" where
  "restoreLoop byCOID [] e = e"
| "restoreLoop byCOID (u # us) e =
     (if ou_ClientOrderID u = [] then restoreLoop byCOID us e
      else restoreLoop byCOID us
        (e\<lparr>xs_orders := mapSet (ou_ClientOrderID u) (restoredState byCOID u) (xs_orders e),
           xs_venIndex := (if ou_VenueOrderID u \<noteq> [] then mapSet (ou_VenueOrderID u) (ou_ClientOrderID u) (xs_venIndex e)
                           else xs_venIndex e)\<rparr>))"

definition RestoreFromBroker :: "'v TradeClient \<Rightarrow> ExecConfig \<Rightarrow> 'v MoomooExecutor \<Rightarrow>
    'v MoomooExecutor \<times> BrokerPosition list \<times> go_error option" where
  "RestoreFromBroker cl cfg e =
     (case tc_GetOrderList cl (xs_venue e) (xs_accID e) (xs_env e) of
        (v, Inl err) \<Rightarrow> (e\<lparr>xs_venue := v\<rparr>, [], Some err)
      | (v, Inr us) \<Rightarrow>
          (let (byCOID, resolveErr) = resolveLoop cfg us ([], None);
               e1 = restoreLoop byCOID us (e\<lparr>xs_venue := v\<rparr>)
           in case tc_GetPositionList cl (xs_venue e1) (xs_accID e1) (xs_env e1) of
                (v2, Inl err) \<Rightarrow> (e1\<lparr>xs_venue := v2\<rparr>, [], Some err)
              | (v2, Inr rows) \<Rightarrow> (e1\<lparr>xs_venue := v2\<rparr>, rows, resolveErr)))"

section \<open>Reflecting the broker's positions\<close>

record BrokerSnapshot =
  bs_Positions :: "BrokerPosition list"
  bs_Orders :: "OrderUpdate list"
  bs_Fills :: "FillUpdate list"
  bs_Funds :: Funds

record BrokerSyncResult =
  sr_Snapshot :: BrokerSnapshot
  sr_PositionsObserved :: nat
  sr_OrdersObserved :: nat
  sr_FillsObserved :: nat
  sr_Reflected :: nat

definition pullFills :: "'v TradeClient \<Rightarrow> 'v MoomooExecutor \<Rightarrow> 'v \<Rightarrow> 'v \<times> FillUpdate list result" where
  "pullFills cl e v = (if xs_env e = TrdEnvReal then tc_GetOrderFillList cl v (xs_accID e) (xs_env e) else (v, Inr []))"

definition PullBroker :: "'v TradeClient \<Rightarrow> 'v MoomooExecutor \<Rightarrow> 'v MoomooExecutor \<times> BrokerSnapshot result" where
  "PullBroker cl e =
     (case tc_GetPositionList cl (xs_venue e) (xs_accID e) (xs_env e) of
        (v1, Inl err) \<Rightarrow> (e\<lparr>xs_venue := v1\<rparr>, Inl err)
      | (v1, Inr rows) \<Rightarrow>
          (case tc_GetOrderList cl v1 (xs_accID e) (xs_env e) of
             (v2, Inl err) \<Rightarrow> (e\<lparr>xs_venue := v2\<rparr>, Inl err)
           | (v2, Inr us) \<Rightarrow>
               (case pullFills cl e v2 of
                  (v3, Inl err) \<Rightarrow> (e\<lparr>xs_venue := v3\<rparr>, Inl err)
                | (v3, Inr fs) \<Rightarrow>
                    (case tc_GetFunds cl v3 (xs_accID e) (xs_env e) of
                       (v4, Inl err) \<Rightarrow> (e\<lparr>xs_venue := v4\<rparr>, Inl err)
                     | (v4, Inr funds) \<Rightarrow> (e\<lparr>xs_venue := v4\<rparr>, Inr
                         \<lparr>bs_Positions = rows, bs_Orders = us, bs_Fills = fs, bs_Funds = funds\<rparr>)))))"

definition envTag :: "TrdEnv \<Rightarrow> string" where
  "envTag env = (if env = TrdEnvReal then ''LIVE'' else ''PAPER'')"

definition reflectPrice :: "BrokerPosition \<Rightarrow> Price" where
  "reflectPrice bp =
     (let p1 = (if sint (bp_AvgPrice bp) \<le> 0 then bp_Price bp else bp_AvgPrice bp)
      in if sint p1 \<le> 0 then i64 FixedScale else p1)"

definition reflectID :: "TrdEnv \<Rightarrow> string \<Rightarrow> string \<Rightarrow> Qty \<Rightarrow> string" where
  "reflectID env sid sy net = ''SYNC-'' @ envTag env @ ''-'' @ sid @ ''-'' @ sy @ ''-'' @ FormatInt64 net"

definition reflectFill :: "gotime \<Rightarrow> string \<Rightarrow> string \<Rightarrow> string \<Rightarrow> Qty \<Rightarrow> Price \<Rightarrow> Fill" where
  "reflectFill now coid sid sy delta price =
     \<lparr>fill_TradeID = coid @ ''-F'', fill_ClientOrderID = coid, fill_VenueOrderID = [], fill_StrategyID = sid,
      fill_Symbol = sy, fill_Side = (if sint delta < 0 then OrderSideSell else OrderSideBuy), fill_Qty = absQty delta,
      fill_Price = price, fill_Commission = 0, fill_TS = now\<rparr>"

definition reflectOrder :: "Fill \<Rightarrow> Order" where
  "reflectOrder f =
     \<lparr>ord_ClientOrderID = fill_ClientOrderID f, ord_VenueOrderID = [], ord_StrategyID = fill_StrategyID f,
      ord_Symbol = fill_Symbol f, ord_Side = fill_Side f, ord_Type = OrderTypeMarket, ord_TIF = TIFGTC,
      ord_Qty = fill_Qty f, ord_LimitPrice = None, ord_StopPrice = None, ord_Status = OrderStatusFilled,
      ord_FilledQty = fill_Qty f, ord_AvgFillPx = fill_Price f, ord_Reason = ''broker-sync reflect (external)'',
      ord_TS = fill_TS f\<rparr>"

definition reflectSymbol :: "ExecConfig \<Rightarrow> gotime \<Rightarrow> string \<Rightarrow> string \<Rightarrow> BrokerPosition \<Rightarrow>
    'v MoomooExecutor \<Rightarrow> 'v MoomooExecutor \<times> bool result" where
  "reflectSymbol cfg now sid sy bp e =
     (let bookNet = (case AccountAdapter_Position (xs_book e) sid sy of Some p \<Rightarrow> pos_SignedQty p | None \<Rightarrow> 0);
          delta = bp_Qty bp - bookNet
      in if delta = 0 then (e, Inr False)
         else
           (let f = reflectFill now (reflectID (xs_env e) sid sy (bp_Qty bp)) sid sy delta (reflectPrice bp) in
            case Fill_Validate f of
              Inl err \<Rightarrow> (e, Inl err)
            | Inr _ \<Rightarrow>
                (let e1 = persistOrder cfg (reflectOrder f) e in
                 case AccountAdapter_ApplyFill (xs_book e1) f of
                   (b, Inl err) \<Rightarrow> (e1\<lparr>xs_book := b\<rparr>, Inl err)
                 | (b, Inr pos) \<Rightarrow>
                     (persistPosition cfg pos (persistFill cfg f (e1\<lparr>xs_book := b\<rparr>)), Inr True))))"

fun brokerNetLoop :: "BrokerPosition list \<Rightarrow> (string, BrokerPosition) gomap \<times> nat \<Rightarrow> (string, BrokerPosition) gomap \<times> nat" where
  "brokerNetLoop [] s = s"
| "brokerNetLoop (p # ps) (m, n) =
     (if bp_Qty p = 0 then brokerNetLoop ps (m, n)
      else case mapGet m (bp_Symbol p) of
        None \<Rightarrow> brokerNetLoop ps (mapSet (bp_Symbol p) p m, n + 1)
      | Some cur \<Rightarrow> brokerNetLoop ps (mapSet (bp_Symbol p) (cur\<lparr>bp_Qty := bp_Qty cur + bp_Qty p\<rparr>) m, n + 1))"

fun heldLoop :: "string \<Rightarrow> PositionSnap list \<Rightarrow> (string, unit) gomap \<Rightarrow> (string, unit) gomap" where
  "heldLoop sid [] m = m"
| "heldLoop sid (p # ps) m =
     (if pos_StrategyID p = sid \<and> pos_SignedQty p \<noteq> 0 then heldLoop sid ps (mapSet (pos_Symbol p) () m)
      else heldLoop sid ps m)"

definition noBrokerPosition :: BrokerPosition where
  "noBrokerPosition = \<lparr>bp_Symbol = [], bp_Qty = 0, bp_AvgPrice = 0, bp_CostPrice = 0, bp_Price = 0, bp_PLVal = 0\<rparr>"

fun reflectLoop :: "ExecConfig \<Rightarrow> gotime \<Rightarrow> string \<Rightarrow> (string, BrokerPosition) gomap \<Rightarrow> string list \<Rightarrow> nat \<Rightarrow>
    'v MoomooExecutor \<Rightarrow> 'v MoomooExecutor \<times> nat \<times> unit result" where
  "reflectLoop cfg now sid net [] n e = (e, n, Inr ())"
| "reflectLoop cfg now sid net (sy # sys) n e =
     (case reflectSymbol cfg now sid sy (case mapGet net sy of Some bp \<Rightarrow> bp | None \<Rightarrow> noBrokerPosition) e of
        (e1, Inl err) \<Rightarrow> (e1, n, Inl err)
      | (e1, Inr reflected) \<Rightarrow> reflectLoop cfg now sid net sys (if reflected then n + 1 else n) e1)"

definition syncSymbols :: "string \<Rightarrow> (string, BrokerPosition) gomap \<Rightarrow> Account \<Rightarrow> string list" where
  "syncSymbols sid net book = sort (mapKeys (heldLoop sid (AccountAdapter_OpenPositions book) (map (\<lambda>(sy, _). (sy, ())) net)))"

text \<open>On an error while reflecting, the partial result is returned with it.\<close>

definition SyncBrokerInto :: "'v TradeClient \<Rightarrow> ExecConfig \<Rightarrow> gotime \<Rightarrow> string \<Rightarrow> 'v MoomooExecutor \<Rightarrow>
    'v MoomooExecutor \<times> BrokerSyncResult option \<times> unit result" where
  "SyncBrokerInto cl cfg now sid e =
     (if sid = [] then (e, None, Inl ErrInvalidArgument)
      else case PullBroker cl e of
        (e1, Inl err) \<Rightarrow> (e1, None, Inl err)
      | (e1, Inr snap) \<Rightarrow>
          (let (net, seen) = brokerNetLoop (bs_Positions snap) ([], 0);
               (e2, n, r) = reflectLoop cfg now sid net (syncSymbols sid net (xs_book e1)) 0 e1
           in (e2, Some \<lparr>sr_Snapshot = snap, sr_PositionsObserved = seen, sr_OrdersObserved = length (bs_Orders snap),
                 sr_FillsObserved = length (bs_Fills snap), sr_Reflected = n\<rparr>, r)))"

section \<open>The invariant is kept\<close>

lemma submitClose_keeps: "submitClose cl cfg sid sy side qty reason ts (e, s) = (e', s') \<Longrightarrow> keeps cfg e e'"
  by (auto simp: submitClose_def split: prod.splits sum.splits dest!: place_keeps nextClientOrderID_keeps [where cfg = cfg]
      intro: keeps_trans)

lemma flattenLoop_keeps: "flattenLoop cl cfg reason ts ps (e, s) = (e', s') \<Longrightarrow> keeps cfg e e'"
proof (induction ps arbitrary: e s)
  case (Cons p ps)
  show ?case
  proof (cases "flattenLoop cl cfg reason ts (p # ps) (e, s) = flattenLoop cl cfg reason ts ps (e, s)")
    case True
    then show ?thesis using Cons by simp
  next
    case False
    then obtain sid sy side q rs where "flattenLoop cl cfg reason ts (p # ps) (e, s) =
        flattenLoop cl cfg reason ts ps (submitClose cl cfg sid sy side q rs ts (e, s))"
      by (auto split: option.splits if_splits)
    moreover obtain e1 s1 where sc: "submitClose cl cfg sid sy side q rs ts (e, s) = (e1, s1)" by (metis surj_pair)
    ultimately have "keeps cfg e1 e'" using Cons by simp
    with submitClose_keeps [OF sc] show ?thesis by (rule keeps_trans)
  qed
qed simp

lemma keeps_settle: "Account_ApplyFill (xs_book e) f = (b, r) \<Longrightarrow> keeps cfg e (e\<lparr>xs_book := b\<rparr>)"
  using netOf_settle(5) by (auto simp: keeps_def execInv_def)

lemma seedDrift_keeps: "keeps cfg e (seedDrift cfg ts p residual e)"
  by (auto simp: seedDrift_def AccountAdapter_ApplyFill_def Let_def split: sum.splits prod.splits
      intro: keeps_settle keeps_trans [OF keeps_settle keeps_emits(2)])

lemma driftLoop_keeps: "driftLoop cl cfg reason ts closing ps (e, s) = (e', s') \<Longrightarrow> keeps cfg e e'"
proof (induction ps arbitrary: e s)
  case (Cons p ps)
  show ?case
  proof (cases "driftLoop cl cfg reason ts closing (p # ps) (e, s) = driftLoop cl cfg reason ts closing ps (e, s)")
    case True
    then show ?thesis using Cons by simp
  next
    case False
    then obtain sid sy side q rs res where step: "driftLoop cl cfg reason ts closing (p # ps) (e, s) =
        driftLoop cl cfg reason ts closing ps (submitClose cl cfg sid sy side q rs ts
          (seedDrift cfg ts p res (recordRisk cfg flattenStrategyID (bp_Symbol p) ''exec.flatten_drift'' e), s))"
      by (auto simp: Let_def split: option.splits if_splits)
    obtain e1 s1 where sc: "submitClose cl cfg sid sy side q rs ts
        (seedDrift cfg ts p res (recordRisk cfg flattenStrategyID (bp_Symbol p) ''exec.flatten_drift'' e), s) = (e1, s1)" by (metis surj_pair)
    have "keeps cfg e e1" by (rule keeps_trans [OF keeps_trans [OF keeps_emits(3) seedDrift_keeps] submitClose_keeps [OF sc]])
    moreover have "keeps cfg e1 e'" using Cons step sc by simp
    ultimately show ?thesis by (rule keeps_trans)
  qed
qed simp

lemma Flatten_keeps: "Flatten cl cfg now conf reason e = (e', r) \<Longrightarrow> keeps cfg e e'"
  by (auto simp: Flatten_def flattenBrokerDrift_def split: if_splits prod.splits sum.splits
      dest!: flattenLoop_keeps driftLoop_keeps intro: keeps_trans [OF _ keeps_field(1)] keeps_trans [OF keeps_trans [OF _ keeps_field(1)]])

lemma restoreLoop_keeps: "keeps cfg e (restoreLoop byCOID us e)"
proof (induction byCOID us e rule: restoreLoop.induct)
  case (2 byCOID u us e)
  let ?c = "ou_ClientOrderID u"
  let ?e1 = "e\<lparr>xs_orders := mapSet ?c (restoredState byCOID u) (xs_orders e),
           xs_venIndex := (if ou_VenueOrderID u \<noteq> [] then mapSet (ou_VenueOrderID u) ?c (xs_venIndex e) else xs_venIndex e)\<rparr>"
  have "keeps cfg e ?e1" if "?c \<noteq> []"
    using that by (auto simp: keeps_def execInv_def restoredState_def tracked_def)
  then show ?case using 2 by (auto intro: keeps_trans)
qed simp

lemma RestoreFromBroker_keeps: "RestoreFromBroker cl cfg e = (e', r) \<Longrightarrow> keeps cfg e e'"
  by (auto simp: RestoreFromBroker_def Let_def split: prod.splits sum.splits
      intro: keeps_trans [OF keeps_field(1)] keeps_trans [OF keeps_trans [OF keeps_field(1) restoreLoop_keeps] keeps_field(1)])

lemma PullBroker_venue: "PullBroker cl e = (e', r) \<Longrightarrow> \<exists>v. e' = e\<lparr>xs_venue := v\<rparr>"
  by (auto simp: PullBroker_def split: prod.splits sum.splits)

lemma reflectSymbol_keeps: "reflectSymbol cfg now sid sy bp e = (e', r) \<Longrightarrow> keeps cfg e e'"
  by (auto simp: reflectSymbol_def AccountAdapter_ApplyFill_def Let_def keeps_def execInv_def emits outOk_def
      split: if_splits sum.splits prod.splits option.splits dest: netOf_settle(5))

lemma reflectLoop_keeps: "reflectLoop cfg now sid net sys n e = (e', r) \<Longrightarrow> keeps cfg e e'"
  by (induction cfg now sid net sys n e rule: reflectLoop.induct)
     (auto split: prod.splits sum.splits dest!: reflectSymbol_keeps intro: keeps_trans)

lemma SyncBrokerInto_keeps: "SyncBrokerInto cl cfg now sid e = (e', r) \<Longrightarrow> keeps cfg e e'"
  by (auto simp: SyncBrokerInto_def Let_def split: if_splits prod.splits sum.splits
      dest!: PullBroker_venue reflectLoop_keeps intro: keeps_trans [OF keeps_field(1)])


section \<open>Reflection reaches the broker's positions\<close>

definition brokerNet :: "BrokerPosition list \<Rightarrow> string \<Rightarrow> Qty" where
  "brokerNet rows sy = (\<Sum>p\<leftarrow>rows. if bp_Symbol p = sy then bp_Qty p else 0)"

definition netQty :: "(string, BrokerPosition) gomap \<Rightarrow> string \<Rightarrow> Qty" where
  "netQty m sy = (case mapGet m sy of None \<Rightarrow> 0 | Some bp \<Rightarrow> bp_Qty bp)"

lemma brokerNetLoop_net: "netQty (fst (brokerNetLoop ps (m, n))) sy = netQty m sy + brokerNet ps sy"
proof (induction ps arbitrary: m n)
  case (Cons p ps)
  show ?case
  proof (cases "mapGet m (bp_Symbol p)")
    case None
    then show ?thesis using Cons by (auto simp: netQty_def brokerNet_def)
  next
    case (Some cur)
    then show ?thesis using Cons by (auto simp: netQty_def brokerNet_def)
  qed
qed (simp add: brokerNet_def)

lemma signedQtyOf_abs: "signedQtyOf (if sint d < 0 then OrderSideSell else OrderSideBuy) (absQty d) = d"
  by (simp add: signedQtyOf_def absQty_def OrderSide_distinct)

definition placed :: "ExecOut list \<Rightarrow> PlaceOrderRequest list" where
  "placed out = List.map_filter (\<lambda>x. case x of OutPlace rq \<Rightarrow> Some rq | _ \<Rightarrow> None) out"

lemma placed_simps [simp]: "placed [] = []" "placed (OutPlace rq # out) = rq # placed out" "placed (out @ out') = placed out @ placed out'"
  "placed (OutOrder od # out) = placed out" "placed (OutFill f # out) = placed out" "placed (OutPosition p # out) = placed out"
  "placed (OutRisk a b c # out) = placed out" "placed (OutEmit f # out) = placed out"
  by (simp_all add: placed_def map_filter_def)

lemma reflectSymbol_ok:
  assumes "reflectSymbol cfg now sid sy bp e = (e', Inr b)"
  shows "netOf (xs_book e') (sid, sy) = bp_Qty bp" "k \<noteq> (sid, sy) \<Longrightarrow> netOf (xs_book e') k = netOf (xs_book e) k"
    "xs_venue e' = xs_venue e" "placed (xs_out e') = placed (xs_out e)" "xs_orders e' = xs_orders e"
proof -
  let ?net = "case AccountAdapter_Position (xs_book e) sid sy of Some p \<Rightarrow> pos_SignedQty p | None \<Rightarrow> 0"
  let ?f = "reflectFill now (reflectID (xs_env e) sid sy (bp_Qty bp)) sid sy (bp_Qty bp - ?net) (reflectPrice bp)"
  have net: "?net = netOf (xs_book e) (sid, sy)"
    by (simp add: AccountAdapter_Position_def Account_Position_def netOf_def posOf_def Position_Snapshot_def split: option.splits)
  have f: "fillKey ?f = (sid, sy)" "signedQtyOf (fill_Side ?f) (fill_Qty ?f) = bp_Qty bp - ?net"
    by (simp_all add: reflectFill_def fillKey_def signedQtyOf_abs)
  obtain a r where ap: "Account_ApplyFill (xs_book e) ?f = (a, r)" by fastforce
  have "?net = bp_Qty bp \<and> e' = e \<or> isOk r \<and> xs_book e' = a \<and> xs_venue e' = xs_venue e \<and>
      placed (xs_out e') = placed (xs_out e) \<and> xs_orders e' = xs_orders e"
    using assms ap by (cases r) (auto simp: reflectSymbol_def Let_def AccountAdapter_ApplyFill_def emits split: if_splits sum.splits)
  then show "netOf (xs_book e') (sid, sy) = bp_Qty bp" "k \<noteq> (sid, sy) \<Longrightarrow> netOf (xs_book e') k = netOf (xs_book e) k"
    "xs_venue e' = xs_venue e" "placed (xs_out e') = placed (xs_out e)" "xs_orders e' = xs_orders e"
    using netOf_settle(1) [OF ap, of k] netOf_settle(2) [OF ap] unfolding f by (auto simp: net)
qed

lemma reflectLoop_ok:
  "reflectLoop cfg now sid net sys n e = (e', n', Inr u) \<Longrightarrow> distinct sys \<Longrightarrow>
   (\<forall>sy. netOf (xs_book e') (sid, sy) = (if sy \<in> set sys then netQty net sy else netOf (xs_book e) (sid, sy))) \<and>
   (\<forall>s sy. s \<noteq> sid \<longrightarrow> netOf (xs_book e') (s, sy) = netOf (xs_book e) (s, sy)) \<and>
   xs_venue e' = xs_venue e \<and> placed (xs_out e') = placed (xs_out e) \<and> xs_orders e' = xs_orders e"
proof (induction cfg now sid net sys n e arbitrary: e' n' rule: reflectLoop.induct)
  case (2 cfg now sid net sy sys n e)
  let ?bp = "case mapGet net sy of Some bp \<Rightarrow> bp | None \<Rightarrow> noBrokerPosition"
  obtain e1 r where r: "reflectSymbol cfg now sid sy ?bp e = (e1, r)" by fastforce
  then obtain b where b: "r = Inr b" using 2(2) by (cases r) auto
  have "bp_Qty ?bp = netQty net sy" by (simp add: netQty_def noBrokerPosition_def split: option.splits)
  note S = reflectSymbol_ok [OF r [unfolded b], unfolded this]
  show ?case using 2(1) [OF r [symmetric] b, of e' n'] 2(2,3) r b S(1,3-) S(2) by auto
qed simp

lemma reflectLoop_idle:
  "\<forall>sy \<in> set sys. netOf (xs_book e) (sid, sy) = netQty net sy \<Longrightarrow> reflectLoop cfg now sid net sys n e = (e, n, Inr ())"
proof (induction sys)
  case (Cons sy sys)
  have "reflectSymbol cfg now sid sy (case mapGet net sy of Some bp \<Rightarrow> bp | None \<Rightarrow> noBrokerPosition) e = (e, Inr False)"
    using Cons(2) by (auto simp: reflectSymbol_def Let_def AccountAdapter_Position_def Account_Position_def netOf_def posOf_def
        Position_Snapshot_def netQty_def noBrokerPosition_def split: option.splits)
  then show ?case using Cons by simp
qed simp

lemma heldLoop_keys:
  "set (mapKeys (heldLoop sid ps m)) = set (mapKeys m) \<union> {pos_Symbol p | p. p \<in> set ps \<and> pos_StrategyID p = sid \<and> pos_SignedQty p \<noteq> 0}"
  by (induction sid ps m rule: heldLoop.induct) (auto simp: mapKeys_set)

lemma heldLoop_wf: "mapWf m \<Longrightarrow> mapWf (heldLoop sid ps m)"
  by (induction sid ps m rule: heldLoop.induct) auto

lemma brokerNetLoop_wf: "mapWf m \<Longrightarrow> mapWf (fst (brokerNetLoop ps (m, n)))"
  by (induction ps arbitrary: m n) (auto split: option.splits)

lemma mapKeys_unit: "mapKeys (map (\<lambda>(k, _). (k, ())) m) = mapKeys m"
  by (simp add: mapKeys_def case_prod_beta comp_def)

lemma syncSymbols_covers:
  assumes "bookKeys book" "mapWf net"
  shows "distinct (syncSymbols sid net book)" and "sy \<notin> set (syncSymbols sid net book) \<Longrightarrow> netQty net sy = 0 \<and> netOf book (sid, sy) = 0"
proof -
  have "mapWf (map (\<lambda>(sy, _). (sy, ())) net)" using assms(2) by (simp add: mapWf_def mapKeys_unit)
  then show "distinct (syncSymbols sid net book)"
    using heldLoop_wf by (simp add: syncSymbols_def mapWf_def)
  assume "sy \<notin> set (syncSymbols sid net book)"
  then have "sy \<notin> set (mapKeys net)" and held: "\<forall>p \<in> set (OpenPositions book). pos_StrategyID p = sid \<longrightarrow> pos_SignedQty p \<noteq> 0 \<longrightarrow> pos_Symbol p \<noteq> sy"
    by (auto simp: syncSymbols_def heldLoop_keys AccountAdapter_OpenPositions_def mapKeys_unit)
  then have "netQty net sy = 0" by (auto simp: netQty_def mapGet_in_keys [symmetric])
  moreover have "netOf book (sid, sy) = 0"
  proof (rule ccontr)
    assume n: "netOf book (sid, sy) \<noteq> 0"
    then obtain p where p: "p \<in> set (OpenPositions book)" "rowKey p = (sid, sy)" using OpenPositions_iff(2) [OF assms(1)] by blast
    then show False using held OpenPositions_iff(1) [OF assms(1) p(1)] n by (auto simp: rowKey_def)
  qed
  ultimately show "netQty net sy = 0 \<and> netOf book (sid, sy) = 0" by simp
qed


text \<open>What a sync that reports no error has done.\<close>

lemma SyncBrokerInto_ok:
  assumes "SyncBrokerInto cl cfg now sid e = (e', Some res, Inr u)" "bookKeys (xs_book e)"
  shows "netOf (xs_book e') (sid, sy) = brokerNet (bs_Positions (sr_Snapshot res)) sy"
    and "s \<noteq> sid \<Longrightarrow> netOf (xs_book e') (s, sy) = netOf (xs_book e) (s, sy)"
    and "placed (xs_out e') = placed (xs_out e)" "xs_orders e' = xs_orders e"
    and "\<exists>e1. PullBroker cl e = (e1, Inr (sr_Snapshot res)) \<and> xs_venue e' = xs_venue e1"
proof (atomize (full), goal_cases)
  case 1
  obtain e1 snap where pull: "PullBroker cl e = (e1, Inr snap)"
    using assms(1) by (auto simp: SyncBrokerInto_def split: if_splits prod.splits sum.splits)
  obtain net seen where bn: "brokerNetLoop (bs_Positions snap) ([], 0) = (net, seen)" by fastforce
  obtain v where e1: "e1 = e\<lparr>xs_venue := v\<rparr>" using PullBroker_venue [OF pull] by blast
  obtain n where rl: "reflectLoop cfg now sid net (syncSymbols sid net (xs_book e)) 0 e1 = (e', n, Inr u)" and res: "sr_Snapshot res = snap"
    using assms(1) pull bn by (auto simp: SyncBrokerInto_def e1 split: if_splits prod.splits sum.splits)
  have wf: "mapWf net" using brokerNetLoop_wf [of "[]" "bs_Positions snap" 0] bn by simp
  note C = syncSymbols_covers [OF assms(2) wf, where sid = sid]
  have nq: "netQty net sy = brokerNet (bs_Positions snap) sy"
    using brokerNetLoop_net [of "bs_Positions snap" "[]" 0 sy] bn by (simp add: netQty_def)
  show ?case using reflectLoop_ok [OF rl C(1)] C(2) [where sy = sy] nq pull e1 by (auto simp: res)
qed

lemma SyncBrokerInto_idle:
  assumes "sid \<noteq> []" "PullBroker cl e = (e, Inr snap)" "\<forall>sy. netOf (xs_book e) (sid, sy) = brokerNet (bs_Positions snap) sy"
  shows "\<exists>res. SyncBrokerInto cl cfg now sid e = (e, Some res, Inr ()) \<and> sr_Reflected res = 0 \<and> sr_Snapshot res = snap"
proof -
  obtain net seen where bn: "brokerNetLoop (bs_Positions snap) ([], 0) = (net, seen)" by fastforce
  have "netQty net sy = brokerNet (bs_Positions snap) sy" for sy
    using brokerNetLoop_net [of "bs_Positions snap" "[]" 0 sy] bn by (simp add: netQty_def)
  then have "reflectLoop cfg now sid net (syncSymbols sid net (xs_book e)) 0 e = (e, 0, Inr ())"
    using assms(3) by (intro reflectLoop_idle) simp
  then show ?thesis using assms(1,2) bn by (simp add: SyncBrokerInto_def)
qed


end
