(* ===== verification/Broker_Flatten.thy ===== *)
theory Broker_Flatten
  imports Broker_Recovery
begin

text \<open>
  Flattening twice (\<open>exec/moomoo/executor_recovery.go\<close>): the guard on closing orders at work, the drift sweep and
  the seeding of the flatten book, put together.  The interface to the venue is the locale \<open>trade_venue\<close>: reads
  change nothing and placing an order moves no position.  In it, a flatten that reported no error, run
  again before anything was filled, submits nothing and changes nothing.
\<close>

section \<open>Flattening twice\<close>

definition coidOf :: "TrdEnv \<Rightarrow> nat \<Rightarrow> string" where
  "coidOf env n = (if env = TrdEnvReal then ''LIVE'' else ''PAPER'') @ ''-O-'' @ fmtUint n"

lemma netOf_settle_sint:
  assumes "Account_ApplyFill a f = (a', r)"
  shows "netOf a' (fillKey f) = netOf a (fillKey f) \<or> sint (netOf a' (fillKey f)) = sint (netOf a (fillKey f)) + signedFill f"
  using assms
proof (cases rule: Account_ApplyFill_cases)
  case (settled p s)
  then have n: "netOf a' (fillKey f) = signedQty p" by (simp add: netOf_def posOf_def)
  show ?thesis
  proof (cases s)
    case (Inl e)
    then show ?thesis using ApplyFill_qty_cases [OF settled(1)] n by (simp add: netOf_def)
  next
    case (Inr out)
    then show ?thesis using ApplyFill_qty [OF settled(1) [unfolded Inr]] n by (simp add: netOf_def)
  qed
qed simp

lemma coidOf_inject [simp]: "coidOf env m = coidOf env n \<longleftrightarrow> m = n"
  by (simp add: coidOf_def fmtUint_inject)

lemma nextClientOrderID_eq: "nextClientOrderID e = (e\<lparr>xs_seq := xs_seq e + 1\<rparr>, coidOf (xs_env e) (xs_seq e))"
  by (simp add: nextClientOrderID_def coidOf_def)

text \<open>No id still to be issued is in use.\<close>

definition freshIds :: "'v MoomooExecutor \<Rightarrow> bool" where
  "freshIds e \<longleftrightarrow> (\<forall>n \<ge> xs_seq e. mapGet (xs_orders e) (coidOf (xs_env e) n) = None)"

definition working :: "'v MoomooExecutor \<Rightarrow> StrategySymbol \<Rightarrow> OrderSide \<Rightarrow> bool" where
  "working e k side \<longleftrightarrow> hasWorkingCloseOrder (fst k) (snd k) side e"

text \<open>What a closing order that was placed leaves behind.\<close>

lemma submitClose_sent:
  assumes "submitClose cl cfg sid sy side q reason ts (e, ids, None) = (e', ids', None)" "freshIds e"
  obtains v vid st rq where "xs_orders e' = xs_orders e @ [(coidOf (xs_env e) (xs_seq e), st)]" "orderKey st = (sid, sy)"
    "os_Side st = side" "os_Status st = OrderStatusSubmitted" "xs_seq e' = xs_seq e + 1" "xs_book e' = xs_book e"
    "xs_env e' = xs_env e" "xs_accID e' = xs_accID e" "tc_PlaceOrder cl (xs_venue e) rq = (xs_venue e', Inr vid)" "0 < sint q"
proof -
  let ?e0 = "e\<lparr>xs_seq := xs_seq e + 1\<rparr>" and ?c = "coidOf (xs_env e) (xs_seq e)"
  obtain vid where pl: "place cl cfg ?c sid sy side q reason ts ?e0 = (e', Inr vid)"
    using assms(1) by (auto simp: submitClose_def nextClientOrderID_eq noteErr_def split: prod.splits sum.splits option.splits)
  have fresh: "mapGet (xs_orders e) ?c = None" using assms(2) by (simp add: freshIds_def)
  from pl show ?thesis
  proof (cases rule: place_cases)
    case (sent v res)
    then have res: "res = Inr vid" by simp
    define st where "st = \<lparr>os_ClientOrderID = ?c, os_VenueOrderID = vid, os_StrategyID = sid, os_Symbol = sy, os_Side = side,
           os_OrderQty = q, os_Status = OrderStatusSubmitted, os_CumQty = 0, os_CumNotional = 0, os_fillSeq = 0\<rparr>"
    have "xs_orders e' = mapSet ?c st (xs_orders e)"
      using fresh sent(5) by (simp add: res placeBound_def Let_def sentState_def emits updOrder_def registerOrder_def mapSet_self st_def)
    then have os: "xs_orders e' = xs_orders e @ [(?c, st)]" using fresh by (simp add: mapSet_fresh)
    have "0 < sint q" using sent(1) by (simp add: Order_Validate_def NewMarketOrder_def checkAll_Inr)
    with os show ?thesis using sent(3,5)
      by (intro that [of st "placeRequest ?c sy side q ?e0" vid])
         (simp_all add: res placeBound_def Let_def sentState_def emits st_def orderKey_def)
  qed simp
qed

lemma submitClose_ok:
  assumes "submitClose cl cfg sid sy side q reason ts (e, ids, None) = (e', ids', None)" "freshIds e"
  shows "working e' (sid, sy) side" "working e k s \<Longrightarrow> working e' k s" "freshIds e'"
proof -
  obtain v vid st rq where S: "xs_orders e' = xs_orders e @ [(coidOf (xs_env e) (xs_seq e), st)]" "orderKey st = (sid, sy)"
    "os_Side st = side" "os_Status st = OrderStatusSubmitted" "xs_seq e' = xs_seq e + 1" "xs_env e' = xs_env e"
    using assms by (rule submitClose_sent)
  show "working e' (sid, sy) side" "working e k s \<Longrightarrow> working e' k s"
    using S by (auto simp: working_def hasWorkingCloseOrder_def orderKey_def OrderState_IsTerminal_def OrderStatus_IsTerminal_def enum_values)
  show "freshIds e'" using S assms(2)
    by (auto simp: freshIds_def mapGet_def map_add_def split: option.splits)
qed

text \<open>A loop that reports no error had none.\<close>

lemma submitClose_first: "submitClose cl cfg sid sy side q reason ts (e, ids, Some err) = (e', ids', first) \<Longrightarrow> first = Some err"
  by (auto simp: submitClose_def noteErr_def split: prod.splits sum.splits)

lemma flattenLoop_first: "flattenLoop cl cfg reason ts ps (e, ids, Some err) = (e', ids', first) \<Longrightarrow> first = Some err"
proof (induction ps arbitrary: e ids)
  case (Cons p ps)
  obtain side where "CloseSideFor (pos_SignedQty p) = None \<or> CloseSideFor (pos_SignedQty p) = Some side" by (meson not_None_eq)
  moreover obtain e1 ids1 f1 where sc: "submitClose cl cfg (pos_StrategyID p) (pos_Symbol p) side (absQty (pos_SignedQty p))
      (''flatten-on-kill: '' @ reason) ts (e, ids, Some err) = (e1, ids1, f1)" by (metis surj_pair)
  ultimately show ?case using Cons submitClose_first [OF sc] by (auto split: if_splits)
qed simp


lemma CloseSideFor_iff: "CloseSideFor q = None \<longleftrightarrow> q = 0"
  by (simp add: CloseSideFor_def) (metis not_less_iff_gr_or_eq sint_0 sint_inject)

lemma flattenLoop_idle:
  "\<forall>p \<in> set ps. \<forall>side. CloseSideFor (pos_SignedQty p) = Some side \<longrightarrow> working e (rowKey p) side \<Longrightarrow>
     flattenLoop cl cfg reason ts ps (e, s) = (e, s)"
  by (induction ps) (auto simp: working_def rowKey_def split: option.splits)

definition residualOf :: "(string, Qty) gomap \<Rightarrow> BrokerPosition \<Rightarrow> Qty" where
  "residualOf closing p = bp_Qty p - (case mapGet closing (bp_Symbol p) of None \<Rightarrow> 0 | Some q \<Rightarrow> q)"

lemma driftLoop_idle:
  "\<forall>p \<in> set ps. \<forall>side. CloseSideFor (residualOf closing p) = Some side \<longrightarrow> working e (flattenStrategyID, bp_Symbol p) side \<Longrightarrow>
     driftLoop cl cfg reason ts closing ps (e, s) = (e, s)"
  by (induction ps) (auto simp: working_def residualOf_def Let_def split: option.splits)

lemma sint_neg64: "0 < sint (- (q :: int64)) \<Longrightarrow> sint (- q) = - sint q"
proof -
  assume "0 < sint (- q)"
  moreover have "\<not> 0 < sint (- MinInt64)" by code_simp
  ultimately have "q \<noteq> MinInt64" by auto
  then show ?thesis using sint_bounds [of q] by (intro sint_uminus) (auto simp: fits64_def not_Min_sint)
qed

lemma seed_net:
  assumes e': "e' = seedDrift cfg ts p residual e"
  shows "k \<noteq> (flattenStrategyID, bp_Symbol p) \<Longrightarrow> netOf (xs_book e') k = netOf (xs_book e) k"
    and "netOf (xs_book e') (flattenStrategyID, bp_Symbol p) = netOf (xs_book e) (flattenStrategyID, bp_Symbol p) \<or>
      sint (netOf (xs_book e') (flattenStrategyID, bp_Symbol p)) = sint (netOf (xs_book e) (flattenStrategyID, bp_Symbol p)) + sint residual"
    and "xs_orders e' = xs_orders e" "xs_venue e' = xs_venue e" "xs_seq e' = xs_seq e" "xs_env e' = xs_env e" "xs_accID e' = xs_accID e"
proof -
  define px where "px = (if sint (bp_AvgPrice p) \<le> 0 then bp_Price p else bp_AvgPrice p)"
  let ?f = "seedFill ts (bp_Symbol p) residual px"
  obtain b r where ap: "Account_ApplyFill (xs_book e) ?f = (b, r)" by fastforce
  have "xs_book e' = xs_book e \<or> Fill_Validate ?f = Inr () \<and> xs_book e' = b"
    unfolding e' seedDrift_def Let_def px_def [symmetric]
    using ap by (auto simp: AccountAdapter_ApplyFill_def emits split: sum.splits)
  moreover have "fillKey ?f = (flattenStrategyID, bp_Symbol p)" by (simp add: seedFill_def fillKey_def)
  moreover have "Fill_Validate ?f = Inr () \<Longrightarrow> signedFill ?f = sint residual"
    by (auto simp: Fill_Validate_ok seedFill_def signedFill_def absQty_def OrderSide_distinct sint_neg64 split: if_splits)
  ultimately show "k \<noteq> (flattenStrategyID, bp_Symbol p) \<Longrightarrow> netOf (xs_book e') k = netOf (xs_book e) k"
    "netOf (xs_book e') (flattenStrategyID, bp_Symbol p) = netOf (xs_book e) (flattenStrategyID, bp_Symbol p) \<or>
      sint (netOf (xs_book e') (flattenStrategyID, bp_Symbol p)) = sint (netOf (xs_book e) (flattenStrategyID, bp_Symbol p)) + sint residual"
    using netOf_settle(1) [OF ap, of k] netOf_settle_sint [OF ap] by auto
  show "xs_orders e' = xs_orders e" "xs_venue e' = xs_venue e" "xs_seq e' = xs_seq e" "xs_env e' = xs_env e" "xs_accID e' = xs_accID e"
    by (auto simp: e' seedDrift_def Let_def emits AccountAdapter_ApplyFill_def split: sum.splits prod.splits)
qed


text \<open>How a loop that submitted its closing orders without error moves the executor on.\<close>

definition ahead :: "'v TradeClient \<Rightarrow> 'v MoomooExecutor \<Rightarrow> 'v MoomooExecutor \<Rightarrow> bool" where
  "ahead cl e e' \<longleftrightarrow> xs_env e' = xs_env e \<and> xs_accID e' = xs_accID e \<and> (freshIds e \<longrightarrow> freshIds e') \<and>
     (\<forall>k s. working e k s \<longrightarrow> working e' k s) \<and>
     (\<forall>a env. snd (tc_GetPositionList cl (xs_venue e') a env) = snd (tc_GetPositionList cl (xs_venue e) a env))"

lemma ahead_refl [simp]: "ahead cl e e"
  by (simp add: ahead_def)

lemma ahead_trans: "ahead cl a b \<Longrightarrow> ahead cl b c \<Longrightarrow> ahead cl a c"
  by (simp add: ahead_def)

text \<open>What the executor relies on of the venue: reading changes nothing, and an order that was only placed has
  not moved the positions.\<close>

locale trade_venue =
  fixes cl :: "'v TradeClient"
  assumes reads: "fst (tc_GetPositionList cl v a env) = v" "fst (tc_GetOrderList cl v a env) = v"
      "fst (tc_GetFunds cl v a env) = v" "fst (tc_GetOrderFillList cl v a env) = v"
    and place_positions: "tc_PlaceOrder cl v rq = (v', r) \<Longrightarrow> snd (tc_GetPositionList cl v' a env) = snd (tc_GetPositionList cl v a env)"
begin

lemma submitClose_ahead:
  assumes "submitClose cl cfg sid sy side q reason ts (e, ids, None) = (e', ids', None)" "freshIds e"
  shows "ahead cl e e' \<and> xs_book e' = xs_book e \<and> working e' (sid, sy) side"
  using assms
proof (rule submitClose_sent)
  fix v :: 'v and vid st rq
  assume S: "xs_orders e' = xs_orders e @ [(coidOf (xs_env e) (xs_seq e), st)]" "xs_book e' = xs_book e"
    "xs_env e' = xs_env e" "xs_accID e' = xs_accID e" "tc_PlaceOrder cl (xs_venue e) rq = (xs_venue e', Inr vid)"
  show ?thesis using S place_positions [OF S(5)] submitClose_ok [OF assms] by (auto simp: ahead_def)
qed

lemma flattenLoop_ok:
  "flattenLoop cl cfg reason ts ps (e, ids, None) = (e', ids', None) \<Longrightarrow> freshIds e \<Longrightarrow>
     ahead cl e e' \<and> xs_book e' = xs_book e \<and>
     (\<forall>p \<in> set ps. \<forall>side. CloseSideFor (pos_SignedQty p) = Some side \<longrightarrow> working e' (rowKey p) side)"
proof (induction ps arbitrary: e ids)
  case (Cons p ps)
  show ?case
  proof (cases "\<exists>side. CloseSideFor (pos_SignedQty p) = Some side \<and> \<not> working e (rowKey p) side")
    case False
    then have "flattenLoop cl cfg reason ts (p # ps) (e, ids, None) = flattenLoop cl cfg reason ts ps (e, ids, None)"
      by (auto simp: working_def rowKey_def split: option.splits)
    from Cons.IH [OF Cons.prems(1) [unfolded this] Cons.prems(2)] False show ?thesis unfolding ahead_def rowKey_def by auto
  next
    case True
    then obtain side where side: "CloseSideFor (pos_SignedQty p) = Some side" "\<not> working e (rowKey p) side" by blast
    let ?q = "absQty (pos_SignedQty p)" and ?r = "''flatten-on-kill: '' @ reason"
    obtain e1 ids1 first where sc: "submitClose cl cfg (pos_StrategyID p) (pos_Symbol p) side ?q ?r ts (e, ids, None) = (e1, ids1, first)"
      by (metis surj_pair)
    have rest: "flattenLoop cl cfg reason ts ps (e1, ids1, first) = (e', ids', None)"
      using Cons.prems(1) side sc by (simp add: working_def rowKey_def)
    then have first: "first = None" using flattenLoop_first by (cases first) fastforce+
    note S = submitClose_ahead [OF sc [unfolded first] Cons.prems(2)]
    then have "freshIds e1" using Cons.prems(2) by (simp add: ahead_def)
    from Cons.IH [OF rest [unfolded first] this] S ahead_trans [of cl e e1 e'] show ?thesis
      using side(1) by (auto simp: rowKey_def ahead_def)
  qed
qed simp

end

lemma driftLoop_first: "driftLoop cl cfg reason ts closing ps (e, ids, Some err) = (e', ids', first) \<Longrightarrow> first = Some err"
proof (induction ps arbitrary: e ids)
  case (Cons p ps)
  obtain side where "CloseSideFor (residualOf closing p) = None \<or> CloseSideFor (residualOf closing p) = Some side" by (meson not_None_eq)
  moreover obtain e1 ids1 f1 where sc: "submitClose cl cfg flattenStrategyID (bp_Symbol p) side (absQty (residualOf closing p))
      (''flatten-on-kill drift sweep: '' @ reason) ts (seedDrift cfg ts p (residualOf closing p)
         (recordRisk cfg flattenStrategyID (bp_Symbol p) ''exec.flatten_drift'' e), ids, Some err) = (e1, ids1, f1)" by (metis surj_pair)
  ultimately show ?case using Cons submitClose_first [OF sc] by (auto simp: residualOf_def Let_def split: if_splits)
qed simp

text \<open>What the sweep leaves for a row: nothing to close, or a closing order at work and the flatten book either as
  it was or seeded with the residual.\<close>

definition swept :: "(string, Qty) gomap \<Rightarrow> 'v MoomooExecutor \<Rightarrow> 'v MoomooExecutor \<Rightarrow> BrokerPosition \<Rightarrow> bool" where
  "swept closing e e' p \<longleftrightarrow>
     (let k = (flattenStrategyID, bp_Symbol p); n = netOf (xs_book e) k; n' = netOf (xs_book e') k; r = residualOf closing p in
      (\<forall>side. CloseSideFor r = Some side \<longrightarrow> working e' k side) \<and> (n' = n \<or> r \<noteq> 0 \<and> sint n' = sint n + sint r))"

context trade_venue
begin

lemma drift_step:
  assumes "submitClose cl cfg flattenStrategyID (bp_Symbol p) side q rs ts
      (seedDrift cfg ts p (residualOf closing p) (recordRisk cfg sid sy rule e), ids, None) = (e', ids', None)"
    and "freshIds e" "CloseSideFor (residualOf closing p) = Some side"
  shows "ahead cl e e'" "swept closing e e' p" "k \<noteq> (flattenStrategyID, bp_Symbol p) \<Longrightarrow> netOf (xs_book e') k = netOf (xs_book e) k"
proof -
  let ?e0 = "recordRisk cfg sid sy rule e"
  define e1 where "e1 = seedDrift cfg ts p (residualOf closing p) ?e0"
  note S = seed_net [OF e1_def]
  have w: "working e1 = working e" using S(3) by (simp add: working_def hasWorkingCloseOrder_def fun_eq_iff emits)
  have fr: "freshIds e1" using assms(2) S by (simp add: freshIds_def emits)
  note A = submitClose_ahead [OF assms(1) [folded e1_def] fr]
  show "ahead cl e e'" using A S w fr by (simp add: ahead_def emits)
  show "k \<noteq> (flattenStrategyID, bp_Symbol p) \<Longrightarrow> netOf (xs_book e') k = netOf (xs_book e) k" using A S(1) by (simp add: emits)
  have "residualOf closing p \<noteq> 0" using assms(3) CloseSideFor_iff [of "residualOf closing p"] by auto
  then show "swept closing e e' p" using A S(2) assms(3) by (auto simp: swept_def Let_def emits)
qed

lemma driftLoop_ok:
  "driftLoop cl cfg reason ts closing ps (e, ids, None) = (e', ids', None) \<Longrightarrow> freshIds e \<Longrightarrow> distinct (map bp_Symbol ps) \<Longrightarrow>
     ahead cl e e' \<and> (\<forall>p \<in> set ps. swept closing e e' p) \<and>
     (\<forall>k. k \<notin> (\<lambda>p. (flattenStrategyID, bp_Symbol p)) ` set ps \<longrightarrow> netOf (xs_book e') k = netOf (xs_book e) k)"
proof (induction ps arbitrary: e ids)
  case (Cons p ps)
  let ?k = "(flattenStrategyID, bp_Symbol p)" and ?r = "residualOf closing p"
  have nk: "?k \<notin> (\<lambda>p. (flattenStrategyID, bp_Symbol p)) ` set ps" and ds: "distinct (map bp_Symbol ps)"
    using Cons.prems(3) by auto
  show ?case
  proof (cases "\<exists>side. CloseSideFor ?r = Some side \<and> \<not> working e ?k side")
    case False
    then have "driftLoop cl cfg reason ts closing (p # ps) (e, ids, None) = driftLoop cl cfg reason ts closing ps (e, ids, None)"
      by (auto simp: working_def residualOf_def Let_def split: option.splits)
    note IH = Cons.IH [OF Cons.prems(1) [unfolded this] Cons.prems(2) ds]
    have "netOf (xs_book e') ?k = netOf (xs_book e) ?k" using IH nk by blast
    moreover have "CloseSideFor ?r = Some side \<Longrightarrow> working e' ?k side" for side using IH Cons.prems(3) False by (simp add: ahead_def)
    ultimately have "swept closing e e' p" by (simp add: swept_def Let_def)
    then show ?thesis using IH Cons.prems(3) by auto
  next
    case True
    then obtain side where side: "CloseSideFor ?r = Some side" "\<not> working e ?k side" by blast
    let ?rs = "''flatten-on-kill drift sweep: '' @ reason"
    let ?e0 = "seedDrift cfg ts p ?r (recordRisk cfg flattenStrategyID (bp_Symbol p) ''exec.flatten_drift'' e)"
    obtain e1 ids1 first where sc: "submitClose cl cfg flattenStrategyID (bp_Symbol p) side (absQty ?r) ?rs ts (?e0, ids, None) = (e1, ids1, first)"
      by (metis surj_pair)
    have "?r \<noteq> 0" using side(1) CloseSideFor_iff [of ?r] by auto
    then have rest: "driftLoop cl cfg reason ts closing ps (e1, ids1, first) = (e', ids', None)"
      using Cons.prems(1) side sc by (simp add: working_def residualOf_def Let_def)
    then have first: "first = None" using driftLoop_first by (cases first) fastforce+
    note S = drift_step [OF sc [unfolded first] Cons.prems(2) side(1)]
    have "freshIds e1" using S(1) Cons.prems(2) by (simp add: ahead_def)
    note IH = Cons.IH [OF rest [unfolded first] this ds]
    have same: "netOf (xs_book e') ?k = netOf (xs_book e1) ?k" using IH nk by blast
    have "swept closing e e' p" using S(2) IH Cons.prems(3) same by (auto simp: swept_def Let_def ahead_def)
    moreover have "swept closing e e' p'" if "p' \<in> set ps" for p'
    proof -
      have "bp_Symbol p' \<noteq> bp_Symbol p" using imageI [OF that, of "\<lambda>p. (flattenStrategyID, bp_Symbol p)"] nk by auto
      then show ?thesis using IH Cons.prems(3) that S(3) [of "(flattenStrategyID, bp_Symbol p')"] by (auto simp: swept_def Let_def)
    qed
    ultimately show ?thesis using IH Cons.prems(3) S(1,3) ahead_trans [of cl e e1 e'] by auto
  qed
qed simp

end

lemma closingLoop_net:
  "(case mapGet (closingLoop ps m) sy of None \<Rightarrow> 0 | Some q \<Rightarrow> q) =
     (case mapGet m sy of None \<Rightarrow> 0 | Some q \<Rightarrow> q) + (\<Sum>p\<leftarrow>ps. if pos_Symbol p = sy then pos_SignedQty p else 0)"
  by (induction ps m rule: closingLoop.induct) (auto split: option.splits)

text \<open>What the book holds of a symbol, over any set of keys that contains its own.\<close>

lemma closing_is_net:
  assumes "bookKeys a" "finite K" "set (mapKeys (positions a)) \<subseteq> K"
  shows "(case mapGet (closingLoop (OpenPositions a) []) sy of None \<Rightarrow> 0 | Some q \<Rightarrow> q) = (\<Sum>k\<in>K. if snd k = sy then netOf a k else 0)"
proof -
  let ?g = "\<lambda>k. if snd k = sy then netOf a k else 0" and ?ks = "sortKeys (positions a)"
  have "(\<Sum>p\<leftarrow>OpenPositions a. if pos_Symbol p = sy then pos_SignedQty p else 0) =
      (\<Sum>x\<leftarrow>map (\<lambda>p. (rowKey p, pos_SignedQty p)) (OpenPositions a). if snd (fst x) = sy then snd x else 0)"
    by (simp add: rowKey_def comp_def cong: if_cong)
  also have "\<dots> = (\<Sum>k\<leftarrow>filter (\<lambda>k. netOf a k \<noteq> 0) ?ks. ?g k)" unfolding OpenPositions_rows [OF assms(1)] by (simp add: comp_def cong: if_cong)
  also have "\<dots> = (\<Sum>k\<leftarrow>?ks. ?g k)" unfolding sum_list_map_filter' by (rule arg_cong [where f = sum_list]) auto
  also have "\<dots> = (\<Sum>k\<in>set ?ks. ?g k)"
    using assms(1) by (intro sum_list_distinct_conv_sum_set) (simp add: sortKeys_def bookKeys_def mapWf_def)
  also have "\<dots> = (\<Sum>k\<in>K. ?g k)"
  proof (rule sum.mono_neutral_left [OF assms(2)])
    show "set ?ks \<subseteq> K" using assms(3) by (simp add: sortKeys_def)
    show "\<forall>k \<in> K - set ?ks. ?g k = 0"
    proof
      fix k assume "k \<in> K - set ?ks"
      then have "mapGet (positions a) k = None" using mapGet_in_keys [of "positions a" k] by (auto simp: sortKeys_def)
      then show "?g k = 0" by (simp add: netOf_def posOf_def)
    qed
  qed
  finally show ?thesis using closingLoop_net [of "OpenPositions a" "[]" sy] by simp
qed

lemma residual_moved:
  assumes "bookKeys a" "bookKeys a'" "\<And>k. k \<noteq> (s, bp_Symbol p) \<Longrightarrow> snd k = bp_Symbol p \<Longrightarrow> netOf a' k = netOf a k"
  shows "residualOf (closingLoop (OpenPositions a') []) p =
     residualOf (closingLoop (OpenPositions a) []) p - (netOf a' (s, bp_Symbol p) - netOf a (s, bp_Symbol p))"
proof -
  let ?k = "(s, bp_Symbol p)"
  define K where "K = insert ?k (set (mapKeys (positions a)) \<union> set (mapKeys (positions a')))"
  have K: "finite K" "set (mapKeys (positions a)) \<subseteq> K" "set (mapKeys (positions a')) \<subseteq> K" "?k \<in> K" by (auto simp: K_def)
  let ?S = "\<lambda>b. \<Sum>k\<in>K. if snd k = bp_Symbol p then netOf b k else 0"
  have "?S b = netOf b ?k + (\<Sum>k\<in>K - {?k}. if snd k = bp_Symbol p then netOf b k else 0)" for b
    using K(1,4) by (simp add: sum.remove)
  moreover have "(\<Sum>k\<in>K - {?k}. if snd k = bp_Symbol p then netOf a' k else 0) = (\<Sum>k\<in>K - {?k}. if snd k = bp_Symbol p then netOf a k else 0)"
    using assms(3) by (intro sum.cong) auto
  ultimately have "?S a' - ?S a = netOf a' ?k - netOf a ?k" by simp
  then show ?thesis
    unfolding residualOf_def closing_is_net [OF assms(1) K(1,2)] closing_is_net [OF assms(2) K(1,3)] by (simp add: algebra_simps)
qed


lemma word_sint_add: "sint (n' :: int64) = sint n + sint r \<Longrightarrow> n' - n = r"
  using word_of_sint(1) [of n' n r] by simp

text \<open>After a sweep every row is settled or has its closing order at work, and so has every open book row.\<close>

lemma swept_idle:
  assumes "swept closing e e' p" "closing = closingLoop (OpenPositions (xs_book e)) []"
    and "bookKeys (xs_book e)" "bookKeys (xs_book e')"
    and "\<And>k. k \<noteq> (flattenStrategyID, bp_Symbol p) \<Longrightarrow> snd k = bp_Symbol p \<Longrightarrow> netOf (xs_book e') k = netOf (xs_book e) k"
    and "CloseSideFor (residualOf (closingLoop (OpenPositions (xs_book e')) []) p) = Some side"
  shows "working e' (flattenStrategyID, bp_Symbol p) side"
proof -
  let ?k = "(flattenStrategyID, bp_Symbol p)"
  have r: "residualOf (closingLoop (OpenPositions (xs_book e')) []) p = residualOf closing p - (netOf (xs_book e') ?k - netOf (xs_book e) ?k)"
    unfolding assms(2) by (rule residual_moved [OF assms(3,4,5)])
  have "netOf (xs_book e') ?k = netOf (xs_book e) ?k"
  proof (rule ccontr)
    assume "netOf (xs_book e') ?k \<noteq> netOf (xs_book e) ?k"
    then have "netOf (xs_book e') ?k - netOf (xs_book e) ?k = residualOf closing p"
      using assms(1) word_sint_add by (auto simp: swept_def Let_def)
    then show False using assms(6) r CloseSideFor_iff [of 0] by simp
  qed
  then show ?thesis using assms(1,6) r by (simp add: swept_def Let_def)
qed

lemma swept_open:
  assumes "swept closing e e' p" "CloseSideFor (netOf (xs_book e') (flattenStrategyID, bp_Symbol p)) = Some side"
    and "\<And>s. CloseSideFor (netOf (xs_book e) (flattenStrategyID, bp_Symbol p)) = Some s \<Longrightarrow> working e' (flattenStrategyID, bp_Symbol p) s"
  shows "working e' (flattenStrategyID, bp_Symbol p) side"
proof -
  let ?n = "netOf (xs_book e) (flattenStrategyID, bp_Symbol p)" and ?n' = "netOf (xs_book e') (flattenStrategyID, bp_Symbol p)"
  consider "?n' = ?n" | "sint ?n' = sint ?n + sint (residualOf closing p)" using assms(1) by (auto simp: swept_def Let_def)
  then show ?thesis
  proof cases
    case 2
    have "CloseSideFor ?n = Some side \<or> CloseSideFor (residualOf closing p) = Some side"
      using assms(2) unfolding CloseSideFor_flattens 2 by linarith
    then show ?thesis using assms(1,3) by (auto simp: swept_def Let_def)
  qed (use assms(2,3) in simp)
qed

context trade_venue
begin

theorem flatten_again:
  assumes "Flatten cl cfg now FlattenConfirmationPhrase reason e = (e1, ids, None)"
    and "execInv cfg e" "freshIds e"
    and "\<And>rows. snd (tc_GetPositionList cl (xs_venue e) (xs_accID e) (xs_env e)) = Inr rows \<Longrightarrow> distinct (map bp_Symbol rows)"
  shows "Flatten cl cfg now' FlattenConfirmationPhrase reason' e1 = (e1, [], None)"
proof -
  obtain e0 ids0 f0 where fl: "flattenLoop cl cfg reason now (OpenPositions (xs_book e)) (e, [], None) = (e0, ids0, f0)" by (metis surj_pair)
  obtain ids1 f1 where dr: "flattenBrokerDrift cl cfg reason now e0 = (e1, ids1, f1)"
    and none: "f0 = None" "f1 = None"
    using assms(1) fl by (auto simp: Flatten_def AccountAdapter_OpenPositions_def noteErr_def split: prod.splits option.splits)
  note F = flattenLoop_ok [OF fl [unfolded none] assms(3)]
  have Fb: "xs_book e0 = xs_book e" and Fa: "ahead cl e e0" using F by simp_all
  have Fw: "working e0 (rowKey p) s" if "p \<in> set (OpenPositions (xs_book e))" "CloseSideFor (pos_SignedQty p) = Some s" for p s
    using F that by blast
  have pos: "tc_GetPositionList cl v a env = (v, snd (tc_GetPositionList cl v a env))" for v a env using reads(1) by (metis prod.collapse)
  let ?answer = "snd (tc_GetPositionList cl (xs_venue e) (xs_accID e) (xs_env e))"
  have ans: "tc_GetPositionList cl (xs_venue e0) (xs_accID e0) (xs_env e0) = (xs_venue e0, ?answer)"
    using Fa pos [of "xs_venue e0"] by (simp add: ahead_def)
  let ?cl = "closingLoop (OpenPositions (xs_book e)) []"
  obtain rows where rows: "?answer = Inr rows" and dl: "driftLoop cl cfg reason now ?cl (sort_key bp_Symbol rows) (e0, [], None) = (e1, ids1, None)"
    using dr by (cases ?answer) (simp_all add: flattenBrokerDrift_def AccountAdapter_OpenPositions_def none ans Fb)
  let ?rows = "sort_key bp_Symbol rows"
  have ds: "distinct (map bp_Symbol ?rows)" using assms(4) [OF rows] by (simp add: distinct_map inj_on_def)
  have "freshIds e0" using Fa assms(3) by (simp add: ahead_def)
  note D = driftLoop_ok [OF dl this ds]
  have Da: "ahead cl e0 e1" and Ds: "\<And>p. p \<in> set ?rows \<Longrightarrow> swept ?cl e0 e1 p"
    and Dn: "\<And>k. k \<notin> (\<lambda>p. (flattenStrategyID, bp_Symbol p)) ` set ?rows \<Longrightarrow> netOf (xs_book e1) k = netOf (xs_book e) k"
    using D unfolding Fb by blast+
  have bk: "bookKeys (xs_book e)" "bookKeys (xs_book e1)" using assms(2) Flatten_keeps [OF assms(1)] by (simp_all add: execInv_def keeps_def)
  have first: "working e1 k s" if "CloseSideFor (netOf (xs_book e) k) = Some s" for k s
  proof -
    have "netOf (xs_book e) k \<noteq> 0" using that CloseSideFor_iff [of "netOf (xs_book e) k"] by auto
    then obtain q where q: "q \<in> set (OpenPositions (xs_book e))" "rowKey q = k" using OpenPositions_iff(2) [OF bk(1)] by blast
    then have "working e0 k s" using Fw [OF q(1)] that OpenPositions_iff(1) [OF bk(1) q(1)] by simp
    then show ?thesis using Da unfolding ahead_def by blast
  qed
  have open_rows: "working e1 (rowKey p) side"
    if "p \<in> set (OpenPositions (xs_book e1))" "CloseSideFor (pos_SignedQty p) = Some side" for p side
  proof -
    have n: "CloseSideFor (netOf (xs_book e1) (rowKey p)) = Some side" using OpenPositions_iff(1) [OF bk(2) that(1)] that(2) by simp
    show ?thesis
    proof (cases "rowKey p \<in> (\<lambda>p. (flattenStrategyID, bp_Symbol p)) ` set ?rows")
      case True
      then obtain q where q: "q \<in> set ?rows" "rowKey p = (flattenStrategyID, bp_Symbol q)" by blast
      show ?thesis unfolding q(2)
        by (rule swept_open [OF Ds [OF q(1)] n [unfolded q(2)]]) (simp add: Fb first)
    next
      case False
      then show ?thesis using n first Dn by simp
    qed
  qed
  have idle: "working e1 (flattenStrategyID, bp_Symbol p) side"
    if "p \<in> set ?rows" "CloseSideFor (residualOf (closingLoop (OpenPositions (xs_book e1)) []) p) = Some side" for p side
  proof (rule swept_idle [OF Ds [OF that(1)] _ _ bk(2) _ that(2)])
    show "netOf (xs_book e1) k = netOf (xs_book e0) k" if "k \<noteq> (flattenStrategyID, bp_Symbol p)" "snd k = bp_Symbol p" for k
      unfolding Fb using that by (intro Dn) auto
  qed (use bk Fb in simp_all)
  have "snd (tc_GetPositionList cl (xs_venue e1) (xs_accID e1) (xs_env e1)) = Inr rows" using Da Fa rows by (simp add: ahead_def)
  then have gp: "tc_GetPositionList cl (xs_venue e1) (xs_accID e1) (xs_env e1) = (xs_venue e1, Inr rows)"
    using pos by metis
  have "flattenLoop cl cfg reason' now' (OpenPositions (xs_book e1)) (e1, [], None) = (e1, [], None)"
    by (rule flattenLoop_idle) (blast intro: open_rows)
  moreover have "driftLoop cl cfg reason' now' (closingLoop (OpenPositions (xs_book e1)) []) ?rows (e1, [], None) = (e1, [], None)"
    by (rule driftLoop_idle) (blast intro: idle)
  ultimately show ?thesis by (simp add: Flatten_def flattenBrokerDrift_def AccountAdapter_OpenPositions_def gp)
qed

end

context trade_venue
begin

lemma pull_pure:
  assumes "PullBroker cl e = (e1, r)"
  shows "e1 = e" "xs_venue e' = xs_venue e \<Longrightarrow> xs_env e' = xs_env e \<Longrightarrow> xs_accID e' = xs_accID e \<Longrightarrow> PullBroker cl e' = (e', r)"
proof -
  let ?v = "xs_venue e" and ?a = "xs_accID e" and ?env = "xs_env e"
  obtain p us fs fd where R: "tc_GetPositionList cl ?v ?a ?env = (?v, p)" "tc_GetOrderList cl ?v ?a ?env = (?v, us)"
      "tc_GetOrderFillList cl ?v ?a ?env = (?v, fs)" "tc_GetFunds cl ?v ?a ?env = (?v, fd)"
    using reads by (metis prod.collapse)
  obtain fs' where pf: "\<And>x. xs_env x = ?env \<Longrightarrow> xs_accID x = ?a \<Longrightarrow> pullFills cl x ?v = (?v, fs')"
    using R(3) by (cases "?env = TrdEnvReal") (auto simp: pullFills_def)
  show "e1 = e" "xs_venue e' = ?v \<Longrightarrow> xs_env e' = ?env \<Longrightarrow> xs_accID e' = ?a \<Longrightarrow> PullBroker cl e' = (e', r)"
    using assms pf by (auto simp: PullBroker_def R split: sum.splits)
qed

end

end
