(* ===== verification/Broker_Venue.thy ===== *)
theory Broker_Venue
  imports Broker_Flatten
begin

text \<open>
  The in-memory venue (\<open>exec/moomoo/venue.go\<close>) as a trading surface, and the executor running against it.  The
  pushes a driver delivers are returned as a list in the order the code calls the handlers.
\<close>

section \<open>State\<close>

record mockOrder =
  mo_venueID :: string
  mo_coid :: string
  mo_symbol :: string
  mo_side :: OrderSide
  mo_qty :: Qty
  mo_cumQty :: Qty
  mo_cumNotn :: int64
  mo_status :: int32
  mo_lastErr :: string

record mockPos =
  mp_qty :: Qty
  mp_costNotnAbs :: int64

text \<open>The handlers are registered or not; which they are is the executor's \<open>New\<close>.\<close>

record MockVenue =
  mv_accounts :: "(TrdEnv, uint64 list) gomap"
  mv_unlocked :: bool
  mv_unlockPassword :: string
  mv_failPlace :: "go_error option"
  mv_orderH :: bool
  mv_fillH :: bool
  mv_seq :: nat
  mv_orders :: "(string, mockOrder) gomap"
  mv_byCOID :: "(string, string) gomap"
  mv_posns :: "(string, mockPos) gomap"
  mv_funds :: Funds

definition NewMockVenue :: "uint64 \<Rightarrow> MockVenue" where
  "NewMockVenue paperAccID =
     \<lparr>mv_accounts = [(TrdEnvSimulate, [paperAccID])], mv_unlocked = False, mv_unlockPassword = [], mv_failPlace = None,
      mv_orderH = False, mv_fillH = False, mv_seq = 0, mv_orders = [], mv_byCOID = [], mv_posns = [],
      mv_funds = \<lparr>fd_TotalAssets = 1000000000, fd_Cash = 1000000000, fd_AvailableFunds = 1000000000, fd_MarketValue = 0\<rparr>\<rparr>"

definition RegisterRealAccount :: "uint64 \<Rightarrow> string \<Rightarrow> MockVenue \<Rightarrow> MockVenue" where
  "RegisterRealAccount realAccID unlockPassword v =
     v\<lparr>mv_accounts := mapSet TrdEnvReal ((case mapGet (mv_accounts v) TrdEnvReal of None \<Rightarrow> [] | Some ids \<Rightarrow> ids) @ [realAccID])
         (mv_accounts v), mv_unlockPassword := unlockPassword\<rparr>"

definition FailNextPlace :: "go_error \<Rightarrow> MockVenue \<Rightarrow> MockVenue" where
  "FailNextPlace err v = v\<lparr>mv_failPlace := Some err\<rparr>"

definition abs64 :: "int64 \<Rightarrow> int64" where
  "abs64 x = (if sint x < 0 then - x else x)"

text \<open>The ignored error of \<open>MulQty\<close> leaves a zero amount.\<close>

definition notional :: "Price \<Rightarrow> Qty \<Rightarrow> Money" where
  "notional px q = (case Price_MulQty px q of Inr n \<Rightarrow> n | Inl _ \<Rightarrow> 0)"

definition SetPosition :: "string \<Rightarrow> Qty \<Rightarrow> Price \<Rightarrow> MockVenue \<Rightarrow> MockVenue" where
  "SetPosition sy qty avgPrice v =
     (if qty = 0 then v\<lparr>mv_posns := mapDelete sy (mv_posns v)\<rparr>
      else v\<lparr>mv_posns := mapSet sy \<lparr>mp_qty = qty, mp_costNotnAbs = abs64 (notional avgPrice (absQty qty))\<rparr> (mv_posns v)\<rparr>)"

section \<open>The trading surface\<close>

definition mv_GetAccList :: "MockVenue \<Rightarrow> TrdEnv \<Rightarrow> MockVenue \<times> TradeAccount list result" where
  "mv_GetAccList v env =
     (v, Inr (map (\<lambda>i. \<lparr>ta_AccID = i, ta_TrdEnv = env, ta_SecurityFirm = 0\<rparr>)
        (case mapGet (mv_accounts v) env of None \<Rightarrow> [] | Some ids \<Rightarrow> ids)))"

definition mv_UnlockTrade :: "MockVenue \<Rightarrow> TrdEnv \<Rightarrow> string \<Rightarrow> int32 \<Rightarrow> MockVenue \<times> unit result" where
  "mv_UnlockTrade v env password firm =
     (if env \<noteq> TrdEnvReal then (v, Inr ())
      else if mv_unlockPassword v \<noteq> [] \<and> password \<noteq> mv_unlockPassword v
        then (v, Inl (ErrPlain ''mock venue: unlock password mismatch''))
      else (v\<lparr>mv_unlocked := True\<rparr>, Inr ()))"

definition mv_SubscribeOrderUpdates :: "MockVenue \<Rightarrow> MockVenue \<times> unit result" where
  "mv_SubscribeOrderUpdates v = (v\<lparr>mv_orderH := True\<rparr>, Inr ())"

definition mv_SubscribeFillUpdates :: "MockVenue \<Rightarrow> MockVenue \<times> unit result" where
  "mv_SubscribeFillUpdates v = (v\<lparr>mv_fillH := True\<rparr>, Inr ())"

definition mv_PlaceOrder :: "MockVenue \<Rightarrow> PlaceOrderRequest \<Rightarrow> MockVenue \<times> string result" where
  "mv_PlaceOrder v req =
     (case PlaceOrderRequest_Validate req of
        Inl e \<Rightarrow> (v, Inl e)
      | Inr _ \<Rightarrow>
          if rq_TrdEnv req = TrdEnvReal \<and> \<not> mv_unlocked v then (v, Inl (ErrPlain ''mock venue: REAL order before UnlockTrade''))
          else case mv_failPlace v of
            Some err \<Rightarrow> (v\<lparr>mv_failPlace := None\<rparr>, Inl err)
          | None \<Rightarrow>
              (case mapGet (mv_byCOID v) (rq_ClientOrderID req) of
                 Some vid \<Rightarrow> (v, Inr vid)
               | None \<Rightarrow>
                   (let vid = ''V'' @ fmtUint (mv_seq v + 1);
                        od = \<lparr>mo_venueID = vid, mo_coid = rq_ClientOrderID req, mo_symbol = rq_Symbol req, mo_side = rq_Side req,
                              mo_qty = rq_Qty req, mo_cumQty = 0, mo_cumNotn = 0, mo_status = Trd_WaitingSubmit, mo_lastErr = []\<rparr>
                    in (v\<lparr>mv_seq := mv_seq v + 1, mv_orders := mapSet vid od (mv_orders v),
                          mv_byCOID := mapSet (rq_ClientOrderID req) vid (mv_byCOID v)\<rparr>, Inr vid))))"

definition updateOf :: "mockOrder \<Rightarrow> OrderUpdate" where
  "updateOf od =
     \<lparr>ou_ClientOrderID = mo_coid od, ou_VenueOrderID = mo_venueID od, ou_Symbol = mo_symbol od, ou_Side = mo_side od,
      ou_RawStatus = mo_status od, ou_OrderQty = mo_qty od, ou_DealtQty = mo_cumQty od,
      ou_DealtAvgPrice = (if 0 < sint (mo_cumQty od) then go_quo (mo_cumNotn od) (mo_cumQty od) else 0),
      ou_LastErrMsg = mo_lastErr od, ou_UpdateTimeNs = 0\<rparr>"

definition mv_GetOrderList :: "MockVenue \<Rightarrow> uint64 \<Rightarrow> TrdEnv \<Rightarrow> MockVenue \<times> OrderUpdate list result" where
  "mv_GetOrderList v acc env = (v, Inr (sort_key ou_VenueOrderID (map (\<lambda>(_, od). updateOf od) (mv_orders v))))"

definition brokerRow :: "string \<times> mockPos \<Rightarrow> BrokerPosition" where
  "brokerRow x =
     (case x of (sy, p) \<Rightarrow>
        \<lparr>bp_Symbol = sy, bp_Qty = mp_qty p, bp_AvgPrice = go_quo (mp_costNotnAbs p) (absQty (mp_qty p)), bp_CostPrice = 0,
         bp_Price = 0, bp_PLVal = 0\<rparr>)"

definition mv_GetPositionList :: "MockVenue \<Rightarrow> uint64 \<Rightarrow> TrdEnv \<Rightarrow> MockVenue \<times> BrokerPosition list result" where
  "mv_GetPositionList v acc env =
     (v, Inr (sort_key bp_Symbol (map brokerRow (filter (\<lambda>(_, p). mp_qty p \<noteq> 0) (mv_posns v)))))"

definition mv_GetFunds :: "MockVenue \<Rightarrow> uint64 \<Rightarrow> TrdEnv \<Rightarrow> MockVenue \<times> Funds result" where
  "mv_GetFunds v acc env = (v, Inr (mv_funds v))"

definition mv_GetOrderFillList :: "MockVenue \<Rightarrow> uint64 \<Rightarrow> TrdEnv \<Rightarrow> MockVenue \<times> FillUpdate list result" where
  "mv_GetOrderFillList v acc env = (v, Inr [])"

definition mockClient :: "MockVenue TradeClient" where
  "mockClient =
     \<lparr>tc_GetAccList = mv_GetAccList, tc_UnlockTrade = mv_UnlockTrade, tc_PlaceOrder = mv_PlaceOrder,
      tc_SubscribeOrderUpdates = mv_SubscribeOrderUpdates, tc_SubscribeFillUpdates = mv_SubscribeFillUpdates,
      tc_GetOrderList = mv_GetOrderList, tc_GetPositionList = mv_GetPositionList, tc_GetFunds = mv_GetFunds,
      tc_GetOrderFillList = mv_GetOrderFillList\<rparr>"

section \<open>The lifecycle drivers\<close>

datatype VenuePush = PushFill FillUpdate | PushOrder OrderUpdate

definition orderByCOID :: "string \<Rightarrow> MockVenue \<Rightarrow> mockOrder option" where
  "orderByCOID coid v = (case mapGet (mv_byCOID v) coid of None \<Rightarrow> None | Some vid \<Rightarrow> mapGet (mv_orders v) vid)"

definition setOrder :: "mockOrder \<Rightarrow> MockVenue \<Rightarrow> MockVenue" where
  "setOrder od v = v\<lparr>mv_orders := mapSet (mo_venueID od) od (mv_orders v)\<rparr>"

definition pushOrder :: "MockVenue \<Rightarrow> mockOrder \<Rightarrow> VenuePush list" where
  "pushOrder v od = (if mv_orderH v then [PushOrder (updateOf od)] else [])"

definition unknownOrder :: "go_error" where
  "unknownOrder = ErrPlain ''mock venue: unknown order''"

definition transition :: "string \<Rightarrow> int32 \<Rightarrow> MockVenue \<Rightarrow> MockVenue \<times> VenuePush list \<times> unit result" where
  "transition coid status v =
     (case orderByCOID coid v of
        None \<Rightarrow> (v, [], Inl unknownOrder)
      | Some od \<Rightarrow> (let od1 = od\<lparr>mo_status := status\<rparr> in (setOrder od1 v, pushOrder v od1, Inr ())))"

definition Accept :: "string \<Rightarrow> MockVenue \<Rightarrow> MockVenue \<times> VenuePush list \<times> unit result" where
  "Accept coid v = transition coid Trd_Submitted v"

definition Cancel :: "string \<Rightarrow> MockVenue \<Rightarrow> MockVenue \<times> VenuePush list \<times> unit result" where
  "Cancel coid v = transition coid Trd_Cancelled_All v"

definition Reject :: "string \<Rightarrow> string \<Rightarrow> MockVenue \<Rightarrow> MockVenue \<times> VenuePush list \<times> unit result" where
  "Reject coid reason v =
     (case orderByCOID coid v of
        None \<Rightarrow> (v, [], Inl unknownOrder)
      | Some od \<Rightarrow> (let od1 = od\<lparr>mo_status := Trd_Failed, mo_lastErr := reason\<rparr> in (setOrder od1 v, pushOrder v od1, Inr ())))"

definition PushRaw :: "string \<Rightarrow> MockVenue \<Rightarrow> MockVenue \<times> VenuePush list \<times> unit result" where
  "PushRaw coid v =
     (case orderByCOID coid v of None \<Rightarrow> (v, [], Inl unknownOrder) | Some od \<Rightarrow> (v, pushOrder v od, Inr ()))"

definition CancelOrder :: "uint64 \<Rightarrow> TrdEnv \<Rightarrow> string \<Rightarrow> MockVenue \<Rightarrow> MockVenue \<times> VenuePush list \<times> unit result" where
  "CancelOrder acc env coid v =
     (case orderByCOID coid v of
        None \<Rightarrow> (v, [], Inr ())
      | Some od \<Rightarrow>
          if mo_status od \<in> {Trd_Filled_All, Trd_Cancelled_All, Trd_Failed} then (v, [], Inr ())
          else (let od1 = od\<lparr>mo_status := Trd_Cancelled_All\<rparr> in (setOrder od1 v, pushOrder v od1, Inr ())))"

definition reduceCost :: "mockPos \<Rightarrow> Qty \<Rightarrow> mockPos" where
  "reduceCost p qty =
     (let absPrev = absQty (mp_qty p) in
      if 0 < sint absPrev then
        (let reduce = (if sint absPrev < sint qty then absPrev else qty)
         in p\<lparr>mp_costNotnAbs := mp_costNotnAbs p - go_quo (mp_costNotnAbs p * reduce) absPrev\<rparr>)
      else p)"

definition applyVenueFill :: "string \<Rightarrow> OrderSide \<Rightarrow> Qty \<Rightarrow> Price \<Rightarrow> MockVenue \<Rightarrow> MockVenue" where
  "applyVenueFill sy side qty price v =
     (let p = (case mapGet (mv_posns v) sy of Some p \<Rightarrow> p | None \<Rightarrow> \<lparr>mp_qty = 0, mp_costNotnAbs = 0\<rparr>);
          signed = (if side = OrderSideSell then - qty else qty);
          p1 = (if 0 \<le> sint (mp_qty p) \<and> 0 < sint signed \<or> sint (mp_qty p) \<le> 0 \<and> sint signed < 0
                then p\<lparr>mp_costNotnAbs := mp_costNotnAbs p + abs64 (notional price qty)\<rparr>
                else reduceCost p qty);
          p2 = p1\<lparr>mp_qty := mp_qty p1 + signed\<rparr>;
          p3 = (if mp_qty p2 = 0 then p2\<lparr>mp_costNotnAbs := 0\<rparr> else p2)
      in v\<lparr>mv_posns := mapSet sy p3 (mv_posns v)\<rparr>)"

definition venueFillPush :: "mockOrder \<Rightarrow> Qty \<Rightarrow> Price \<Rightarrow> FillUpdate" where
  "venueFillPush od addQty price =
     \<lparr>fu_FillID = mo_venueID od @ ''-F'' @ FormatInt64 (mo_cumQty od), fu_ClientOrderID = mo_coid od, fu_VenueOrderID = mo_venueID od,
      fu_Symbol = mo_symbol od, fu_Side = mo_side od, fu_Qty = addQty, fu_Price = price, fu_UpdateTimeNs = 0\<rparr>"

definition PartialFill :: "string \<Rightarrow> Qty \<Rightarrow> Price \<Rightarrow> MockVenue \<Rightarrow> MockVenue \<times> VenuePush list \<times> unit result" where
  "PartialFill coid addQty price v =
     (case orderByCOID coid v of
        None \<Rightarrow> (v, [], Inl unknownOrder)
      | Some od \<Rightarrow>
          (case Price_MulQty price addQty of
             Inl e \<Rightarrow> (v, [], Inl e)
           | Inr addNotn \<Rightarrow>
               (let od1 = od\<lparr>mo_cumQty := mo_cumQty od + addQty, mo_cumNotn := mo_cumNotn od + addNotn\<rparr>;
                    od2 = (if sint (mo_qty od1) \<le> sint (mo_cumQty od1) then od1\<lparr>mo_cumQty := mo_qty od1, mo_status := Trd_Filled_All\<rparr>
                           else od1\<lparr>mo_status := Trd_Filled_Part\<rparr>);
                    v1 = applyVenueFill (mo_symbol od2) (mo_side od2) addQty price (setOrder od2 v)
                in (v1, (if mv_fillH v then [PushFill (venueFillPush od2 addQty price)] else []) @ pushOrder v od2, Inr ()))))"

definition mv_Fill :: "string \<Rightarrow> Price \<Rightarrow> MockVenue \<Rightarrow> MockVenue \<times> VenuePush list \<times> unit result" where
  "mv_Fill coid price v =
     (case orderByCOID coid v of
        None \<Rightarrow> (v, [], Inl unknownOrder)
      | Some od \<Rightarrow> PartialFill coid (mo_qty od) price v)"

section \<open>The venue keeps the interface\<close>

lemma mv_PlaceOrder_posns: "mv_PlaceOrder v rq = (v', r) \<Longrightarrow> mv_posns v' = mv_posns v"
  by (auto simp: mv_PlaceOrder_def Let_def split: sum.splits if_splits option.splits)

interpretation mock: trade_venue mockClient
proof
  fix v rq v' r a env
  assume "tc_PlaceOrder mockClient v rq = (v', r)"
  then show "snd (tc_GetPositionList mockClient v' a env) = snd (tc_GetPositionList mockClient v a env)"
    using mv_PlaceOrder_posns [of v rq v' r] by (simp add: mockClient_def mv_GetPositionList_def)
qed (simp_all add: mockClient_def mv_GetPositionList_def mv_GetOrderList_def mv_GetFunds_def mv_GetOrderFillList_def)

end
