(* ===== verification/Broker_Runs.thy ===== *)
theory Broker_Runs
  imports Broker_Venue
begin

text \<open>
  Runs of the broker executor: its operations as a step relation over any venue, and what holds after every run.
  Real money is reached only past the activation gate, the book follows the cumulative quantities of the tracked
  orders, flattening twice closes once, a sync reaches the broker's positions and stays there.  The examples run
  the executor on the in-memory venue.
\<close>

section \<open>Runs of the executor\<close>

text \<open>One operation of the executor, or a change on the venue's side.\<close>

inductive exec_step :: "'v TradeClient \<Rightarrow> ExecConfig \<Rightarrow> 'v MoomooExecutor \<Rightarrow> 'v MoomooExecutor \<Rightarrow> bool" for cl cfg where
  submit: "MoomooExecutor_SubmitMarket cl cfg sid sy side qty reason ts e = (e', r) \<Longrightarrow> exec_step cl cfg e e'"
| signal: "MoomooExecutor_SubmitMarketSignal cl cfg sid sy sg side qty reason ts e = (e', r) \<Longrightarrow> exec_step cl cfg e e'"
| push: "exec_step cl cfg e (onOrderUpdate cfg now u e)"
| fillPush: "exec_step cl cfg e (fst (onFillUpdate fu e))"
| flatten: "Flatten cl cfg now confirmation reason e = (e', r) \<Longrightarrow> exec_step cl cfg e e'"
| restore: "RestoreFromBroker cl cfg e = (e', r) \<Longrightarrow> exec_step cl cfg e e'"
| sync: "SyncBrokerInto cl cfg now sid e = (e', r) \<Longrightarrow> exec_step cl cfg e e'"
| market: "exec_step cl cfg e (e\<lparr>xs_venue := v\<rparr>)"

lemma exec_step_keeps: "exec_step cl cfg e e' \<Longrightarrow> keeps cfg e e'"
  by (induction rule: exec_step.induct)
     (simp_all add: SubmitMarket_keeps onOrderUpdate_keeps onFillUpdate_def Let_def Flatten_keeps RestoreFromBroker_keeps SyncBrokerInto_keeps)

lemma exec_run_keeps: "(exec_step cl cfg)\<^sup>*\<^sup>* e e' \<Longrightarrow> keeps cfg e e'"
  by (induction rule: rtranclp_induct) (auto dest: exec_step_keeps intro: keeps_trans)

text \<open>Trading only: submissions, pushes and the venue.\<close>

inductive trade_step :: "'v TradeClient \<Rightarrow> ExecConfig \<Rightarrow> 'v MoomooExecutor \<Rightarrow> 'v MoomooExecutor \<Rightarrow> bool" for cl cfg where
  submit: "MoomooExecutor_SubmitMarket cl cfg sid sy side qty reason ts e = (e', r) \<Longrightarrow> trade_step cl cfg e e'"
| signal: "MoomooExecutor_SubmitMarketSignal cl cfg sid sy sg side qty reason ts e = (e', r) \<Longrightarrow> trade_step cl cfg e e'"
| push: "trade_step cl cfg e (onOrderUpdate cfg now u e)"
| fillPush: "trade_step cl cfg e (fst (onFillUpdate fu e))"
| market: "trade_step cl cfg e (e\<lparr>xs_venue := v\<rparr>)"

lemma trade_step_booked: "trade_step cl cfg e e' \<Longrightarrow> booked b0 e \<Longrightarrow> booked b0 e'"
proof (induction rule: trade_step.induct)
  case (market e v)
  then show ?case by (rule booked_same [rotated]) (simp add: sameBooked_def)
qed (blast intro: booked_same Submit_sameBooked onOrderUpdate_booked, blast intro: booked_same Submit_sameBooked,
     simp_all add: onOrderUpdate_booked onFillUpdate_def Let_def)

lemma trade_run_booked: "(trade_step cl cfg)\<^sup>*\<^sup>* e e' \<Longrightarrow> booked b0 e \<Longrightarrow> booked b0 e'"
  by (induction rule: rtranclp_induct) (auto dest: trade_step_booked)

lemma activateReal_ok:
  assumes "activateReal cl cfg v = (v', Inr u)"
  obtains v1 accs where "xc_ConfirmationPhrase cfg = LiveConfirmationPhrase" "xc_TraderID cfg = LiveTraderID"
    "tc_GetAccList cl v TrdEnvReal = (v1, Inr accs)" "accountExists accs (acct_BrokerAccID (xc_Account cfg))"
    "unlockReal cl cfg accs v1 = (v', Inr u)"
  using assms by (auto simp: activateReal_def split: if_splits prod.splits sum.splits)

lemma New_ok:
  assumes "New cl cfg book v = (v', Inr e)"
  obtains v1 where "bindEnv cl cfg v = (v1, Inr (xs_env e))" "xs_accID e = acct_BrokerAccID (xc_Account cfg)" "xs_accID e \<noteq> 0"
    "xs_book e = book" "xs_orders e = []" "xs_venIndex e = []" "xs_out e = []" "xs_seq e = 0" "xs_fillsEmit e = 0" "xs_venue e = v'"
    "acct_Env (xc_Account cfg) = EnvPaper \<or> acct_Env (xc_Account cfg) = EnvReal"
  using assms by (auto simp: New_def BrokerEnv_IsBroker_def split: if_splits prod.splits sum.splits)

lemma bindEnv_ok:
  assumes "bindEnv cl cfg v = (v1, Inr env)" "acct_Env (xc_Account cfg) = EnvPaper \<or> acct_Env (xc_Account cfg) = EnvReal"
  shows "acct_Env (xc_Account cfg) = EnvPaper \<and> env = TrdEnvSimulate \<or>
     acct_Env (xc_Account cfg) = EnvReal \<and> env = TrdEnvReal \<and> activateReal cl cfg v = (v1, Inr ())"
proof -
  obtain v2 r where "activateReal cl cfg v = (v2, r)" by fastforce
  then show ?thesis using assms by (cases r) (auto simp: bindEnv_def enum_values split: if_splits)
qed

lemma New_inv:
  assumes "New cl cfg book v = (v', Inr e)" "bookKeys book"
  shows "execInv cfg e" "booked book e"
proof -
  obtain v1 where N: "bindEnv cl cfg v = (v1, Inr (xs_env e))" "xs_accID e = acct_BrokerAccID (xc_Account cfg)" "xs_accID e \<noteq> 0"
    "xs_book e = book" "xs_orders e = []" "xs_venIndex e = []" "xs_out e = []" "xs_fillsEmit e = 0"
    "acct_Env (xc_Account cfg) = EnvPaper \<or> acct_Env (xc_Account cfg) = EnvReal"
    using assms(1) by (rule New_ok)
  have "TrdEnv_IsValid (xs_env e)" using bindEnv_ok [OF N(1,9)] by (auto simp: TrdEnv_IsValid_def)
  then show "execInv cfg e" "booked book e" using N assms(2)
    by (simp_all add: execInv_def tracked_def booked_def fillsSeen_def ordersNet_def)
qed

section \<open>Properties\<close>


text \<open>C12. The book follows the orders: through any submissions and pushes, and whatever the venue does, the
  executor counts at most as many settled fills as its orders have produced, and while the two counts agree
  (the book refused none) each strategy's net position is what it started with plus the cumulative filled
  quantities of its tracked orders in the symbol.\<close>

theorem book_follows_orders:
  assumes "New cl cfg book v = (v', Inr e0)" "bookKeys book" "(trade_step cl cfg)\<^sup>*\<^sup>* e0 e"
  shows "xs_fillsEmit e \<le> fillsSeen (xs_orders e) \<and>
    (xs_fillsEmit e = fillsSeen (xs_orders e) \<longrightarrow>
       NetPosition e sid sy = netOf book (sid, sy) + ordersNet (sid, sy) (xs_orders e))"
proof -
  have "booked book e" by (rule trade_run_booked [OF assms(3) New_inv(2) [OF assms(1,2)]])
  then show ?thesis unfolding booked_def NetPosition_netOf by blast
qed


text \<open>C14. A sync reaches the broker's positions and stays there: when it reports no error, the strategy's book
  holds in every symbol the broker's net, no other strategy's position has moved and no order was placed;
  a second sync against the same positions reflects nothing and changes nothing.\<close>

theorem sync_reflects_broker:
  assumes "trade_venue cl" "SyncBrokerInto cl cfg now sid e = (e', Some res, Inr ())" "execInv cfg e"
  shows "NetPosition e' sid sy = brokerNet (bs_Positions (sr_Snapshot res)) sy \<and>
    (\<forall>s. s \<noteq> sid \<longrightarrow> NetPosition e' s sy = NetPosition e s sy) \<and> placed (xs_out e') = placed (xs_out e) \<and>
    (\<exists>res'. SyncBrokerInto cl cfg now' sid e' = (e', Some res', Inr ()) \<and> sr_Reflected res' = 0)"
proof -
  have bk: "bookKeys (xs_book e)" using assms(3) by (simp add: execInv_def)
  note S = SyncBrokerInto_ok [OF assms(2) bk]
  obtain e1 where pull: "PullBroker cl e = (e1, Inr (sr_Snapshot res))" "xs_venue e' = xs_venue e1" using S(5) by blast
  have "keeps cfg e e'" by (rule SyncBrokerInto_keeps [OF assms(2)])
  then have "xs_env e' = xs_env e" "xs_accID e' = xs_accID e" by (simp_all add: keeps_def)
  with trade_venue.pull_pure [OF assms(1) pull(1)] pull(2) have "PullBroker cl e' = (e', Inr (sr_Snapshot res))" by simp
  moreover have "sid \<noteq> []" using assms(2) by (auto simp: SyncBrokerInto_def)
  ultimately show ?thesis using S(1-3) SyncBrokerInto_idle [of sid cl e' "sr_Snapshot res" cfg now'] by (auto simp: NetPosition_netOf)
qed


lemma place_existing:
  assumes "place cl cfg coid sid sy side qty reason ts e = (e', r)" "mapGet (xs_orders e) coid = Some st"
  shows "\<exists>st'. mapGet (xs_orders e') coid = Some st' \<and> orderKey st' = orderKey st \<and> os_Side st' = os_Side st \<and> os_OrderQty st' = os_OrderQty st"
  using assms(1)
proof (cases rule: place_cases)
  case (refused err)
  then show ?thesis using assms(2) by (auto simp: emits)
next
  case (sent v res)
  have "mapGet (xs_orders (sentState cfg coid sid sy side qty reason ts v e)) coid = Some st"
    using assms(2) by (simp add: sentState_def emits registerOrder_def)
  then show ?thesis using sent(5)
    by (cases res) (auto simp: placeFailed_def placeBound_def Let_def emits updOrder_get NewMarketOrder_def orderKey_def)
qed

lemma restoreLoop_seq: "xs_seq (restoreLoop m us e) = xs_seq e" "xs_env (restoreLoop m us e) = xs_env e"
  by (induction m us e rule: restoreLoop.induct) simp_all

lemma Restore_seq: "RestoreFromBroker cl cfg e = (e', r) \<Longrightarrow> xs_seq e' = xs_seq e"
  by (auto simp: RestoreFromBroker_def restoreLoop_seq Let_def split: prod.splits sum.splits)

text \<open>A restarted executor issues the ids of its first run again: recovery tracks the orders still at the
  broker but does not advance the id counter, so when the first id of the earlier run is among them, the
  first order submitted after the restart gets that id, and the order tracked under it stays the old one,
  with its strategy, symbol, side and quantity; the new order is not tracked.\<close>

theorem restart_reuses_order_ids:
  assumes "New cl cfg book v = (v', Inr e0)" "RestoreFromBroker cl cfg e0 = (e1, rows, err)"
    and "mapGet (xs_orders e1) (coidOf (xs_env e1) 0) = Some st"
    and "MoomooExecutor_SubmitMarket cl cfg sid sy side qty reason ts e1 = (e2, coid, r)"
  shows "coid = coidOf (xs_env e1) 0 \<and>
    (\<exists>st'. mapGet (xs_orders e2) coid = Some st' \<and> orderKey st' = orderKey st \<and> os_Side st' = os_Side st \<and> os_OrderQty st' = os_OrderQty st)"
proof -
  have "xs_seq e0 = 0" using assms(1) by (rule New_ok)
  then have "xs_seq e1 = 0" using Restore_seq [OF assms(2)] by simp
  then have n: "nextClientOrderID e1 = (e1\<lparr>xs_seq := 1\<rparr>, coidOf (xs_env e1) 0)" by (simp add: nextClientOrderID_eq)
  obtain e3 q where p: "place cl cfg (coidOf (xs_env e1) 0) sid sy side qty reason ts (e1\<lparr>xs_seq := 1\<rparr>) = (e3, q)" by fastforce
  then have "coid = coidOf (xs_env e1) 0" "e2 = e3" using assms(4) n by (auto simp: MoomooExecutor_SubmitMarket_def split: sum.splits)
  with place_existing [OF p] assms(3) show ?thesis by simp
qed

text \<open>The fills of a restored order repeat trade ids: an order submitted by this process gives its first fill the
  venue's order id and index zero, and an order restored from the broker, whatever it had filled before, gives
  its next fill the same id again, although the stored fills are keyed by it.\<close>

theorem restored_fill_repeats_trade_id:
  assumes "ou_VenueOrderID u \<noteq> []"
    and "Apply tradeID now (restoredState m u) u2 = (st2, Inr effs2)" "f2 \<in> set (fillsOf effs2)"
    and "os_VenueOrderID st = ou_VenueOrderID u" "os_fillSeq st = 0"
    and "Apply tradeID now' st u1 = (st1, Inr effs1)" "f1 \<in> set (fillsOf effs1)"
  shows "fill_TradeID f2 = fill_TradeID f1"
  using Apply_fill_id [OF assms(2,3)] Apply_fill_id [OF assms(6,7)] assms(1,4,5)
  by (simp add: tradeID_def restoredState_def)

section \<open>Examples\<close>

text \<open>A paper executor on the in-memory venue, and the venue's pushes delivered to it.\<close>

fun deliver :: "ExecConfig \<Rightarrow> gotime \<Rightarrow> VenuePush list \<Rightarrow> MockVenue MoomooExecutor \<Rightarrow> MockVenue MoomooExecutor" where
  "deliver cfg now [] e = e"
| "deliver cfg now (PushFill fu # ps) e = deliver cfg now ps (fst (onFillUpdate fu e))"
| "deliver cfg now (PushOrder u # ps) e = deliver cfg now ps (onOrderUpdate cfg now u e)"

definition drive :: "ExecConfig \<Rightarrow> gotime \<Rightarrow> (MockVenue \<Rightarrow> MockVenue \<times> VenuePush list \<times> unit result) \<Rightarrow>
    MockVenue MoomooExecutor \<Rightarrow> MockVenue MoomooExecutor" where
  "drive cfg now act e = (case act (xs_venue e) of (v, ps, _) \<Rightarrow> deliver cfg now ps (e\<lparr>xs_venue := v\<rparr>))"

definition noon :: gotime where
  "noon = \<lparr>t_ns = 7, t_off = 0\<rparr>"

definition paperConfig :: ExecConfig where
  "paperConfig = \<lparr>xc_Account = NewBrokerAccount ''m'' EnvPaper 7 [], xc_hasClient = True, xc_TraderID = ''P'', xc_ConfirmationPhrase = [],
     xc_UnlockPassword = [], xc_hasSink = True, xc_hasBook = True, xc_hasPersist = True, xc_hasRisk = True,
     xc_Strategy = Some (\<lambda>_. Inr (''s'', True))\<rparr>"

definition liveConfig :: ExecConfig where
  "liveConfig = paperConfig\<lparr>xc_Account := NewBrokerAccount ''m'' EnvReal 9 [], xc_TraderID := LiveTraderID,
     xc_ConfirmationPhrase := LiveConfirmationPhrase, xc_UnlockPassword := ''pw''\<rparr>"

definition newBook :: Account where
  "newBook = NewAccount 100000000 False"

definition theExec :: "'v \<times> 'v MoomooExecutor result \<Rightarrow> 'v MoomooExecutor" where
  "theExec r = (case snd r of Inr e \<Rightarrow> e)"

definition paperExec :: "MockVenue MoomooExecutor" where
  "paperExec = theExec (New mockClient paperConfig newBook (NewMockVenue 7))"

definition buyTen :: "ExecConfig \<Rightarrow> MockVenue MoomooExecutor \<Rightarrow> MockVenue MoomooExecutor" where
  "buyTen cfg e = fst (MoomooExecutor_SubmitMarket mockClient cfg ''s'' ''AB'' OrderSideBuy 10 [] noon e)"

definition boughtTen :: "MockVenue MoomooExecutor" where
  "boughtTen = drive paperConfig noon (mv_Fill ''PAPER-O-0'' 20000) (buyTen paperConfig paperExec)"

definition drifted :: "MockVenue MoomooExecutor" where
  "drifted = boughtTen\<lparr>xs_venue := SetPosition ''CD'' (- 4) 30000 (SetPosition ''AB'' 5 20000 (xs_venue boughtTen))\<rparr>"

definition liveVenue :: MockVenue where
  "liveVenue = RegisterRealAccount 9 ''pw'' (NewMockVenue 7)"

text \<open>What the examples evaluate to, computed together.\<close>

lemma paper_facts:
  "isOk (snd (New mockClient paperConfig newBook (NewMockVenue 7))) \<and>
   xs_fillsEmit boughtTen = 1 \<and> fillsSeen (xs_orders boughtTen) = 1 \<and> ordersNet (''s'', ''AB'') (xs_orders boughtTen) = 10 \<and>
   mapKeys (xs_orders boughtTen) = [coidOf (xs_env boughtTen) 0] \<and> xs_seq boughtTen = 1 \<and>
   (case snd (tc_GetPositionList mockClient (xs_venue boughtTen) (xs_accID boughtTen) (xs_env boughtTen)) of
      Inr rows \<Rightarrow> distinct (map bp_Symbol rows) | Inl _ \<Rightarrow> True) \<and>
   (case snd (Flatten mockClient paperConfig noon FlattenConfirmationPhrase [] boughtTen) of (ids, r) \<Rightarrow> length ids = 1 \<and> r = None) \<and>
   (case snd (SyncBrokerInto mockClient paperConfig noon ''MANUAL'' drifted) of
      (Some res, Inr _) \<Rightarrow> sr_Reflected res = 2 \<and> brokerNet (bs_Positions (sr_Snapshot res)) ''CD'' = - 4 | _ \<Rightarrow> False)"
  by code_simp

lemma live_facts:
  "isOk (snd (New mockClient liveConfig newBook liveVenue)) \<and> acct_BrokerAccID (xc_Account liveConfig) = 9 \<and>
   placed (xs_out (buyTen liveConfig (theExec (New mockClient liveConfig newBook liveVenue)))) \<noteq> [] \<and>
   list_all (\<lambda>rq. rq_TrdEnv rq = TrdEnvReal) (placed (xs_out (buyTen liveConfig (theExec (New mockClient liveConfig newBook liveVenue)))))"
  by code_simp

lemma paperExec_New: "New mockClient paperConfig newBook (NewMockVenue 7) = (fst (New mockClient paperConfig newBook (NewMockVenue 7)), Inr paperExec)"
  using paper_facts by (cases "New mockClient paperConfig newBook (NewMockVenue 7)") (auto simp: paperExec_def theExec_def isOk_iff)

lemma boughtTen_runs: "(trade_step mockClient paperConfig)\<^sup>*\<^sup>* paperExec boughtTen"
proof -
  have d: "(trade_step mockClient cfg)\<^sup>*\<^sup>* e (deliver cfg now ps e)" for cfg now ps e
  proof (induction cfg now ps e rule: deliver.induct)
    case (2 cfg now fu ps e)
    show ?case using converse_rtranclp_into_rtranclp [OF trade_step.fillPush 2] by simp
  next
    case (3 cfg now u ps e)
    show ?case using converse_rtranclp_into_rtranclp [OF trade_step.push 3] by simp
  qed simp
  have "trade_step mockClient paperConfig paperExec (buyTen paperConfig paperExec)"
    unfolding buyTen_def by (rule trade_step.submit [OF prod.collapse [symmetric]])
  moreover have "(trade_step mockClient paperConfig)\<^sup>*\<^sup>* e (drive paperConfig noon act e)" for act e
    using converse_rtranclp_into_rtranclp [OF trade_step.market d] by (auto simp: drive_def split: prod.splits)
  ultimately show ?thesis unfolding boughtTen_def by (blast intro: converse_rtranclp_into_rtranclp)
qed

lemma newBook_keys: "bookKeys newBook"
  by (simp add: newBook_def bookKeys_def NewAccount_def)

theorem book_follows_orders_witness:
  "NetPosition boughtTen ''s'' ''AB'' = 10 \<and> ordersNet (''s'', ''AB'') (xs_orders boughtTen) = 10 \<and> xs_fillsEmit boughtTen = 1"
proof -
  have "netOf newBook (''s'', ''AB'') = 0" by (simp add: netOf_def posOf_def newBook_def NewAccount_def NewPosition_def)
  then show ?thesis
    using book_follows_orders [OF paperExec_New newBook_keys boughtTen_runs, of "''s''" "''AB''"] paper_facts by simp
qed


lemma placed_iff: "rq \<in> set (placed xs) \<longleftrightarrow> OutPlace rq \<in> set xs"
proof (induction xs)
  case (Cons x xs)
  then show ?case by (cases x) auto
qed simp


lemma boughtTen_ok: "execInv paperConfig boughtTen" "freshIds boughtTen"
proof -
  have "trade_step cl cfg e e' \<Longrightarrow> exec_step cl cfg e e'" for cl cfg and e e' :: "MockVenue MoomooExecutor"
    by (induction rule: trade_step.induct) (auto intro: exec_step.intros)
  then have "(exec_step mockClient paperConfig)\<^sup>*\<^sup>* paperExec boughtTen" using boughtTen_runs by (metis (no_types, lifting) predicate2I rev_predicate2D rtranclp_mono)
  then show "execInv paperConfig boughtTen"
    using exec_run_keeps New_inv(1) [OF paperExec_New newBook_keys] unfolding keeps_def by blast
  have s: "mapKeys (xs_orders boughtTen) = [coidOf (xs_env boughtTen) 0]" "xs_seq boughtTen = 1" using paper_facts by blast+
  have "mapGet (xs_orders boughtTen) (coidOf (xs_env boughtTen) n) = None" if "1 \<le> n" for n
    using s(1) mapGet_in_keys [of "xs_orders boughtTen" "coidOf (xs_env boughtTen) n"] that by auto
  then show "freshIds boughtTen" using s(2) by (simp add: freshIds_def)
qed


theorem sync_reflects_broker_witness:
  "\<exists>e' res. SyncBrokerInto mockClient paperConfig noon ''MANUAL'' drifted = (e', Some res, Inr ()) \<and> sr_Reflected res = 2 \<and>
     NetPosition e' ''MANUAL'' ''CD'' = - 4 \<and>
     (\<exists>res'. SyncBrokerInto mockClient paperConfig noon ''MANUAL'' e' = (e', Some res', Inr ()) \<and> sr_Reflected res' = 0)"
proof -
  obtain e' ores r where s: "SyncBrokerInto mockClient paperConfig noon ''MANUAL'' drifted = (e', ores, r)" by (metis surj_pair)
  obtain res where r: "ores = Some res" "r = Inr ()" "sr_Reflected res = 2" "brokerNet (bs_Positions (sr_Snapshot res)) ''CD'' = - 4"
    using paper_facts s by (auto split: option.splits sum.splits)
  have "execInv paperConfig drifted" using boughtTen_ok(1) keeps_field(1) [of paperConfig boughtTen] by (auto simp: keeps_def drifted_def)
  from sync_reflects_broker [OF mock.trade_venue_axioms s [unfolded r(1,2)] this, of "''CD''" noon] show ?thesis using s r by auto
qed

theorem restart_reuses_order_ids_witness:
  "\<exists>e2 r st'. MoomooExecutor_SubmitMarket mockClient paperConfig ''t'' ''CD'' OrderSideSell 3 [] noon
       (fst (RestoreFromBroker mockClient paperConfig (theExec (New mockClient paperConfig newBook (xs_venue (buyTen paperConfig paperExec)))))) =
       (e2, ''PAPER-O-0'', r) \<and> mapGet (xs_orders e2) ''PAPER-O-0'' = Some st' \<and> orderKey st' = (''s'', ''AB'')"
proof -
  let ?v = "xs_venue (buyTen paperConfig paperExec)"
  let ?n = "New mockClient paperConfig newBook ?v"
  have f: "isOk (snd ?n) \<and> coidOf (xs_env (fst (RestoreFromBroker mockClient paperConfig (theExec ?n)))) 0 = ''PAPER-O-0'' \<and>
    map_option orderKey (mapGet (xs_orders (fst (RestoreFromBroker mockClient paperConfig (theExec ?n)))) ''PAPER-O-0'') = Some (''s'', ''AB'')"
    by code_simp
  then have n: "?n = (fst ?n, Inr (theExec ?n))" by (cases ?n) (auto simp: theExec_def isOk_iff)
  obtain e1 rows err where rs: "RestoreFromBroker mockClient paperConfig (theExec ?n) = (e1, rows, err)" by (metis surj_pair)
  obtain e2 coid r where sm: "MoomooExecutor_SubmitMarket mockClient paperConfig ''t'' ''CD'' OrderSideSell 3 [] noon e1 = (e2, coid, r)" by (metis surj_pair)
  obtain st where st: "coidOf (xs_env e1) 0 = ''PAPER-O-0''" "mapGet (xs_orders e1) (coidOf (xs_env e1) 0) = Some st" "orderKey st = (''s'', ''AB'')"
    using f by (auto simp: rs)
  show ?thesis using restart_reuses_order_ids [OF n rs st(2) sm] sm st rs by auto
qed

definition partPush :: "Qty \<Rightarrow> OrderUpdate" where
  "partPush q = snd (samplePush (if q = 10 then Trd_Filled_All else Trd_Filled_Part) q 1000000)"

theorem restored_fill_repeats_trade_id_witness:
  "map fill_TradeID (fillsOf (case snd (Apply tradeID noon sampleOrder (partPush 4)) of Inr effs \<Rightarrow> effs | Inl _ \<Rightarrow> [])) =
   map fill_TradeID (fillsOf (case snd (Apply tradeID noon (restoredState [(''PAPER-O-0'', ''s'')] (partPush 4)) (partPush 10)) of Inr effs \<Rightarrow> effs | Inl _ \<Rightarrow> []))"
proof -
  let ?a = "Apply tradeID noon sampleOrder (partPush 4)"
  let ?b = "Apply tradeID noon (restoredState [(''PAPER-O-0'', ''s'')] (partPush 4)) (partPush 10)"
  have f: "(case snd ?a of Inr effs \<Rightarrow> length (fillsOf effs) = 1 | Inl _ \<Rightarrow> False) \<and>
    (case snd ?b of Inr effs \<Rightarrow> length (fillsOf effs) = 1 | Inl _ \<Rightarrow> False) \<and>
    ou_VenueOrderID (partPush 4) \<noteq> [] \<and> os_VenueOrderID sampleOrder = ou_VenueOrderID (partPush 4) \<and> os_fillSeq sampleOrder = 0"
    by code_simp
  then obtain s1 effs1 f1 s2 effs2 f2 where a: "?a = (s1, Inr effs1)" "fillsOf effs1 = [f1]" and b: "?b = (s2, Inr effs2)" "fillsOf effs2 = [f2]"
    by (cases ?a; cases ?b) (auto simp: length_Suc_conv split: sum.splits)
  from f have "ou_VenueOrderID (partPush 4) \<noteq> []" "os_VenueOrderID sampleOrder = ou_VenueOrderID (partPush 4)" "os_fillSeq sampleOrder = 0" by blast+
  from restored_fill_repeats_trade_id [OF this(1) b(1) _ this(2,3) a(1)] a b show ?thesis by simp
qed

end
