(* ===== verification/Risk_Reconcile.thy ===== *)
theory Risk_Reconcile
  imports Risk_Gate
begin

text \<open>
  The end-of-day reconciliation of \<open>internal/riskgate/reconciliation.go\<close>: the strategies' books are
  summed per symbol with wrapping \<open>int64\<close> addition, compared with the broker's net and classified.
  The lemmas show that every symbol of either side lands in exactly one list and that a clean report
  means the totals agree.  The text rendering \<open>Summary\<close> is not modelled.
\<close>

section \<open>Reports\<close>

record Mismatch =
  mm_Symbol :: string
  StrategyBooksSum :: int64
  BrokerNet :: int64
  Diff :: int64

definition DiffShares :: "Mismatch \<Rightarrow> int64" where
  "DiffShares m = absInt64 (Diff m)"

record ReconciliationReport =
  rr_TS :: gotime
  Matched :: "string list"
  Mismatches :: "Mismatch list"
  SymbolsOnlyInStrategies :: "string list"
  SymbolsOnlyAtBroker :: "string list"

definition HasIssues :: "ReconciliationReport \<Rightarrow> bool" where
  "HasIssues r \<longleftrightarrow> Mismatches r \<noteq> [] \<or> SymbolsOnlyInStrategies r \<noteq> [] \<or> SymbolsOnlyAtBroker r \<noteq> []"

definition getOr0 :: "('k, int64) gomap \<Rightarrow> 'k \<Rightarrow> int64" where
  "getOr0 m k = (case mapGet m k of None \<Rightarrow> 0 | Some q \<Rightarrow> q)"

fun strategySumsLoop :: "(StrategySymbol, int64) gomap \<Rightarrow> (string, int64) gomap \<Rightarrow> (string, int64) gomap" where
  "strategySumsLoop [] bsum = bsum"
| "strategySumsLoop ((k, qty) # m) bsum =
     (if qty = 0 then strategySumsLoop m bsum
      else strategySumsLoop m (mapSet (snd k) (getOr0 bsum (snd k) + qty) bsum))"

fun symSetLoop :: "string list \<Rightarrow> (string, unit) gomap \<Rightarrow> (string, unit) gomap" where
  "symSetLoop [] acc = acc"
| "symSetLoop (sy # sys) acc = symSetLoop sys (mapSet sy () acc)"

fun classifyLoop :: "(string, int64) gomap \<Rightarrow> (string, int64) gomap \<Rightarrow> int64 \<Rightarrow> string list \<Rightarrow>
    ReconciliationReport \<Rightarrow> ReconciliationReport" where
  "classifyLoop bsum broker tol [] r = r"
| "classifyLoop bsum broker tol (sy # sys) r = classifyLoop bsum broker tol sys
     (let sSum = getOr0 bsum sy; bNet = getOr0 broker sy; diff = bNet - sSum in
      if sSum \<noteq> 0 \<and> bNet = 0 then r\<lparr>SymbolsOnlyInStrategies := SymbolsOnlyInStrategies r @ [sy]\<rparr>
      else if sSum = 0 \<and> bNet \<noteq> 0 then r\<lparr>SymbolsOnlyAtBroker := SymbolsOnlyAtBroker r @ [sy]\<rparr>
      else if sint (absInt64 diff) \<le> sint tol then r\<lparr>Matched := Matched r @ [sy]\<rparr>
      else r\<lparr>Mismatches := Mismatches r @
             [\<lparr>mm_Symbol = sy, StrategyBooksSum = sSum, BrokerNet = bNet, Diff = diff\<rparr>]\<rparr>)"

definition Reconcile :: "gotime \<Rightarrow> (StrategySymbol, int64) gomap \<Rightarrow> (string, int64) gomap \<Rightarrow> int64 \<Rightarrow> ReconciliationReport" where
  "Reconcile ts strategyBooks broker toleranceShares =
     (let bsum = strategySumsLoop strategyBooks [];
          symbols = sort (mapKeys (symSetLoop (mapKeys broker) (symSetLoop (mapKeys bsum) [])))
      in classifyLoop bsum broker toleranceShares symbols
           \<lparr>rr_TS = ts, Matched = [], Mismatches = [], SymbolsOnlyInStrategies = [], SymbolsOnlyAtBroker = []\<rparr>)"

section \<open>Every symbol is classified once, and by its true totals\<close>

definition reconSymbols :: "(StrategySymbol, int64) gomap \<Rightarrow> (string, int64) gomap \<Rightarrow> string list" where
  "reconSymbols books broker = sort (mapKeys (symSetLoop (mapKeys broker) (symSetLoop (mapKeys (strategySumsLoop books [])) [])))"

lemma strategySums_get: "getOr0 (strategySumsLoop m bsum) sy = getOr0 bsum sy + sumEntries (netEntry sy) m"
proof (induction m bsum rule: strategySumsLoop.induct)
  case (2 k qty m bsum)
  have "getOr0 (mapSet a v bsum) sy = (if sy = a then v else getOr0 bsum sy)" for a v by (simp add: getOr0_def)
  then show ?case using 2 by (auto simp: sumEntries_def netEntry_def add.assoc)
qed (simp add: sumEntries_def)

lemma strategySums_net: "getOr0 (strategySumsLoop m []) sy = i64 (netShares sy m)"
  by (simp add: strategySums_get netEntries_i64) (simp add: getOr0_def)

lemma strategySums_wf: "mapWf bsum \<Longrightarrow> mapWf (strategySumsLoop m bsum)"
  by (induction m bsum rule: strategySumsLoop.induct) auto

lemma symSetLoop_wf: "mapWf acc \<Longrightarrow> mapWf (symSetLoop sys acc)"
  by (induction sys acc rule: symSetLoop.induct) auto

lemma symSetLoop_keys: "set (mapKeys (symSetLoop sys acc)) = set sys \<union> set (mapKeys acc)"
  by (induction sys acc rule: symSetLoop.induct) (auto simp: mapKeys_set)

lemma reconSymbols_distinct: "distinct (reconSymbols books broker)" "sorted (reconSymbols books broker)"
  using symSetLoop_wf [OF symSetLoop_wf [OF mapWf_empty]] by (simp_all add: reconSymbols_def mapWf_def)

lemma getOr0_absent: "sy \<notin> set (mapKeys m) \<Longrightarrow> getOr0 m sy = 0"
  using mapGet_in_keys [of m sy] by (auto simp: getOr0_def)

lemma reconSymbols_rest:
  "sy \<notin> set (reconSymbols books broker) \<Longrightarrow> getOr0 broker sy = 0 \<and> getOr0 (strategySumsLoop books []) sy = 0"
  by (simp add: reconSymbols_def symSetLoop_keys getOr0_absent)

definition onlyBooks :: "(string, int64) gomap \<Rightarrow> (string, int64) gomap \<Rightarrow> string \<Rightarrow> bool" where
  "onlyBooks bsum broker sy \<longleftrightarrow> getOr0 bsum sy \<noteq> 0 \<and> getOr0 broker sy = 0"

definition onlyBroker :: "(string, int64) gomap \<Rightarrow> (string, int64) gomap \<Rightarrow> string \<Rightarrow> bool" where
  "onlyBroker bsum broker sy \<longleftrightarrow> getOr0 bsum sy = 0 \<and> getOr0 broker sy \<noteq> 0"

definition inTol :: "(string, int64) gomap \<Rightarrow> (string, int64) gomap \<Rightarrow> int64 \<Rightarrow> string \<Rightarrow> bool" where
  "inTol bsum broker tol sy \<longleftrightarrow> sint (absInt64 (getOr0 broker sy - getOr0 bsum sy)) \<le> sint tol"

lemma classifyLoop_lists:
  fixes r :: ReconciliationReport
  defines "one \<equiv> \<lambda>bsum broker sy. onlyBooks bsum broker sy \<or> onlyBroker bsum broker sy"
  shows "Matched (classifyLoop bsum broker tol sys r) = Matched r @ filter (\<lambda>sy. \<not> one bsum broker sy \<and> inTol bsum broker tol sy) sys"
    and "map mm_Symbol (Mismatches (classifyLoop bsum broker tol sys r)) =
      map mm_Symbol (Mismatches r) @ filter (\<lambda>sy. \<not> one bsum broker sy \<and> \<not> inTol bsum broker tol sy) sys"
    and "SymbolsOnlyInStrategies (classifyLoop bsum broker tol sys r) = SymbolsOnlyInStrategies r @ filter (onlyBooks bsum broker) sys"
    and "SymbolsOnlyAtBroker (classifyLoop bsum broker tol sys r) = SymbolsOnlyAtBroker r @ filter (onlyBroker bsum broker) sys"
  by (induction bsum broker tol sys r rule: classifyLoop.induct)
    (auto simp: one_def onlyBooks_def onlyBroker_def inTol_def Let_def)

lemma Reconcile_classify: "Reconcile ts books broker tol = classifyLoop (strategySumsLoop books []) broker tol (reconSymbols books broker)
    \<lparr>rr_TS = ts, Matched = [], Mismatches = [], SymbolsOnlyInStrategies = [], SymbolsOnlyAtBroker = []\<rparr>"
  by (simp add: Reconcile_def Let_def reconSymbols_def)

lemma Reconcile_partition:
  fixes books broker tol ts defines "r \<equiv> Reconcile ts books broker tol"
  shows "mset (Matched r) + mset (map mm_Symbol (Mismatches r)) + mset (SymbolsOnlyInStrategies r) + mset (SymbolsOnlyAtBroker r)
      = mset (reconSymbols books broker)"
proof -
  have part: "mset (filter (\<lambda>x. \<not> (P x \<or> Q x) \<and> W x) xs) + mset (filter (\<lambda>x. \<not> (P x \<or> Q x) \<and> \<not> W x) xs) + mset (filter P xs) + mset (filter Q xs) = mset xs"
    if "\<And>x. \<not> (P x \<and> Q x)" for P Q W :: "string \<Rightarrow> bool" and xs
    using that by (induction xs) auto
  show ?thesis
    unfolding r_def Reconcile_classify classifyLoop_lists ReconciliationReport.select_convs list.map append.simps
    by (rule part) (simp add: onlyBooks_def onlyBroker_def)
qed

definition bookGap :: "(StrategySymbol, int64) gomap \<Rightarrow> (string, int64) gomap \<Rightarrow> string \<Rightarrow> int" where
  "bookGap books broker sy = sint (getOr0 broker sy) - netShares sy books"

definition reconFits :: "(StrategySymbol, int64) gomap \<Rightarrow> (string, int64) gomap \<Rightarrow> bool" where
  "reconFits books broker \<longleftrightarrow>
     list_all (\<lambda>sy. fits64 (netShares sy books) \<and> \<bar>bookGap books broker sy\<bar> < 2 ^ 63) (reconSymbols books broker)"

lemma clean_lists:
  "\<not> HasIssues (Reconcile ts books broker tol) \<longleftrightarrow>
     (\<forall>sy \<in> set (reconSymbols books broker). \<not> onlyBooks (strategySumsLoop books []) broker sy \<and>
        \<not> onlyBroker (strategySumsLoop books []) broker sy \<and> inTol (strategySumsLoop books []) broker tol sy)"
proof -
  have h: "HasIssues x \<longleftrightarrow> map mm_Symbol (Mismatches x) \<noteq> [] \<or> SymbolsOnlyInStrategies x \<noteq> [] \<or> SymbolsOnlyAtBroker x \<noteq> []" for x
    by (simp add: HasIssues_def)
  show ?thesis
    unfolding h Reconcile_classify classifyLoop_lists ReconciliationReport.select_convs list.map append.simps filter_empty_conv
    by blast
qed

lemma clean_iff:
  assumes fit: "reconFits books broker" 
  shows "\<not> HasIssues (Reconcile ts books broker tol) \<longleftrightarrow>
    (\<forall>sy \<in> set (reconSymbols books broker). \<bar>bookGap books broker sy\<bar> \<le> sint tol \<and>
       (netShares sy books = 0 \<longleftrightarrow> getOr0 broker sy = 0))"
proof -
  let ?s = "strategySumsLoop books []"
  have each: "(\<not> onlyBooks ?s broker sy \<and> \<not> onlyBroker ?s broker sy \<and> inTol ?s broker tol sy) \<longleftrightarrow>
      (\<bar>bookGap books broker sy\<bar> \<le> sint tol \<and> (netShares sy books = 0 \<longleftrightarrow> getOr0 broker sy = 0))"
    if "sy \<in> set (reconSymbols books broker)" for sy
  proof -
    have f: "fits64 (netShares sy books)" "\<bar>bookGap books broker sy\<bar> < 2 ^ 63"
      using fit that by (auto simp: reconFits_def list_all_iff)
    have s: "sint (getOr0 ?s sy) = netShares sy books" using f(1) by (simp only: strategySums_net sint_i64)
    have "fits64 (bookGap books broker sy)" using f(2) by (simp add: fits64_def abs_less_iff)
    then have d: "sint (getOr0 broker sy - getOr0 ?s sy) = bookGap books broker sy"
      unfolding bookGap_def s [symmetric] by (rule sint_minus)
    then have "getOr0 broker sy - getOr0 ?s sy \<noteq> MinInt64" using f(2) by (simp add: not_Min_sint)
    from absInt64_exact [OF this] have a: "sint (absInt64 (getOr0 broker sy - getOr0 ?s sy)) = \<bar>bookGap books broker sy\<bar>"
      by (simp only: d)
    have z: "getOr0 ?s sy = 0 \<longleftrightarrow> netShares sy books = 0" unfolding s [symmetric] by (rule sint_eq_0_iff [symmetric])
    show ?thesis unfolding onlyBooks_def onlyBroker_def inTol_def a z by blast
  qed
  show ?thesis unfolding clean_lists by (rule ball_cong [OF refl each])
qed

section \<open>Properties\<close>

text \<open>Reconciliation forgets no symbol: every symbol on the books or at the broker appears in exactly one
  list of the report, once.\<close>

theorem reconcile_partitions:
  "mset (Matched (Reconcile ts books broker tol)) + mset (map mm_Symbol (Mismatches (Reconcile ts books broker tol))) +
     mset (SymbolsOnlyInStrategies (Reconcile ts books broker tol)) + mset (SymbolsOnlyAtBroker (Reconcile ts books broker tol)) =
     mset (reconSymbols books broker) \<and> distinct (reconSymbols books broker)"
  by (intro conjI Reconcile_partition reconSymbols_distinct(1))

text \<open>C35. A report without issues means the books agree: for every symbol the strategies' total and the
  broker's net differ by at most the tolerance and are zero together, and conversely, as long as the totals
  fit in 64 bits.\<close>

theorem reconcile_clean_iff:
  assumes "reconFits books broker"
  shows "\<not> HasIssues (Reconcile ts books broker tol) \<longleftrightarrow>
    (\<forall>sy \<in> set (reconSymbols books broker). \<bar>bookGap books broker sy\<bar> \<le> sint tol \<and>
       (netShares sy books = 0 \<longleftrightarrow> getOr0 broker sy = 0))"
  by (rule clean_iff [OF assms])

theorem reconcile_clean_iff_witness:
  "\<not> HasIssues (Reconcile zeroTime [((''s'', ''X''), 5), ((''t'', ''X''), - 2), ((''s'', ''Y''), 0)] [(''X'', 4)] 1) \<and>
   HasIssues (Reconcile zeroTime [((''s'', ''X''), 5), ((''t'', ''X''), - 2), ((''s'', ''Y''), 0)] [(''X'', 4)] 0)"
proof -
  let ?b = "[((''s'', ''X''), 5), ((''t'', ''X''), - 2), ((''s'', ''Y''), 0)] :: (StrategySymbol, int64) gomap"
  let ?k = "[(''X'', 4)] :: (string, int64) gomap"
  have "reconFits ?b ?k" by code_simp
  moreover have "(list_all (\<lambda>sy. \<bar>bookGap ?b ?k sy\<bar> \<le> sint (1 :: int64) \<and> (netShares sy ?b = 0 \<longleftrightarrow> getOr0 ?k sy = 0)) (reconSymbols ?b ?k)) \<and>
    (\<not> list_all (\<lambda>sy. \<bar>bookGap ?b ?k sy\<bar> \<le> sint (0 :: int64) \<and> (netShares sy ?b = 0 \<longleftrightarrow> getOr0 ?k sy = 0)) (reconSymbols ?b ?k))" by code_simp
  ultimately show ?thesis
    using reconcile_clean_iff [of ?b ?k zeroTime 1] reconcile_clean_iff [of ?b ?k zeroTime 0] unfolding list_all_iff by blast
qed

text \<open>The absolute difference is taken in 64 bits: when books and broker differ by exactly \<open>2 ^ 63\<close> the
  difference has no absolute value there, compares below every tolerance, and the symbol is reported as
  matched.\<close>

theorem reconcile_misses_extreme_gap:
  "Matched (Reconcile ts [((''s'', ''X''), MinInt64 + 1)] [(''X'', 1)] 0) = [''X''] \<and>
   bookGap [((''s'', ''X''), MinInt64 + 1)] [(''X'', 1)] ''X'' = 2 ^ 63"
  by code_simp

end
