(* ===== verification/Live_Trade.thy ===== *)
theory Live_Trade
  imports Broker_Runs Risk_Reconcile
begin

text \<open>
  Paper and live trading around the broker executor: the halt latch (\<open>commands/controller.go\<close>), the marked account
  snapshot (\<open>livetrade/account.go\<close>), the gate ahead of the executor (\<open>livetrade/gate.go\<close>), the session's
  recovery and per-timestamp step (\<open>livetrade/recovery.go\<close>, \<open>livetrade/session.go\<close>), reconciliation against the
  broker (\<open>livetrade/reconcile.go\<close>) and the broker-sync desk (\<open>livetrade/manual.go\<close>, \<open>livetrade/broker_sync.go\<close>).
  The account adapter of the code is the executor's book.  Sinks the code calls are parameters where
  their error reaches the caller and traces where it does not.
\<close>

section \<open>The halt latch\<close>

type_synonym HaltKind = string

definition HaltManual :: HaltKind where "HaltManual = ''manual''"
definition HaltDailyLossKind :: HaltKind where "HaltDailyLossKind = ''daily_loss''"
definition HaltReconciliation :: HaltKind where "HaltReconciliation = ''reconciliation''"

record HaltState =
  ht_halted :: bool
  ht_kind :: HaltKind
  ht_reason :: string
  ht_at :: gotime
  ht_stopped :: bool

definition NewHaltState :: HaltState where
  "NewHaltState = \<lparr>ht_halted = False, ht_kind = [], ht_reason = [], ht_at = zeroTime, ht_stopped = False\<rparr>"

definition Halt :: "gotime \<Rightarrow> HaltKind \<Rightarrow> string \<Rightarrow> HaltState \<Rightarrow> HaltState" where
  "Halt now kind reason h =
     (if ht_halted h then h else h\<lparr>ht_halted := True, ht_kind := kind, ht_reason := reason, ht_at := toUTC now\<rparr>)"

definition HaltDailyLoss :: "gotime \<Rightarrow> string \<Rightarrow> HaltState \<Rightarrow> HaltState" where
  "HaltDailyLoss now reason h = Halt now HaltDailyLossKind reason h"

definition Resume :: "HaltState \<Rightarrow> HaltState" where
  "Resume h = h\<lparr>ht_halted := False, ht_kind := [], ht_reason := [], ht_at := zeroTime\<rparr>"

definition Stop :: "HaltState \<Rightarrow> HaltState" where
  "Stop h = h\<lparr>ht_stopped := True\<rparr>"

definition Emitting :: "HaltState \<Rightarrow> bool" where
  "Emitting h \<longleftrightarrow> \<not> ht_halted h \<and> \<not> ht_stopped h"

definition IsHalted :: "HaltState \<Rightarrow> bool" where
  "IsHalted h \<longleftrightarrow> ht_halted h"

section \<open>The account as the live gate reads it\<close>

definition MarkedSnapshot :: "Account \<Rightarrow> Money \<Rightarrow> PortfolioSnapshot result" where
  "MarkedSnapshot a startingNAV =
     bindR (Account_Snapshot a) (\<lambda>base. bindR (Unrealized a) (\<lambda>unrealized. bindR (Equity a) (\<lambda>equity.
       Inr (NewPortfolioSnapshot equity (ps_Cash base) (acc_realized a) unrealized (ps_Positions base) (ps_LastClose base)))))"

definition AccountAdapter_NetPositionAcrossStrategies :: "Account \<Rightarrow> string \<Rightarrow> Qty" where
  "AccountAdapter_NetPositionAcrossStrategies a sy =
     (case bindR (Account_Snapshot a) (\<lambda>snap. NetPositionAcrossStrategies snap sy) of Inl _ \<Rightarrow> 0 | Inr net \<Rightarrow> net)"

fun bookLoop :: "PositionSnap list \<Rightarrow> (StrategySymbol, int64) gomap \<Rightarrow> (StrategySymbol, int64) gomap" where
  "bookLoop [] m = m"
| "bookLoop (p # ps) m =
     (if pos_SignedQty p = 0 then bookLoop ps m
      else bookLoop ps (mapSet (pos_StrategyID p, pos_Symbol p) (pos_SignedQty p) m))"

definition BookPositions :: "Account \<Rightarrow> (StrategySymbol, int64) gomap" where
  "BookPositions a = bookLoop (AllPositions a) []"

section \<open>The gate ahead of the executor\<close>

record GateDecision =
  gd_RuleName :: string
  gd_StrategyID :: string
  gd_Symbol :: string
  gd_Side :: SignalSide
  gd_Qty :: Qty
  gd_Price :: Price
  gd_TS :: gotime

record 'v GatedSubmitter =
  gs_exec :: "'v MoomooExecutor"
  gs_gate :: "Gate option"
  gs_halt :: "HaltState option"
  gs_hasRisk :: bool
  gs_nav :: Money
  gs_decisions :: "GateDecision list"
  gs_submitted :: nat
  gs_rejected :: nat
  gs_flatPass :: nat

definition NewGatedSubmitter :: "'v MoomooExecutor \<Rightarrow> Gate option \<Rightarrow> HaltState option \<Rightarrow> bool \<Rightarrow> Money \<Rightarrow> 'v GatedSubmitter" where
  "NewGatedSubmitter e gate halt hasRisk nav =
     \<lparr>gs_exec = e, gs_gate = gate, gs_halt = halt, gs_hasRisk = hasRisk, gs_nav = nav, gs_decisions = [],
      gs_submitted = 0, gs_rejected = 0, gs_flatPass = 0\<rparr>"

definition recordRejection :: "string \<Rightarrow> string \<Rightarrow> string \<Rightarrow> SignalSide \<Rightarrow> Qty \<Rightarrow> Price \<Rightarrow> gotime \<Rightarrow>
    'v GatedSubmitter \<Rightarrow> 'v GatedSubmitter" where
  "recordRejection rule sid sy side qty price ts g =
     (let g1 = g\<lparr>gs_rejected := gs_rejected g + 1\<rparr> in
      if gs_hasRisk g1 then g1\<lparr>gs_decisions := gs_decisions g1 @
        [\<lparr>gd_RuleName = rule, gd_StrategyID = sid, gd_Symbol = sy, gd_Side = side, gd_Qty = qty, gd_Price = price, gd_TS = ts\<rparr>]\<rparr>
      else g1)"

definition gateRejectionSink :: "Rejection \<Rightarrow> 'v GatedSubmitter \<Rightarrow> 'v GatedSubmitter" where
  "gateRejectionSink r g =
     recordRejection (rj_RuleName r) (rj_StrategyID r) (rj_Symbol r) (rj_Side r) (rj_Qty r) (rj_Price r) (rj_TS r) g"

definition dailyLossThresholdBreached :: "'v GatedSubmitter \<Rightarrow> bool" where
  "dailyLossThresholdBreached g =
     (case gs_gate g of
        None \<Rightarrow> False
      | Some p \<Rightarrow>
          (case MarkedSnapshot (xs_book (gs_exec g)) (gs_nav g) of
             Inl _ \<Rightarrow> False
           | Inr snap \<Rightarrow> DailyLossHalt (HealthSnapshot p (SnapshotFromDomain snap))))"

definition haltLatched :: "'v GatedSubmitter \<Rightarrow> bool" where
  "haltLatched g = (case gs_halt g of None \<Rightarrow> False | Some h \<Rightarrow> IsHalted h)"

definition dailyLossHalted :: "'v GatedSubmitter \<Rightarrow> bool" where
  "dailyLossHalted g = (if haltLatched g then True else dailyLossThresholdBreached g)"

text \<open>The reason names the threshold; its text is an argument.\<close>

definition EvaluateDailyLossHalt :: "gotime \<Rightarrow> string \<Rightarrow> 'v GatedSubmitter \<Rightarrow> 'v GatedSubmitter \<times> bool \<times> bool" where
  "EvaluateDailyLossHalt now reason g =
     (case gs_halt g of
        None \<Rightarrow> (g, False, dailyLossThresholdBreached g)
      | Some h \<Rightarrow>
          if IsHalted h then (g, False, dailyLossThresholdBreached g)
          else if dailyLossThresholdBreached g then (g\<lparr>gs_halt := Some (HaltDailyLoss now reason h)\<rparr>, True, True)
          else (g, False, False))"

definition Gated_SubmitMarket :: "'v TradeClient \<Rightarrow> ExecConfig \<Rightarrow> string \<Rightarrow> string \<Rightarrow> OrderSide \<Rightarrow> Qty \<Rightarrow> string \<Rightarrow> gotime \<Rightarrow>
    'v GatedSubmitter \<Rightarrow> 'v GatedSubmitter \<times> string \<times> unit result" where
  "Gated_SubmitMarket cl cfg sid sy side qty reason ts g =
     (case MoomooExecutor_SubmitMarket cl cfg sid sy side qty reason ts (gs_exec g) of
        (e, coid, r) \<Rightarrow> (g\<lparr>gs_flatPass := gs_flatPass g + 1, gs_exec := e\<rparr>, coid, r))"

definition forwardSignal :: "'v TradeClient \<Rightarrow> ExecConfig \<Rightarrow> string \<Rightarrow> string \<Rightarrow> SignalSide \<Rightarrow> OrderSide \<Rightarrow> Qty \<Rightarrow> string \<Rightarrow> gotime \<Rightarrow>
    'v GatedSubmitter \<Rightarrow> 'v GatedSubmitter \<times> string \<times> bool \<times> unit result" where
  "forwardSignal cl cfg sid sy sg side qty reason ts g =
     (case MoomooExecutor_SubmitMarketSignal cl cfg sid sy sg side qty reason ts (gs_exec g) of
        (e, coid, submitted, r) \<Rightarrow>
          (g\<lparr>gs_exec := e, gs_submitted := gs_submitted g + (if submitted then 1 else 0)\<rparr>, coid, submitted, r))"

definition Gated_SubmitMarketSignal :: "'v TradeClient \<Rightarrow> ExecConfig \<Rightarrow> string \<Rightarrow> string \<Rightarrow> SignalSide \<Rightarrow> OrderSide \<Rightarrow> Qty \<Rightarrow> string \<Rightarrow> gotime \<Rightarrow>
    'v GatedSubmitter \<Rightarrow> 'v GatedSubmitter \<times> string \<times> bool \<times> unit result" where
  "Gated_SubmitMarketSignal cl cfg sid sy sg side qty reason ts g =
     (if sg = SideFlat \<or> sint qty \<le> 0 then
        forwardSignal cl cfg sid sy sg side qty reason ts (g\<lparr>gs_flatPass := gs_flatPass g + 1\<rparr>)
      else
        (let price = (case LastPrice (xs_book (gs_exec g)) sy of None \<Rightarrow> 0 | Some p \<Rightarrow> p) in
         if dailyLossHalted g then
           (recordRejection ''risk.daily_loss_halt'' sid sy sg qty price ts g, [], False, Inr ())
         else case gs_gate g of
           None \<Rightarrow> forwardSignal cl cfg sid sy sg side qty reason ts g
         | Some p \<Rightarrow>
             (case Account_Snapshot (xs_book (gs_exec g)) of
                Inl err \<Rightarrow> (g, [], False, Inl err)
              | Inr snap \<Rightarrow>
                  (case GateSignal (Some p) (NewProposedOrder sid sy sg qty price ts) (SnapshotFromDomain snap) price
                          (Some gateRejectionSink) g of
                     (g1, decision) \<Rightarrow>
                       if \<not> Approved decision then (g1, [], False, Inr ())
                       else forwardSignal cl cfg sid sy sg side qty reason ts g1))))"

definition Gated_NetPosition :: "'v GatedSubmitter \<Rightarrow> string \<Rightarrow> string \<Rightarrow> Qty" where
  "Gated_NetPosition g sid sy = AccountAdapter_NetPositionAcrossStrategies (xs_book (gs_exec g)) sy"

section \<open>The trade session\<close>

definition NewTradeSession_guard :: "BrokerAccount \<Rightarrow> bool \<Rightarrow> 'v MoomooExecutor option \<Rightarrow> bool \<Rightarrow> unit result" where
  "NewTradeSession_guard acct hasAccount ex hasHalt =
     (if \<not> BrokerEnv_IsBroker (acct_Env acct) then Inl ErrInvalidArgument
      else case ex of
        None \<Rightarrow> Inl ErrInvalidArgument
      | Some e \<Rightarrow>
          if \<not> hasAccount then Inl ErrInvalidArgument
          else if \<not> hasHalt then Inl ErrInvalidArgument
          else if BrokerEnv_IsReal (acct_Env acct) \<and> \<not> IsLive e then Inl ErrInvalidArgument
          else if \<not> BrokerEnv_IsReal (acct_Env acct) \<and> IsLive e then Inl ErrInvalidArgument
          else Inr ())"

definition navOrDefault :: "Money \<Rightarrow> Money" where
  "navOrDefault nav = (if 0 < sint nav then nav else 1000000000)"

definition recoveryStrategyID :: string where
  "recoveryStrategyID = ''RECOVERY''"

definition recoveryFill :: "gotime \<Rightarrow> string \<Rightarrow> Qty \<Rightarrow> Price \<Rightarrow> Fill" where
  "recoveryFill now sy delta px =
     \<lparr>fill_TradeID = ''RECOVERY-'' @ sy, fill_ClientOrderID = ''RECOVERY-'' @ sy, fill_VenueOrderID = [],
      fill_StrategyID = recoveryStrategyID, fill_Symbol = sy,
      fill_Side = (if sint delta < 0 then OrderSideSell else OrderSideBuy), fill_Qty = absQty delta, fill_Price = px,
      fill_Commission = 0, fill_TS = now\<rparr>"

fun seedPositions :: "gotime \<Rightarrow> BrokerPosition list \<Rightarrow> Account \<Rightarrow> Account \<times> unit result" where
  "seedPositions now [] a = (a, Inr ())"
| "seedPositions now (p # ps) a =
     (let delta = bp_Qty p - AccountAdapter_NetPositionAcrossStrategies a (bp_Symbol p) in
      if bp_Qty p = 0 \<or> delta = 0 then seedPositions now ps a
      else
        (let px = (if sint (bp_AvgPrice p) \<le> 0 then bp_Price p else bp_AvgPrice p) in
         if sint px \<le> 0 then (a, Inl (ErrPlain ''livetrade: broker reported no price''))
         else
           (let f = recoveryFill now (bp_Symbol p) delta px in
            case Fill_Validate f of
              Inl err \<Rightarrow> (a, Inl err)
            | Inr _ \<Rightarrow>
                (case AccountAdapter_ApplyFill a f of
                   (a1, Inl err) \<Rightarrow> (a1, Inl err)
                 | (a1, Inr _) \<Rightarrow> seedPositions now ps a1))))"

definition TradeSession_RestoreFromBroker :: "'v TradeClient \<Rightarrow> ExecConfig \<Rightarrow> gotime \<Rightarrow> 'v MoomooExecutor \<Rightarrow>
    'v MoomooExecutor \<times> BrokerPosition list \<times> go_error option" where
  "TradeSession_RestoreFromBroker cl cfg now e =
     (case RestoreFromBroker cl cfg e of
        (e1, rows, attribErr) \<Rightarrow>
          if rows = [] \<and> attribErr \<noteq> None then (e1, [], attribErr)
          else (case seedPositions now rows (xs_book e1) of
                  (b, Inl err) \<Rightarrow> (e1\<lparr>xs_book := b\<rparr>, [], Some err)
                | (b, Inr _) \<Rightarrow> (e1\<lparr>xs_book := b\<rparr>, rows, attribErr)))"

record LiveSnapshot =
  lv_AsOf :: gotime
  lv_Health :: "PortfolioHealthSnapshot option"
  lv_Positions :: "PositionSnap list"
  lv_DailyLossHalted :: bool
  lv_HaltLatchedNow :: bool

text \<open>The health sink and the saving of the strategies' states answer with a result; a missing gate leaves the
  zero health report, which is not halted.\<close>

definition postTimestamp :: "(LiveSnapshot \<Rightarrow> unit result) option \<Rightarrow> unit result \<Rightarrow> gotime \<Rightarrow> string \<Rightarrow> gotime \<Rightarrow>
    'v GatedSubmitter \<Rightarrow> 'v GatedSubmitter \<times> LiveSnapshot option \<times> unit result" where
  "postTimestamp sink persisted now reason asOf g =
     (case EvaluateDailyLossHalt now reason g of
        (g1, latched, _) \<Rightarrow>
          (case MarkedSnapshot (xs_book (gs_exec g1)) (gs_nav g1) of
             Inl err \<Rightarrow> (g1, None, Inl err)
           | Inr snap \<Rightarrow>
               (let health = map_option (\<lambda>p. HealthSnapshot p (SnapshotFromDomain snap)) (gs_gate g1);
                    live = \<lparr>lv_AsOf = asOf, lv_Health = health, lv_Positions = OpenPositions (xs_book (gs_exec g1)),
                      lv_DailyLossHalted = (case health of None \<Rightarrow> False | Some h \<Rightarrow> DailyLossHalt h) \<or> haltLatched g1,
                      lv_HaltLatchedNow = latched\<rparr>
                in case sink of
                     None \<Rightarrow> (g1, None, persisted)
                   | Some emit \<Rightarrow> (case emit live of Inl err \<Rightarrow> (g1, Some live, Inl err) | Inr _ \<Rightarrow> (g1, Some live, persisted)))))"

section \<open>Reconciliation against the broker\<close>

fun brokerMapLoop :: "BrokerPosition list \<Rightarrow> (string, int64) gomap \<Rightarrow> (string, int64) gomap" where
  "brokerMapLoop [] m = m"
| "brokerMapLoop (p # ps) m =
     (if bp_Qty p = 0 then brokerMapLoop ps m
      else brokerMapLoop ps (mapSet (bp_Symbol p) (getOr0 m (bp_Symbol p) + bp_Qty p) m))"

fun addBooks :: "(StrategySymbol, int64) gomap \<Rightarrow> (StrategySymbol, int64) gomap \<Rightarrow> (StrategySymbol, int64) gomap" where
  "addBooks [] out = out"
| "addBooks ((k, v) # m) out = addBooks m (mapSet k (getOr0 out k + v) out)"

fun CombinedBooks_BookPositions :: "(StrategySymbol, int64) gomap option list \<Rightarrow> (StrategySymbol, int64) gomap \<Rightarrow>
    (StrategySymbol, int64) gomap" where
  "CombinedBooks_BookPositions [] out = out"
| "CombinedBooks_BookPositions (None # srcs) out = CombinedBooks_BookPositions srcs out"
| "CombinedBooks_BookPositions (Some m # srcs) out = CombinedBooks_BookPositions srcs (addBooks m out)"

record Reconciler =
  rc_accID :: uint64
  rc_env :: TrdEnv
  rc_tolerance :: int64
  rc_hasAlerter :: bool
  rc_runs :: nat
  rc_alerts :: "ReconciliationReport list"

definition NewReconciler :: "bool \<Rightarrow> bool \<Rightarrow> uint64 \<Rightarrow> TrdEnv \<Rightarrow> int64 \<Rightarrow> bool \<Rightarrow> Reconciler result" where
  "NewReconciler hasBroker hasBooks accID env tol hasAlerter =
     (if \<not> hasBroker \<or> \<not> hasBooks then Inl (ErrPlain ''livetrade: reconciler requires a broker source and strategy books'')
      else if accID = 0 then Inl (ErrPlain ''livetrade: reconciler requires a non-zero acc id'')
      else Inr \<lparr>rc_accID = accID, rc_env = env, rc_tolerance = tol, rc_hasAlerter = hasAlerter, rc_runs = 0, rc_alerts = []\<rparr>)"

definition Reconciler_Reconcile :: "'v TradeClient \<Rightarrow> (ReconciliationReport \<Rightarrow> int64 \<Rightarrow> unit result) option \<Rightarrow> gotime \<Rightarrow>
    (StrategySymbol, int64) gomap \<Rightarrow> 'v \<times> Reconciler \<Rightarrow> ('v \<times> Reconciler) \<times> ReconciliationReport option \<times> unit result" where
  "Reconciler_Reconcile cl sink now books s =
     (case s of (v, r) \<Rightarrow>
        (case tc_GetPositionList cl v (rc_accID r) (rc_env r) of
           (v1, Inl err) \<Rightarrow> ((v1, r), None, Inl err)
         | (v1, Inr rows) \<Rightarrow>
             (let report = Reconcile (toUTC now) books (brokerMapLoop rows []) (rc_tolerance r);
                  r1 = r\<lparr>rc_runs := rc_runs r + 1\<rparr>
              in case (case sink of None \<Rightarrow> Inr () | Some save \<Rightarrow> save report (rc_tolerance r)) of
                   Inl err \<Rightarrow> ((v1, r1), Some report, Inl err)
                 | Inr _ \<Rightarrow>
                     ((v1, if HasIssues report \<and> rc_hasAlerter r1 then r1\<lparr>rc_alerts := rc_alerts r1 @ [report]\<rparr> else r1),
                      Some report, Inr ()))))"

section \<open>The broker-sync desk\<close>

definition ExternalStrategyID :: string where
  "ExternalStrategyID = ''EXTERNAL''"

record SyncAuditRecord =
  au_Operator :: string
  au_Qty :: int
  au_Live :: bool
  au_TS :: gotime

record 'v BrokerSyncController =
  bc_acct :: BrokerAccount
  bc_exec :: "'v MoomooExecutor"
  bc_hasAudit :: bool
  bc_audit :: "SyncAuditRecord list"
  bc_reconciler :: "Reconciler option"

definition NewBrokerSyncController :: "BrokerAccount \<Rightarrow> 'v MoomooExecutor option \<Rightarrow> bool \<Rightarrow> bool \<Rightarrow> Reconciler option \<Rightarrow>
    'v BrokerSyncController result" where
  "NewBrokerSyncController acct ex hasAccount hasAudit rc =
     (if \<not> BrokerEnv_IsBroker (acct_Env acct) then Inl ErrInvalidArgument
      else case ex of
        None \<Rightarrow> Inl ErrInvalidArgument
      | Some e \<Rightarrow>
          if \<not> hasAccount then Inl ErrInvalidArgument
          else if BrokerEnv_IsReal (acct_Env acct) \<and> \<not> IsLive e then Inl ErrInvalidArgument
          else if \<not> BrokerEnv_IsReal (acct_Env acct) \<and> IsLive e then Inl ErrInvalidArgument
          else Inr \<lparr>bc_acct = acct, bc_exec = e, bc_hasAudit = hasAudit, bc_audit = [], bc_reconciler = rc\<rparr>)"

definition BrokerSyncController_IsLive :: "'v BrokerSyncController \<Rightarrow> bool" where
  "BrokerSyncController_IsLive m \<longleftrightarrow> BrokerEnv_IsReal (acct_Env (bc_acct m))"

definition audit0 :: "gotime \<Rightarrow> SyncAuditRecord \<Rightarrow> 'v BrokerSyncController \<Rightarrow> 'v BrokerSyncController" where
  "audit0 now rc m =
     (if bc_hasAudit m then m\<lparr>bc_audit := bc_audit m @ [if IsZero (au_TS rc) then rc\<lparr>au_TS := now\<rparr> else rc]\<rparr> else m)"

record SyncReport =
  sp_PositionsObserved :: nat
  sp_OrdersObserved :: nat
  sp_FillsObserved :: nat
  sp_Reflected :: nat
  sp_Funds :: BrokerSnapshot
  sp_Reconciliation :: "ReconciliationReport option"
  sp_TS :: gotime

definition HasDrift :: "SyncReport \<Rightarrow> bool" where
  "HasDrift r = (case sp_Reconciliation r of None \<Rightarrow> False | Some rep \<Rightarrow> HasIssues rep)"

text \<open>The books the reconciler reads are those of the desk itself and of the running session, if there is one.\<close>

definition SyncFromBroker :: "'v TradeClient \<Rightarrow> ExecConfig \<Rightarrow> (ReconciliationReport \<Rightarrow> int64 \<Rightarrow> unit result) option \<Rightarrow> gotime \<Rightarrow>
    (StrategySymbol, int64) gomap option \<Rightarrow> string \<Rightarrow> 'v BrokerSyncController \<Rightarrow>
    'v BrokerSyncController \<times> SyncReport option \<times> unit result" where
  "SyncFromBroker cl cfg sink now sessionBooks operator m =
     (if TrimSpace operator = [] then (m, None, Inl ErrInvalidArgument)
      else case SyncBrokerInto cl cfg now ExternalStrategyID (bc_exec m) of
        (e1, _, Inl err) \<Rightarrow>
          (audit0 now \<lparr>au_Operator = operator, au_Qty = 0, au_Live = BrokerSyncController_IsLive m, au_TS = now\<rparr> (m\<lparr>bc_exec := e1\<rparr>), None, Inl err)
      | (e1, None, Inr _) \<Rightarrow> (m\<lparr>bc_exec := e1\<rparr>, None, Inr ())
      | (e1, Some res, Inr _) \<Rightarrow>
          (let report = \<lparr>sp_PositionsObserved = sr_PositionsObserved res, sp_OrdersObserved = sr_OrdersObserved res,
                 sp_FillsObserved = sr_FillsObserved res, sp_Reflected = sr_Reflected res, sp_Funds = sr_Snapshot res,
                 sp_Reconciliation = None, sp_TS = now\<rparr>;
               m1 = audit0 now \<lparr>au_Operator = operator, au_Qty = int (sr_Reflected res), au_Live = BrokerSyncController_IsLive m, au_TS = now\<rparr>
                      (m\<lparr>bc_exec := e1\<rparr>)
           in case bc_reconciler m1 of
                None \<Rightarrow> (m1, Some report, Inr ())
              | Some rc \<Rightarrow>
                  (case Reconciler_Reconcile cl sink now
                          (CombinedBooks_BookPositions [Some (BookPositions (xs_book e1)), sessionBooks] []) (xs_venue e1, rc) of
                     ((v, rc1), rep, Inl err) \<Rightarrow> (m1\<lparr>bc_exec := e1\<lparr>xs_venue := v\<rparr>, bc_reconciler := Some rc1\<rparr>, Some report, Inl err)
                   | ((v, rc1), rep, Inr _) \<Rightarrow>
                       (m1\<lparr>bc_exec := e1\<lparr>xs_venue := v\<rparr>, bc_reconciler := Some rc1\<rparr>,
                        Some (report\<lparr>sp_Reconciliation := rep\<rparr>), Inr ()))))"

end
