(* ===== verification/Live_Props.thy ===== *)
theory Live_Props
  imports Live_Trade Engine_Props
begin

text \<open>
  What paper and live trading guarantee: a halted session only closes, live gating decides as the back-test gate does,
  recovery books what the broker holds, and what the reconciliation after a broker sync reports.  \<open>bookNet\<close> is
  the book's net position of a symbol over all strategies, the quantity the adapter reads.
\<close>

section \<open>A halted session\<close>

text \<open>What drives a gated submitter: the strategies' calls, the venue's pushes, the evaluation after a timestamp.\<close>

datatype GatedOp =
  GSignal string string SignalSide OrderSide Qty string gotime
| GMarket string string OrderSide Qty string gotime
| GPush gotime OrderUpdate
| GEvaluate gotime string

fun gatedOp :: "'v TradeClient \<Rightarrow> ExecConfig \<Rightarrow> GatedOp \<Rightarrow> 'v GatedSubmitter \<Rightarrow> 'v GatedSubmitter" where
  "gatedOp cl cfg (GSignal sid sy sg side qty reason ts) g = fst (Gated_SubmitMarketSignal cl cfg sid sy sg side qty reason ts g)"
| "gatedOp cl cfg (GMarket sid sy side qty reason ts) g = fst (Gated_SubmitMarket cl cfg sid sy side qty reason ts g)"
| "gatedOp cl cfg (GPush now u) g = g\<lparr>gs_exec := onOrderUpdate cfg now u (gs_exec g)\<rparr>"
| "gatedOp cl cfg (GEvaluate now reason) g = fst (EvaluateDailyLossHalt now reason g)"

definition gatedRun :: "'v TradeClient \<Rightarrow> ExecConfig \<Rightarrow> GatedOp list \<Rightarrow> 'v GatedSubmitter \<Rightarrow> 'v GatedSubmitter" where
  "gatedRun cl cfg ops g = fold (gatedOp cl cfg) ops g"

fun isExit :: "GatedOp \<Rightarrow> bool" where
  "isExit (GSignal sid sy sg side qty reason ts) \<longleftrightarrow> sg = SideFlat \<or> sint qty \<le> 0"
| "isExit (GMarket sid sy side qty reason ts) \<longleftrightarrow> True"
| "isExit _ \<longleftrightarrow> False"

definition requests :: "'v GatedSubmitter \<Rightarrow> PlaceOrderRequest list" where
  "requests g = placed (xs_out (gs_exec g))"

lemma placed_emitOut: "placed (xs_out (emitOut b x e)) = placed (xs_out e) @ (if b then placed [x] else [])"
  by simp

lemma place_placed: "place cl cfg coid sid sy side qty reason ts e = (e', r) \<Longrightarrow> length (placed (xs_out e')) \<le> Suc (length (placed (xs_out e)))"
proof (erule place_cases)
  fix v res
  assume "e' = (case res of Inl err \<Rightarrow> placeFailed cfg (NewMarketOrder coid sid sy side qty reason ts) err (sentState cfg coid sid sy side qty reason ts v e)
             | Inr vid \<Rightarrow> placeBound coid vid (sentState cfg coid sid sy side qty reason ts v e))"
  then show ?thesis by (cases res) (simp_all add: placeFailed_def placeBound_def Let_def emits sentState_def)
qed (auto simp: emits)

lemma Submit_placed:
  "MoomooExecutor_SubmitMarket cl cfg sid sy side qty reason ts e = (e', r) \<Longrightarrow> length (placed (xs_out e')) \<le> Suc (length (placed (xs_out e)))"
  "MoomooExecutor_SubmitMarketSignal cl cfg sid sy sg side qty reason ts e = (e', r2) \<Longrightarrow> length (placed (xs_out e')) \<le> Suc (length (placed (xs_out e)))"
  by (auto simp: MoomooExecutor_SubmitMarket_def MoomooExecutor_SubmitMarketSignal_def nextClientOrderID_def
      split: prod.splits sum.splits dest!: place_placed)

lemma applyEffects_placed: "placed (xs_out (applyEffects cfg now st effs e)) = placed (xs_out e)"
proof (induction cfg now st effs e rule: applyEffects.induct)
  case (3 cfg now st f effs e)
  then show ?case by (auto simp: applyFillEffect_def Let_def emits split: prod.splits sum.splits)
qed (auto simp: emits)

lemma lookup_out: "lookup_order u e = (e', c) \<Longrightarrow> xs_out e' = xs_out e"
  by (auto simp: lookup_order_def split: if_splits option.splits)

lemma push_placed: "placed (xs_out (onOrderUpdate cfg now u e)) = placed (xs_out e)"
  by (cases rule: onOrderUpdate_cases [where u = u and e = e and cfg = cfg and now = now])
     (auto simp: applyEffects_placed lookup_out split: sum.splits)

lemma forward_placed: "length (requests (fst (forwardSignal cl cfg sid sy sg side qty reason ts g))) \<le> Suc (length (requests g))"
  using Submit_placed(2) [of cl cfg sid sy sg side qty reason ts "gs_exec g"]
  by (auto simp: forwardSignal_def requests_def split: prod.splits)

lemma recordRejection_sel [simp]: "gs_exec (recordRejection rule sid sy sg qty px ts g) = gs_exec g"
    "gs_halt (recordRejection rule sid sy sg qty px ts g) = gs_halt g"
  by (simp_all add: recordRejection_def Let_def)

lemma forward_halt [simp]: "gs_halt (fst (forwardSignal cl cfg sid sy sg side qty reason ts g)) = gs_halt g"
  by (simp add: forwardSignal_def split: prod.splits)

lemma gatedOp_halted:
  assumes "haltLatched g"
  shows "haltLatched (gatedOp cl cfg op g) \<and> length (requests (gatedOp cl cfg op g)) \<le> length (requests g) + (if isExit op then 1 else 0)"
proof (cases op)
  case (GSignal sid sy sg side qty reason ts)
  show ?thesis
  proof (cases "sg = SideFlat \<or> sint qty \<le> 0")
    case True
    then show ?thesis using forward_placed [of cl cfg sid sy sg side qty reason ts "g\<lparr>gs_flatPass := gs_flatPass g + 1\<rparr>"] assms
      by (simp add: GSignal Gated_SubmitMarketSignal_def haltLatched_def requests_def)
  next
    case False
    then show ?thesis using assms by (simp add: GSignal Gated_SubmitMarketSignal_def dailyLossHalted_def Let_def haltLatched_def requests_def)
  qed
next
  case (GMarket sid sy side qty reason ts)
  then show ?thesis using assms Submit_placed(1) [of cl cfg sid sy side qty reason ts "gs_exec g"]
    by (auto simp: Gated_SubmitMarket_def haltLatched_def requests_def split: prod.splits)
next
  case (GPush now u)
  then show ?thesis using assms by (simp add: haltLatched_def requests_def push_placed)
next
  case (GEvaluate now reason)
  then show ?thesis using assms by (auto simp: EvaluateDailyLossHalt_def haltLatched_def requests_def split: option.splits)
qed

section \<open>The live gate and the back-test gate\<close>

lemma forward_coid: "forwardSignal cl cfg sid sy sg side qty reason ts g = (g', coid, sub, r) \<Longrightarrow> coid \<noteq> []"
  by (auto simp: forwardSignal_def MoomooExecutor_SubmitMarketSignal_def nextClientOrderID_def split: prod.splits sum.splits)

section \<open>What the whole book holds of a symbol\<close>

definition bookNet :: "Account \<Rightarrow> string \<Rightarrow> Qty" where
  "bookNet a sy = (\<Sum>k\<in>set (mapKeys (positions a)). if snd k = sy then netOf a k else 0)"

lemma netOf_absent: "k \<notin> set (mapKeys (positions a)) \<Longrightarrow> netOf a k = 0"
  using mapGet_in_keys [of "positions a" k] by (auto simp: netOf_def posOf_def)

lemma bookNet_sum: "finite K \<Longrightarrow> set (mapKeys (positions a)) \<subseteq> K \<Longrightarrow> bookNet a sy = (\<Sum>k\<in>K. if snd k = sy then netOf a k else 0)"
  unfolding bookNet_def by (rule sum.mono_neutral_left) (auto simp: netOf_absent)

lemma sumEntries_sum:
  assumes "mapWf m"
  shows "sumEntries (netEntry sy) m = (\<Sum>k\<in>set (mapKeys m). if snd k = sy then getOr0 m k else 0)"
proof -
  have "sumEntries (netEntry sy) m = (\<Sum>e\<in>set m. netEntry sy e)"
    unfolding sumEntries_def using assms by (intro sum_list_distinct_conv_sum_set) (auto simp: mapWf_def mapKeys_def distinct_map)
  also have "\<dots> = (\<Sum>e\<in>set m. if snd (fst e) = sy then getOr0 m (fst e) else 0)"
    using assms by (intro sum.cong) (auto simp: netEntry_def getOr0_def mapGet_Some_iff [symmetric])
  also have "\<dots> = (\<Sum>k\<in>fst ` set m. if snd k = sy then getOr0 m k else 0)"
    using assms by (subst sum.reindex) (auto simp: mapWf_def mapKeys_def distinct_map)
  finally show ?thesis by (simp add: mapKeys_def)
qed

lemma bookNet_map:
  assumes "mapWf m" "\<And>k. getOr0 m k = netOf a k"
  shows "sumEntries (netEntry sy) m = bookNet a sy"
proof -
  let ?K = "set (mapKeys m) \<union> set (mapKeys (positions a))"
  have "sumEntries (netEntry sy) m = (\<Sum>k\<in>?K. if snd k = sy then getOr0 m k else 0)"
    unfolding sumEntries_sum [OF assms(1)] by (rule sum.mono_neutral_left) (auto simp: getOr0_absent)
  also have "\<dots> = bookNet a sy" unfolding assms(2) by (rule bookNet_sum [symmetric]) auto
  finally show ?thesis .
qed

lemma bookNet_moved:
  assumes "\<And>k. k \<noteq> (s, sy) \<Longrightarrow> netOf a' k = netOf a k"
  shows "bookNet a' sy = bookNet a sy + (netOf a' (s, sy) - netOf a (s, sy))" "sy' \<noteq> sy \<Longrightarrow> bookNet a' sy' = bookNet a sy'"
proof -
  let ?K = "insert (s, sy) (set (mapKeys (positions a)) \<union> set (mapKeys (positions a')))"
  have r: "bookNet b y = (\<Sum>k\<in>?K. if snd k = y then netOf b k else 0)" if "b \<in> {a, a'}" for b y
    using that by (intro bookNet_sum) auto
  have "(\<Sum>k\<in>?K - {(s, sy)}. if snd k = sy then netOf a' k else 0) = (\<Sum>k\<in>?K - {(s, sy)}. if snd k = sy then netOf a k else 0)"
    using assms by (intro sum.cong) auto
  then show "bookNet a' sy = bookNet a sy + (netOf a' (s, sy) - netOf a (s, sy))"
    unfolding r [of a sy, simplified] r [of a' sy, simplified] by (simp add: sum.remove [of ?K "(s, sy)"])
  show "sy' \<noteq> sy \<Longrightarrow> bookNet a' sy' = bookNet a sy'"
    unfolding r [of a sy', simplified] r [of a' sy', simplified] using assms by (intro sum.cong) auto
qed

lemma adapterNet:
  assumes "bindR (Account_Snapshot a) (\<lambda>snap. NetPositionAcrossStrategies snap sy) = Inr net" "bookKeys a"
  shows "net = bookNet a sy"
proof -
  obtain snap where s: "Account_Snapshot a = Inr snap" "NetPositionAcrossStrategies snap sy = Inr net"
    using assms(1) by (auto simp: bindR_eq_Inr)
  have m: "mapWf (positions a)" using assms(2) by (simp add: bookKeys_def)
  have q: "ps_Positions snap = openQtyLoop (positions a) []"
    using s(1) mapWf_openQtyLoop [of "[]"]
    by (auto simp: Account_Snapshot_def bindR_eq_Inr NewPortfolioSnapshot_def clonePositions_def clone_id)
  have wf: "mapWf (openQtyLoop (positions a) [])" by (simp add: mapWf_openQtyLoop)
  have "getOr0 (openQtyLoop (positions a) []) k = netOf a k" for k
    using openQtyLoop_get [OF m, of "[]" k] by (auto simp: getOr0_def netOf_def posOf_def Position_IsFlat_def split: option.splits)
  note b = bookNet_map [OF wf this]
  have "sint net = netShares sy (openQtyLoop (positions a) [])"
    using s(2) qty.total_exact [of _ 0 net]
    by (auto simp: NetPositionAcrossStrategies_def netLoop_total q netShares_def sumEntries_def sum_list_map_filter' comp_def)
  then show ?thesis using b [of sy] netEntries_i64 [of sy "openQtyLoop (positions a) []"] by (metis i64_sint)
qed


section \<open>Seeding from the broker\<close>

definition netKnown :: "Account \<Rightarrow> string \<Rightarrow> bool" where
  "netKnown a sy \<longleftrightarrow> (\<exists>net. bindR (Account_Snapshot a) (\<lambda>snap. NetPositionAcrossStrategies snap sy) = Inr net)"

lemma adapter_bookNet: "netKnown a sy \<Longrightarrow> bookKeys a \<Longrightarrow> AccountAdapter_NetPositionAcrossStrategies a sy = bookNet a sy"
  using adapterNet by (fastforce simp: netKnown_def AccountAdapter_NetPositionAcrossStrategies_def)


lemma bookNet_only:
  assumes "\<And>s. s \<noteq> sid \<Longrightarrow> netOf a (s, sy) = 0"
  shows "bookNet a sy = netOf a (sid, sy)"
proof -
  let ?K = "insert (sid, sy) (set (mapKeys (positions a)))"
  have "bookNet a sy = (\<Sum>k\<in>?K. if snd k = sy then netOf a k else 0)" by (rule bookNet_sum) auto
  also have "\<dots> = (\<Sum>k\<in>{(sid, sy)}. if snd k = sy then netOf a k else 0)"
    by (rule sum.mono_neutral_right) (use assms in \<open>auto, metis\<close>)
  finally show ?thesis by simp
qed

lemma adapter_fresh:
  assumes "bookKeys a" "\<And>s. netOf a (s, sy) = 0"
  shows "AccountAdapter_NetPositionAcrossStrategies a sy = 0"
  using adapterNet [OF _ assms(1), of sy] bookNet_only [of recoveryStrategyID a sy] assms(2)
  by (auto simp: AccountAdapter_NetPositionAcrossStrategies_def split: sum.splits)

lemma recoveryFill_key: "fillKey (recoveryFill now sy d px) = (recoveryStrategyID, sy)"
    "signedQtyOf (fill_Side (recoveryFill now sy d px)) (fill_Qty (recoveryFill now sy d px)) = d"
  by (simp_all add: recoveryFill_def fillKey_def signedQtyOf_abs)

lemma map_sum_Inr: "map_sum f g x = Inr y \<longleftrightarrow> (\<exists>z. x = Inr z \<and> y = g z)"
  by (cases x) auto

lemma seedPositions_fresh:
  "seedPositions now rows a = (a', Inr ()) \<Longrightarrow> distinct (map bp_Symbol rows) \<Longrightarrow> bookKeys a \<Longrightarrow>
   (\<And>p s. p \<in> set rows \<Longrightarrow> netOf a (s, bp_Symbol p) = 0) \<Longrightarrow>
   bookKeys a' \<and> (\<forall>p \<in> set rows. netOf a' (recoveryStrategyID, bp_Symbol p) = bp_Qty p) \<and>
   (\<forall>k. fst k \<noteq> recoveryStrategyID \<or> snd k \<notin> bp_Symbol ` set rows \<longrightarrow> netOf a' k = netOf a k)"
proof (induction now rows a rule: seedPositions.induct)
  case (2 now p ps a)
  let ?k = "(recoveryStrategyID, bp_Symbol p)"
  have d: "AccountAdapter_NetPositionAcrossStrategies a (bp_Symbol p) = 0" using 2(5,6) by (intro adapter_fresh) auto
  show ?case
  proof (cases "bp_Qty p = 0")
    case True
    have "seedPositions now ps a = (a', Inr ())" using 2(3) True by simp
    from 2(1) [OF refl _ this] 2(4-6) True show ?thesis by auto
  next
    case False
    let ?px = "if sint (bp_AvgPrice p) \<le> 0 then bp_Price p else bp_AvgPrice p"
    let ?f = "recoveryFill now (bp_Symbol p) (bp_Qty p) ?px"
    obtain a1 y where ap: "Account_ApplyFill a ?f = (a1, Inr y)" and v: "Fill_Validate ?f = Inr ()" and px: "\<not> sint ?px \<le> 0"
      and rest: "seedPositions now ps a1 = (a', Inr ())"
      using 2(3) False by (auto simp: d Let_def AccountAdapter_ApplyFill_def map_sum_Inr split: sum.splits prod.splits if_splits)
    note S = netOf_settle [OF ap, unfolded recoveryFill_key]
    have n: "netOf a1 (s, bp_Symbol q) = 0" if "q \<in> set ps" for q s
    proof -
      have "bp_Symbol q \<noteq> bp_Symbol p" using 2(4) imageI [OF that, of bp_Symbol] by auto
      then show ?thesis using S(1) [of "(s, bp_Symbol q)"] 2(6) [of q s] that by simp
    qed
    have "netOf a1 ?k = bp_Qty p" using S(2) 2(6) by simp
    then show ?thesis using 2(2) [OF refl _ refl px refl _ _ _ rest _ S(5) n] S(1) 2(4,5) d False v ap
      by (auto simp: AccountAdapter_ApplyFill_def)
  qed
qed simp

lemma seedPositions_idle:
  "\<forall>p \<in> set rows. AccountAdapter_NetPositionAcrossStrategies a (bp_Symbol p) = bp_Qty p \<Longrightarrow> seedPositions now rows a = (a, Inr ())"
  by (induction rows) auto

section \<open>The desk's reconciliation\<close>

lemma addBooks_sum: "mapWf out \<Longrightarrow> mapWf (addBooks m out) \<and> sumEntries (netEntry sy) (addBooks m out) = sumEntries (netEntry sy) out + sumEntries (netEntry sy) m"
proof (induction m out rule: addBooks.induct)
  case (2 k v m out)
  have "sumEntries (netEntry sy) (mapSet k (getOr0 out k + v) out) = sumEntries (netEntry sy) out + netEntry sy (k, v)"
    unfolding sumEntries_set [OF 2(2)] by (auto simp: netEntry_def getOr0_def split: option.splits)
  then show ?case using 2 by (simp add: sumEntries_def add.assoc)
qed (simp add: sumEntries_def)

lemma Combined_sum:
  "mapWf out \<Longrightarrow> sumEntries (netEntry sy) (CombinedBooks_BookPositions srcs out) =
     sumEntries (netEntry sy) out + (\<Sum>src\<leftarrow>srcs. case src of None \<Rightarrow> 0 | Some m \<Rightarrow> sumEntries (netEntry sy) m)"
  by (induction srcs out rule: CombinedBooks_BookPositions.induct) (auto simp: addBooks_sum add.assoc)

lemma bookLoop_wf: "mapWf m \<Longrightarrow> mapWf (bookLoop ps m)"
  by (induction ps m rule: bookLoop.induct) auto

lemma bookLoop_open: "bookLoop ps m = bookLoop (filter (\<lambda>p. pos_SignedQty p \<noteq> 0) ps) m"
  by (induction ps m rule: bookLoop.induct) auto

lemma bookLoop_get:
  "(\<And>p. p \<in> set ps \<Longrightarrow> pos_SignedQty p = f (rowKey p) \<and> f (rowKey p) \<noteq> 0) \<Longrightarrow>
   getOr0 (bookLoop ps m) k = (if k \<in> rowKey ` set ps then f k else getOr0 m k)"
  by (induction ps m rule: bookLoop.induct) (auto simp: rowKey_def getOr0_def)

lemma BookPositions_get:
  assumes "bookKeys a"
  shows "getOr0 (BookPositions a) k = netOf a k" "mapWf (BookPositions a)"
proof -
  have "filter (\<lambda>p. pos_SignedQty p \<noteq> 0) (AllPositions a) = OpenPositions a"
    by (simp add: AllPositions_def OpenPositions_def filter_map comp_def Position_IsFlat_def Position_Snapshot_def)
  then have b: "BookPositions a = bookLoop (OpenPositions a) []" unfolding BookPositions_def by (subst bookLoop_open) simp
  show "getOr0 (BookPositions a) k = netOf a k" unfolding b
    using bookLoop_get [of "OpenPositions a" "netOf a" "[]" k] OpenPositions_iff(1) [OF assms] OpenPositions_iff(2) [OF assms, of k]
    by (cases "netOf a k = 0") (auto simp: getOr0_absent mapKeys_def)
  show "mapWf (BookPositions a)" unfolding b by (simp add: bookLoop_wf)
qed

lemma brokerMapLoop_get: "getOr0 (brokerMapLoop rows m) sy = getOr0 m sy + brokerNet rows sy"
proof (induction rows m rule: brokerMapLoop.induct)
  case (2 p ps m)
  have "getOr0 (mapSet x v m) sy = (if sy = x then v else getOr0 m sy)" for x v by (simp add: getOr0_def)
  then show ?case using 2 by (auto simp: brokerNet_def add.assoc)
qed (simp add: brokerNet_def)

lemma clean_exact:
  assumes "\<And>sy. getOr0 broker sy - sumEntries (netEntry sy) books \<noteq> MinInt64"
  shows "\<not> HasIssues (Reconcile ts books broker 0) \<longleftrightarrow> (\<forall>sy. sumEntries (netEntry sy) books = getOr0 broker sy)"
proof -
  let ?s = "strategySumsLoop books []"
  have s: "getOr0 ?s sy = sumEntries (netEntry sy) books" for sy by (simp add: strategySums_get) (simp add: getOr0_def)
  have each: "(\<not> onlyBooks ?s broker sy \<and> \<not> onlyBroker ?s broker sy \<and> inTol ?s broker 0 sy) \<longleftrightarrow> getOr0 ?s sy = getOr0 broker sy" for sy
    using absInt64_exact [OF assms [of sy]] sint_eq_0_iff [of "getOr0 broker sy - getOr0 ?s sy"]
    by (auto simp: onlyBooks_def onlyBroker_def inTol_def s)
  show ?thesis unfolding clean_lists each s [symmetric] using reconSymbols_rest by metis
qed


lemma audit0_sel [simp]: "bc_reconciler (audit0 now x y) = bc_reconciler y"
  by (simp add: audit0_def)

lemma PullBroker_rows:
  "PullBroker cl e = (e1, Inr snap) \<Longrightarrow> snd (tc_GetPositionList cl (xs_venue e) (xs_accID e) (xs_env e)) = Inr (bs_Positions snap)"
  by (auto simp: PullBroker_def split: prod.splits sum.splits)

lemma reflectSymbol_book: "reflectSymbol cfg now sid sy bp e = (e', r) \<Longrightarrow> bookKeys (xs_book e) \<Longrightarrow> bookKeys (xs_book e')"
  by (auto simp: reflectSymbol_def AccountAdapter_ApplyFill_def Let_def emits
      split: if_splits sum.splits prod.splits option.splits dest: netOf_settle(5))

lemma reflectLoop_book: "reflectLoop cfg now sid net sys n e = (e', r) \<Longrightarrow> bookKeys (xs_book e) \<Longrightarrow> bookKeys (xs_book e')"
  by (induction cfg now sid net sys n e rule: reflectLoop.induct) (auto split: prod.splits sum.splits dest!: reflectSymbol_book)

lemma SyncBrokerInto_book: "SyncBrokerInto cl cfg now sid e = (e', r) \<Longrightarrow> bookKeys (xs_book e) \<Longrightarrow> bookKeys (xs_book e')"
  by (auto simp: SyncBrokerInto_def Let_def split: if_splits prod.splits sum.splits dest!: PullBroker_venue reflectLoop_book)

lemma MinInt64_neg: "- MinInt64 = MinInt64"
  by code_simp

lemma SyncFromBroker_success:
  assumes "SyncFromBroker cl cfg sink now books operator m = (m', Some rep, Inr ())" "bc_reconciler m = Some rc"
  obtains e1 res v v1 rows where "SyncBrokerInto cl cfg now ExternalStrategyID (bc_exec m) = (e1, Some res, Inr ())"
    "tc_GetPositionList cl (xs_venue e1) (rc_accID rc) (rc_env rc) = (v1, Inr rows)"
    "sp_Reconciliation rep = Some (Reconcile (toUTC now) (CombinedBooks_BookPositions [Some (BookPositions (xs_book e1)), books] [])
       (brokerMapLoop rows []) (rc_tolerance rc))"
proof -
  obtain e1 res where s: "SyncBrokerInto cl cfg now ExternalStrategyID (bc_exec m) = (e1, Some res, Inr ())"
    using assms(1) by (auto simp: SyncFromBroker_def split: if_splits prod.splits sum.splits option.splits)
  obtain v1 q where g: "tc_GetPositionList cl (xs_venue e1) (rc_accID rc) (rc_env rc) = (v1, q)" by fastforce
  show ?thesis
  proof (rule that [OF s])
    obtain rows where q: "q = Inr rows"
      using assms s g by (cases q) (auto simp: SyncFromBroker_def Reconciler_Reconcile_def Let_def split: if_splits)
    show "tc_GetPositionList cl (xs_venue e1) (rc_accID rc) (rc_env rc) = (v1, Inr (projr q))" using g q by simp
    show "sp_Reconciliation rep = Some (Reconcile (toUTC now) (CombinedBooks_BookPositions [Some (BookPositions (xs_book e1)), books] [])
       (brokerMapLoop (projr q) []) (rc_tolerance rc))"
      using assms s g q by (auto simp: SyncFromBroker_def Reconciler_Reconcile_def Let_def split: if_splits sum.splits)
  qed
qed

section \<open>Properties\<close>


text \<open>Live gating is back-test gating: on the same account, gate and signal, and short of the daily-loss halt, the
  live submitter refuses an entry exactly when the back-test engine does, recording the same rule.\<close>

theorem live_gate_is_backtest_gate:
  assumes "wi_gate c = Some p" "gs_gate g = Some p" "xs_book (gs_exec g) = en_acct (snd w)"
    and "\<not> dailyLossHalted g" "sg \<noteq> SideFlat" "0 < sint qty" "Account_Snapshot (en_acct (snd w)) = Inr snap" "gs_hasRisk g"
    and "SubmitMarketSignal c sid sy sg side qty reason ts w = (w', r)"
    and "Gated_SubmitMarketSignal cl cfg sid sy sg side qty reason ts g = (g', coid, submitted, r')"
  shows "(r = Inr ([], False) \<longleftrightarrow> coid = []) \<and>
    (coid = [] \<longrightarrow> \<not> submitted \<and> requests g' = requests g \<and>
       (\<exists>d. gs_decisions g' = gs_decisions g @ [d] \<and> ro_RuleName (last (en_rejected (snd w'))) = gd_RuleName d))"
proof -
  define price where "price = (case LastPrice (en_acct (snd w)) sy of None \<Rightarrow> 0 | Some x \<Rightarrow> x)"
  let ?d = "Gate_Check p (NewProposedOrder sid sy sg qty price ts) (SnapshotFromDomain snap)"
  have e: "if Approved ?d then SubmitMarket c sid sy side qty reason ts w = (w', map_sum id fst r) \<and> r \<noteq> Inr ([], False)
    else r = Inr ([], False) \<and> ro_RuleName (last (en_rejected (snd w'))) = RuleName ?d"
    using assms(9) assms(1,5-7)
    by (cases w) (auto simp: SubmitMarketSignal_def Let_def GateSignal_def price_def RecordRejection_def NewProposedOrder_def split: prod.splits sum.splits if_splits)
  have l: "if Approved ?d then forwardSignal cl cfg sid sy sg side qty reason ts g = (g', coid, submitted, r')
    else coid = [] \<and> \<not> submitted \<and> gs_exec g' = gs_exec g \<and> (\<exists>d. gs_decisions g' = gs_decisions g @ [d] \<and> gd_RuleName d = RuleName ?d)"
    using assms(10) assms(2-8)
    by (auto simp: Gated_SubmitMarketSignal_def Let_def GateSignal_def price_def gateRejectionSink_def recordRejection_def split: if_splits)
  show ?thesis using e l forward_coid [of cl cfg sid sy sg side qty reason ts g g' coid submitted r']
    by (auto simp: requests_def split: if_splits)
qed

text \<open>Recovery books the broker's positions: seeding a book that holds none of the reported symbols leaves, when it
  succeeds, exactly the broker's quantity in each of them, all of it under the recovery strategy, and touches
  nothing else; seeding the result again from the same report settles no further fill.\<close>

theorem recovery_seeds_broker_net:
  assumes "seedPositions now rows a = (a', Inr ())" "distinct (map bp_Symbol rows)" "bookKeys a"
    and "\<forall>p \<in> set rows. \<forall>s. netOf a (s, bp_Symbol p) = 0"
  shows "(\<forall>p \<in> set rows. bookNet a' (bp_Symbol p) = bp_Qty p \<and> netOf a' (recoveryStrategyID, bp_Symbol p) = bp_Qty p) \<and>
    (\<forall>k. fst k \<noteq> recoveryStrategyID \<or> snd k \<notin> bp_Symbol ` set rows \<longrightarrow> netOf a' k = netOf a k) \<and>
    ((\<forall>p \<in> set rows. netKnown a' (bp_Symbol p)) \<longrightarrow> seedPositions later rows a' = (a', Inr ()))"
proof -
  have S: "bookKeys a'" "\<forall>p \<in> set rows. netOf a' (recoveryStrategyID, bp_Symbol p) = bp_Qty p"
      "\<forall>k. fst k \<noteq> recoveryStrategyID \<or> snd k \<notin> bp_Symbol ` set rows \<longrightarrow> netOf a' k = netOf a k"
    using seedPositions_fresh [OF assms(1-3)] assms(4) by blast+
  have b: "bookNet a' (bp_Symbol p) = bp_Qty p" if "p \<in> set rows" for p
    using bookNet_only [of recoveryStrategyID a' "bp_Symbol p"] S(2,3) assms(4) that by simp
  then show ?thesis using S adapter_bookNet [OF _ S(1)] seedPositions_idle [of rows a' later] by simp
qed

text \<open>C39. A sync counts held positions twice: reflection moves the EXTERNAL book to the whole account of the broker, and
  the reconciliation that follows adds the running session's book on top.  With tolerance 0 the report of a
  successful sync is free of drift exactly when the session holds no net position at all, whatever the broker
  holds; so any position a strategy opened through the system is reported as drift.\<close>

theorem sync_counts_held_positions_twice:
  assumes "trade_venue cl" "SyncFromBroker cl cfg sink now (Some books) operator m = (m', Some rep, Inr ())"
    and "bc_reconciler m = Some rc" "rc_accID rc = xs_accID (bc_exec m)" "rc_env rc = xs_env (bc_exec m)" "rc_tolerance rc = 0"
    and "bookKeys (xs_book (bc_exec m))" "\<forall>s sy. s \<noteq> ExternalStrategyID \<longrightarrow> netOf (xs_book (bc_exec m)) (s, sy) = 0"
    and "\<forall>sy. sumEntries (netEntry sy) books \<noteq> MinInt64"
  shows "HasDrift rep \<longleftrightarrow> (\<exists>sy. sumEntries (netEntry sy) books \<noteq> 0)"
proof -
  obtain e1 res v1 rows where s: "SyncBrokerInto cl cfg now ExternalStrategyID (bc_exec m) = (e1, Some res, Inr ())"
    and g: "tc_GetPositionList cl (xs_venue e1) (xs_accID (bc_exec m)) (xs_env (bc_exec m)) = (v1, Inr rows)"
    and rep: "sp_Reconciliation rep = Some (Reconcile (toUTC now)
       (CombinedBooks_BookPositions [Some (BookPositions (xs_book e1)), Some books] []) (brokerMapLoop rows []) 0)"
    using SyncFromBroker_success [OF assms(2,3)] unfolding assms(4-6) by metis
  obtain e2 where p: "PullBroker cl (bc_exec m) = (e2, Inr (sr_Snapshot res))" "xs_venue e1 = xs_venue e2"
    using SyncBrokerInto_ok(5) [OF s assms(7)] by blast
  have rows: "bs_Positions (sr_Snapshot res) = rows"
    using PullBroker_rows [OF p(1)] g trade_venue.pull_pure(1) [OF assms(1) p(1)] p(2) by simp
  have k: "bookKeys (xs_book e1)" by (rule SyncBrokerInto_book [OF s assms(7)])
  have "bookNet (xs_book e1) sy = brokerNet rows sy" for sy
    using bookNet_only [of ExternalStrategyID "xs_book e1" sy] SyncBrokerInto_ok(1,2) [OF s assms(7)] assms(8) rows by simp
  then have "sumEntries (netEntry sy) (CombinedBooks_BookPositions [Some (BookPositions (xs_book e1)), Some books] []) =
      brokerNet rows sy + sumEntries (netEntry sy) books" for sy
    using bookNet_map [OF BookPositions_get(2) [OF k] BookPositions_get(1) [OF k]]
    by (simp add: Combined_sum del: CombinedBooks_BookPositions.simps) (simp add: sumEntries_def)
  moreover have "- x \<noteq> MinInt64 \<longleftrightarrow> x \<noteq> MinInt64" for x :: int64 by (metis MinInt64_neg minus_minus)
  ultimately show ?thesis
    using clean_exact [of "brokerMapLoop rows []" "CombinedBooks_BookPositions [Some (BookPositions (xs_book e1)), Some books] []" "toUTC now"] assms(9)
    by (simp add: HasDrift_def rep brokerMapLoop_get getOr0_absent mapKeys_def del: CombinedBooks_BookPositions.simps) blast
qed

section \<open>Concrete sessions\<close>

definition haltedDesk :: "MockVenue GatedSubmitter" where
  "haltedDesk = NewGatedSubmitter boughtTen (Some demoGate) (Some (Halt noon HaltManual ''r'' NewHaltState)) True 100000000"

definition haltedOps :: "GatedOp list" where
  "haltedOps = [GSignal ''s'' ''AB'' SideLong OrderSideBuy 5 [] noon, GEvaluate noon [],
     GSignal ''s'' ''AB'' SideFlat OrderSideSell 10 [] noon]"

definition gatedDesk :: "MockVenue GatedSubmitter" where
  "gatedDesk = NewGatedSubmitter (paperExec\<lparr>xs_book := en_acct (snd demoWorld)\<rparr>) (Some demoGate) (Some NewHaltState) True 1000000000"

definition heldRow :: "string \<Rightarrow> Qty \<Rightarrow> BrokerPosition" where
  "heldRow sy q = \<lparr>bp_Symbol = sy, bp_Qty = q, bp_AvgPrice = 20000, bp_CostPrice = 20000, bp_Price = 20000, bp_PLVal = 0\<rparr>"

definition syncDesk :: "MockVenue BrokerSyncController" where
  "syncDesk = \<lparr>bc_acct = xc_Account paperConfig, bc_exec = boughtTen\<lparr>xs_book := newBook\<rparr>, bc_hasAudit = True, bc_audit = [],
     bc_reconciler = Some \<lparr>rc_accID = 7, rc_env = TrdEnvSimulate, rc_tolerance = 0, rc_hasAlerter = True, rc_runs = 0, rc_alerts = []\<rparr>\<rparr>"

text \<open>What the examples evaluate to, computed together.\<close>

lemma desk_facts:
  "haltLatched haltedDesk \<and> length (requests haltedDesk) = 1 \<and> length (filter isExit haltedOps) = 1 \<and>
   isOk (Account_Snapshot (en_acct (snd demoWorld))) \<and> \<not> dailyLossHalted gatedDesk \<and> gs_hasRisk gatedDesk \<and> gs_decisions gatedDesk = [] \<and>
   fst (snd (Gated_SubmitMarketSignal mockClient paperConfig ''s'' ''AB'' SideLong OrderSideBuy 1000 ''r'' zeroTime gatedDesk)) = [] \<and>
   isOk (snd (seedPositions noon [heldRow ''AB'' 5, heldRow ''CD'' (- 4)] newBook)) \<and>
   xs_accID (bc_exec syncDesk) = 7 \<and> xs_env (bc_exec syncDesk) = TrdEnvSimulate \<and>
   (case snd (SyncFromBroker mockClient paperConfig None noon (Some [((''s'', ''AB''), 10)]) ''op'' syncDesk) of
      (Some rep, Inr _) \<Rightarrow> True | _ \<Rightarrow> False)"
  by code_simp


theorem live_gate_is_backtest_gate_witness:
  "\<exists>g' d r. Gated_SubmitMarketSignal mockClient paperConfig ''s'' ''AB'' SideLong OrderSideBuy 1000 ''r'' zeroTime gatedDesk = (g', [], False, r) \<and>
     gs_decisions g' = [d] \<and> requests g' = requests gatedDesk"
proof -
  let ?args = "Gated_SubmitMarketSignal mockClient paperConfig ''s'' ''AB'' SideLong OrderSideBuy 1000 ''r'' zeroTime gatedDesk"
  obtain w' r where w: "SubmitMarketSignal demoWiring ''s'' ''AB'' SideLong OrderSideBuy 1000 ''r'' zeroTime demoWorld = (w', r)" by (metis surj_pair)
  obtain g' coid b r' where g: "?args = (g', coid, b, r')" by (metis surj_pair)
  obtain snap where s: "Account_Snapshot (en_acct (snd demoWorld)) = Inr snap" using desk_facts by (auto simp: isOk_iff)
  have h: "\<not> dailyLossHalted gatedDesk" "gs_hasRisk gatedDesk" "gs_decisions gatedDesk = []" "fst (snd ?args) = []"
    using desk_facts by blast+
  have "wi_gate demoWiring = Some demoGate" "gs_gate gatedDesk = Some demoGate" "xs_book (gs_exec gatedDesk) = en_acct (snd demoWorld)"
    by (simp_all add: demoWiring_def gatedDesk_def NewGatedSubmitter_def)
  from live_gate_is_backtest_gate [OF this h(1) _ _ s h(2) w g] show ?thesis using g h(3,4) by auto
qed

theorem recovery_seeds_broker_net_witness:
  "\<exists>a'. seedPositions noon [heldRow ''AB'' 5, heldRow ''CD'' (- 4)] newBook = (a', Inr ()) \<and> bookNet a' ''CD'' = - 4 \<and> bookNet a' ''AB'' = 5"
proof -
  let ?rows = "[heldRow ''AB'' 5, heldRow ''CD'' (- 4)]"
  obtain a' where a': "seedPositions noon ?rows newBook = (a', Inr ())"
    using desk_facts by (cases "seedPositions noon ?rows newBook") (auto simp: isOk_iff)
  have "netOf newBook k = 0" for k by (rule netOf_absent) (simp add: newBook_def NewAccount_def mapKeys_def)
  then show ?thesis using recovery_seeds_broker_net [OF a' _ newBook_keys] a' by (simp add: heldRow_def)
qed

theorem sync_counts_held_positions_twice_witness:
  "\<exists>m' rep. SyncFromBroker mockClient paperConfig None noon (Some [((''s'', ''AB''), 10)]) ''op'' syncDesk = (m', Some rep, Inr ()) \<and> HasDrift rep"
proof -
  let ?books = "[((''s'', ''AB''), 10)] :: (StrategySymbol, int64) gomap"
  let ?sync = "SyncFromBroker mockClient paperConfig None noon (Some ?books) ''op'' syncDesk"
  obtain m' rep r where s: "?sync = (m', rep, r)" by (metis surj_pair)
  obtain rp where r: "rep = Some rp" "r = Inr ()" using desk_facts s by (auto split: option.splits sum.splits)
  have rc: "bc_reconciler syncDesk = Some \<lparr>rc_accID = 7, rc_env = TrdEnvSimulate, rc_tolerance = 0, rc_hasAlerter = True, rc_runs = 0, rc_alerts = []\<rparr>"
    by (simp add: syncDesk_def)
  have e: "xs_accID (bc_exec syncDesk) = 7" "xs_env (bc_exec syncDesk) = TrdEnvSimulate" using desk_facts by blast+
  have b: "xs_book (bc_exec syncDesk) = newBook" by (simp add: syncDesk_def)
  have "netOf newBook k = 0" for k by (rule netOf_absent) (simp add: newBook_def NewAccount_def mapKeys_def)
  moreover have sm: "sumEntries (netEntry sy) ?books = (if sy = ''AB'' then 10 else 0)" for sy by (auto simp: sumEntries_def netEntry_def)
  moreover have "((10 :: int64) \<noteq> MinInt64) \<and>
    ((0 :: int64) \<noteq> MinInt64)" by code_simp
  ultimately show ?thesis
    using sync_counts_held_positions_twice [OF mock.trade_venue_axioms s [unfolded r] rc] s r by (simp add: e b newBook_keys)
qed

end
