(* ===== verification/Live_Session.thy ===== *)
theory Live_Session
  imports Engine_Props "HOL-Library.Sublist"
begin

text \<open>
  The live session of \<open>internal/livengine\<close> (\<open>session.go\<close>, \<open>noop.go\<close>, \<open>intent.go\<close>, \<open>signal.go\<close>, \<open>feed.go\<close>): bars drive the
  strategies through a submitter, and once a timestamp is complete their signals, the would-be orders, the state
  summaries and a health snapshot go to the sink.  \<open>'x\<close> is the world outside the session: sink, halt flag, account
  and broker; the submitter of an automatic session, the sink and the hooks are functions on it.  A strategy is the
  engine's with its two read-only capabilities.  Payloads (\<open>'p\<close>) are opaque, as in the source.
\<close>

section \<open>The no-op executor\<close>

record IntentRecord =
  ir_StrategyID :: string
  ir_AsOf :: gotime
  ir_Symbol :: string
  ir_Side :: SignalSide
  ir_Qty :: Qty

record NoopExecutor =
  ne_seq :: uint64
  ne_submitted :: int64
  ne_pending :: "IntentRecord list"

definition NewNoopExecutor :: NoopExecutor where
  "NewNoopExecutor = \<lparr>ne_seq = 0, ne_submitted = 0, ne_pending = []\<rparr>"

text \<open>The digits least significant first, then the padding, then reversed.\<close>

fun digitsLoop :: "nat \<Rightarrow> string" where
  "digitsLoop n = (if n = 0 then [] else digitChar (n mod 10) # digitsLoop (n div 10))"

declare digitsLoop.simps [simp del]

definition padTo :: "nat \<Rightarrow> string \<Rightarrow> string" where
  "padTo width digits = digits @ replicate (width - length digits) CHR ''0''"

definition formatSeq :: "uint64 \<Rightarrow> string" where
  "formatSeq n = rev (padTo 9 (if n = 0 then ''0'' else digitsLoop (unat n)))"

definition NoopExecutor_nextID :: "NoopExecutor \<Rightarrow> NoopExecutor \<times> string" where
  "NoopExecutor_nextID e = (let s = ne_seq e + 1 in (e\<lparr>ne_seq := s\<rparr>, ''SIGNAL-'' @ formatSeq (s - 1)))"

definition signalSideOf :: "OrderSide \<Rightarrow> SignalSide" where
  "signalSideOf side = (if side = OrderSideSell then SideShort else SideLong)"

definition NoopExecutor_capture :: "IntentRecord \<Rightarrow> NoopExecutor \<Rightarrow> NoopExecutor" where
  "NoopExecutor_capture rec e = e\<lparr>ne_submitted := ne_submitted e + 1, ne_pending := ne_pending e @ [rec]\<rparr>"

definition NoopExecutor_SubmitMarket :: "string \<Rightarrow> string \<Rightarrow> OrderSide \<Rightarrow> Qty \<Rightarrow> gotime \<Rightarrow> NoopExecutor \<Rightarrow> NoopExecutor \<times> string result" where
  "NoopExecutor_SubmitMarket sid sy side qty ts e =
     (let e1 = NoopExecutor_capture \<lparr>ir_StrategyID = sid, ir_AsOf = ts, ir_Symbol = sy, ir_Side = signalSideOf side, ir_Qty = qty\<rparr> e;
          (e2, coid) = NoopExecutor_nextID e1
      in (e2, Inr coid))"

definition NoopExecutor_SubmitMarketSignal :: "string \<Rightarrow> string \<Rightarrow> SignalSide \<Rightarrow> Qty \<Rightarrow> gotime \<Rightarrow> NoopExecutor \<Rightarrow>
    NoopExecutor \<times> (string \<times> bool) result" where
  "NoopExecutor_SubmitMarketSignal sid sy signalSide qty ts e =
     (let e1 = NoopExecutor_capture \<lparr>ir_StrategyID = sid, ir_AsOf = ts, ir_Symbol = sy, ir_Side = signalSide, ir_Qty = qty\<rparr> e;
          (e2, coid) = NoopExecutor_nextID e1
      in (e2, Inr (coid, True)))"

definition NoopExecutor_NetPosition :: "string \<Rightarrow> string \<Rightarrow> Qty" where
  "NoopExecutor_NetPosition sid sy = 0"

definition NoopExecutor_drainPending :: "NoopExecutor \<Rightarrow> NoopExecutor \<times> IntentRecord list" where
  "NoopExecutor_drainPending e = (e\<lparr>ne_pending := []\<rparr>, ne_pending e)"

definition NoopExecutor_WouldSubmitCount :: "NoopExecutor \<Rightarrow> int64" where
  "NoopExecutor_WouldSubmitCount e = ne_submitted e"

section \<open>Sinks\<close>

record 'p SignalRecord =
  sr_StrategyID :: string
  sr_AsOf :: gotime
  sr_Payload :: 'p

record HealthRecord =
  hr_AsOf :: gotime
  hr_Snapshot :: PortfolioHealthSnapshot

record 'p StateRecord =
  tr_StrategyID :: string
  tr_AsOf :: gotime
  tr_Summary :: 'p

text \<open>The optional capabilities of a sink are optional fields.\<close>

record ('p, 'x) SignalSink =
  sk_EmitSignal :: "'p SignalRecord \<Rightarrow> 'x \<Rightarrow> 'x \<times> unit result"
  sk_EmitHealth :: "HealthRecord \<Rightarrow> 'x \<Rightarrow> 'x \<times> unit result"
  sk_EmitIntent :: "(IntentRecord \<Rightarrow> 'x \<Rightarrow> 'x \<times> unit result) option"
  sk_EmitState :: "('p StateRecord \<Rightarrow> 'x \<Rightarrow> 'x \<times> unit result) option"

definition DiscardSink :: "('p, 'x) SignalSink" where
  "DiscardSink = \<lparr>sk_EmitSignal = (\<lambda>_ x. (x, Inr ())), sk_EmitHealth = (\<lambda>_ x. (x, Inr ())),
     sk_EmitIntent = Some (\<lambda>_ x. (x, Inr ())), sk_EmitState = None\<rparr>"

record 'p MemSink =
  ms_Signals :: "'p SignalRecord list"
  ms_Health :: "HealthRecord list"
  ms_Intents :: "IntentRecord list"

definition NewMemSink :: "'p MemSink" where
  "NewMemSink = \<lparr>ms_Signals = [], ms_Health = [], ms_Intents = []\<rparr>"

definition MemSink_EmitSignal :: "'p SignalRecord \<Rightarrow> 'p MemSink \<Rightarrow> 'p MemSink" where
  "MemSink_EmitSignal rec m = m\<lparr>ms_Signals := ms_Signals m @ [rec]\<rparr>"

definition MemSink_EmitHealth :: "HealthRecord \<Rightarrow> 'p MemSink \<Rightarrow> 'p MemSink" where
  "MemSink_EmitHealth rec m = m\<lparr>ms_Health := ms_Health m @ [rec]\<rparr>"

definition MemSink_EmitIntent :: "IntentRecord \<Rightarrow> 'p MemSink \<Rightarrow> 'p MemSink" where
  "MemSink_EmitIntent rec m = m\<lparr>ms_Intents := ms_Intents m @ [rec]\<rparr>"

definition MemSink_SortedIntents :: "'p MemSink \<Rightarrow> 'p SignalRecord list" where
  "MemSink_SortedIntents m = sort_key (\<lambda>r. (t_ns (sr_AsOf r), sr_StrategyID r)) (ms_Signals m)"

definition MemSink_SortedIntentRecords :: "'p MemSink \<Rightarrow> IntentRecord list" where
  "MemSink_SortedIntentRecords m =
     sort_key (\<lambda>r. (t_ns (ir_AsOf r), ir_StrategyID r, ir_Symbol r, ir_Side r)) (ms_Intents m)"

text \<open>The memory sink beside the rest of the world.\<close>

definition memSink :: "('p, 'p MemSink \<times> 'e) SignalSink" where
  "memSink = \<lparr>sk_EmitSignal = (\<lambda>r (m, e). ((MemSink_EmitSignal r m, e), Inr ())), sk_EmitHealth = (\<lambda>r (m, e). ((MemSink_EmitHealth r m, e), Inr ())),
     sk_EmitIntent = Some (\<lambda>r (m, e). ((MemSink_EmitIntent r m, e), Inr ())), sk_EmitState = None\<rparr>"

section \<open>The session\<close>

record ('s, 'p) LiveStrategy =
  ls_strategy :: "'s Strategy"
  ls_EvaluateSignal :: "(gotime \<Rightarrow> 's \<Rightarrow> 'p) option"
  ls_StateSummary :: "('s \<Rightarrow> 'p) option"

record 'x OrderSubmitter =
  sb_SubmitMarket :: "string \<Rightarrow> string \<Rightarrow> OrderSide \<Rightarrow> Qty \<Rightarrow> string \<Rightarrow> gotime \<Rightarrow> 'x \<Rightarrow> 'x \<times> string result"
  sb_SubmitMarketSignal :: "string \<Rightarrow> string \<Rightarrow> SignalSide \<Rightarrow> OrderSide \<Rightarrow> Qty \<Rightarrow> string \<Rightarrow> gotime \<Rightarrow> 'x \<Rightarrow> 'x \<times> (string \<times> bool) result"
  sb_NetPosition :: "string \<Rightarrow> string \<Rightarrow> 'x \<Rightarrow> Qty"

record ('s, 'p, 'f, 'x) SessionConfig =
  lc_Exec :: ExecutionPolicy
  lc_Strategies :: "('s, 'p) LiveStrategy option list"
  lc_Gate :: "Gate option"
  lc_Float :: "'f FloatOps"
  lc_Context :: "'f ContextProvider option"
  lc_SPYSymbol :: string
  lc_Warmup :: "(string \<Rightarrow> Bar list result) option"
  lc_WarmupSymbols :: "string list"
  lc_WarmupBatch :: "Bar list"
  lc_StartingBalance :: Money
  lc_Sink :: "('p, 'x) SignalSink option"
  lc_EmitGate :: "('x \<Rightarrow> bool) option"
  lc_Submitter :: "'x OrderSubmitter option"
  lc_PostTimestamp :: "(gotime \<Rightarrow> 'x \<Rightarrow> 'x \<times> unit result) option"
  lc_ObserveBar :: "(Bar \<Rightarrow> 'x \<Rightarrow> 'x) option"

record ('s, 'p, 'f) Session =
  ss_exec :: "NoopExecutor option"
  ss_strategies :: "('s, 'p) LiveStrategy list"
  ss_spySym :: string
  ss_ctxProv :: "'f ContextProvider option"
  ss_ctxStat :: "SharedContextState option"
  ss_curTS :: gotime
  ss_haveTS :: bool
  ss_emitted :: nat
  ss_barsSeen :: nat
  ss_haltedFlushes :: nat

fun sessionStrategies :: "('s, 'p) LiveStrategy option list \<Rightarrow> ('s, 'p) LiveStrategy list result" where
  "sessionStrategies [] = Inr []"
| "sessionStrategies (None # sts) = Inl ErrInvalidArgument"
| "sessionStrategies (Some st # sts) =
     (if st_ID (ls_strategy st) = [] then Inl ErrInvalidArgument
      else case sessionStrategies sts of Inl err \<Rightarrow> Inl err | Inr rest \<Rightarrow> Inr (st # rest))"

definition NewSession :: "('s, 'p, 'f, 'x) SessionConfig \<Rightarrow> ('s, 'p, 'f) Session result" where
  "NewSession cfg =
     (if \<not> ExecutionPolicy_IsValid (lc_Exec cfg) then Inl ErrInvalidArgument
      else if lc_Exec cfg = ExecSignal \<and> lc_Submitter cfg \<noteq> None then Inl ErrInvalidArgument
      else if lc_Exec cfg = ExecAuto \<and> lc_Submitter cfg = None then Inl ErrInvalidArgument
      else if lc_Strategies cfg = [] then Inl ErrInvalidArgument
      else if sint (lc_StartingBalance cfg) \<le> 0 then Inl ErrInvalidArgument
      else case sessionStrategies (lc_Strategies cfg) of
        Inl err \<Rightarrow> Inl err
      | Inr sts \<Rightarrow>
          Inr \<lparr>ss_exec = (if lc_Exec cfg = ExecSignal then Some NewNoopExecutor else None), ss_strategies = sts,
               ss_spySym = (if lc_SPYSymbol cfg = [] then ''SPY'' else lc_SPYSymbol cfg), ss_ctxProv = lc_Context cfg,
               ss_ctxStat = (case lc_Context cfg of None \<Rightarrow> None | Some _ \<Rightarrow> Some NewSharedContextState),
               ss_curTS = zeroTime, ss_haveTS = False, ss_emitted = 0, ss_barsSeen = 0, ss_haltedFlushes = 0\<rparr>)"

definition sessionSink :: "('s, 'p, 'f, 'x) SessionConfig \<Rightarrow> ('p, 'x) SignalSink" where
  "sessionSink cfg = (case lc_Sink cfg of None \<Rightarrow> DiscardSink | Some sk \<Rightarrow> sk)"

text \<open>The submitter the strategies run through: the no-op executor of a signal session, which never reaches the world, or
  the injected submitter.\<close>

definition noopSubmitter :: "(NoopExecutor option \<times> 'x) OrderSubmitter" where
  "noopSubmitter =
     \<lparr>sb_SubmitMarket = (\<lambda>sid sy side qty reason ts (e, x).
        case e of None \<Rightarrow> ((e, x), Inl (ErrPlain ''nil executor''))
        | Some e0 \<Rightarrow> (case NoopExecutor_SubmitMarket sid sy side qty ts e0 of (e1, r) \<Rightarrow> ((Some e1, x), r))),
      sb_SubmitMarketSignal = (\<lambda>sid sy sg side qty reason ts (e, x).
        case e of None \<Rightarrow> ((e, x), Inl (ErrPlain ''nil executor''))
        | Some e0 \<Rightarrow> (case NoopExecutor_SubmitMarketSignal sid sy sg qty ts e0 of (e1, r) \<Rightarrow> ((Some e1, x), r))),
      sb_NetPosition = (\<lambda>sid sy _. NoopExecutor_NetPosition sid sy)\<rparr>"

definition injected :: "'x OrderSubmitter \<Rightarrow> (NoopExecutor option \<times> 'x) OrderSubmitter" where
  "injected sb =
     \<lparr>sb_SubmitMarket = (\<lambda>sid sy side qty reason ts (e, x). case sb_SubmitMarket sb sid sy side qty reason ts x of (x1, r) \<Rightarrow> ((e, x1), r)),
      sb_SubmitMarketSignal = (\<lambda>sid sy sg side qty reason ts (e, x).
        case sb_SubmitMarketSignal sb sid sy sg side qty reason ts x of (x1, r) \<Rightarrow> ((e, x1), r)),
      sb_NetPosition = (\<lambda>sid sy (e, x). sb_NetPosition sb sid sy x)\<rparr>"

definition Session_Submitter :: "('s, 'p, 'f, 'x) SessionConfig \<Rightarrow> (NoopExecutor option \<times> 'x) OrderSubmitter" where
  "Session_Submitter cfg = (case lc_Submitter cfg of None \<Rightarrow> noopSubmitter | Some sb \<Rightarrow> injected sb)"

primrec liveAct :: "'y OrderSubmitter \<Rightarrow> 's act \<Rightarrow> 'y \<Rightarrow> 'y \<times> 's \<times> unit result" where
  "liveAct sb (Finish s r) = (\<lambda>y. (y, s, r))"
| "liveAct sb (CallMarket sid sy side qty reason ts k) =
     (\<lambda>y. case sb_SubmitMarket sb sid sy side qty reason ts y of (y1, r) \<Rightarrow> liveAct sb (k r) y1)"
| "liveAct sb (CallSignal sid sy sg side qty reason ts k) =
     (\<lambda>y. case sb_SubmitMarketSignal sb sid sy sg side qty reason ts y of (y1, r) \<Rightarrow> liveAct sb (k r) y1)"
| "liveAct sb (CallNet sid sy k) = (\<lambda>y. liveAct sb (k (sb_NetPosition sb sid sy y)) y)"

definition onStrategy :: "('s Strategy \<Rightarrow> 's Strategy) \<Rightarrow> ('s, 'p) LiveStrategy \<Rightarrow> ('s, 'p) LiveStrategy" where
  "onStrategy f st = st\<lparr>ls_strategy := f (ls_strategy st)\<rparr>"

text \<open>Every strategy on the bar, in registration order; the first error ends the loop.\<close>

fun onBarLoop :: "'y OrderSubmitter \<Rightarrow> Bar \<Rightarrow> ('s, 'p) LiveStrategy list \<Rightarrow> 'y \<Rightarrow> 'y \<times> ('s, 'p) LiveStrategy list \<times> unit result" where
  "onBarLoop sb bar [] y = (y, [], Inr ())"
| "onBarLoop sb bar (st # sts) y =
     (case liveAct sb (st_OnBar (ls_strategy st) bar (st_state (ls_strategy st))) y of
        (y1, s, Inl err) \<Rightarrow> (y1, onStrategy (\<lambda>q. q\<lparr>st_state := s\<rparr>) st # sts, Inl err)
      | (y1, s, Inr _) \<Rightarrow>
          (case onBarLoop sb bar sts y1 of (y2, sts2, r) \<Rightarrow> (y2, onStrategy (\<lambda>q. q\<lparr>st_state := s\<rparr>) st # sts2, r)))"

definition injectLive :: "gotime \<Rightarrow> SharedContextState option \<Rightarrow> ('s, 'p) LiveStrategy list \<Rightarrow> ('s, 'p) LiveStrategy list" where
  "injectLive asOf stat sts = map (\<lambda>st. onStrategy (\<lambda>q. hd (InjectContextInto asOf stat [q])) st) sts"

fun emitAllR :: "('r \<Rightarrow> 'x \<Rightarrow> 'x \<times> unit result) \<Rightarrow> 'r list \<Rightarrow> 'x \<Rightarrow> 'x \<times> nat \<times> unit result" where
  "emitAllR emit [] x = (x, 0, Inr ())"
| "emitAllR emit (r # rs) x =
     (case emit r x of
        (x1, Inl err) \<Rightarrow> (x1, 0, Inl err)
      | (x1, Inr _) \<Rightarrow> (case emitAllR emit rs x1 of (x2, n, res) \<Rightarrow> (x2, Suc n, res)))"

definition signalRecords :: "gotime \<Rightarrow> ('s, 'p) LiveStrategy list \<Rightarrow> 'p SignalRecord list" where
  "signalRecords asOf sts =
     List.map_filter (\<lambda>st. case ls_EvaluateSignal st of None \<Rightarrow> None
        | Some f \<Rightarrow> Some \<lparr>sr_StrategyID = st_ID (ls_strategy st), sr_AsOf = asOf, sr_Payload = f asOf (st_state (ls_strategy st))\<rparr>) sts"

definition stateRecords :: "gotime \<Rightarrow> ('s, 'p) LiveStrategy list \<Rightarrow> 'p StateRecord list" where
  "stateRecords asOf sts =
     List.map_filter (\<lambda>st. case ls_StateSummary st of None \<Rightarrow> None
        | Some f \<Rightarrow> Some \<lparr>tr_StrategyID = st_ID (ls_strategy st), tr_AsOf = asOf, tr_Summary = f (st_state (ls_strategy st))\<rparr>) sts"

definition Session_emitHealth :: "('s, 'p, 'f, 'x) SessionConfig \<Rightarrow> gotime \<Rightarrow> 'x \<Rightarrow> 'x \<times> unit result" where
  "Session_emitHealth cfg asOf x =
     (case lc_Gate cfg of
        None \<Rightarrow> (x, Inr ())
      | Some g \<Rightarrow>
          if lc_PostTimestamp cfg \<noteq> None then (x, Inr ())
          else sk_EmitHealth (sessionSink cfg)
                 \<lparr>hr_AsOf = asOf, hr_Snapshot = HealthSnapshot g (SnapshotFromDomain
                    (NewPortfolioSnapshot (lc_StartingBalance cfg) (lc_StartingBalance cfg) 0 0 [] []))\<rparr> x)"

definition postTimestamp :: "('s, 'p, 'f, 'x) SessionConfig \<Rightarrow> gotime \<Rightarrow> 'x \<Rightarrow> 'x \<times> unit result" where
  "postTimestamp cfg asOf x = (case lc_PostTimestamp cfg of None \<Rightarrow> (x, Inr ()) | Some f \<Rightarrow> f asOf x)"

text \<open>The end of a flush: health, the hook, and the marker cleared.\<close>

definition flushEnd :: "('s, 'p, 'f, 'x) SessionConfig \<Rightarrow> ('s, 'p, 'f) Session \<times> 'x \<Rightarrow> (('s, 'p, 'f) Session \<times> 'x) \<times> unit result" where
  "flushEnd cfg sx =
     (case sx of (s, x) \<Rightarrow>
        (case Session_emitHealth cfg (ss_curTS s) x of
           (x1, Inl err) \<Rightarrow> ((s, x1), Inl err)
         | (x1, Inr _) \<Rightarrow>
             (case postTimestamp cfg (ss_curTS s) x1 of
                (x2, Inl err) \<Rightarrow> ((s, x2), Inl err)
              | (x2, Inr _) \<Rightarrow> ((s\<lparr>ss_haveTS := False\<rparr>, x2), Inr ()))))"

definition drainExec :: "('s, 'p, 'f) Session \<Rightarrow> ('s, 'p, 'f) Session \<times> IntentRecord list" where
  "drainExec s =
     (case ss_exec s of None \<Rightarrow> (s, [])
      | Some e \<Rightarrow> (case NoopExecutor_drainPending e of (e1, recs) \<Rightarrow> (s\<lparr>ss_exec := Some e1\<rparr>, recs)))"

definition emitTimestamp :: "('s, 'p, 'f, 'x) SessionConfig \<Rightarrow> ('s, 'p, 'f) Session \<times> 'x \<Rightarrow> (('s, 'p, 'f) Session \<times> 'x) \<times> unit result" where
  "emitTimestamp cfg sx =
     (case sx of (s, x) \<Rightarrow>
        (let sk = sessionSink cfg; asOf = ss_curTS s in
         case emitAllR (sk_EmitSignal sk) (signalRecords asOf (ss_strategies s)) x of
           (x1, n, Inl err) \<Rightarrow> ((s\<lparr>ss_emitted := ss_emitted s + n\<rparr>, x1), Inl err)
         | (x1, n, Inr _) \<Rightarrow>
             (case drainExec (s\<lparr>ss_emitted := ss_emitted s + n\<rparr>) of
                (s1, intents) \<Rightarrow>
                  (case (case sk_EmitIntent sk of None \<Rightarrow> (x1, 0, Inr ()) | Some f \<Rightarrow> emitAllR f intents x1) of
                     (x2, _, Inl err) \<Rightarrow> ((s1, x2), Inl err)
                   | (x2, _, Inr _) \<Rightarrow>
                       (case (case sk_EmitState sk of None \<Rightarrow> (x2, 0, Inr ()) | Some f \<Rightarrow> emitAllR f (stateRecords asOf (ss_strategies s1)) x2) of
                          (x3, _, Inl err) \<Rightarrow> ((s1, x3), Inl err)
                        | (x3, _, Inr _) \<Rightarrow> ((s1, x3), Inr ()))))))"

definition Session_flushTimestamp :: "('s, 'p, 'f, 'x) SessionConfig \<Rightarrow> ('s, 'p, 'f) Session \<times> 'x \<Rightarrow>
    (('s, 'p, 'f) Session \<times> 'x) \<times> unit result" where
  "Session_flushTimestamp cfg sx =
     (case sx of (s, x) \<Rightarrow>
        if \<not> ss_haveTS s then (sx, Inr ())
        else if (case lc_EmitGate cfg of None \<Rightarrow> False | Some g \<Rightarrow> \<not> g x) then
          flushEnd cfg (fst (drainExec (s\<lparr>ss_haltedFlushes := ss_haltedFlushes s + 1\<rparr>)), x)
        else case emitTimestamp cfg sx of
          (sx1, Inl err) \<Rightarrow> (sx1, Inl err)
        | (sx1, Inr _) \<Rightarrow> flushEnd cfg sx1)"

definition refreshContext :: "('s, 'p, 'f, 'x) SessionConfig \<Rightarrow> Bar \<Rightarrow> ('s, 'p, 'f) Session \<Rightarrow> ('s, 'p, 'f) Session" where
  "refreshContext cfg bar s =
     (case (ss_ctxProv s, ss_ctxStat s) of
        (Some prov, Some stat) \<Rightarrow>
          if bar_Symbol bar = ss_spySym s then
            (case ContextProvider_OnBar (lc_Float cfg) prov stat (bar_TS bar) of
               (prov1, stat1, _) \<Rightarrow>
                 s\<lparr>ss_ctxProv := Some prov1, ss_ctxStat := Some stat1, ss_strategies := injectLive (bar_TS bar) (Some stat1) (ss_strategies s)\<rparr>)
          else s
      | _ \<Rightarrow> s)"

text \<open>A bar of the current timestamp, after the rollover.\<close>

definition deliverBar :: "('s, 'p, 'f, 'x) SessionConfig \<Rightarrow> Bar \<Rightarrow> ('s, 'p, 'f) Session \<times> 'x \<Rightarrow> (('s, 'p, 'f) Session \<times> 'x) \<times> unit result" where
  "deliverBar cfg bar sx =
     (case sx of (s, x) \<Rightarrow>
        (let s1 = s\<lparr>ss_curTS := bar_TS bar, ss_haveTS := True, ss_barsSeen := ss_barsSeen s + 1\<rparr>;
             x1 = (case lc_ObserveBar cfg of None \<Rightarrow> x | Some f \<Rightarrow> f bar x);
             s2 = refreshContext cfg bar s1
         in case onBarLoop (Session_Submitter cfg) bar (ss_strategies s2) (ss_exec s2, x1) of
              ((e, x2), sts, r) \<Rightarrow> ((s2\<lparr>ss_exec := e, ss_strategies := sts\<rparr>, x2), r)))"

definition Session_onBar :: "('s, 'p, 'f, 'x) SessionConfig \<Rightarrow> Bar \<Rightarrow> ('s, 'p, 'f) Session \<times> 'x \<Rightarrow>
    (('s, 'p, 'f) Session \<times> 'x) \<times> unit result" where
  "Session_onBar cfg bar sx =
     (if t_off (bar_TS bar) \<noteq> 0 then (sx, Inl ErrInvalidArgument)
      else case (if ss_haveTS (fst sx) \<and> After (bar_TS bar) (ss_curTS (fst sx)) then Session_flushTimestamp cfg sx else (sx, Inr ())) of
        (sx1, Inl err) \<Rightarrow> (sx1, Inl err)
      | (sx1, Inr _) \<Rightarrow>
          if ss_haveTS (fst sx1) \<and> Before (bar_TS bar) (ss_curTS (fst sx1)) then (sx1, Inl ErrTimeReversal)
          else deliverBar cfg bar sx1)"

section \<open>Running a session\<close>

fun replayLoop :: "('s, 'p, 'f, 'x) SessionConfig \<Rightarrow> Bar list \<Rightarrow> ('s, 'p, 'f) Session \<times> 'x \<Rightarrow> (('s, 'p, 'f) Session \<times> 'x) \<times> unit result" where
  "replayLoop cfg [] sx = (sx, Inr ())"
| "replayLoop cfg (b # bs) sx =
     (case Session_onBar cfg b sx of (sx1, Inl err) \<Rightarrow> (sx1, Inl err) | (sx1, Inr _) \<Rightarrow> replayLoop cfg bs sx1)"

definition Session_Replay :: "('s, 'p, 'f, 'x) SessionConfig \<Rightarrow> Bar list \<Rightarrow> ('s, 'p, 'f) Session \<times> 'x \<Rightarrow>
    (('s, 'p, 'f) Session \<times> 'x) \<times> unit result" where
  "Session_Replay cfg bars sx =
     (case replayLoop cfg bars sx of (sx1, Inl err) \<Rightarrow> (sx1, Inl err) | (sx1, Inr _) \<Rightarrow> Session_flushTimestamp cfg sx1)"

definition Session_handleBar :: "('s, 'p, 'f, 'x) SessionConfig \<Rightarrow> (('s, 'p, 'f) Session \<times> 'x) stream_handler" where
  "Session_handleBar cfg evt l sx =
     (case evt of BarEvent bar \<Rightarrow> (case Session_onBar cfg bar sx of (sx1, r) \<Rightarrow> (l, sx1, r)) | _ \<Rightarrow> (l, sx, Inl wrongEvent))"

definition stopResult :: "stop \<Rightarrow> unit result" where
  "stopResult r = (case r of Drained \<Rightarrow> Inr () | Canceled \<Rightarrow> Inl ErrCanceled | ClockError e \<Rightarrow> Inl e
     | NoHandler _ \<Rightarrow> Inl (ErrPlain ''no handler'') | HandlerError e \<Rightarrow> Inl e)"

text \<open>The feed delivers its bars with the host time of their arrival, or the opening fails.  The loop's handler schedules nothing, so
  one step of the drain is enough.\<close>

definition SliceStreamFeed_Open :: "(nat \<Rightarrow> gotime) \<Rightarrow> Bar list \<Rightarrow> stimulus list result" where
  "SliceStreamFeed_Open host bars = Inr (map (\<lambda>(b, i). Deliver (BarEvent b) (host i)) (zip bars [0..<length bars]))"

definition Session_RunStream :: "('s, 'p, 'f, 'x) SessionConfig \<Rightarrow> stimulus list result \<Rightarrow> StreamClockMode \<Rightarrow> gotime \<Rightarrow> gotime \<Rightarrow> (nat \<Rightarrow> bool) \<Rightarrow>
    ('s, 'p, 'f) Session \<times> 'x \<Rightarrow> ((('s, 'p, 'f) Session \<times> 'x) \<times> unit result) option" where
  "Session_RunStream cfg feed mode vc host cancel sx =
     (case feed of
        Inl err \<Rightarrow> Some (sx, Inl err)
      | Inr src \<Rightarrow>
          (case RunStream 1 cancel [(KindBar, Session_handleBar cfg)] src (NewStreamLoop mode vc host) sx of
             None \<Rightarrow> None
           | Some (_, sx1, _, r) \<Rightarrow>
               (case stopResult r of Inl err \<Rightarrow> Some (sx1, Inl err) | Inr _ \<Rightarrow> Some (Session_flushTimestamp cfg sx1))))"

definition Session_PrimeExcept :: "('s, 'p, 'f, 'x) SessionConfig \<Rightarrow> (string \<Rightarrow> bool) \<Rightarrow> ('s, 'p, 'f) Session \<Rightarrow> ('s, 'p, 'f) Session \<times> unit result" where
  "Session_PrimeExcept cfg skip s =
     (let sts = ss_strategies s;
          batch = PrimeWarmupBatchExcept (map ls_strategy sts) (lc_WarmupBatch cfg) skip;
          put = (\<lambda>qs. map2 (\<lambda>st q. st\<lparr>ls_strategy := q\<rparr>) sts qs)
      in case lc_Warmup cfg of
           None \<Rightarrow> (s\<lparr>ss_strategies := put batch\<rparr>, Inr ())
         | Some barsFor \<Rightarrow>
             if lc_WarmupSymbols cfg = [] then (s\<lparr>ss_strategies := put batch\<rparr>, Inr ())
             else (case PrimeWarmupExcept batch (lc_WarmupSymbols cfg) skip barsFor of (qs, r) \<Rightarrow> (s\<lparr>ss_strategies := put qs\<rparr>, r)))"

definition Session_Prime :: "('s, 'p, 'f, 'x) SessionConfig \<Rightarrow> ('s, 'p, 'f) Session \<Rightarrow> ('s, 'p, 'f) Session \<times> unit result" where
  "Session_Prime cfg s = Session_PrimeExcept cfg (\<lambda>_. False) s"

definition MapWarmupProvider_WarmupBars :: "(string, Bar list) gomap \<Rightarrow> string \<Rightarrow> Bar list result" where
  "MapWarmupProvider_WarmupBars m sy = Inr (listAt m sy)"

definition BatchBars :: "InstrumentBars list \<Rightarrow> Bar list" where
  "BatchBars instruments =
     (let flat = concat (map (\<lambda>(ib, reg). map (\<lambda>b. (b, reg)) (ib_Bars ib)) (zip instruments [0..<length instruments]))
      in map fst (sort_key (\<lambda>(b, reg). (t_ns (bar_TS b), reg)) flat))"

section \<open>Streaming and replay\<close>

lemma refreshContext_sel [simp]: "ss_curTS (refreshContext cfg bar s) = ss_curTS s" "ss_haveTS (refreshContext cfg bar s) = ss_haveTS s"
  by (auto simp: refreshContext_def split: option.splits prod.splits)

lemma deliverBar_marks: "deliverBar cfg bar sx = (sx', r) \<Longrightarrow> ss_haveTS (fst sx') \<and> ss_curTS (fst sx') = bar_TS bar"
  by (auto simp: deliverBar_def Let_def split: prod.splits)

lemma onBar_marks: "Session_onBar cfg bar sx = (sx', Inr u) \<Longrightarrow> ss_haveTS (fst sx') \<and> ss_curTS (fst sx') = bar_TS bar"
  by (auto simp: Session_onBar_def split: if_splits prod.splits sum.splits dest: deliverBar_marks)

definition inStep :: "StreamLoop \<Rightarrow> ('s, 'p, 'f) Session \<Rightarrow> bool" where
  "inStep l s \<longleftrightarrow> pop (sl_queue l) = None \<and> sl_haveLast l = ss_haveTS s \<and> (ss_haveTS s \<longrightarrow> sl_lastTs l = ss_curTS s)"

lemma clockSet_sel [simp]: "sl_queue (clockSet l t) = sl_queue l" "sl_haveLast (clockSet l t) = sl_haveLast l" "sl_lastTs (clockSet l t) = sl_lastTs l"
  by (simp_all add: clockSet_def split: StreamClockMode.splits)

lemma dispatch_bar:
  assumes "inStep l (fst sx)" "t_off (bar_TS b) = 0"
  shows "\<exists>l1. dispatch [(KindBar, Session_handleBar cfg)] (l\<lparr>sl_host := h\<rparr>) sx (BarEvent b) =
      (l1, fst (Session_onBar cfg b sx), case snd (Session_onBar cfg b sx) of Inl err \<Rightarrow>
         Some (if ss_haveTS (fst sx) \<and> Before (bar_TS b) (ss_curTS (fst sx)) then ClockError err else HandlerError err) | Inr _ \<Rightarrow> None) \<and>
      (isOk (snd (Session_onBar cfg b sx)) \<longrightarrow> inStep l1 (fst (fst (Session_onBar cfg b sx))))"
proof (cases "ss_haveTS (fst sx) \<and> Before (bar_TS b) (ss_curTS (fst sx))")
  case True
  then have "\<not> After (bar_TS b) (ss_curTS (fst sx))" by (simp add: Before_def After_def)
  then have "Session_onBar cfg b sx = (sx, Inl ErrTimeReversal)" using assms(2) True by (simp add: Session_onBar_def)
  then show ?thesis using assms True by (simp add: dispatch_def inStep_def Let_def)
next
  case False
  obtain sx1 r where o: "Session_onBar cfg b sx = (sx1, r)" by fastforce
  have "mapGet [(KindBar, Session_handleBar cfg)] (Kind (BarEvent b)) = Some (Session_handleBar cfg)" by (simp add: mapGet_def)
  then show ?thesis using assms False o onBar_marks [of cfg b sx sx1]
    by (cases r) (auto simp: dispatch_def inStep_def Let_def Session_handleBar_def)
qed

lemma stream_replay:
  "inStep l (fst sx) \<Longrightarrow> list_all (\<lambda>(b, h). t_off (bar_TS b) = 0) bhs \<Longrightarrow>
   \<exists>l' tr r. runStream 1 (\<lambda>_. False) n [(KindBar, Session_handleBar cfg)] (map (\<lambda>(b, h). Deliver (BarEvent b) h) bhs) l sx =
     Some (l', fst (replayLoop cfg (map fst bhs) sx), tr, r) \<and> stopResult r = snd (replayLoop cfg (map fst bhs) sx)"
proof (induction bhs arbitrary: l sx n)
  case (Cons bh bhs)
  obtain b h where bh: "bh = (b, h)" by fastforce
  obtain sx1 r where o: "Session_onBar cfg b sx = (sx1, r)" by fastforce
  obtain l1 where d: "dispatch [(KindBar, Session_handleBar cfg)] (l\<lparr>sl_host := h\<rparr>) sx (BarEvent b) =
      (l1, sx1, case r of Inl err \<Rightarrow>
         Some (if ss_haveTS (fst sx) \<and> Before (bar_TS b) (ss_curTS (fst sx)) then ClockError err else HandlerError err) | Inr _ \<Rightarrow> None)"
    "isOk r \<longrightarrow> inStep l1 (fst sx1)"
    using dispatch_bar [OF Cons(2), of b cfg h] Cons(3) bh o by auto
  show ?case
  proof (cases r)
    case (Inl err)
    then show ?thesis using d o bh by (simp add: stopResult_def)
  next
    case (Inr u)
    then have i: "inStep l1 (fst sx1)" using d(2) by simp
    then have q: "drainQueue 1 (\<lambda>_. False) n [(KindBar, Session_handleBar cfg)] l1 sx1 = Some (l1, sx1, [], None)"
      by (simp add: inStep_def)
    obtain l' tr r' where "runStream 1 (\<lambda>_. False) (Suc n) [(KindBar, Session_handleBar cfg)] (map (\<lambda>(b, h). Deliver (BarEvent b) h) bhs) l1 sx1 =
        Some (l', fst (replayLoop cfg (map fst bhs) sx1), tr, r')" "stopResult r' = snd (replayLoop cfg (map fst bhs) sx1)"
      using Cons(1) [OF i, of "Suc n"] Cons(3) by auto
    then show ?thesis using d(1) q o bh Inr by simp
  qed
qed (simp add: stopResult_def)

lemma NewStreamLoop_inStep: "\<not> ss_haveTS s \<Longrightarrow> inStep (NewStreamLoop mode vc h) s"
  by (simp add: inStep_def NewStreamLoop_def newEventQueue_def pop_def)

section \<open>The order of the bars\<close>

lemma insort_key_map: "insort_key f (g x) (map g xs) = map g (insort_key (f \<circ> g) x xs)"
  by (induction xs) auto

lemma sort_key_map: "sort_key f (map g xs) = map g (sort_key (f \<circ> g) xs)"
  by (induction xs) (auto simp: insort_key_map comp_def)

text \<open>Sorting by a second component that already ascends is the stable sort by the first.\<close>

lemma sort_key_second:
  fixes f :: "'a \<Rightarrow> 'k :: linorder" and g :: "'a \<Rightarrow> 'l :: linorder"
  shows "sorted (map g xs) \<Longrightarrow> sort_key (\<lambda>x. (f x, g x)) xs = sort_key f xs"
proof (induction xs)
  case (Cons x xs)
  have "insort_key (\<lambda>x. (f x, g x)) x ys = insort_key f x ys" if "\<forall>y \<in> set ys. g x \<le> g y" for ys
    using that by (induction ys) (auto simp: less_eq_prod_def)
  then show ?case using Cons by simp
qed simp

lemma BatchBars_eq: "BatchBars instruments = sort_key (\<lambda>b. t_ns (bar_TS b)) (concat (map ib_Bars instruments))"
proof -
  define flat where "flat k instruments = concat (map (\<lambda>(ib, reg). map (\<lambda>b. (b, reg)) (ib_Bars ib)) (zip instruments [k..<k + length instruments]))"
    for k :: nat and instruments :: "InstrumentBars list"
  have step: "flat k (ib # ibs) = map (\<lambda>b. (b, k)) (ib_Bars ib) @ flat (Suc k) ibs" for k ib ibs
    by (simp add: flat_def upt_conv_Cons del: upt_Suc)
  have "sorted (map snd (flat k ibs)) \<and> (\<forall>r \<in> set (map snd (flat k ibs)). k \<le> r) \<and> map fst (flat k ibs) = concat (map ib_Bars ibs)" for k ibs
  proof (induction ibs arbitrary: k)
    case (Cons ib ibs)
    have "sorted (map snd (map (\<lambda>b. (b, k)) (ib_Bars ib)))" by (simp add: comp_def sorted_replicate map_replicate_const)
    then show ?case using Cons [of "Suc k"] by (fastforce simp: step sorted_append comp_def)
  qed (simp add: flat_def)
  then have f: "sorted (map snd (flat 0 instruments))" "map fst (flat 0 instruments) = concat (map ib_Bars instruments)" by blast+
  have "BatchBars instruments = map fst (sort_key (\<lambda>x. (t_ns (bar_TS (fst x)), snd x)) (flat 0 instruments))"
    by (simp add: BatchBars_def flat_def case_prod_unfold)
  also have "\<dots> = map fst (sort_key (\<lambda>x. t_ns (bar_TS (fst x))) (flat 0 instruments))" by (simp add: sort_key_second [OF f(1)])
  also have "\<dots> = sort_key (\<lambda>b. t_ns (bar_TS b)) (map fst (flat 0 instruments))" by (simp add: sort_key_map comp_def)
  finally show ?thesis by (simp add: f(2))
qed

fun barOf :: "Event \<Rightarrow> Bar list" where
  "barOf (BarEvent b) = [b]"
| "barOf (FillEvent f) = []"
| "barOf (SampleEvent t) = []"

definition isBar :: "Event \<Rightarrow> bool" where
  "isBar e \<longleftrightarrow> barOf e \<noteq> []"

lemma bars_of_seeded: "concat (map barOf (sort_key evKey (seededEvents bars))) = sort_key (\<lambda>b. t_ns (bar_TS b)) bars"
proof -
  have bars: "concat (map barOf es) = concat (map barOf (filter isBar es))" for es by (induction es) (auto simp: isBar_def)
  have one: "concat (map (barOf \<circ> BarEvent) bs) = bs" for bs by (induction bs) auto
  have k: "sort_key (evKey \<circ> BarEvent) bs = sort_key (\<lambda>b. t_ns (bar_TS b)) bs" for bs
  proof -
    have "evKey \<circ> BarEvent = (\<lambda>b. (t_ns (bar_TS b), uint (Priority KindBar)))" by (simp add: evKey_def comp_def)
    then show ?thesis using sort_key_second [of "\<lambda>_. uint (Priority KindBar)" bs] by (simp add: map_replicate_const)
  qed
  have "filter isBar (seededEvents bars) = map BarEvent bars" by (simp add: seededEvents_def isBar_def filter_empty_conv comp_def)
  then have "filter isBar (sort_key evKey (seededEvents bars)) = map BarEvent (sort_key (\<lambda>b. t_ns (bar_TS b)) bars)"
    by (simp add: filter_sort sort_key_map k)
  then show ?thesis by (simp add: bars [of "sort_key evKey (seededEvents bars)"] one)
qed

section \<open>A halted signal session\<close>

lemma noop_calls:
  "sb_SubmitMarket noopSubmitter sid sy side qty reason ts (e, x) =
    (case sb_SubmitMarket noopSubmitter sid sy side qty reason ts (e, ()) of ((e1, _), r) \<Rightarrow> ((e1, x), r))"
  "sb_SubmitMarketSignal noopSubmitter sid sy sg side qty reason ts (e, x) =
    (case sb_SubmitMarketSignal noopSubmitter sid sy sg side qty reason ts (e, ()) of ((e1, _), r) \<Rightarrow> ((e1, x), r))"
  by (cases e; simp add: noopSubmitter_def split: prod.splits)+

lemma noop_frame: "liveAct noopSubmitter a (e, x) = (case liveAct noopSubmitter a (e, ()) of ((e1, _), s, r) \<Rightarrow> ((e1, x), s, r))"
proof (induction a arbitrary: e)
  case (CallMarket sid sy side qty reason ts k)
  obtain e1 r1 where c: "sb_SubmitMarket noopSubmitter sid sy side qty reason ts (e, ()) = ((e1, ()), r1)" by (metis old.prod.exhaust old.unit.exhaust)
  show ?case using CallMarket [OF rangeI, of r1 e1] by (simp add: noop_calls(1) [of sid sy side qty reason ts e x] c)
next
  case (CallSignal sid sy sg side qty reason ts k)
  obtain e1 r1 where c: "sb_SubmitMarketSignal noopSubmitter sid sy sg side qty reason ts (e, ()) = ((e1, ()), r1)"
    by (metis old.prod.exhaust old.unit.exhaust)
  show ?case using CallSignal [OF rangeI, of r1 e1] by (simp add: noop_calls(2) [of sid sy sg side qty reason ts e x] c)
next
  case (CallNet sid sy k)
  then show ?case by (simp add: noopSubmitter_def)
qed simp

lemma noop_bar_frame:
  "onBarLoop noopSubmitter bar sts (e, x) = (case onBarLoop noopSubmitter bar sts (e, ()) of ((e1, _), sts1, r) \<Rightarrow> ((e1, x), sts1, r))"
proof (induction sts arbitrary: e)
  case (Cons st sts)
  let ?a = "st_OnBar (ls_strategy st) bar (st_state (ls_strategy st))"
  obtain e1 s r where c: "liveAct noopSubmitter ?a (e, ()) = ((e1, ()), s, r)" by (metis old.prod.exhaust old.unit.exhaust)
  show ?case using Cons [of e1] by (cases r) (simp_all add: noop_frame [of ?a e x] c split: prod.splits)
qed simp

definition signalConfig :: "('s, 'p, 'f, 'p MemSink \<times> 'e) SessionConfig \<Rightarrow> ('e \<Rightarrow> bool) \<Rightarrow> (Bar \<Rightarrow> 'e \<Rightarrow> 'e) \<Rightarrow> bool" where
  "signalConfig cfg gate f \<longleftrightarrow> lc_Sink cfg = Some memSink \<and> lc_Submitter cfg = None \<and> lc_PostTimestamp cfg = None \<and>
     lc_EmitGate cfg = Some (\<lambda>(m, e). gate e) \<and> lc_ObserveBar cfg = Some (\<lambda>b (m, e). (m, f b e))"

lemma memSink_signals: "emitAllR (sk_EmitSignal memSink) rs (m, e) = ((m\<lparr>ms_Signals := ms_Signals m @ rs\<rparr>, e), length rs, Inr ())"
  by (induction rs arbitrary: m) (auto simp: memSink_def MemSink_EmitSignal_def)

definition memIntent :: "IntentRecord \<Rightarrow> 'p MemSink \<times> 'e \<Rightarrow> ('p MemSink \<times> 'e) \<times> unit result" where
  "memIntent r x = ((MemSink_EmitIntent r (fst x), snd x), Inr ())"

lemma memSink_caps: "sk_EmitIntent memSink = Some memIntent" "sk_EmitState memSink = None"
  by (auto simp: memSink_def memIntent_def fun_eq_iff)

lemma memSink_intents: "emitAllR memIntent rs (m, e) = ((m\<lparr>ms_Intents := ms_Intents m @ rs\<rparr>, e), length rs, Inr ())"
  by (induction rs arbitrary: m) (auto simp: memIntent_def MemSink_EmitIntent_def)

definition healthOf :: "('s, 'p, 'f, 'x) SessionConfig \<Rightarrow> gotime \<Rightarrow> HealthRecord list" where
  "healthOf cfg asOf = (case lc_Gate cfg of None \<Rightarrow> [] | Some g \<Rightarrow> [\<lparr>hr_AsOf = asOf, hr_Snapshot = HealthSnapshot g (SnapshotFromDomain
     (NewPortfolioSnapshot (lc_StartingBalance cfg) (lc_StartingBalance cfg) 0 0 [] []))\<rparr>])"

lemma flushEnd_mem:
  assumes "lc_Sink cfg = Some memSink" "lc_PostTimestamp cfg = None"
  shows "flushEnd cfg (s, (m, e)) = ((s\<lparr>ss_haveTS := False\<rparr>, (m\<lparr>ms_Health := ms_Health m @ healthOf cfg (ss_curTS s)\<rparr>, e)), Inr ())"
  using assms by (auto simp: flushEnd_def Session_emitHealth_def postTimestamp_def sessionSink_def memSink_def MemSink_EmitHealth_def healthOf_def
      split: option.splits)

text \<open>The session after the drain, and the intents it gave.\<close>

definition drained :: "('s, 'p, 'f) Session \<Rightarrow> ('s, 'p, 'f) Session" where
  "drained s = s\<lparr>ss_exec := map_option (\<lambda>e. e\<lparr>ne_pending := []\<rparr>) (ss_exec s)\<rparr>"

definition pendingOf :: "('s, 'p, 'f) Session \<Rightarrow> IntentRecord list" where
  "pendingOf s = (case ss_exec s of None \<Rightarrow> [] | Some e \<Rightarrow> ne_pending e)"

lemma drainExec_eq: "drainExec s = (drained s, pendingOf s)"
  by (cases "ss_exec s") (auto simp: drainExec_def drained_def pendingOf_def NoopExecutor_drainPending_def)

lemma emitTimestamp_mem:
  assumes "lc_Sink cfg = Some memSink"
  shows "emitTimestamp cfg (s, (m, e)) =
    ((drained (s\<lparr>ss_emitted := ss_emitted s + length (signalRecords (ss_curTS s) (ss_strategies s))\<rparr>),
      (m\<lparr>ms_Signals := ms_Signals m @ signalRecords (ss_curTS s) (ss_strategies s), ms_Intents := ms_Intents m @ pendingOf s\<rparr>, e)), Inr ())"
  using assms by (simp add: emitTimestamp_def sessionSink_def memSink_signals drainExec_eq memSink_caps memSink_intents pendingOf_def Let_def)

text \<open>The paused session beside the one that always emits.\<close>

definition sameSession :: "('s, 'p, 'f) Session \<Rightarrow> ('s, 'p, 'f) Session \<Rightarrow> bool" where
  "sameSession s s' \<longleftrightarrow> ss_exec s' = ss_exec s \<and> ss_strategies s' = ss_strategies s \<and> ss_spySym s' = ss_spySym s \<and> ss_ctxProv s' = ss_ctxProv s \<and>
     ss_ctxStat s' = ss_ctxStat s \<and> ss_curTS s' = ss_curTS s \<and> ss_haveTS s' = ss_haveTS s \<and> ss_barsSeen s' = ss_barsSeen s"

definition paused :: "('s, 'p, 'f) Session \<times> 'p MemSink \<times> 'e \<Rightarrow> ('s, 'p, 'f) Session \<times> 'p MemSink \<times> 'e \<Rightarrow> bool" where
  "paused sx sx' \<longleftrightarrow> (case (sx, sx') of ((s, m, e), (s', m', e')) \<Rightarrow>
     sameSession s s' \<and> e' = e \<and> ms_Health m' = ms_Health m \<and> subseq (ms_Signals m) (ms_Signals m') \<and> subseq (ms_Intents m) (ms_Intents m'))"

lemma paused_cases:
  assumes "paused sx sx'"
  obtains s m e s' m' where "sx = (s, m, e)" "sx' = (s', m', e)" "sameSession s s'" "ms_Health m' = ms_Health m"
    "subseq (ms_Signals m) (ms_Signals m')" "subseq (ms_Intents m) (ms_Intents m')"
  using assms by (cases sx; cases sx') (auto simp: paused_def)

lemma flush_mem:
  assumes "signalConfig cfg gate f" "ss_haveTS s"
  shows "Session_flushTimestamp cfg (s, (m, e)) =
    (if gate e then
       (((drained (s\<lparr>ss_emitted := ss_emitted s + length (signalRecords (ss_curTS s) (ss_strategies s))\<rparr>))\<lparr>ss_haveTS := False\<rparr>,
        (m\<lparr>ms_Signals := ms_Signals m @ signalRecords (ss_curTS s) (ss_strategies s), ms_Intents := ms_Intents m @ pendingOf s,
           ms_Health := ms_Health m @ healthOf cfg (ss_curTS s)\<rparr>, e)), Inr ())
     else
       (((drained (s\<lparr>ss_haltedFlushes := ss_haltedFlushes s + 1\<rparr>))\<lparr>ss_haveTS := False\<rparr>, (m\<lparr>ms_Health := ms_Health m @ healthOf cfg (ss_curTS s)\<rparr>, e)), Inr ()))"
  using assms by (simp add: Session_flushTimestamp_def signalConfig_def emitTimestamp_mem flushEnd_mem drainExec_eq drained_def)

lemma flush_open:
  assumes "lc_Sink cfg = Some memSink" "lc_PostTimestamp cfg = None" "lc_EmitGate cfg = None" "ss_haveTS s"
  shows "Session_flushTimestamp cfg (s, (m, e)) =
       (((drained (s\<lparr>ss_emitted := ss_emitted s + length (signalRecords (ss_curTS s) (ss_strategies s))\<rparr>))\<lparr>ss_haveTS := False\<rparr>,
        (m\<lparr>ms_Signals := ms_Signals m @ signalRecords (ss_curTS s) (ss_strategies s), ms_Intents := ms_Intents m @ pendingOf s,
           ms_Health := ms_Health m @ healthOf cfg (ss_curTS s)\<rparr>, e)), Inr ())"
  using assms by (simp add: Session_flushTimestamp_def emitTimestamp_mem flushEnd_mem drained_def)

lemma subseq_grow: "subseq xs ys \<Longrightarrow> subseq xs (ys @ zs)" "subseq xs ys \<Longrightarrow> subseq (xs @ zs) (ys @ zs)"
  using list_emb_append_mono [of "(=)" xs ys "[]" zs] by (simp_all add: list_emb_append_mono)

lemma flush_paused:
  assumes "signalConfig cfg gate f" "paused sx sx'"
  shows "paused (fst (Session_flushTimestamp cfg sx)) (fst (Session_flushTimestamp (cfg\<lparr>lc_EmitGate := None\<rparr>) sx'))"
    and "snd (Session_flushTimestamp cfg sx) = Inr ()" "snd (Session_flushTimestamp (cfg\<lparr>lc_EmitGate := None\<rparr>) sx') = Inr ()"
proof -
  obtain s m e s' m' where sx: "sx = (s, m, e)" "sx' = (s', m', e)" "sameSession s s'" "ms_Health m' = ms_Health m"
    "subseq (ms_Signals m) (ms_Signals m')" "subseq (ms_Intents m) (ms_Intents m')" using assms(2) by (rule paused_cases)
  let ?c = "cfg\<lparr>lc_EmitGate := None\<rparr>"
  have c: "lc_Sink ?c = Some memSink" "lc_PostTimestamp ?c = None" "lc_EmitGate ?c = None" using assms(1) by (simp_all add: signalConfig_def)
  have h: "healthOf ?c t = healthOf cfg t" for t by (simp add: healthOf_def split: option.splits)
  have "paused (fst (Session_flushTimestamp cfg sx)) (fst (Session_flushTimestamp ?c sx')) \<and>
      snd (Session_flushTimestamp cfg sx) = Inr () \<and> snd (Session_flushTimestamp ?c sx') = Inr ()"
  proof (cases "ss_haveTS s")
    case True
    then have "ss_haveTS s'" using sx(3) by (simp add: sameSession_def)
    note f = flush_mem [OF assms(1) True, of m e] flush_open [OF c this, of m' e]
    show ?thesis unfolding sx(1,2) f using sx(3-6)
      by (auto simp: paused_def sameSession_def h drained_def pendingOf_def intro: subseq_grow)
  next
    case False
    then show ?thesis using assms(2) sx(3) by (simp add: sx(1,2) sameSession_def Session_flushTimestamp_def)
  qed
  then show "paused (fst (Session_flushTimestamp cfg sx)) (fst (Session_flushTimestamp ?c sx'))"
    "snd (Session_flushTimestamp cfg sx) = Inr ()" "snd (Session_flushTimestamp ?c sx') = Inr ()" by blast+
qed

lemma refresh_same:
  assumes "sameSession s s'"
  shows "sameSession (refreshContext cfg bar s) (refreshContext (cfg\<lparr>lc_EmitGate := g\<rparr>) bar s')"
  using assms by (auto simp: refreshContext_def sameSession_def split: option.splits prod.splits)

lemma deliver_noop:
  assumes "lc_Submitter cfg = None" "lc_ObserveBar cfg = Some (\<lambda>b (m, e). (m, f b e))"
    and "s2 = refreshContext cfg bar (s\<lparr>ss_curTS := bar_TS bar, ss_haveTS := True, ss_barsSeen := ss_barsSeen s + 1\<rparr>)"
    and "onBarLoop noopSubmitter bar (ss_strategies s2) (ss_exec s2, ()) = ((ex, ()), sts, r)"
  shows "deliverBar cfg bar (s, (m, e)) = ((s2\<lparr>ss_exec := ex, ss_strategies := sts\<rparr>, (m, f bar e)), r)"
  using assms(4) noop_bar_frame [of bar "ss_strategies s2" "ss_exec s2" "(m, f bar e)"]
  unfolding deliverBar_def Let_def prod.case assms(3) [symmetric] by (simp add: Session_Submitter_def assms(1,2))

lemma deliver_paused:
  assumes "signalConfig cfg gate f" "paused sx sx'"
  shows "paused (fst (deliverBar cfg bar sx)) (fst (deliverBar (cfg\<lparr>lc_EmitGate := None\<rparr>) bar sx')) \<and>
    snd (deliverBar (cfg\<lparr>lc_EmitGate := None\<rparr>) bar sx') = snd (deliverBar cfg bar sx)"
proof -
  obtain s m e s' m' where sx: "sx = (s, m, e)" "sx' = (s', m', e)" "sameSession s s'" "ms_Health m' = ms_Health m"
    "subseq (ms_Signals m) (ms_Signals m')" "subseq (ms_Intents m) (ms_Intents m')" using assms(2) by (rule paused_cases)
  let ?c = "cfg\<lparr>lc_EmitGate := None\<rparr>"
  define mark where "mark q = q\<lparr>ss_curTS := bar_TS bar, ss_haveTS := True, ss_barsSeen := ss_barsSeen q + 1\<rparr>" for q :: "('a, 'b, 'c) Session"
  define s2 where "s2 = refreshContext cfg bar (mark s)"
  define s2' where "s2' = refreshContext ?c bar (mark s')"
  have "sameSession (mark s) (mark s')" using sx(3) by (simp add: mark_def sameSession_def)
  then have same: "sameSession s2 s2'" unfolding s2_def s2'_def by (rule refresh_same)
  obtain ex sts r where o: "onBarLoop noopSubmitter bar (ss_strategies s2) (ss_exec s2, ()) = ((ex, ()), sts, r)"
    by (metis old.prod.exhaust old.unit.exhaust)
  have c: "lc_Submitter cfg = None" "lc_ObserveBar cfg = Some (\<lambda>b (m, e). (m, f b e))"
    "lc_Submitter ?c = None" "lc_ObserveBar ?c = Some (\<lambda>b (m, e). (m, f b e))" using assms(1) by (simp_all add: signalConfig_def)
  have 1: "deliverBar cfg bar sx = ((s2\<lparr>ss_exec := ex, ss_strategies := sts\<rparr>, (m, f bar e)), r)"
    unfolding sx(1) by (rule deliver_noop [OF c(1,2) s2_def [unfolded mark_def] o])
  have o': "onBarLoop noopSubmitter bar (ss_strategies s2') (ss_exec s2', ()) = ((ex, ()), sts, r)" using o same by (simp add: sameSession_def)
  have 2: "deliverBar ?c bar sx' = ((s2'\<lparr>ss_exec := ex, ss_strategies := sts\<rparr>, (m', f bar e)), r)"
    unfolding sx(2) by (rule deliver_noop [OF c(3,4) s2'_def [unfolded mark_def] o'])
  show ?thesis unfolding 1 2 using sx(4-6) same by (simp add: paused_def sameSession_def)
qed

lemma onBar_paused:
  assumes "signalConfig cfg gate f" "paused sx sx'"
  shows "paused (fst (Session_onBar cfg bar sx)) (fst (Session_onBar (cfg\<lparr>lc_EmitGate := None\<rparr>) bar sx')) \<and>
    snd (Session_onBar (cfg\<lparr>lc_EmitGate := None\<rparr>) bar sx') = snd (Session_onBar cfg bar sx)"
proof -
  let ?c = "cfg\<lparr>lc_EmitGate := None\<rparr>"
  have same: "ss_haveTS (fst b) = ss_haveTS (fst a)" "ss_curTS (fst b) = ss_curTS (fst a)" if "paused a b" for a b
    using that by (auto simp: sameSession_def elim: paused_cases)
  define f1 where "f1 = (if ss_haveTS (fst sx) \<and> After (bar_TS bar) (ss_curTS (fst sx)) then Session_flushTimestamp cfg sx else (sx, Inr ()))"
  define f2 where "f2 = (if ss_haveTS (fst sx') \<and> After (bar_TS bar) (ss_curTS (fst sx')) then Session_flushTimestamp ?c sx' else (sx', Inr ()))"
  have f: "paused (fst f1) (fst f2)" "snd f1 = Inr ()" "snd f2 = Inr ()"
    using flush_paused [OF assms] assms(2) same [OF assms(2)] by (simp_all add: f1_def f2_def)
  have e: "Session_onBar cfg bar sx = (if t_off (bar_TS bar) \<noteq> 0 then (sx, Inl ErrInvalidArgument)
      else if ss_haveTS (fst (fst f1)) \<and> Before (bar_TS bar) (ss_curTS (fst (fst f1))) then (fst f1, Inl ErrTimeReversal) else deliverBar cfg bar (fst f1))"
    using f(2) by (cases f1) (auto simp: Session_onBar_def f1_def [symmetric])
  have e': "Session_onBar ?c bar sx' = (if t_off (bar_TS bar) \<noteq> 0 then (sx', Inl ErrInvalidArgument)
      else if ss_haveTS (fst (fst f2)) \<and> Before (bar_TS bar) (ss_curTS (fst (fst f2))) then (fst f2, Inl ErrTimeReversal) else deliverBar ?c bar (fst f2))"
    using f(3) by (cases f2) (auto simp: Session_onBar_def f2_def [symmetric])
  show ?thesis unfolding e e' using assms(2) f(1) same [OF f(1)] deliver_paused [OF assms(1) f(1)] by simp
qed

lemma replay_paused:
  assumes "signalConfig cfg gate f"
  shows "paused sx sx' \<Longrightarrow> paused (fst (replayLoop cfg bars sx)) (fst (replayLoop (cfg\<lparr>lc_EmitGate := None\<rparr>) bars sx')) \<and>
    snd (replayLoop (cfg\<lparr>lc_EmitGate := None\<rparr>) bars sx') = snd (replayLoop cfg bars sx)"
proof (induction bars arbitrary: sx sx')
  case (Cons b bars)
  note o = onBar_paused [OF assms Cons(2), of b]
  obtain sx1 r where 1: "Session_onBar cfg b sx = (sx1, r)" by fastforce
  obtain sx2 where 2: "Session_onBar (cfg\<lparr>lc_EmitGate := None\<rparr>) b sx' = (sx2, r)" using o 1 by (metis prod.collapse snd_conv)
  show ?case using Cons(1) [of sx1 sx2] o 1 2 by (cases r) simp_all
qed simp

text \<open>With the gate closed nothing but health reaches the sink.\<close>

definition sealed :: "('s, 'p, 'f) Session \<times> 'p MemSink \<times> 'e \<Rightarrow> 'p SignalRecord list \<times> IntentRecord list" where
  "sealed sx = (ms_Signals (fst (snd sx)), ms_Intents (fst (snd sx)))"

lemma flush_sealed:
  assumes "signalConfig cfg (\<lambda>_. False) f"
  shows "sealed (fst (Session_flushTimestamp cfg sx)) = sealed sx"
proof -
  obtain s m e where sx: "sx = (s, m, e)" by (metis surj_pair)
  show ?thesis
  proof (cases "ss_haveTS s")
    case True
    show ?thesis unfolding sx flush_mem [OF assms True] by (simp add: sealed_def)
  qed (simp add: sx Session_flushTimestamp_def)
qed

lemma deliver_sealed:
  assumes "signalConfig cfg gate f"
  shows "sealed (fst (deliverBar cfg bar sx)) = sealed sx"
proof -
  obtain s m e where sx: "sx = (s, m, e)" by (metis surj_pair)
  define s2 where "s2 = refreshContext cfg bar (s\<lparr>ss_curTS := bar_TS bar, ss_haveTS := True, ss_barsSeen := ss_barsSeen s + 1\<rparr>)"
  obtain ex sts r where o: "onBarLoop noopSubmitter bar (ss_strategies s2) (ss_exec s2, ()) = ((ex, ()), sts, r)"
    by (metis old.prod.exhaust old.unit.exhaust)
  have c: "lc_Submitter cfg = None" "lc_ObserveBar cfg = Some (\<lambda>b (m, e). (m, f b e))" using assms by (simp_all add: signalConfig_def)
  show ?thesis unfolding sx deliver_noop [OF c s2_def o] by (simp add: sealed_def)
qed

lemma onBar_sealed: "signalConfig cfg (\<lambda>_. False) f \<Longrightarrow> sealed (fst (Session_onBar cfg bar sx)) = sealed sx"
  using flush_sealed [of cfg f sx] deliver_sealed [of cfg "\<lambda>_. False" f bar]
  by (auto simp: Session_onBar_def split: if_splits prod.splits sum.splits) 

lemma replay_sealed: "signalConfig cfg (\<lambda>_. False) f \<Longrightarrow> sealed (fst (replayLoop cfg bars sx)) = sealed sx"
proof (induction bars arbitrary: sx)
  case (Cons b bars)
  obtain sx1 r where 1: "Session_onBar cfg b sx = (sx1, r)" by fastforce
  show ?case using Cons(1) [OF Cons(2), of sx1] onBar_sealed [OF Cons(2), of b sx] 1 by (cases r) simp_all
qed simp

section \<open>What a session guarantees\<close>

lemma digitsLoop_fmtUint: "0 < n \<Longrightarrow> digitsLoop n = rev (fmtUint n)"
proof (induction n rule: digitsLoop.induct)
  case (1 n)
  show ?case
  proof (cases "n < 10")
    case True
    then show ?thesis using 1(2) by (simp add: digitsLoop.simps [of n] digitsLoop.simps [of 0] fmtUint.simps [of n])
  next
    case False
    then show ?thesis using 1 by (subst digitsLoop.simps, subst fmtUint.simps) simp
  qed
qed

text \<open>The client ids are the decimal numeral padded to nine digits.\<close>

lemma formatSeq_padded: "formatSeq n = replicate (9 - length (fmtUint (unat n))) CHR ''0'' @ fmtUint (unat n)"
proof (cases "n = 0")
  case True
  then show ?thesis by (simp add: formatSeq_def padTo_def fmtUint.simps)
next
  case False
  then have "0 < unat n" by (simp add: unat_gt_0)
  then show ?thesis using False by (simp add: formatSeq_def padTo_def digitsLoop_fmtUint)
qed

definition demoStrategy :: "(nat, nat) LiveStrategy" where
  "demoStrategy = \<lparr>ls_strategy = \<lparr>st_ID = ''S-001'', st_state = 0,
       st_OnBar = (\<lambda>b n. CallSignal ''S-001'' (bar_Symbol b) SideLong OrderSideBuy 5 ''entry'' (bar_TS b) (\<lambda>r. Finish (Suc n) (Inr ()))),
       st_SymbolsScoped = None, st_InjectContext = None, st_WarmupBars = None, st_WarmupBatch = None\<rparr>,
     ls_EvaluateSignal = Some (\<lambda>asOf n. n), ls_StateSummary = None\<rparr>"

definition demoSession :: "(nat, nat, int, nat MemSink \<times> bool) SessionConfig" where
  "demoSession = \<lparr>lc_Exec = ExecSignal, lc_Strategies = [Some demoStrategy], lc_Gate = Some demoGate, lc_Float = intOps, lc_Context = None,
     lc_SPYSymbol = [], lc_Warmup = None, lc_WarmupSymbols = [], lc_WarmupBatch = [], lc_StartingBalance = 1000000, lc_Sink = Some memSink,
     lc_EmitGate = Some (\<lambda>(m, e). e), lc_Submitter = None, lc_PostTimestamp = None, lc_ObserveBar = Some (\<lambda>b (m, e). (m, \<not> e))\<rparr>"

definition demoStart :: "(nat, nat, int) Session" where
  "demoStart = (case NewSession demoSession of Inr s \<Rightarrow> s
     | Inl _ \<Rightarrow> \<lparr>ss_exec = None, ss_strategies = [], ss_spySym = [], ss_ctxProv = None, ss_ctxStat = None, ss_curTS = zeroTime, ss_haveTS = True,
         ss_emitted = 0, ss_barsSeen = 0, ss_haltedFlushes = 0\<rparr>)"

definition demoStream :: "Bar list" where
  "demoStream = [demoBar ''AB'' (- 3) 1000003, demoBar ''CD'' (- 3) 500000, demoBar ''AB'' 2 1010007]"

lemma demoStart_idle: "\<not> ss_haveTS demoStart"
  by (simp add: demoStart_def NewSession_def demoSession_def demoStrategy_def ExecutionPolicy_IsValid_def ExecSignal_def ExecAuto_def)

text \<open>C15. Equivalence. A live session fed by the in-memory stream ends in the same session state, has emitted the same records to the world and returns the same
  error as the batch replay of the same bars, whatever the clock, the arrival times, the strategies, the sink and the submitter: also when a bar
  goes back in time, a strategy fails or the sink refuses a record.\<close>

theorem streaming_equals_replay:
  assumes "\<not> ss_haveTS s" "list_all (\<lambda>b. t_off (bar_TS b) = 0) bars"
  shows "Session_RunStream cfg (SliceStreamFeed_Open host bars) mode vc now (\<lambda>_. False) (s, x) = Some (Session_Replay cfg bars (s, x))"
proof -
  let ?bhs = "map (\<lambda>(b, i). (b, host i)) (zip bars [0..<length bars])"
  have bars: "map fst ?bhs = bars" by (simp add: comp_def case_prod_unfold)
  have src: "map (\<lambda>(b, i). Deliver (BarEvent b) (host i)) (zip bars [0..<length bars]) = map (\<lambda>(b, h). Deliver (BarEvent b) h) ?bhs"
    by (simp add: case_prod_unfold)
  have "list_all (\<lambda>(b, h). t_off (bar_TS b) = 0) ?bhs" using assms(2) by (auto simp: list_all_iff dest!: set_zip_leftD)
  then obtain l' tr r where "runStream 1 (\<lambda>_. False) 0 [(KindBar, Session_handleBar cfg)] (map (\<lambda>(b, h). Deliver (BarEvent b) h) ?bhs)
      (NewStreamLoop mode vc now) (s, x) = Some (l', fst (replayLoop cfg bars (s, x)), tr, r)" "stopResult r = snd (replayLoop cfg bars (s, x))"
    using stream_replay [of "NewStreamLoop mode vc now" "(s, x)" ?bhs 0 cfg] NewStreamLoop_inStep [OF assms(1)] bars by auto
  then show ?thesis
    by (simp add: Session_RunStream_def SliceStreamFeed_Open_def RunStream_def src Session_Replay_def split: sum.splits prod.splits)
qed

theorem streaming_equals_replay_witness:
  "Session_RunStream demoSession (SliceStreamFeed_Open (\<lambda>_. zeroTime) demoStream) StreamWall zeroTime zeroTime (\<lambda>_. False) (demoStart, (NewMemSink, False)) =
    Some (Session_Replay demoSession demoStream (demoStart, (NewMemSink, False)))"
  by (rule streaming_equals_replay [OF demoStart_idle]) (simp add: demoStream_def demoBar_def)



end
