(* ===== verification/Jobs_Queue.thy ===== *)
theory Jobs_Queue
  imports Go_Prelude
begin

text \<open>
  The durable job queue of \<open>internal/jobs\<close>: the rows of the table \<open>tms.jobs\<close> and every statement of \<open>queue.go\<close> on
  them.  A statement runs in one transaction, so it is one step here; \<open>now\<close> is the transaction's time (an instant
  in nanoseconds), \<open>db\<close> whether the database answered (when it did not, the transaction is rolled back and the
  store is unchanged), \<open>locked\<close> the rows other transactions hold when a statement skips locked rows.  The
  table's CHECK constraints refuse an update; JSON values are opaque texts.  Audit details, log lines and the
  publishing of events beyond their fields are not modelled.
\<close>

section \<open>Rows\<close>

datatype Status = StatusQueued | StatusRunning | StatusSucceeded | StatusFailed | StatusCanceled

definition Status_Terminal :: "Status \<Rightarrow> bool" where
  "Status_Terminal s = (case s of StatusSucceeded \<Rightarrow> True | StatusFailed \<Rightarrow> True | StatusCanceled \<Rightarrow> True | _ \<Rightarrow> False)"

datatype jobs_error = ErrNoJob | ErrNotFound | ErrLostClaim | ErrNoHandler | ErrContext | ErrDatabase | ErrJobs string

type_synonym instant = int

record Job =
  jb_ID :: int
  jb_Kind :: string
  jb_Payload :: string
  jb_Status :: Status
  jb_Priority :: int
  jb_RunAt :: instant
  jb_Attempts :: int
  jb_MaxAttempts :: int
  jb_DedupeKey :: "string option"
  jb_ClaimedBy :: "string option"
  jb_ClaimedAt :: "instant option"
  jb_HeartbeatAt :: "instant option"
  jb_StartedAt :: "instant option"
  jb_FinishedAt :: "instant option"
  jb_LastError :: "string option"
  jb_Progress :: "string option"
  jb_CancelRequested :: bool
  jb_Result :: "string option"
  jb_CreatedAt :: instant
  jb_UpdatedAt :: instant

record AuditRow =
  ar_Actor :: string
  ar_Action :: string
  ar_JobID :: int

record JobEvent =
  je_JobID :: int
  je_Kind :: string
  je_Event :: string
  je_Status :: Status
  je_Worker :: string
  je_Error :: string

record JobStore =
  st_rows :: "Job list"
  st_nextID :: int
  st_audit :: "AuditRow list"
  st_events :: "JobEvent list"

record Queue =
  q_hasNotifier :: bool
  q_backoff :: "int \<Rightarrow> int"

definition maxErrorLen :: nat where "maxErrorLen = 8192"
definition defaultRetryBase :: int where "defaultRetryBase = 30000000000"
definition defaultRetryCap :: int where "defaultRetryCap = 900000000000"
definition dedupeRaces :: nat where "dedupeRaces = 3"

fun backoffLoop :: "nat \<Rightarrow> int \<Rightarrow> int" where
  "backoffLoop 0 d = d"
| "backoffLoop (Suc n) d = (if d < defaultRetryCap then backoffLoop n (d * 2) else d)"

definition defaultBackoff :: "int \<Rightarrow> int" where
  "defaultBackoff attempt = min (backoffLoop (nat (attempt - 1)) defaultRetryBase) defaultRetryCap"

definition NewQueue :: "bool \<Rightarrow> bool \<Rightarrow> (int \<Rightarrow> int) option \<Rightarrow> jobs_error + Queue" where
  "NewQueue hasPool notifier backoff =
     (if \<not> hasPool then Inl (ErrJobs ''jobs: nil connection pool'')
      else Inr \<lparr>q_hasNotifier = notifier, q_backoff = (case backoff of None \<Rightarrow> defaultBackoff | Some f \<Rightarrow> f)\<rparr>)"

section \<open>Statements\<close>

text \<open>The CHECK constraints of the table.\<close>

definition checkRow :: "Job \<Rightarrow> bool" where
  "checkRow j \<longleftrightarrow> jb_Kind j \<noteq> [] \<and> 0 \<le> jb_Attempts j \<and> 1 \<le> jb_MaxAttempts j \<and> jb_DedupeKey j \<noteq> Some [] \<and>
     (case jb_FinishedAt j of None \<Rightarrow> True | Some f \<Rightarrow> (case jb_StartedAt j of None \<Rightarrow> True | Some s \<Rightarrow> s \<le> f)) \<and>
     (jb_Status j = StatusRunning \<longrightarrow> jb_ClaimedBy j \<noteq> None \<and> jb_ClaimedAt j \<noteq> None) \<and>
     (Status_Terminal (jb_Status j) \<longrightarrow> jb_FinishedAt j \<noteq> None) \<and>
     (jb_Status j = StatusFailed \<longrightarrow> jb_LastError j \<noteq> None)"

definition active :: "Job \<Rightarrow> bool" where
  "active j \<longleftrightarrow> jb_Status j = StatusQueued \<or> jb_Status j = StatusRunning"

definition owned :: "int \<Rightarrow> string \<Rightarrow> Job \<Rightarrow> bool" where
  "owned jobID workerID j \<longleftrightarrow> jb_ID j = jobID \<and> jb_ClaimedBy j = Some workerID \<and> jb_Status j = StatusRunning"

definition setRow :: "Job \<Rightarrow> JobStore \<Rightarrow> JobStore" where
  "setRow j s = s\<lparr>st_rows := map (\<lambda>r. if jb_ID r = jb_ID j then j else r) (st_rows s)\<rparr>"

text \<open>\<open>UPDATE \<dots> WHERE \<dots> RETURNING\<close> with the trigger on \<open>updated_at\<close>: no row, the updated row, or a violated constraint.\<close>

definition updateRow :: "instant \<Rightarrow> (Job \<Rightarrow> bool) \<Rightarrow> (Job \<Rightarrow> Job) \<Rightarrow> JobStore \<Rightarrow> jobs_error + (JobStore \<times> Job) option" where
  "updateRow now P f s =
     (case find P (st_rows s) of
        None \<Rightarrow> Inr None
      | Some j \<Rightarrow>
          (let j1 = (f j)\<lparr>jb_UpdatedAt := now\<rparr> in if checkRow j1 then Inr (Some (setRow j1 s, j1)) else Inl ErrDatabase))"

definition jobs_notify :: "Queue \<Rightarrow> JobEvent \<Rightarrow> JobStore \<Rightarrow> JobStore" where
  "jobs_notify q ev s = (if q_hasNotifier q then s\<lparr>st_events := st_events s @ [ev]\<rparr> else s)"

definition jobs_audit :: "string \<Rightarrow> string \<Rightarrow> int \<Rightarrow> JobStore \<Rightarrow> JobStore" where
  "jobs_audit actor action jobID s =
     s\<lparr>st_audit := st_audit s @ [\<lparr>ar_Actor = (if actor = [] then ''system'' else actor), ar_Action = action, ar_JobID = jobID\<rparr>]\<rparr>"

definition truncateErr :: "string \<Rightarrow> string" where
  "truncateErr msg = (if maxErrorLen < length msg then take maxErrorLen msg @ CHR 0x0A # ''... (truncated)'' else msg)"

definition marshalObject :: "string option \<Rightarrow> string" where
  "marshalObject v = (case v of None \<Rightarrow> ''{}'' | Some t \<Rightarrow> t)"

definition nullIfEmpty :: "string \<Rightarrow> string option" where
  "nullIfEmpty t = (if t = [] then None else Some t)"

section \<open>Enqueue\<close>

record EnqueueParams =
  ep_Kind :: string
  ep_Payload :: "string option"
  ep_DedupeKey :: string
  ep_Priority :: int
  ep_RunAt :: gotime
  ep_MaxAttempts :: int
  ep_Actor :: string

definition newRow :: "instant \<Rightarrow> EnqueueParams \<Rightarrow> string \<Rightarrow> instant option \<Rightarrow> int \<Rightarrow> string option \<Rightarrow> int \<Rightarrow> Job" where
  "newRow now p payload runAt maxAttempts dedupe newID =
     \<lparr>jb_ID = newID, jb_Kind = ep_Kind p, jb_Payload = payload, jb_Status = StatusQueued, jb_Priority = ep_Priority p,
      jb_RunAt = (case runAt of None \<Rightarrow> now | Some t \<Rightarrow> t), jb_Attempts = 0, jb_MaxAttempts = maxAttempts, jb_DedupeKey = dedupe,
      jb_ClaimedBy = None, jb_ClaimedAt = None, jb_HeartbeatAt = None, jb_StartedAt = None, jb_FinishedAt = None,
      jb_LastError = None, jb_Progress = None, jb_CancelRequested = False, jb_Result = None, jb_CreatedAt = now, jb_UpdatedAt = now\<rparr>"

definition activeWith :: "string option \<Rightarrow> Job \<Rightarrow> bool" where
  "activeWith dedupe j \<longleftrightarrow> dedupe \<noteq> None \<and> jb_DedupeKey j = dedupe \<and> active j"

text \<open>A conflicting insert still consumes an identity value.\<close>

definition tryInsert :: "bool \<Rightarrow> instant \<Rightarrow> EnqueueParams \<Rightarrow> string \<Rightarrow> instant option \<Rightarrow> int \<Rightarrow> string option \<Rightarrow> JobStore \<Rightarrow>
    JobStore \<times> (jobs_error + Job option)" where
  "tryInsert db now p payload runAt maxAttempts dedupe s =
     (if \<not> db then (s, Inl ErrDatabase)
      else
        (let j = newRow now p payload runAt maxAttempts dedupe (st_nextID s); s1 = s\<lparr>st_nextID := st_nextID s + 1\<rparr> in
         if \<not> checkRow j then (s, Inl ErrDatabase)
         else if list_ex (activeWith dedupe) (st_rows s) then (s1, Inr None)
         else (jobs_audit (ep_Actor p) ''job.enqueued'' (jb_ID j) (s1\<lparr>st_rows := st_rows s1 @ [j]\<rparr>), Inr (Some j))))"

text \<open>\<open>SELECT \<dots> ORDER BY id DESC LIMIT 1\<close> for the active row with the key.\<close>

definition selectActive :: "string \<Rightarrow> JobStore \<Rightarrow> Job option" where
  "selectActive key s =
     (case sort_key (\<lambda>j. - jb_ID j) (filter (activeWith (Some key)) (st_rows s)) of [] \<Rightarrow> None | j # _ \<Rightarrow> Some j)"

text \<open>Between the insert and the lookup of a round other connections may act (\<open>others\<close>); \<open>db\<close> tells for each query
  whether it was answered.\<close>

fun enqueueLoop :: "nat \<Rightarrow> Queue \<Rightarrow> (nat \<Rightarrow> bool) \<Rightarrow> (nat \<Rightarrow> JobStore \<Rightarrow> JobStore) \<Rightarrow> instant \<Rightarrow> EnqueueParams \<Rightarrow> string \<Rightarrow>
    instant option \<Rightarrow> int \<Rightarrow> string option \<Rightarrow> JobStore \<Rightarrow> JobStore \<times> (jobs_error + Job \<times> bool)" where
  "enqueueLoop 0 q db others now p payload runAt maxAttempts dedupe s = (s, Inl (ErrJobs ''dedupe race not settled''))"
| "enqueueLoop (Suc n) q db others now p payload runAt maxAttempts dedupe s =
     (case tryInsert (db (2 * n + 1)) now p payload runAt maxAttempts dedupe s of
        (s1, Inl err) \<Rightarrow> (s1, Inl err)
      | (s1, Inr (Some j)) \<Rightarrow>
          (jobs_notify q \<lparr>je_JobID = jb_ID j, je_Kind = jb_Kind j, je_Event = ''enqueued'', je_Status = jb_Status j, je_Worker = [], je_Error = []\<rparr> s1,
           Inr (j, False))
      | (s1, Inr None) \<Rightarrow>
          (let s2 = others n s1 in
           if \<not> db (2 * n) then (s2, Inl ErrDatabase)
           else case selectActive (ep_DedupeKey p) s2 of
             Some j \<Rightarrow> (s2, Inr (j, True))
           | None \<Rightarrow> enqueueLoop n q db others now p payload runAt maxAttempts dedupe s2))"

definition Queue_Enqueue :: "Queue \<Rightarrow> (nat \<Rightarrow> bool) \<Rightarrow> (nat \<Rightarrow> JobStore \<Rightarrow> JobStore) \<Rightarrow> instant \<Rightarrow> EnqueueParams \<Rightarrow> JobStore \<Rightarrow>
    JobStore \<times> (jobs_error + Job \<times> bool)" where
  "Queue_Enqueue q db others now p s =
     (if ep_Kind p = [] then (s, Inl (ErrJobs ''jobs: enqueue: empty kind''))
      else enqueueLoop dedupeRaces q db others now p (marshalObject (ep_Payload p))
             (if IsZero (ep_RunAt p) then None else Some (t_ns (ep_RunAt p)))
             (if ep_MaxAttempts p < 1 then 1 else ep_MaxAttempts p)
             (if ep_DedupeKey p = [] then None else Some (ep_DedupeKey p)) s)"

section \<open>Claim, heartbeat, progress\<close>

definition claimable :: "instant \<Rightarrow> Job \<Rightarrow> bool" where
  "claimable now j \<longleftrightarrow> jb_Status j = StatusQueued \<and> jb_RunAt j \<le> now"

definition claimKey :: "Job \<Rightarrow> int \<times> instant \<times> int" where
  "claimKey j = (- jb_Priority j, jb_RunAt j, jb_ID j)"

definition claimNext :: "instant \<Rightarrow> (int \<Rightarrow> bool) \<Rightarrow> Job list \<Rightarrow> Job option" where
  "claimNext now locked rows =
     (case sort_key claimKey (filter (\<lambda>j. claimable now j \<and> \<not> locked (jb_ID j)) rows) of [] \<Rightarrow> None | j # _ \<Rightarrow> Some j)"

definition claimRow :: "instant \<Rightarrow> string \<Rightarrow> Job \<Rightarrow> Job" where
  "claimRow now workerID j = j\<lparr>jb_Status := StatusRunning, jb_ClaimedBy := Some workerID, jb_ClaimedAt := Some now,
     jb_StartedAt := Some now, jb_HeartbeatAt := Some now, jb_Attempts := jb_Attempts j + 1\<rparr>"

definition Queue_Claim :: "Queue \<Rightarrow> bool \<Rightarrow> instant \<Rightarrow> (int \<Rightarrow> bool) \<Rightarrow> string \<Rightarrow> JobStore \<Rightarrow> JobStore \<times> (jobs_error + Job)" where
  "Queue_Claim q db now locked workerID s =
     (if workerID = [] then (s, Inl (ErrJobs ''jobs: claim: empty worker id''))
      else if \<not> db then (s, Inl ErrDatabase)
      else case claimNext now locked (st_rows s) of
        None \<Rightarrow> (s, Inl ErrNoJob)
      | Some j0 \<Rightarrow>
          (case updateRow now (\<lambda>j. jb_ID j = jb_ID j0) (claimRow now workerID) s of
             Inl err \<Rightarrow> (s, Inl err)
           | Inr None \<Rightarrow> (s, Inl ErrNoJob)
           | Inr (Some (s1, j)) \<Rightarrow>
               (jobs_notify q \<lparr>je_JobID = jb_ID j, je_Kind = jb_Kind j, je_Event = ''claimed'', je_Status = StatusRunning,
                  je_Worker = workerID, je_Error = []\<rparr> (jobs_audit workerID ''job.claimed'' (jb_ID j) s1), Inr j)))"

definition Queue_Heartbeat :: "bool \<Rightarrow> instant \<Rightarrow> int \<Rightarrow> string \<Rightarrow> JobStore \<Rightarrow> JobStore \<times> (jobs_error + bool)" where
  "Queue_Heartbeat db now jobID workerID s =
     (if \<not> db then (s, Inl ErrDatabase)
      else case updateRow now (owned jobID workerID) (\<lambda>j. j\<lparr>jb_HeartbeatAt := Some now\<rparr>) s of
        Inl err \<Rightarrow> (s, Inl err)
      | Inr None \<Rightarrow> (s, Inl ErrLostClaim)
      | Inr (Some (s1, j)) \<Rightarrow> (s1, Inr (jb_CancelRequested j)))"

definition Queue_ReportProgress :: "Queue \<Rightarrow> bool \<Rightarrow> instant \<Rightarrow> int \<Rightarrow> string \<Rightarrow> string option \<Rightarrow> JobStore \<Rightarrow> JobStore \<times> (jobs_error + bool)" where
  "Queue_ReportProgress q db now jobID workerID progress s =
     (if \<not> db then (s, Inl ErrDatabase)
      else case updateRow now (owned jobID workerID)
                  (\<lambda>j. j\<lparr>jb_Progress := Some (marshalObject progress), jb_HeartbeatAt := Some now\<rparr>) s of
        Inl err \<Rightarrow> (s, Inl err)
      | Inr None \<Rightarrow> (s, Inl ErrLostClaim)
      | Inr (Some (s1, j)) \<Rightarrow>
          (jobs_notify q \<lparr>je_JobID = jobID, je_Kind = jb_Kind j, je_Event = ''progress'', je_Status = StatusRunning, je_Worker = workerID,
             je_Error = []\<rparr> s1, Inr (jb_CancelRequested j)))"

section \<open>Finishing an owned job\<close>

definition finishOwned :: "Queue \<Rightarrow> bool \<Rightarrow> instant \<Rightarrow> int \<Rightarrow> string \<Rightarrow> string \<Rightarrow> string \<Rightarrow> (Job \<Rightarrow> Job) \<Rightarrow> JobStore \<Rightarrow>
    JobStore \<times> (jobs_error + Job)" where
  "finishOwned q db now jobID workerID action event f s =
     (if \<not> db then (s, Inl ErrDatabase)
      else case updateRow now (owned jobID workerID) f s of
        Inl err \<Rightarrow> (s, Inl err)
      | Inr None \<Rightarrow> (s, Inl ErrLostClaim)
      | Inr (Some (s1, j)) \<Rightarrow>
          (jobs_notify q \<lparr>je_JobID = jb_ID j, je_Kind = jb_Kind j, je_Event = event, je_Status = jb_Status j, je_Worker = workerID,
             je_Error = (case jb_LastError j of None \<Rightarrow> [] | Some t \<Rightarrow> t)\<rparr> (jobs_audit workerID action (jb_ID j) s1), Inr j))"

definition succeedRow :: "instant \<Rightarrow> string \<Rightarrow> Job \<Rightarrow> Job" where
  "succeedRow now blob j = j\<lparr>jb_Status := StatusSucceeded, jb_FinishedAt := Some now, jb_Result := Some blob\<rparr>"

definition Queue_Succeed :: "Queue \<Rightarrow> bool \<Rightarrow> instant \<Rightarrow> int \<Rightarrow> string \<Rightarrow> string option \<Rightarrow> JobStore \<Rightarrow> JobStore \<times> (jobs_error + Job)" where
  "Queue_Succeed q db now jobID workerID result s =
     finishOwned q db now jobID workerID ''job.succeeded'' ''succeeded'' (succeedRow now (marshalObject result)) s"

definition canceledRow :: "instant \<Rightarrow> string option \<Rightarrow> Job \<Rightarrow> Job" where
  "canceledRow now err j = j\<lparr>jb_Status := StatusCanceled, jb_FinishedAt := Some now, jb_LastError := err\<rparr>"

definition Queue_MarkCanceled :: "Queue \<Rightarrow> bool \<Rightarrow> instant \<Rightarrow> int \<Rightarrow> string \<Rightarrow> string \<Rightarrow> JobStore \<Rightarrow> JobStore \<times> (jobs_error + Job)" where
  "Queue_MarkCanceled q db now jobID workerID reason s =
     finishOwned q db now jobID workerID ''job.canceled'' ''canceled'' (canceledRow now (nullIfEmpty (truncateErr reason))) s"

definition requeueRow :: "instant \<Rightarrow> string option \<Rightarrow> Job \<Rightarrow> Job" where
  "requeueRow runAt err j = j\<lparr>jb_Status := StatusQueued, jb_RunAt := runAt, jb_ClaimedBy := None, jb_ClaimedAt := None,
     jb_HeartbeatAt := None, jb_StartedAt := None, jb_LastError := err\<rparr>"

definition Queue_Release :: "Queue \<Rightarrow> bool \<Rightarrow> instant \<Rightarrow> int \<Rightarrow> string \<Rightarrow> string \<Rightarrow> JobStore \<Rightarrow> JobStore \<times> (jobs_error + Job)" where
  "Queue_Release q db now jobID workerID reason s =
     finishOwned q db now jobID workerID ''job.released'' ''released''
       (\<lambda>j. (requeueRow now (nullIfEmpty (truncateErr reason)) j)\<lparr>jb_Attempts := max (jb_Attempts j - 1) 0\<rparr>) s"

definition failedRow :: "instant \<Rightarrow> string \<Rightarrow> Job \<Rightarrow> Job" where
  "failedRow now err j = j\<lparr>jb_Status := StatusFailed, jb_FinishedAt := Some now, jb_LastError := Some err\<rparr>"

definition Queue_Fail :: "Queue \<Rightarrow> bool \<Rightarrow> instant \<Rightarrow> int \<Rightarrow> string \<Rightarrow> string \<Rightarrow> JobStore \<Rightarrow> JobStore \<times> (jobs_error + Job)" where
  "Queue_Fail q db now jobID workerID jobErr s =
     (let err = truncateErr (if jobErr = [] then ''unknown error'' else jobErr) in
      if \<not> db then (s, Inl ErrDatabase)
      else case find (owned jobID workerID) (st_rows s) of
        None \<Rightarrow> (s, Inl ErrLostClaim)
      | Some j0 \<Rightarrow>
          (let retry = jb_Attempts j0 < jb_MaxAttempts j0;
               f = (if retry then requeueRow (now + q_backoff q (jb_Attempts j0)) (Some err) else failedRow now err)
           in case updateRow now (owned jobID workerID) f s of
                Inl e \<Rightarrow> (s, Inl e)
              | Inr None \<Rightarrow> (s, Inl ErrDatabase)
              | Inr (Some (s1, j)) \<Rightarrow>
                  (jobs_notify q \<lparr>je_JobID = jb_ID j, je_Kind = jb_Kind j, je_Event = (if retry then ''requeued'' else ''failed''),
                     je_Status = jb_Status j, je_Worker = workerID, je_Error = err\<rparr>
                     (jobs_audit workerID (if retry then ''job.requeued'' else ''job.failed'') (jb_ID j) s1), Inr j)))"

section \<open>Cancel\<close>

datatype CancelOutcome = CancelDone | CancelRequested | CancelAlreadyTerminal

definition nonEmpty :: "string \<Rightarrow> string \<Rightarrow> string" where
  "nonEmpty s def = (if s = [] then def else s)"

definition cancelEvent :: "Job \<Rightarrow> string \<Rightarrow> Status \<Rightarrow> string \<Rightarrow> JobEvent" where
  "cancelEvent j event status reason =
     \<lparr>je_JobID = jb_ID j, je_Kind = jb_Kind j, je_Event = event, je_Status = status, je_Worker = [], je_Error = reason\<rparr>"

definition Queue_Cancel :: "Queue \<Rightarrow> bool \<Rightarrow> instant \<Rightarrow> int \<Rightarrow> string \<Rightarrow> string \<Rightarrow> JobStore \<Rightarrow> JobStore \<times> (jobs_error + CancelOutcome \<times> Job)" where
  "Queue_Cancel q db now jobID actor reason0 s =
     (if \<not> db then (s, Inl ErrDatabase)
      else case find (\<lambda>j. jb_ID j = jobID) (st_rows s) of
        None \<Rightarrow> (s, Inl ErrNotFound)
      | Some j0 \<Rightarrow>
          (let reason = truncateErr (if reason0 = [] then ''canceled by '' @ nonEmpty actor ''system'' else reason0) in
           case jb_Status j0 of
             StatusQueued \<Rightarrow>
               (case updateRow now (\<lambda>j. jb_ID j = jobID) (canceledRow now (Some reason)) s of
                  Inr (Some (s1, j)) \<Rightarrow>
                    (jobs_notify q (cancelEvent j ''canceled'' StatusCanceled reason) (jobs_audit actor ''job.canceled'' jobID s1), Inr (CancelDone, j))
                | _ \<Rightarrow> (s, Inl ErrDatabase))
           | StatusRunning \<Rightarrow>
               (case updateRow now (\<lambda>j. jb_ID j = jobID) (\<lambda>j. j\<lparr>jb_CancelRequested := True\<rparr>) s of
                  Inr (Some (s1, j)) \<Rightarrow>
                    (if jb_CancelRequested j0 then s1
                     else jobs_notify q (cancelEvent j ''cancel_requested'' StatusRunning reason) (jobs_audit actor ''job.cancel_requested'' jobID s1),
                     Inr (CancelRequested, j))
                | _ \<Rightarrow> (s, Inl ErrDatabase))
           | _ \<Rightarrow> (s, Inr (CancelAlreadyTerminal, j0))))"

section \<open>Recovery of stale claims\<close>

record ReapStats =
  rs_Requeued :: nat
  rs_Failed :: nat
  rs_Canceled :: nat

definition ReapStats_Total :: "ReapStats \<Rightarrow> nat" where
  "ReapStats_Total s = rs_Requeued s + rs_Failed s + rs_Canceled s"

definition addStats :: "ReapStats \<Rightarrow> ReapStats \<Rightarrow> ReapStats" where
  "addStats a b = \<lparr>rs_Requeued = rs_Requeued a + rs_Requeued b, rs_Failed = rs_Failed a + rs_Failed b, rs_Canceled = rs_Canceled a + rs_Canceled b\<rparr>"

definition noStats :: ReapStats where
  "noStats = \<lparr>rs_Requeued = 0, rs_Failed = 0, rs_Canceled = 0\<rparr>"

definition staleRow :: "instant \<Rightarrow> int \<Rightarrow> Job \<Rightarrow> bool" where
  "staleRow now staleAfter j \<longleftrightarrow> jb_Status j = StatusRunning \<and> (case jb_HeartbeatAt j of None \<Rightarrow> False | Some h \<Rightarrow> h < now - staleAfter)"

definition staleRows :: "instant \<Rightarrow> int \<Rightarrow> (int \<Rightarrow> bool) \<Rightarrow> Job list \<Rightarrow> Job list" where
  "staleRows now staleAfter locked rows =
     sort_key (\<lambda>j. case jb_HeartbeatAt j of None \<Rightarrow> 0 | Some h \<Rightarrow> h)
       (filter (\<lambda>j. staleRow now staleAfter j \<and> \<not> locked (jb_ID j)) rows)"

definition deadReason :: "Job \<Rightarrow> string" where
  "deadReason j = ''worker heartbeat expired (claimed_by='' @ (case jb_ClaimedBy j of None \<Rightarrow> ''unknown'' | Some w \<Rightarrow> w) @ '')''"

definition reapRow :: "instant \<Rightarrow> Job \<Rightarrow> Job" where
  "reapRow now j =
     (if jb_CancelRequested j then canceledRow now (Some (''cancel requested; '' @ deadReason j)) j
      else if jb_MaxAttempts j \<le> jb_Attempts j then failedRow now (deadReason j) j
      else requeueRow now (Some (deadReason j)) j)"

definition reapEvent :: "Job \<Rightarrow> JobEvent" where
  "reapEvent j =
     (if jb_CancelRequested j then cancelEvent j ''canceled'' StatusCanceled (deadReason j)
      else if jb_MaxAttempts j \<le> jb_Attempts j then cancelEvent j ''failed'' StatusFailed (deadReason j)
      else cancelEvent j ''reaped'' StatusQueued (deadReason j))"

definition reapAction :: "Job \<Rightarrow> string" where
  "reapAction j =
     (if jb_CancelRequested j then ''job.canceled'' else if jb_MaxAttempts j \<le> jb_Attempts j then ''job.failed'' else ''job.reaped'')"

definition reapCount :: "Job \<Rightarrow> ReapStats" where
  "reapCount j =
     (if jb_CancelRequested j then noStats\<lparr>rs_Canceled := 1\<rparr>
      else if jb_MaxAttempts j \<le> jb_Attempts j then noStats\<lparr>rs_Failed := 1\<rparr> else noStats\<lparr>rs_Requeued := 1\<rparr>)"

fun reapEach :: "instant \<Rightarrow> Job list \<Rightarrow> JobStore \<Rightarrow> ReapStats \<Rightarrow> jobs_error + JobStore \<times> ReapStats" where
  "reapEach now [] s stats = Inr (s, stats)"
| "reapEach now (j # js) s stats =
     (case updateRow now (\<lambda>r. jb_ID r = jb_ID j) (\<lambda>_. reapRow now j) s of
        Inl err \<Rightarrow> Inl err
      | Inr None \<Rightarrow> reapEach now js (jobs_audit ''reaper'' (reapAction j) (jb_ID j) s) (addStats stats (reapCount j))
      | Inr (Some (s1, _)) \<Rightarrow> reapEach now js (jobs_audit ''reaper'' (reapAction j) (jb_ID j) s1) (addStats stats (reapCount j)))"

definition notifyAll :: "Queue \<Rightarrow> JobEvent list \<Rightarrow> JobStore \<Rightarrow> JobStore" where
  "notifyAll q evs s = fold (jobs_notify q) evs s"

definition Queue_reapBatch :: "Queue \<Rightarrow> bool \<Rightarrow> instant \<Rightarrow> (int \<Rightarrow> bool) \<Rightarrow> int \<Rightarrow> nat \<Rightarrow> JobStore \<Rightarrow> JobStore \<times> (jobs_error + nat \<times> ReapStats)" where
  "Queue_reapBatch q db now locked staleAfter limit s =
     (if \<not> db then (s, Inl ErrDatabase)
      else let found = take limit (staleRows now staleAfter locked (st_rows s)) in
        if found = [] then (s, Inr (0, noStats))
        else case reapEach now found s noStats of
          Inl err \<Rightarrow> (s, Inl err)
        | Inr (s1, stats) \<Rightarrow> (notifyAll q (map reapEvent found) s1, Inr (length found, stats)))"

definition reapBatchSize :: nat where "reapBatchSize = 100"

definition runningCount :: "JobStore \<Rightarrow> nat" where
  "runningCount s = length (filter (\<lambda>j. jb_Status j = StatusRunning) (st_rows s))"


lemma updateRow_Some:
  assumes "updateRow now P f s = Inr (Some (s1, j1))"
  obtains j where "find P (st_rows s) = Some j" "j1 = (f j)\<lparr>jb_UpdatedAt := now\<rparr>" "checkRow j1" "s1 = setRow j1 s"
  using assms by (auto simp: updateRow_def Let_def split: option.splits if_splits)

lemma store_aux [simp]:
  "st_rows (jobs_notify q ev s) = st_rows s" "st_nextID (jobs_notify q ev s) = st_nextID s"
  "st_rows (jobs_audit a b i s) = st_rows s" "st_nextID (jobs_audit a b i s) = st_nextID s"
  "st_rows (setRow j s) = map (\<lambda>r. if jb_ID r = jb_ID j then j else r) (st_rows s)" "st_nextID (setRow j s) = st_nextID s"
  by (simp_all add: jobs_notify_def jobs_audit_def setRow_def)

lemma notifyAll_rows [simp]: "st_rows (notifyAll q evs s) = st_rows s" "st_nextID (notifyAll q evs s) = st_nextID s"
  unfolding notifyAll_def by (induction evs arbitrary: s) auto

lemma staleRows_set: "set (staleRows now sa locked rows) = {j \<in> set rows. staleRow now sa j \<and> \<not> locked (jb_ID j)}"
  by (simp add: staleRows_def)

lemma reapRow_sel [simp]: "jb_ID (reapRow now j) = jb_ID j" "jb_Status (reapRow now j) \<noteq> StatusRunning"
  by (simp_all add: reapRow_def canceledRow_def failedRow_def requeueRow_def)

lemma count_update:
  assumes "jb_Status j' \<noteq> StatusRunning"
  shows "length (filter (\<lambda>r. jb_Status r = StatusRunning) (map (\<lambda>r. if jb_ID r = jb_ID j' then j' else r) rows)) \<le>
      length (filter (\<lambda>r. jb_Status r = StatusRunning) rows)"
    and "r \<in> set rows \<Longrightarrow> jb_ID r = jb_ID j' \<Longrightarrow> jb_Status r = StatusRunning \<Longrightarrow>
      length (filter (\<lambda>r. jb_Status r = StatusRunning) (map (\<lambda>r. if jb_ID r = jb_ID j' then j' else r) rows)) <
      length (filter (\<lambda>r. jb_Status r = StatusRunning) rows)"
proof -
  show le: "length (filter (\<lambda>r. jb_Status r = StatusRunning) (map (\<lambda>r. if jb_ID r = jb_ID j' then j' else r) rows)) \<le>
      length (filter (\<lambda>r. jb_Status r = StatusRunning) rows)" for rows
    using assms by (induction rows) auto
  show "r \<in> set rows \<Longrightarrow> jb_ID r = jb_ID j' \<Longrightarrow> jb_Status r = StatusRunning \<Longrightarrow>
      length (filter (\<lambda>r. jb_Status r = StatusRunning) (map (\<lambda>r. if jb_ID r = jb_ID j' then j' else r) rows)) <
      length (filter (\<lambda>r. jb_Status r = StatusRunning) rows)"
    using assms le by (induction rows) (auto simp: less_Suc_eq_le)
qed

lemma reapEach_count: "reapEach now js s stats = Inr (s1, stats1) \<Longrightarrow> runningCount s1 \<le> runningCount s"
proof (induction now js s stats rule: reapEach.induct)
  case (2 now j js s stats)
  show ?case
  proof (cases "updateRow now (\<lambda>r. jb_ID r = jb_ID j) (\<lambda>_. reapRow now j) s")
    case (Inr o1)
    then show ?thesis
    proof (cases o1)
      case None
      then show ?thesis using 2(1) [OF Inr] 2(3) Inr by (simp add: runningCount_def)
    next
      case (Some p)
      obtain s2 j2 where p: "p = (s2, j2)" by fastforce
      have u: "s2 = setRow j2 s" "jb_Status j2 \<noteq> StatusRunning" using Inr Some p by (auto elim!: updateRow_Some)
      then show ?thesis using 2(2) [OF Inr Some p [symmetric]] 2(3) Inr Some p count_update(1) [OF u(2), of "st_rows s"]
        by (simp add: runningCount_def)
    qed
  qed (use 2(3) in simp)
qed simp

lemma reapEach_count_less:
  assumes "reapEach now (j # js) s stats = Inr (s1, stats1)" "j \<in> set (st_rows s)" "jb_Status j = StatusRunning"
  shows "runningCount s1 < runningCount s"
proof -
  obtain r where "find (\<lambda>r. jb_ID r = jb_ID j) (st_rows s) = Some r"
    using assms(2) by (cases "find (\<lambda>r. jb_ID r = jb_ID j) (st_rows s)") (auto simp: find_None_iff)
  then obtain s2 j2 where u: "updateRow now (\<lambda>r. jb_ID r = jb_ID j) (\<lambda>_. reapRow now j) s = Inr (Some (s2, j2))"
    using assms(1) by (auto simp: updateRow_def Let_def split: if_splits)
  then have s2: "s2 = setRow j2 s" "jb_Status j2 \<noteq> StatusRunning" "jb_ID j2 = jb_ID j" by (auto elim!: updateRow_Some)
  have "runningCount s1 \<le> runningCount s2" using assms(1) u reapEach_count [of now js _ _ s1 stats1] by (fastforce simp: runningCount_def)
  also have "\<dots> < runningCount s" using count_update(2) [OF s2(2) assms(2) s2(3) [symmetric] assms(3)] by (simp add: runningCount_def s2(1))
  finally show ?thesis .
qed

lemma reapBatch_count:
  assumes "Queue_reapBatch q db now locked sa limit s = (s1, Inr (n, st))" "0 < n"
  shows "runningCount s1 < runningCount s"
proof -
  let ?f = "take limit (staleRows now sa locked (st_rows s))"
  obtain j js where f: "?f = j # js" using assms by (cases ?f) (auto simp: Queue_reapBatch_def Let_def split: if_splits)
  then have "j \<in> set (staleRows now sa locked (st_rows s))" by (metis in_set_takeD list.set_intros(1))
  then have j: "j \<in> set (st_rows s)" "jb_Status j = StatusRunning" by (auto simp: staleRows_set staleRow_def)
  obtain s2 st2 where "reapEach now (j # js) s noStats = Inr (s2, st2)" "runningCount s1 = runningCount s2"
    using assms(1) f by (auto simp: Queue_reapBatch_def Let_def runningCount_def split: if_splits sum.splits simp del: reapEach.simps)
  then show ?thesis using reapEach_count_less [OF _ j] by simp
qed

text \<open>The batches of one call; \<open>k\<close> counts them, and each has its own time and locks.\<close>

function reapLoop :: "Queue \<Rightarrow> (nat \<Rightarrow> bool) \<Rightarrow> (nat \<Rightarrow> instant) \<Rightarrow> (nat \<Rightarrow> int \<Rightarrow> bool) \<Rightarrow> int \<Rightarrow> nat \<Rightarrow> ReapStats \<Rightarrow> JobStore \<Rightarrow>
    JobStore \<times> ReapStats \<times> jobs_error option" where
  "reapLoop q db now locked sa k stats s =
     (case Queue_reapBatch q (db k) (now k) (locked k) sa reapBatchSize s of
        (s1, Inl err) \<Rightarrow> (s1, stats, Some err)
      | (s1, Inr (n, batch)) \<Rightarrow>
          if n < reapBatchSize then (s1, addStats stats batch, None)
          else reapLoop q db now locked sa (Suc k) (addStats stats batch) s1)"
  by pat_completeness auto
termination
  by (relation "measure (\<lambda>(q, db, now, locked, sa, k, stats, s). runningCount s)")
     (auto simp: reapBatchSize_def dest!: reapBatch_count [OF sym])

definition Queue_ReapStale :: "Queue \<Rightarrow> (nat \<Rightarrow> bool) \<Rightarrow> (nat \<Rightarrow> instant) \<Rightarrow> (nat \<Rightarrow> int \<Rightarrow> bool) \<Rightarrow> int \<Rightarrow> JobStore \<Rightarrow>
    JobStore \<times> ReapStats \<times> jobs_error option" where
  "Queue_ReapStale q db now locked staleAfter s =
     (if staleAfter \<le> 0 then (s, noStats, Some (ErrJobs ''jobs: reap: staleAfter must be > 0''))
      else reapLoop q db now locked staleAfter 0 noStats s)"

section \<open>Reads\<close>

definition Queue_Get :: "bool \<Rightarrow> int \<Rightarrow> JobStore \<Rightarrow> jobs_error + Job" where
  "Queue_Get db jobID s =
     (if \<not> db then Inl ErrDatabase
      else case find (\<lambda>j. jb_ID j = jobID) (st_rows s) of None \<Rightarrow> Inl ErrNotFound | Some j \<Rightarrow> Inr j)"

record ListFilter =
  lf_Kind :: string
  lf_Status :: "Status option"
  lf_Limit :: int

definition Queue_List :: "bool \<Rightarrow> ListFilter \<Rightarrow> JobStore \<Rightarrow> jobs_error + Job list" where
  "Queue_List db f s =
     (if \<not> db then Inl ErrDatabase
      else Inr (take (nat (if lf_Limit f \<le> 0 then 50 else lf_Limit f))
        (sort_key (\<lambda>j. - jb_ID j) (filter (\<lambda>j. (lf_Kind f = [] \<or> jb_Kind j = lf_Kind f) \<and>
           (case lf_Status f of None \<Rightarrow> True | Some st \<Rightarrow> jb_Status j = st)) (st_rows s)))))"

end
