(* ===== verification/Jobs_Lifecycle.thy ===== *)
theory Jobs_Lifecycle
  imports Jobs_Queue
begin

text \<open>
  The lifecycle of a job, abstractly, and the queue as an implementation of it: \<open>lifecycle\<close> says which changes of one
  row are allowed, \<open>queue_step\<close> is one statement of the queue run by anyone at any time, and every such step
  changes rows along the lifecycle or appends a fresh one.  The invariant of the table and what is kept of finished
  jobs follow from the abstract relation.
\<close>

section \<open>The lifecycle\<close>

definition sameJob :: "Job \<Rightarrow> Job \<Rightarrow> bool" where
  "sameJob j k \<longleftrightarrow> jb_ID k = jb_ID j \<and> jb_Kind k = jb_Kind j \<and> jb_Payload k = jb_Payload j \<and> jb_MaxAttempts k = jb_MaxAttempts j \<and>
     jb_DedupeKey k = jb_DedupeKey j \<and> jb_Priority k = jb_Priority j"

inductive lifecycle :: "Job \<Rightarrow> Job \<Rightarrow> bool" where
  claimed: "sameJob j k \<Longrightarrow> jb_Status j = StatusQueued \<Longrightarrow> jb_Status k = StatusRunning \<Longrightarrow> jb_Attempts k = jb_Attempts j + 1 \<Longrightarrow> jb_FinishedAt k = jb_FinishedAt j \<Longrightarrow>
    jb_ClaimedBy k \<noteq> None \<Longrightarrow> jb_HeartbeatAt k \<noteq> None \<Longrightarrow> lifecycle j k"
| touched: "sameJob j k \<Longrightarrow> jb_Status j = StatusRunning \<Longrightarrow> jb_Status k = StatusRunning \<Longrightarrow> jb_Attempts k = jb_Attempts j \<Longrightarrow> jb_FinishedAt k = jb_FinishedAt j \<Longrightarrow>
    jb_ClaimedBy k = jb_ClaimedBy j \<Longrightarrow> jb_HeartbeatAt k = jb_HeartbeatAt j \<or> jb_HeartbeatAt k \<noteq> None \<Longrightarrow> lifecycle j k"
| finished: "sameJob j k \<Longrightarrow> active j \<Longrightarrow> Status_Terminal (jb_Status k) \<Longrightarrow> jb_Attempts k = jb_Attempts j \<Longrightarrow> lifecycle j k"
| requeued: "sameJob j k \<Longrightarrow> jb_Status j = StatusRunning \<Longrightarrow> jb_Status k = StatusQueued \<Longrightarrow> jb_Attempts k = jb_Attempts j \<Longrightarrow> jb_FinishedAt k = jb_FinishedAt j \<Longrightarrow>
    jb_Attempts j < jb_MaxAttempts j \<Longrightarrow> lifecycle j k"
| released: "sameJob j k \<Longrightarrow> jb_Status j = StatusRunning \<Longrightarrow> jb_Status k = StatusQueued \<Longrightarrow> jb_Attempts k = max (jb_Attempts j - 1) 0 \<Longrightarrow> jb_FinishedAt k = jb_FinishedAt j \<Longrightarrow> lifecycle j k"

inductive_cases lifecycle_E: "lifecycle j k"

definition rowOk :: "Job \<Rightarrow> bool" where
  "rowOk j \<longleftrightarrow> checkRow j \<and> jb_Attempts j \<le> jb_MaxAttempts j \<and> (jb_Status j = StatusQueued \<longrightarrow> jb_Attempts j < jb_MaxAttempts j) \<and>
     (active j \<longrightarrow> jb_FinishedAt j = None) \<and> (jb_Status j = StatusRunning \<longrightarrow> 1 \<le> jb_Attempts j \<and> jb_HeartbeatAt j \<noteq> None)"

definition keyOf :: "Job \<Rightarrow> string list" where
  "keyOf j = (if active j \<and> jb_DedupeKey j \<noteq> None then [the (jb_DedupeKey j)] else [])"

definition activeKeys :: "Job list \<Rightarrow> string list" where
  "activeKeys rows = concat (map keyOf rows)"

definition storeOk :: "JobStore \<Rightarrow> bool" where
  "storeOk s \<longleftrightarrow> distinct (map jb_ID (st_rows s)) \<and> list_all (\<lambda>i. i < st_nextID s) (map jb_ID (st_rows s)) \<and> list_all rowOk (st_rows s) \<and>
     distinct (activeKeys (st_rows s))"

lemma lifecycle_same: "lifecycle j k \<Longrightarrow> sameJob j k" "lifecycle j k \<Longrightarrow> active j"
  by (auto elim: lifecycle.cases simp: active_def)

lemma lifecycle_rowOk: "lifecycle j k \<Longrightarrow> checkRow k \<Longrightarrow> rowOk j \<Longrightarrow> rowOk k"
  by (erule lifecycle.cases) (auto simp: rowOk_def sameJob_def active_def Status_Terminal_def checkRow_def split: Status.splits)

section \<open>Steps on the table\<close>

definition rowStep :: "Job \<Rightarrow> Job \<Rightarrow> bool" where
  "rowStep j k \<longleftrightarrow> k = j \<or> lifecycle j k \<and> checkRow k"

definition appended :: "JobStore \<Rightarrow> Job \<Rightarrow> JobStore \<Rightarrow> bool" where
  "appended s j t \<longleftrightarrow> st_rows t = st_rows s @ [j] \<and> rowOk j \<and> jb_ID j = st_nextID s \<and> st_nextID t = st_nextID s + 1 \<and>
     jb_Status j = StatusQueued \<and> (\<forall>k. jb_DedupeKey j = Some k \<longrightarrow> k \<notin> set (activeKeys (st_rows s)))"

definition tableStep :: "JobStore \<Rightarrow> JobStore \<Rightarrow> bool" where
  "tableStep s t \<longleftrightarrow> st_nextID s \<le> st_nextID t \<and> (list_all2 rowStep (st_rows s) (st_rows t) \<or> (\<exists>j. appended s j t))"

lemma rowStep_keeps: "rowStep j k \<Longrightarrow> jb_ID k = jb_ID j" "rowStep j k \<Longrightarrow> rowOk j \<Longrightarrow> rowOk k"
    "rowStep j k \<Longrightarrow> active k \<Longrightarrow> active j \<and> jb_DedupeKey k = jb_DedupeKey j" "rowStep j k \<Longrightarrow> \<not> active j \<Longrightarrow> k = j"
  using lifecycle_same [of j k] lifecycle_rowOk [of j k] by (auto simp: rowStep_def sameJob_def)

lemma keyOf_iff: "k \<in> set (keyOf j) \<longleftrightarrow> activeWith (Some k) j" "distinct (keyOf j)"
  by (auto simp: keyOf_def activeWith_def)

lemma activeKeys_iff: "k \<in> set (activeKeys rows) \<longleftrightarrow> list_ex (activeWith (Some k)) rows"
  by (simp add: activeKeys_def keyOf_iff list_ex_iff)

lemma rowStep_key: "rowStep r t \<Longrightarrow> keyOf t = [] \<or> keyOf t = keyOf r"
  using rowStep_keeps(3) [of r t] by (cases "active t") (simp_all add: keyOf_def)

lemma steps_keys: "list_all2 rowStep rs ts \<Longrightarrow> set (activeKeys ts) \<subseteq> set (activeKeys rs)"
proof (induction rule: list_all2_induct)
  case (Cons r rs t ts)
  show ?case using rowStep_key [OF Cons(1)] Cons(3) by (elim disjE) (simp_all add: activeKeys_def, blast+)
qed simp

lemma steps_keep:
  assumes "list_all2 rowStep rs ts"
  shows "map jb_ID ts = map jb_ID rs" "list_all rowOk rs \<Longrightarrow> list_all rowOk ts" "distinct (activeKeys rs) \<Longrightarrow> distinct (activeKeys ts)"
proof -
  show "map jb_ID ts = map jb_ID rs" using assms by induction (simp_all add: rowStep_keeps(1))
  show "list_all rowOk rs \<Longrightarrow> list_all rowOk ts" using assms by induction (simp_all add: rowStep_keeps(2))
  show "distinct (activeKeys rs) \<Longrightarrow> distinct (activeKeys ts)" using assms
  proof induction
    case (Cons r rs t ts)
    show ?case using rowStep_key [OF Cons(1)] Cons(3,4) steps_keys [OF Cons(2)]
      by (elim disjE) (simp_all add: activeKeys_def, blast)
  qed (simp add: activeKeys_def)
qed

lemma tableStep_ok:
  assumes "tableStep s t" "storeOk s"
  shows "storeOk t"
proof (cases "list_all2 rowStep (st_rows s) (st_rows t)")
  case True
  have "st_nextID s \<le> st_nextID t" using assms(1) by (simp add: tableStep_def)
  then have "list_all (\<lambda>i. i < st_nextID t) (map jb_ID (st_rows t))"
    using assms(2) unfolding steps_keep(1) [OF True] storeOk_def by (auto simp: list_all_iff)
  then show ?thesis using steps_keep(2,3) [OF True] assms(2) unfolding storeOk_def steps_keep(1) [OF True] by blast
next
  case False
  then obtain j where "appended s j t" using assms(1) by (auto simp: tableStep_def)
  then have j: "st_rows t = st_rows s @ [j]" "rowOk j" "jb_ID j = st_nextID s" "st_nextID t = st_nextID s + 1"
    "\<And>k. jb_DedupeKey j = Some k \<Longrightarrow> k \<notin> set (activeKeys (st_rows s))" by (simp_all add: appended_def)
  have ids: "\<forall>i \<in> set (map jb_ID (st_rows s)). i < st_nextID s" using assms(2) by (simp add: storeOk_def list_all_iff)
  have "distinct (activeKeys (st_rows t))"
  proof -
    have "set (activeKeys (st_rows s)) \<inter> set (keyOf j) = {}" using j(5) by (auto simp: keyOf_def)
    then show ?thesis using assms(2) keyOf_iff(2) [of j] by (simp add: j(1) storeOk_def activeKeys_def)
  qed
  moreover have "distinct (map jb_ID (st_rows t))" using assms(2) ids j(3) by (auto simp: j(1) storeOk_def)
  moreover have "list_all (\<lambda>i. i < st_nextID t) (map jb_ID (st_rows t))" using ids j(3) by (auto simp: j(1,4) list_all_iff)
  ultimately show ?thesis using assms(2) j(2) by (simp add: storeOk_def j(1))
qed

lemma tableStep_refl: "st_rows t = st_rows s \<Longrightarrow> st_nextID s \<le> st_nextID t \<Longrightarrow> tableStep s t"
  by (simp add: tableStep_def list_all2_same rowStep_def)

lemma tableStep_finished: "tableStep s t \<Longrightarrow> j \<in> set (st_rows s) \<Longrightarrow> Status_Terminal (jb_Status j) \<Longrightarrow> j \<in> set (st_rows t)"
proof -
  have r: "list_all2 rowStep rs ts \<Longrightarrow> j \<in> set rs \<Longrightarrow> \<not> active j \<Longrightarrow> j \<in> set ts" for rs ts
    by (induction rule: list_all2_induct) (use rowStep_keeps(4) in auto)
  assume "tableStep s t" "j \<in> set (st_rows s)" "Status_Terminal (jb_Status j)"
  moreover then have "\<not> active j" by (auto simp: active_def Status_Terminal_def)
  ultimately show ?thesis using r [of "st_rows s" "st_rows t"] unfolding tableStep_def appended_def by (metis Un_iff set_append)
qed

lemma setRow_step:
  assumes "distinct (map jb_ID (st_rows s))" "j \<in> set (st_rows s)" "lifecycle j k" "checkRow k"
  shows "tableStep s (setRow k s)"
proof -
  have i: "jb_ID k = jb_ID j" using lifecycle_same(1) [OF assms(3)] by (simp add: sameJob_def)
  have "rowStep r (if jb_ID r = jb_ID k then k else r)" if "r \<in> set (st_rows s)" for r
  proof (cases "jb_ID r = jb_ID j")
    case True
    then have "r = j" using assms(1,2) that by (auto simp: distinct_map dest: inj_onD)
    then show ?thesis using assms(3,4) i by (simp add: rowStep_def)
  qed (simp add: i rowStep_def)
  then show ?thesis by (simp add: tableStep_def list_all2_map2 list_all2_same)
qed

lemma find_in: "find P xs = Some x \<Longrightarrow> x \<in> set xs \<and> P x"
  by (auto simp: find_Some_iff)

text \<open>An update along the lifecycle is a step.\<close>

lemma updateRow_step:
  assumes "updateRow now P f s = Inr (Some (s1, j1))" "storeOk s"
    and "\<And>j. j \<in> set (st_rows s) \<Longrightarrow> P j \<Longrightarrow> rowOk j \<Longrightarrow> lifecycle j ((f j)\<lparr>jb_UpdatedAt := now\<rparr>)"
  shows "tableStep s s1"
  using assms(1)
proof (rule updateRow_Some)
  fix j assume j: "find P (st_rows s) = Some j" "j1 = (f j)\<lparr>jb_UpdatedAt := now\<rparr>" "checkRow j1" "s1 = setRow j1 s"
  then have "j \<in> set (st_rows s)" "P j" by (auto dest: find_in)
  then show ?thesis using setRow_step [of s j j1] assms(2,3) j by (auto simp: storeOk_def list_all_iff)
qed

lemma tableStep_rows: "tableStep s t \<Longrightarrow> st_rows t' = st_rows t \<Longrightarrow> st_nextID t' = st_nextID t \<Longrightarrow> tableStep s t'"
  by (simp add: tableStep_def appended_def)


section \<open>Every statement follows the lifecycle\<close>

named_theorems row_defs \<open>the row each statement writes\<close>

declare claimRow_def [row_defs] succeedRow_def [row_defs] canceledRow_def [row_defs] requeueRow_def [row_defs] failedRow_def [row_defs]
  reapRow_def [row_defs] sameJob_def [row_defs]

lemma owned_running: "owned i w j \<Longrightarrow> jb_Status j = StatusRunning"
  by (simp add: owned_def)

lemma beat_step: "owned i w j \<Longrightarrow> lifecycle j ((j\<lparr>jb_HeartbeatAt := Some now\<rparr>)\<lparr>jb_UpdatedAt := now'\<rparr>)"
    "owned i w j \<Longrightarrow> lifecycle j ((j\<lparr>jb_Progress := p, jb_HeartbeatAt := Some now\<rparr>)\<lparr>jb_UpdatedAt := now'\<rparr>)"
    "jb_Status j = StatusRunning \<Longrightarrow> lifecycle j ((j\<lparr>jb_CancelRequested := True\<rparr>)\<lparr>jb_UpdatedAt := now'\<rparr>)"
  by (rule lifecycle.touched; simp add: owned_def sameJob_def)+

lemma end_step: "active j \<Longrightarrow> lifecycle j ((succeedRow now b j)\<lparr>jb_UpdatedAt := now'\<rparr>)"
    "active j \<Longrightarrow> lifecycle j ((canceledRow now e j)\<lparr>jb_UpdatedAt := now'\<rparr>)"
    "active j \<Longrightarrow> lifecycle j ((failedRow now e' j)\<lparr>jb_UpdatedAt := now'\<rparr>)"
  by (rule lifecycle.finished; simp add: row_defs Status_Terminal_def)+

lemma requeue_step: "jb_Status j = StatusRunning \<Longrightarrow> jb_Attempts j < jb_MaxAttempts j \<Longrightarrow> lifecycle j ((requeueRow t e j)\<lparr>jb_UpdatedAt := now'\<rparr>)"
    "jb_Status j = StatusRunning \<Longrightarrow> lifecycle j (((requeueRow t e j)\<lparr>jb_Attempts := max (jb_Attempts j - 1) 0\<rparr>)\<lparr>jb_UpdatedAt := now'\<rparr>)"
  by (rule lifecycle.requeued lifecycle.released; simp add: row_defs)+

lemma claim_step: "jb_Status j = StatusQueued \<Longrightarrow> lifecycle j ((claimRow now w j)\<lparr>jb_UpdatedAt := now'\<rparr>)"
  by (rule lifecycle.claimed; simp add: row_defs)

lemma reap_step: "jb_Status j = StatusRunning \<Longrightarrow> lifecycle j ((reapRow now j)\<lparr>jb_UpdatedAt := now'\<rparr>)"
  unfolding reapRow_def using end_step requeue_step(1) by (simp add: active_def)

lemma owned_active: "owned i w j \<Longrightarrow> active j"
  by (simp add: owned_def active_def)

lemma finishOwned_step:
  assumes "finishOwned q db now i w action event f s = (s', r)" "storeOk s"
    and "\<And>j. owned i w j \<Longrightarrow> rowOk j \<Longrightarrow> lifecycle j ((f j)\<lparr>jb_UpdatedAt := now\<rparr>)"
  shows "tableStep s s'"
proof (cases "updateRow now (owned i w) f s")
  case (Inr o1)
  then show ?thesis
  proof (cases o1)
    case (Some p)
    then obtain s1 j1 where u: "updateRow now (owned i w) f s = Inr (Some (s1, j1))" using Inr by (metis surj_pair)
    have "tableStep s s1" by (rule updateRow_step [OF u assms(2)]) (use assms(3) in blast)
    then show ?thesis using assms(1) u tableStep_refl [of s s] by (auto simp: finishOwned_def split: if_splits intro: tableStep_rows)
  qed (use Inr assms(1) tableStep_refl [of s s] in \<open>auto simp: finishOwned_def split: if_splits\<close>)
qed (use assms(1) tableStep_refl [of s s] in \<open>auto simp: finishOwned_def split: if_splits\<close>)

lemma find_id_unique:
  assumes "distinct (map jb_ID rows)" "j \<in> set rows"
  shows "find (\<lambda>r. jb_ID r = jb_ID j) rows = Some j"
proof -
  obtain r where r: "find (\<lambda>r. jb_ID r = jb_ID j) rows = Some r"
    using assms(2) by (cases "find (\<lambda>r. jb_ID r = jb_ID j) rows") (auto simp: find_None_iff)
  then have "r \<in> set rows" "jb_ID r = jb_ID j" by (auto dest: find_in)
  then have "r = j" using assms by (auto simp: distinct_map dest: inj_onD)
  then show ?thesis using r by simp
qed

lemma claimNext_Some:
  assumes "claimNext now locked rows = Some j"
  shows "j \<in> set rows" "claimable now j" "\<not> locked (jb_ID j)"
    "\<And>r. r \<in> set rows \<Longrightarrow> claimable now r \<Longrightarrow> \<not> locked (jb_ID r) \<Longrightarrow> claimKey j \<le> claimKey r"
proof -
  let ?c = "filter (\<lambda>j. claimable now j \<and> \<not> locked (jb_ID j)) rows"
  obtain rest where s: "sort_key claimKey ?c = j # rest" using assms by (auto simp: claimNext_def split: list.splits)
  have set: "set (j # rest) = set ?c" unfolding s [symmetric] by simp
  then show "j \<in> set rows" "claimable now j" "\<not> locked (jb_ID j)" by auto
  have "sorted (map claimKey (j # rest))" unfolding s [symmetric] by simp
  then show "claimKey j \<le> claimKey r" if "r \<in> set rows" "claimable now r" "\<not> locked (jb_ID r)" for r
  proof -
    have "r \<in> set (j # rest)" unfolding set using that by simp
    then show ?thesis using \<open>sorted (map claimKey (j # rest))\<close> by auto
  qed
qed

lemma Claim_cases:
  assumes "Queue_Claim q db now locked w s = (s', r)" "storeOk s"
  obtains (none) err where "s' = s" "r = Inl err"
  | (claimed) j0 where "claimNext now locked (st_rows s) = Some j0" "r = Inr ((claimRow now w j0)\<lparr>jb_UpdatedAt := now\<rparr>)"
      "st_rows s' = st_rows (setRow ((claimRow now w j0)\<lparr>jb_UpdatedAt := now\<rparr>) s)" "st_nextID s' = st_nextID s"
      "checkRow ((claimRow now w j0)\<lparr>jb_UpdatedAt := now\<rparr>)"
proof (cases "claimNext now locked (st_rows s)")
  case None
  then show ?thesis using assms(1) none by (auto simp: Queue_Claim_def split: if_splits)
next
  case (Some j0)
  have f: "find (\<lambda>j. jb_ID j = jb_ID j0) (st_rows s) = Some j0"
    using assms(2) claimNext_Some(1) [OF Some] by (intro find_id_unique) (simp_all add: storeOk_def)
  show ?thesis using assms(1) none claimed [OF Some] Some f by (auto simp: Queue_Claim_def updateRow_def Let_def split: if_splits)
qed

lemma Claim_step: "Queue_Claim q db now locked w s = (s', r) \<Longrightarrow> storeOk s \<Longrightarrow> tableStep s s'"
proof (erule Claim_cases)
  fix j0 assume ok: "storeOk s" and c: "claimNext now locked (st_rows s) = Some j0"
    and s': "st_rows s' = st_rows (setRow ((claimRow now w j0)\<lparr>jb_UpdatedAt := now\<rparr>) s)" "st_nextID s' = st_nextID s"
      "checkRow ((claimRow now w j0)\<lparr>jb_UpdatedAt := now\<rparr>)"
  have "jb_Status j0 = StatusQueued" using claimNext_Some(2) [OF c] by (simp add: claimable_def)
  from setRow_step [OF _ claimNext_Some(1) [OF c] claim_step [OF this] s'(3)] ok have "tableStep s (setRow ((claimRow now w j0)\<lparr>jb_UpdatedAt := now\<rparr>) s)"
    by (simp add: storeOk_def)
  then show "tableStep s s'" by (rule tableStep_rows) (simp_all add: s')
qed (simp_all add: tableStep_refl)


lemma guarded_step:
  assumes "updateRow now P f s = Inr (Some (s1, j1))" "storeOk s" "st_rows s' = st_rows s1" "st_nextID s' = st_nextID s1"
    and "\<And>j. P j \<Longrightarrow> rowOk j \<Longrightarrow> lifecycle j ((f j)\<lparr>jb_UpdatedAt := now\<rparr>)"
  shows "tableStep s s'"
  by (rule tableStep_rows [OF updateRow_step [OF assms(1,2)] assms(3,4)]) (rule assms(5))

lemma Heartbeat_step: "Queue_Heartbeat db now i w s = (s', r) \<Longrightarrow> storeOk s \<Longrightarrow> tableStep s s'"
  by (auto simp: Queue_Heartbeat_def split: if_splits sum.splits option.splits
      intro: tableStep_refl elim!: guarded_step [OF _ _ refl refl beat_step(1)])

lemma ReportProgress_step: "Queue_ReportProgress q db now i w p s = (s', r) \<Longrightarrow> storeOk s \<Longrightarrow> tableStep s s'"
  by (auto simp: Queue_ReportProgress_def split: if_splits sum.splits option.splits
      intro: tableStep_refl elim!: guarded_step [OF _ _ store_aux(1,2) beat_step(2)])

lemma Succeed_step: "Queue_Succeed q db now i w res s = (s', r) \<Longrightarrow> storeOk s \<Longrightarrow> tableStep s s'"
  unfolding Queue_Succeed_def by (erule finishOwned_step) (auto intro: end_step dest: owned_active)

lemma MarkCanceled_step: "Queue_MarkCanceled q db now i w reason s = (s', r) \<Longrightarrow> storeOk s \<Longrightarrow> tableStep s s'"
  unfolding Queue_MarkCanceled_def by (erule finishOwned_step) (auto intro: end_step dest: owned_active)

lemma Release_step: "Queue_Release q db now i w reason s = (s', r) \<Longrightarrow> storeOk s \<Longrightarrow> tableStep s s'"
  unfolding Queue_Release_def by (erule finishOwned_step) (auto intro: requeue_step dest: owned_running)

lemma owned_unique:
  assumes "storeOk s" "find (owned i w) (st_rows s) = Some j"
  shows "j \<in> set (st_rows s)" "owned i w j" "\<And>r. r \<in> set (st_rows s) \<Longrightarrow> owned i w r \<Longrightarrow> r = j"
  using assms find_in [OF assms(2)] by (auto simp: storeOk_def owned_def distinct_map dest: inj_onD)

lemma Fail_cases:
  assumes "Queue_Fail q db now i w err0 s = (s', r)" "storeOk s"
  obtains (none) e where "s' = s" "r = Inl e"
  | (retry) j err where "find (owned i w) (st_rows s) = Some j" "jb_Attempts j < jb_MaxAttempts j"
      "r = Inr ((requeueRow (now + q_backoff q (jb_Attempts j)) (Some err) j)\<lparr>jb_UpdatedAt := now\<rparr>)"
      "st_rows s' = st_rows (setRow ((requeueRow (now + q_backoff q (jb_Attempts j)) (Some err) j)\<lparr>jb_UpdatedAt := now\<rparr>) s)"
      "st_nextID s' = st_nextID s" "checkRow ((requeueRow (now + q_backoff q (jb_Attempts j)) (Some err) j)\<lparr>jb_UpdatedAt := now\<rparr>)"
  | (failed) j err where "find (owned i w) (st_rows s) = Some j" "jb_MaxAttempts j \<le> jb_Attempts j"
      "r = Inr ((failedRow now err j)\<lparr>jb_UpdatedAt := now\<rparr>)" "st_rows s' = st_rows (setRow ((failedRow now err j)\<lparr>jb_UpdatedAt := now\<rparr>) s)"
      "st_nextID s' = st_nextID s" "checkRow ((failedRow now err j)\<lparr>jb_UpdatedAt := now\<rparr>)"
proof (cases "find (owned i w) (st_rows s)")
  case None
  then show ?thesis using assms(1) none by (auto simp: Queue_Fail_def Let_def split: if_splits)
next
  case (Some j)
  show ?thesis
  proof (cases "jb_Attempts j < jb_MaxAttempts j")
    case True
    then show ?thesis using assms(1) none retry [OF Some] Some by (auto simp: Queue_Fail_def updateRow_def Let_def split: if_splits)
  next
    case False
    then show ?thesis using assms(1) none failed [OF Some] Some by (auto simp: Queue_Fail_def updateRow_def Let_def split: if_splits)
  qed
qed

lemma setRow_to:
  assumes "storeOk s" "j \<in> set (st_rows s)" "lifecycle j k" "checkRow k" "st_rows s' = st_rows (setRow k s)" "st_nextID s' = st_nextID s"
  shows "tableStep s s'"
  using setRow_step [OF _ assms(2-4)] assms(1) by (intro tableStep_rows [OF _ assms(5)]) (simp_all add: storeOk_def assms(6))

lemma Fail_step:
  assumes "Queue_Fail q db now i w err0 s = (s', r)" "storeOk s"
  shows "tableStep s s'"
  using assms
proof (cases rule: Fail_cases)
  case (retry j err)
  have "jb_Status j = StatusRunning" using owned_unique(2) [OF assms(2) retry(1)] by (rule owned_running)
  from requeue_step(1) [OF this retry(2)] show ?thesis
    by (rule setRow_to [OF assms(2) owned_unique(1) [OF assms(2) retry(1)] _ retry(6,4,5)])
next
  case (failed j err)
  have "active j" using owned_unique(2) [OF assms(2) failed(1)] by (rule owned_active)
  from end_step(3) [OF this] show ?thesis
    by (rule setRow_to [OF assms(2) owned_unique(1) [OF assms(2) failed(1)] _ failed(6,4,5)])
qed (simp add: tableStep_refl)

lemma Cancel_step:
  assumes "Queue_Cancel q db now i actor reason s = (s', r)" "storeOk s"
  shows "tableStep s s'"
proof (cases "find (\<lambda>j. jb_ID j = i) (st_rows s)")
  case None
  then show ?thesis using assms(1) by (auto simp: Queue_Cancel_def tableStep_refl split: if_splits)
next
  case (Some j0)
  have j0: "j0 \<in> set (st_rows s)" "jb_ID j0 = i" using find_in [OF Some] by auto
  have act: "jb_Status j0 = StatusQueued \<Longrightarrow> active j0" by (simp add: active_def)
  show ?thesis
  proof (cases "jb_Status j0")
    case StatusQueued
    then show ?thesis
      using assms(1) Some setRow_to [OF assms(2) j0(1) end_step(2) [OF act [OF StatusQueued]]]
      by (auto simp: Queue_Cancel_def updateRow_def Let_def tableStep_refl split: if_splits)
  next
    case StatusRunning
    then show ?thesis
      using assms(1) Some setRow_to [OF assms(2) j0(1) beat_step(3) [OF StatusRunning]]
      by (auto simp: Queue_Cancel_def updateRow_def Let_def tableStep_refl split: if_splits)
  qed (use assms(1) Some in \<open>auto simp: Queue_Cancel_def Let_def tableStep_refl split: if_splits\<close>)
qed

lemma tryInsert_step: "tryInsert db now p payload runAt mx dk s = (s', r) \<Longrightarrow> tableStep s s'"
proof -
  assume t: "tryInsert db now p payload runAt mx dk s = (s', r)"
  let ?j = "newRow now p payload runAt mx dk (st_nextID s)"
  show ?thesis
  proof (cases "db \<and> checkRow ?j \<and> \<not> list_ex (activeWith dk) (st_rows s)")
    case True
    have "k \<notin> set (activeKeys (st_rows s))" if "dk = Some k" for k using True that by (simp add: activeKeys_iff)
    moreover have "rowOk ?j" using True by (auto simp: rowOk_def checkRow_def newRow_def)
    ultimately have "appended s ?j s'" using t True by (auto simp: tryInsert_def Let_def appended_def newRow_def)
    then show ?thesis by (auto simp: tableStep_def appended_def)
  next
    case False
    then have "st_rows s' = st_rows s" "st_nextID s \<le> st_nextID s'" using t by (auto simp: tryInsert_def Let_def split: if_splits)
    then show ?thesis by (rule tableStep_refl)
  qed
qed

lemma reapEach_steps:
  "reapEach now js s stats = Inr (s', stats') \<Longrightarrow> storeOk s \<Longrightarrow> distinct (map jb_ID js) \<Longrightarrow>
   (\<And>j. j \<in> set js \<Longrightarrow> j \<in> set (st_rows s) \<and> jb_Status j = StatusRunning) \<Longrightarrow> tableStep\<^sup>*\<^sup>* s s'"
proof (induction now js s stats rule: reapEach.induct)
  case (2 now j js s stats)
  have j: "j \<in> set (st_rows s)" "jb_Status j = StatusRunning" using 2(6) [of j] by auto
  let ?k = "(reapRow now j)\<lparr>jb_UpdatedAt := now\<rparr>"
  have f: "find (\<lambda>r. jb_ID r = jb_ID j) (st_rows s) = Some j" using 2(4) j(1) by (intro find_id_unique) (simp_all add: storeOk_def)
  then have ck: "checkRow ?k" and u: "updateRow now (\<lambda>r. jb_ID r = jb_ID j) (\<lambda>_. reapRow now j) s = Inr (Some (setRow ?k s, ?k))"
    using 2(3) by (auto simp: updateRow_def Let_def split: if_splits)
  let ?s1 = "jobs_audit ''reaper'' (reapAction j) (jb_ID j) (setRow ?k s)"
  have st: "tableStep s ?s1" by (rule setRow_to [OF 2(4) j(1) reap_step [OF j(2)] ck]) simp_all
  have "r \<in> set (st_rows ?s1) \<and> jb_Status r = StatusRunning" if "r \<in> set js" for r
  proof -
    have "jb_ID r \<noteq> jb_ID j" using 2(5) imageI [OF that, of jb_ID] by auto
    then show ?thesis using 2(6) [of r] that by auto
  qed
  then have "tableStep\<^sup>*\<^sup>* ?s1 s'" using 2(2) [OF u refl refl] 2(3,5) u tableStep_ok [OF st 2(4)] by simp
  then show ?case using st by (rule converse_rtranclp_into_rtranclp [rotated])
qed simp

lemma reapBatch_steps:
  assumes "Queue_reapBatch q db now locked sa limit s = (s', r)" "storeOk s"
  shows "tableStep\<^sup>*\<^sup>* s s'"
proof -
  let ?f = "take limit (staleRows now sa locked (st_rows s))"
  have "distinct (map jb_ID (filter P (st_rows s)))" for P using assms(2) by (simp add: storeOk_def distinct_map_filter)
  then have "distinct (map jb_ID (staleRows now sa locked (st_rows s)))"
    by (simp add: staleRows_def distinct_map inj_on_def)
  then have d: "distinct (map jb_ID ?f)" by (simp add: take_map flip: take_map)
  have m: "j \<in> set (st_rows s) \<and> jb_Status j = StatusRunning" if "j \<in> set ?f" for j
    using in_set_takeD [OF that] by (auto simp: staleRows_set staleRow_def)
  show ?thesis
  proof (cases "reapEach now ?f s noStats")
    case (Inr x)
    then obtain s1 st1 where x: "reapEach now ?f s noStats = Inr (s1, st1)" by (metis surj_pair)
    have "tableStep\<^sup>*\<^sup>* s s1" by (rule reapEach_steps [OF x assms(2) d]) (rule m)
    moreover have "s' = s \<or> s' = notifyAll q (map reapEvent ?f) s1" using assms(1) x by (auto simp: Queue_reapBatch_def Let_def split: if_splits)
    moreover have "tableStep s1 (notifyAll q (map reapEvent ?f) s1)" by (rule tableStep_refl) simp_all
    ultimately show ?thesis by (auto intro: rtranclp.rtrancl_into_rtrancl)
  qed (use assms(1) in \<open>auto simp: Queue_reapBatch_def Let_def split: if_splits\<close>)
qed


section \<open>Anyone, any time\<close>

inductive queue_step :: "Queue \<Rightarrow> JobStore \<Rightarrow> JobStore \<Rightarrow> bool" for q where
  insert: "tryInsert db now p payload runAt mx dk s = (s', r1) \<Longrightarrow> queue_step q s s'"
| claim: "Queue_Claim q db now locked w s = (s', r2) \<Longrightarrow> queue_step q s s'"
| heartbeat: "Queue_Heartbeat db now i w s = (s', r3) \<Longrightarrow> queue_step q s s'"
| progress: "Queue_ReportProgress q db now i w pr s = (s', r3) \<Longrightarrow> queue_step q s s'"
| succeed: "Queue_Succeed q db now i w res s = (s', r2) \<Longrightarrow> queue_step q s s'"
| markCanceled: "Queue_MarkCanceled q db now i w reason s = (s', r2) \<Longrightarrow> queue_step q s s'"
| release: "Queue_Release q db now i w reason s = (s', r2) \<Longrightarrow> queue_step q s s'"
| fail: "Queue_Fail q db now i w reason s = (s', r2) \<Longrightarrow> queue_step q s s'"
| cancel: "Queue_Cancel q db now i actor reason s = (s', r4) \<Longrightarrow> queue_step q s s'"
| reap: "Queue_reapBatch q db now locked sa limit s = (s', r5) \<Longrightarrow> queue_step q s s'"

lemma queue_step_table: "queue_step q s s' \<Longrightarrow> storeOk s \<Longrightarrow> tableStep\<^sup>*\<^sup>* s s'"
  by (induction rule: queue_step.induct)
     (blast intro: tryInsert_step Claim_step Heartbeat_step ReportProgress_step Succeed_step MarkCanceled_step Release_step Fail_step
        Cancel_step reapBatch_steps)+

lemma table_run_ok: "tableStep\<^sup>*\<^sup>* s s' \<Longrightarrow> storeOk s \<Longrightarrow> storeOk s'"
  by (induction rule: rtranclp_induct) (auto intro: tableStep_ok)

text \<open>Whoever only makes steps that the table allows keeps the invariant and the finished jobs.\<close>

locale table_client =
  fixes step :: "JobStore \<Rightarrow> JobStore \<Rightarrow> bool"
  assumes refines: "step s t \<Longrightarrow> storeOk s \<Longrightarrow> tableStep\<^sup>*\<^sup>* s t"
begin

lemma run_refines: "step\<^sup>*\<^sup>* s t \<Longrightarrow> storeOk s \<Longrightarrow> tableStep\<^sup>*\<^sup>* s t"
proof (induction rule: rtranclp_induct)
  case (step t u)
  have "storeOk t" by (rule table_run_ok [OF step(3) [OF step(4)] step(4)])
  then show ?case using refines [OF step(2)] step(3,4) by (meson rtranclp_trans)
qed simp

lemma run_ok: "step\<^sup>*\<^sup>* s t \<Longrightarrow> storeOk s \<Longrightarrow> storeOk t"
  using run_refines table_run_ok by blast

lemma run_keeps_finished:
  assumes "step\<^sup>*\<^sup>* s t" "storeOk s" "j \<in> set (st_rows s)" "Status_Terminal (jb_Status j)"
  shows "j \<in> set (st_rows t)"
proof -
  have "tableStep\<^sup>*\<^sup>* s t" using run_refines assms(1,2) .
  then show ?thesis using assms(3,4) by (induction rule: rtranclp_induct) (auto intro: tableStep_finished)
qed

end

interpretation anyone: table_client "queue_step q" for q
  by unfold_locales (rule queue_step_table)

end
