(* ===== verification/Jobs_Worker.thy ===== *)
theory Jobs_Worker
  imports Jobs_Lifecycle
begin

text \<open>
  The worker of \<open>internal/jobs\<close>: its options, the registry of handlers, and the execution of one claimed job with what the
  heartbeat loop, the progress reports and the drain watcher observeClaim meanwhile (\<open>worker.go\<close>, \<open>registry.go\<close>).  The goroutines
  of one execution communicate through three flags, so an execution is the sequence of what they observed, followed
  by \<open>finalize\<close>.  Host name and process id are arguments; a handler's panic is one of its outcomes.
\<close>

section \<open>Options and handlers\<close>

record WorkerOptions =
  wo_ID :: string
  wo_Concurrency :: int
  wo_PollInterval :: int
  wo_HeartbeatInterval :: int
  wo_StaleAfter :: int
  wo_ReapInterval :: int
  wo_DrainTimeout :: int

definition DefaultConcurrency :: int where "DefaultConcurrency = 4"
definition DefaultPollInterval :: int where "DefaultPollInterval = 2000000000"
definition DefaultHeartbeatInterval :: int where "DefaultHeartbeatInterval = 5000000000"
definition DefaultStaleAfter :: int where "DefaultStaleAfter = 60000000000"
definition DefaultReapInterval :: int where "DefaultReapInterval = 15000000000"
definition DefaultDrainTimeout :: int where "DefaultDrainTimeout = 30000000000"

definition orDefault :: "int \<Rightarrow> int \<Rightarrow> int" where
  "orDefault v d = (if v = 0 then d else v)"

definition withDefaults :: "string option \<Rightarrow> nat \<Rightarrow> WorkerOptions \<Rightarrow> WorkerOptions" where
  "withDefaults host pid o1 =
     o1\<lparr>wo_ID := (if wo_ID o1 = [] then (case host of Some h \<Rightarrow> if h = [] then ''worker'' else h | None \<Rightarrow> ''worker'') @ ''-'' @ fmtUint pid
          else wo_ID o1),
        wo_Concurrency := orDefault (wo_Concurrency o1) DefaultConcurrency,
        wo_PollInterval := orDefault (wo_PollInterval o1) DefaultPollInterval,
        wo_HeartbeatInterval := orDefault (wo_HeartbeatInterval o1) DefaultHeartbeatInterval,
        wo_StaleAfter := orDefault (wo_StaleAfter o1) DefaultStaleAfter,
        wo_ReapInterval := orDefault (wo_ReapInterval o1) DefaultReapInterval,
        wo_DrainTimeout := orDefault (wo_DrainTimeout o1) DefaultDrainTimeout\<rparr>"

definition WorkerOptions_applyDefaults :: "string option \<Rightarrow> nat \<Rightarrow> WorkerOptions \<Rightarrow> jobs_error + WorkerOptions" where
  "WorkerOptions_applyDefaults host pid o1 =
     (let w = withDefaults host pid o1 in
      if wo_Concurrency w < 1 then Inl (ErrJobs ''worker concurrency must be >= 1'')
      else if wo_PollInterval w \<le> 0 \<or> wo_HeartbeatInterval w \<le> 0 \<or> wo_StaleAfter w \<le> 0 \<or> wo_ReapInterval w \<le> 0 \<or> wo_DrainTimeout w \<le> 0
        then Inl (ErrJobs ''worker intervals must be > 0'')
      else if wo_StaleAfter w div 3 < wo_HeartbeatInterval w then Inl (ErrJobs ''heartbeat interval must be <= stale TTL/3'')
      else Inr w)"

text \<open>What running a handler ends with; an error is a text and whether it is one of the context errors.\<close>

datatype HandlerOutcome = HandlerDone "string option" | HandlerErr string bool | HandlerPanic string

type_synonym Handler = "Job \<Rightarrow> HandlerOutcome"
type_synonym Registry = "(string, Handler) gomap"

definition Registry_Register :: "string \<Rightarrow> Handler \<Rightarrow> Registry \<Rightarrow> jobs_error + Registry" where
  "Registry_Register kind h r =
     (if kind = [] then Inl (ErrJobs ''handler with empty kind'')
      else case mapGet r kind of Some _ \<Rightarrow> Inl (ErrJobs ''duplicate handler'') | None \<Rightarrow> Inr (mapSet kind h r))"

definition Registry_Resolve :: "Registry \<Rightarrow> string \<Rightarrow> Handler option" where
  "Registry_Resolve r kind = mapGet r kind"

definition Registry_Kinds :: "Registry \<Rightarrow> string list" where
  "Registry_Kinds r = sort (mapKeys r)"

definition runHandler :: "Registry \<Rightarrow> Job \<Rightarrow> HandlerOutcome" where
  "runHandler r job =
     (case Registry_Resolve r (jb_Kind job) of
        None \<Rightarrow> HandlerErr (''jobs: no handler registered for kind: '' @ jb_Kind job) False
      | Some h \<Rightarrow> (case h job of HandlerPanic msg \<Rightarrow> HandlerErr (''jobs: handler panic: '' @ msg) False | out \<Rightarrow> out))"

section \<open>One execution\<close>

record execState =
  ex_lost :: bool
  ex_cancelRequested :: bool
  ex_drainExpired :: bool

definition freshState :: execState where
  "freshState = \<lparr>ex_lost = False, ex_cancelRequested = False, ex_drainExpired = False\<rparr>"

text \<open>What the handler and the watchers see of the claim: the flags, whether the handler's context is canceled, and
  whether the heartbeat loop is still running.\<close>

record Watch =
  wa_state :: execState
  wa_canceled :: bool
  wa_beating :: bool

definition observeClaim :: "jobs_error + bool \<Rightarrow> Watch \<Rightarrow> Watch" where
  "observeClaim r w =
     (case r of
        Inl ErrLostClaim \<Rightarrow> w\<lparr>wa_state := (wa_state w)\<lparr>ex_lost := True\<rparr>, wa_canceled := True\<rparr>
      | Inl _ \<Rightarrow> w
      | Inr cancelRequested \<Rightarrow>
          if cancelRequested then w\<lparr>wa_state := (wa_state w)\<lparr>ex_cancelRequested := True\<rparr>, wa_canceled := True\<rparr> else w)"

definition heartbeatTick :: "bool \<Rightarrow> instant \<Rightarrow> int \<Rightarrow> string \<Rightarrow> Watch \<times> JobStore \<Rightarrow> Watch \<times> JobStore" where
  "heartbeatTick db now jobID workerID ws =
     (case ws of (w, s) \<Rightarrow>
        if \<not> wa_beating w then (w, s)
        else (case Queue_Heartbeat db now jobID workerID s of
                (s1, r) \<Rightarrow> ((observeClaim r w)\<lparr>wa_beating := (r \<noteq> Inl ErrLostClaim)\<rparr>, s1)))"

definition reportTick :: "Queue \<Rightarrow> bool \<Rightarrow> instant \<Rightarrow> int \<Rightarrow> string \<Rightarrow> string option \<Rightarrow> Watch \<times> JobStore \<Rightarrow> Watch \<times> JobStore" where
  "reportTick q db now jobID workerID progress ws =
     (case ws of (w, s) \<Rightarrow>
        (case Queue_ReportProgress q db now jobID workerID progress s of (s1, r) \<Rightarrow> (observeClaim r w, s1)))"

definition drainTick :: "Watch \<times> JobStore \<Rightarrow> Watch \<times> JobStore" where
  "drainTick ws = (case ws of (w, s) \<Rightarrow> (w\<lparr>wa_state := (wa_state w)\<lparr>ex_drainExpired := True\<rparr>, wa_canceled := True\<rparr>, s))"

datatype WatchEvent = Beat bool instant | Report bool instant "string option" | Drain | Others "JobStore \<Rightarrow> JobStore"

fun watch :: "Queue \<Rightarrow> int \<Rightarrow> string \<Rightarrow> WatchEvent \<Rightarrow> Watch \<times> JobStore \<Rightarrow> Watch \<times> JobStore" where
  "watch q jobID workerID (Beat db now) ws = heartbeatTick db now jobID workerID ws"
| "watch q jobID workerID (Report db now p) ws = reportTick q db now jobID workerID p ws"
| "watch q jobID workerID Drain ws = drainTick ws"
| "watch q jobID workerID (Others f) ws = (fst ws, f (snd ws))"

definition finalize :: "Queue \<Rightarrow> bool \<Rightarrow> instant \<Rightarrow> Job \<Rightarrow> string \<Rightarrow> execState \<Rightarrow> HandlerOutcome \<Rightarrow> JobStore \<Rightarrow> JobStore" where
  "finalize q db now job workerID state out s =
     (if ex_lost state then s
      else case out of
        HandlerDone result \<Rightarrow> fst (Queue_Succeed q db now (jb_ID job) workerID result s)
      | HandlerPanic msg \<Rightarrow> fst (Queue_Fail q db now (jb_ID job) workerID msg s)
      | HandlerErr msg isContextErr \<Rightarrow>
          if ex_cancelRequested state then fst (Queue_MarkCanceled q db now (jb_ID job) workerID (''canceled: '' @ msg) s)
          else if ex_drainExpired state \<and> isContextErr
            then fst (Queue_Release q db now (jb_ID job) workerID ''released: worker drain timeout during shutdown'' s)
          else fst (Queue_Fail q db now (jb_ID job) workerID msg s))"

definition execute :: "Queue \<Rightarrow> WatchEvent list \<Rightarrow> HandlerOutcome \<Rightarrow> bool \<Rightarrow> instant \<Rightarrow> Job \<Rightarrow> string \<Rightarrow> JobStore \<Rightarrow> JobStore" where
  "execute q events out db now job workerID s =
     (case fold (watch q (jb_ID job) workerID) events (\<lparr>wa_state = freshState, wa_canceled = False, wa_beating = True\<rparr>, s) of
        (w, s1) \<Rightarrow> finalize q db now job workerID (wa_state w) out s1)"

text \<open>One turn of the claim loop of a slot: the claim at \<open>tn_claimAt\<close>, and when it gave a job its execution, whose final write is at
  \<open>tn_endAt\<close>.  The poll interval between turns is the distance of their times.\<close>

record Turn =
  tn_claimAt :: instant
  tn_claimDb :: bool
  tn_locked :: "int \<Rightarrow> bool"
  tn_events :: "Job \<Rightarrow> WatchEvent list"
  tn_endAt :: instant
  tn_endDb :: bool

definition claimTurn :: "Queue \<Rightarrow> Registry \<Rightarrow> string \<Rightarrow> Turn \<Rightarrow> JobStore \<Rightarrow> JobStore" where
  "claimTurn q reg workerID tn s =
     (case Queue_Claim q (tn_claimDb tn) (tn_claimAt tn) (tn_locked tn) workerID s of
        (s1, Inl _) \<Rightarrow> s1
      | (s1, Inr job) \<Rightarrow> execute q (tn_events tn job) (runHandler reg job) (tn_endDb tn) (tn_endAt tn) job workerID s1)"

fun claimLoop :: "Queue \<Rightarrow> Registry \<Rightarrow> string \<Rightarrow> Turn list \<Rightarrow> JobStore \<Rightarrow> JobStore" where
  "claimLoop q reg workerID [] s = s"
| "claimLoop q reg workerID (tn # tns) s = claimLoop q reg workerID tns (claimTurn q reg workerID tn s)"

text \<open>One tick of the reaper; its error is logged and the next tick tries again.\<close>

definition reapTick :: "Queue \<Rightarrow> (nat \<Rightarrow> bool) \<Rightarrow> (nat \<Rightarrow> instant) \<Rightarrow> (nat \<Rightarrow> int \<Rightarrow> bool) \<Rightarrow> WorkerOptions \<Rightarrow> JobStore \<Rightarrow> JobStore" where
  "reapTick q db now locked w s = fst (Queue_ReapStale q db now locked (wo_StaleAfter w) s)"

end
