(* ===== verification/Jobs_Props.thy ===== *)
theory Jobs_Props
  imports Jobs_Worker
begin

text \<open>
  What the job queue and its worker guarantee: every run of the queue refines the lifecycle and keeps the table's
  invariant, finished jobs are final, claims are fenced and ordered, and a slot that keeps taking turns settles every job.
\<close>

section \<open>A claimed row\<close>

definition replaced :: "Job \<Rightarrow> Job \<Rightarrow> JobStore \<Rightarrow> JobStore \<Rightarrow> bool" where
  "replaced j k s t \<longleftrightarrow> st_rows t = map (\<lambda>r. if jb_ID r = jb_ID j then k else r) (st_rows s) \<and> jb_ID k = jb_ID j"

definition sameClaim :: "Job \<Rightarrow> Job \<Rightarrow> bool" where
  "sameClaim j k \<longleftrightarrow> sameJob j k \<and> jb_Status k = jb_Status j \<and> jb_ClaimedBy k = jb_ClaimedBy j \<and> jb_ClaimedAt k = jb_ClaimedAt j \<and>
     jb_StartedAt k = jb_StartedAt j \<and> jb_Attempts k = jb_Attempts j"

lemma replaced_refl: "storeOk s \<Longrightarrow> j \<in> set (st_rows s) \<Longrightarrow> st_rows t = st_rows s \<Longrightarrow> replaced j j s t"
  unfolding replaced_def by (auto simp: storeOk_def distinct_map intro!: map_idI [symmetric] dest: inj_onD)

lemma replaced_trans: "replaced j k s t \<Longrightarrow> replaced k l t u \<Longrightarrow> replaced j l s u"
  by (auto simp: replaced_def)

lemma replaced_mem: "replaced j k s t \<Longrightarrow> j \<in> set (st_rows s) \<Longrightarrow> k \<in> set (st_rows t)"
  by (force simp: replaced_def)

lemma find_owned:
  assumes "storeOk s" "j \<in> set (st_rows s)" "owned i w j"
  shows "find (owned i w) (st_rows s) = Some j"
proof -
  obtain r where r: "find (owned i w) (st_rows s) = Some r"
    using assms(2,3) by (cases "find (owned i w) (st_rows s)") (auto simp: find_None_iff)
  then show ?thesis using owned_unique(3) [OF assms(1) r assms(2,3)] by simp
qed

lemma updateRow_owned:
  assumes "storeOk s" "j \<in> set (st_rows s)" "owned i w j"
  shows "updateRow now (owned i w) f s =
    (let k = (f j)\<lparr>jb_UpdatedAt := now\<rparr> in if checkRow k then Inr (Some (setRow k s, k)) else Inl ErrDatabase)"
  by (simp add: updateRow_def find_owned [OF assms])

lemma setRow_replaced: "jb_ID k = jb_ID j \<Longrightarrow> replaced j k s (setRow k s)"
  by (simp add: replaced_def)

lemma rows_ok: "storeOk s \<Longrightarrow> j \<in> set (st_rows s) \<Longrightarrow> rowOk j"
  by (simp add: storeOk_def list_all_iff)

lemma sameClaim_owned: "sameClaim j k \<Longrightarrow> owned i w j \<Longrightarrow> owned i w k" "sameClaim j j" "sameClaim j k \<Longrightarrow> sameClaim k l \<Longrightarrow> sameClaim j l"
  by (auto simp: sameClaim_def sameJob_def owned_def)

lemma Heartbeat_held:
  assumes "storeOk s" "j \<in> set (st_rows s)" "owned i w j" "Queue_Heartbeat db now i w s = (s', r)"
  shows "r \<noteq> Inl ErrLostClaim \<and> (\<exists>k. replaced j k s s' \<and> sameClaim j k)"
proof -
  let ?k = "j\<lparr>jb_HeartbeatAt := Some now, jb_UpdatedAt := now\<rparr>"
  have "checkRow ?k" using rows_ok [OF assms(1,2)] by (simp add: rowOk_def checkRow_def cong: option.case_cong)
  with assms(4)
  have "(s', r) = (if db then (setRow ?k s, Inr (jb_CancelRequested ?k)) else (s, Inl ErrDatabase))"
    by (simp add: Queue_Heartbeat_def updateRow_owned [OF assms(1-3)] Let_def split: if_splits)
  moreover have "replaced j ?k s (setRow ?k s)" "sameClaim j ?k" by (simp_all add: setRow_replaced sameClaim_def sameJob_def)
  ultimately show ?thesis using replaced_refl [OF assms(1,2) refl] sameClaim_owned(2) [of j] by (cases db) auto
qed

lemma Report_held:
  assumes "storeOk s" "j \<in> set (st_rows s)" "owned i w j" "Queue_ReportProgress q db now i w p s = (s', r)"
  shows "r \<noteq> Inl ErrLostClaim \<and> (\<exists>k. replaced j k s s' \<and> sameClaim j k)"
proof -
  let ?k = "j\<lparr>jb_Progress := Some (marshalObject p), jb_HeartbeatAt := Some now, jb_UpdatedAt := now\<rparr>"
  have "checkRow ?k" using rows_ok [OF assms(1,2)] by (simp add: rowOk_def checkRow_def cong: option.case_cong)
  with assms(4)
  have "(st_rows s', r) = (if db then (st_rows (setRow ?k s), Inr (jb_CancelRequested ?k)) else (st_rows s, Inl ErrDatabase))"
    by (auto simp: Queue_ReportProgress_def updateRow_owned [OF assms(1-3)] Let_def split: if_splits)
  moreover have "replaced j ?k s (setRow ?k s)" "sameClaim j ?k" by (simp_all add: setRow_replaced sameClaim_def sameJob_def)
  ultimately show ?thesis using replaced_refl [OF assms(1,2), of s'] sameClaim_owned(2) [of j]
    by (cases db) (auto simp: replaced_def)
qed

fun quiet :: "WatchEvent \<Rightarrow> bool" where
  "quiet (Beat db now) = True"
| "quiet (Report db now p) = True"
| "quiet Drain = False"
| "quiet (Others f) = False"

definition keptFlags :: "Watch \<Rightarrow> bool" where
  "keptFlags v \<longleftrightarrow> \<not> ex_lost (wa_state v) \<and> \<not> ex_drainExpired (wa_state v)"

lemma observeClaim_kept: "r \<noteq> Inl ErrLostClaim \<Longrightarrow> keptFlags v \<Longrightarrow> keptFlags (observeClaim r v)"
  by (auto simp: keptFlags_def observeClaim_def split: sum.splits jobs_error.splits)

lemma watch_held:
  assumes "quiet e" "keptFlags v" "storeOk s" "j \<in> set (st_rows s)" "owned i w j" "watch q i w e (v, s) = (v', s')"
  shows "keptFlags v' \<and> storeOk s' \<and> (\<exists>k. replaced j k s s' \<and> sameClaim j k)"
proof (cases e)
  case (Beat db now)
  obtain s1 r where h: "Queue_Heartbeat db now i w s = (s1, r)" by fastforce
  have "storeOk s1" using tableStep_ok [OF Heartbeat_step [OF h assms(3)] assms(3)] .
  moreover note Heartbeat_held [OF assms(3-5) h]
  moreover have "(v', s') = (if wa_beating v then ((observeClaim r v)\<lparr>wa_beating := (r \<noteq> Inl ErrLostClaim)\<rparr>, s1) else (v, s))"
    using assms(6) h by (auto simp: Beat heartbeatTick_def)
  ultimately show ?thesis
    using assms(2,3) observeClaim_kept [of r v] replaced_refl [OF assms(3,4) refl] sameClaim_owned(2) [of j]
    by (cases "wa_beating v") (auto simp: keptFlags_def)
next
  case (Report db now p)
  obtain s1 r where h: "Queue_ReportProgress q db now i w p s = (s1, r)" by fastforce
  have "storeOk s1" using tableStep_ok [OF ReportProgress_step [OF h assms(3)] assms(3)] .
  then show ?thesis using Report_held [OF assms(3-5) h] assms(2,6) h observeClaim_kept [of r v] by (simp add: Report reportTick_def)
qed (use assms(1) in auto)

lemma watching_held:
  assumes "list_all quiet es" "keptFlags v" "storeOk s" "j \<in> set (st_rows s)" "owned i w j" "fold (watch q i w) es (v, s) = (v', s')"
  shows "keptFlags v' \<and> storeOk s' \<and> (\<exists>k. replaced j k s s' \<and> sameClaim j k)"
  using assms
proof (induction es arbitrary: v s j)
  case Nil
  then show ?case using replaced_refl [OF Nil(3,4) refl] sameClaim_owned(2) [of j] by auto
next
  case (Cons e es)
  obtain v1 s1 where w: "watch q i w e (v, s) = (v1, s1)" by fastforce
  then obtain k where k: "keptFlags v1" "storeOk s1" "replaced j k s s1" "sameClaim j k"
    using watch_held [OF _ Cons(3-6) w] Cons(2) by auto
  obtain l where "keptFlags v' \<and> storeOk s'" "replaced k l s1 s'" "sameClaim k l"
    using Cons(1) [OF _ k(1,2) replaced_mem [OF k(3) Cons(5)] sameClaim_owned(1) [OF k(4) Cons(6)]] Cons(2,7) w by auto
  then show ?case using replaced_trans [OF k(3)] sameClaim_owned(3) [OF k(4)] by blast
qed

section \<open>One turn\<close>

text \<open>The row of a claim after the turn: finished, or queued again with the attempt spent and a run time within the backoff.\<close>

definition settledRow :: "instant \<Rightarrow> int \<Rightarrow> Job \<Rightarrow> Job \<Rightarrow> bool" where
  "settledRow now b j k \<longleftrightarrow> Status_Terminal (jb_Status k) \<or>
     jb_Status k = StatusQueued \<and> jb_Attempts k = jb_Attempts j \<and> jb_MaxAttempts k = jb_MaxAttempts j \<and> jb_RunAt k \<le> now + b"

lemma row_ids [simp]: "jb_ID (requeueRow t e j) = jb_ID j" "jb_ID (failedRow t m j) = jb_ID j" "jb_ID (succeedRow t m j) = jb_ID j"
    "jb_ID (canceledRow t e j) = jb_ID j"
  by (simp_all add: requeueRow_def failedRow_def succeedRow_def canceledRow_def)

lemma terminal_simps [simp]: "Status_Terminal StatusSucceeded" "Status_Terminal StatusFailed" "Status_Terminal StatusCanceled"
  "\<not> Status_Terminal StatusQueued" "\<not> Status_Terminal StatusRunning"
  by (simp_all add: Status_Terminal_def)

lemma finishOwned_held:
  assumes "storeOk s" "j \<in> set (st_rows s)" "owned i w j" "checkRow ((f j)\<lparr>jb_UpdatedAt := now\<rparr>)" "jb_ID (f j) = jb_ID j"
  shows "replaced j ((f j)\<lparr>jb_UpdatedAt := now\<rparr>) s (fst (finishOwned q True now i w action event f s))"
  using assms(4,5) by (simp add: finishOwned_def updateRow_owned [OF assms(1-3)] replaced_def Let_def)

definition started :: "instant \<Rightarrow> Job \<Rightarrow> bool" where
  "started now j \<longleftrightarrow> (\<exists>t. jb_StartedAt j = Some t \<and> t \<le> now)"

lemma check_end:
  assumes "rowOk j" "started now j"
  shows "checkRow ((succeedRow now blob j)\<lparr>jb_UpdatedAt := u\<rparr>)" "checkRow ((canceledRow now err j)\<lparr>jb_UpdatedAt := u\<rparr>)"
    "checkRow ((failedRow now msg j)\<lparr>jb_UpdatedAt := u\<rparr>)"
  using assms by (auto simp: rowOk_def checkRow_def succeedRow_def canceledRow_def failedRow_def started_def)

lemma check_requeue:
  assumes "rowOk j"
  shows "checkRow ((requeueRow t err j)\<lparr>jb_UpdatedAt := u\<rparr>)"
  using assms by (auto simp: rowOk_def checkRow_def requeueRow_def split: option.splits)

lemma Fail_held:
  assumes "storeOk s" "j \<in> set (st_rows s)" "owned i w j" "started now j" "q_backoff q (jb_Attempts j) \<le> b"
  shows "\<exists>k. replaced j k s (fst (Queue_Fail q True now i w err0 s)) \<and> settledRow now b j k"
proof -
  note ok = rows_ok [OF assms(1,2)]
  define err where "err = truncateErr (if err0 = [] then ''unknown error'' else err0)"
  show ?thesis
  proof (cases "jb_Attempts j < jb_MaxAttempts j")
    case True
    let ?k = "(requeueRow (now + q_backoff q (jb_Attempts j)) (Some err) j)\<lparr>jb_UpdatedAt := now\<rparr>"
    have "replaced j ?k s (fst (Queue_Fail q True now i w err0 s))"
      using True check_requeue [OF ok]
      by (simp add: Queue_Fail_def Let_def updateRow_owned [OF assms(1-3)] find_owned [OF assms(1-3)] replaced_def err_def [symmetric])
    moreover have "settledRow now b j ?k" using assms(5) by (simp add: settledRow_def requeueRow_def)
    ultimately show ?thesis by blast
  next
    case False
    let ?k = "(failedRow now err j)\<lparr>jb_UpdatedAt := now\<rparr>"
    have "replaced j ?k s (fst (Queue_Fail q True now i w err0 s))"
      using False check_end(3) [OF ok assms(4)]
      by (simp add: Queue_Fail_def Let_def updateRow_owned [OF assms(1-3)] find_owned [OF assms(1-3)] replaced_def err_def [symmetric])
    moreover have "settledRow now b j ?k" by (simp add: settledRow_def failedRow_def)
    ultimately show ?thesis by blast
  qed
qed

lemma finalize_held:
  assumes "storeOk s" "j \<in> set (st_rows s)" "owned i w j" "started now j" "q_backoff q (jb_Attempts j) \<le> b"
    and "\<not> ex_lost f" "\<not> ex_drainExpired f" "jb_ID job = i"
  shows "\<exists>k. replaced j k s (finalize q True now job w f out s) \<and> settledRow now b j k"
proof -
  note ok = rows_ok [OF assms(1,2)]
  have s: "\<exists>k. replaced j k s (fst (Queue_Succeed q True now i w res s)) \<and> settledRow now b j k" for res
    unfolding Queue_Succeed_def
    by (intro exI conjI, rule finishOwned_held [OF assms(1-3)]) (simp_all add: check_end(1) [OF ok assms(4)], simp_all add: succeedRow_def settledRow_def)
  have c: "\<exists>k. replaced j k s (fst (Queue_MarkCanceled q True now i w msg s)) \<and> settledRow now b j k" for msg
    unfolding Queue_MarkCanceled_def
    by (intro exI conjI, rule finishOwned_held [OF assms(1-3)]) (simp_all add: check_end(2) [OF ok assms(4)], simp_all add: canceledRow_def settledRow_def)
  show ?thesis using s c Fail_held [OF assms(1-5)] assms(6-8) by (cases out) (auto simp: finalize_def)
qed

lemma execute_held:
  assumes "storeOk s" "j \<in> set (st_rows s)" "owned i w j" "started now j" "q_backoff q (jb_Attempts j) \<le> b" "jb_ID job = i"
    and "list_all quiet es"
  shows "\<exists>k. replaced j k s (execute q es out True now job w s) \<and> settledRow now b j k"
proof -
  let ?v = "\<lparr>wa_state = freshState, wa_canceled = False, wa_beating = True\<rparr>"
  obtain v1 s1 where f: "fold (watch q i w) es (?v, s) = (v1, s1)" by fastforce
  have "keptFlags ?v" by (simp add: keptFlags_def freshState_def)
  from watching_held [OF assms(7) this assms(1-3) f] obtain k
    where k: "keptFlags v1" "storeOk s1" "replaced j k s s1" "sameClaim j k" by blast
  have "started now k" "q_backoff q (jb_Attempts k) \<le> b" using k(4) assms(4,5) by (simp_all add: started_def sameClaim_def)
  with k(1) assms(6) have "\<exists>l. replaced k l s1 (finalize q True now job w (wa_state v1) out s1) \<and> settledRow now b k l"
    by (intro finalize_held [OF k(2) replaced_mem [OF k(3) assms(2)] sameClaim_owned(1) [OF k(4) assms(3)]]) (simp_all add: keptFlags_def)
  then obtain l where "replaced k l s1 (finalize q True now job w (wa_state v1) out s1)" "settledRow now b k l" by blast
  moreover then have "settledRow now b j l" using k(4) by (simp add: settledRow_def sameClaim_def sameJob_def)
  ultimately show ?thesis using replaced_trans [OF k(3)] f assms(6) by (auto simp: execute_def)
qed

lemma finalize_step: "storeOk s \<Longrightarrow> tableStep s (finalize q db now job w f out s)"
proof -
  assume ok: "storeOk s"
  have "tableStep s (fst (Queue_Succeed q db now i w res s))" "tableStep s (fst (Queue_MarkCanceled q db now i w msg s))"
    "tableStep s (fst (Queue_Release q db now i w msg s))" "tableStep s (fst (Queue_Fail q db now i w msg s))" for i res msg
    by (rule Succeed_step MarkCanceled_step Release_step Fail_step, rule surjective_pairing, rule ok)+
  then show ?thesis by (cases out) (simp_all add: finalize_def tableStep_refl)
qed

lemma execute_ok:
  assumes "storeOk s" "j \<in> set (st_rows s)" "owned i w j" "jb_ID job = i" "list_all quiet es"
  shows "storeOk (execute q es out db now job w s)"
proof -
  let ?v = "\<lparr>wa_state = freshState, wa_canceled = False, wa_beating = True\<rparr>"
  obtain v1 s1 where f: "fold (watch q i w) es (?v, s) = (v1, s1)" by fastforce
  have "keptFlags ?v" by (simp add: keptFlags_def freshState_def)
  from watching_held [OF assms(5) this assms(1-3) f] have "storeOk s1" by blast
  then show ?thesis using f assms(4) tableStep_ok [OF finalize_step] by (simp add: execute_def)
qed

section \<open>A slot that keeps taking turns\<close>

text \<open>The attempts the queued jobs still have.\<close>

definition need :: "Job \<Rightarrow> nat" where
  "need j = (if jb_Status j = StatusQueued then nat (jb_MaxAttempts j - jb_Attempts j) else 0)"

definition remaining :: "JobStore \<Rightarrow> nat" where
  "remaining s = sum_list (map need (st_rows s))"

definition idle :: "instant \<Rightarrow> Job \<Rightarrow> bool" where
  "idle t j \<longleftrightarrow> jb_Status j \<noteq> StatusRunning \<and> (jb_Status j = StatusQueued \<longrightarrow> jb_RunAt j \<le> t)"

definition answered :: "Turn \<Rightarrow> bool" where
  "answered tn \<longleftrightarrow> tn_claimDb tn \<and> tn_endDb tn \<and> tn_claimAt tn \<le> tn_endAt tn \<and> (\<forall>i. \<not> tn_locked tn i) \<and> (\<forall>job. list_all quiet (tn_events tn job))"

fun paced :: "int \<Rightarrow> instant \<Rightarrow> Turn list \<Rightarrow> bool" where
  "paced b t [] \<longleftrightarrow> True"
| "paced b t (tn # tns) \<longleftrightarrow> t \<le> tn_claimAt tn \<and> answered tn \<and> paced b (tn_endAt tn + b) tns"

lemma remaining_replaced:
  assumes "distinct (map jb_ID (st_rows s))" "j \<in> set (st_rows s)" "replaced j k s t"
  shows "remaining t + need j = remaining s + need k"
proof -
  have same: "jb_ID j \<notin> jb_ID ` set rows \<Longrightarrow> map (\<lambda>r. if jb_ID r = jb_ID j then k else r) rows = rows" for rows
    by (induction rows) auto
  have "distinct (map jb_ID rows) \<Longrightarrow> j \<in> set rows \<Longrightarrow>
      sum_list (map need (map (\<lambda>r. if jb_ID r = jb_ID j then k else r) rows)) + need j = sum_list (map need rows) + need k" for rows
  proof (induction rows)
    case (Cons r rows)
    show ?case
    proof (cases "r = j")
      case True
      then show ?thesis using Cons(2) same [of rows] by auto
    next
      case False
      then have "jb_ID r \<noteq> jb_ID j" using Cons(2,3) by auto
      then show ?thesis using Cons False by auto
    qed
  qed simp
  then show ?thesis using assms by (simp add: remaining_def replaced_def)
qed

lemma settled_need: "settledRow now b j1 k \<Longrightarrow> jb_Attempts j1 = jb_Attempts j + 1 \<Longrightarrow> jb_MaxAttempts j1 = jb_MaxAttempts j \<Longrightarrow>
    jb_Status j = StatusQueued \<Longrightarrow> jb_Attempts j < jb_MaxAttempts j \<Longrightarrow> need k < need j"
  by (auto simp: settledRow_def need_def)

lemma claim_due:
  assumes "storeOk s" "j \<in> set (st_rows s)" "jb_Status j = StatusQueued" "list_all (idle t) (st_rows s)" "t \<le> now" "w \<noteq> []"
  obtains j0 k s1 where "Queue_Claim q True now (\<lambda>_. False) w s = (s1, Inr k)" "j0 \<in> set (st_rows s)" "jb_Status j0 = StatusQueued"
    "k = (claimRow now w j0)\<lparr>jb_UpdatedAt := now\<rparr>" "replaced j0 k s s1"
proof -
  have c: "claimable now j" using assms(2-5) by (auto simp: claimable_def list_all_iff idle_def)
  then have "claimNext now (\<lambda>_. False) (st_rows s) \<noteq> None"
    using assms(2) by (cases "sort_key claimKey (filter (claimable now) (st_rows s))")
      (auto simp: claimNext_def filter_empty_conv dest!: arg_cong [where f = set])
  then obtain j0 where j0: "claimNext now (\<lambda>_. False) (st_rows s) = Some j0" by blast
  note m = claimNext_Some [OF j0]
  have ck: "checkRow ((claimRow now w j0)\<lparr>jb_UpdatedAt := now\<rparr>)"
    using rows_ok [OF assms(1) m(1)] m(2) by (auto simp: rowOk_def checkRow_def claimRow_def claimable_def active_def)
  have f: "find (\<lambda>j. jb_ID j = jb_ID j0) (st_rows s) = Some j0"
    using assms(1) m(1) by (intro find_id_unique) (simp_all add: storeOk_def)
  show thesis
  proof (rule that [OF _ m(1) _ refl])
    show "Queue_Claim q True now (\<lambda>_. False) w s =
        (jobs_notify q \<lparr>je_JobID = jb_ID j0, je_Kind = jb_Kind j0, je_Event = ''claimed'', je_Status = StatusRunning, je_Worker = w, je_Error = []\<rparr>
           (jobs_audit w ''job.claimed'' (jb_ID j0) (setRow ((claimRow now w j0)\<lparr>jb_UpdatedAt := now\<rparr>) s)), Inr ((claimRow now w j0)\<lparr>jb_UpdatedAt := now\<rparr>))"
      using ck assms(6) by (simp add: Queue_Claim_def j0 updateRow_def f Let_def) (simp add: claimRow_def)
    show "jb_Status j0 = StatusQueued" using m(2) by (simp add: claimable_def)
  qed (simp add: replaced_def claimRow_def)
qed

lemma turn_settles:
  assumes "storeOk s" "list_all (idle t) (st_rows s)" "t \<le> tn_claimAt tn" "answered tn" "w \<noteq> []" "\<And>a. q_backoff q a \<le> b" "0 \<le> b"
  shows "storeOk (claimTurn q reg w tn s) \<and> list_all (idle (tn_endAt tn + b)) (st_rows (claimTurn q reg w tn s)) \<and>
    remaining (claimTurn q reg w tn s) \<le> remaining s - 1"
proof -
  let ?now = "tn_claimAt tn" and ?s = "claimTurn q reg w tn s"
  have tn: "tn_claimDb tn" "tn_endDb tn" "?now \<le> tn_endAt tn" "tn_locked tn = (\<lambda>_. False)" "\<And>job. list_all quiet (tn_events tn job)"
    using assms(4) by (auto simp: answered_def)
  have later: "idle (tn_endAt tn + b) r" if "r \<in> set (st_rows s)" for r
    using assms(2,3,7) tn(3) that by (auto simp: list_all_iff idle_def)
  show ?thesis
  proof (cases "\<exists>j \<in> set (st_rows s). jb_Status j = StatusQueued")
    case True
    then obtain j where j: "j \<in> set (st_rows s)" "jb_Status j = StatusQueued" by blast
    obtain j0 k s1 where c: "Queue_Claim q True ?now (\<lambda>_. False) w s = (s1, Inr k)" "j0 \<in> set (st_rows s)" "jb_Status j0 = StatusQueued"
      "k = (claimRow ?now w j0)\<lparr>jb_UpdatedAt := ?now\<rparr>" "replaced j0 k s s1" by (rule claim_due [OF assms(1) j assms(2,3,5)])
    have k: "owned (jb_ID k) w k" "started (tn_endAt tn) k" "jb_Attempts k = jb_Attempts j0 + 1" "jb_MaxAttempts k = jb_MaxAttempts j0"
      using tn(3) by (simp_all add: c(4) claimRow_def owned_def started_def)
    have ok1: "storeOk s1" by (rule tableStep_ok [OF Claim_step [OF c(1) assms(1)] assms(1)])
    have m: "k \<in> set (st_rows s1)" by (rule replaced_mem [OF c(5,2)])
    have e: "?s = execute q (tn_events tn k) (runHandler reg k) True (tn_endAt tn) k w s1" using tn(1,2,4) c(1) by (simp add: claimTurn_def)
    have "storeOk ?s" unfolding e by (rule execute_ok [OF ok1 m k(1) refl tn(5)])
    obtain l where l: "replaced k l s1 ?s" "settledRow (tn_endAt tn) b k l"
      using execute_held [OF ok1 m k(1,2) assms(6) refl tn(5)] unfolding e by blast
    have r: "replaced j0 l s ?s" by (rule replaced_trans [OF c(5) l(1)])
    have "need l < need j0"
      by (rule settled_need [OF l(2) k(3,4) c(3)]) (use rows_ok [OF assms(1) c(2)] c(3) in \<open>simp add: rowOk_def\<close>)
    then have "remaining ?s \<le> remaining s - 1"
      using remaining_replaced [OF _ c(2) r] assms(1) by (simp add: storeOk_def)
    moreover have "idle (tn_endAt tn + b) l" using l(2) by (auto simp: settledRow_def idle_def)
    then have "list_all (idle (tn_endAt tn + b)) (st_rows ?s)" using r later by (auto simp: replaced_def list_all_iff)
    ultimately show ?thesis using \<open>storeOk ?s\<close> by simp
  next
    case False
    then have none: "claimNext ?now (\<lambda>_. False) (st_rows s) = None" by (auto simp: claimNext_def claimable_def split: list.splits)
    have s: "?s = s" using tn(1,4) assms(5) by (simp add: claimTurn_def Queue_Claim_def none)
    have "remaining s = 0" using False by (simp add: remaining_def need_def)
    then show ?thesis using s assms(1) later by (simp add: list_all_iff)
  qed
qed

lemma loop_settles:
  "paced b t tns \<Longrightarrow> storeOk s \<Longrightarrow> list_all (idle t) (st_rows s) \<Longrightarrow> w \<noteq> [] \<Longrightarrow> (\<And>a. q_backoff q a \<le> b) \<Longrightarrow> 0 \<le> b \<Longrightarrow>
   storeOk (claimLoop q reg w tns s) \<and> (\<exists>t'. list_all (idle t') (st_rows (claimLoop q reg w tns s))) \<and>
   remaining (claimLoop q reg w tns s) \<le> remaining s - length tns"
proof (induction b t tns arbitrary: s rule: paced.induct)
  case (2 b t tn tns)
  let ?s = "claimTurn q reg w tn s"
  have p: "t \<le> tn_claimAt tn" "answered tn" "paced b (tn_endAt tn + b) tns" using 2(2) by auto
  have st: "storeOk ?s" "list_all (idle (tn_endAt tn + b)) (st_rows ?s)" "remaining ?s \<le> remaining s - 1"
    using turn_settles [OF 2(3,4) p(1,2) 2(5,6,7)] by blast+
  show ?case using 2(1) [OF p(3) st(1,2) 2(5,6,7)] st(3) by fastforce
qed auto

lemma idle_settled:
  assumes "storeOk s" "list_all (idle t) (st_rows s)" "remaining s = 0"
  shows "list_all (\<lambda>j. Status_Terminal (jb_Status j)) (st_rows s)"
proof -
  have "Status_Terminal (jb_Status j)" if "j \<in> set (st_rows s)" for j
  proof -
    have "need j = 0" "rowOk j" "idle t j" using assms that by (auto simp: remaining_def storeOk_def list_all_iff)
    then show ?thesis by (cases "jb_Status j") (auto simp: need_def rowOk_def idle_def)
  qed
  then show ?thesis by (simp add: list_all_iff)
qed

section \<open>Reaping\<close>

definition reaped :: "instant \<Rightarrow> Job \<Rightarrow> Job" where
  "reaped now j = (reapRow now j)\<lparr>jb_UpdatedAt := now\<rparr>"

lemma reaped_sel [simp]: "jb_ID (reaped now j) = jb_ID j" "jb_Status (reaped now j) \<noteq> StatusRunning" "\<not> staleRow t sa (reaped now j)"
  by (simp_all add: reaped_def staleRow_def)

lemma reaped_check: "rowOk j \<Longrightarrow> started now j \<Longrightarrow> checkRow (reaped now j)"
  by (auto simp: reaped_def reapRow_def check_end check_requeue)

lemma total_simps: "ReapStats_Total (addStats a b) = ReapStats_Total a + ReapStats_Total b" "ReapStats_Total (reapCount j) = 1" "ReapStats_Total noStats = 0"
  by (simp_all add: ReapStats_Total_def addStats_def reapCount_def noStats_def)

lemma reapEach_rows:
  "distinct (map jb_ID (st_rows s)) \<Longrightarrow> distinct (map jb_ID js) \<Longrightarrow> set js \<subseteq> set (st_rows s) \<Longrightarrow> list_all (\<lambda>j. rowOk j \<and> started now j) js \<Longrightarrow>
   \<exists>s' stats'. reapEach now js s stats = Inr (s', stats') \<and> st_rows s' = map (\<lambda>r. if r \<in> set js then reaped now r else r) (st_rows s) \<and>
     ReapStats_Total stats' = ReapStats_Total stats + length js"
proof (induction js arbitrary: s stats)
  case (Cons j js)
  have f: "find (\<lambda>r. jb_ID r = jb_ID j) (st_rows s) = Some j" using Cons(2,4) by (intro find_id_unique) auto
  have "checkRow (reaped now j)" using Cons(5) reaped_check by simp
  then have u: "updateRow now (\<lambda>r. jb_ID r = jb_ID j) (\<lambda>_. reapRow now j) s = Inr (Some (setRow (reaped now j) s, reaped now j))"
    by (simp add: updateRow_def f reaped_def Let_def)
  let ?s1 = "jobs_audit ''reaper'' (reapAction j) (jb_ID j) (setRow (reaped now j) s)"
  have id: "r = j" if "r \<in> set (st_rows s)" "jb_ID r = jb_ID j" for r using Cons(2,4) that by (auto simp: distinct_map dest: inj_onD)
  have rows: "st_rows ?s1 = map (\<lambda>r. if r = j then reaped now r else r) (st_rows s)" using id by auto
  have nj: "j \<notin> set js" "reaped now j \<notin> set js" using Cons(3) by (auto simp: image_iff)
  have "map jb_ID (st_rows ?s1) = map jb_ID (st_rows s)" unfolding rows by (induction "st_rows s") auto
  then have d: "distinct (map jb_ID (st_rows ?s1))" using Cons(2) by (simp only:)
  have sub: "set js \<subseteq> set (st_rows ?s1)" unfolding rows using Cons(4) nj(1) by auto
  obtain s' stats' where "reapEach now js ?s1 (addStats stats (reapCount j)) = Inr (s', stats')"
    "st_rows s' = map (\<lambda>r. if r \<in> set js then reaped now r else r) (st_rows ?s1)"
    "ReapStats_Total stats' = ReapStats_Total (addStats stats (reapCount j)) + length js"
    using Cons(1) [OF d _ sub, of "addStats stats (reapCount j)"] Cons(3,5) by (fastforce simp del: store_aux)
  then show ?case using nj u unfolding rows by (auto simp: total_simps)
qed simp

lemma reapBatch_rows:
  assumes "storeOk s" "list_all (\<lambda>j. jb_Status j = StatusRunning \<longrightarrow> started now j) (st_rows s)"
  shows "\<exists>s' stats. Queue_reapBatch q True now (\<lambda>_. False) sa limit s = (s', Inr (length (take limit (staleRows now sa (\<lambda>_. False) (st_rows s))), stats)) \<and>
    st_rows s' = map (\<lambda>r. if r \<in> set (take limit (staleRows now sa (\<lambda>_. False) (st_rows s))) then reaped now r else r) (st_rows s) \<and>
    ReapStats_Total stats = length (take limit (staleRows now sa (\<lambda>_. False) (st_rows s)))"
proof -
  let ?f = "take limit (staleRows now sa (\<lambda>_. False) (st_rows s))"
  have "distinct (map jb_ID (filter P (st_rows s)))" for P using assms(1) by (simp add: storeOk_def distinct_map_filter)
  then have "distinct (map jb_ID (staleRows now sa (\<lambda>_. False) (st_rows s)))" by (simp add: staleRows_def distinct_map inj_on_def)
  then have d: "distinct (map jb_ID ?f)" by (simp add: take_map flip: take_map)
  have m: "j \<in> set (st_rows s) \<and> rowOk j \<and> started now j" if "j \<in> set ?f" for j
    using in_set_takeD [OF that] assms by (auto simp: staleRows_set staleRow_def storeOk_def list_all_iff)
  obtain s' stats where "reapEach now ?f s noStats = Inr (s', stats)" "st_rows s' = map (\<lambda>r. if r \<in> set ?f then reaped now r else r) (st_rows s)"
    "ReapStats_Total stats = length ?f"
    using reapEach_rows [of s ?f now noStats] assms(1) d m by (auto simp: storeOk_def list_all_iff total_simps)
  then show ?thesis by (cases "?f = []") (auto simp: Queue_reapBatch_def Let_def total_simps)
qed

lemma running_reaped:
  assumes "\<And>r. r \<in> set fs \<Longrightarrow> r \<in> set rows \<and> jb_Status r = StatusRunning" "distinct rows" "distinct fs"
  shows "length (filter (\<lambda>j. jb_Status j = StatusRunning) (map (\<lambda>r. if r \<in> set fs then reaped now r else r) rows)) + length fs =
    length (filter (\<lambda>j. jb_Status j = StatusRunning) rows)"
proof -
  have "length (filter (\<lambda>j. jb_Status j = StatusRunning) (map (\<lambda>r. if r \<in> set fs then reaped now r else r) xs)) + length (filter (\<lambda>r. r \<in> set fs) xs) =
      length (filter (\<lambda>j. jb_Status j = StatusRunning) xs)" for xs
    using assms(1) by (induction xs) auto
  moreover have "length (filter (\<lambda>r. r \<in> set fs) rows) = length fs"
  proof -
    have "set (filter (\<lambda>r. r \<in> set fs) rows) = set fs" using assms(1) by auto
    then show ?thesis using distinct_card [OF assms(3)] distinct_card [OF distinct_filter [OF assms(2)], of "\<lambda>r. r \<in> set fs"] by simp
  qed
  ultimately show ?thesis by (metis (no_types))
qed

definition reapStep :: "(nat \<Rightarrow> instant) \<Rightarrow> int \<Rightarrow> Job \<Rightarrow> Job \<Rightarrow> bool" where
  "reapStep now sa r r' \<longleftrightarrow> r' = r \<or> (\<exists>k. staleRow (now k) sa r \<and> r' = reaped (now k) r)"

lemma reapStep_eq: "reapStep now sa = (\<lambda>r r'. r' = r \<or> (\<exists>k. staleRow (now k) sa r \<and> r' = (reapRow (now k) r)\<lparr>jb_UpdatedAt := now k\<rparr>))"
  by (intro ext) (simp add: reapStep_def reaped_def)

lemma reapStep_trans: "reapStep now sa r r' \<Longrightarrow> reapStep now sa r' r'' \<Longrightarrow> reapStep now sa r r''"
  by (auto simp: reapStep_def)

declare reapLoop.simps [simp del]

lemma loop_last:
  "Queue_reapBatch q True (now k) (\<lambda>_. False) sa reapBatchSize s = (s1, Inr (n, b)) \<Longrightarrow> n < reapBatchSize \<Longrightarrow>
   reapLoop q (\<lambda>_. True) now (\<lambda>_ _. False) sa k stats s = (s1, addStats stats b, None)"
  by (subst reapLoop.simps) simp

lemma loop_more:
  "Queue_reapBatch q True (now k) (\<lambda>_. False) sa reapBatchSize s = (s1, Inr (n, b)) \<Longrightarrow> \<not> n < reapBatchSize \<Longrightarrow>
   reapLoop q (\<lambda>_. True) now (\<lambda>_ _. False) sa k stats s = reapLoop q (\<lambda>_. True) now (\<lambda>_ _. False) sa (Suc k) (addStats stats b) s1"
  by (subst reapLoop.simps) simp

lemma reapLoop_rows:
  "storeOk s \<Longrightarrow> list_all (\<lambda>j. jb_Status j = StatusRunning \<longrightarrow> started (now 0) j) (st_rows s) \<Longrightarrow> mono now \<Longrightarrow>
   \<exists>s' stats'. reapLoop q (\<lambda>_. True) now (\<lambda>_ _. False) sa k stats s = (s', stats', None) \<and> list_all2 (reapStep now sa) (st_rows s) (st_rows s') \<and>
     list_all (\<lambda>j. \<not> staleRow (now 0) sa j) (st_rows s') \<and> ReapStats_Total stats' + runningCount s' = ReapStats_Total stats + runningCount s"
proof (induction "runningCount s" arbitrary: s k stats rule: less_induct)
  case less
  let ?n = "now k" and ?f = "take reapBatchSize (staleRows (now k) sa (\<lambda>_. False) (st_rows s))"
  have le: "now 0 \<le> ?n" using less(4) by (simp add: monoD)
  then have st: "list_all (\<lambda>j. jb_Status j = StatusRunning \<longrightarrow> started ?n j) (st_rows s)"
    using less(3) by (fastforce simp: list_all_iff started_def)
  obtain s1 b where b: "Queue_reapBatch q True ?n (\<lambda>_. False) sa reapBatchSize s = (s1, Inr (length ?f, b))"
    "st_rows s1 = map (\<lambda>r. if r \<in> set ?f then reaped ?n r else r) (st_rows s)" "ReapStats_Total b = length ?f"
    using reapBatch_rows [OF less(2) st] by blast
  have mem: "r \<in> set (st_rows s) \<and> staleRow ?n sa r" if "r \<in> set ?f" for r using in_set_takeD [OF that] by (auto simp: staleRows_set)
  have steps: "list_all2 (reapStep now sa) (st_rows s) (st_rows s1)"
    unfolding b(2) list.rel_map(2) by (rule list.rel_refl_strong) (use mem in \<open>auto simp: reapStep_def simp del: set_take_subset\<close>)
  have "distinct (st_rows s)" using less(2) by (simp add: storeOk_def distinct_map)
  moreover then have "distinct ?f" by (simp add: staleRows_def)
  ultimately have count: "runningCount s1 + length ?f = runningCount s"
    unfolding runningCount_def b(2) by (rule running_reaped [rotated]) (use mem staleRow_def in blast)
  show ?case
  proof (cases "length ?f < reapBatchSize")
    case True
    then have all: "?f = staleRows ?n sa (\<lambda>_. False) (st_rows s)" by simp
    have "\<not> staleRow (now 0) sa r" if "r \<in> set (st_rows s)" "r \<notin> set ?f" for r
    proof -
      have "\<not> staleRow ?n sa r" using that unfolding all staleRows_set by simp
      then show ?thesis using le by (cases "jb_HeartbeatAt r") (auto simp: staleRow_def)
    qed
    then have "list_all (\<lambda>j. \<not> staleRow (now 0) sa j) (st_rows s1)" unfolding b(2) list_all_iff by fastforce
    then show ?thesis using True b(1,3) steps count by (simp add: total_simps loop_last [where now = now and k = k, OF b(1)])
  next
    case False
    have "runningCount s1 < runningCount s" using count False by (simp add: reapBatchSize_def)
    moreover have "storeOk s1" by (rule table_run_ok [OF reapBatch_steps [OF b(1) less(2)] less(2)])
    moreover have "list_all (\<lambda>j. jb_Status j = StatusRunning \<longrightarrow> started (now 0) j) (st_rows s1)"
      using less(3) by (auto simp: b(2) list_all_iff)
    ultimately have "\<exists>s' stats'. reapLoop q (\<lambda>_. True) now (\<lambda>_ _. False) sa (Suc k) (addStats stats b) s1 = (s', stats', None) \<and>
        list_all2 (reapStep now sa) (st_rows s1) (st_rows s') \<and> list_all (\<lambda>j. \<not> staleRow (now 0) sa j) (st_rows s') \<and>
        ReapStats_Total stats' + runningCount s' = ReapStats_Total (addStats stats b) + runningCount s1"
      by (rule less(1) [OF _ _ _ less(4)])
    then obtain s' stats' where r: "reapLoop q (\<lambda>_. True) now (\<lambda>_ _. False) sa (Suc k) (addStats stats b) s1 = (s', stats', None)"
      "list_all2 (reapStep now sa) (st_rows s1) (st_rows s')" "list_all (\<lambda>j. \<not> staleRow (now 0) sa j) (st_rows s')"
      "ReapStats_Total stats' + runningCount s' = ReapStats_Total (addStats stats b) + runningCount s1" by blast
    have "list_all2 (reapStep now sa) (st_rows s) (st_rows s')" by (rule list_all2_trans [OF _ steps r(2)]) (rule reapStep_trans)
    then show ?thesis using False b(1,3) r count by (simp add: total_simps loop_more [where now = now and k = k, OF b(1)])
  qed
qed

section \<open>One active row per key\<close>

lemma active_key_unique:
  "distinct (activeKeys rows) \<Longrightarrow> r \<in> set rows \<Longrightarrow> j \<in> set rows \<Longrightarrow> activeWith (Some k) r \<Longrightarrow> activeWith (Some k) j \<Longrightarrow> r = j"
proof (induction rows)
  case (Cons a rows)
  have "set (keyOf a) \<inter> set (activeKeys rows) = {}" "distinct (activeKeys rows)" using Cons(2) by (auto simp: activeKeys_def)
  moreover have "activeWith (Some k) x \<Longrightarrow> x \<in> set rows \<Longrightarrow> k \<in> set (activeKeys rows)" for x by (auto simp: activeKeys_iff list_ex_iff)
  ultimately show ?case using Cons keyOf_iff(1) [of k a] by auto
qed simp

lemma Enqueue_keyed:
  assumes "storeOk s" "ep_Kind p \<noteq> []" "ep_DedupeKey p \<noteq> []"
  shows "\<exists>s' j existed. Queue_Enqueue q (\<lambda>_. True) (\<lambda>_ s. s) now p s = (s', Inr (j, existed)) \<and>
    j \<in> set (st_rows s') \<and> (\<forall>r \<in> set (st_rows s'). activeWith (Some (ep_DedupeKey p)) r \<longleftrightarrow> r = j) \<and>
    (existed \<longleftrightarrow> list_ex (activeWith (Some (ep_DedupeKey p))) (st_rows s)) \<and> (existed \<longrightarrow> st_rows s' = st_rows s) \<and>
    (\<not> existed \<longrightarrow> st_rows s' = st_rows s @ [j] \<and> jb_ID j = st_nextID s)"
proof -
  let ?k = "Some (ep_DedupeKey p)"
  define mx where "mx = (if ep_MaxAttempts p < 1 then 1 else ep_MaxAttempts p)"
  define ra where "ra = (if IsZero (ep_RunAt p) then None else Some (t_ns (ep_RunAt p)))"
  define j0 where "j0 = newRow now p (marshalObject (ep_Payload p)) ra mx ?k (st_nextID s)"
  have n: "checkRow j0" "activeWith ?k j0" "jb_ID j0 = st_nextID s"
    using assms(2,3) by (simp_all add: j0_def mx_def checkRow_def newRow_def activeWith_def active_def)
  have e: "Queue_Enqueue q (\<lambda>_. True) (\<lambda>_ s. s) now p s = enqueueLoop (Suc 2) q (\<lambda>_. True) (\<lambda>_ s. s) now p (marshalObject (ep_Payload p)) ra mx ?k s"
    using assms(2,3) by (simp add: Queue_Enqueue_def dedupeRaces_def numeral_3_eq_3 numeral_2_eq_2 mx_def ra_def del: enqueueLoop.simps)
  show ?thesis
  proof (cases "list_ex (activeWith ?k) (st_rows s)")
    case True
    let ?l = "sort_key (\<lambda>j. - jb_ID j) (filter (activeWith ?k) (st_rows s))"
    obtain j rest where l: "?l = j # rest" using True by (cases ?l) (auto simp: list_ex_iff dest!: arg_cong [where f = set])
    have "set ?l = set (j # rest)" by (simp only: l)
    then have j: "j \<in> set (st_rows s)" "activeWith ?k j" by auto
    have "(activeWith ?k r) = (r = j)" if "r \<in> set (st_rows s)" for r
      using active_key_unique [OF _ that j(1) _ j(2)] j(2) assms(1) by (auto simp: storeOk_def)
    then show ?thesis using True n(1) l j(1) unfolding e enqueueLoop.simps by (simp add: tryInsert_def Let_def selectActive_def flip: j0_def) blast
  next
    case False
    then have "\<not> activeWith ?k r" if "r \<in> set (st_rows s)" for r using that by (simp add: list_ex_iff)
    then show ?thesis using False n unfolding e enqueueLoop.simps by (simp add: tryInsert_def Let_def flip: j0_def) blast
  qed
qed

section \<open>A small queue\<close>

definition demoQueue :: Queue where
  "demoQueue = \<lparr>q_hasNotifier = True, q_backoff = defaultBackoff\<rparr>"

definition demoParams :: "int \<Rightarrow> string \<Rightarrow> EnqueueParams" where
  "demoParams pri key = \<lparr>ep_Kind = ''backtest'', ep_Payload = None, ep_DedupeKey = key, ep_Priority = pri, ep_RunAt = zeroTime, ep_MaxAttempts = 2, ep_Actor = ''cli''\<rparr>"

definition demoStore :: JobStore where
  "demoStore = \<lparr>st_rows = [newRow 0 (demoParams 0 ''a'') ''{}'' None 2 (Some ''a'') 1, newRow 0 (demoParams 5 ''b'') ''{}'' None 1 None 2],
     st_nextID = 3, st_audit = [], st_events = []\<rparr>"

definition demoRegistry :: Registry where
  "demoRegistry = [(''backtest'', \<lambda>j. if jb_ID j = 2 then HandlerDone None else HandlerErr ''boom'' False)]"

definition demoTurn :: "instant \<Rightarrow> Turn" where
  "demoTurn t = \<lparr>tn_claimAt = t, tn_claimDb = True, tn_locked = (\<lambda>_. False), tn_events = (\<lambda>_. [Beat True (t + 1)]), tn_endAt = t + 2, tn_endDb = True\<rparr>"

definition demoTurns :: "Turn list" where
  "demoTurns = [demoTurn 0, demoTurn 1000000000000, demoTurn 2000000000000]"

definition reclaimedStore :: JobStore where
  "reclaimedStore =
     fst (Queue_Claim demoQueue True 200 (\<lambda>i. i = 2) ''w''
       (fst (Queue_reapBatch demoQueue True 100 (\<lambda>_. False) 50 100 (fst (Queue_Claim demoQueue True 10 (\<lambda>i. i = 2) ''w'' demoStore)))))"

definition staleStore :: JobStore where
  "staleStore = fst (Queue_Claim demoQueue True 10 (\<lambda>_. False) ''w'' demoStore)"

definition finishedStore :: JobStore where
  "finishedStore = fst (Queue_Succeed demoQueue True 20 2 ''w'' None staleStore)"

lemma demo_facts:
  "storeOk demoStore \<and> storeOk staleStore \<and> storeOk finishedStore \<and> storeOk reclaimedStore \<and> list_all (idle 0) (st_rows demoStore) \<and> remaining demoStore = 3 \<and>
   map jb_Status (st_rows staleStore) = [StatusQueued, StatusRunning] \<and> map jb_Status (st_rows finishedStore) = [StatusQueued, StatusSucceeded] \<and>
   list_ex (owned 1 ''w'') (st_rows reclaimedStore) \<and> map jb_Attempts (st_rows reclaimedStore) = [2, 0] \<and>
   map jb_ID (st_rows demoStore) = [1, 2] \<and> map jb_ID (st_rows staleStore) = [1, 2] \<and> map jb_ClaimedBy (st_rows staleStore) = [None, Some ''w''] \<and>
   map jb_StartedAt (st_rows staleStore) = [None, Some 10] \<and> map jb_StartedAt (st_rows reclaimedStore) = [Some 200, None] \<and>
   map jb_ID (st_rows reclaimedStore) = [1, 2]"
  by code_simp

section \<open>What the queue guarantees\<close>

lemma defaultBackoff_cap: "defaultBackoff a \<le> defaultRetryCap"
  by (simp add: defaultBackoff_def)

text \<open>C18. Refinement and invariant. Whatever sequence of inserts, claims, heartbeats, progress reports, successes, failures, cancels, releases and reaps any
  number of clients run against the table, each one changes rows only along the job lifecycle (or appends one fresh queued row), and ids stay unique,
  attempts stay within their maximum and at most one active job holds a dedupe key.\<close>

theorem queue_refines_lifecycle:
  assumes "(queue_step q)\<^sup>*\<^sup>* s s'" "storeOk s"
  shows "tableStep\<^sup>*\<^sup>* s s' \<and> storeOk s'"
  using anyone.run_refines [OF assms] anyone.run_ok [OF assms] by blast

theorem queue_refines_lifecycle_witness: "tableStep\<^sup>*\<^sup>* demoStore staleStore \<and> storeOk staleStore"
proof (rule queue_refines_lifecycle [of demoQueue])
  have "queue_step demoQueue demoStore staleStore" unfolding staleStore_def by (rule queue_step.claim) (rule surjective_pairing)
  then show "(queue_step demoQueue)\<^sup>*\<^sup>* demoStore staleStore" by blast
qed (use demo_facts in blast)

text \<open>A job that has succeeded, failed or been canceled is final: no later sequence of queue operations by anyone changes any field of
  its row or removes it.\<close>

theorem finished_jobs_are_final:
  assumes "(queue_step q)\<^sup>*\<^sup>* s s'" "storeOk s" "j \<in> set (st_rows s)" "Status_Terminal (jb_Status j)"
  shows "j \<in> set (st_rows s')"
  by (rule anyone.run_keeps_finished [OF assms])

theorem finished_jobs_are_final_witness:
  "st_rows finishedStore ! 1 \<in> set (st_rows (fst (Queue_Fail demoQueue True 30 2 ''w'' ''late'' finishedStore)))"
proof (rule finished_jobs_are_final [of demoQueue finishedStore])
  have "queue_step demoQueue finishedStore (fst (Queue_Fail demoQueue True 30 2 ''w'' ''late'' finishedStore))"
    by (rule queue_step.fail) (rule surjective_pairing)
  then show "(queue_step demoQueue)\<^sup>*\<^sup>* finishedStore (fst (Queue_Fail demoQueue True 30 2 ''w'' ''late'' finishedStore))" by blast
  have m: "map jb_Status (st_rows finishedStore) = [StatusQueued, StatusSucceeded]" using demo_facts by blast
  then have l: "1 < length (st_rows finishedStore)" by (metis length_map length_Cons lessI One_nat_def list.size(3))
  then show "st_rows finishedStore ! 1 \<in> set (st_rows finishedStore)" by simp
  have "jb_Status (st_rows finishedStore ! 1) = map jb_Status (st_rows finishedStore) ! 1" using l by simp
  then show "Status_Terminal (jb_Status (st_rows finishedStore ! 1))" unfolding m by simp
qed (use demo_facts in blast)

text \<open>A claim takes exactly one due and unlocked queued job, the one with the highest priority, then the earliest run time, then the smallest
  id, and hands it to the worker with one more attempt; without such a job it returns the no-job error, and in that case the store is unchanged.\<close>

theorem claim_takes_most_urgent:
  assumes "storeOk s" "workerID \<noteq> []"
  shows "case Queue_Claim q True now locked workerID s of
      (s', Inl err) \<Rightarrow> s' = s \<and> (err = ErrNoJob \<longleftrightarrow> list_all (\<lambda>j. \<not> claimable now j \<or> locked (jb_ID j)) (st_rows s))
    | (s', Inr k) \<Rightarrow>
        (\<exists>j \<in> set (st_rows s). claimable now j \<and> \<not> locked (jb_ID j) \<and> k = (claimRow now workerID j)\<lparr>jb_UpdatedAt := now\<rparr> \<and>
           st_rows s' = map (\<lambda>r. if jb_ID r = jb_ID j then k else r) (st_rows s) \<and>
           (\<forall>r \<in> set (st_rows s). claimable now r \<and> \<not> locked (jb_ID r) \<longrightarrow>
              (- jb_Priority j, jb_RunAt j, jb_ID j) \<le> (- jb_Priority r, jb_RunAt r, jb_ID r)))"
proof (cases "claimNext now locked (st_rows s)")
  case None
  then have "list_all (\<lambda>j. \<not> claimable now j \<or> locked (jb_ID j)) (st_rows s)"
    by (cases "sort_key claimKey (filter (\<lambda>j. claimable now j \<and> \<not> locked (jb_ID j)) (st_rows s))")
       (auto simp: claimNext_def list_all_iff dest!: arg_cong [where f = set])
  then show ?thesis using assms(2) None by (simp add: Queue_Claim_def)
next
  case (Some j)
  note m = claimNext_Some [OF Some]
  have ck: "checkRow ((claimRow now workerID j)\<lparr>jb_UpdatedAt := now\<rparr>)"
    using rows_ok [OF assms(1) m(1)] m(2) by (auto simp: rowOk_def checkRow_def claimRow_def claimable_def active_def)
  have f: "find (\<lambda>r. jb_ID r = jb_ID j) (st_rows s) = Some j" using assms(1) m(1) by (intro find_id_unique) (simp_all add: storeOk_def)
  have "jb_ID (claimRow now workerID j) = jb_ID j" by (simp add: claimRow_def)
  then show ?thesis using assms(2) m ck by (auto simp: Queue_Claim_def Some updateRow_def f Let_def claimKey_def)
qed

theorem claim_takes_most_urgent_witness:
  "case Queue_Claim demoQueue True 10 (\<lambda>_. False) ''w'' demoStore of
      (s', Inl err) \<Rightarrow> s' = demoStore \<and> (err = ErrNoJob \<longleftrightarrow> list_all (\<lambda>j. \<not> claimable 10 j \<or> False) (st_rows demoStore))
    | (s', Inr k) \<Rightarrow>
        (\<exists>j \<in> set (st_rows demoStore). claimable 10 j \<and> \<not> False \<and> k = (claimRow 10 ''w'' j)\<lparr>jb_UpdatedAt := 10\<rparr> \<and>
           st_rows s' = map (\<lambda>r. if jb_ID r = jb_ID j then k else r) (st_rows demoStore) \<and>
           (\<forall>r \<in> set (st_rows demoStore). claimable 10 r \<and> \<not> False \<longrightarrow>
              (- jb_Priority j, jb_RunAt j, jb_ID j) \<le> (- jb_Priority r, jb_RunAt r, jb_ID r)))"
  by (rule claim_takes_most_urgent) (use demo_facts in simp_all)

text \<open>A worker whose claim is gone (the job was finished, reaped, or is now run by another worker) gets the lost-claim error from the
  heartbeat, from a progress report and from every attempt to record an outcome, and changes nothing.\<close>

theorem lost_claim_writes_nothing:
  assumes "storeOk s" "j \<in> set (st_rows s)" "jb_Status j \<noteq> StatusRunning \<or> jb_ClaimedBy j \<noteq> Some workerID"
  shows "Queue_Heartbeat True now (jb_ID j) workerID s = (s, Inl ErrLostClaim) \<and>
    Queue_ReportProgress q True now (jb_ID j) workerID progress s = (s, Inl ErrLostClaim) \<and>
    Queue_Succeed q True now (jb_ID j) workerID result s = (s, Inl ErrLostClaim) \<and>
    Queue_MarkCanceled q True now (jb_ID j) workerID reason s = (s, Inl ErrLostClaim) \<and>
    Queue_Release q True now (jb_ID j) workerID reason s = (s, Inl ErrLostClaim) \<and>
    Queue_Fail q True now (jb_ID j) workerID reason s = (s, Inl ErrLostClaim)"
proof -
  have "find (owned (jb_ID j) workerID) (st_rows s) = None"
  proof (rule ccontr)
    assume "find (owned (jb_ID j) workerID) (st_rows s) \<noteq> None"
    then obtain r where r: "find (owned (jb_ID j) workerID) (st_rows s) = Some r" by blast
    have "r = j" using owned_unique(1,2) [OF assms(1) r] assms(1,2) by (auto simp: storeOk_def owned_def distinct_map dest: inj_onD)
    then show False using owned_unique(2) [OF assms(1) r] assms(3) by (simp add: owned_def)
  qed
  then show ?thesis
    by (simp add: Queue_Heartbeat_def Queue_ReportProgress_def Queue_Succeed_def Queue_MarkCanceled_def Queue_Release_def Queue_Fail_def finishOwned_def
        updateRow_def)
qed

theorem lost_claim_writes_nothing_witness:
  "Queue_Succeed demoQueue True 30 (jb_ID (hd (st_rows demoStore))) ''v'' None demoStore = (demoStore, Inl ErrLostClaim)"
proof -
  have "hd (st_rows demoStore) \<in> set (st_rows demoStore)" "jb_ClaimedBy (hd (st_rows demoStore)) \<noteq> Some ''v''"
    by (simp_all add: demoStore_def newRow_def)
  then show ?thesis using lost_claim_writes_nothing [of demoStore "hd (st_rows demoStore)" "''v''" 30 demoQueue None None "[]"] demo_facts by blast
qed



text \<open>C20. Functional. Reaping settles every claim whose heartbeat is older than the limit: each such job is canceled when a cancel was requested, failed when its
  attempts are used up and queued again otherwise, no other row changes, none is left stale, and the counts add up to the claims recovered,
  however many batches of one hundred that takes.\<close>

theorem reap_recovers_stale:
  assumes "storeOk s" "mono now" "0 < staleAfter" "list_all (\<lambda>j. jb_Status j = StatusRunning \<longrightarrow> started (now 0) j) (st_rows s)"
  shows "\<exists>s' stats. Queue_ReapStale q (\<lambda>_. True) now (\<lambda>_ _. False) staleAfter s = (s', stats, None) \<and>
    list_all2 (\<lambda>r r'. r' = r \<or> (\<exists>k. staleRow (now k) staleAfter r \<and> r' = (reapRow (now k) r)\<lparr>jb_UpdatedAt := now k\<rparr>)) (st_rows s) (st_rows s') \<and>
    list_all (\<lambda>j. \<not> staleRow (now 0) staleAfter j) (st_rows s') \<and> ReapStats_Total stats + runningCount s' = runningCount s"
  using reapLoop_rows [OF assms(1,4,2), of q staleAfter 0 noStats] assms(3)
  by (simp add: Queue_ReapStale_def total_simps reapStep_eq)

theorem reap_recovers_stale_witness:
  "\<exists>s' stats. Queue_ReapStale demoQueue (\<lambda>_. True) (\<lambda>_. 100) (\<lambda>_ _. False) 50 staleStore = (s', stats, None) \<and>
    list_all2 (\<lambda>r r'. r' = r \<or> (\<exists>k :: nat. staleRow 100 50 r \<and> r' = (reapRow 100 r)\<lparr>jb_UpdatedAt := 100\<rparr>)) (st_rows staleStore) (st_rows s') \<and>
    list_all (\<lambda>j. \<not> staleRow 100 50 j) (st_rows s') \<and> ReapStats_Total stats + runningCount s' = runningCount staleStore"
proof (rule reap_recovers_stale)
  show "list_all (\<lambda>j. jb_Status j = StatusRunning \<longrightarrow> started 100 j) (st_rows staleStore)"
  proof -
    have "map jb_StartedAt (st_rows staleStore) = [None, Some 10]" "map jb_Status (st_rows staleStore) = [StatusQueued, StatusRunning]"
      using demo_facts by blast+
    then show ?thesis by (auto simp: map_eq_Cons_conv started_def)
  qed
qed (use demo_facts in \<open>simp_all add: mono_def\<close>)

text \<open>An enqueue with a dedupe key leaves exactly one active job with that key: when one was active it is returned and marked as existing and no
  row changes, otherwise the new job is appended and returned.\<close>

theorem enqueue_dedupes:
  assumes "storeOk s" "ep_Kind p \<noteq> []" "ep_DedupeKey p \<noteq> []"
  shows "\<exists>s' j existed. Queue_Enqueue q (\<lambda>_. True) (\<lambda>_ s. s) now p s = (s', Inr (j, existed)) \<and>
    j \<in> set (st_rows s') \<and> (\<forall>r \<in> set (st_rows s'). activeWith (Some (ep_DedupeKey p)) r \<longleftrightarrow> r = j) \<and>
    (existed \<longleftrightarrow> list_ex (activeWith (Some (ep_DedupeKey p))) (st_rows s)) \<and> (existed \<longrightarrow> st_rows s' = st_rows s) \<and>
    (\<not> existed \<longrightarrow> st_rows s' = st_rows s @ [j] \<and> jb_ID j = st_nextID s)"
  by (rule Enqueue_keyed [OF assms])

theorem enqueue_dedupes_witness:
  "\<exists>s' j existed. Queue_Enqueue demoQueue (\<lambda>_. True) (\<lambda>_ s. s) 5 (demoParams 1 ''a'') demoStore = (s', Inr (j, existed)) \<and>
    j \<in> set (st_rows s') \<and> (\<forall>r \<in> set (st_rows s'). activeWith (Some (ep_DedupeKey (demoParams 1 ''a''))) r \<longleftrightarrow> r = j) \<and>
    (existed \<longleftrightarrow> list_ex (activeWith (Some (ep_DedupeKey (demoParams 1 ''a'')))) (st_rows demoStore)) \<and> (existed \<longrightarrow> st_rows s' = st_rows demoStore) \<and>
    (\<not> existed \<longrightarrow> st_rows s' = st_rows demoStore @ [j] \<and> jb_ID j = st_nextID demoStore)"
  by (rule enqueue_dedupes) (use demo_facts in \<open>simp_all add: demoParams_def\<close>)

text \<open>The fence of a claim is the worker id alone, and all slots of a worker share it: when a job was reaped and claimed again by another slot of
  the same worker (a later attempt), the slot of the earlier attempt still passes the heartbeat and its result finishes the job under the newer
  execution.\<close>

theorem reclaim_by_same_worker_unnoticed:
  assumes "storeOk s" "k \<in> set (st_rows s)" "owned (jb_ID k) workerID k" "started now k" "jb_ID job = jb_ID k" "jb_Attempts job < jb_Attempts k"
  shows "snd (Queue_Heartbeat True now (jb_ID job) workerID s) \<noteq> Inl ErrLostClaim \<and>
    (\<exists>k'. k' \<in> set (st_rows (finalize q True now job workerID freshState (HandlerDone result) s)) \<and> jb_ID k' = jb_ID k \<and> jb_Status k' = StatusSucceeded)"
proof -
  have "snd (Queue_Heartbeat True now (jb_ID job) workerID s) \<noteq> Inl ErrLostClaim"
    using Heartbeat_held [OF assms(1,2), of "jb_ID job" workerID True now] assms(3,5) by (metis surjective_pairing)
  moreover have "replaced k ((succeedRow now (marshalObject result) k)\<lparr>jb_UpdatedAt := now\<rparr>) s
      (fst (Queue_Succeed q True now (jb_ID k) workerID result s))"
    unfolding Queue_Succeed_def by (rule finishOwned_held [OF assms(1-3)]) (simp_all add: check_end(1) [OF rows_ok [OF assms(1,2)] assms(4)])
  from replaced_mem [OF this assms(2)]
  have "(succeedRow now (marshalObject result) k)\<lparr>jb_UpdatedAt := now\<rparr> \<in>
      set (st_rows (finalize q True now job workerID freshState (HandlerDone result) s))"
    using assms(5) by (simp add: finalize_def freshState_def)
  ultimately show ?thesis by (auto simp: succeedRow_def intro!: exI [where x = "(succeedRow now (marshalObject result) k)\<lparr>jb_UpdatedAt := now\<rparr>"])
qed

theorem reclaim_by_same_worker_unnoticed_witness:
  "snd (Queue_Heartbeat True 210 1 ''w'' reclaimedStore) \<noteq> Inl ErrLostClaim \<and>
   (\<exists>k'. k' \<in> set (st_rows (finalize demoQueue True 210 ((hd (st_rows reclaimedStore))\<lparr>jb_Attempts := 1\<rparr>) ''w'' freshState (HandlerDone None) reclaimedStore)) \<and>
      jb_ID k' = 1 \<and> jb_Status k' = StatusSucceeded)"
proof -
  obtain k r where s: "st_rows reclaimedStore = [k, r]" and k: "jb_ID k = 1" "jb_Attempts k = 2" "jb_StartedAt k = Some 200" "jb_ID r = 2"
    using demo_facts by (auto simp: map_eq_Cons_conv)
  have "list_ex (owned 1 ''w'') (st_rows reclaimedStore)" using demo_facts by blast
  then have "owned (jb_ID k) ''w'' k" using s k by (auto simp: owned_def)
  moreover have "started 210 k" using k(3) by (simp add: started_def)
  ultimately show ?thesis
    using reclaim_by_same_worker_unnoticed [of reclaimedStore k "''w''" 210 "k\<lparr>jb_Attempts := 1\<rparr>" demoQueue None] demo_facts s k by simp
qed

end
