(* ===== verification/Sched_Daily.thy ===== *)
theory Sched_Daily
  imports Jobs_Props Data_Calendar Domain_Money
begin

text \<open>
  The daily scheduler of \<open>internal/scheduler\<close> (\<open>scheduler.go\<close>, \<open>ledger.go\<close>, \<open>pipeline.go\<close>): on each trading day, from the configured
  time on, it claims the day's slot in the ledger table and enqueues the two jobs of the pipeline.  The world is the
  ledger and the job store; \<open>TickEnv\<close> is what one evaluation meets outside: the clock, the transaction time, which
  database calls answer, and what other clients of the queue do meanwhile.  Log lines are not modelled.
\<close>

section \<open>Time of day\<close>

record TimeOfDay =
  td_Hour :: int
  td_Minute :: int

datatype sched_error = SchedMsg string | SchedCalendar go_error | SchedDatabase | SchedEnqueue jobs_error

text \<open>\<open>time.Parse\<close> with the layout \<open>15:04\<close>: one or two digits, a colon, two digits, in range.\<close>

definition digitAt :: "string \<Rightarrow> nat \<Rightarrow> bool" where
  "digitAt s i \<longleftrightarrow> i < length s \<and> isDigit (s ! i)"

definition getnum :: "bool \<Rightarrow> string \<Rightarrow> (int \<times> string) option" where
  "getnum fixed s =
     (if \<not> digitAt s 0 then None
      else if \<not> digitAt s 1 then (if fixed then None else Some (int (digitVal (s ! 0)), drop 1 s))
      else Some (int (digitVal (s ! 0)) * 10 + int (digitVal (s ! 1)), drop 2 s))"

definition ParseTimeOfDay :: "string \<Rightarrow> sched_error + TimeOfDay" where
  "ParseTimeOfDay s0 =
     (case getnum False (TrimSpace s0) of
        None \<Rightarrow> Inl (SchedMsg ''invalid time-of-day'')
      | Some (h, s1) \<Rightarrow>
          if 24 \<le> h \<or> s1 = [] \<or> hd s1 \<noteq> CHR '':'' then Inl (SchedMsg ''invalid time-of-day'')
          else (case getnum True (tl s1) of
             None \<Rightarrow> Inl (SchedMsg ''invalid time-of-day'')
           | Some (m, s2) \<Rightarrow> if 60 \<le> m \<or> s2 \<noteq> [] then Inl (SchedMsg ''invalid time-of-day'') else Inr \<lparr>td_Hour = h, td_Minute = m\<rparr>))"

definition TimeOfDay_String :: "TimeOfDay \<Rightarrow> string" where
  "TimeOfDay_String t = padInt 2 (td_Hour t) @ '':'' @ padInt 2 (td_Minute t)"

definition DefaultDailyAt :: string where "DefaultDailyAt = ''18:30''"
definition DefaultTick :: int where "DefaultTick = 60000000000"

section \<open>The ledger\<close>

datatype Trigger = TriggerScheduled | TriggerCatchup | TriggerManual

definition PipelineDaily :: string where "PipelineDaily = ''daily''"

record ClaimResult =
  cr_Won :: bool
  cr_RunID :: int

record SchedulerRun =
  rn_ID :: int
  rn_Pipeline :: string
  rn_Date :: Date
  rn_ClaimedBy :: string
  rn_Trigger :: Trigger
  rn_DataJob :: "int option"
  rn_EODJob :: "int option"

record SchedWorld =
  sw_runs :: "SchedulerRun list"
  sw_nextRun :: int
  sw_jobs :: JobStore

definition PGLedger_Claim :: "bool \<Rightarrow> string \<Rightarrow> Date \<Rightarrow> string \<Rightarrow> Trigger \<Rightarrow> SchedWorld \<Rightarrow> SchedWorld \<times> (sched_error + ClaimResult)" where
  "PGLedger_Claim db pipeline tradingDate claimedBy trig w =
     (if pipeline = [] then (w, Inl (SchedMsg ''claim: empty pipeline''))
      else if claimedBy = [] then (w, Inl (SchedMsg ''claim: empty claimed_by''))
      else if \<not> db then (w, Inl SchedDatabase)
      else if list_ex (\<lambda>r. rn_Pipeline r = pipeline \<and> rn_Date r = tradingDate) (sw_runs w)
        then (w\<lparr>sw_nextRun := sw_nextRun w + 1\<rparr>, Inr \<lparr>cr_Won = False, cr_RunID = 0\<rparr>)
      else (w\<lparr>sw_nextRun := sw_nextRun w + 1,
              sw_runs := sw_runs w @ [\<lparr>rn_ID = sw_nextRun w, rn_Pipeline = pipeline, rn_Date = tradingDate, rn_ClaimedBy = claimedBy,
                 rn_Trigger = trig, rn_DataJob = None, rn_EODJob = None\<rparr>]\<rparr>, Inr \<lparr>cr_Won = True, cr_RunID = sw_nextRun w\<rparr>))"

definition nullableJobID :: "int \<Rightarrow> int option" where
  "nullableJobID i = (if i \<le> 0 then None else Some i)"

definition PGLedger_RecordJobs :: "bool \<Rightarrow> int \<Rightarrow> int \<Rightarrow> int \<Rightarrow> SchedWorld \<Rightarrow> SchedWorld \<times> (sched_error + unit)" where
  "PGLedger_RecordJobs db runID dataJobID eodJobID w =
     (if \<not> db then (w, Inl SchedDatabase)
      else (w\<lparr>sw_runs := map (\<lambda>r. if rn_ID r = runID then r\<lparr>rn_DataJob := nullableJobID dataJobID, rn_EODJob := nullableJobID eodJobID\<rparr> else r)
               (sw_runs w)\<rparr>, Inr ()))"

section \<open>The pipeline\<close>

record PipelineResult =
  pr_DataJobID :: int
  pr_EODJobID :: int
  pr_DataDeduped :: bool
  pr_EODDeduped :: bool

definition noPipeline :: PipelineResult where
  "noPipeline = \<lparr>pr_DataJobID = 0, pr_EODJobID = 0, pr_DataDeduped = False, pr_EODDeduped = False\<rparr>"

definition eodGraceAfterData :: int where "eodGraceAfterData = 600000000000"
definition dataRefreshPriority :: int where "dataRefreshPriority = 10"
definition KindDataRefresh :: string where "KindDataRefresh = ''data.refresh''"
definition KindEODRefresh :: string where "KindEODRefresh = ''eod.refresh''"

definition jsonField :: "string \<Rightarrow> string \<Rightarrow> string" where
  "jsonField k v = [CHR 0x22] @ k @ [CHR 0x22, CHR 0x3A, CHR 0x22] @ v @ [CHR 0x22]"

definition dataParams :: "Date \<Rightarrow> string \<Rightarrow> EnqueueParams" where
  "dataParams d actor = \<lparr>ep_Kind = KindDataRefresh, ep_Payload = Some (''{'' @ jsonField ''source'' ''api'' @ ''}''),
     ep_DedupeKey = ''scheduler:data.refresh:'' @ Date_String d, ep_Priority = dataRefreshPriority, ep_RunAt = zeroTime, ep_MaxAttempts = 3, ep_Actor = actor\<rparr>"

definition addNanos :: "gotime \<Rightarrow> int \<Rightarrow> gotime" where
  "addNanos t n = t\<lparr>t_ns := t_ns t + n\<rparr>"

definition eodParams :: "Date \<Rightarrow> gotime \<Rightarrow> string \<Rightarrow> EnqueueParams" where
  "eodParams d now actor = \<lparr>ep_Kind = KindEODRefresh,
     ep_Payload = Some (''{'' @ jsonField ''as_of'' (Date_String d) @ '','' @ jsonField ''strategy'' ''multi'' @ ''}''),
     ep_DedupeKey = ''scheduler:eod.refresh:'' @ Date_String d, ep_Priority = 0, ep_RunAt = addNanos now eodGraceAfterData, ep_MaxAttempts = 3,
     ep_Actor = actor\<rparr>"

record TickEnv =
  te_now :: gotime
  te_dbNow :: instant
  te_claimDb :: bool
  te_dataDb :: "nat \<Rightarrow> bool"
  te_eodDb :: "nat \<Rightarrow> bool"
  te_recordDb :: bool
  te_others :: "nat \<Rightarrow> JobStore \<Rightarrow> JobStore"

definition enqueuePipeline :: "Queue \<Rightarrow> TickEnv \<Rightarrow> Date \<Rightarrow> string \<Rightarrow> JobStore \<Rightarrow> JobStore \<times> PipelineResult \<times> sched_error option" where
  "enqueuePipeline q env tradingDate actor s =
     (case Queue_Enqueue q (te_dataDb env) (te_others env) (te_dbNow env) (dataParams tradingDate actor) s of
        (s1, Inl err) \<Rightarrow> (s1, noPipeline, Some (SchedEnqueue err))
      | (s1, Inr (dataJob, dataDeduped)) \<Rightarrow>
          (let res = noPipeline\<lparr>pr_DataJobID := jb_ID dataJob, pr_DataDeduped := dataDeduped\<rparr> in
           case Queue_Enqueue q (te_eodDb env) (te_others env) (te_dbNow env) (eodParams tradingDate (te_now env) actor) s1 of
             (s2, Inl err) \<Rightarrow> (s2, res, Some (SchedEnqueue err))
           | (s2, Inr (eodJob, eodDeduped)) \<Rightarrow> (s2, res\<lparr>pr_EODJobID := jb_ID eodJob, pr_EODDeduped := eodDeduped\<rparr>, None)))"

section \<open>The scheduler\<close>

record SchedOptions =
  op_DailyAt :: TimeOfDay
  op_Loc :: "Location option"
  op_Catchup :: bool
  op_Tick :: int
  op_InstanceID :: string

record Scheduler =
  sd_cal :: Calendar
  sd_queue :: Queue
  sd_dailyAt :: TimeOfDay
  sd_loc :: Location
  sd_catchup :: bool
  sd_tick :: int
  sd_instance :: string

definition NewScheduler :: "Calendar option \<Rightarrow> Queue option \<Rightarrow> bool \<Rightarrow> SchedOptions \<Rightarrow> sched_error + Scheduler" where
  "NewScheduler cal queue hasLedger opts =
     (case cal of
        None \<Rightarrow> Inl (SchedMsg ''nil calendar'')
      | Some c \<Rightarrow>
          (case queue of
             None \<Rightarrow> Inl (SchedMsg ''nil job queue'')
           | Some q \<Rightarrow>
               if \<not> hasLedger then Inl (SchedMsg ''nil ledger'')
               else (case (if op_DailyAt opts = \<lparr>td_Hour = 0, td_Minute = 0\<rparr> then ParseTimeOfDay DefaultDailyAt else Inr (op_DailyAt opts)) of
                  Inl err \<Rightarrow> Inl err
                | Inr dailyAt \<Rightarrow>
                    (let inst = TrimSpace (op_InstanceID opts) in
                     Inr \<lparr>sd_cal = c, sd_queue = q, sd_dailyAt = dailyAt,
                          sd_loc = (case op_Loc opts of None \<Rightarrow> cal_loc c | Some l \<Rightarrow> l), sd_catchup = op_Catchup opts,
                          sd_tick = (if op_Tick opts \<le> 0 then DefaultTick else op_Tick opts),
                          sd_instance = (if inst = [] then ''scheduler'' else inst)\<rparr>))))"

definition fireInstant :: "Scheduler \<Rightarrow> Date \<Rightarrow> gotime" where
  "fireInstant s d = loc_Date (sd_loc s) d (td_Hour (sd_dailyAt s)) (td_Minute (sd_dailyAt s))"

definition tradingDate :: "Scheduler \<Rightarrow> gotime \<Rightarrow> Date \<times> bool result" where
  "tradingDate s now = (let d = loc_dateOf (sd_loc s) now in (d, IsTradingDay (sd_cal s) d))"

datatype TickAction = NoAction | ActionSkippedNonTradingDay | ActionWaiting | ActionEnqueued | ActionAlreadyDone | ActionOutOfRange

record TickResult =
  tk_Date :: Date
  tk_Action :: TickAction
  tk_Pipeline :: PipelineResult

definition tickResult :: "Date \<Rightarrow> TickAction \<Rightarrow> TickResult" where
  "tickResult d a = \<lparr>tk_Date = d, tk_Action = a, tk_Pipeline = noPipeline\<rparr>"

text \<open>The claim of the slot and what follows it, shared by the tick and the forced run.\<close>

definition runSlot :: "Scheduler \<Rightarrow> TickEnv \<Rightarrow> Date \<Rightarrow> Trigger \<Rightarrow> string \<Rightarrow> SchedWorld \<Rightarrow> SchedWorld \<times> TickResult \<times> sched_error option" where
  "runSlot s env d trig actor w =
     (case PGLedger_Claim (te_claimDb env) PipelineDaily d (sd_instance s) trig w of
        (w1, Inl err) \<Rightarrow> (w1, tickResult d NoAction, Some err)
      | (w1, Inr claim) \<Rightarrow>
          if \<not> cr_Won claim then (w1, tickResult d ActionAlreadyDone, None)
          else (case enqueuePipeline (sd_queue s) env d actor (sw_jobs w1) of
             (js, pipe, err) \<Rightarrow>
               (let w2 = w1\<lparr>sw_jobs := js\<rparr>; res = (tickResult d ActionEnqueued)\<lparr>tk_Pipeline := pipe\<rparr> in
                case err of
                  Some e \<Rightarrow> (w2, res, Some e)
                | None \<Rightarrow> (fst (PGLedger_RecordJobs (te_recordDb env) (cr_RunID claim) (pr_DataJobID pipe) (pr_EODJobID pipe) w2), res, None))))"

definition evaluate :: "Scheduler \<Rightarrow> TickEnv \<Rightarrow> Trigger \<Rightarrow> SchedWorld \<Rightarrow> SchedWorld \<times> TickResult \<times> sched_error option" where
  "evaluate s env trig w =
     (case tradingDate s (te_now env) of
        (d, Inl err) \<Rightarrow> if err = ErrOutOfRange then (w, tickResult d ActionOutOfRange, None) else (w, tickResult d NoAction, Some (SchedCalendar err))
      | (d, Inr trading) \<Rightarrow>
          if \<not> trading then (w, tickResult d ActionSkippedNonTradingDay, None)
          else if Before (te_now env) (fireInstant s d) then (w, tickResult d ActionWaiting, None)
          else runSlot s env d trig ''scheduler'' w)"

definition Scheduler_Tick :: "Scheduler \<Rightarrow> TickEnv \<Rightarrow> SchedWorld \<Rightarrow> SchedWorld \<times> TickResult \<times> sched_error option" where
  "Scheduler_Tick s env w = evaluate s env TriggerScheduled w"

definition actorOrScheduler :: "string \<Rightarrow> string" where
  "actorOrScheduler actor = (let a = TrimSpace actor in if a \<noteq> [] then a else ''scheduler'')"

definition SyncNow :: "Scheduler \<Rightarrow> TickEnv \<Rightarrow> string \<Rightarrow> SchedWorld \<Rightarrow> SchedWorld \<times> TickResult \<times> sched_error option" where
  "SyncNow s env actor w =
     (let d = loc_dateOf (sd_loc s) (te_now env) in
      case IsTradingDay (sd_cal s) d of
        Inl err \<Rightarrow> (w, tickResult d NoAction, Some (SchedCalendar err))
      | Inr trading \<Rightarrow>
          if trading then runSlot s env d TriggerManual (actorOrScheduler actor) w
          else (case PrevSession (sd_cal s) d of
             Inl err \<Rightarrow> (w, tickResult d NoAction, Some (SchedCalendar err))
           | Inr sess \<Rightarrow> runSlot s env (s_Date sess) TriggerManual (actorOrScheduler actor) w))"

text \<open>The loop: the catch-up, then one evaluation per tick; errors are logged and the loop goes on.\<close>

fun tickLoop :: "Scheduler \<Rightarrow> TickEnv list \<Rightarrow> SchedWorld \<Rightarrow> SchedWorld \<times> TickResult list" where
  "tickLoop s [] w = (w, [])"
| "tickLoop s (env # envs) w =
     (case Scheduler_Tick s env w of (w1, r, _) \<Rightarrow> (case tickLoop s envs w1 of (w2, rs) \<Rightarrow> (w2, r # rs)))"

definition Scheduler_Run :: "Scheduler \<Rightarrow> TickEnv \<Rightarrow> TickEnv list \<Rightarrow> SchedWorld \<Rightarrow> SchedWorld \<times> TickResult list" where
  "Scheduler_Run s env0 envs w =
     (if sd_catchup s then
        (case evaluate s env0 TriggerCatchup w of (w1, r, _) \<Rightarrow> (case tickLoop s envs w1 of (w2, rs) \<Rightarrow> (w2, r # rs)))
      else tickLoop s envs w)"

section \<open>Interleavings\<close>

text \<open>What any number of scheduler processes and operators do to one database, in the order of their claims; \<open>OtherClients\<close> is
  anything else that happens to the job table.\<close>

datatype SchedOp =
    OpCatchup Scheduler TickEnv
  | OpTick Scheduler TickEnv
  | OpSyncNow Scheduler TickEnv string
  | OtherClients "JobStore \<Rightarrow> JobStore"

fun opUses :: "Calendar \<Rightarrow> SchedOp \<Rightarrow> bool" where
  "opUses c (OpCatchup s env) = (sd_cal s = c)"
| "opUses c (OpTick s env) = (sd_cal s = c)"
| "opUses c (OpSyncNow s env actor) = (sd_cal s = c)"
| "opUses c (OtherClients f) = True"

definition answered :: "SchedWorld \<times> TickResult \<times> sched_error option \<Rightarrow> SchedWorld \<times> TickResult list" where
  "answered x = (fst x, [fst (snd x)])"

fun schedOp :: "SchedOp \<Rightarrow> SchedWorld \<Rightarrow> SchedWorld \<times> TickResult list" where
  "schedOp (OpCatchup s env) w = answered (evaluate s env TriggerCatchup w)"
| "schedOp (OpTick s env) w = answered (Scheduler_Tick s env w)"
| "schedOp (OpSyncNow s env actor) w = answered (SyncNow s env actor w)"
| "schedOp (OtherClients f) w = (w\<lparr>sw_jobs := f (sw_jobs w)\<rparr>, [])"

fun schedOps :: "SchedOp list \<Rightarrow> SchedWorld \<Rightarrow> SchedWorld \<times> TickResult list" where
  "schedOps [] w = (w, [])"
| "schedOps (x # xs) w = (case schedOp x w of (w1, rs) \<Rightarrow> (case schedOps xs w1 of (w2, rs') \<Rightarrow> (w2, rs @ rs')))"

definition slots :: "SchedWorld \<Rightarrow> (string \<times> Date) list" where
  "slots w = map (\<lambda>r. (rn_Pipeline r, rn_Date r)) (sw_runs w)"

definition wonSlot :: "TickResult \<Rightarrow> bool" where
  "wonSlot r \<longleftrightarrow> tk_Action r = ActionEnqueued"

definition enqueuedSlots :: "TickResult list \<Rightarrow> (string \<times> Date) list" where
  "enqueuedSlots rs = map (\<lambda>r. (PipelineDaily, tk_Date r)) (filter wonSlot rs)"

section \<open>The slot of a day\<close>

lemma taken_iff: "list_ex (\<lambda>r. rn_Pipeline r = p \<and> rn_Date r = d) (sw_runs w) \<longleftrightarrow> (p, d) \<in> set (slots w)"
  by (auto simp: slots_def list_ex_iff image_iff)

lemma slots_simps [simp]: "slots (w\<lparr>sw_jobs := js\<rparr>) = slots w" "slots (w\<lparr>sw_nextRun := n\<rparr>) = slots w"
  "slots (fst (PGLedger_RecordJobs db i a b w)) = slots w" "sw_jobs (fst (PGLedger_RecordJobs db i a b w)) = sw_jobs w"
  by (auto simp: slots_def PGLedger_RecordJobs_def)

lemma tickResult_simps [simp]: "tk_Date (tickResult d a) = d" "tk_Action (tickResult d a) = a" "tk_Pipeline (tickResult d a) = noPipeline"
  by (simp_all add: tickResult_def)

lemma Ledger_cases:
  obtains (lost) w1 r where "PGLedger_Claim db p d who trig w = (w1, r)" "slots w1 = slots w" "sw_jobs w1 = sw_jobs w"
      "(\<exists>e. r = Inl e) \<or> r = Inr \<lparr>cr_Won = False, cr_RunID = 0\<rparr>"
  | (won) w1 i where "PGLedger_Claim db p d who trig w = (w1, Inr \<lparr>cr_Won = True, cr_RunID = i\<rparr>)" "(p, d) \<notin> set (slots w)"
      "slots w1 = slots w @ [(p, d)]" "sw_jobs w1 = sw_jobs w"
proof (cases "p = [] \<or> who = [] \<or> \<not> db \<or> (p, d) \<in> set (slots w)")
  case True
  then show ?thesis by (intro lost [OF surjective_pairing]) (auto simp: PGLedger_Claim_def taken_iff)
next
  case False
  then show ?thesis
    by (intro won [where i = "sw_nextRun w" and ?w1.0 = "fst (PGLedger_Claim db p d who trig w)"]) (auto simp: PGLedger_Claim_def taken_iff, simp_all add: slots_def)
qed

lemma runSlot_effect:
  assumes "runSlot s env d trig actor w = (w', r, e)"
  shows "tk_Date r = d \<and> slots w' = slots w @ enqueuedSlots [r] \<and> (wonSlot r \<longrightarrow> (PipelineDaily, d) \<notin> set (slots w)) \<and>
    (\<not> wonSlot r \<longrightarrow> sw_jobs w' = sw_jobs w)"
proof (cases rule: Ledger_cases [of "te_claimDb env" PipelineDaily d "sd_instance s" trig w])
  case (lost w1 r1)
  then show ?thesis using assms by (auto simp: runSlot_def wonSlot_def enqueuedSlots_def)
next
  case (won w1 i)
  obtain js pipe err where e: "enqueuePipeline (sd_queue s) env d actor (sw_jobs w) = (js, pipe, err)" by (metis surj_pair)
  show ?thesis using assms won by (cases err) (auto simp: runSlot_def wonSlot_def enqueuedSlots_def e Let_def)
qed

lemma session_trading:
  assumes "NewNYSE loc = Some c"
  shows "i < length (cal_sessions c) \<Longrightarrow> tradingDay (s_Date (cal_sessions c ! i))"
    and "IsTradingDay c d = Inr True \<Longrightarrow> tradingDay d"
    and "PrevSession c d = Inr x \<Longrightarrow> tradingDay (s_Date x)"
proof -
  have s: "tradingDay (s_Date (cal_sessions c ! i))" if "i < length (cal_sessions c)" for i
    using nth_mem [OF that] unfolding nyse_sessions(1) [OF assms] by auto
  then show "i < length (cal_sessions c) \<Longrightarrow> tradingDay (s_Date (cal_sessions c ! i))" .
  show "IsTradingDay c d = Inr True \<Longrightarrow> tradingDay d"
    using s nyse_sessions(3) [OF assms] by (auto simp: IsTradingDay_def indexOk_def bindR_def split: sum.splits)
  have "lo \<le> hi \<Longrightarrow> searchLoop ss d lo hi \<le> hi" for ss lo hi
  proof (induction ss d lo hi rule: searchLoop.induct)
    case (1 ss d lo hi)
    then show ?case by (subst searchLoop.simps) (force simp: Let_def)
  qed
  from this [of 0 "length (cal_sessions c)" "cal_sessions c"] have "searchFrom c d \<le> length (cal_sessions c)" by (simp add: searchFrom_def)
  then show "PrevSession c d = Inr x \<Longrightarrow> tradingDay (s_Date x)"
    using s by (auto simp: PrevSession_def bindR_def Let_def split: sum.splits if_splits)
qed

definition slotStep :: "SchedWorld \<Rightarrow> SchedWorld \<Rightarrow> TickResult \<Rightarrow> bool" where
  "slotStep w w' r \<longleftrightarrow> slots w' = slots w @ enqueuedSlots [r] \<and> (wonSlot r \<longrightarrow> (PipelineDaily, tk_Date r) \<notin> set (slots w)) \<and>
     (\<not> wonSlot r \<longrightarrow> sw_jobs w' = sw_jobs w)"

lemma runSlot_step: "runSlot s env d trig actor w = (w', r, e) \<Longrightarrow> slotStep w w' r \<and> tk_Date r = d"
  using runSlot_effect [of s env d trig actor w w' r e] by (simp add: slotStep_def)

lemma idle_step: "a \<noteq> ActionEnqueued \<Longrightarrow> slotStep w w (tickResult d a)"
  by (simp add: slotStep_def wonSlot_def enqueuedSlots_def)

lemma evaluate_step:
  assumes "evaluate s env trig w = (w', r, e)"
  shows "slotStep w w' r \<and> (wonSlot r \<longrightarrow> IsTradingDay (sd_cal s) (tk_Date r) = Inr True \<and> \<not> Before (te_now env) (fireInstant s (tk_Date r)))"
proof -
  obtain d x where d: "tradingDate s (te_now env) = (d, x)" by fastforce
  then have x: "x = IsTradingDay (sd_cal s) d" by (auto simp: tradingDate_def Let_def)
  show ?thesis
    using assms d x runSlot_step [of s env d trig "''scheduler''" w w' r e]
    by (auto simp: evaluate_def wonSlot_def idle_step split: sum.splits if_splits)
qed

lemma SyncNow_step:
  assumes "SyncNow s env actor w = (w', r, e)"
  shows "slotStep w w' r \<and> (wonSlot r \<longrightarrow> IsTradingDay (sd_cal s) (tk_Date r) = Inr True \<or>
    (\<exists>d x. PrevSession (sd_cal s) d = Inr x \<and> tk_Date r = s_Date x))"
  using assms
  by (auto simp: SyncNow_def Let_def wonSlot_def idle_step dest: runSlot_step split: sum.splits if_splits)

lemma schedOp_step:
  assumes "NewNYSE loc = Some c" "opUses c x" "schedOp x w = (w', rs)"
  shows "rs = [] \<and> slots w' = slots w \<or> (\<exists>r. rs = [r] \<and> slotStep w w' r \<and> (wonSlot r \<longrightarrow> tradingDay (tk_Date r)))"
proof -
  have e: "slotStep w (fst y) (fst (snd y)) \<and> (wonSlot (fst (snd y)) \<longrightarrow> tradingDay (tk_Date (fst (snd y))))"
    if "y = evaluate s env trig w" "sd_cal s = c" for s env trig y
    using evaluate_step [of s env trig w "fst y" "fst (snd y)" "snd (snd y)"] session_trading(2) [OF assms(1)] that by auto
  have n: "slotStep w (fst y) (fst (snd y)) \<and> (wonSlot (fst (snd y)) \<longrightarrow> tradingDay (tk_Date (fst (snd y))))"
    if "y = SyncNow s env actor w" "sd_cal s = c" for s env actor y
    using SyncNow_step [of s env actor w "fst y" "fst (snd y)" "snd (snd y)"] session_trading(2,3) [OF assms(1)] that by auto
  show ?thesis
    using assms(2,3) e [OF refl] n [OF refl] by (cases x) (auto simp: answered_def Scheduler_Tick_def)
qed

lemma schedOps_slots:
  assumes "NewNYSE loc = Some c" "list_all (opUses c) xs" "schedOps xs w = (w', rs)" "distinct (slots w)"
  shows "slots w' = slots w @ enqueuedSlots rs \<and> distinct (slots w') \<and> (\<forall>r \<in> set rs. wonSlot r \<longrightarrow> tradingDay (tk_Date r))"
  using assms(2-)
proof (induction xs arbitrary: w rs)
  case (Cons x xs)
  obtain w1 rs1 where x: "schedOp x w = (w1, rs1)" by fastforce
  obtain rs2 where xs: "schedOps xs w1 = (w', rs2)" "rs = rs1 @ rs2" using Cons(3) x by (auto split: prod.splits)
  from schedOp_step [OF assms(1) _ x] Cons(2)
  have "slots w1 = slots w @ enqueuedSlots rs1 \<and> distinct (slots w1) \<and> (\<forall>r \<in> set rs1. wonSlot r \<longrightarrow> tradingDay (tk_Date r))"
    using Cons(4) by (auto simp: slotStep_def enqueuedSlots_def)
  moreover from this have "slots w' = slots w1 @ enqueuedSlots rs2 \<and> distinct (slots w') \<and> (\<forall>r \<in> set rs2. wonSlot r \<longrightarrow> tradingDay (tk_Date r))"
    using Cons(1) [OF _ xs(1)] Cons(2) by fastforce
  moreover have "enqueuedSlots rs = enqueuedSlots rs1 @ enqueuedSlots rs2" by (simp add: enqueuedSlots_def xs(2))
  ultimately show ?case unfolding xs(2) by (metis Un_iff append_assoc set_append)
qed (simp add: enqueuedSlots_def)

section \<open>A taken slot\<close>

lemma NewScheduler_fields:
  assumes "NewScheduler cal queue hasLedger opts = Inr s"
  shows "cal = Some (sd_cal s)" "queue = Some (sd_queue s)" "sd_instance s \<noteq> []" "0 < sd_tick s"
  using assms by (auto simp: NewScheduler_def DefaultTick_def Let_def split: option.splits if_splits sum.splits)

lemma runSlot_taken:
  assumes "sd_instance s \<noteq> []" "te_claimDb env" "(PipelineDaily, d) \<in> set (slots w)"
  shows "\<exists>w'. runSlot s env d trig actor w = (w', tickResult d ActionAlreadyDone, None) \<and> sw_jobs w' = sw_jobs w \<and> slots w' = slots w"
  using assms by (simp add: runSlot_def PGLedger_Claim_def PipelineDaily_def taken_iff)

lemma schedOps_keep:
  assumes "schedOps xs w = (w', rs)" "k \<in> set (slots w)"
  shows "k \<in> set (slots w') \<and> k \<notin> set (enqueuedSlots rs)"
  using assms
proof (induction xs arbitrary: w rs)
  case (Cons x xs)
  obtain w1 rs1 where x: "schedOp x w = (w1, rs1)" by fastforce
  obtain rs2 where xs: "schedOps xs w1 = (w', rs2)" "rs = rs1 @ rs2" using Cons(2) x by (auto split: prod.splits)
  have s: "slotStep w (fst (evaluate s env trig w)) (fst (snd (evaluate s env trig w)))"
    "slotStep w (fst (SyncNow s env actor w)) (fst (snd (SyncNow s env actor w)))" for s env trig actor
    using evaluate_step [of s env trig w, OF surjective_pairing [THEN trans]] SyncNow_step [of s env actor w, OF surjective_pairing [THEN trans]]
    by (metis surjective_pairing)+
  have "k \<in> set (slots w1) \<and> k \<notin> set (enqueuedSlots rs1)"
    using x Cons(3) s by (cases x) (auto simp: slotStep_def answered_def Scheduler_Tick_def enqueuedSlots_def split: if_splits)
  then show ?case using Cons(1) [OF xs(1)] xs(2) by (auto simp: enqueuedSlots_def)
qed (simp add: enqueuedSlots_def)

section \<open>Both jobs of the day\<close>

lemma enqueueLoop_run: "enqueueLoop n q db (\<lambda>_ s. s) now p pl ra mx dk s = (s', r) \<Longrightarrow> tableStep\<^sup>*\<^sup>* s s'"
proof (induction n arbitrary: s)
  case (Suc n)
  obtain s1 x where i: "tryInsert (db (2 * n + 1)) now p pl ra mx dk s = (s1, x)" by fastforce
  have t: "tableStep\<^sup>*\<^sup>* s s1" using tryInsert_step [OF i] by blast
  have n: "tableStep\<^sup>*\<^sup>* s (jobs_notify q ev s1)" for ev using tableStep_rows [OF tryInsert_step [OF i], of "jobs_notify q ev s1"] by (auto simp: jobs_notify_def)
  show ?case using Suc t n i by (auto simp: Let_def split: sum.splits option.splits if_splits intro: rtranclp_trans)
qed simp

lemma Enqueue_ok: "Queue_Enqueue q db (\<lambda>_ s. s) now p s = (s', r) \<Longrightarrow> storeOk s \<Longrightarrow> storeOk s'"
  by (auto simp: Queue_Enqueue_def dest!: enqueueLoop_run intro: table_run_ok split: if_splits)

text \<open>The active jobs with a key are exactly the one given.\<close>

definition holdsKey :: "JobStore \<Rightarrow> string \<Rightarrow> Job \<Rightarrow> bool" where
  "holdsKey s k j \<longleftrightarrow> j \<in> set (st_rows s) \<and> (\<forall>r \<in> set (st_rows s). activeWith (Some k) r \<longleftrightarrow> r = j)"

lemma Enqueue_holds:
  assumes "storeOk s" "ep_Kind p \<noteq> []" "ep_DedupeKey p \<noteq> []"
  obtains s' j ex where "Queue_Enqueue q (\<lambda>_. True) (\<lambda>_ s. s) now p s = (s', Inr (j, ex))" "storeOk s'" "holdsKey s' (ep_DedupeKey p) j"
    "\<And>k i. holdsKey s k i \<Longrightarrow> k \<noteq> ep_DedupeKey p \<Longrightarrow> holdsKey s' k i"
proof -
  obtain s' j ex where e: "Queue_Enqueue q (\<lambda>_. True) (\<lambda>_ s. s) now p s = (s', Inr (j, ex))" and h: "holdsKey s' (ep_DedupeKey p) j"
    and r: "st_rows s' = st_rows s \<or> st_rows s' = st_rows s @ [j]"
    using Enqueue_keyed [OF assms, of q now] by (metis holdsKey_def)
  have "\<not> activeWith (Some k) j" if "k \<noteq> ep_DedupeKey p" for k
    using h that by (auto simp: holdsKey_def activeWith_def)
  then have "holdsKey s' k i" if "holdsKey s k i" "k \<noteq> ep_DedupeKey p" for k i
    using r that by (auto simp: holdsKey_def)
  then show ?thesis using that [OF e Enqueue_ok [OF e assms(1)] h] by blast
qed

definition dataKey :: "Date \<Rightarrow> string" where "dataKey d = ''scheduler:data.refresh:'' @ Date_String d"
definition eodKey :: "Date \<Rightarrow> string" where "eodKey d = ''scheduler:eod.refresh:'' @ Date_String d"

definition calm :: "TickEnv \<Rightarrow> bool" where
  "calm env \<longleftrightarrow> te_claimDb env \<and> te_dataDb env = (\<lambda>_. True) \<and> te_eodDb env = (\<lambda>_. True) \<and> te_others env = (\<lambda>_ s. s)"

lemma params_simps [simp]: "ep_Kind (dataParams d a) \<noteq> []" "ep_DedupeKey (dataParams d a) = dataKey d" "dataKey d \<noteq> []"
  "ep_Kind (eodParams d t a) \<noteq> []" "ep_DedupeKey (eodParams d t a) = eodKey d" "eodKey d \<noteq> []" "dataKey d \<noteq> eodKey d"
  by (simp_all add: dataParams_def eodParams_def KindDataRefresh_def KindEODRefresh_def dataKey_def eodKey_def)

lemma pipeline_holds:
  assumes "calm env" "storeOk s"
  shows "\<exists>s' pipe a b. enqueuePipeline q env d actor s = (s', pipe, None) \<and> storeOk s' \<and> holdsKey s' (dataKey d) a \<and> holdsKey s' (eodKey d) b \<and>
    pr_DataJobID pipe = jb_ID a \<and> pr_EODJobID pipe = jb_ID b"
proof -
  obtain s1 a x where a: "Queue_Enqueue q (\<lambda>_. True) (\<lambda>_ s. s) (te_dbNow env) (dataParams d actor) s = (s1, Inr (a, x))" "storeOk s1" "holdsKey s1 (dataKey d) a"
    by (rule Enqueue_holds [OF assms(2), of "dataParams d actor"]) auto
  obtain s2 b y where b: "Queue_Enqueue q (\<lambda>_. True) (\<lambda>_ s. s) (te_dbNow env) (eodParams d (te_now env) actor) s1 = (s2, Inr (b, y))" "storeOk s2" "holdsKey s2 (eodKey d) b"
    "holdsKey s2 (dataKey d) a"
    by (rule Enqueue_holds [OF a(2), where p = "eodParams d (te_now env) actor" and q = q and now = "te_dbNow env"]) (use a(3) in auto)
  then show ?thesis using a assms(1) by (simp add: enqueuePipeline_def calm_def Let_def) blast
qed

lemma runSlot_wins:
  assumes "calm env" "storeOk (sw_jobs w)" "sd_instance s \<noteq> []" "(PipelineDaily, d) \<notin> set (slots w)"
  shows "\<exists>w' r a b. runSlot s env d trig actor w = (w', r, None) \<and> wonSlot r \<and> tk_Date r = d \<and> storeOk (sw_jobs w') \<and>
    holdsKey (sw_jobs w') (dataKey d) a \<and> holdsKey (sw_jobs w') (eodKey d) b \<and>
    pr_DataJobID (tk_Pipeline r) = jb_ID a \<and> pr_EODJobID (tk_Pipeline r) = jb_ID b"
proof (cases rule: Ledger_cases [of "te_claimDb env" PipelineDaily d "sd_instance s" trig w])
  case (lost w1 r)
  then show ?thesis using assms by (auto simp: PGLedger_Claim_def PipelineDaily_def taken_iff calm_def)
next
  case (won w1 i)
  then show ?thesis using pipeline_holds [OF assms(1,2), of "sd_queue s" d actor] by (fastforce simp: runSlot_def Let_def wonSlot_def)
qed

section \<open>The configured time\<close>

lemma padInt_two:
  assumes "0 \<le> n" "n < 100"
  shows "padInt 2 n = [digitChar (nat n div 10), digitChar (nat n mod 10)]"
proof (cases "nat n < 10")
  case True
  then show ?thesis using assms by (simp add: padInt_def Let_def fmtUint.simps [of "nat n"])
next
  case False
  then have "nat n div 10 < 10" using assms by linarith
  then show ?thesis using assms False by (simp add: padInt_def Let_def fmtUint.simps [of "nat n"] fmtUint.simps [of "nat n div 10"])
qed

lemma getnum_two:
  assumes "0 \<le> n" "n < 100"
  shows "getnum fixed (digitChar (nat n div 10) # digitChar (nat n mod 10) # s) = Some (n, s)"
proof -
  have d: "nat n div 10 < 10" "nat n mod 10 < 10" using assms by linarith+
  have "int (nat n div 10) * 10 + int (nat n mod 10) = n" using assms by (simp add: zdiv_int zmod_int)
  then show ?thesis using d by (simp add: getnum_def digitAt_def)
qed

lemma time_of_day_roundtrip:
  assumes "0 \<le> td_Hour t" "td_Hour t < 24" "0 \<le> td_Minute t" "td_Minute t < 60"
  shows "ParseTimeOfDay (TimeOfDay_String t) = Inr t"
proof -
  let ?s = "TimeOfDay_String t"
  have s: "?s = digitChar (nat (td_Hour t) div 10) # digitChar (nat (td_Hour t) mod 10) # CHR '':'' #
      digitChar (nat (td_Minute t) div 10) # [digitChar (nat (td_Minute t) mod 10)]"
    using assms by (simp add: TimeOfDay_String_def padInt_two)
  have d: "nat (td_Hour t) div 10 < 10" "nat (td_Minute t) mod 10 < 10" using assms by linarith+
  have "TrimSpace ?s = ?s" by (rule TrimSpace_solid) (simp_all add: s solid_digit d)
  then show ?thesis using assms by (simp add: ParseTimeOfDay_def s getnum_two)
qed

lemma default_time: "ParseTimeOfDay DefaultDailyAt = Inr \<lparr>td_Hour = 18, td_Minute = 30\<rparr>"
proof -
  let ?t = "\<lparr>td_Hour = 18, td_Minute = 30\<rparr>"
  have "DefaultDailyAt = TimeOfDay_String ?t" by (simp add: DefaultDailyAt_def TimeOfDay_String_def padInt_two)
  then show ?thesis using time_of_day_roundtrip [of ?t] by simp
qed

lemma NewScheduler_total: "\<exists>s. NewScheduler (Some c) (Some q) True opts = Inr s \<and> sd_cal s = c \<and> sd_queue s = q"
  by (simp add: NewScheduler_def default_time Let_def)

lemma midnight_is_default:
  assumes "NewScheduler (Some c) (Some q) True opts = Inr s" "op_DailyAt opts = \<lparr>td_Hour = 0, td_Minute = 0\<rparr>"
  shows "sd_dailyAt s = \<lparr>td_Hour = 18, td_Minute = 30\<rparr>"
  using assms by (auto simp: NewScheduler_def default_time Let_def)

lemma nyse_trading:
  assumes "NewNYSE loc = Some c" "validDate d" "dayNumber 2000 1 1 \<le> daysOf d" "daysOf d \<le> dayNumber 2030 12 31" "tradingDay d"
  shows "IsTradingDay c d = Inr True"
proof -
  have "d \<in> set (daysFrom (dayNumber 2000 1 1) (dayNumber 2030 12 31))"
    using dateOfDays_daysOf [OF assms(2)] assms(3,4) by (force simp: daysFrom_def image_iff)
  then have "d \<in> s_Date ` set (cal_sessions c)" unfolding nyse_sessions(1) [OF assms(1)] using assms(5) by force
  then obtain i where "i < length (cal_sessions c)" "s_Date (cal_sessions c ! i) = d" by (auto simp: in_set_conv_nth)
  then have "mapGet (cal_byDate c) d = Some i" using nyse_sessions(3) [OF assms(1)] by (simp add: indexOk_def)
  then show ?thesis using checkRange_ok [OF assms(1,2)] assms(3,4) by (simp add: IsTradingDay_def bindR_def)
qed

section \<open>What the scheduler guarantees\<close>

definition noJobs :: SchedWorld where
  "noJobs = \<lparr>sw_runs = [], sw_nextRun = 1, sw_jobs = \<lparr>st_rows = [], st_nextID = 1, st_audit = [], st_events = []\<rparr>\<rparr>"

definition demoOpts :: SchedOptions where
  "demoOpts = \<lparr>op_DailyAt = \<lparr>td_Hour = 18, td_Minute = 30\<rparr>, op_Loc = Some utcLocation, op_Catchup = True, op_Tick = 0, op_InstanceID = ''a''\<rparr>"

definition demoSched :: "Calendar \<Rightarrow> Scheduler" where
  "demoSched c = projr (NewScheduler (Some c) (Some demoQueue) True demoOpts)"

text \<open>19:00 on Monday 17 June 2024.\<close>

definition demoEvening :: TickEnv where
  "demoEvening = \<lparr>te_now = \<lparr>t_ns = (daysOf (mkDate 2024 6 17) * 1440 + 19 * 60) * 60000000000, t_off = 0\<rparr>, te_dbNow = 1000, te_claimDb = True,
     te_dataDb = (\<lambda>_. True), te_eodDb = (\<lambda>_. True), te_recordDb = True, te_others = (\<lambda>_ s. s)\<rparr>"

lemma demo_day:
  assumes "NewNYSE loc = Some c"
  shows "IsTradingDay c (mkDate 2024 6 17) = Inr True" "loc_dateOf utcLocation (te_now demoEvening) = mkDate 2024 6 17"
    "\<not> Before (te_now demoEvening) (loc_Date utcLocation (mkDate 2024 6 17) 18 30)"
proof -
  let ?d = "mkDate 2024 6 17"
  have "validDate ?d \<and> dayNumber 2000 1 1 \<le> daysOf ?d \<and> daysOf ?d \<le> dayNumber 2030 12 31 \<and> tradingDay ?d \<and>
    loc_dateOf utcLocation (te_now demoEvening) = ?d \<and> \<not> Before (te_now demoEvening) (loc_Date utcLocation ?d 18 30)" by code_simp
  then show "IsTradingDay c ?d = Inr True" "loc_dateOf utcLocation (te_now demoEvening) = ?d"
    "\<not> Before (te_now demoEvening) (loc_Date utcLocation ?d 18 30)" using nyse_trading [OF assms] by blast+
qed

lemma demoSched_fields:
  "NewScheduler (Some c) (Some demoQueue) True demoOpts = Inr (demoSched c)"
  "sd_cal (demoSched c) = c" "sd_loc (demoSched c) = utcLocation" "sd_dailyAt (demoSched c) = \<lparr>td_Hour = 18, td_Minute = 30\<rparr>" "sd_instance (demoSched c) \<noteq> []"
  by (simp_all add: demoSched_def demoOpts_def NewScheduler_def default_time Let_def)

lemma noJobs_ok: "storeOk (sw_jobs noJobs)" "slots noJobs = []" "calm demoEvening"
  by (simp_all add: storeOk_def noJobs_def slots_def calm_def demoEvening_def activeKeys_def)

text \<open>C21. Safety. However the catch-ups, ticks and forced runs of any number of scheduler processes interleave, with each other and with anything else done to
  the job table, the ledger gains exactly one row for each evaluation that enqueued, no day is enqueued twice or again after it was in the ledger, and every
  enqueued day is a trading day of the exchange.\<close>

theorem pipeline_once_per_day:
  assumes "NewNYSE loc = Some c" "list_all (opUses c) xs" "distinct (slots w)" "schedOps xs w = (w', rs)"
  shows "slots w' = slots w @ enqueuedSlots rs \<and> distinct (slots w') \<and> (\<forall>r \<in> set rs. wonSlot r \<longrightarrow> tradingDay (tk_Date r))"
  by (rule schedOps_slots [OF assms(1,2,4,3)])

theorem pipeline_once_per_day_witness:
  "\<exists>c w' rs. NewNYSE utcLocation = Some c \<and>
    schedOps [OpCatchup (demoSched c) demoEvening, OpTick (demoSched c) demoEvening, OpSyncNow (demoSched c) demoEvening ''operator''] noJobs = (w', rs) \<and>
    slots w' = enqueuedSlots rs \<and> distinct (slots w') \<and> (\<forall>r \<in> set rs. wonSlot r \<longrightarrow> tradingDay (tk_Date r))"
proof -
  obtain c where c: "NewNYSE utcLocation = Some c" by (rule NewNYSE_sessions)
  let ?xs = "[OpCatchup (demoSched c) demoEvening, OpTick (demoSched c) demoEvening, OpSyncNow (demoSched c) demoEvening ''operator'']"
  obtain w' rs where r: "schedOps ?xs noJobs = (w', rs)" by fastforce
  show ?thesis using c r pipeline_once_per_day [OF c _ _ r] by (auto simp: demoSched_fields noJobs_ok)
qed

text \<open>C22. Functional. On a trading day a tick before the configured time waits and changes nothing. From that time on it takes the day's slot when it is free,
  after which exactly one active job has the data key and exactly one the end-of-day key of the day, and the reported ids are theirs; when the slot is taken it
  leaves the job table alone.\<close>

theorem due_tick_enqueues_pipeline:
  assumes "NewScheduler cal queue hasLedger opts = Inr s" "calm env" "storeOk (sw_jobs w)"
    and "d = loc_dateOf (sd_loc s) (te_now env)" "IsTradingDay (sd_cal s) d = Inr True"
  shows "if Before (te_now env) (fireInstant s d) then Scheduler_Tick s env w = (w, tickResult d ActionWaiting, None)
    else if (PipelineDaily, d) \<in> set (slots w)
      then \<exists>w'. Scheduler_Tick s env w = (w', tickResult d ActionAlreadyDone, None) \<and> sw_jobs w' = sw_jobs w \<and> slots w' = slots w
    else \<exists>w' r a b. Scheduler_Tick s env w = (w', r, None) \<and> tk_Action r = ActionEnqueued \<and> slots w' = slots w @ [(PipelineDaily, d)] \<and>
      storeOk (sw_jobs w') \<and> holdsKey (sw_jobs w') (dataKey d) a \<and> holdsKey (sw_jobs w') (eodKey d) b \<and>
      pr_DataJobID (tk_Pipeline r) = jb_ID a \<and> pr_EODJobID (tk_Pipeline r) = jb_ID b"
proof -
  have e: "Scheduler_Tick s env w = (if Before (te_now env) (fireInstant s d) then (w, tickResult d ActionWaiting, None)
      else runSlot s env d TriggerScheduled ''scheduler'' w)"
    using assms(4,5) by (simp add: Scheduler_Tick_def evaluate_def tradingDate_def Let_def)
  note i = NewScheduler_fields(3) [OF assms(1)]
  have "te_claimDb env" using assms(2) by (simp add: calm_def)
  note t = runSlot_taken [OF i this, of d w TriggerScheduled "''scheduler''"]
  have "\<exists>w' r a b. runSlot s env d TriggerScheduled ''scheduler'' w = (w', r, None) \<and> tk_Action r = ActionEnqueued \<and> slots w' = slots w @ [(PipelineDaily, d)] \<and>
      storeOk (sw_jobs w') \<and> holdsKey (sw_jobs w') (dataKey d) a \<and> holdsKey (sw_jobs w') (eodKey d) b \<and>
      pr_DataJobID (tk_Pipeline r) = jb_ID a \<and> pr_EODJobID (tk_Pipeline r) = jb_ID b" if free: "(PipelineDaily, d) \<notin> set (slots w)"
  proof -
    obtain w' r a b where r: "runSlot s env d TriggerScheduled ''scheduler'' w = (w', r, None)" and x: "wonSlot r" "tk_Date r = d" "storeOk (sw_jobs w')"
      "holdsKey (sw_jobs w') (dataKey d) a" "holdsKey (sw_jobs w') (eodKey d) b" "pr_DataJobID (tk_Pipeline r) = jb_ID a" "pr_EODJobID (tk_Pipeline r) = jb_ID b"
      using runSlot_wins [OF assms(2,3) i free, of TriggerScheduled "''scheduler''"] by blast
    then have "slots w' = slots w @ [(PipelineDaily, d)]" using runSlot_effect [OF r] by (simp add: enqueuedSlots_def)
    then show ?thesis using r x unfolding wonSlot_def by blast
  qed
  then show ?thesis using t unfolding e by simp
qed

theorem due_tick_enqueues_pipeline_witness:
  "\<exists>c w' r a b. NewNYSE utcLocation = Some c \<and> Scheduler_Tick (demoSched c) demoEvening noJobs = (w', r, None) \<and> tk_Action r = ActionEnqueued \<and>
    slots w' = [(PipelineDaily, mkDate 2024 6 17)] \<and> holdsKey (sw_jobs w') (dataKey (mkDate 2024 6 17)) a \<and> holdsKey (sw_jobs w') (eodKey (mkDate 2024 6 17)) b"
proof -
  obtain c where c: "NewNYSE utcLocation = Some c" by (rule NewNYSE_sessions)
  note o = demoSched_fields(1) [of c]
  show ?thesis
    using due_tick_enqueues_pipeline [OF o noJobs_ok(3,1) refl] c demo_day [OF c]
    by (auto simp: demoSched_fields(2-) noJobs_ok(2) fireInstant_def split: if_splits)
qed

text \<open>C40. Error behaviour. Once a tick has taken the day's slot and enqueuing failed, the day is lost: no later tick or forced run, by any process, enqueues it,
  and a forced run on that day reports it as already done and leaves the job table alone, although the code means the forced run as the remedy.\<close>

theorem failed_enqueue_loses_day:
  assumes "Scheduler_Tick s env w = (w1, r, Some e)" "tk_Action r = ActionEnqueued" "schedOps xs w1 = (w2, rs)"
    and "NewScheduler cal queue hasLedger opts = Inr s2" "te_claimDb env2"
    and "loc_dateOf (sd_loc s2) (te_now env2) = tk_Date r" "IsTradingDay (sd_cal s2) (tk_Date r) = Inr True"
  shows "(PipelineDaily, tk_Date r) \<notin> set (enqueuedSlots rs) \<and>
    (\<exists>w3. SyncNow s2 env2 actor w2 = (w3, tickResult (tk_Date r) ActionAlreadyDone, None) \<and> sw_jobs w3 = sw_jobs w2)"
proof -
  have "(PipelineDaily, tk_Date r) \<in> set (slots w1)"
    using evaluate_step [OF assms(1) [unfolded Scheduler_Tick_def]] assms(2) by (simp add: slotStep_def wonSlot_def enqueuedSlots_def)
  note k = schedOps_keep [OF assms(3) this]
  then show ?thesis
    using runSlot_taken [OF NewScheduler_fields(3) [OF assms(4)] assms(5), of "tk_Date r" w2 TriggerManual "actorOrScheduler actor"] assms(6,7)
    by (auto simp: SyncNow_def Let_def)
qed

text \<open>In the witness the first insert is not answered, so neither job was enqueued, and the forced run does not enqueue them either.\<close>

theorem failed_enqueue_loses_day_witness:
  "\<exists>c w1 r e w3. NewNYSE utcLocation = Some c \<and>
    Scheduler_Tick (demoSched c) (demoEvening\<lparr>te_dataDb := \<lambda>_. False\<rparr>) noJobs = (w1, r, Some e) \<and> st_rows (sw_jobs w1) = [] \<and>
    SyncNow (demoSched c) demoEvening ''operator'' w1 = (w3, tickResult (mkDate 2024 6 17) ActionAlreadyDone, None) \<and> st_rows (sw_jobs w3) = []"
proof -
  obtain c where c: "NewNYSE utcLocation = Some c" by (rule NewNYSE_sessions)
  note o = demoSched_fields(1) [of c]
  note f = demoSched_fields(2-) [of c]
  let ?env = "demoEvening\<lparr>te_dataDb := \<lambda>_. False\<rparr>" and ?d = "mkDate 2024 6 17"
  have "\<exists>w1 r e. Scheduler_Tick (demoSched c) ?env noJobs = (w1, r, Some e) \<and> tk_Action r = ActionEnqueued \<and> tk_Date r = ?d \<and> st_rows (sw_jobs w1) = []"
    using demo_day [OF c] f noJobs_ok
    by (simp add: Scheduler_Tick_def evaluate_def tradingDate_def fireInstant_def runSlot_def PGLedger_Claim_def PipelineDaily_def noJobs_def demoEvening_def
        enqueuePipeline_def Queue_Enqueue_def dataParams_def KindDataRefresh_def dedupeRaces_def numeral_3_eq_3 tryInsert_def Let_def)
  then obtain w1 r e where t: "Scheduler_Tick (demoSched c) ?env noJobs = (w1, r, Some e)" "tk_Action r = ActionEnqueued" "tk_Date r = ?d" "st_rows (sw_jobs w1) = []"
    by blast
  obtain w3 where "SyncNow (demoSched c) demoEvening ''operator'' w1 = (w3, tickResult ?d ActionAlreadyDone, None)" "sw_jobs w3 = sw_jobs w1"
    using failed_enqueue_loses_day [OF t(1,2) schedOps.simps(1) o, of demoEvening "''operator''"] demo_day [OF c] t(3) f by (auto simp: demoEvening_def)
  then show ?thesis using c t(1,4) by auto
qed

end
