(* ===== verification/Commands_Consumer.thy ===== *)
theory Commands_Consumer
  imports Live_Props Jobs_Queue
begin

text \<open>
  The control plane of a live node (\<open>internal/commands\<close>: \<open>commands.go\<close>, \<open>enqueue.go\<close>, \<open>consumer.go\<close>).  Operators insert commands
  into \<open>tms.commands\<close>; the consumer of the node claims the pending ones oldest first, applies each through the
  \<open>Controller\<close> interface and marks the row completed or rejected, with an audit row.  A statement is one step; \<open>CmdEnv\<close>
  is what one round of the consumer meets outside (the clock, which statements are answered, rows other consumers have
  locked).  The \<open>args\<close> column is kept decoded, \<open>None\<close> for an object that does not decode; audit details, the Redis
  notification and log lines are not modelled.
\<close>

section \<open>Commands\<close>

type_synonym Name = string

definition TargetLive :: string where "TargetLive = ''live''"
definition NameStart :: Name where "NameStart = ''start''"
definition NameStop :: Name where "NameStop = ''stop''"
definition NameSetMode :: Name where "NameSetMode = ''set_mode''"
definition NameHalt :: Name where "NameHalt = ''halt''"
definition NameResume :: Name where "NameResume = ''resume''"
definition NameKill :: Name where "NameKill = ''kill''"
definition NameFlatten :: Name where "NameFlatten = ''flatten''"
definition NameEmergencyKill :: Name where "NameEmergencyKill = ''emergency_kill''"
definition NameReconcile :: Name where "NameReconcile = ''reconcile''"

lemmas name_defs = NameStart_def NameStop_def NameSetMode_def NameHalt_def NameResume_def NameKill_def NameFlatten_def NameEmergencyKill_def
  NameReconcile_def

definition Name_IsValid :: "Name \<Rightarrow> bool" where
  "Name_IsValid n \<longleftrightarrow> n \<in> {NameStart, NameStop, NameSetMode, NameHalt, NameResume, NameKill, NameFlatten, NameEmergencyKill, NameReconcile}"

text \<open>\<open>strings.ToLower\<close> as far as a comparison with an ASCII word tells: besides \<open>A\<close> to \<open>Z\<close> two other letters have an ASCII lower
  case, U+0130 and U+212A.\<close>

fun ToLower :: "string \<Rightarrow> string" where
  "ToLower [] = []"
| "ToLower (c # s) =
     (if CHR ''A'' \<le> c \<and> c \<le> CHR ''Z'' then char_of ((of_char c :: nat) + 32) # ToLower s
      else if c = CHR 0xC4 \<and> take 1 s = [CHR 0xB0] then CHR ''i'' # ToLower (drop 1 s)
      else if c = CHR 0xE2 \<and> take 2 s = [CHR 0x84, CHR 0xAA] then CHR ''k'' # ToLower (drop 2 s)
      else c # ToLower s)"

definition normMode :: "string \<Rightarrow> string" where
  "normMode mode = ToLower (TrimSpace mode)"

definition RequiresConfirmation :: "Name \<Rightarrow> string \<Rightarrow> bool" where
  "RequiresConfirmation n mode =
     (if n = NameFlatten \<or> n = NameEmergencyKill then True
      else if n = NameSetMode then normMode mode = ''paper'' \<or> normMode mode = ''live''
      else False)"

record CommandArgs =
  ca_Mode :: string
  ca_Reason :: string
  ca_ConfirmToken :: string
  ca_TraderID :: string

record Command =
  cm_ID :: int
  cm_Source :: string
  cm_Target :: string
  cm_Name :: Name
  cm_Args :: CommandArgs
  cm_RequestedBy :: string

datatype cmd_error = CmdUnknown Name | CmdMode string | CmdRequestedBy | ErrConfirmationRequired | CmdDatabase | CmdMsg string | CmdGo go_error

definition Validate :: "Command \<Rightarrow> cmd_error option" where
  "Validate c =
     (if \<not> Name_IsValid (cm_Name c) then Some (CmdUnknown (cm_Name c))
      else if cm_Name c = NameSetMode \<and> normMode (ca_Mode (cm_Args c)) \<notin> {''signal'', ''paper'', ''live''} then Some (CmdMode (ca_Mode (cm_Args c)))
      else None)"

definition noArgs :: CommandArgs where
  "noArgs = \<lparr>ca_Mode = [], ca_Reason = [], ca_ConfirmToken = [], ca_TraderID = []\<rparr>"

definition noCommand :: Command where
  "noCommand = \<lparr>cm_ID = 0, cm_Source = [], cm_Target = [], cm_Name = [], cm_Args = noArgs, cm_RequestedBy = []\<rparr>"

section \<open>The table\<close>

datatype CmdStatus = CmdPending | CmdAcknowledged | CmdCompleted | CmdRejected | CmdExpired

datatype CmdResult = ResEmitting | ResStopped | ResHalted | ResKilled | ResMode string | ResFlattened nat | ResEmergency nat | ResIssues bool

record CommandRow =
  co_ID :: int
  co_Source :: string
  co_Target :: string
  co_Name :: Name
  co_Args :: "CommandArgs option"
  co_RequestedBy :: string
  co_Status :: CmdStatus
  co_CreatedAt :: instant
  co_AckAt :: "instant option"
  co_DoneAt :: "instant option"
  co_Result :: "CmdResult option"
  co_Error :: "cmd_error option"

record CmdAudit =
  cu_Actor :: string
  cu_Action :: string
  cu_EntityID :: int

record CmdStore =
  cs_rows :: "CommandRow list"
  cs_nextID :: int
  cs_audit :: "CmdAudit list"

text \<open>\<open>CHECK (completed_at IS NULL OR acknowledged_at IS NULL OR completed_at \<ge> acknowledged_at)\<close> and the one on rejected rows.\<close>

definition checkCommand :: "CommandRow \<Rightarrow> bool" where
  "checkCommand r \<longleftrightarrow> co_Source r \<in> {''api'', ''cli'', ''ui'', ''system''} \<and> co_Target r \<noteq> [] \<and> co_Name r \<noteq> [] \<and> co_RequestedBy r \<noteq> [] \<and>
     (case (co_DoneAt r, co_AckAt r) of (Some d, Some a) \<Rightarrow> a \<le> d | _ \<Rightarrow> True) \<and> (co_Status r = CmdRejected \<longrightarrow> co_Error r \<noteq> None)"

section \<open>Enqueue\<close>

record CmdEnqueueParams =
  cp_Source :: string
  cp_Name :: Name
  cp_Args :: CommandArgs
  cp_RequestedBy :: string

record Enqueuer =
  en_confirmWant :: string

definition tokenOK :: "Enqueuer \<Rightarrow> string \<Rightarrow> bool" where
  "tokenOK e token0 = (let token = TrimSpace token0 in if en_confirmWant e \<noteq> [] then token = en_confirmWant e else token \<noteq> [])"

definition Enqueuer_Enqueue :: "Enqueuer \<Rightarrow> bool \<Rightarrow> instant \<Rightarrow> CmdEnqueueParams \<Rightarrow> CmdStore \<Rightarrow> CmdStore \<times> (cmd_error + int)" where
  "Enqueuer_Enqueue e db now p s =
     (if \<not> Name_IsValid (cp_Name p) then (s, Inl (CmdUnknown (cp_Name p)))
      else if TrimSpace (cp_RequestedBy p) = [] then (s, Inl CmdRequestedBy)
      else case Validate (noCommand\<lparr>cm_Name := cp_Name p, cm_Args := cp_Args p\<rparr>) of
        Some err \<Rightarrow> (s, Inl err)
      | None \<Rightarrow>
          if RequiresConfirmation (cp_Name p) (ca_Mode (cp_Args p)) \<and> \<not> tokenOK e (ca_ConfirmToken (cp_Args p)) then (s, Inl ErrConfirmationRequired)
          else (let source = (if cp_Source p = [] then ''api'' else cp_Source p); storeArgs = (cp_Args p)\<lparr>ca_ConfirmToken := []\<rparr>;
                    r = \<lparr>co_ID = cs_nextID s, co_Source = source, co_Target = TargetLive, co_Name = cp_Name p, co_Args = Some storeArgs,
                         co_RequestedBy = cp_RequestedBy p, co_Status = CmdPending, co_CreatedAt = now, co_AckAt = None, co_DoneAt = None,
                         co_Result = None, co_Error = None\<rparr> in
                if \<not> db \<or> \<not> checkCommand r then (s, Inl CmdDatabase)
                else (s\<lparr>cs_nextID := cs_nextID s + 1, cs_rows := cs_rows s @ [r]\<rparr>, Inr (cs_nextID s))))"

section \<open>The controller\<close>

record 'n Controller =
  ct_SetMode :: "string \<Rightarrow> 'n \<Rightarrow> 'n \<times> cmd_error option"
  ct_Halt :: "HaltKind \<Rightarrow> string \<Rightarrow> 'n \<Rightarrow> 'n \<times> cmd_error option"
  ct_Resume :: "'n \<Rightarrow> 'n \<times> cmd_error option"
  ct_Stop :: "string \<Rightarrow> 'n \<Rightarrow> 'n \<times> cmd_error option"
  ct_Kill :: "string \<Rightarrow> 'n \<Rightarrow> 'n \<times> cmd_error option"
  ct_Flatten :: "string \<Rightarrow> 'n \<Rightarrow> 'n \<times> nat \<times> cmd_error option"
  ct_EmergencyKill :: "string \<Rightarrow> 'n \<Rightarrow> 'n \<times> nat \<times> cmd_error option"
  ct_Reconcile :: "'n \<Rightarrow> 'n \<times> bool \<times> cmd_error option"

section \<open>The consumer\<close>

record Consumer =
  cn_actor :: string
  cn_pollEvery :: int
  cn_processed :: nat

definition DefaultPoll :: int where "DefaultPoll = 2000000000"

definition NewConsumer :: "bool \<Rightarrow> bool \<Rightarrow> string \<Rightarrow> int \<Rightarrow> cmd_error + Consumer" where
  "NewConsumer hasPool hasController actor poll =
     (if \<not> hasPool then Inl (CmdMsg ''nil pool'')
      else if \<not> hasController then Inl (CmdMsg ''nil controller'')
      else Inr \<lparr>cn_actor = (if actor = [] then ''tms-live'' else actor), cn_pollEvery = (if poll \<le> 0 then DefaultPoll else poll), cn_processed = 0\<rparr>)"

record CmdEnv =
  ce_ctxErr :: bool
  ce_claimDb :: bool
  ce_claimAt :: instant
  ce_locked :: "int \<Rightarrow> bool"
  ce_writeDb :: bool
  ce_writeAt :: instant
  ce_auditDb :: bool

definition reasonOr :: "string \<Rightarrow> string \<Rightarrow> string" where
  "reasonOr reason fallback = (if reason = [] then fallback else reason)"

definition Consumer_audit :: "Consumer \<Rightarrow> CmdEnv \<Rightarrow> Command \<Rightarrow> CmdStore \<Rightarrow> CmdStore" where
  "Consumer_audit c env cmd s =
     (if ce_auditDb env then s\<lparr>cs_audit := cs_audit s @ [\<lparr>cu_Actor = cn_actor c, cu_Action = ''live.command.'' @ cm_Name cmd, cu_EntityID = cm_ID cmd\<rparr>]\<rparr>
      else s)"

text \<open>\<open>UPDATE \<dots> WHERE id = $1\<close>: nothing is written when the statement is not answered or a constraint fails.\<close>

definition writeCommand :: "CmdEnv \<Rightarrow> int \<Rightarrow> (CommandRow \<Rightarrow> CommandRow) \<Rightarrow> CmdStore \<Rightarrow> CmdStore" where
  "writeCommand env i f s =
     (if ce_writeDb env \<and> list_all (\<lambda>r. co_ID r = i \<longrightarrow> checkCommand (f r)) (cs_rows s)
      then s\<lparr>cs_rows := map (\<lambda>r. if co_ID r = i then f r else r) (cs_rows s)\<rparr> else s)"

definition Consumer_complete :: "Consumer \<Rightarrow> CmdEnv \<Rightarrow> Command \<Rightarrow> CmdResult \<Rightarrow> CmdStore \<Rightarrow> CmdStore" where
  "Consumer_complete c env cmd result s =
     Consumer_audit c env cmd
       (writeCommand env (cm_ID cmd) (\<lambda>r. r\<lparr>co_Status := CmdCompleted, co_DoneAt := Some (ce_writeAt env), co_Result := Some result\<rparr>) s)"

definition Consumer_reject :: "Consumer \<Rightarrow> CmdEnv \<Rightarrow> Command \<Rightarrow> cmd_error \<Rightarrow> CmdStore \<Rightarrow> CmdStore" where
  "Consumer_reject c env cmd reason s =
     Consumer_audit c env cmd
       (writeCommand env (cm_ID cmd) (\<lambda>r. r\<lparr>co_Status := CmdRejected, co_DoneAt := Some (ce_writeAt env), co_Error := Some reason\<rparr>) s)"

definition pendingLive :: "CommandRow \<Rightarrow> bool" where
  "pendingLive r \<longleftrightarrow> co_Target r = TargetLive \<and> co_Status r = CmdPending"

definition commandKey :: "CommandRow \<Rightarrow> instant \<times> int" where
  "commandKey r = (co_CreatedAt r, co_ID r)"

definition nextCommand :: "(int \<Rightarrow> bool) \<Rightarrow> CommandRow list \<Rightarrow> CommandRow option" where
  "nextCommand locked rows =
     (case sort_key commandKey (filter (\<lambda>r. pendingLive r \<and> \<not> locked (co_ID r)) rows) of [] \<Rightarrow> None | r # _ \<Rightarrow> Some r)"

text \<open>The command of a row; without arguments it is what \<open>claim\<close> rejects on the spot.\<close>

definition commandOf :: "CommandRow \<Rightarrow> Command" where
  "commandOf r = \<lparr>cm_ID = co_ID r, cm_Source = co_Source r, cm_Target = co_Target r, cm_Name = co_Name r,
     cm_Args = (case co_Args r of None \<Rightarrow> noArgs | Some a \<Rightarrow> a), cm_RequestedBy = co_RequestedBy r\<rparr>"

definition Consumer_claim :: "Consumer \<Rightarrow> CmdEnv \<Rightarrow> CmdStore \<Rightarrow> CmdStore \<times> (cmd_error + Command option)" where
  "Consumer_claim c env s =
     (if \<not> ce_claimDb env then (s, Inl CmdDatabase)
      else case nextCommand (ce_locked env) (cs_rows s) of
        None \<Rightarrow> (s, Inr None)
      | Some r \<Rightarrow>
          (let s1 = s\<lparr>cs_rows := map (\<lambda>x. if co_ID x = co_ID r then x\<lparr>co_Status := CmdAcknowledged, co_AckAt := Some (ce_claimAt env)\<rparr> else x) (cs_rows s)\<rparr> in
           case co_Args r of
             None \<Rightarrow> (Consumer_reject c env (commandOf r) (CmdMsg ''invalid args json'') s1, Inr (Some noCommand))
           | Some a \<Rightarrow> (s1, Inr (Some (commandOf r)))))"

text \<open>The call of the controller for a valid command; \<open>None\<close> is the default branch of the switch.\<close>

definition dispatchCommand :: "'n Controller \<Rightarrow> Command \<Rightarrow> 'n \<Rightarrow> ('n \<times> (cmd_error + CmdResult)) option" where
  "dispatchCommand ct cmd n =
     (let done = (\<lambda>(n', err) res. Some (n', case err of None \<Rightarrow> Inr res | Some e \<Rightarrow> Inl e));
          reason = ca_Reason (cm_Args cmd); name = cm_Name cmd in
      if name = NameStart \<or> name = NameResume then done (ct_Resume ct n) ResEmitting
      else if name = NameStop then done (ct_Stop ct reason n) ResStopped
      else if name = NameHalt then done (ct_Halt ct HaltManual (reasonOr reason ''manual halt'') n) ResHalted
      else if name = NameKill then done (ct_Kill ct (reasonOr reason ''kill switch'') n) ResKilled
      else if name = NameSetMode then done (ct_SetMode ct (ca_Mode (cm_Args cmd)) n) (ResMode (ca_Mode (cm_Args cmd)))
      else if name = NameFlatten then (case ct_Flatten ct (reasonOr reason ''flatten'') n of (n', k, err) \<Rightarrow> done (n', err) (ResFlattened k))
      else if name = NameEmergencyKill then
        (case ct_EmergencyKill ct (reasonOr reason ''emergency kill'') n of (n', k, err) \<Rightarrow> done (n', err) (ResEmergency k))
      else if name = NameReconcile then (case ct_Reconcile ct n of (n', issues, err) \<Rightarrow> done (n', err) (ResIssues issues))
      else None)"

definition Consumer_apply :: "'n Controller \<Rightarrow> Consumer \<Rightarrow> CmdEnv \<Rightarrow> Command \<Rightarrow> 'n \<times> CmdStore \<Rightarrow> 'n \<times> CmdStore" where
  "Consumer_apply ct c env cmd = (\<lambda>(n, s).
     (case Validate cmd of
        Some err \<Rightarrow> (n, Consumer_reject c env cmd err s)
      | None \<Rightarrow>
          (case dispatchCommand ct cmd n of
             None \<Rightarrow> (n, Consumer_reject c env cmd (CmdMsg ''unhandled command'') s)
           | Some (n', Inl err) \<Rightarrow> (n', Consumer_reject c env cmd err s)
           | Some (n', Inr result) \<Rightarrow> (n', Consumer_complete c env cmd result s))))"

text \<open>The drain takes one \<open>CmdEnv\<close> per round and ends with the error of its last claim; the flag says whether it ended
  before the environments did.\<close>

fun Consumer_drain :: "'n Controller \<Rightarrow> CmdEnv list \<Rightarrow> Consumer \<Rightarrow> 'n \<times> CmdStore \<Rightarrow> (Consumer \<times> 'n \<times> CmdStore) \<times> (cmd_error option) option" where
  "Consumer_drain ct [] c x = ((c, x), None)"
| "Consumer_drain ct (env # envs) c (n, s) =
     (if ce_ctxErr env then ((c, n, s), Some (Some (CmdMsg ''context canceled'')))
      else case Consumer_claim c env s of
        (s1, Inl err) \<Rightarrow> ((c, n, s1), Some (Some err))
      | (s1, Inr None) \<Rightarrow> ((c, n, s1), Some None)
      | (s1, Inr (Some cmd)) \<Rightarrow> Consumer_drain ct envs (c\<lparr>cn_processed := cn_processed c + 1\<rparr>) (Consumer_apply ct c env cmd (n, s1)))"

text \<open>The loop of the consumer: a drain per wake-up, whatever error the last one had.\<close>

fun Consumer_Run :: "'n Controller \<Rightarrow> CmdEnv list list \<Rightarrow> Consumer \<Rightarrow> 'n \<times> CmdStore \<Rightarrow> Consumer \<times> 'n \<times> CmdStore" where
  "Consumer_Run ct [] c x = (c, x)"
| "Consumer_Run ct (w # ws) c x = (case fst (Consumer_drain ct w c x) of (c1, x1) \<Rightarrow> Consumer_Run ct ws c1 x1)"

section \<open>One round\<close>

definition quietEnv :: "CmdEnv \<Rightarrow> bool" where
  "quietEnv env \<longleftrightarrow> \<not> ce_ctxErr env \<and> ce_claimDb env \<and> ce_writeDb env \<and> ce_auditDb env \<and> ce_locked env = (\<lambda>_. False) \<and> ce_claimAt env \<le> ce_writeAt env"

definition cmdsOk :: "CmdStore \<Rightarrow> bool" where
  "cmdsOk s \<longleftrightarrow> distinct (map co_ID (cs_rows s)) \<and> list_all (\<lambda>r. checkCommand r \<and> 0 < co_ID r) (cs_rows s)"

text \<open>What a row makes of the node: nothing when it does not decode or validate.\<close>

definition effectOf :: "'n Controller \<Rightarrow> CommandRow \<Rightarrow> 'n \<Rightarrow> 'n" where
  "effectOf ct r n =
     (if co_Args r = None \<or> Validate (commandOf r) \<noteq> None then n
      else case dispatchCommand ct (commandOf r) n of None \<Rightarrow> n | Some (n', _) \<Rightarrow> n')"

definition settledBy :: "int \<Rightarrow> CommandRow \<Rightarrow> CommandRow \<Rightarrow> bool" where
  "settledBy i r r' \<longleftrightarrow> (if co_ID r = i then co_ID r' = i \<and> co_Status r' \<in> {CmdCompleted, CmdRejected} \<and> checkCommand r' else r' = r)"

lemma write_settles:
  assumes "quietEnv env" "cmdsOk s" "r \<in> set (cs_rows s)" "co_ID r = i"
    and "\<And>x. checkCommand x \<Longrightarrow> checkCommand (f (x\<lparr>co_Status := CmdAcknowledged, co_AckAt := Some (ce_claimAt env)\<rparr>))"
    and "\<And>x. co_ID (f x) = co_ID x \<and> co_Status (f x) \<in> {CmdCompleted, CmdRejected}"
  shows "list_all2 (settledBy i) (cs_rows s) (cs_rows (writeCommand env i f
    (s\<lparr>cs_rows := map (\<lambda>x. if co_ID x = i then x\<lparr>co_Status := CmdAcknowledged, co_AckAt := Some (ce_claimAt env)\<rparr> else x) (cs_rows s)\<rparr>)))"
  using assms by (auto simp: writeCommand_def quietEnv_def cmdsOk_def list_all_iff list_all2_conv_all_nth settledBy_def)

lemma audit_rows [simp]: "cs_rows (Consumer_audit c env cmd s) = cs_rows s"
  by (simp add: Consumer_audit_def)

lemma reject_absent: "list_all (\<lambda>r. co_ID r \<noteq> cm_ID cmd) (cs_rows s) \<Longrightarrow> cs_rows (Consumer_reject c env cmd e s) = cs_rows s"
  by (auto simp: Consumer_reject_def writeCommand_def list_all_iff intro: map_idI)

lemma settled_ids: "list_all2 (settledBy i) xs ys \<Longrightarrow> map co_ID ys = map co_ID xs"
  by (induction rule: list_all2_induct) (auto simp: settledBy_def split: if_splits)

lemma settled_ok:
  assumes "list_all2 (settledBy i) (cs_rows s) (cs_rows t)" "cmdsOk s"
  shows "cmdsOk t"
proof -
  have "list_all (\<lambda>r. checkCommand r \<and> 0 < co_ID r) (cs_rows t)"
    using assms by (auto simp: cmdsOk_def list_all_length list_all2_conv_all_nth settledBy_def split: if_splits)
  then show ?thesis using settled_ids [OF assms(1)] assms(2) by (simp add: cmdsOk_def)
qed

lemma settled_pending:
  "list_all2 (settledBy i) xs ys \<Longrightarrow> filter pendingLive ys = filter (\<lambda>r. pendingLive r \<and> co_ID r \<noteq> i) xs"
  by (induction rule: list_all2_induct) (auto simp: settledBy_def pendingLive_def split: if_splits)

lemma sorted_rest:
  assumes "sort_key f (filter P xs) = r # rest" "distinct (map h xs)"
  shows "sort_key f (filter (\<lambda>x. P x \<and> h x \<noteq> h r) xs) = rest"
proof -
  have "distinct (map h (sort_key f (filter P xs)))"
    using assms(2) by (metis distinct_map distinct_map_filter distinct_sort set_sort)
  then have d: "h r \<notin> h ` set rest" by (simp add: assms(1))
  have "sort_key f (filter (\<lambda>x. P x \<and> h x \<noteq> h r) xs) = filter (\<lambda>x. h x \<noteq> h r) (sort_key f (filter P xs))"
    by (simp add: filter_sort conj_commute)
  also have "\<dots> = rest" unfolding assms(1) using d by (simp add: image_iff) (metis (mono_tags, lifting) filter_True)
  finally show ?thesis .
qed

lemma finish_settles:
  assumes "quietEnv env" "cmdsOk s" "r \<in> set (cs_rows s)" "cm_ID cmd = co_ID r"
    and "s1 = s\<lparr>cs_rows := map (\<lambda>x. if co_ID x = co_ID r then x\<lparr>co_Status := CmdAcknowledged, co_AckAt := Some (ce_claimAt env)\<rparr> else x) (cs_rows s)\<rparr>"
  shows "list_all2 (settledBy (co_ID r)) (cs_rows s) (cs_rows (Consumer_reject c env cmd e s1))"
    and "list_all2 (settledBy (co_ID r)) (cs_rows s) (cs_rows (Consumer_complete c env cmd res s1))"
  unfolding Consumer_reject_def Consumer_complete_def audit_rows assms(4,5)
  by (rule write_settles [OF assms(1-3) refl]; use assms(1) in \<open>auto simp: checkCommand_def quietEnv_def\<close>)+

lemma apply_effect:
  assumes "co_Args r = Some a"
  obtains s2 where "Consumer_apply ct c env (commandOf r) (n, s) = (effectOf ct r n, s2)"
    "(\<exists>e. s2 = Consumer_reject c env (commandOf r) e s) \<or> (\<exists>res. s2 = Consumer_complete c env (commandOf r) res s)"
proof (cases "Validate (commandOf r)")
  case None
  show ?thesis
  proof (cases "dispatchCommand ct (commandOf r) n")
    case (Some x)
    then show ?thesis using that None assms by (cases x; cases "snd x") (auto simp: Consumer_apply_def effectOf_def)
  qed (use that None assms in \<open>auto simp: Consumer_apply_def effectOf_def\<close>)
qed (use that in \<open>auto simp: Consumer_apply_def effectOf_def\<close>)

lemma claimed_round:
  assumes "quietEnv env" "cmdsOk s" "sort_key commandKey (filter pendingLive (cs_rows s)) = r # rest"
  obtains s1 cmd s2 where "Consumer_claim c env s = (s1, Inr (Some cmd))" "Consumer_apply ct c env cmd (n, s1) = (effectOf ct r n, s2)"
    "list_all2 (settledBy (co_ID r)) (cs_rows s) (cs_rows s2)"
proof -
  let ?s1 = "s\<lparr>cs_rows := map (\<lambda>x. if co_ID x = co_ID r then x\<lparr>co_Status := CmdAcknowledged, co_AckAt := Some (ce_claimAt env)\<rparr> else x) (cs_rows s)\<rparr>"
  have "set (sort_key commandKey (filter pendingLive (cs_rows s))) = set (r # rest)" by (simp only: assms(3))
  then have r: "r \<in> set (cs_rows s)" by auto
  then have pos: "0 < co_ID r" using assms(2) by (simp add: cmdsOk_def list_all_iff)
  have nx: "nextCommand (ce_locked env) (cs_rows s) = Some r" "ce_claimDb env"
    using assms(1,3) by (simp_all add: nextCommand_def quietEnv_def)
  show ?thesis
  proof (cases "co_Args r")
    case None
    let ?s2 = "Consumer_reject c env (commandOf r) (CmdMsg ''invalid args json'') ?s1"
    note f = finish_settles(1) [OF assms(1,2) r, of "commandOf r" ?s1 c "CmdMsg ''invalid args json''"]
    have f: "list_all2 (settledBy (co_ID r)) (cs_rows s) (cs_rows ?s2)" by (rule f) (simp_all add: commandOf_def)
    have "cmdsOk ?s2" by (rule settled_ok [OF f assms(2)])
    then have z: "cs_rows (Consumer_reject c env noCommand e ?s2) = cs_rows ?s2" for e
      by (intro reject_absent) (auto simp: cmdsOk_def list_all_iff noCommand_def)
    have v: "Validate noCommand = Some (CmdUnknown [])" by (simp add: Validate_def Name_IsValid_def noCommand_def name_defs)
    show ?thesis
      by (rule that [of ?s2 noCommand "Consumer_reject c env noCommand (CmdUnknown []) ?s2"])
         (use nx None f z in \<open>simp_all add: Consumer_claim_def Consumer_apply_def v effectOf_def\<close>)
  next
    case (Some a)
    note f = finish_settles [OF assms(1,2) r _ refl, of "commandOf r" c]
    have i: "cm_ID (commandOf r) = co_ID r" by (simp add: commandOf_def)
    have c: "Consumer_claim c env s = (?s1, Inr (Some (commandOf r)))" using nx Some by (simp add: Consumer_claim_def Let_def)
    obtain s2 where s2: "Consumer_apply ct c env (commandOf r) (n, ?s1) = (effectOf ct r n, s2)"
      and "(\<exists>e. s2 = Consumer_reject c env (commandOf r) e ?s1) \<or> (\<exists>res. s2 = Consumer_complete c env (commandOf r) res ?s1)"
      by (rule apply_effect [OF Some, of ct c env n ?s1])
    then have "list_all2 (settledBy (co_ID r)) (cs_rows s) (cs_rows s2)" using f [OF i] by blast
    then show ?thesis by (rule that [OF c s2])
  qed
qed

section \<open>A drain\<close>

text \<open>The pending commands for the node, oldest first.\<close>

definition queueOf :: "CmdStore \<Rightarrow> CommandRow list" where
  "queueOf s = sort_key (\<lambda>r. (co_CreatedAt r, co_ID r)) (filter (\<lambda>r. co_Target r = ''live'' \<and> co_Status r = CmdPending) (cs_rows s))"

lemma queueOf_key: "queueOf s = sort_key commandKey (filter pendingLive (cs_rows s))"
  by (simp add: queueOf_def commandKey_def [abs_def] pendingLive_def [abs_def] TargetLive_def)

definition drained :: "CommandRow \<Rightarrow> CommandRow \<Rightarrow> bool" where
  "drained r r' \<longleftrightarrow> (if pendingLive r then co_ID r' = co_ID r \<and> co_Status r' \<in> {CmdCompleted, CmdRejected} else r' = r)"

lemma settled_drained:
  assumes "list_all2 (settledBy i) xs ys" "list_all2 drained ys zs" "distinct (map co_ID xs)" "r \<in> set xs" "pendingLive r" "co_ID r = i"
  shows "list_all2 drained xs zs"
proof -
  have "drained x z" if k: "k < length xs" "x = xs ! k" "z = zs ! k" for k x z
  proof (cases "co_ID x = i")
    case True
    then have "x = r" using assms(3,4,6) k by (metis distinct_map inj_onD nth_mem)
    moreover have "settledBy i x (ys ! k)" "drained (ys ! k) z" using assms(1,2) k by (auto simp: list_all2_conv_all_nth)
    ultimately show ?thesis using assms(5,6) by (auto simp: drained_def settledBy_def pendingLive_def)
  next
    case False
    then show ?thesis using assms(1,2) k by (auto simp: list_all2_conv_all_nth settledBy_def)
  qed
  then show ?thesis using assms(1,2) by (auto simp: list_all2_conv_all_nth)
qed

lemma drain_queue:
  assumes "list_all quietEnv envs" "cmdsOk s" "length (queueOf s) < length envs"
  shows "\<exists>s'. Consumer_drain ct envs c (n, s) = ((c\<lparr>cn_processed := cn_processed c + length (queueOf s)\<rparr>, fold (effectOf ct) (queueOf s) n, s'), Some None) \<and>
    list_all2 drained (cs_rows s) (cs_rows s')"
  using assms
proof (induction envs arbitrary: c n s)
  case (Cons env envs)
  have q: "quietEnv env" and qs: "list_all quietEnv envs" using Cons(2) by simp_all
  show ?case
  proof (cases "queueOf s")
    case Nil
    then have "nextCommand (ce_locked env) (cs_rows s) = None" using q by (simp add: nextCommand_def quietEnv_def queueOf_key)
    moreover have "\<not> pendingLive r" if "r \<in> set (cs_rows s)" for r
      using Nil that by (metis empty_filter_conv queueOf_key set_empty2 set_sort)
    then have "list_all2 drained (cs_rows s) (cs_rows s)" by (auto simp: drained_def list.rel_refl_strong)
    ultimately show ?thesis using q Nil by (simp add: Consumer_claim_def quietEnv_def)
  next
    case (Cons r rest)
    obtain s1 cmd s2 where x: "Consumer_claim c env s = (s1, Inr (Some cmd))" "Consumer_apply ct c env cmd (n, s1) = (effectOf ct r n, s2)"
      "list_all2 (settledBy (co_ID r)) (cs_rows s) (cs_rows s2)"
      by (rule claimed_round [OF q Cons.prems(2) Cons [unfolded queueOf_key]])
    have d: "distinct (map co_ID (cs_rows s))" using Cons.prems(2) by (simp add: cmdsOk_def)
    have rest: "queueOf s2 = rest"
      unfolding queueOf_key settled_pending [OF x(3)] by (rule sorted_rest [OF Cons [unfolded queueOf_key] d])
    have r: "r \<in> set (cs_rows s)" "pendingLive r" using Cons by (auto simp: queueOf_key dest!: arg_cong [where f = set])
    obtain s' where "Consumer_drain ct envs (c\<lparr>cn_processed := cn_processed c + 1\<rparr>) (effectOf ct r n, s2) =
        ((c\<lparr>cn_processed := cn_processed c + 1 + length rest\<rparr>, fold (effectOf ct) rest (effectOf ct r n), s'), Some None)"
      "list_all2 drained (cs_rows s2) (cs_rows s')"
      using Cons.IH [OF qs settled_ok [OF x(3) Cons.prems(2)], of "c\<lparr>cn_processed := cn_processed c + 1\<rparr>" "effectOf ct r n"] Cons.prems(3) Cons rest by auto
    then show ?thesis
      using settled_drained [OF x(3) _ d r refl, of "cs_rows s'"] x(1,2) q Cons by (simp add: quietEnv_def)
  qed
qed simp

section \<open>The interface\<close>

text \<open>A controller whose every operation keeps \<open>inv\<close> keeps it under any commands, whatever the database does.\<close>

locale node_controller =
  fixes ct :: "'n Controller" and inv :: "'n \<Rightarrow> bool"
  assumes set_mode: "inv n \<Longrightarrow> inv (fst (ct_SetMode ct m n))"
    and halt: "inv n \<Longrightarrow> inv (fst (ct_Halt ct k reason n))"
    and resume: "inv n \<Longrightarrow> inv (fst (ct_Resume ct n))"
    and stop: "inv n \<Longrightarrow> inv (fst (ct_Stop ct reason n))"
    and kill: "inv n \<Longrightarrow> inv (fst (ct_Kill ct reason n))"
    and flatten: "inv n \<Longrightarrow> inv (fst (ct_Flatten ct reason n))"
    and emergency: "inv n \<Longrightarrow> inv (fst (ct_EmergencyKill ct reason n))"
    and reconcile: "inv n \<Longrightarrow> inv (fst (ct_Reconcile ct n))"
begin

lemma dispatch_keeps:
  assumes "dispatchCommand ct cmd n = Some (n', r)" "inv n"
  shows "inv n'"
  using assms(1) set_mode [OF assms(2), of "ca_Mode (cm_Args cmd)"] halt [OF assms(2), of HaltManual "reasonOr (ca_Reason (cm_Args cmd)) ''manual halt''"]
    resume [OF assms(2)] stop [OF assms(2), of "ca_Reason (cm_Args cmd)"] kill [OF assms(2), of "reasonOr (ca_Reason (cm_Args cmd)) ''kill switch''"]
    flatten [OF assms(2), of "reasonOr (ca_Reason (cm_Args cmd)) ''flatten''"] reconcile [OF assms(2)]
    emergency [OF assms(2), of "reasonOr (ca_Reason (cm_Args cmd)) ''emergency kill''"]
  by (auto simp: dispatchCommand_def Let_def split: if_splits prod.splits)

lemma apply_keeps: "inv n \<Longrightarrow> inv (fst (Consumer_apply ct c env cmd (n, s)))"
  using dispatch_keeps [of cmd n] by (auto simp: Consumer_apply_def split: option.splits sum.splits)

lemma drain_keeps: "inv n \<Longrightarrow> Consumer_drain ct envs c (n, s) = ((c', n', s'), e) \<Longrightarrow> inv n'"
proof (induction envs arbitrary: c n s)
  case (Cons env envs)
  show ?case
  proof (cases "\<exists>s1 cmd. \<not> ce_ctxErr env \<and> Consumer_claim c env s = (s1, Inr (Some cmd))")
    case True
    then obtain s1 cmd where x: "\<not> ce_ctxErr env" "Consumer_claim c env s = (s1, Inr (Some cmd))" by blast
    obtain n2 s2 where a: "Consumer_apply ct c env cmd (n, s1) = (n2, s2)" by fastforce
    have "inv n2" using apply_keeps [OF Cons(2), of c env cmd s1] a by simp
    then show ?thesis using Cons(1) [of n2 _ s2] Cons(3) x a by simp
  qed (use Cons(2,3) in \<open>auto split: if_splits prod.splits sum.splits option.splits\<close>)
qed simp

lemma run_keeps: "inv n \<Longrightarrow> Consumer_Run ct ws c (n, s) = (c', n', s') \<Longrightarrow> inv n'"
proof (induction ws arbitrary: c n s)
  case (Cons w ws)
  obtain c1 n1 s1 e where d: "Consumer_drain ct w c (n, s) = ((c1, n1, s1), e)" by (metis surj_pair)
  show ?case using Cons(1) [OF drain_keeps [OF Cons(2) d]] Cons(3) d by simp
qed simp

end

section \<open>What the control plane guarantees\<close>

definition logController :: "Name list Controller" where
  "logController = \<lparr>ct_SetMode = (\<lambda>m n. (n @ [NameSetMode], None)), ct_Halt = (\<lambda>k reason n. (n @ [NameHalt], None)),
     ct_Resume = (\<lambda>n. (n @ [NameResume], None)), ct_Stop = (\<lambda>reason n. (n @ [NameStop], None)), ct_Kill = (\<lambda>reason n. (n @ [NameKill], None)),
     ct_Flatten = (\<lambda>reason n. (n @ [NameFlatten], 0, Some (CmdMsg ''no session''))), ct_EmergencyKill = (\<lambda>reason n. (n @ [NameEmergencyKill], 0, None)),
     ct_Reconcile = (\<lambda>n. (n @ [NameReconcile], False, None))\<rparr>"

definition demoRow :: "int \<Rightarrow> Name \<Rightarrow> CommandArgs option \<Rightarrow> instant \<Rightarrow> CommandRow" where
  "demoRow i name args t = \<lparr>co_ID = i, co_Source = ''cli'', co_Target = TargetLive, co_Name = name, co_Args = args, co_RequestedBy = ''op'',
     co_Status = CmdPending, co_CreatedAt = t, co_AckAt = None, co_DoneAt = None, co_Result = None, co_Error = None\<rparr>"

definition demoCommands :: CmdStore where
  "demoCommands = \<lparr>cs_rows = [demoRow 1 NameResume (Some noArgs) 20, demoRow 2 NameHalt (Some noArgs) 10, demoRow 3 NameKill None 30], cs_nextID = 4, cs_audit = []\<rparr>"

definition demoConsumer :: Consumer where
  "demoConsumer = \<lparr>cn_actor = ''tms-live'', cn_pollEvery = DefaultPoll, cn_processed = 0\<rparr>"

definition demoEnv :: CmdEnv where
  "demoEnv = \<lparr>ce_ctxErr = False, ce_claimDb = True, ce_claimAt = 100, ce_locked = (\<lambda>_. False), ce_writeDb = True, ce_writeAt = 101, ce_auditDb = True\<rparr>"

lemma demo_commands:
  "list_all quietEnv (replicate 4 demoEnv)" "cmdsOk demoCommands" "map co_Name (queueOf demoCommands) = [NameHalt, NameResume, NameKill]"
  "fold (effectOf logController) (queueOf demoCommands) [] = [NameHalt, NameResume]"
proof -
  have "cmdsOk demoCommands \<and> map co_Name (queueOf demoCommands) = [NameHalt, NameResume, NameKill] \<and>
    fold (effectOf logController) (queueOf demoCommands) [] = [NameHalt, NameResume]" by code_simp
  then show "cmdsOk demoCommands" "map co_Name (queueOf demoCommands) = [NameHalt, NameResume, NameKill]"
    "fold (effectOf logController) (queueOf demoCommands) [] = [NameHalt, NameResume]" by blast+
  show "list_all quietEnv (replicate 4 demoEnv)" by (simp add: list_all_iff quietEnv_def demoEnv_def)
qed

text \<open>C26. Functional. A drain with an answering database ends, and until then applies every pending command of the node exactly once, in the order of
  creation (ties by id): the node becomes what these commands make of it one after the other, every one of them ends completed or rejected, the rows of
  other targets and of earlier commands are untouched, and the count grows by their number.  A command whose arguments do not decode counts but does nothing.\<close>

theorem drain_applies_in_order:
  assumes "list_all quietEnv envs" "cmdsOk s" "length (queueOf s) < length envs"
  shows "\<exists>s'. Consumer_drain ct envs c (n, s) = ((c\<lparr>cn_processed := cn_processed c + length (queueOf s)\<rparr>, fold (effectOf ct) (queueOf s) n, s'), Some None) \<and>
    list_all2 drained (cs_rows s) (cs_rows s')"
  by (rule drain_queue [OF assms])

theorem drain_applies_in_order_witness:
  "\<exists>s'. Consumer_drain logController (replicate 4 demoEnv) demoConsumer ([], demoCommands) =
      ((demoConsumer\<lparr>cn_processed := 3\<rparr>, [NameHalt, NameResume], s'), Some None) \<and> list_all2 drained (cs_rows demoCommands) (cs_rows s')"
proof -
  have l: "length (queueOf demoCommands) = 3" using demo_commands(3) by (metis length_Cons length_map list.size(3) numeral_3_eq_3)
  then show ?thesis
    using drain_applies_in_order [OF demo_commands(1,2), of logController demoConsumer "[]"] demo_commands(4) by (simp add: demoConsumer_def)
qed

text \<open>Arguments that do not decode leave two audit rows: the one of the command, and one for the empty command with id 0 that \<open>claim\<close>
  hands on although it has already rejected the row.\<close>

lemma malformed_audited_twice:
  "cs_audit (snd (snd (fst (Consumer_drain logController (replicate 2 demoEnv) demoConsumer ([], demoCommands\<lparr>cs_rows := [demoRow 3 NameKill None 30]\<rparr>))))) =
    [\<lparr>cu_Actor = ''tms-live'', cu_Action = ''live.command.kill'', cu_EntityID = 3\<rparr>, \<lparr>cu_Actor = ''tms-live'', cu_Action = ''live.command.'', cu_EntityID = 0\<rparr>]"
  by code_simp

text \<open>Safety. Whatever an enqueue inserts is one pending command for the live node that the consumer will find valid, its confirmation token is not
  stored, and when it closes positions or switches to paper or live trading the request carried the configured token (any token when none is configured).\<close>

theorem privileged_needs_token:
  assumes "Enqueuer_Enqueue e db now p s = (s', Inr i)"
  shows "\<exists>r a. cs_rows s' = cs_rows s @ [r] \<and> pendingLive r \<and> co_ID r = i \<and> co_Args r = Some a \<and> ca_ConfirmToken a = [] \<and> Validate (commandOf r) = None \<and>
    checkCommand r \<and>
    (RequiresConfirmation (co_Name r) (ca_Mode a) \<longrightarrow> TrimSpace (ca_ConfirmToken (cp_Args p)) \<noteq> [] \<and>
      (en_confirmWant e \<noteq> [] \<longrightarrow> TrimSpace (ca_ConfirmToken (cp_Args p)) = en_confirmWant e))"
proof -
  let ?v = "Validate (noCommand\<lparr>cm_Name := cp_Name p, cm_Args := cp_Args p\<rparr>)"
  have v: "?v = None" "RequiresConfirmation (cp_Name p) (ca_Mode (cp_Args p)) \<Longrightarrow> tokenOK e (ca_ConfirmToken (cp_Args p))"
    using assms by (auto simp: Enqueuer_Enqueue_def Let_def split: if_splits option.splits)
  obtain r where r: "cs_rows s' = cs_rows s @ [r]" "checkCommand r" "pendingLive r" "co_ID r = i" "co_Name r = cp_Name p"
      "co_Args r = Some ((cp_Args p)\<lparr>ca_ConfirmToken := []\<rparr>)"
    using assms v(1) by (auto simp: Enqueuer_Enqueue_def Let_def pendingLive_def split: if_splits)
  have "Validate (commandOf r) = None" using v(1) r(5,6) by (simp add: Validate_def commandOf_def noCommand_def split: if_splits)
  then show ?thesis using r v(2) by (auto simp: tokenOK_def Let_def split: if_splits)
qed

theorem privileged_needs_token_witness:
  "\<exists>s'. Enqueuer_Enqueue \<lparr>en_confirmWant = ''yes''\<rparr> True 5 \<lparr>cp_Source = ''cli'', cp_Name = NameFlatten, cp_Args = noArgs\<lparr>ca_ConfirmToken := ''yes''\<rparr>, cp_RequestedBy = ''op''\<rparr>
      demoCommands = (s', Inr 4) \<and> (\<exists>r a. cs_rows s' = cs_rows demoCommands @ [r] \<and> co_Args r = Some a \<and> ca_ConfirmToken a = [])"
proof -
  let ?p = "\<lparr>cp_Source = ''cli'', cp_Name = NameFlatten, cp_Args = noArgs\<lparr>ca_ConfirmToken := ''yes''\<rparr>, cp_RequestedBy = ''op''\<rparr>"
  have "snd (Enqueuer_Enqueue \<lparr>en_confirmWant = ''yes''\<rparr> True 5 ?p demoCommands) = Inr 4" by code_simp
  then obtain s' where e: "Enqueuer_Enqueue \<lparr>en_confirmWant = ''yes''\<rparr> True 5 ?p demoCommands = (s', Inr 4)" by (metis surjective_pairing)
  then show ?thesis using privileged_needs_token [OF e] by blast
qed

end
