(* ===== verification/Live_Node.thy ===== *)
theory Live_Node
  imports Commands_Consumer
begin

text \<open>
  The live node of \<open>internal/runner/live.go\<close>: the controller the command consumer drives, the halt and session rows it keeps, and
  the supervisor that runs one session after the other.  The running trade session is its executor with its
  reconciler; assembling, subscribing, warming up and streaming a session are given by \<open>SessionScript\<close> (whether and how
  they fail), and a session's run is the sequence of what happens meanwhile.  \<open>NodeEnv\<close> is what one operation meets
  outside: clocks, whether the database answers, the broker.
\<close>

section \<open>The node\<close>

definition modeSignal :: string where "modeSignal = ''signal''"
definition modePaper :: string where "modePaper = ''paper''"
definition modeLive :: string where "modeLive = ''live''"

lemma mode_neq [simp]: "modeSignal \<noteq> modePaper" "modeSignal \<noteq> modeLive" "modePaper \<noteq> modeSignal" "modePaper \<noteq> modeLive" "modeLive \<noteq> modeSignal"
  "modeLive \<noteq> modePaper" "modeSignal \<noteq> []" "modePaper \<noteq> []" "modeLive \<noteq> []"
  by (simp_all add: modeSignal_def modePaper_def modeLive_def)

definition execPolicyForMode :: "string \<Rightarrow> ExecutionPolicy" where
  "execPolicyForMode mode = (if mode = modeSignal then ExecSignal else ExecAuto)"

text \<open>The settings the node's own decisions read.\<close>

record LiveConfig =
  lc_TraderID :: string
  lc_Mode :: string
  lc_BarSeconds :: int
  lc_DrainTimeout :: int
  lc_BoundAccount :: BrokerAccount
  lc_Phrase :: string

record 'v Live =
  lv_cfg :: LiveConfig
  lv_mode :: string
  lv_restartMode :: string
  lv_restartCh :: bool
  lv_halt :: HaltState
  lv_sessionRunning :: bool
  lv_sessionFailures :: nat
  lv_sessionLastErr :: "cmd_error option"
  lv_trade :: "('v MoomooExecutor \<times> Reconciler) option"
  lv_sessionID :: int

definition NewLive :: "LiveConfig \<Rightarrow> cmd_error + 'v Live" where
  "NewLive cfg =
     (if lc_TraderID cfg = [] then Inl (CmdMsg ''live node requires a trader id'')
      else
        (let mode = (if lc_Mode cfg = [] then modeSignal else lc_Mode cfg);
             err = (if mode = modeSignal then None
                    else if mode = modePaper then
                      (if acct_BrokerAccID (lc_BoundAccount cfg) = 0 then Some (CmdMsg ''paper mode requires a bound account'') else None)
                    else if mode = modeLive then
                      (if acct_BrokerAccID (lc_BoundAccount cfg) = 0 then Some (CmdMsg ''live mode requires a bound account'')
                       else if lc_Phrase cfg \<noteq> LiveConfirmationPhrase then Some (CmdMsg ''live mode requires the phrase'')
                       else if lc_TraderID cfg \<noteq> LiveTraderID then Some (CmdMsg ''live mode requires the trader id'')
                       else None)
                    else Some (CmdMsg ''unknown live mode''));
             cfg1 = (if lc_BarSeconds cfg \<le> 0 then cfg\<lparr>lc_BarSeconds := 86400\<rparr> else cfg);
             cfg2 = (if lc_DrainTimeout cfg1 \<le> 0 then cfg1\<lparr>lc_DrainTimeout := 10000000000\<rparr> else cfg1) in
         case err of
           Some e \<Rightarrow> Inl e
         | None \<Rightarrow> Inr \<lparr>lv_cfg = cfg2, lv_mode = mode, lv_restartMode = [], lv_restartCh = False, lv_halt = NewHaltState, lv_sessionRunning = False,
             lv_sessionFailures = 0, lv_sessionLastErr = None, lv_trade = None, lv_sessionID = 0\<rparr>))"

definition liveUnhealthyAfter :: nat where "liveUnhealthyAfter = 3"

record SessionHealth =
  sh_Running :: bool
  sh_ConsecutiveFailures :: nat
  sh_Healthy :: bool
  sh_LastError :: "cmd_error option"

definition Live_SessionHealth :: "'v Live \<Rightarrow> SessionHealth" where
  "Live_SessionHealth l = \<lparr>sh_Running = lv_sessionRunning l, sh_ConsecutiveFailures = lv_sessionFailures l,
     sh_Healthy = (lv_sessionFailures l < liveUnhealthyAfter), sh_LastError = lv_sessionLastErr l\<rparr>"

definition markSessionRunning :: "'v Live \<Rightarrow> 'v Live" where
  "markSessionRunning l = l\<lparr>lv_sessionRunning := True, lv_sessionFailures := 0, lv_sessionLastErr := None\<rparr>"

definition markSessionFailed :: "cmd_error \<Rightarrow> 'v Live \<Rightarrow> 'v Live" where
  "markSessionFailed err l = l\<lparr>lv_sessionRunning := False, lv_sessionFailures := lv_sessionFailures l + 1, lv_sessionLastErr := Some err\<rparr>"

section \<open>Accounts, sessions and halts in the database\<close>

record SessionRow =
  se_ID :: int
  se_TraderID :: string
  se_Policy :: ExecutionPolicy
  se_AccountID :: "string option"
  se_Running :: bool
  se_Status :: string
  se_StartedAt :: instant
  se_EndedAt :: "instant option"

record HaltRow =
  hr_SessionID :: "int option"
  hr_Kind :: HaltKind
  hr_Reason :: string
  hr_TriggeredAt :: instant
  hr_Cleared :: "(instant \<times> string) option"

record NodeDb =
  nd_accounts :: "BrokerAccount list"
  nd_sessions :: "SessionRow list"
  nd_nextSession :: int
  nd_halts :: "HaltRow list"

record 'v NodeEnv =
  ne_db :: "nat \<Rightarrow> bool"
  ne_dbNow :: instant
  ne_clock :: gotime
  ne_client :: "'v TradeClient"
  ne_exec :: ExecConfig
  ne_report :: "(ReconciliationReport \<Rightarrow> int64 \<Rightarrow> unit result) option"
  ne_summary :: "ReconciliationReport \<Rightarrow> string"

type_synonym 'v NodeState = "'v Live \<times> NodeDb"

definition upsertAccount :: "bool \<Rightarrow> BrokerAccount \<Rightarrow> NodeDb \<Rightarrow> NodeDb \<times> cmd_error option" where
  "upsertAccount db acct d =
     (case BrokerAccount_Validate acct of
        Inl err \<Rightarrow> (d, Some (CmdGo err))
      | Inr _ \<Rightarrow>
          if \<not> db \<or> acct_Venue acct = [] \<or> sint (acct_BrokerAccID acct) < 0 then (d, Some CmdDatabase)
          else if list_ex (\<lambda>a. acct_ID a = acct_ID acct) (nd_accounts d)
            then (d\<lparr>nd_accounts := map (\<lambda>a. if acct_ID a = acct_ID acct then a\<lparr>acct_Label := acct_Label acct\<rparr> else a) (nd_accounts d)\<rparr>, None)
          else (d\<lparr>nd_accounts := nd_accounts d @ [acct]\<rparr>, None))"

definition ensureAccount :: "bool \<Rightarrow> BrokerAccount \<Rightarrow> NodeDb \<Rightarrow> NodeDb \<times> (cmd_error + string option)" where
  "ensureAccount db acct d =
     (if acct_ID acct = [] then (d, Inr None)
      else case upsertAccount db acct d of (d1, Some err) \<Rightarrow> (d1, Inl err) | (d1, None) \<Rightarrow> (d1, Inr (Some (acct_ID acct))))"

definition syncSessionAccount :: "bool \<Rightarrow> bool \<Rightarrow> int \<Rightarrow> BrokerAccount \<Rightarrow> NodeDb \<Rightarrow> NodeDb \<times> cmd_error option" where
  "syncSessionAccount db1 db2 sessionID acct d =
     (if sessionID = 0 \<or> acct_ID acct = [] then (d, None)
      else case ensureAccount db1 acct d of
        (d1, Inl err) \<Rightarrow> (d1, Some err)
      | (d1, Inr _) \<Rightarrow>
          if \<not> db2 then (d1, Some CmdDatabase)
          else (d1\<lparr>nd_sessions := map (\<lambda>x. if se_ID x = sessionID then x\<lparr>se_AccountID := Some (acct_ID acct)\<rparr> else x) (nd_sessions d1)\<rparr>, None))"

definition resolveAccount :: "'v Live \<Rightarrow> BrokerAccount" where
  "resolveAccount l = lc_BoundAccount (lv_cfg l)"

text \<open>The insert is refused by the unique index on the running session of a trader; then, as after any other error, the running
  row is looked up and reused.\<close>

definition openSessionRow :: "'v NodeEnv \<Rightarrow> 'v NodeState \<Rightarrow> NodeDb \<times> (cmd_error + int)" where
  "openSessionRow env = (\<lambda>(l, d).
     (case ensureAccount (ne_db env 0) (resolveAccount l) d of
        (d1, Inl err) \<Rightarrow> (d1, Inl err)
      | (d1, Inr accountID) \<Rightarrow>
          (let trader = lc_TraderID (lv_cfg l); mine = filter (\<lambda>x. se_TraderID x = trader \<and> se_Running x) (nd_sessions d1) in
           if ne_db env 1 \<and> mine = [] \<and> trader \<noteq> [] then
             (d1\<lparr>nd_nextSession := nd_nextSession d1 + 1,
                 nd_sessions := nd_sessions d1 @ [\<lparr>se_ID = nd_nextSession d1, se_TraderID = trader, se_Policy = execPolicyForMode (lv_mode l),
                   se_AccountID = accountID, se_Running = True, se_Status = ''RUNNING'', se_StartedAt = ne_dbNow env, se_EndedAt = None\<rparr>]\<rparr>,
              Inr (nd_nextSession d1))
           else
             (d1\<lparr>nd_nextSession := nd_nextSession d1 + (if ne_db env 1 then 1 else 0)\<rparr>,
              if \<not> ne_db env 2 then Inl CmdDatabase
              else case sort_key (\<lambda>x. - se_StartedAt x) mine of [] \<Rightarrow> Inl (CmdMsg ''opening session'') | x # _ \<Rightarrow> Inr (se_ID x)))))"

definition closeSession :: "'v NodeEnv \<Rightarrow> int \<Rightarrow> string \<Rightarrow> NodeDb \<Rightarrow> NodeDb" where
  "closeSession env i status d =
     (if ne_db env 0 \<and> list_all (\<lambda>x. se_ID x = i \<and> se_Running x \<longrightarrow> se_StartedAt x \<le> ne_dbNow env) (nd_sessions d)
      then d\<lparr>nd_sessions := map (\<lambda>x. if se_ID x = i \<and> se_Running x
               then x\<lparr>se_Running := False, se_Status := status, se_EndedAt := Some (ne_dbNow env)\<rparr> else x) (nd_sessions d)\<rparr>
      else d)"

definition sessionIDValue :: "'v Live \<Rightarrow> int option" where
  "sessionIDValue l = (if lv_sessionID l = 0 then None else Some (lv_sessionID l))"

definition haltKinds :: "HaltKind list" where
  "haltKinds = [''daily_loss'', ''manual'', ''reconciliation'', ''data'', ''broker'', ''other'']"

text \<open>\<open>session_id = $1\<close> is not true when \<open>$1\<close> is NULL.\<close>

definition activeHalt :: "int option \<Rightarrow> HaltRow \<Rightarrow> bool" where
  "activeHalt i h \<longleftrightarrow> i \<noteq> None \<and> hr_SessionID h = i \<and> hr_Cleared h = None"

definition recordHalt :: "'v NodeEnv \<Rightarrow> HaltKind \<Rightarrow> string \<Rightarrow> 'v NodeState \<Rightarrow> 'v NodeState" where
  "recordHalt env kind reason0 = (\<lambda>(l, d).
     (let reason = (if reason0 = [] then kind else reason0) in
      if \<not> ne_db env 0 \<or> kind \<notin> set haltKinds \<or> list_ex (activeHalt (sessionIDValue l)) (nd_halts d) then (l, d)
      else (l, d\<lparr>nd_halts := nd_halts d @ [\<lparr>hr_SessionID = sessionIDValue l, hr_Kind = kind, hr_Reason = reason, hr_TriggeredAt = ne_dbNow env,
              hr_Cleared = None\<rparr>]\<rparr>)))"

definition clearHalt :: "'v NodeEnv \<Rightarrow> string \<Rightarrow> 'v NodeState \<Rightarrow> 'v NodeState" where
  "clearHalt env who = (\<lambda>(l, d).
     (if ne_db env 0 \<and> list_all (\<lambda>h. activeHalt (sessionIDValue l) h \<longrightarrow> hr_TriggeredAt h \<le> ne_dbNow env) (nd_halts d)
      then (l, d\<lparr>nd_halts := map (\<lambda>h. if activeHalt (sessionIDValue l) h then h\<lparr>hr_Cleared := Some (ne_dbNow env, who)\<rparr> else h) (nd_halts d)\<rparr>)
      else (l, d)))"

definition rehydrateHalt :: "'v NodeEnv \<Rightarrow> 'v NodeState \<Rightarrow> 'v NodeState" where
  "rehydrateHalt env = (\<lambda>(l, d).
     (if sessionIDValue l = None \<or> \<not> ne_db env 0 then (l, d)
      else case sort_key (\<lambda>h. - hr_TriggeredAt h) (filter (activeHalt (sessionIDValue l)) (nd_halts d)) of
        [] \<Rightarrow> (l, d)
      | h # _ \<Rightarrow> (l\<lparr>lv_halt := Halt (ne_clock env) (hr_Kind h) (hr_Reason h) (lv_halt l)\<rparr>, d)))"

section \<open>The controller\<close>

definition Live_SetMode :: "string \<Rightarrow> 'v NodeState \<Rightarrow> 'v NodeState \<times> cmd_error option" where
  "Live_SetMode mode = (\<lambda>(l, d).
     (let cfg = lv_cfg l; noAcc = (acct_BrokerAccID (lc_BoundAccount cfg) = 0) in
      if mode = modePaper \<and> noAcc then ((l, d), Some (CmdMsg ''cannot switch to paper''))
      else if mode = modeLive \<and> (noAcc \<or> lc_Phrase cfg \<noteq> LiveConfirmationPhrase) then ((l, d), Some (CmdMsg ''cannot switch to live''))
      else if mode = modeLive \<and> lc_TraderID cfg \<noteq> LiveTraderID then ((l, d), Some (CmdMsg ''cannot switch to live''))
      else if mode \<noteq> modeSignal \<and> mode \<noteq> modePaper \<and> mode \<noteq> modeLive then ((l, d), Some (CmdMsg ''unknown mode''))
      else if lv_mode l = mode \<and> lv_restartMode l = [] then ((l, d), None)
      else ((l\<lparr>lv_restartMode := mode, lv_restartCh := True\<rparr>, d), None)))"

definition Live_Flatten :: "'v NodeEnv \<Rightarrow> string \<Rightarrow> 'v NodeState \<Rightarrow> 'v NodeState \<times> nat \<times> cmd_error option" where
  "Live_Flatten env reason = (\<lambda>(l, d).
     (case lv_trade l of
        None \<Rightarrow> ((l, d), 0, Some (CmdMsg ''no active paper/live trading session''))
      | Some (e, rec) \<Rightarrow>
          (case Flatten (ne_client env) (ne_exec env) (ne_clock env) FlattenConfirmationPhrase reason e of
             (e1, coids, err) \<Rightarrow>
               ((l\<lparr>lv_trade := Some (e1, rec)\<rparr>, d), case err of Some x \<Rightarrow> (0, Some (CmdGo x)) | None \<Rightarrow> (length coids, None)))))"

definition haltNode :: "'v NodeEnv \<Rightarrow> HaltKind \<Rightarrow> string \<Rightarrow> 'v NodeState \<Rightarrow> 'v NodeState" where
  "haltNode env kind reason = (\<lambda>(l, d). recordHalt env kind reason (l\<lparr>lv_halt := Halt (ne_clock env) kind reason (lv_halt l)\<rparr>, d))"

definition stopNode :: "'v NodeState \<Rightarrow> 'v NodeState" where
  "stopNode = (\<lambda>(l, d). (l\<lparr>lv_halt := Stop (lv_halt l), lv_restartCh := True\<rparr>, d))"

definition Live_EmergencyKill :: "'v NodeEnv \<Rightarrow> string \<Rightarrow> 'v NodeState \<Rightarrow> 'v NodeState \<times> nat \<times> cmd_error option" where
  "Live_EmergencyKill env reason0 st0 =
     (let reason = (if reason0 = [] then ''emergency kill'' else reason0) in
      case haltNode env HaltManual reason st0 of (l, d) \<Rightarrow>
        (case lv_trade l of
           None \<Rightarrow> (stopNode (l, d), 0, None)
         | Some (e, rec) \<Rightarrow>
             (case Flatten (ne_client env) (ne_exec env) (ne_clock env) FlattenConfirmationPhrase (''emergency-kill: '' @ reason) e of
                (e1, coids, err) \<Rightarrow> (stopNode (l\<lparr>lv_trade := Some (e1, rec)\<rparr>, d), length coids, None))))"

definition reconcileAlerter :: "'v NodeEnv \<Rightarrow> ReconciliationReport \<Rightarrow> 'v NodeState \<Rightarrow> 'v NodeState" where
  "reconcileAlerter env r = (\<lambda>(l, d).
     recordHalt env HaltReconciliation (''reconciliation mismatch: '' @ ne_summary env r)
       (l\<lparr>lv_halt := Halt (ne_clock env) HaltReconciliation ''reconciliation mismatch detected (no auto-correct)'' (lv_halt l)\<rparr>, d))"

text \<open>One reconciliation with the node's alerter.\<close>

definition reconcileWith :: "'v NodeEnv \<Rightarrow> 'v MoomooExecutor \<times> Reconciler \<Rightarrow> 'v NodeState \<Rightarrow>
    ('v MoomooExecutor \<times> Reconciler) \<times> 'v NodeState \<times> bool \<times> cmd_error option" where
  "reconcileWith env = (\<lambda>(e, rec) st.
     (case Reconciler_Reconcile (ne_client env) (ne_report env) (ne_clock env) (BookPositions (xs_book e)) (xs_venue e, rec) of
        ((v1, rec1), report, res) \<Rightarrow>
          (let tr = (e\<lparr>xs_venue := v1\<rparr>, rec1) in
           case res of
             Inl err \<Rightarrow> (tr, st, False, Some (CmdGo err))
           | Inr _ \<Rightarrow>
               (case report of
                  None \<Rightarrow> (tr, st, False, None)
                | Some r \<Rightarrow> (tr, if HasIssues r \<and> rc_hasAlerter rec then reconcileAlerter env r st else st, HasIssues r, None)))))"

definition Live_Reconcile :: "'v NodeEnv \<Rightarrow> 'v NodeState \<Rightarrow> 'v NodeState \<times> bool \<times> cmd_error option" where
  "Live_Reconcile env = (\<lambda>(l, d).
     (case lv_trade l of
        None \<Rightarrow> ((l, d), False, Some (CmdMsg ''no active paper/live trading session''))
      | Some tr \<Rightarrow>
          (case reconcileWith env tr (l, d) of (tr1, (l1, d1), issues, err) \<Rightarrow> ((l1\<lparr>lv_trade := Some tr1\<rparr>, d1), issues, err))))"

definition Live_Halt :: "'v NodeEnv \<Rightarrow> HaltKind \<Rightarrow> string \<Rightarrow> 'v NodeState \<Rightarrow> 'v NodeState \<times> cmd_error option" where
  "Live_Halt env kind reason st = (haltNode env kind reason st, None)"

definition Live_Resume :: "'v NodeEnv \<Rightarrow> 'v NodeState \<Rightarrow> 'v NodeState \<times> cmd_error option" where
  "Live_Resume env = (\<lambda>(l, d). (clearHalt env ''command'' (l\<lparr>lv_halt := Resume (lv_halt l)\<rparr>, d), None))"

definition Live_Stop :: "string \<Rightarrow> 'v NodeState \<Rightarrow> 'v NodeState \<times> cmd_error option" where
  "Live_Stop reason st = (stopNode st, None)"

definition Live_Kill :: "'v NodeEnv \<Rightarrow> string \<Rightarrow> 'v NodeState \<Rightarrow> 'v NodeState \<times> cmd_error option" where
  "Live_Kill env reason st = (stopNode (haltNode env HaltManual reason st), None)"

text \<open>The node as the consumer's controller; call \<open>k\<close> of its operations meets \<open>envs k\<close>.\<close>

definition nextCall :: "(nat \<Rightarrow> 'v NodeEnv) \<Rightarrow> ('v NodeEnv \<Rightarrow> 'v NodeState \<Rightarrow> 'v NodeState \<times> 'r) \<Rightarrow> nat \<times> 'v NodeState \<Rightarrow> (nat \<times> 'v NodeState) \<times> 'r" where
  "nextCall envs f = (\<lambda>(k, st). case f (envs k) st of (st1, r) \<Rightarrow> ((k + 1, st1), r))"

definition liveController :: "(nat \<Rightarrow> 'v NodeEnv) \<Rightarrow> (nat \<times> 'v NodeState) Controller" where
  "liveController envs = \<lparr>ct_SetMode = (\<lambda>m. nextCall envs (\<lambda>_. Live_SetMode m)), ct_Halt = (\<lambda>k r. nextCall envs (\<lambda>env. Live_Halt env k r)),
     ct_Resume = nextCall envs Live_Resume, ct_Stop = (\<lambda>r. nextCall envs (\<lambda>_. Live_Stop r)), ct_Kill = (\<lambda>r. nextCall envs (\<lambda>env. Live_Kill env r)),
     ct_Flatten = (\<lambda>r. nextCall envs (\<lambda>env. Live_Flatten env r)), ct_EmergencyKill = (\<lambda>r. nextCall envs (\<lambda>env. Live_EmergencyKill env r)),
     ct_Reconcile = nextCall envs Live_Reconcile\<rparr>"

section \<open>One session\<close>

definition takeRestartMode :: "'v Live \<Rightarrow> 'v Live \<times> string" where
  "takeRestartMode l =
     (let l1 = (if lv_restartMode l \<noteq> [] then l\<lparr>lv_mode := lv_restartMode l, lv_restartMode := []\<rparr> else l) in (l1, lv_mode l1))"

definition setRunningMode :: "string \<Rightarrow> 'v Live \<Rightarrow> 'v Live" where
  "setRunningMode mode l = l\<lparr>lv_mode := mode\<rparr>"

definition setTradeSession :: "('v MoomooExecutor \<times> Reconciler) option \<Rightarrow> 'v Live \<Rightarrow> 'v Live" where
  "setTradeSession ts l = l\<lparr>lv_trade := ts\<rparr>"

text \<open>What happens while a session runs: operations of the node (by the consumer, the gate or the periodic reconciliation), the
  watcher goroutine getting its turn, the parent context ending, the stream returning.\<close>

datatype 'v RunEvent = EvNode "'v NodeState \<Rightarrow> 'v NodeState" | EvWatch | EvCtxDone | EvStreamReturns "cmd_error option"

record RunPhase =
  rp_ctx :: bool
  rp_watched :: bool
  rp_stream :: "cmd_error option option"

definition ErrCanceled :: cmd_error where "ErrCanceled = CmdMsg ''context canceled''"

fun runEvent :: "'v RunEvent \<Rightarrow> RunPhase \<times> 'v NodeState \<Rightarrow> RunPhase \<times> 'v NodeState" where
  "runEvent (EvNode f) (p, st) = (p, f st)"
| "runEvent EvWatch (p, l, d) =
     (if rp_watched p then (p, l, d)
      else if rp_ctx p then (p\<lparr>rp_watched := True\<rparr>, l, d)
      else if lv_restartCh l then (p\<lparr>rp_watched := True\<rparr>, l\<lparr>lv_restartCh := False\<rparr>, d)
      else (p, l, d))"
| "runEvent EvCtxDone (p, st) = (p\<lparr>rp_ctx := True\<rparr>, st)"
| "runEvent (EvStreamReturns r) (p, st) = (p\<lparr>rp_stream := (case rp_stream p of None \<Rightarrow> Some r | Some r0 \<Rightarrow> Some r0)\<rparr>, st)"

definition startPhase :: RunPhase where
  "startPhase = \<lparr>rp_ctx = False, rp_watched = False, rp_stream = None\<rparr>"

text \<open>\<open>runSession\<close> returns once the stream has returned and the watcher has ended (\<open>watchWG.Wait\<close>); until then it is blocked.\<close>

definition sessionResult :: "RunPhase \<Rightarrow> (cmd_error option) option" where
  "sessionResult p =
     (case rp_stream p of
        None \<Rightarrow> None
      | Some r \<Rightarrow> if \<not> rp_watched p then None else if r = Some ErrCanceled \<and> \<not> rp_ctx p then Some None else Some r)"

record 'v SessionScript =
  sp_ctxErr :: bool
  sp_env :: "'v NodeEnv"
  sp_assembly :: "cmd_error option"
  sp_trade :: "cmd_error + ('v MoomooExecutor \<times> Reconciler)"
  sp_restored :: bool
  sp_prime :: "cmd_error option"
  sp_events :: "'v RunEvent list"
  sp_ctxErrAfter :: bool

definition buildRunnable :: "'v SessionScript \<Rightarrow> string \<Rightarrow> 'v NodeState \<Rightarrow> 'v NodeState \<times> cmd_error option" where
  "buildRunnable sc mode = (\<lambda>(l, d).
     (let env = sp_env sc; acct = resolveAccount l in
      if execPolicyForMode mode = ExecSignal then
        (case syncSessionAccount (ne_db env 0) (ne_db env 1) (lv_sessionID l) acct d of (d1, err) \<Rightarrow> ((l, d1), err))
      else
        (case upsertAccount (ne_db env 0) acct d of
           (d1, Some err) \<Rightarrow> ((l, d1), Some err)
         | (d1, None) \<Rightarrow>
             (case syncSessionAccount (ne_db env 1) (ne_db env 2) (lv_sessionID l) acct d1 of
                (d2, Some err) \<Rightarrow> ((l, d2), Some err)
              | (d2, None) \<Rightarrow>
                  (case sp_trade sc of
                     Inl err \<Rightarrow> ((l, d2), Some err)
                   | Inr tr \<Rightarrow>
                       (if sp_restored sc then
                          (case reconcileWith env tr (l, d2) of (tr1, (l1, d3), _, _) \<Rightarrow> ((setTradeSession (Some tr1) l1, d3), None))
                        else ((setTradeSession (Some tr) l, d2), None)))))))"

definition runSession :: "'v SessionScript \<Rightarrow> string \<Rightarrow> 'v NodeState \<Rightarrow> 'v NodeState \<times> (cmd_error option) option" where
  "runSession sc mode st =
     (case sp_assembly sc of
        Some err \<Rightarrow> (st, Some (Some err))
      | None \<Rightarrow>
          (case buildRunnable sc mode st of
             (st1, Some err) \<Rightarrow> (st1, Some (Some err))
           | ((l1, d1), None) \<Rightarrow>
               (case sp_prime sc of
                  Some err \<Rightarrow> ((setTradeSession None l1, d1), Some (Some err))
                | None \<Rightarrow>
                    (case fold runEvent (sp_events sc) (startPhase, markSessionRunning (setRunningMode mode l1), d1) of
                       (p, l2, d2) \<Rightarrow>
                         (case sessionResult p of
                            None \<Rightarrow> ((l2, d2), None)
                          | Some r \<Rightarrow> ((setTradeSession None l2, d2), Some r))))))"

section \<open>The supervisor\<close>

datatype SupervisorEnd = Exited | Blocked | Looping

fun supervise :: "'v SessionScript list \<Rightarrow> 'v NodeState \<Rightarrow> 'v NodeState \<times> SupervisorEnd" where
  "supervise [] st = (st, Looping)"
| "supervise (sc # scs) (l, d) =
     (if sp_ctxErr sc \<or> ht_stopped (lv_halt l) then ((l, d), Exited)
      else case takeRestartMode l of (l1, mode) \<Rightarrow>
        (case runSession sc mode (l1, d) of
           (st2, None) \<Rightarrow> (st2, Blocked)
         | ((l2, d2), Some r) \<Rightarrow>
             supervise scs
               (case r of
                  Some err \<Rightarrow> if \<not> sp_ctxErrAfter sc \<and> \<not> ht_stopped (lv_halt l2) then (markSessionFailed err l2, d2) else (l2, d2)
                | None \<Rightarrow> (l2, d2))))"

text \<open>The start of \<open>Run\<close>: the session row, the id kept on the node, the halt of that session restored.\<close>

definition startNode :: "'v NodeEnv \<Rightarrow> 'v NodeState \<Rightarrow> 'v NodeState \<times> cmd_error option" where
  "startNode env = (\<lambda>(l, d).
     (case openSessionRow env (l, d) of
        (d1, Inl err) \<Rightarrow> ((l, d1), Some err)
      | (d1, Inr i) \<Rightarrow> (rehydrateHalt env (l\<lparr>lv_sessionID := i\<rparr>, d1), None)))"

text \<open>The deferred end of \<open>Run\<close>.\<close>

definition shutdownNode :: "'v NodeEnv \<Rightarrow> 'v NodeState \<Rightarrow> 'v NodeState" where
  "shutdownNode env = (\<lambda>(l, d). (l, closeSession env (lv_sessionID l) ''STOPPED'' d))"

section \<open>What the operations leave alone\<close>

text \<open>The configuration, the mode and the flags of the session are changed by the mode switch and the supervisor only.\<close>

definition sameNode :: "'v Live \<Rightarrow> 'v Live \<Rightarrow> bool" where
  "sameNode l l' \<longleftrightarrow> lv_cfg l' = lv_cfg l \<and> lv_mode l' = lv_mode l \<and> lv_restartMode l' = lv_restartMode l \<and> lv_sessionRunning l' = lv_sessionRunning l \<and>
     lv_sessionFailures l' = lv_sessionFailures l \<and> lv_sessionID l' = lv_sessionID l \<and> (ht_stopped (lv_halt l) \<longrightarrow> ht_stopped (lv_halt l')) \<and>
     (lv_restartCh l \<longrightarrow> lv_restartCh l')"

lemma sameNode_refl [simp]: "sameNode l l" and sameNode_trans: "sameNode l l1 \<Longrightarrow> sameNode l1 l2 \<Longrightarrow> sameNode l l2"
  by (auto simp: sameNode_def)

lemma sameNode_trade [simp]: "sameNode l (l1\<lparr>lv_trade := x\<rparr>) = sameNode l l1"
  by (simp add: sameNode_def)

lemma Halt_stopped [simp]: "ht_stopped (Halt now k r h) = ht_stopped h" "ht_stopped (Resume h) = ht_stopped h" "ht_stopped (Stop h)" "ht_halted (Halt now k r h)"
  by (simp_all add: Halt_def Resume_def Stop_def)

lemma recordHalt_node [simp]: "fst (recordHalt env k r st) = fst st"
  by (auto simp: recordHalt_def Let_def split: prod.splits)

lemma clearHalt_node [simp]: "fst (clearHalt env who st) = fst st"
  by (auto simp: clearHalt_def split: prod.splits)

lemma haltNode_node: "fst (haltNode env k r st) = (fst st)\<lparr>lv_halt := Halt (ne_clock env) k r (lv_halt (fst st))\<rparr>"
  by (auto simp: haltNode_def split: prod.splits)

lemma stopNode_node: "fst (stopNode st) = (fst st)\<lparr>lv_halt := Stop (lv_halt (fst st)), lv_restartCh := True\<rparr>"
  by (auto simp: stopNode_def split: prod.splits)

lemma haltNode_same [simp]: "sameNode l (fst (haltNode env k r st)) = sameNode l (fst st)"
  by (simp add: haltNode_node sameNode_def)

lemma stopNode_same: "sameNode l (fst st) \<Longrightarrow> sameNode l (fst (stopNode st))"
  by (simp add: stopNode_node sameNode_def)

lemma Flatten_same: "sameNode (fst st) (fst (fst (Live_Flatten env r st)))"
  by (auto simp: Live_Flatten_def split: prod.splits option.splits)

lemma reconcileWith_node:
  "\<exists>b. fst (fst (snd (reconcileWith env tr st))) = (if b then (fst st)\<lparr>lv_halt := Halt (ne_clock env) HaltReconciliation ''reconciliation mismatch detected (no auto-correct)'' (lv_halt (fst st))\<rparr> else fst st)"
proof -
  have "fst (reconcileAlerter env r st) =
      (fst st)\<lparr>lv_halt := Halt (ne_clock env) HaltReconciliation ''reconciliation mismatch detected (no auto-correct)'' (lv_halt (fst st))\<rparr>" for r
    by (auto simp: reconcileAlerter_def split: prod.splits)
  then show ?thesis by (cases tr) (auto simp: reconcileWith_def Let_def split: prod.splits option.splits sum.splits)
qed

lemma Reconcile_same: "sameNode (fst st) (fst (fst (Live_Reconcile env st)))"
proof (cases "lv_trade (fst st)")
  case (Some tr)
  obtain tr1 l1 d1 x y where r: "reconcileWith env tr st = (tr1, (l1, d1), x, y)" by (metis surj_pair)
  have "sameNode (fst st) l1" using reconcileWith_node [of env tr st] r by (auto simp: sameNode_def split: if_splits)
  then show ?thesis using r Some by (cases st) (simp add: Live_Reconcile_def)
qed (cases st, simp add: Live_Reconcile_def)

lemma EmergencyKill_same:
  "sameNode (fst st) (fst (fst (Live_EmergencyKill env r st))) \<and> ht_stopped (lv_halt (fst (fst (Live_EmergencyKill env r st))))"
proof -
  obtain l d where h: "haltNode env HaltManual (if r = [] then ''emergency kill'' else r) st = (l, d)" by fastforce
  have "sameNode (fst st) l" using haltNode_same [of "fst st" env HaltManual "if r = [] then ''emergency kill'' else r" st] h by simp
  then show ?thesis
    using stopNode_same [of "fst st" "(l, d)"] stopNode_same [of "fst st" "(l\<lparr>lv_trade := x\<rparr>, d)" for x]
    by (auto simp: Live_EmergencyKill_def Let_def h stopNode_node split: option.splits prod.splits)
qed

lemma Kill_same: "sameNode (fst st) (fst (fst (Live_Kill env r st))) \<and> ht_stopped (lv_halt (fst (fst (Live_Kill env r st))))"
  by (simp add: Live_Kill_def stopNode_same) (simp add: stopNode_node)

lemma Stop_same: "sameNode (fst st) (fst (fst (Live_Stop r st))) \<and> ht_stopped (lv_halt (fst (fst (Live_Stop r st))))"
  by (simp add: Live_Stop_def stopNode_same) (simp add: stopNode_node)

lemma Resume_same: "sameNode (fst st) (fst (fst (Live_Resume env st)))"
  by (cases st) (simp add: Live_Resume_def sameNode_def)

lemma Halt_same: "sameNode (fst st) (fst (fst (Live_Halt env k r st)))"
  by (simp add: Live_Halt_def)

lemmas ops_same = Flatten_same Reconcile_same EmergencyKill_same [THEN conjunct1] Kill_same [THEN conjunct1] Stop_same [THEN conjunct1] Resume_same Halt_same

text \<open>A property of the node that these operations cannot change and a mode switch keeps is kept by the controller.\<close>

lemma liveController_keeps:
  assumes "\<And>l l'. good l \<Longrightarrow> sameNode l l' \<Longrightarrow> good l'" "\<And>m st. good (fst st) \<Longrightarrow> good (fst (fst (Live_SetMode m st)))"
  shows "node_controller (liveController envs) (\<lambda>(k, st). good (fst st))"
proof
  fix n :: "nat \<times> 'a NodeState" and m k reason
  assume "case n of (k, st) \<Rightarrow> good (fst st)"
  then have i: "good (fst (snd n))" by (cases n) simp
  have c: "case fst (nextCall envs f n) of (k, st) \<Rightarrow> good (fst st)" if "\<And>env. good (fst (fst (f env (snd n))))" for f :: "'a NodeEnv \<Rightarrow> 'a NodeState \<Rightarrow> 'a NodeState \<times> 'r"
    using that [of "envs (fst n)"] by (cases n) (auto simp: nextCall_def split: prod.splits)
  have o: "good (fst (fst (f (snd n))))" if "sameNode (fst (snd n)) (fst (fst (f (snd n))))" for f :: "'a NodeState \<Rightarrow> 'a NodeState \<times> 'r"
    using assms(1) [OF i that] .
  show "case fst (ct_SetMode (liveController envs) m n) of (k, st) \<Rightarrow> good (fst st)" by (simp add: liveController_def c assms(2) [OF i])
  show "case fst (ct_Halt (liveController envs) k reason n) of (k, st) \<Rightarrow> good (fst st)" by (simp add: liveController_def c o ops_same)
  show "case fst (ct_Resume (liveController envs) n) of (k, st) \<Rightarrow> good (fst st)" by (simp add: liveController_def c o ops_same)
  show "case fst (ct_Stop (liveController envs) reason n) of (k, st) \<Rightarrow> good (fst st)" by (simp add: liveController_def c o ops_same)
  show "case fst (ct_Kill (liveController envs) reason n) of (k, st) \<Rightarrow> good (fst st)" by (simp add: liveController_def c o ops_same)
  show "case fst (ct_Flatten (liveController envs) reason n) of (k, st) \<Rightarrow> good (fst st)" by (simp add: liveController_def c o ops_same)
  show "case fst (ct_EmergencyKill (liveController envs) reason n) of (k, st) \<Rightarrow> good (fst st)" by (simp add: liveController_def c o ops_same)
  show "case fst (ct_Reconcile (liveController envs) n) of (k, st) \<Rightarrow> good (fst st)" by (simp add: liveController_def c o ops_same)
qed

section \<open>A run of the node\<close>

text \<open>What may happen to the node while a session runs: commands drained by its consumer, and operations that change none of the fields above, such
  as the halts of the gate and of the periodic reconciliation.\<close>

definition byCommands :: "('v NodeState \<Rightarrow> 'v NodeState) \<Rightarrow> bool" where
  "byCommands f \<longleftrightarrow> (\<forall>st. \<exists>envs es c k s c' k' s' e. Consumer_drain (liveController envs) es c ((k, st), s) = ((c', (k', f st), s'), e))"

definition nodeEvent :: "'v RunEvent \<Rightarrow> bool" where
  "nodeEvent e = (case e of EvNode f \<Rightarrow> byCommands f \<or> (\<forall>st. sameNode (fst st) (fst (f st))) | _ \<Rightarrow> True)"

lemma nodeEvent_simps [simp]: "nodeEvent EvWatch" "nodeEvent EvCtxDone" "nodeEvent (EvStreamReturns r)"
  by (simp_all add: nodeEvent_def)

lemma nodeEvent_op: "(\<And>st. sameNode (fst st) (fst (f st))) \<Longrightarrow> nodeEvent (EvNode f)"
  unfolding nodeEvent_def by simp

definition coreSame :: "'v Live \<Rightarrow> 'v Live \<Rightarrow> bool" where
  "coreSame l l' \<longleftrightarrow> lv_cfg l' = lv_cfg l \<and> lv_mode l' = lv_mode l \<and> lv_restartMode l' = lv_restartMode l \<and> (ht_stopped (lv_halt l) \<longrightarrow> ht_stopped (lv_halt l'))"

lemma coreSame_simps [simp]: "coreSame l (l1\<lparr>lv_trade := x\<rparr>) = coreSame l l1" "coreSame l (l1\<lparr>lv_restartCh := b\<rparr>) = coreSame l l1"
  "coreSame l (l1\<lparr>lv_sessionID := i\<rparr>) = coreSame l l1" "coreSame l (markSessionRunning l1) = coreSame l l1" "coreSame l (markSessionFailed e l1) = coreSame l l1"
  "coreSame l l" "coreSame l (l1\<lparr>lv_halt := Halt now k r (lv_halt l1)\<rparr>) = coreSame l l1"
  by (simp_all add: coreSame_def markSessionRunning_def markSessionFailed_def)

lemma sameNode_core: "sameNode l l' \<Longrightarrow> coreSame l l'"
  by (simp add: sameNode_def coreSame_def)

text \<open>What the node keeps through commands, sessions and restarts.\<close>

locale node_invariant =
  fixes good :: "'v Live \<Rightarrow> bool"
  assumes core: "good l \<Longrightarrow> coreSame l l' \<Longrightarrow> good l'"
    and switch: "good (fst st) \<Longrightarrow> good (fst (fst (Live_SetMode m st)))"
    and restart: "good l \<Longrightarrow> good (fst (takeRestartMode l))"
begin

lemma commands_keep: "byCommands f \<Longrightarrow> good (fst st) \<Longrightarrow> good (fst (f st))"
proof -
  assume f: "byCommands f" and g: "good (fst st)"
  obtain envs es c k s c' k' s' e where d: "Consumer_drain (liveController envs) es c ((k, st), s) = ((c', (k', f st), s'), e)"
    using f unfolding byCommands_def by blast
  have "node_controller (liveController envs) (\<lambda>(k, st). good (fst st))"
    by (rule liveController_keeps) (blast intro: core sameNode_core switch)+
  from node_controller.drain_keeps [OF this _ d] g show ?thesis by simp
qed

lemma event_keeps: "nodeEvent e \<Longrightarrow> good (fst st) \<Longrightarrow> runEvent e (p, st) = (p', st') \<Longrightarrow> good (fst st')"
proof (cases e)
  case (EvNode f)
  assume "nodeEvent e" "good (fst st)" "runEvent e (p, st) = (p', st')"
  then show ?thesis using EvNode commands_keep [of f st] core [OF _ sameNode_core, of "fst st" "fst st'"] by (cases st) (auto simp: nodeEvent_def)
next
  case EvWatch
  assume "good (fst st)" "runEvent e (p, st) = (p', st')"
  moreover from this have "coreSame (fst st) (fst st')" using EvWatch by (cases st) (auto split: if_splits)
  ultimately show ?thesis using core by blast
qed auto

lemma events_keep: "list_all nodeEvent es \<Longrightarrow> good (fst st) \<Longrightarrow> fold runEvent es (p, st) = (p', st') \<Longrightarrow> good (fst st')"
proof (induction es arbitrary: p st)
  case (Cons e es)
  obtain p1 st1 where e: "runEvent e (p, st) = (p1, st1)" by (metis surj_pair)
  show ?case using Cons(1) [of st1 p1] event_keeps [OF _ Cons(3) e] Cons(2,4) e by simp
qed simp

lemma build_core: "buildRunnable sc mode st = (st1, e) \<Longrightarrow> coreSame (fst st) (fst st1)"
proof -
  assume b: "buildRunnable sc mode st = (st1, e)"
  obtain l d where st: "st = (l, d)" by fastforce
  have r: "coreSame l (fst (fst (snd (reconcileWith env tr (l, d')))))" for env tr d'
    using reconcileWith_node [of env tr "(l, d')"] by (auto simp: coreSame_def)
  show ?thesis using b r unfolding st by (auto simp: buildRunnable_def Let_def setTradeSession_def split: if_splits prod.splits option.splits sum.splits) (metis fst_conv snd_conv)+
qed

lemma session_keeps:
  assumes "list_all nodeEvent (sp_events sc)" "good (fst st)" "lv_mode (fst st) = mode" "runSession sc mode st = (st', r)"
  shows "good (fst st')"
proof -
  obtain l1 d1 e where b: "buildRunnable sc mode st = ((l1, d1), e)" by (metis surj_pair)
  have c: "coreSame (fst st) l1" using build_core [OF b] by simp
  then have m: "setRunningMode mode l1 = l1" "good l1" using assms(2,3) core [OF assms(2) c] by (simp_all add: setRunningMode_def coreSame_def)
  obtain p l2 d2 where f: "fold runEvent (sp_events sc) (startPhase, markSessionRunning l1, d1) = (p, l2, d2)" by (metis surj_pair)
  have "good (markSessionRunning l1)" by (rule core [OF m(2)]) simp
  then have g: "good l2" using events_keep [OF assms(1) _ f] by simp
  have "coreSame l (setTradeSession x l)" for l and x :: "('v MoomooExecutor \<times> Reconciler) option" by (simp add: setTradeSession_def)
  then show ?thesis
    using assms(2,4) b m g f core by (auto simp: runSession_def split: option.splits)
qed

lemma supervise_keeps:
  "list_all (\<lambda>sc. list_all nodeEvent (sp_events sc)) scs \<Longrightarrow> good (fst st) \<Longrightarrow> supervise scs st = (st', fin) \<Longrightarrow> good (fst st')"
proof (induction scs arbitrary: st)
  case (Cons sc scs)
  obtain l d where st: "st = (l, d)" by fastforce
  obtain l1 mode where t: "takeRestartMode l = (l1, mode)" by fastforce
  have m: "good l1" "lv_mode l1 = mode" using restart [of l] Cons(3) t st by (auto simp: takeRestartMode_def Let_def)
  obtain l2 d2 r where s: "runSession sc mode (l1, d) = ((l2, d2), r)" by (metis surj_pair)
  have g: "good l2" using session_keeps [OF _ _ _ s] Cons(2) m by simp
  have "good (markSessionFailed err l2)" for err by (rule core [OF g]) simp
  then show ?case using Cons(1) [of "(l2, d2)"] Cons(1) [of "(markSessionFailed err l2, d2)" for err] Cons(2-4) g s t st
    by (auto split: if_splits option.splits)
qed simp

end

section \<open>Modes\<close>

definition armed :: "LiveConfig \<Rightarrow> bool" where
  "armed cfg \<longleftrightarrow> acct_BrokerAccID (lc_BoundAccount cfg) \<noteq> 0 \<and> lc_Phrase cfg = LiveConfirmationPhrase \<and> lc_TraderID cfg = LiveTraderID"

definition modeOk :: "LiveConfig \<Rightarrow> 'v Live \<Rightarrow> bool" where
  "modeOk cfg l \<longleftrightarrow> lc_BoundAccount (lv_cfg l) = lc_BoundAccount cfg \<and> lc_Phrase (lv_cfg l) = lc_Phrase cfg \<and> lc_TraderID (lv_cfg l) = lc_TraderID cfg \<and>
     (modeLive \<in> {lv_mode l, lv_restartMode l} \<longrightarrow> armed cfg) \<and> (modePaper \<in> {lv_mode l, lv_restartMode l} \<longrightarrow> acct_BrokerAccID (lc_BoundAccount cfg) \<noteq> 0)"

lemma NewLive_mode:
  assumes "NewLive cfg = Inr l"
  shows "lv_restartMode l = []" "lv_mode l = modeLive \<Longrightarrow> armed cfg" "lv_mode l = modePaper \<Longrightarrow> acct_BrokerAccID (lc_BoundAccount cfg) \<noteq> 0"
    "lc_BoundAccount (lv_cfg l) = lc_BoundAccount cfg" "lc_Phrase (lv_cfg l) = lc_Phrase cfg" "lc_TraderID (lv_cfg l) = lc_TraderID cfg"
    "lc_TraderID cfg \<noteq> []" "lv_halt l = NewHaltState" "\<not> lv_restartCh l"
  using assms by (auto simp: NewLive_def armed_def Let_def split: if_splits)

lemma NewLive_ok: "NewLive cfg = Inr l \<Longrightarrow> modeOk cfg l"
  using NewLive_mode [of cfg l] by (auto simp: modeOk_def)

interpretation node_modes: node_invariant "modeOk cfg" for cfg
proof
  fix l l' :: "'v Live" assume "modeOk cfg l" "coreSame l l'"
  then show "modeOk cfg l'" by (simp add: modeOk_def coreSame_def)
next
  fix st :: "'v NodeState" and m assume "modeOk cfg (fst st)"
  then show "modeOk cfg (fst (fst (Live_SetMode m st)))" by (cases st) (auto simp: modeOk_def Live_SetMode_def Let_def armed_def)
next
  fix l :: "'v Live" assume "modeOk cfg l"
  then show "modeOk cfg (fst (takeRestartMode l))" by (auto simp: modeOk_def takeRestartMode_def Let_def)
qed

interpretation command_modes: node_controller "liveController envs" "\<lambda>(k, st). modeOk cfg (fst st)" for envs cfg
  by (rule liveController_keeps) (blast intro: node_modes.core sameNode_core node_modes.switch)+

interpretation node_stopped: node_invariant "\<lambda>l. ht_stopped (lv_halt l)"
proof
  fix st :: "'v NodeState" and m assume "ht_stopped (lv_halt (fst st))"
  then show "ht_stopped (lv_halt (fst (fst (Live_SetMode m st))))" by (cases st) (auto simp: Live_SetMode_def Let_def)
qed (auto simp: coreSame_def takeRestartMode_def Let_def)

lemma start_core: "startNode env st = (st1, e) \<Longrightarrow> coreSame (fst st) (fst st1)"
  by (cases st) (auto simp: startNode_def rehydrateHalt_def coreSame_def split: sum.splits prod.splits if_splits list.splits)

section \<open>Stopping\<close>

text \<open>The watcher has ended, or a token waits for it.\<close>

definition woken :: "RunPhase \<times> 'v NodeState \<Rightarrow> bool" where
  "woken = (\<lambda>(p, st). ht_stopped (lv_halt (fst st)) \<and> (rp_watched p \<or> lv_restartCh (fst st)))"

interpretation command_tokens: node_controller "liveController envs" "\<lambda>(k, st). lv_restartCh (fst st)" for envs
proof (rule liveController_keeps)
  fix m and st :: "'v NodeState" assume "lv_restartCh (fst st)"
  then show "lv_restartCh (fst (fst (Live_SetMode m st)))" by (cases st) (auto simp: Live_SetMode_def Let_def)
qed (simp add: sameNode_def)

lemma event_woken:
  assumes "nodeEvent e" "woken (p, st)"
  shows "woken (runEvent e (p, st)) \<and> (e = EvWatch \<or> rp_watched p \<longrightarrow> rp_watched (fst (runEvent e (p, st))))"
proof (cases e)
  case (EvNode f)
  have "lv_restartCh (fst st) \<longrightarrow> lv_restartCh (fst (f st))"
  proof (cases "byCommands f")
    case True
    then obtain envs es c k s c' k' s' x where "Consumer_drain (liveController envs) es c ((k, st), s) = ((c', (k', f st), s'), x)"
      unfolding byCommands_def by blast
    from command_tokens.drain_keeps [OF _ this] show ?thesis by simp
  next
    case False
    then have "sameNode (fst st) (fst (f st))" using assms(1) by (cases st) (auto simp: EvNode nodeEvent_def)
    then show ?thesis by (simp add: sameNode_def)
  qed
  moreover have "ht_stopped (lv_halt (fst (f st)))"
    using node_stopped.event_keeps [OF assms(1), of st p p "f st"] assms(2) by (simp add: EvNode woken_def)
  ultimately show ?thesis using assms(2) by (auto simp: EvNode woken_def)
next
  case EvWatch
  then show ?thesis using assms(2) by (cases st) (auto simp: woken_def)
qed (use assms(2) in \<open>auto simp: woken_def\<close>)

lemma events_woken:
  "list_all nodeEvent es \<Longrightarrow> woken (p, st) \<Longrightarrow> fold runEvent es (p, st) = (p', st') \<Longrightarrow>
   woken (p', st') \<and> (EvWatch \<in> set es \<or> rp_watched p \<longrightarrow> rp_watched p')"
proof (induction es arbitrary: p st)
  case (Cons e es)
  obtain p1 st1 where e: "runEvent e (p, st) = (p1, st1)" by (metis surj_pair)
  show ?case using Cons(1) [of p1 st1] event_woken [OF _ Cons(3), of e] Cons(2,4) e by auto
qed simp

definition killed :: "('v NodeState \<Rightarrow> 'v NodeState) \<Rightarrow> bool" where
  "killed f \<longleftrightarrow> (\<exists>env reason. f = (\<lambda>st. fst (Live_Stop reason st)) \<or> f = (\<lambda>st. fst (Live_Kill env reason st)) \<or> f = (\<lambda>st. fst (Live_EmergencyKill env reason st)))"

lemma killed_woken: "killed f \<Longrightarrow> woken (p, f st)"
  by (auto simp: killed_def woken_def Live_Stop_def Live_Kill_def Live_EmergencyKill_def Let_def stopNode_node split: prod.splits option.splits)

section \<open>Restarts\<close>

lemma upsert_keeps: "nd_sessions (fst (upsertAccount db a d)) = nd_sessions d" "nd_halts (fst (upsertAccount db a d)) = nd_halts d"
  "nd_nextSession (fst (upsertAccount db a d)) = nd_nextSession d"
  by (auto simp: upsertAccount_def split: sum.splits)

lemma ensure_ok:
  assumes "acct_ID acct = [] \<or> snd (upsertAccount True acct d) = None"
  obtains d1 x where "ensureAccount True acct d = (d1, Inr x)" "nd_sessions d1 = nd_sessions d" "nd_halts d1 = nd_halts d" "nd_nextSession d1 = nd_nextSession d"
proof (cases "acct_ID acct = []")
  case False
  obtain d1 e where u: "upsertAccount True acct d = (d1, e)" by fastforce
  then have "nd_sessions d1 = nd_sessions d" "nd_halts d1 = nd_halts d" "nd_nextSession d1 = nd_nextSession d" "e = None"
    using upsert_keeps [of True acct d] assms False by auto
  then show ?thesis using that u False by (simp add: ensureAccount_def)
qed (use that in \<open>simp add: ensureAccount_def\<close>)

abbreviation running :: "string \<Rightarrow> SessionRow \<Rightarrow> bool" where
  "running trader x \<equiv> se_TraderID x = trader \<and> se_Running x"

lemma haltNode_rows:
  assumes "haltNode env kind reason (l, d) = (l1, d1)" "ne_db env 0" "kind \<in> set haltKinds" "lv_sessionID l \<noteq> 0"
  shows "nd_sessions d1 = nd_sessions d" "nd_nextSession d1 = nd_nextSession d" "list_ex (activeHalt (Some (lv_sessionID l))) (nd_halts d1)"
    "list_all (Not \<circ> activeHalt (Some (lv_sessionID l))) (nd_halts d) \<Longrightarrow>
      \<exists>h. filter (activeHalt (Some (lv_sessionID l))) (nd_halts d1) = [h] \<and> hr_Kind h = kind \<and> hr_Reason h = (if reason = [] then kind else reason)"
    "set (nd_halts d1) \<subseteq> set (nd_halts d) \<union> {h. hr_SessionID h = Some (lv_sessionID l)}" "lv_sessionID l1 = lv_sessionID l"
  using assms
  by (auto simp: haltNode_def recordHalt_def Let_def sessionIDValue_def activeHalt_def list_ex_iff list_all_iff filter_empty_conv split: if_splits)

lemma restart_reuses:
  assumes "NewLive cfg = Inr l" "ne_db env = (\<lambda>_. True)" "acct_ID (lc_BoundAccount cfg) = [] \<or> snd (upsertAccount True (lc_BoundAccount cfg) d) = None"
    and "filter (running (lc_TraderID cfg)) (nd_sessions d) = [x]"
  obtains d1 where "openSessionRow env (l, d) = (d1, Inr (se_ID x))" "nd_halts d1 = nd_halts d"
proof -
  note m = NewLive_mode [OF assms(1)]
  obtain d1 y where "ensureAccount True (lc_BoundAccount cfg) d = (d1, Inr y)" "nd_sessions d1 = nd_sessions d" "nd_halts d1 = nd_halts d"
    by (rule ensure_ok [OF assms(3)])
  then show ?thesis using that assms(2,4) m by (simp add: openSessionRow_def resolveAccount_def Let_def)
qed

lemma restart_opens:
  assumes "NewLive cfg = Inr l" "ne_db env = (\<lambda>_. True)" "acct_ID (lc_BoundAccount cfg) = [] \<or> snd (upsertAccount True (lc_BoundAccount cfg) d) = None"
    and "filter (running (lc_TraderID cfg)) (nd_sessions d) = []"
  obtains d1 where "openSessionRow env (l, d) = (d1, Inr (nd_nextSession d))" "nd_halts d1 = nd_halts d"
proof -
  note m = NewLive_mode [OF assms(1)]
  obtain d1 y where "ensureAccount True (lc_BoundAccount cfg) d = (d1, Inr y)" "nd_sessions d1 = nd_sessions d" "nd_halts d1 = nd_halts d" "nd_nextSession d1 = nd_nextSession d"
    by (rule ensure_ok [OF assms(3)])
  then show ?thesis using that assms(2,4) m by (simp add: openSessionRow_def resolveAccount_def Let_def)
qed

lemma rehydrate_active:
  assumes "ne_db env 0" "lv_sessionID l \<noteq> 0" "list_ex (activeHalt (Some (lv_sessionID l))) (nd_halts d)" "lv_halt l = NewHaltState"
  shows "\<exists>h \<in> set (nd_halts d). activeHalt (Some (lv_sessionID l)) h \<and>
    rehydrateHalt env (l, d) = (l\<lparr>lv_halt := Halt (ne_clock env) (hr_Kind h) (hr_Reason h) NewHaltState\<rparr>, d)"
proof -
  let ?xs = "sort_key (\<lambda>h. - hr_TriggeredAt h) (filter (activeHalt (Some (lv_sessionID l))) (nd_halts d))"
  have "set ?xs = {h \<in> set (nd_halts d). activeHalt (Some (lv_sessionID l)) h}" by auto
  moreover obtain h hs where x: "?xs = h # hs" using assms(3) calculation by (cases ?xs) (auto simp: list_ex_iff)
  ultimately show ?thesis using assms(1,2,4) by (intro bexI [of _ h]) (auto simp: rehydrateHalt_def sessionIDValue_def)
qed

section \<open>A session that ends by itself\<close>

definition quietEvent :: "'v RunEvent \<Rightarrow> bool" where
  "quietEvent e = (case e of EvNode f \<Rightarrow> (\<forall>st. sameNode (fst st) (fst (f st)) \<and> lv_restartCh (fst (f st)) = lv_restartCh (fst st)) | EvCtxDone \<Rightarrow> False | _ \<Rightarrow> True)"

lemma quiet_blocks:
  "list_all quietEvent es \<Longrightarrow> \<not> rp_watched p \<Longrightarrow> \<not> rp_ctx p \<Longrightarrow> \<not> lv_restartCh (fst st) \<Longrightarrow> fold runEvent es (p, st) = (p', st') \<Longrightarrow>
   sessionResult p' = None \<and> lv_sessionRunning (fst st') = lv_sessionRunning (fst st) \<and> lv_sessionFailures (fst st') = lv_sessionFailures (fst st)"
proof (induction es arbitrary: p st)
  case Nil
  then show ?case by (auto simp: sessionResult_def split: option.splits)
next
  case (Cons e es)
  obtain p1 st1 where e: "runEvent e (p, st) = (p1, st1)" by (metis surj_pair)
  have "\<not> rp_watched p1 \<and> \<not> rp_ctx p1 \<and> \<not> lv_restartCh (fst st1) \<and> lv_sessionRunning (fst st1) = lv_sessionRunning (fst st) \<and>
      lv_sessionFailures (fst st1) = lv_sessionFailures (fst st)"
    using Cons(2-5) e by (cases e; cases st) (auto simp: quietEvent_def sameNode_def split: if_splits)
  then show ?case using Cons(1) [of p1 st1] Cons(2,6) e by auto
qed

lemma build_token: "buildRunnable sc mode st = (st1, e) \<Longrightarrow> lv_restartCh (fst st1) = lv_restartCh (fst st)"
proof -
  assume b: "buildRunnable sc mode st = (st1, e)"
  obtain l d where st: "st = (l, d)" by fastforce
  have r: "lv_restartCh (fst (fst (snd (reconcileWith env tr (l, d'))))) = lv_restartCh l" for env tr d'
    using reconcileWith_node [of env tr "(l, d')"] by (auto split: if_splits)
  show ?thesis using b r unfolding st by (auto simp: buildRunnable_def Let_def setTradeSession_def split: if_splits prod.splits option.splits sum.splits) (metis fst_conv snd_conv)+
qed

section \<open>A small node\<close>

definition noAccount :: BrokerAccount where
  "noAccount = \<lparr>acct_ID = [], acct_Venue = [], acct_Env = [], acct_BrokerAccID = 0, acct_Label = [], acct_IsDefault = False, acct_Notes = []\<rparr>"

definition signalCfg :: LiveConfig where
  "signalCfg = \<lparr>lc_TraderID = ''SIGNAL-001'', lc_Mode = [], lc_BarSeconds = 0, lc_DrainTimeout = 0, lc_BoundAccount = noAccount, lc_Phrase = []\<rparr>"

definition realCfg :: LiveConfig where
  "realCfg = signalCfg\<lparr>lc_TraderID := LiveTraderID, lc_Mode := modeLive, lc_BoundAccount := NewBrokerAccount ''m'' EnvReal 9 [], lc_Phrase := LiveConfirmationPhrase\<rparr>"

definition demoNode :: "LiveConfig \<Rightarrow> MockVenue Live" where
  "demoNode cfg = projr (NewLive cfg)"

definition demoDb :: NodeDb where
  "demoDb = \<lparr>nd_accounts = [], nd_sessions = [], nd_nextSession = 1, nd_halts = []\<rparr>"

definition demoNodeEnv :: "MockVenue NodeEnv" where
  "demoNodeEnv = \<lparr>ne_db = (\<lambda>_. True), ne_dbNow = 5, ne_clock = noon, ne_client = mockClient, ne_exec = paperConfig, ne_report = None, ne_summary = (\<lambda>_. [])\<rparr>"

definition demoScript :: "MockVenue RunEvent list \<Rightarrow> MockVenue SessionScript" where
  "demoScript es = \<lparr>sp_ctxErr = False, sp_env = demoNodeEnv, sp_assembly = None, sp_trade = Inl CmdDatabase, sp_restored = False, sp_prime = None,
     sp_events = es, sp_ctxErrAfter = False\<rparr>"

lemma demo_nodes: "NewLive signalCfg = Inr (demoNode signalCfg)" "NewLive realCfg = Inr (demoNode realCfg)" "lv_mode (demoNode realCfg) = modeLive"
    "lv_mode (demoNode signalCfg) = modeSignal"
  by (simp_all add: NewLive_def demoNode_def signalCfg_def realCfg_def Let_def NewBrokerAccount_def LiveTraderID_def)

definition demoStarted :: "MockVenue NodeState" where
  "demoStarted = fst (startNode demoNodeEnv (demoNode signalCfg, demoDb))"

lemma demo_started:
  "startNode demoNodeEnv (demoNode signalCfg, demoDb) = (demoStarted, None)" "lv_sessionID (fst demoStarted) = 1" "\<not> lv_restartCh (fst demoStarted)"
  "Emitting (lv_halt (fst demoStarted))" "lv_mode (fst demoStarted) = modeSignal" "lv_restartMode (fst demoStarted) = []" "lc_BoundAccount (lv_cfg (fst demoStarted)) = noAccount"
  "\<not> ht_stopped (lv_halt (fst demoStarted))"
  "lc_TraderID (lv_cfg (fst demoStarted)) = lc_TraderID signalCfg"
  "\<exists>x. nd_sessions (snd demoStarted) = [x] \<and> running (lc_TraderID signalCfg) x \<and> se_ID x = 1 \<and> se_StartedAt x = 5"
  "nd_halts (snd demoStarted) = []" "nd_nextSession (snd demoStarted) = 2"
  by (simp_all add: demoStarted_def startNode_def openSessionRow_def ensureAccount_def resolveAccount_def demoDb_def demoNodeEnv_def demoNode_def NewLive_def
      signalCfg_def noAccount_def Let_def rehydrateHalt_def sessionIDValue_def Emitting_def NewHaltState_def)

section \<open>What the node guarantees\<close>

text \<open>C23. Invariant. Whatever commands are drained and however its sessions end, a node is in live mode, or about to switch to it, only when it was
  configured with a bound account, the confirmation phrase and the trader id of real money; and in paper mode only with a bound account.\<close>

theorem live_mode_needs_activation:
  assumes "NewLive cfg = Inr l" "startNode env (l, d) = (st1, e)" "list_all (\<lambda>sc. list_all nodeEvent (sp_events sc)) scs" "supervise scs st1 = ((l', d'), fin)"
  shows "(modeLive \<in> {lv_mode l', lv_restartMode l'} \<longrightarrow>
      acct_BrokerAccID (lc_BoundAccount cfg) \<noteq> 0 \<and> lc_Phrase cfg = LiveConfirmationPhrase \<and> lc_TraderID cfg = LiveTraderID) \<and>
    (modePaper \<in> {lv_mode l', lv_restartMode l'} \<longrightarrow> acct_BrokerAccID (lc_BoundAccount cfg) \<noteq> 0)"
proof -
  have "modeOk cfg (fst st1)" using node_modes.core [OF NewLive_ok [OF assms(1)]] start_core [OF assms(2)] by simp
  from node_modes.supervise_keeps [OF assms(3) this assms(4)] show ?thesis by (simp add: modeOk_def armed_def)
qed

theorem live_mode_needs_activation_witness:
  "\<exists>st1 l' d'. startNode demoNodeEnv (demoNode realCfg, demoDb) = (st1, None) \<and>
    supervise [(demoScript [EvNode (\<lambda>st. fst (Live_Halt demoNodeEnv HaltManual ''x'' st)), EvWatch])\<lparr>sp_assembly := Some CmdDatabase\<rparr>] st1 = ((l', d'), Looping) \<and>
    lv_mode l' = modeLive \<and> acct_BrokerAccID (lc_BoundAccount realCfg) \<noteq> 0"
proof -
  let ?sc = "(demoScript [EvNode (\<lambda>st. fst (Live_Halt demoNodeEnv HaltManual ''x'' st)), EvWatch])\<lparr>sp_assembly := Some CmdDatabase\<rparr>"
  have u: "snd (upsertAccount True (lc_BoundAccount realCfg) demoDb) = None" by code_simp
  have "filter (running (lc_TraderID realCfg)) (nd_sessions demoDb) = []" by (simp add: demoDb_def)
  from restart_opens [OF demo_nodes(2) _ disjI2 [OF u] this, of demoNodeEnv]
  obtain d1 where o: "openSessionRow demoNodeEnv (demoNode realCfg, demoDb) = (d1, Inr (nd_nextSession demoDb))" "nd_halts d1 = nd_halts demoDb" by (auto simp: demoNodeEnv_def)
  let ?st1 = "((demoNode realCfg)\<lparr>lv_sessionID := 1\<rparr>, d1)"
  have s: "startNode demoNodeEnv (demoNode realCfg, demoDb) = (?st1, None)" using o by (simp add: startNode_def rehydrateHalt_def demoDb_def)
  have n: "\<not> ht_stopped (lv_halt (demoNode realCfg))" "lv_restartMode (demoNode realCfg) = []"
    using NewLive_mode(8,1) [OF demo_nodes(2)] by (simp_all add: NewHaltState_def)
  obtain l' where r: "supervise [?sc] ?st1 = ((l', d1), Looping)" "lv_mode l' = modeLive"
    using n demo_nodes(3) by (auto simp: demoScript_def takeRestartMode_def runSession_def markSessionFailed_def Let_def)
  have "list_all (\<lambda>sc. list_all nodeEvent (sp_events sc)) [?sc]" by (simp add: demoScript_def nodeEvent_op Halt_same)
  then have "acct_BrokerAccID (lc_BoundAccount realCfg) \<noteq> 0" using r(2) live_mode_needs_activation [OF demo_nodes(2) s _ r(1)] by simp
  then show ?thesis by (intro exI [of _ ?st1] exI [of _ l'] exI [of _ d1]) (simp add: s r del: supervise.simps)
qed

text \<open>C24. Safety. After a stop, kill or emergency kill the node is down for good: whatever commands follow it does not emit, the supervisor starts no further
  session, and the running one ends as soon as its watcher gets its turn and the stream has returned.\<close>

theorem kill_ends_node:
  assumes "killed f" "list_all nodeEvent es" "fold runEvent es (p, f st) = (p', l', d')"
  shows "\<not> Emitting (lv_halt l') \<and> supervise (sc # scs) (l', d') = ((l', d'), Exited) \<and>
    (EvWatch \<in> set es \<and> rp_stream p' \<noteq> None \<longrightarrow> sessionResult p' \<noteq> None)"
  using events_woken [OF assms(2) killed_woken [OF assms(1)] assms(3)]
  by (auto simp: woken_def Emitting_def sessionResult_def split: option.splits)

theorem kill_ends_node_witness:
  "\<exists>p' l' d'. fold runEvent [EvNode (\<lambda>st. fst (Live_Resume demoNodeEnv st)), EvWatch, EvStreamReturns (Some ErrCanceled)]
      (startPhase, fst (Live_EmergencyKill demoNodeEnv ''x'' demoStarted)) = (p', l', d') \<and> \<not> Emitting (lv_halt l') \<and> sessionResult p' \<noteq> None"
proof -
  let ?es = "[EvNode (\<lambda>st. fst (Live_Resume demoNodeEnv st)), EvWatch, EvStreamReturns (Some ErrCanceled)] :: MockVenue RunEvent list"
  let ?f = "\<lambda>st. fst (Live_EmergencyKill demoNodeEnv ''x'' st)"
  obtain p' l' d' where r: "fold runEvent ?es (startPhase, ?f demoStarted) = (p', l', d')" by (metis surj_pair)
  have k: "killed ?f" unfolding killed_def by blast
  have e: "list_all nodeEvent ?es" by (simp add: nodeEvent_op Resume_same)
  obtain p1 st1 where w: "runEvent EvWatch (startPhase, fst (Live_Resume demoNodeEnv (?f demoStarted))) = (p1, st1)" by (metis surj_pair)
  have "rp_stream p1 = None" using w by (cases "fst (Live_Resume demoNodeEnv (?f demoStarted))") (auto simp: startPhase_def split: if_splits)
  then have "rp_stream p' \<noteq> None" using r w by auto
  then show ?thesis using kill_ends_node [OF k e r] r by auto
qed

text \<open>C25. Safety. A halt survives a crash: when the node halted while its session row was open, a new process of the same trader takes that row over and
  starts halted, with the recorded kind and reason when it was the first halt, whatever happened to the memory of the old one.\<close>

theorem crash_restart_keeps_halt:
  assumes "Live_Halt env kind reason (l, d) = ((l1, d1), x)" "ne_db env 0" "kind \<in> set haltKinds" "lv_sessionID l \<noteq> 0"
    and "filter (running (lc_TraderID cfg)) (nd_sessions d) = [row]" "se_ID row = lv_sessionID l"
    and "NewLive cfg = Inr l2" "ne_db env2 = (\<lambda>_. True)" "acct_ID (lc_BoundAccount cfg) = [] \<or> snd (upsertAccount True (lc_BoundAccount cfg) d1) = None"
  shows "\<exists>l3 d3. startNode env2 (l2, d1) = ((l3, d3), None) \<and> lv_sessionID l3 = lv_sessionID l \<and> \<not> Emitting (lv_halt l3) \<and>
    (list_all (Not \<circ> activeHalt (Some (lv_sessionID l))) (nd_halts d) \<longrightarrow>
      ht_kind (lv_halt l3) = kind \<and> ht_reason (lv_halt l3) = (if reason = [] then kind else reason))"
proof -
  have h: "haltNode env kind reason (l, d) = (l1, d1)" using assms(1) by (simp add: Live_Halt_def)
  note r = haltNode_rows [OF h assms(2-4)]
  obtain d2 where o: "openSessionRow env2 (l2, d1) = (d2, Inr (lv_sessionID l))" "nd_halts d2 = nd_halts d1"
    using restart_reuses [OF assms(7,8,9), of row] assms(5,6) r(1) by metis
  let ?l = "l2\<lparr>lv_sessionID := lv_sessionID l\<rparr>"
  obtain h where i: "h \<in> set (nd_halts d1)" "activeHalt (Some (lv_sessionID l)) h"
    "rehydrateHalt env2 (?l, d2) = (?l\<lparr>lv_halt := Halt (ne_clock env2) (hr_Kind h) (hr_Reason h) NewHaltState\<rparr>, d2)"
    using rehydrate_active [of env2 ?l d2] assms(4,8) r(3) o(2) NewLive_mode(8) [OF assms(7)] by auto
  have k: "hr_Kind h = kind \<and> hr_Reason h = (if reason = [] then kind else reason)" if first: "list_all (Not \<circ> activeHalt (Some (lv_sessionID l))) (nd_halts d)"
  proof -
    obtain g where g: "filter (activeHalt (Some (lv_sessionID l))) (nd_halts d1) = [g]" "hr_Kind g = kind \<and> hr_Reason g = (if reason = [] then kind else reason)"
      using r(4) [OF first] by blast
    have "h \<in> set (filter (activeHalt (Some (lv_sessionID l))) (nd_halts d1))" using i(1,2) by simp
    then show ?thesis using g by simp
  qed
  show ?thesis using o(1) i(3) k by (simp add: startNode_def Emitting_def) (simp add: Halt_def NewHaltState_def)
qed

text \<open>C38. Error behaviour. A halt does not survive a graceful restart: when the halted process is shut down in order, its session row is closed, so the next
  process opens a new session, finds no halt in it and starts emitting, although the halt was never resumed.\<close>

theorem graceful_restart_drops_halt:
  assumes "Live_Halt env kind reason (l, d) = ((l1, d1), x)" "ne_db env 0" "kind \<in> set haltKinds" "lv_sessionID l \<noteq> 0"
    and "filter (running (lc_TraderID cfg)) (nd_sessions d) = [row]" "se_ID row = lv_sessionID l" "distinct (map se_ID (nd_sessions d))" "se_StartedAt row \<le> ne_dbNow env1"
    and "list_all (\<lambda>h. \<forall>i. hr_SessionID h = Some i \<longrightarrow> i < nd_nextSession d) (nd_halts d)" "lv_sessionID l < nd_nextSession d" "0 < nd_nextSession d"
    and "ne_db env1 0" "shutdownNode env1 (l1, d1) = (l1', d2)" "NewLive cfg = Inr l2" "ne_db env2 = (\<lambda>_. True)"
    and "acct_ID (lc_BoundAccount cfg) = [] \<or> snd (upsertAccount True (lc_BoundAccount cfg) d2) = None"
  shows "\<exists>l3 d3. \<not> Emitting (lv_halt l1) \<and> startNode env2 (l2, d2) = ((l3, d3), None) \<and> Emitting (lv_halt l3) \<and> lv_sessionID l3 \<noteq> lv_sessionID l \<and>
    list_ex (activeHalt (Some (lv_sessionID l))) (nd_halts d3)"
proof -
  have h: "haltNode env kind reason (l, d) = (l1, d1)" using assms(1) by (simp add: Live_Halt_def)
  note r = haltNode_rows [OF h assms(2-4)]
  have mem: "row \<in> set (nd_sessions d)" "running (lc_TraderID cfg) row" using assms(5) by (auto dest!: arg_cong [where f = set])
  have u: "z = row" if "z \<in> set (nd_sessions d)" "se_ID z = lv_sessionID l" for z
    using assms(6,7) mem(1) that by (metis distinct_map inj_onD)
  have d2: "nd_sessions d2 = map (\<lambda>z. if se_ID z = lv_sessionID l \<and> se_Running z then z\<lparr>se_Running := False, se_Status := ''STOPPED'', se_EndedAt := Some (ne_dbNow env1)\<rparr> else z) (nd_sessions d)"
    "nd_halts d2 = nd_halts d1" "nd_nextSession d2 = nd_nextSession d"
    using assms(8,12,13) u r(1,2,6) by (auto simp: shutdownNode_def closeSession_def list_all_iff)
  have "filter (running (lc_TraderID cfg)) (nd_sessions d2) = []"
  proof -
    have "\<not> running (lc_TraderID cfg) z" if "z \<in> set (nd_sessions d)" "se_ID z \<noteq> lv_sessionID l \<or> \<not> se_Running z" for z
    proof
      assume "running (lc_TraderID cfg) z"
      then have "z \<in> set (filter (running (lc_TraderID cfg)) (nd_sessions d))" using that(1) by simp
      then show False using assms(5,6) that(2) mem(2) by simp
    qed
    then show ?thesis by (auto simp: d2(1) filter_empty_conv)
  qed
  from restart_opens [OF assms(14,15,16) this] obtain d3 where o: "openSessionRow env2 (l2, d2) = (d3, Inr (nd_nextSession d))" "nd_halts d3 = nd_halts d1"
    using d2(2,3) by metis
  have "\<not> activeHalt (Some (nd_nextSession d)) g" if "g \<in> set (nd_halts d1)" for g
    using r(5) assms(9,10) that unfolding activeHalt_def list_all_iff by fastforce
  then have "filter (activeHalt (Some (nd_nextSession d))) (nd_halts d3) = []" using o(2) by (simp add: filter_empty_conv)
  then have "rehydrateHalt env2 (l2\<lparr>lv_sessionID := nd_nextSession d\<rparr>, d3) = (l2\<lparr>lv_sessionID := nd_nextSession d\<rparr>, d3)"
    using assms(11) by (simp add: rehydrateHalt_def sessionIDValue_def)
  then show ?thesis
    using o r(3) assms(10) NewLive_mode(8) [OF assms(14)] h haltNode_node [of env kind reason "(l, d)"] by (simp add: startNode_def Emitting_def NewHaltState_def)
qed

lemma demo_env: "ne_db demoNodeEnv = (\<lambda>_. True)" "HaltManual \<in> set haltKinds"
  by (simp_all add: demoNodeEnv_def haltKinds_def HaltManual_def)

theorem crash_restart_keeps_halt_witness:
  "\<exists>l1 d1 x l3 d3. Live_Halt demoNodeEnv HaltManual ''op'' demoStarted = ((l1, d1), x) \<and> startNode demoNodeEnv (demoNode signalCfg, d1) = ((l3, d3), None) \<and>
    \<not> Emitting (lv_halt l3) \<and> ht_reason (lv_halt l3) = ''op''"
proof -
  obtain l d where s: "demoStarted = (l, d)" by fastforce
  obtain l1 d1 x where h: "Live_Halt demoNodeEnv HaltManual ''op'' (l, d) = ((l1, d1), x)" by (metis surj_pair)
  note m = demo_started [unfolded s, simplified]
  obtain row where row: "nd_sessions d = [row]" "running (lc_TraderID signalCfg) row" "se_ID row = 1" using m(10) by blast
  have "acct_ID (lc_BoundAccount signalCfg) = []" by (simp add: signalCfg_def noAccount_def)
  then show ?thesis
    using crash_restart_keeps_halt [OF h _ demo_env(2) _ _ _ demo_nodes(1), of row demoNodeEnv] demo_env(1) m(2,11) row h s by auto
qed

theorem graceful_restart_drops_halt_witness:
  "\<exists>l1 d1 x l1' d2 l3 d3. Live_Halt demoNodeEnv HaltManual ''op'' demoStarted = ((l1, d1), x) \<and> shutdownNode demoNodeEnv (l1, d1) = (l1', d2) \<and>
    \<not> Emitting (lv_halt l1) \<and> startNode demoNodeEnv (demoNode signalCfg, d2) = ((l3, d3), None) \<and> Emitting (lv_halt l3)"
proof -
  obtain l d where s: "demoStarted = (l, d)" by fastforce
  obtain l1 d1 x where h: "Live_Halt demoNodeEnv HaltManual ''op'' (l, d) = ((l1, d1), x)" by (metis surj_pair)
  obtain l1' d2 where e: "shutdownNode demoNodeEnv (l1, d1) = (l1', d2)" by fastforce
  note m = demo_started [unfolded s, simplified]
  obtain row where row: "nd_sessions d = [row]" "running (lc_TraderID signalCfg) row" "se_ID row = 1" "se_StartedAt row = 5" using m(10) by blast
  have "acct_ID (lc_BoundAccount signalCfg) = []" "ne_dbNow demoNodeEnv = 5" by (simp_all add: signalCfg_def noAccount_def demoNodeEnv_def)
  then show ?thesis
    using graceful_restart_drops_halt [OF h _ demo_env(2) _ _ _ _ _ _ _ _ _ e demo_nodes(1), of row demoNodeEnv] demo_env(1) m(2,11,12) row h s e by auto
qed

text \<open>C37. Error behaviour. A session whose stream returns an error by itself never ends: \<open>runSession\<close> waits for its watcher, which waits for a stop, a mode switch
  or the end of the process, so the supervisor is blocked, the failure is not counted, the session is not restarted and the node reports it as running
  and healthy.\<close>

theorem failed_stream_blocks_supervisor:
  assumes "\<not> sp_ctxErr sc" "\<not> ht_stopped (lv_halt l)" "\<not> lv_restartCh l" "takeRestartMode l = (l0, mode)" "sp_assembly sc = None"
    and "buildRunnable sc mode (l0, d) = ((l1, d1), None)" "sp_prime sc = None" "list_all quietEvent (sp_events sc)" "EvStreamReturns (Some err) \<in> set (sp_events sc)"
  shows "\<exists>l2 d2. supervise (sc # scs) (l, d) = ((l2, d2), Blocked) \<and> sh_Running (Live_SessionHealth l2) \<and> sh_Healthy (Live_SessionHealth l2)"
proof -
  obtain p l2 d2 where f: "fold runEvent (sp_events sc) (startPhase, markSessionRunning (setRunningMode mode l1), d1) = (p, l2, d2)" by (metis surj_pair)
  have "\<not> lv_restartCh l0" using assms(3,4) by (auto simp: takeRestartMode_def Let_def split: if_splits)
  then have "\<not> lv_restartCh (markSessionRunning (setRunningMode mode l1))" using build_token [OF assms(6)] by (simp add: markSessionRunning_def setRunningMode_def)
  then have "sessionResult p = None \<and> lv_sessionRunning l2 \<and> lv_sessionFailures l2 = 0"
    using quiet_blocks [OF assms(8) _ _ _ f] by (simp add: startPhase_def markSessionRunning_def)
  then show ?thesis using assms(1,2,4-7) f by (simp add: runSession_def Live_SessionHealth_def liveUnhealthyAfter_def)
qed

theorem failed_stream_blocks_supervisor_witness:
  "\<exists>l2 d2. supervise [demoScript [EvStreamReturns (Some CmdDatabase), EvNode (\<lambda>st. fst (Live_Resume demoNodeEnv st)), EvWatch], demoScript []] demoStarted = ((l2, d2), Blocked) \<and>
    sh_Healthy (Live_SessionHealth l2)"
proof -
  let ?es = "[EvStreamReturns (Some CmdDatabase), EvNode (\<lambda>st. fst (Live_Resume demoNodeEnv st)), EvWatch] :: MockVenue RunEvent list"
  obtain l d where s: "demoStarted = (l, d)" by fastforce
  note m = demo_started [unfolded s, simplified]
  have t: "takeRestartMode l = (l, modeSignal)" using m(5,6) by (simp add: takeRestartMode_def Let_def)
  have b: "buildRunnable (demoScript ?es) modeSignal (l, d) = ((l, d), None)"
    using m(7) by (simp add: buildRunnable_def execPolicyForMode_def syncSessionAccount_def resolveAccount_def noAccount_def)
  have "lv_restartCh (fst (fst (Live_Resume demoNodeEnv st))) = lv_restartCh (fst st)" for st by (cases st) (simp add: Live_Resume_def)
  then have q: "list_all quietEvent ?es" using Resume_same [of _ demoNodeEnv] by (simp add: quietEvent_def)
  show ?thesis
    using failed_stream_blocks_supervisor [of "demoScript ?es" l l modeSignal d l d CmdDatabase "[demoScript []]", OF _ m(8,3) t _ b] q s
    by (simp add: demoScript_def del: supervise.simps) blast
qed

text \<open>A mode that validation accepts in another spelling is enqueued and then always refused by the node.\<close>

lemma mode_spelling_refused:
  assumes "mode \<notin> {modeSignal, modePaper, modeLive}"
  shows "snd (Live_SetMode mode st) \<noteq> None"
  using assms by (cases st) (simp add: Live_SetMode_def Let_def)

lemma mode_spelling_valid: "Validate (noCommand\<lparr>cm_Name := NameSetMode, cm_Args := noArgs\<lparr>ca_Mode := ''Signal''\<rparr>\<rparr>) = None"
  by code_simp

text \<open>A halt applied before the session row is open belongs to no session, so no later start finds it.\<close>

lemma early_halt_unscoped:
  assumes "lv_sessionID l = 0" "Live_Halt env kind reason (l, d) = ((l1, d1), x)" "i \<noteq> None"
  shows "filter (activeHalt i) (nd_halts d1) = filter (activeHalt i) (nd_halts d)"
  using assms by (auto simp: Live_Halt_def haltNode_def recordHalt_def sessionIDValue_def activeHalt_def Let_def split: if_splits)

end
