(* ===== verification/Spec2Isabelle.thy ===== *)
theory Spec2Isabelle
  imports Engine_Replay Live_Props Live_Session Sched_Daily Live_Node
begin

text \<open>
  \<^bold>\<open>A verification of the trading core of trade-tms-go.\<close>

  The repository is a trading system written in Go: a market-data store, a back-testing engine, a live
  engine with a broker adapter, a risk gate, strategies, job handlers, an HTTP API and a command line.
  This development models the deterministic core that every mode shares, from the number types up to a
  complete batch run, and proves what makes it correct.  The parts and how they interact:

  \<^item> \<open>internal/domain\<close>: 64-bit fixed-point prices and money, share quantities, enumerations, orders, fills,
    positions, portfolio snapshots, and their wire forms.
  \<^item> \<open>internal/core\<close>: the event queue, the clocks, the batch loop and the streaming loop, the message bus.
  \<^item> \<open>internal/accounting\<close>: positions, the account that settles fills on them, the equity sampler.
  \<^item> \<open>internal/exec\<close>: the fill models and the simulated executor, which turns orders and bars into fills and
    hands them to a sink.
  \<^item> \<open>internal/riskgate\<close>: the allocator, the risk constraints, the gate over both, portfolio health, the
    reconciliation with the broker, and the per-bar context (regime, market caps, earnings).
  \<^item> \<open>internal/data/calendar\<close>: civil dates and the exchange calendar.
  \<^item> \<open>internal/engine\<close>: the batch engine.  It seeds the loop with the bars of the feed, routes each bar to
    the strategies that trade its symbol, gates their signals on a snapshot of the account, submits orders
    to the executor, settles the fills on the account, samples the equity, liquidates at the end and
    builds the result.
  \<^item> \<open>internal/exec/moomoo\<close> with \<open>internal/broker/moomoo\<close>: the executor for a broker.  It places orders through the
    broker's trade port, tracks them in a state machine driven by the broker's pushes, settles the fills on the
    same account, and holds the kill switch, the recovery after a restart and the reflection of the broker's
    state; a mock venue stands in for the broker.
  \<^item> \<open>internal/livetrade\<close> with \<open>internal/commands\<close>: the risk gate and the halt latch ahead of that executor, seeding
    and reconciliation against the broker, the broker-sync desk.
  \<^item> \<open>internal/livengine\<close>: the live session.  It runs the same strategies over a stream of bars, with a no-op executor or an
    injected submitter, and emits signals, intents, state and health once a timestamp is complete.
  \<^item> \<open>internal/jobs\<close>: the durable job queue over a table, and the worker that claims jobs, runs their handlers and
    recovers the claims of dead workers.
  \<^item> \<open>internal/commands\<close> and \<open>internal/runner\<close>: the control plane and the live node.  Operators enqueue commands in a table, the node's
    consumer applies them through its controller, and the node's supervisor runs one session after the other and keeps
    session and halt rows.
  \<^item> \<open>internal/scheduler\<close>: the daily scheduler, which claims each trading day in a ledger and enqueues the day's jobs.

  \<^bold>\<open>Theories.\<close>  \<open>Go_Prelude\<close> fixes the reading of Go: \<open>int64\<close> and \<open>uint64\<close> as 64-bit words read by \<open>sint\<close> and
  \<open>uint\<close>, truncating division, results as \<open>go_error + 'a\<close> (an error keeps its sentinel, not its text), maps as
  association lists whose order is the iteration order, instants as nanoseconds with a zone offset,
  decimal text; and the shared lemmas on maps, digits and stable sorting.  \<open>Half_Even\<close> is rounding half to even
  over the integers.  \<open>Domain_Fixed\<close> and \<open>Domain_Fixed_Format\<close> model \<open>fixed.go\<close> (checked arithmetic, the
  decimal parser, the printers), \<open>Domain_Money\<close> models \<open>money.go\<close>, \<open>Domain_Enums\<close> the enumerations of
  \<open>enums.go\<close>, \<open>signal.go\<close> and \<open>trading.go\<close>, \<open>Domain_Types\<close> the records of \<open>bar.go\<close>, \<open>order.go\<close>, \<open>account.go\<close>,
  \<open>fundamentals.go\<close> and \<open>trading.go\<close>.  \<open>Accounting_Position\<close> and \<open>Accounting_Account\<close> model \<open>math.go\<close>,
  \<open>position.go\<close>, \<open>account.go\<close> and \<open>sampler.go\<close>.  \<open>Core_Queue\<close> and \<open>Core_Loop\<close> model \<open>event.go\<close>, \<open>queue.go\<close>,
  \<open>clock.go\<close>, \<open>loop.go\<close>, \<open>stream.go\<close> and \<open>msgbus.go\<close>.  \<open>Exec_Sim\<close> models \<open>fillmodel.go\<close> and \<open>executor.go\<close>.
  \<open>Risk_Gate\<close> models \<open>decimal.go\<close>, \<open>types.go\<close>, \<open>allocator.go\<close>, \<open>risk_constraints.go\<close>, \<open>portfolio.go\<close>,
  \<open>bridge.go\<close> and \<open>gate_signal.go\<close>; \<open>Risk_Reconcile\<close> models \<open>reconciliation.go\<close>; \<open>Risk_Context\<close> models the
  \<open>context_*.go\<close> files.  \<open>Data_Calendar\<close> models \<open>date.go\<close>, \<open>nyse.go\<close> and \<open>calendar.go\<close>.  \<open>Engine_Run\<close> models
  \<open>engine.go\<close>, \<open>dispatch.go\<close>, \<open>strategy.go\<close>, \<open>recorder.go\<close>, \<open>result.go\<close> and the in-memory feed of
  \<open>feed.go\<close>; \<open>Engine_Props\<close> and \<open>Engine_Replay\<close> prove its properties.  \<open>Broker_Orders\<close> models the records of
  \<open>trade.go\<close>, the status classes of \<open>trd_convert.go\<close> and the state machine of \<open>statemachine.go\<close>; \<open>Broker_Exec\<close>
  models the executor of \<open>executor.go\<close> and \<open>executor_submit.go\<close>, \<open>Broker_Recovery\<close> its other half in
  \<open>executor_recovery.go\<close> and \<open>executor_sync.go\<close>, \<open>Broker_Venue\<close> the mock venue of \<open>venue.go\<close>; \<open>Broker_Flatten\<close>
  holds the interface of a venue and what flattening does on it, \<open>Broker_Runs\<close> the runs of an executor as step
  relations with their properties.  \<open>Live_Trade\<close> models \<open>controller.go\<close> and the files of \<open>livetrade\<close>,
  \<open>Live_Props\<close> proves its properties.  \<open>Live_Session\<close> models \<open>session.go\<close>, \<open>noop.go\<close>, \<open>intent.go\<close>, \<open>signal.go\<close> and \<open>feed.go\<close> of
  \<open>livengine\<close>, with its properties.  \<open>Jobs_Queue\<close> models \<open>job.go\<close> and \<open>queue.go\<close> statement by statement over the rows of
  the table, \<open>Jobs_Lifecycle\<close> is the abstract lifecycle of a job and the proof that every statement follows it,
  \<open>Jobs_Worker\<close> models \<open>worker.go\<close> and \<open>registry.go\<close>, and \<open>Jobs_Props\<close> holds what both guarantee.
  \<open>Sched_Daily\<close> models \<open>scheduler.go\<close>, \<open>ledger.go\<close> and \<open>pipeline.go\<close>, with its properties.  \<open>Commands_Consumer\<close> models
  \<open>commands.go\<close>, \<open>enqueue.go\<close> and \<open>consumer.go\<close>; \<open>Live_Node\<close> models \<open>runner/live.go\<close> as the controller of that consumer and as the
  supervisor of sessions, each session's run being the sequence of what its goroutines and the operators do.

  State is passed explicitly: a method that mutates its receiver returns it, also on the error paths,
  where the source leaves it half updated.  An interface is a record of functions or a function argument:
  a strategy is an interaction tree over the calls of the order submitter, so the theorems on runs hold
  for every strategy that is a function of what it is told.

  \<^bold>\<open>Interfaces\<close> are locales, interpreted on the model: \<open>wire_enum\<close> (an enumeration on the wire),
  \<open>half_even_division\<close> and \<open>checked_number\<close> (rounding division; checked arithmetic with its decimal text, met by prices and
  money), \<open>dispatch_queue\<close> (the queue the loop needs,
  met by the heap), \<open>event_handlers\<close> and \<open>quiet_handlers\<close> (what a loop needs of its handlers, met by the
  engine's), \<open>fill_model\<close> (legs add up to the order, met by both models), \<open>exec_frame\<close> and \<open>engine_frame\<close> (what
  is kept by the sink and the submitter is kept by every operation), \<open>risk_stage\<close> and \<open>risk_pipeline\<close> (a check
  that lets exits pass; two in sequence), \<open>trade_venue\<close> (a venue whose reads change nothing and whose positions move by
  fills only, met by the mock venue), \<open>table_client\<close> (a client of the jobs table whose steps the lifecycle allows, met by the
  queue's statements run by anyone), \<open>node_controller\<close> (a controller whose operations keep a property, met by the live node), \<open>node_invariant\<close>
  (what commands, sessions and restarts keep of the node).

  \<^bold>\<open>What is shown.\<close>  Numbers: the parser computes the half-even rounding of the literal's exact value and
  rejects exactly the non-literals, printers are inverted by it, checked operations are exact.  Accounting:
  settling refines netting over the integers, books move by the cash of the fills up to half a cent each,
  equity and its samples add up.  Loop: the heap is a sorted list, batch runs dispatch the stable sort of
  what was seeded, streams never go back.  Execution: fills add up to their order.  Risk: what approval
  means before and after the fill, agreement of health report and gate, reconciliation lists every symbol
  once and is clean exactly when totals agree, context without look-ahead.  Calendar: dates and day numbers
  correspond, queries return the trading days.  Engine: routing equals a full scan, signals pass the gate,
  positions are the net of the fills, runs return, and the reported profit is the fills' cash flow.  Broker:
  pushes are counted once in whatever order they come, an order only moves forward, the book follows the
  orders, real money needs the whole activation, flattening twice closes once, a sync reaches the broker's
  positions; what a restart forgets.  Live trading: a halted session only closes, live and back-test gating
  agree, recovery books what the broker holds, and what the report after a sync says.  Live
  session: streaming is replay, its bar order is the engine's, a halt pauses emission and nothing else.  Jobs: every statement follows the
  lifecycle, finished jobs are final, claims are ordered and fenced, stale ones are recovered, keys are unique
  among active jobs, and a slot that keeps taking turns settles every job.
  Scheduler: a trading day is enqueued at most once by whoever evaluates it, a due tick leaves both jobs of the day active,
  and what a failed enqueue costs.
  Live node: commands are applied once and in order, real money needs the whole activation, a kill is final, a halt survives a
  crash; what an orderly restart and a stream that fails by itself do.

  \<^bold>\<open>Bounds and fuel.\<close>  \<open>Run\<close> takes a step budget because handlers may schedule more events; the engine's
  schedule none, and one step per seeded event and one more are enough (\<open>run_returns\<close>).  \<open>RunStream\<close> takes one
  for each cascade.  \<open>yearLoop\<close> of the calendar takes 367 steps, more than the days of a year, and
  \<open>NewNYSE\<close> is shown to return.  The digit loops, heap sifts and binary search are total functions.

  \<^bold>\<open>Parameters.\<close>  Float arithmetic (the moving average, slippage and commission rates, the allocation sum
  check) is an argument, since only its comparisons are used; time zones are the two functions of
  \<open>Location\<close>.  Mutexes guard single reads and writes, which are single steps here; reason texts and log
  lines are not modelled; cancellation of a run is a predicate on the number of dispatched events.

  \<^bold>\<open>Not modelled.\<close>  Conversions between fixed-point and float64 and the Python-format timestamps of \<open>domain\<close>;
  the database feed of \<open>engine/feed.go\<close> and the order statistics of \<open>result.go\<close>; the strategies and
  indicators, which are float computations; the assembly and persistence of the runner, the broker's TCP protocol,
  job handlers, API, storage and command line, which are I/O, concurrency and configuration around this core.
\<close>

section \<open>The sample run\<close>

definition demoEngine :: "int Wiring \<times> (unit, int) world" where
  "demoEngine = (case NewEngine intOps demoFeed () demoConfig of Inl e \<Rightarrow> (demoWiring, demoWorld) | Inr x \<Rightarrow> x)"

definition demoRun :: "((unit, int) world \<times> Result result) option" where
  "demoRun = Engine_Run 10 (\<lambda>_. False) demoConfig (fst demoEngine) (snd demoEngine)"

text \<open>What the sample run returns, computed together: fills at the close of the first bar and, by the
  liquidation, of the last; the loop alone drains in six steps.\<close>

lemma demoRun_facts:
  "isOk (NewEngine intOps demoFeed () demoConfig) \<and>
   map_option (\<lambda>(w, r). map_sum id (\<lambda>res. (map (\<lambda>f. (fill_Symbol f, sint (fill_Qty f), sint (fill_Price f))) (re_Fills res),
      sint (re_TotalPnL res), mapGet (en_lastBar (snd w)) ''AB'' = None)) r) demoRun =
    Some (Inr ([(''AB'', 3, 1000003), (''AB'', 3, 1010007)], 30000, False)) \<and>
   map_option (\<lambda>x. snd (traceOf x)) (Run 6 (\<lambda>_. False) (engineHandlers (fst demoEngine)) (fst (snd demoEngine)) (snd (snd demoEngine))) =
     Some Drained \<and>
   demoFeed (cf_Tickers demoConfig) = Inr demoInstruments \<and>
   list_all (\<lambda>b. inNanoRange (bar_TS b)) (concat (map ib_Bars demoInstruments)) \<and>
   length (seededEvents (concat (map ib_Bars demoInstruments))) = 5"
  by code_simp

lemma demoEngine_new: "NewEngine intOps demoFeed () demoConfig = Inr (fst demoEngine, snd demoEngine)"
  using demoRun_facts by (cases "NewEngine intOps demoFeed () demoConfig") (auto simp: demoEngine_def)

lemma demoRun_ok:
  obtains w' res where "Engine_Run 10 (\<lambda>_. False) demoConfig (fst demoEngine) (snd demoEngine) = Some (w', Inr res)"
    "map (\<lambda>f. (fill_Symbol f, sint (fill_Qty f), sint (fill_Price f))) (re_Fills res) = [(''AB'', 3, 1000003), (''AB'', 3, 1010007)]"
    "sint (re_TotalPnL res) = 30000" "mapGet (en_lastBar (snd w')) ''AB'' \<noteq> None"
proof -
  obtain w' r where d: "demoRun = Some (w', r)"
    and f: "map_sum id (\<lambda>res. (map (\<lambda>f. (fill_Symbol f, sint (fill_Qty f), sint (fill_Price f))) (re_Fills res),
      sint (re_TotalPnL res), mapGet (en_lastBar (snd w')) ''AB'' = None)) r = Inr ([(''AB'', 3, 1000003), (''AB'', 3, 1010007)], 30000, False)"
    using conjunct1 [OF conjunct2 [OF demoRun_facts]] by (auto simp: option.map_sel split: prod.splits)
  then obtain res where "r = Inr res" by (cases r) auto
  then show ?thesis using that [of w' res] d f by (auto simp: demoRun_def)
qed

section \<open>Properties of a run\<close>

text \<open>C17. Live and batch runs see the same bars in the same order: the bars a drained batch run dispatches are the stream that the live engine
  builds from the same instruments for its replay.\<close>

theorem live_stream_follows_engine:
  assumes "NewEngine fo feed s0 cfg = Inr (c, (l, en))" "feed (cf_Tickers cfg) = Inr instruments"
    and "list_all (\<lambda>b. inNanoRange (bar_TS b)) (concat (map ib_Bars instruments))"
    and "int (length (seededEvents (concat (map ib_Bars instruments)))) < 2 ^ 64"
    and "Run k cancel (engineHandlers c) l en1 = Some (l', en', tr, Drained)"
  shows "concat (map barOf tr) = BatchBars instruments"
  using NewEngine_run [OF assms] by (auto simp: BatchBars_eq simp flip: bars_of_seeded)

theorem live_stream_follows_engine_witness:
  "\<exists>l' en' tr. Run 6 (\<lambda>_. False) (engineHandlers (fst demoEngine)) (fst (snd demoEngine)) (snd (snd demoEngine)) = Some (l', en', tr, Drained) \<and>
    concat (map barOf tr) = BatchBars demoInstruments"
proof -
  obtain l' en' tr where r: "Run 6 (\<lambda>_. False) (engineHandlers (fst demoEngine)) (fst (snd demoEngine)) (snd (snd demoEngine)) = Some (l', en', tr, Drained)"
    using demoRun_facts by (auto simp: traceOf_def)
  have "NewEngine intOps demoFeed () demoConfig = Inr (fst demoEngine, (fst (snd demoEngine), snd (snd demoEngine)))"
    using demoEngine_new by simp
  then show ?thesis using live_stream_follows_engine [OF _ _ _ _ r] r demoRun_facts by fastforce
qed

text \<open>C2. Deterministic replay: whatever the strategies do, a batch run dispatches the seeded events, one per
  bar and one sample per distinct timestamp, in the stable order of (timestamp, kind): bars before samples,
  bars of a timestamp in feed order.  A run that stops early dispatched a prefix of that order; a run that
  drains dispatched all of it.\<close>

theorem run_dispatches_seeded_events:
  assumes "NewEngine fo feed s0 cfg = Inr (c, (l, en))" "feed (cf_Tickers cfg) = Inr instruments"
    and "list_all (\<lambda>b. inNanoRange (bar_TS b)) (concat (map ib_Bars instruments))"
    and "int (length (seededEvents (concat (map ib_Bars instruments)))) < 2 ^ 64"
    and "Run k cancel (engineHandlers c) l en1 = Some (l', en', tr, r)"
  shows "\<exists>rest. sort_key evKey (seededEvents (concat (map ib_Bars instruments))) = tr @ rest \<and> (r = Drained \<longrightarrow> rest = [])"
  by (rule NewEngine_run [OF assms])

theorem run_dispatches_seeded_events_witness:
  "\<exists>l' en' tr. Run 6 (\<lambda>_. False) (engineHandlers (fst demoEngine)) (fst (snd demoEngine)) (snd (snd demoEngine)) = Some (l', en', tr, Drained) \<and>
    tr = sort_key evKey (seededEvents (concat (map ib_Bars demoInstruments))) \<and> length tr = 5"
proof -
  let ?run = "Run 6 (\<lambda>_. False) (engineHandlers (fst demoEngine)) (fst (snd demoEngine)) (snd (snd demoEngine))"
  obtain l' en' tr where r: "?run = Some (l', en', tr, Drained)" using demoRun_facts by (auto simp: traceOf_def)
  have "NewEngine intOps demoFeed () demoConfig = Inr (fst demoEngine, (fst (snd demoEngine), snd (snd demoEngine)))"
    using demoEngine_new by simp
  moreover have "demoFeed (cf_Tickers demoConfig) = Inr demoInstruments"
    "list_all (\<lambda>b. inNanoRange (bar_TS b)) (concat (map ib_Bars demoInstruments))"
    and len: "length (seededEvents (concat (map ib_Bars demoInstruments))) = 5"
    using demoRun_facts by blast+
  ultimately have "sort_key evKey (seededEvents (concat (map ib_Bars demoInstruments))) = tr"
    using run_dispatches_seeded_events [OF _ _ _ _ r] by fastforce
  then show ?thesis using r len by (metis length_sort)
qed

text \<open>C27. A run returns: one step per seeded event and one to find the queue empty are enough, whatever the
  strategies, the fill model and the gate do.\<close>

theorem run_returns:
  assumes "NewEngine fo feed s0 cfg = Inr (c, w)" "feed (cf_Tickers cfg) = Inr instruments"
    and "list_all (\<lambda>b. inNanoRange (bar_TS b)) (concat (map ib_Bars instruments))"
    and "length (seededEvents (concat (map ib_Bars instruments))) < fuel"
    and "int (length (seededEvents (concat (map ib_Bars instruments)))) < 2 ^ 64"
  shows "\<exists>w' res. Engine_Run fuel cancel cfg c w = Some (w', res)"
  using Engine_Run_returns [OF assms, of cancel] by auto

theorem run_returns_witness: "\<exists>w' res. Engine_Run 6 (\<lambda>n. n = 3) demoConfig (fst demoEngine) (snd demoEngine) = Some (w', res)"
  using run_returns [OF demoEngine_new] demoRun_facts by simp

text \<open>C8. The positions a finished run reports are the net of the fills it reports: for every strategy and
  symbol the quantity held is the sum of the signed fill quantities, liquidation included.\<close>

theorem positions_are_net_of_fills:
  assumes "NewEngine fo feed s0 cfg = Inr (c, w)" "Engine_Run fuel cancel cfg c w = Some (w', Inr res)"
  shows "sint (signedQty (posOf (en_acct (snd w')) (sid, sy))) =
    (\<Sum>f\<leftarrow>filter (\<lambda>f. fill_StrategyID f = sid \<and> fill_Symbol f = sy) (re_Fills res). signedFill f)"
  using Engine_Run_positions [OF assms, of "(sid, sy)"] by (simp add: heldQty_def netFills_def fillKey_def)

theorem positions_are_net_of_fills_witness:
  "\<exists>w' res. Engine_Run 10 (\<lambda>_. False) demoConfig (fst demoEngine) (snd demoEngine) = Some (w', Inr res) \<and> length (re_Fills res) = 2 \<and>
    sint (signedQty (posOf (en_acct (snd w')) (''s'', ''AB''))) =
      (\<Sum>f\<leftarrow>filter (\<lambda>f. fill_StrategyID f = ''s'' \<and> fill_Symbol f = ''AB'') (re_Fills res). signedFill f)"
proof -
  obtain w' res where d: "Engine_Run 10 (\<lambda>_. False) demoConfig (fst demoEngine) (snd demoEngine) = Some (w', Inr res)"
    "map (\<lambda>f. (fill_Symbol f, sint (fill_Qty f), sint (fill_Price f))) (re_Fills res) = [(''AB'', 3, 1000003), (''AB'', 3, 1010007)]"
    by (rule demoRun_ok)
  have "length (re_Fills res) = 2" using arg_cong [OF d(2), of length] by simp
  then show ?thesis using d(1) positions_are_net_of_fills [OF demoEngine_new d(1)] by blast
qed

text \<open>C1. The reported profit is earned by the reported fills: after a finished run every position is flat, the
  final balance is the starting balance plus the profit, and the profit is the cash the fills moved up to half
  a cent per fill, provided every filled symbol had a bar and the traded volume fits in 64 bits.\<close>

theorem profit_is_cash_flow:
  assumes "NewEngine fo feed s0 cfg = Inr (c, w)" "Engine_Run fuel cancel cfg c w = Some (w', Inr res)"
    and "turnover (re_Fills res) < 2 ^ 63"
    and "list_all (\<lambda>f. mapGet (en_lastBar (snd w')) (fill_Symbol f) \<noteq> None) (re_Fills res)"
  shows "signedQty (posOf (en_acct (snd w')) key) = 0 \<and>
    sint (re_FinalBalance res) = sint (re_StartingBalance res) + sint (re_TotalPnL res) \<and>
    \<bar>sint (re_TotalPnL res) - cashFlow (re_Fills res)\<bar> \<le> 50 * int (length (re_Fills res))"
  using Engine_Run_pnl(1) [OF assms(1-3), of key] Engine_Run_pnl(2,3) [OF assms(1-3)] assms(4)
  unfolding list_all_iff heldQty_def by auto

theorem profit_is_cash_flow_witness:
  "\<exists>w' res. Engine_Run 10 (\<lambda>_. False) demoConfig (fst demoEngine) (snd demoEngine) = Some (w', Inr res) \<and>
    \<bar>30000 - cashFlow (re_Fills res)\<bar> \<le> 100"
proof -
  obtain w' res where d: "Engine_Run 10 (\<lambda>_. False) demoConfig (fst demoEngine) (snd demoEngine) = Some (w', Inr res)"
    "map (\<lambda>f. (fill_Symbol f, sint (fill_Qty f), sint (fill_Price f))) (re_Fills res) = [(''AB'', 3, 1000003), (''AB'', 3, 1010007)]"
    "sint (re_TotalPnL res) = 30000" "mapGet (en_lastBar (snd w')) ''AB'' \<noteq> None"
    by (rule demoRun_ok)
  obtain f g where fs: "re_Fills res = [f, g]" "fill_Symbol f = ''AB''" "fill_Symbol g = ''AB''" "sint (fill_Qty f) = 3" "sint (fill_Qty g) = 3"
    using d(2) by (auto simp: map_eq_Cons_conv)
  have "turnover (re_Fills res) < 2 ^ 63" using fs by (simp add: turnover_def)
  moreover have "list_all (\<lambda>f. mapGet (en_lastBar (snd w')) (fill_Symbol f) \<noteq> None) (re_Fills res)" using fs d(4) by simp
  ultimately have "\<bar>30000 - cashFlow (re_Fills res)\<bar> \<le> 50 * int (length (re_Fills res))"
    using profit_is_cash_flow [OF demoEngine_new d(1)] d(3) by simp
  then show ?thesis using d(1) fs(1) by auto
qed

end
